(* ===== verification/Adb_Prelude.thy ===== *)
theory Adb_Prelude
  imports Main "HOL-Library.Word"
begin

text \<open>
  Shared vocabulary of the development: the result type in which an aborting branch of the
  program (a failed \<open>CHECK\<close>, a \<open>LOG(FATAL)\<close>, an access outside a buffer) is a value, the
  unsigned 64-bit subtraction of \<open>size_t\<close>, the little-endian image of a \<open>uint32_t\<close>, and the
  lemmas on lists and bytes that the component theories share.
\<close>

unbundle bit_operations_syntax

named_theorems result_simps \<open>rewriting of the result combinators\<close>
named_theorems block_simps \<open>projections and lengths of buffers\<close>

subsection \<open>Bytes, words and aborting results\<close>

type_synonym bytes = "char list"
type_synonym u32 = "32 word"

text \<open>
  How a run can stop in the middle: \<open>Check_failed\<close> is a \<open>CHECK\<close> macro, \<open>Fatal\<close> a
  \<open>LOG(FATAL)\<close>, \<open>Out_of_range\<close> an access outside an array or vector (undefined behaviour in
  the program), \<open>Null_deref\<close> a dereferenced null pointer, \<open>Dangling\<close> a dereferenced pointer to a
  deleted object and \<open>Uncaught\<close> an exception no caller catches; \<open>Exit\<close> is a call of \<open>exit(0)\<close>, and
  \<open>Out_of_fuel\<close> a recursion deeper than the model follows, which the theorems show not to happen.
\<close>

datatype fault =
  Check_failed | Fatal | Out_of_range | Null_deref | Dangling | Uncaught | Exit | Out_of_fuel

type_synonym 'a result = "fault + 'a"

definition rbind :: "'a result \<Rightarrow> ('a \<Rightarrow> 'b result) \<Rightarrow> 'b result" where
  "rbind m f = (case m of Inl e \<Rightarrow> Inl e | Inr x \<Rightarrow> f x)"

definition rcheck :: "bool \<Rightarrow> 'a result \<Rightarrow> 'a result" where
  "rcheck b m = (if b then m else Inl Check_failed)"

definition of_option :: "fault \<Rightarrow> 'a option \<Rightarrow> 'a result" where
  "of_option e x = (case x of None \<Rightarrow> Inl e | Some y \<Rightarrow> Inr y)"

lemma rbind_Inl [simp, result_simps]: "rbind (Inl e) f = Inl e"
  by (simp add: rbind_def)

lemma rbind_Inr [simp, result_simps]: "rbind (Inr x) f = f x"
  by (simp add: rbind_def)

lemma rcheck_True [simp, result_simps]: "rcheck True m = m"
  by (simp add: rcheck_def)

lemma rcheck_False [simp, result_simps]: "rcheck False m = Inl Check_failed"
  by (simp add: rcheck_def)

lemma rbind_cong [fundef_cong]:
  "m = m' \<Longrightarrow> (\<And>x. m' = Inr x \<Longrightarrow> f x = f' x) \<Longrightarrow> rbind m f = rbind m' f'"
  by (cases m') auto

lemma rbind_eq_Inr: "rbind m f = Inr y \<longleftrightarrow> (\<exists>x. m = Inr x \<and> f x = Inr y)"
  by (cases m) auto

lemma rcheck_eq_Inr: "rcheck b m = Inr y \<longleftrightarrow> b \<and> m = Inr y"
  by (simp add: rcheck_def)

lemma of_option_simps [simp, result_simps]:
  "of_option e None = Inl e"
  "of_option e (Some x) = Inr x"
  by (simp_all add: of_option_def)

lemma of_option_eq_Inr: "of_option e x = Inr y \<longleftrightarrow> x = Some y"
  by (cases x) auto

text \<open>A result that is either good or a regular end of the program.\<close>

definition safe :: "('a \<Rightarrow> bool) \<Rightarrow> 'a result \<Rightarrow> bool" where
  "safe Q m \<longleftrightarrow> (case m of Inl e \<Rightarrow> e = Exit | Inr x \<Rightarrow> Q x)"

lemma safe_Inr [simp]: "safe Q (Inr x) \<longleftrightarrow> Q x"
  by (simp add: safe_def)

lemma safe_Inl [simp]: "safe Q (Inl e) \<longleftrightarrow> e = Exit"
  by (simp add: safe_def)

lemma safe_rbind: "safe P m \<Longrightarrow> (\<And>x. P x \<Longrightarrow> safe Q (f x)) \<Longrightarrow> safe Q (rbind m f)"
  by (cases m) auto

lemma safe_mono: "safe P m \<Longrightarrow> (\<And>x. P x \<Longrightarrow> Q x) \<Longrightarrow> safe Q m"
  by (cases m) auto

text \<open>The same for an operation that may also stop with one of the faults \<open>F\<close>.\<close>

definition safe_but :: "fault set \<Rightarrow> ('a \<Rightarrow> bool) \<Rightarrow> 'a result \<Rightarrow> bool" where
  "safe_but F Q m \<longleftrightarrow> (case m of Inl e \<Rightarrow> e = Exit \<or> e \<in> F | Inr x \<Rightarrow> Q x)"

lemma safe_but_Inr [simp]: "safe_but F Q (Inr x) \<longleftrightarrow> Q x"
  by (simp add: safe_but_def)

lemma safe_but_Inl [simp]: "safe_but F Q (Inl e) \<longleftrightarrow> e = Exit \<or> e \<in> F"
  by (simp add: safe_but_def)

lemma safe_but_rbind: "safe_but F P m \<Longrightarrow> (\<And>x. P x \<Longrightarrow> safe_but F Q (f x)) \<Longrightarrow> safe_but F Q (rbind m f)"
  by (cases m) auto

lemma safe_but_mono: "safe_but F P m \<Longrightarrow> F \<subseteq> G \<Longrightarrow> (\<And>x. P x \<Longrightarrow> Q x) \<Longrightarrow> safe_but G Q m"
  by (cases m) auto

lemma safe_but_safe: "safe P m \<Longrightarrow> safe_but F P m"
  by (cases m) auto

lemma rbind_assoc: "rbind (rbind m f) g = rbind m (\<lambda>x. rbind (f x) g)"
  by (cases m) simp_all

text \<open>Element access in a \<open>std::vector\<close>; an index past the end is undefined behaviour.\<close>

definition vec_at :: "'a list \<Rightarrow> nat \<Rightarrow> 'a result" where
  "vec_at xs i = (if i < length xs then Inr (xs ! i) else Inl Out_of_range)"

lemma vec_at_ok [simp]: "i < length xs \<Longrightarrow> vec_at xs i = Inr (xs ! i)"
  by (simp add: vec_at_def)

lemma vec_at_bad [simp]: "length xs \<le> i \<Longrightarrow> vec_at xs i = Inl Out_of_range"
  by (simp add: vec_at_def)

text \<open>Subtraction of \<open>size_t\<close> values wraps around at 64 bits.\<close>

definition size_sub :: "nat \<Rightarrow> nat \<Rightarrow> nat" where
  "size_sub a b = (if b \<le> a then a - b else 2 ^ 64 + a - b)"

lemma size_sub_le [simp]: "b \<le> a \<Longrightarrow> size_sub a b = a - b"
  by (simp add: size_sub_def)

text \<open>\<open>memcpy\<close> of \<open>src\<close> to the offset \<open>off\<close> of a buffer, and \<open>n\<close> bytes read at \<open>off\<close>.\<close>

definition mem_write :: "bytes \<Rightarrow> nat \<Rightarrow> bytes \<Rightarrow> bytes result" where
  "mem_write buf off src =
     (if off + length src \<le> length buf
      then Inr (take off buf @ src @ drop (off + length src) buf) else Inl Out_of_range)"

definition mem_read :: "bytes \<Rightarrow> nat \<Rightarrow> nat \<Rightarrow> bytes result" where
  "mem_read buf off n =
     (if off + n \<le> length buf then Inr (take n (drop off buf)) else Inl Out_of_range)"

lemma mem_write_ok [simp]:
  "off + length src \<le> length buf \<Longrightarrow>
     mem_write buf off src = Inr (take off buf @ src @ drop (off + length src) buf)"
  by (simp add: mem_write_def)

lemma mem_read_ok [simp]:
  "off + n \<le> length buf \<Longrightarrow> mem_read buf off n = Inr (take n (drop off buf))"
  by (simp add: mem_read_def)

subsection \<open>Little-endian images\<close>

definition le32 :: "u32 \<Rightarrow> bytes" where
  "le32 w = [char_of (unat w), char_of (unat w div 256), char_of (unat w div 65536),
             char_of (unat w div 16777216)]"

text \<open>The word in the first four bytes at an address; shorter input gives 0.\<close>

fun le32_nat :: "bytes \<Rightarrow> nat" where
  "le32_nat (a # b # c # d # _) =
     of_char a + 256 * of_char b + 65536 * of_char c + 16777216 * of_char d"
| "le32_nat _ = 0"

definition of_le32 :: "bytes \<Rightarrow> u32" where
  "of_le32 bs = of_nat (le32_nat bs)"

lemma length_le32 [simp]: "length (le32 w) = 4"
  by (simp add: le32_def)

lemma base256_digits:
  fixes n :: nat
  assumes "n < 4294967296"
  shows "n mod 256 + 256 * (n div 256 mod 256) + 65536 * (n div 65536 mod 256)
           + 16777216 * (n div 16777216 mod 256) = n"
proof -
  have a: "n div 65536 = n div 256 div 256" and b: "n div 16777216 = n div 256 div 256 div 256"
    by (simp_all add: div_mult2_eq [symmetric])
  have "n div 256 div 256 div 256 < 256"
    using assms by (simp add: div_mult2_eq [symmetric] less_mult_imp_div_less)
  then have "n div 256 div 256 div 256 mod 256 = n div 256 div 256 div 256" by simp
  moreover have "256 * (n div 256) + n mod 256 = n"
    "256 * (n div 256 div 256) + n div 256 mod 256 = n div 256"
    "256 * (n div 256 div 256 div 256) + n div 256 div 256 mod 256 = n div 256 div 256"
    by (rule mult_div_mod_eq)+
  ultimately show ?thesis unfolding a b by linarith
qed

lemma unat_u32_less: "unat (w :: u32) < 4294967296"
  using unsigned_less [of w, where ?'a = nat] by simp

lemma le32_nat_le32: "le32_nat (le32 w @ bs) = unat w"
  unfolding le32_def append.simps le32_nat.simps of_char_of
  by (rule base256_digits [OF unat_u32_less])

lemma of_le32_le32_append [simp]: "of_le32 (le32 w @ bs) = w"
  by (simp add: of_le32_def le32_nat_le32)

lemma of_le32_le32 [simp]: "of_le32 (le32 w) = w"
  using of_le32_le32_append [of w "[]"] by simp

lemma of_char_less_256 [simp]: "of_char c < (256 :: nat)"
  by (metis of_char_mod_256 mod_less_divisor zero_less_numeral)

lemma le32_nat_less: "le32_nat bs < 4294967296"
proof (cases bs rule: le32_nat.cases)
  case (1 a b c d rest)
  then show ?thesis
    using of_char_less_256 [of a] of_char_less_256 [of b] of_char_less_256 [of c]
      of_char_less_256 [of d] by (simp add: less_Suc_eq_le del: of_char_less_256)
qed simp_all

lemma unat_of_le32: "unat (of_le32 bs) = le32_nat bs"
  using le32_nat_less [of bs] by (simp add: of_le32_def unat_of_nat)

lemma char_of_digits:
  fixes c :: char and n m :: nat
  assumes "m < k" "n = m + k * (of_char c + 256 * j)"
  shows "char_of (n div k) = c"
proof -
  have "n div k = of_char c + 256 * j" using assms by simp
  then have "char_of (n div k) = (char_of (of_char c + 256 * j) :: char)" by simp
  also have "\<dots> = char_of ((of_char c + 256 * j) mod 256)" by (simp only: char_of_mod_256)
  also have "\<dots> = c" by (simp only: mod_mult_self2 of_char_mod_256 char_of_char)
  finally show ?thesis .
qed

lemma le32_of_le32:
  assumes "length bs = 4"
  shows "le32 (of_le32 bs) = bs"
proof -
  obtain a b c d where bs: "bs = [a, b, c, d]"
    using assms by (auto simp: numeral_eq_Suc length_Suc_conv)
  let ?n = "le32_nat bs"
  let ?a = "of_char a :: nat" and ?b = "of_char b :: nat"
  let ?c = "of_char c :: nat" and ?d = "of_char d :: nat"
  note less = of_char_less_256 [of a] of_char_less_256 [of b] of_char_less_256 [of c]
  have "char_of (?n div 1) = a"
    by (rule char_of_digits [where m = 0 and j = "?b + 256 * ?c + 65536 * ?d"])
      (simp_all add: bs)
  moreover have "char_of (?n div 256) = b"
    by (rule char_of_digits [where m = "?a" and j = "?c + 256 * ?d"]) (simp_all add: bs)
  moreover have "char_of (?n div 65536) = c"
    using less by (intro char_of_digits [where m = "?a + 256 * ?b" and j = "?d"])
      (simp_all add: bs del: of_char_less_256)
  moreover have "char_of (?n div 16777216) = d"
    using less by (intro char_of_digits [where m = "?a + 256 * ?b + 65536 * ?c" and j = 0])
      (simp_all add: bs del: of_char_less_256)
  ultimately show ?thesis by (simp add: le32_def unat_of_le32 bs)
qed

end
