(* ===== verification/Block.thy ===== *)
theory Block
  imports Adb_Prelude
begin

text \<open>
  \<open>struct Block\<close> of \<open>types.h\<close>: a heap buffer with a size, a capacity and a cursor that
  \<open>fillFrom\<close> advances. The fields \<open>data_\<close>, \<open>capacity_\<close>, \<open>size_\<close> and \<open>position_\<close> are
  \<open>bdata\<close> (\<open>None\<close> is the null pointer), \<open>bcapacity\<close>, \<open>bsize\<close> and \<open>bposition\<close>. Fresh memory from
  \<open>new char[n]\<close> is not initialised, so the operations that allocate take the bytes found there as
  the argument \<open>fresh\<close>.
\<close>

record block =
  bdata :: "bytes option"
  bcapacity :: nat
  bsize :: nat
  bposition :: nat

subsection \<open>Operations\<close>

definition block_empty :: block where
  "block_empty = \<lparr>bdata = None, bcapacity = 0, bsize = 0, bposition = 0\<rparr>"

definition block_allocate :: "(nat \<Rightarrow> char) \<Rightarrow> block \<Rightarrow> nat \<Rightarrow> block result" where
  "block_allocate fresh b n =
     rcheck (bdata b = None) (rcheck (bcapacity b = 0) (rcheck (bsize b = 0)
       (Inr (if n \<noteq> 0
             then b\<lparr>bdata := Some (map fresh [0..<n]), bcapacity := n, bsize := n\<rparr>
             else b))))"

text \<open>Access through \<open>data()\<close>: nothing is touched when no byte is.\<close>

definition block_store :: "block \<Rightarrow> nat \<Rightarrow> bytes \<Rightarrow> block result" where
  "block_store b off src =
     (if src = [] then Inr b
      else rbind (of_option Null_deref (bdata b)) (\<lambda>d.
           rbind (mem_write d off src) (\<lambda>d'. Inr (b\<lparr>bdata := Some d'\<rparr>))))"

definition block_load :: "block \<Rightarrow> nat \<Rightarrow> nat \<Rightarrow> bytes result" where
  "block_load b off n =
     (if n = 0 then Inr []
      else rbind (of_option Null_deref (bdata b)) (\<lambda>d. mem_read d off n))"

text \<open>The constructors \<open>Block(size_t)\<close> and \<open>Block(begin, end)\<close>.\<close>

definition block_new :: "(nat \<Rightarrow> char) \<Rightarrow> nat \<Rightarrow> block result" where
  "block_new fresh n = block_allocate fresh block_empty n"

definition block_of_range :: "(nat \<Rightarrow> char) \<Rightarrow> bytes \<Rightarrow> block result" where
  "block_of_range fresh bs = rbind (block_new fresh (length bs)) (\<lambda>b. block_store b 0 bs)"

definition block_clear :: "block \<Rightarrow> block" where
  "block_clear b = \<lparr>bdata = None, bcapacity = 0, bsize = 0, bposition = 0\<rparr>"

text \<open>
  The moves return the new block and what is left of the old one. The assignment is written one
  \<open>std::exchange\<close> at a time: its last one reads \<open>move.size_\<close>, which the third has just set to 0.
\<close>

definition block_move_construct :: "block \<Rightarrow> block \<times> block" where
  "block_move_construct src =
     (\<lparr>bdata = bdata src, bcapacity = bcapacity src, bsize = bsize src, bposition = bposition src\<rparr>,
      src\<lparr>bdata := None, bcapacity := 0, bsize := 0, bposition := 0\<rparr>)"

definition block_move_assign :: "block \<Rightarrow> block \<Rightarrow> block \<times> block" where
  "block_move_assign dst src =
     (let this0 = block_clear dst;
          this1 = this0\<lparr>bdata := bdata src\<rparr>; src1 = src\<lparr>bdata := None\<rparr>;
          this2 = this1\<lparr>bcapacity := bcapacity src1\<rparr>; src2 = src1\<lparr>bcapacity := 0\<rparr>;
          this3 = this2\<lparr>bsize := bsize src2\<rparr>; src3 = src2\<lparr>bsize := 0\<rparr>;
          this4 = this3\<lparr>bposition := bsize src3\<rparr>; src4 = src3\<lparr>bsize := 0\<rparr>
      in (this4, src4))"

definition block_resize :: "(nat \<Rightarrow> char) \<Rightarrow> block \<Rightarrow> nat \<Rightarrow> block result" where
  "block_resize fresh b n =
     (if bdata b = None then block_allocate fresh b n
      else rcheck (n \<le> bcapacity b) (Inr (b\<lparr>bsize := n\<rparr>)))"

definition block_assign :: "(nat \<Rightarrow> char) \<Rightarrow> block \<Rightarrow> bytes \<Rightarrow> block result" where
  "block_assign fresh b bs =
     rbind (block_allocate fresh (block_clear b) (length bs)) (\<lambda>b'. block_store b' 0 bs)"

definition block_remaining :: "block \<Rightarrow> nat" where
  "block_remaining b = size_sub (bsize b) (bposition b)"

definition block_is_full :: "block \<Rightarrow> bool" where
  "block_is_full b \<longleftrightarrow> block_remaining b = 0"

text \<open>\<open>fillFrom\<close> returns this block, the block read from and the number of bytes copied.\<close>

definition block_fillFrom :: "block \<Rightarrow> block \<Rightarrow> (block \<times> block \<times> nat) result" where
  "block_fillFrom b from =
     (let n = min (block_remaining b) (block_remaining from)
      in rbind (block_load from (bposition from) n) (\<lambda>src.
         rbind (block_store b (bposition b) src) (\<lambda>b'.
           Inr (b'\<lparr>bposition := bposition b' + n\<rparr>,
                from\<lparr>bposition := bposition from + n\<rparr>, n))))"

definition block_rewind :: "block \<Rightarrow> block" where
  "block_rewind b = b\<lparr>bposition := 0\<rparr>"

definition block_eq :: "block \<Rightarrow> block \<Rightarrow> bool result" where
  "block_eq a b =
     (if bsize a = bsize b
      then rbind (block_load a 0 (bsize a)) (\<lambda>x.
           rbind (block_load b 0 (bsize a)) (\<lambda>y. Inr (x = y)))
      else Inr False)"

subsection \<open>Invariant and contents\<close>

definition wf_block :: "block \<Rightarrow> bool" where
  "wf_block b \<longleftrightarrow>
     (case bdata b of
        None \<Rightarrow> bcapacity b = 0
      | Some d \<Rightarrow> length d = bcapacity b \<and> 0 < bcapacity b)
     \<and> bposition b \<le> bsize b \<and> bsize b \<le> bcapacity b"

definition block_bytes :: "block \<Rightarrow> bytes" where
  "block_bytes b = (case bdata b of None \<Rightarrow> [] | Some d \<Rightarrow> take (bsize b) d)"

definition block_read :: "block \<Rightarrow> bytes" where
  "block_read b = take (bposition b) (block_bytes b)"

definition block_unread :: "block \<Rightarrow> bytes" where
  "block_unread b = drop (bposition b) (block_bytes b)"

lemma block_read_unread: "block_read b @ block_unread b = block_bytes b"
  by (simp add: block_read_def block_unread_def)

lemma length_block_bytes [block_simps]: "wf_block b \<Longrightarrow> length (block_bytes b) = bsize b"
  by (auto simp: wf_block_def block_bytes_def split: option.splits)

lemma length_block_unread [block_simps]:
  "wf_block b \<Longrightarrow> length (block_unread b) = bsize b - bposition b"
  by (simp add: block_unread_def block_simps)

lemma length_block_read [block_simps]: "wf_block b \<Longrightarrow> length (block_read b) = bposition b"
  by (auto simp: block_read_def block_simps wf_block_def)

lemma block_remaining_unread [block_simps]:
  "wf_block b \<Longrightarrow> block_remaining b = length (block_unread b)"
  by (simp add: block_remaining_def length_block_unread wf_block_def)

lemma wf_block_empty [simp]: "wf_block block_empty"
  by (simp add: wf_block_def block_empty_def)

lemma block_bytes_empty [simp]: "block_bytes block_empty = []"
  by (simp add: block_bytes_def block_empty_def)

lemma block_clear_empty [simp]: "block_clear b = block_empty"
  by (simp add: block_clear_def block_empty_def)

lemma wf_block_rewind [simp]: "wf_block b \<Longrightarrow> wf_block (block_rewind b)"
  by (auto simp: wf_block_def block_rewind_def split: option.splits)

lemma block_bytes_rewind [simp]: "block_bytes (block_rewind b) = block_bytes b"
  by (simp add: block_bytes_def block_rewind_def split: option.split)

lemma block_rewind_read_unread [simp]:
  "block_read (block_rewind b) = []" "block_unread (block_rewind b) = block_bytes b"
  by (simp_all add: block_read_def block_unread_def block_rewind_def block_bytes_def
      split: option.split)

lemma block_rewind_simps [simp]:
  "bposition (block_rewind b) = 0" "bsize (block_rewind b) = bsize b"
  by (simp_all add: block_rewind_def)

lemma wf_block_sized: "wf_block b \<Longrightarrow> bsize b = 0 \<or> (\<exists>d. bdata b = Some d \<and> bsize b \<le> length d)"
  by (auto simp: wf_block_def split: option.splits)

text \<open>Reads and writes inside the size of a well-formed block succeed.\<close>

lemma block_load_ok:
  "wf_block b \<Longrightarrow> off + n \<le> bsize b \<Longrightarrow> block_load b off n = Inr (take n (drop off (block_bytes b)))"
  by (auto simp: block_load_def block_bytes_def wf_block_def min_def drop_take split: option.splits)

lemma block_store_ok:
  assumes "wf_block b" "off + length src \<le> bsize b"
  shows "\<exists>b'. block_store b off src = Inr b' \<and> wf_block b' \<and> bsize b' = bsize b
           \<and> bposition b' = bposition b \<and> bcapacity b' = bcapacity b
           \<and> block_bytes b' = take off (block_bytes b) @ src @ drop (off + length src) (block_bytes b)"
proof (cases "src = []")
  case True
  with assms show ?thesis by (auto simp: block_store_def)
next
  case False
  with assms obtain d where d: "bdata b = Some d" "length d = bcapacity b" "bsize b \<le> bcapacity b"
    by (auto simp: wf_block_def split: option.splits)
  moreover from False assms(2) have "off < bsize b" by (cases src) simp_all
  ultimately show ?thesis using assms False
    by (auto simp: block_store_def wf_block_def block_bytes_def min_def drop_take)
qed

lemma block_allocate_empty:
  "block_allocate fresh block_empty n =
     Inr (if n = 0 then block_empty
          else \<lparr>bdata = Some (map fresh [0..<n]), bcapacity = n, bsize = n, bposition = 0\<rparr>)"
  by (simp add: block_allocate_def block_empty_def)

text \<open>What every constructor from a byte range builds, whatever the fresh memory held.\<close>

definition block_of :: "bytes \<Rightarrow> block" where
  "block_of bs = (if bs = [] then block_empty
     else \<lparr>bdata = Some bs, bcapacity = length bs, bsize = length bs, bposition = 0\<rparr>)"

lemma wf_block_of [simp]: "wf_block (block_of bs)"
  by (simp add: block_of_def wf_block_def block_empty_def)

lemma block_of_simps [simp, block_simps]:
  "block_bytes (block_of bs) = bs" "bsize (block_of bs) = length bs" "bposition (block_of bs) = 0"
  "bcapacity (block_of bs) = length bs" "block_unread (block_of bs) = bs" "block_read (block_of bs) = []"
  by (simp_all add: block_of_def block_bytes_def block_empty_def block_unread_def block_read_def)

lemma block_of_range_eq: "block_of_range fresh bs = Inr (block_of bs)"
  by (simp add: block_of_range_def block_new_def block_allocate_empty block_store_def block_of_def
      mem_write_def)

lemma block_assign_eq: "block_assign fresh b bs = Inr (block_of bs)"
  by (simp add: block_assign_def block_allocate_empty block_store_def block_of_def mem_write_def)

lemma block_new_ok:
  "\<exists>b. block_new fresh n = Inr b \<and> wf_block b \<and> bsize b = n \<and> bposition b = 0"
  unfolding block_new_def block_allocate_empty by (simp add: wf_block_def block_empty_def)

text \<open>\<open>fillFrom\<close> appends to what this block has read and consumes exactly that from the other.\<close>

lemma block_fillFrom_ok:
  assumes b: "wf_block b" and f: "wf_block from"
    and n: "n = min (length (block_unread b)) (length (block_unread from))"
  shows "\<exists>b' from'. block_fillFrom b from = Inr (b', from', n) \<and> wf_block b' \<and> wf_block from'
           \<and> block_read b' = block_read b @ take n (block_unread from)
           \<and> bsize b' = bsize b \<and> bposition b' = bposition b + n
           \<and> block_unread from' = drop n (block_unread from)
           \<and> from' = from\<lparr>bposition := bposition from + n\<rparr>"
proof -
  have nb: "bposition b + n \<le> bsize b" and nf: "bposition from + n \<le> bsize from"
    using b f n by (auto simp: length_block_unread wf_block_def)
  let ?src = "take n (drop (bposition from) (block_bytes from))"
  have len: "length ?src = n" using nf f by (simp add: length_block_bytes)
  have load: "block_load from (bposition from) n = Inr ?src"
    using f nf by (rule block_load_ok)
  have "bposition b + length ?src \<le> bsize b" using nb len by simp
  from block_store_ok [OF b this] obtain b' where st:
    "block_store b (bposition b) ?src = Inr b'" "wf_block b'" "bsize b' = bsize b"
    "bposition b' = bposition b"
    "block_bytes b' = take (bposition b) (block_bytes b) @ ?src @ drop (bposition b + n) (block_bytes b)"
    using len by auto
  have rd: "take (bposition b + n) (block_bytes b') = block_read b @ take n (block_unread from)"
    using b nb len by (simp add: st(5) block_read_def block_unread_def length_block_bytes)
  have bb: "block_bytes (b'\<lparr>bposition := x\<rparr>) = block_bytes b'" for x
    by (simp add: block_bytes_def split: option.split)
  have fb: "block_bytes (from\<lparr>bposition := x\<rparr>) = block_bytes from" for x
    by (simp add: block_bytes_def split: option.split)
  have "block_fillFrom b from =
      Inr (b'\<lparr>bposition := bposition b' + n\<rparr>, from\<lparr>bposition := bposition from + n\<rparr>, n)"
    unfolding block_fillFrom_def Let_def block_remaining_unread [OF b] block_remaining_unread [OF f]
    by (simp only: n [symmetric] load st(1) rbind_Inr)
  moreover have "wf_block (b'\<lparr>bposition := bposition b' + n\<rparr>)"
    using st nb by (auto simp: wf_block_def split: option.splits)
  moreover have "wf_block (from\<lparr>bposition := bposition from + n\<rparr>)"
    using f nf by (auto simp: wf_block_def split: option.splits)
  ultimately show ?thesis
    using st rd by (auto simp: block_read_def [of "b'\<lparr>bposition := _\<rparr>"] bb fb block_unread_def
        add.commute)
qed

lemma block_move_assign_eq:
  "block_move_assign dst src =
     (src\<lparr>bposition := 0\<rparr>, src\<lparr>bdata := None, bcapacity := 0, bsize := 0\<rparr>)"
  by (simp add: block_move_assign_def Let_def block_empty_def)

lemma block_move_assign_block_of [simp]: "fst (block_move_assign dst (block_of bs)) = block_of bs"
  by (simp add: block_move_assign_eq block_of_def block_empty_def)

lemma wf_block_move_assign [simp]: "wf_block src \<Longrightarrow> wf_block (fst (block_move_assign dst src))"
  by (auto simp: block_move_assign_eq wf_block_def split: option.splits)

lemma block_bytes_position [simp]: "block_bytes (b\<lparr>bposition := x\<rparr>) = block_bytes b"
  by (simp add: block_bytes_def split: option.split)

lemma block_bytes_move_assign [simp]:
  "block_bytes (fst (block_move_assign dst src)) = block_bytes src"
  by (simp add: block_move_assign_eq)

lemma block_move_construct_fst [simp]: "fst (block_move_construct b) = b"
  by (simp add: block_move_construct_def)

lemma block_move_construct_snd [simp]: "snd (block_move_construct b) = block_empty"
  by (simp add: block_move_construct_def block_empty_def)

lemma block_resize_empty:
  "\<exists>b. block_resize fresh block_empty n = Inr b \<and> wf_block b \<and> bsize b = n \<and> bposition b = 0"
  using block_allocate_empty [of fresh n]
  by (auto simp: block_resize_def block_empty_def wf_block_def)

lemma block_resize_shrink:
  assumes "wf_block b" "n \<le> bsize b" "bposition b = 0"
  shows "\<exists>b'. block_resize fresh b n = Inr b' \<and> wf_block b' \<and> block_bytes b' = take n (block_bytes b)
           \<and> bsize b' = n \<and> bposition b' = 0 \<and> bcapacity b' = bcapacity b"
proof (cases "bdata b")
  case None
  with assms show ?thesis
    by (simp add: block_resize_def wf_block_def block_allocate_def block_bytes_def)
next
  case (Some d)
  with assms show ?thesis
    by (auto simp: block_resize_def wf_block_def block_bytes_def)
qed

lemma block_eq_ok: "wf_block a \<Longrightarrow> wf_block b \<Longrightarrow> block_eq a b = Inr (block_bytes a = block_bytes b)"
  using length_block_bytes [of a] length_block_bytes [of b]
  by (auto simp: block_eq_def block_load_ok dest: arg_cong [of _ _ length])

end
