(* ===== verification/Number_Format.thy ===== *)
theory Number_Format
  imports Adb_Prelude
begin

text \<open>
  The number formats of the C and C++ standard libraries that the program uses: the digits printed
  by \<open>std::to_string\<close>, \<open>"%u"\<close> and \<open>"%04x"\<close>, and the parsing of \<open>strtoul\<close> (white space, an
  optional sign, an optional \<open>0x\<close>, as many digits as there are, saturation at the largest value,
  negation modulo the width). Printing and parsing in one base are shown to be inverse.
\<close>

subsection \<open>Printing\<close>

definition digit_char :: "nat \<Rightarrow> char" where
  "digit_char d = (if d < 10 then char_of (48 + d) else char_of (87 + d))"

function digits :: "nat \<Rightarrow> nat \<Rightarrow> string" where
  "digits base n = (if n < base \<or> base < 2 then [digit_char n]
                    else digits base (n div base) @ [digit_char (n mod base)])"
  by pat_completeness auto
termination by (relation "measure snd") (auto simp: div_less_dividend)

declare digits.simps [simp del]

definition decimal :: "nat \<Rightarrow> string" where
  "decimal n = digits 10 n"

text \<open>\<open>"%0<w>x"\<close>: at least \<open>w\<close> lower-case digits, more when the value needs them.\<close>

definition hex_pad :: "nat \<Rightarrow> nat \<Rightarrow> string" where
  "hex_pad w n = (let s = digits 16 n in replicate (w - length s) CHR ''0'' @ s)"

subsection \<open>Parsing\<close>

definition is_space :: "char \<Rightarrow> bool" where
  "is_space c \<longleftrightarrow> c = CHR '' '' \<or> (9 \<le> (of_char c :: nat) \<and> (of_char c :: nat) \<le> 13)"

definition digit_value :: "nat \<Rightarrow> char \<Rightarrow> nat option" where
  "digit_value base c =
     (let k = of_char c :: nat;
          v = (if 48 \<le> k \<and> k \<le> 57 then Some (k - 48)
               else if 97 \<le> k \<and> k \<le> 122 then Some (k - 87)
               else if 65 \<le> k \<and> k \<le> 90 then Some (k - 55) else None)
      in case v of None \<Rightarrow> None | Some d \<Rightarrow> if d < base then Some d else None)"

text \<open>The value of the leading digits and the rest of the text.\<close>

fun digits_value :: "nat \<Rightarrow> string \<Rightarrow> nat \<Rightarrow> nat \<times> string" where
  "digits_value base [] acc = (acc, [])"
| "digits_value base (c # cs) acc =
     (case digit_value base c of
        None \<Rightarrow> (acc, c # cs)
      | Some d \<Rightarrow> digits_value base cs (acc * base + d))"

text \<open>An \<open>0x\<close> prefix in base 16 counts only when a digit follows.\<close>

fun strip_0x :: "nat \<Rightarrow> string \<Rightarrow> string" where
  "strip_0x base (z # x # d # cs) =
     (if base = 16 \<and> z = CHR ''0'' \<and> (x = CHR ''x'' \<or> x = CHR ''X'') \<and> digit_value 16 d \<noteq> None
      then d # cs else z # x # d # cs)"
| "strip_0x base cs = cs"

text \<open>\<open>strtoul\<close> on a 64-bit \<open>unsigned long\<close>, as a value and the rest of the text.\<close>

definition strtoul :: "nat \<Rightarrow> string \<Rightarrow> nat \<times> string" where
  "strtoul base s =
     (let t = dropWhile is_space s;
          neg = (t \<noteq> [] \<and> hd t = CHR ''-'');
          u = (if t \<noteq> [] \<and> (hd t = CHR ''-'' \<or> hd t = CHR ''+'') then tl t else t);
          (v, rest) = digits_value base (strip_0x base u) 0
      in if u = [] \<or> digit_value base (hd u) = None then (0, s)
         else if 2 ^ 64 \<le> v then (2 ^ 64 - 1, rest)
         else ((if neg then (2 ^ 64 - v) mod 2 ^ 64 else v), rest))"

subsection \<open>Printing and parsing are inverse\<close>

lemma digit_value_digit_char:
  assumes "d < base" "base \<le> 36"
  shows "digit_value base (digit_char d) = Some d"
proof -
  have "digit_char d = char_of (if d < 10 then 48 + d else 87 + d)" by (simp add: digit_char_def)
  moreover have "(if d < 10 then 48 + d else 87 + d) < 256" using assms by simp
  ultimately have "(of_char (digit_char d) :: nat) = (if d < 10 then 48 + d else 87 + d)"
    by (simp only: of_char_of mod_less)
  with assms show ?thesis by (auto simp: digit_value_def Let_def)
qed

lemma digits_value_append_digits:
  assumes "2 \<le> base" "base \<le> 36"
  shows "\<exists>k. digits_value base (digits base n @ rest) acc = digits_value base rest (acc * k + n)"
  using assms
proof (induction base n arbitrary: rest acc rule: digits.induct)
  case (1 base n)
  show ?case
  proof (cases "n < base")
    case True
    with 1 show ?thesis
      by (auto simp: digits.simps [of base n] digit_value_digit_char)
  next
    case False
    then obtain k where k: "\<And>rest acc. \<exists>k. digits_value base (digits base (n div base) @ rest) acc
        = digits_value base rest (acc * k + n div base)"
      using 1 by force
    from k [of "digit_char (n mod base) # rest" acc] obtain k where
      "digits_value base (digits base (n div base) @ digit_char (n mod base) # rest) acc
        = digits_value base (digit_char (n mod base) # rest) (acc * k + n div base)" by blast
    moreover have "(acc * k + n div base) * base + n mod base = acc * (k * base) + n"
      by (simp add: algebra_simps)
    ultimately show ?thesis using False 1
      by (intro exI [of _ "k * base"])
        (simp add: digits.simps [of base n] digit_value_digit_char)
  qed
qed

lemma digits_value_digits:
  assumes "2 \<le> base" "base \<le> 36"
  shows "digits_value base (digits base n @ rest) 0 = digits_value base rest n"
  using digits_value_append_digits [OF assms, of n rest 0] by auto

lemma digits_value_zeros:
  "2 \<le> base \<Longrightarrow> digits_value base (replicate k CHR ''0'' @ s) 0 = digits_value base s 0"
  by (induction k) (simp_all add: digit_value_def)

lemma digits_nonempty [simp]: "digits base n \<noteq> []"
  by (subst digits.simps) simp

lemma digits_are_digits:
  assumes "2 \<le> base" "base \<le> 36" "c \<in> set (digits base n)"
  shows "digit_value base c \<noteq> None"
  using assms
proof (induction base n rule: digits.induct)
  case (1 base n)
  then show ?case
    by (cases "n < base") (auto simp: digits.simps [of base n] digit_value_digit_char)
qed

lemma length_digits_le:
  assumes "n < base ^ k" "0 < k" "2 \<le> base"
  shows "length (digits base n) \<le> k"
  using assms
proof (induction k arbitrary: n)
  case 0
  then show ?case by simp
next
  case (Suc k)
  show ?case
  proof (cases "n < base")
    case True
    then show ?thesis by (simp add: digits.simps [of base n])
  next
    case False
    with Suc.prems have "n div base < base ^ k"
      by (simp add: less_mult_imp_div_less mult.commute)
    moreover from False Suc.prems have "0 < k" by (cases k) simp_all
    ultimately have "length (digits base (n div base)) \<le> k" using Suc by simp
    with False Suc.prems show ?thesis by (simp add: digits.simps [of base n])
  qed
qed

lemma length_digits_ge:
  assumes "base ^ k \<le> n" "2 \<le> base"
  shows "k < length (digits base n)"
  using assms
proof (induction k arbitrary: n)
  case 0
  then show ?case by simp
next
  case (Suc k)
  have "base ^ Suc k div base \<le> n div base" by (rule div_le_mono [OF Suc.prems(1)])
  then have "base ^ k \<le> n div base" using Suc.prems(2) by simp
  moreover have "\<not> n < base"
  proof
    assume "n < base"
    also have "base \<le> base ^ Suc k" using Suc.prems(2) by simp
    finally show False using Suc.prems(1) by simp
  qed
  ultimately show ?case using Suc.IH [of "n div base"] Suc.prems(2)
    by (simp add: digits.simps [of base n])
qed

lemma length_hex_pad: "n < 16 ^ w \<Longrightarrow> 0 < w \<Longrightarrow> length (hex_pad w n) = w"
  using length_digits_le [of n 16 w] by (simp add: hex_pad_def Let_def)

lemma digit_value_zero [simp]: "2 \<le> base \<Longrightarrow> digit_value base CHR ''0'' = Some 0"
  by (simp add: digit_value_def)

lemma hex_pad_digits: "c \<in> set (hex_pad w n) \<Longrightarrow> digit_value 16 c \<noteq> None"
  using digits_are_digits [of 16 c n] by (auto simp: hex_pad_def Let_def)

lemma digits_value_hex_pad: "digits_value 16 (hex_pad w n @ rest) 0 = digits_value 16 rest n"
  by (simp add: hex_pad_def Let_def digits_value_zeros digits_value_digits)

text \<open>Text whose characters are all digits is read entirely.\<close>

lemma digit_not_special:
  "digit_value base c \<noteq> None \<Longrightarrow> \<not> is_space c \<and> c \<noteq> CHR ''-'' \<and> c \<noteq> CHR ''+''"
  by (auto simp: digit_value_def is_space_def Let_def split: if_splits)

lemma digit16_not_x: "digit_value 16 c \<noteq> None \<Longrightarrow> c \<noteq> CHR ''x'' \<and> c \<noteq> CHR ''X''"
  by (auto simp: digit_value_def Let_def)

lemma strip_0x_digits: "\<forall>c\<in>set s. digit_value base c \<noteq> None \<Longrightarrow> strip_0x base s = s"
  using digit16_not_x by (cases "(base, s)" rule: strip_0x.cases) auto

lemma strtoul_digits:
  assumes "\<forall>c\<in>set s. digit_value base c \<noteq> None" "s \<noteq> []"
    and "fst (digits_value base s 0) < 2 ^ 64"
  shows "strtoul base s = digits_value base s 0"
proof -
  obtain c cs where s: "s = c # cs" using assms(2) by (cases s) auto
  from assms(1) s digit_not_special have c: "\<not> is_space c" "c \<noteq> CHR ''-''" "c \<noteq> CHR ''+''"
    "digit_value base c \<noteq> None" by auto
  have dw: "dropWhile is_space s = s" using c s by simp
  show ?thesis
    unfolding strtoul_def Let_def dw strip_0x_digits [OF assms(1)]
    using assms(2,3) c by (cases "digits_value base s 0") (auto simp: s strip_0x_digits [OF assms(1), unfolded s])
qed

lemma strtoul_hex_pad:
  assumes "n < 2 ^ 64"
  shows "strtoul 16 (hex_pad w n) = (n, [])"
proof -
  have v: "digits_value 16 (hex_pad w n) 0 = (n, [])"
    using digits_value_hex_pad [of w n "[]"] by simp
  have "hex_pad w n \<noteq> []" by (simp add: hex_pad_def Let_def)
  then show ?thesis using strtoul_digits [of "hex_pad w n" 16] hex_pad_digits v assms by auto
qed

end
