(* ===== verification/Packet.thy ===== *)
theory Packet
  imports Block Number_Format
begin

text \<open>
  The packets of the adb protocol: the constants of \<open>adb.h\<close>, \<open>struct amessage\<close> and
  \<open>struct apacket\<close> of \<open>types.h\<close> with the 24-byte image a message has in memory and on the wire
  (all supported machines are little-endian), the allocation, checksum and printing functions of
  \<open>adb.cpp\<close>, and the header that \<open>send_packet\<close> stamps and \<open>check_header\<close> tests in
  \<open>transport.cpp\<close>.
\<close>

subsection \<open>Constants\<close>

definition MAX_PAYLOAD_V1 :: nat where "MAX_PAYLOAD_V1 = 4 * 1024"
definition MAX_PAYLOAD :: nat where "MAX_PAYLOAD = 1024 * 1024"
definition INITIAL_DELAYED_ACK_BYTES :: nat where "INITIAL_DELAYED_ACK_BYTES = 32 * 1024 * 1024"

definition A_SYNC :: u32 where "A_SYNC = 0x434e5953"
definition A_CNXN :: u32 where "A_CNXN = 0x4e584e43"
definition A_OPEN :: u32 where "A_OPEN = 0x4e45504f"
definition A_OKAY :: u32 where "A_OKAY = 0x59414b4f"
definition A_CLSE :: u32 where "A_CLSE = 0x45534c43"
definition A_WRTE :: u32 where "A_WRTE = 0x45545257"
definition A_AUTH :: u32 where "A_AUTH = 0x48545541"
definition A_STLS :: u32 where "A_STLS = 0x534C5453"

definition A_VERSION_MIN :: u32 where "A_VERSION_MIN = 0x01000000"
definition A_VERSION_SKIP_CHECKSUM :: u32 where "A_VERSION_SKIP_CHECKSUM = 0x01000001"
definition A_VERSION :: u32 where "A_VERSION = 0x01000001"
definition A_STLS_VERSION_MIN :: u32 where "A_STLS_VERSION_MIN = 0x01000000"
definition A_STLS_VERSION :: u32 where "A_STLS_VERSION = 0x01000000"

lemmas command_defs = A_SYNC_def A_CNXN_def A_OPEN_def A_OKAY_def A_CLSE_def A_WRTE_def A_AUTH_def
  A_STLS_def
lemmas version_defs = A_VERSION_MIN_def A_VERSION_SKIP_CHECKSUM_def A_VERSION_def
  A_STLS_VERSION_MIN_def A_STLS_VERSION_def

subsection \<open>Messages and packets\<close>

record amessage =
  command :: u32
  arg0 :: u32
  arg1 :: u32
  data_length :: u32
  data_check :: u32
  magic :: u32

record apacket =
  msg :: amessage
  payload :: block

definition amessage_bytes :: "amessage \<Rightarrow> bytes" where
  "amessage_bytes m = le32 (command m) @ le32 (arg0 m) @ le32 (arg1 m) @ le32 (data_length m)
     @ le32 (data_check m) @ le32 (magic m)"

text \<open>The message read through a pointer to 24 bytes, \<open>*reinterpret_cast<amessage*>(data)\<close>.\<close>

definition amessage_at :: "bytes \<Rightarrow> amessage" where
  "amessage_at bs = \<lparr>command = of_le32 bs, arg0 = of_le32 (drop 4 bs), arg1 = of_le32 (drop 8 bs),
     data_length = of_le32 (drop 12 bs), data_check = of_le32 (drop 16 bs),
     magic = of_le32 (drop 20 bs)\<rparr>"

definition amessage_size :: nat where "amessage_size = 24"

definition amessage_zero :: amessage where
  "amessage_zero = \<lparr>command = 0, arg0 = 0, arg1 = 0, data_length = 0, data_check = 0, magic = 0\<rparr>"

definition get_apacket :: apacket where
  "get_apacket = \<lparr>msg = amessage_zero, payload = block_empty\<rparr>"

text \<open>
  The sum of the first \<open>data_length\<close> bytes of the payload, modulo \<open>2^32\<close>; a payload with less
  memory than that is read out of bounds.
\<close>

definition calculate_apacket_checksum :: "apacket \<Rightarrow> u32 result" where
  "calculate_apacket_checksum p =
     rbind (block_load (payload p) 0 (unat (data_length (msg p)))) (\<lambda>bs.
       Inr (foldl (\<lambda>sum c. sum + of_nat (of_char c)) 0 bs))"

definition command_to_string :: "u32 \<Rightarrow> string" where
  "command_to_string cmd =
     (if cmd = A_SYNC then ''A_SYNC''
      else if cmd = A_CNXN then ''A_CNXN''
      else if cmd = A_OPEN then ''A_OPEN''
      else if cmd = A_OKAY then ''A_OKAY''
      else if cmd = A_CLSE then ''A_CLSE''
      else if cmd = A_WRTE then ''A_WRTE''
      else if cmd = A_AUTH then ''A_AUTH''
      else if cmd = A_STLS then ''A_STLS''
      else ''UNKNOWN ('' @ decimal (unat cmd) @ '')'')"

subsection \<open>Headers\<close>

text \<open>
  What \<open>send_packet\<close> writes into the header before the packet goes to the transport's \<open>Write\<close>:
  the magic, and the checksum unless the negotiated version skips it.
\<close>

definition stamp_header :: "int \<Rightarrow> apacket \<Rightarrow> apacket result" where
  "stamp_header protocol_version p =
     (let p1 = p\<lparr>msg := (msg p)\<lparr>magic := command (msg p) XOR 0xffffffff\<rparr>\<rparr>
      in if sint A_VERSION_SKIP_CHECKSUM \<le> protocol_version
         then Inr (p1\<lparr>msg := (msg p1)\<lparr>data_check := 0\<rparr>\<rparr>)
         else rbind (calculate_apacket_checksum p1) (\<lambda>sum.
                Inr (p1\<lparr>msg := (msg p1)\<lparr>data_check := sum\<rparr>\<rparr>)))"

definition check_header :: "nat \<Rightarrow> apacket \<Rightarrow> bool" where
  "check_header max_payload p =
     (if magic (msg p) \<noteq> command (msg p) XOR 0xffffffff then False
      else if max_payload < unat (data_length (msg p)) then False
      else True)"

subsection \<open>Connection states\<close>

datatype ConnectionState =
    kCsAny | kCsConnecting | kCsAuthorizing | kCsUnauthorized | kCsNoPerm | kCsDetached | kCsOffline
  | kCsBootloader | kCsDevice | kCsHost | kCsRecovery | kCsSideload | kCsRescue

text \<open>\<open>no_perm\<close> is the text of \<open>UsbNoPermissionsShortHelpText\<close>, of another library.\<close>

fun ConnectionState_to_string :: "string \<Rightarrow> ConnectionState \<Rightarrow> string" where
  "ConnectionState_to_string no_perm kCsOffline = ''offline''"
| "ConnectionState_to_string no_perm kCsBootloader = ''bootloader''"
| "ConnectionState_to_string no_perm kCsDevice = ''device''"
| "ConnectionState_to_string no_perm kCsHost = ''host''"
| "ConnectionState_to_string no_perm kCsRecovery = ''recovery''"
| "ConnectionState_to_string no_perm kCsRescue = ''rescue''"
| "ConnectionState_to_string no_perm kCsNoPerm = no_perm"
| "ConnectionState_to_string no_perm kCsSideload = ''sideload''"
| "ConnectionState_to_string no_perm kCsUnauthorized = ''unauthorized''"
| "ConnectionState_to_string no_perm kCsAuthorizing = ''authorizing''"
| "ConnectionState_to_string no_perm kCsConnecting = ''connecting''"
| "ConnectionState_to_string no_perm kCsDetached = ''detached''"
| "ConnectionState_to_string no_perm kCsAny = ''any''"

fun ConnectionStateIsOnline :: "ConnectionState \<Rightarrow> bool" where
  "ConnectionStateIsOnline kCsBootloader = True"
| "ConnectionStateIsOnline kCsDevice = True"
| "ConnectionStateIsOnline kCsHost = True"
| "ConnectionStateIsOnline kCsRecovery = True"
| "ConnectionStateIsOnline kCsSideload = True"
| "ConnectionStateIsOnline kCsRescue = True"
| "ConnectionStateIsOnline _ = False"

subsection \<open>Lemmas\<close>

lemma length_amessage_bytes [simp]: "length (amessage_bytes m) = 24"
  by (simp add: amessage_bytes_def)

lemma amessage_at_bytes_append [simp]: "amessage_at (amessage_bytes m @ bs) = m"
  by (simp add: amessage_at_def amessage_bytes_def)

lemma amessage_at_bytes [simp]: "amessage_at (amessage_bytes m) = m"
  using amessage_at_bytes_append [of m "[]"] by simp

lemma of_le32_take: "4 \<le> n \<Longrightarrow> of_le32 (take n bs) = of_le32 bs"
proof -
  assume n: "4 \<le> n"
  have "le32_nat (take n bs) = le32_nat bs"
  proof (cases bs rule: le32_nat.cases)
    case (1 a b c d rest)
    from le_Suc_ex [OF n] obtain k where "n = 4 + k" by blast
    then have "n = Suc (Suc (Suc (Suc k)))" by simp
    with 1 show ?thesis by simp
  qed (use n in \<open>auto simp: take_Cons split: nat.splits\<close>)
  then show ?thesis by (simp add: of_le32_def)
qed

lemma amessage_at_take: "24 \<le> n \<Longrightarrow> amessage_at (take n bs) = amessage_at bs"
  by (simp add: amessage_at_def of_le32_take drop_take)

lemma amessage_at_append: "length h = 24 \<Longrightarrow> amessage_at (h @ bs) = amessage_at h"
  using amessage_at_take [of 24 "h @ bs"] by simp

lemma amessage_bytes_at: "length bs = 24 \<Longrightarrow> amessage_bytes (amessage_at bs) = bs"
proof -
  assume len: "length bs = 24"
  have part: "le32 (of_le32 (drop k bs)) = take 4 (drop k bs)" if "k + 4 \<le> 24" for k
    using le32_of_le32 [of "take 4 (drop k bs)"] that len by (simp add: of_le32_take)
  have "amessage_bytes (amessage_at bs) = take 4 bs @ take 4 (drop 4 bs) @ take 4 (drop 8 bs)
      @ take 4 (drop 12 bs) @ take 4 (drop 16 bs) @ take 4 (drop 20 bs)"
    using part [of 0] part [of 4] part [of 8] part [of 12] part [of 16] part [of 20]
    by (simp add: amessage_bytes_def amessage_at_def)
  also have "\<dots> = take 24 bs"
    using take_add [of 4 4 bs] take_add [of 8 4 bs] take_add [of 12 4 bs] take_add [of 16 4 bs]
      take_add [of 20 4 bs] by simp
  finally show ?thesis using len by simp
qed

lemma foldl_checksum:
  "foldl (\<lambda>sum c. sum + of_nat (of_char c)) (acc :: u32) bs = acc + of_nat (\<Sum>c\<leftarrow>bs. of_char c)"
  by (induction bs arbitrary: acc) simp_all

text \<open>The checksum of a packet whose payload has the announced length.\<close>

lemma checksum_eq:
  assumes "wf_block (payload p)" "unat (data_length (msg p)) = bsize (payload p)"
  shows "calculate_apacket_checksum p = Inr (of_nat (\<Sum>c\<leftarrow>block_bytes (payload p). of_char c))"
  using assms
  by (simp add: calculate_apacket_checksum_def block_load_ok foldl_checksum length_block_bytes)

lemma XOR_ones_neq: "(w :: u32) XOR 0xffffffff \<noteq> w"
proof
  assume "w XOR 0xffffffff = w"
  then have "w XOR (w XOR 0xffffffff) = w XOR w" by simp
  then show False by (simp add: xor.assoc [symmetric])
qed

text \<open>
  A stamped packet passes the receiver's header check exactly when its length is within the
  receiver's \<open>max_payload\<close>; stamping faults on no well-formed packet, changes neither the command,
  the arguments nor the payload, and its checksum is the sum of the payload bytes or, from
  \<open>A_VERSION_SKIP_CHECKSUM\<close> on, zero.
\<close>

theorem stamp_header_checked:
  assumes "wf_block (payload p)" "unat (data_length (msg p)) = bsize (payload p)"
  shows "\<exists>q. stamp_header v p = Inr q \<and> payload q = payload p
           \<and> check_header mx q = (bsize (payload p) \<le> mx)
           \<and> msg q = (msg p)\<lparr>magic := NOT (command (msg p)), data_check :=
                (if 0x01000001 \<le> v then 0 else of_nat (\<Sum>c\<leftarrow>block_bytes (payload p). of_char c))\<rparr>"
proof -
  have ones: "(0xffffffff :: u32) = - 1" by simp
  have "calculate_apacket_checksum (p\<lparr>msg := (msg p)\<lparr>magic := m\<rparr>\<rparr>)
      = Inr (of_nat (\<Sum>c\<leftarrow>block_bytes (payload p). of_char c))" for m
    using assms checksum_eq [of "p\<lparr>msg := (msg p)\<lparr>magic := m\<rparr>\<rparr>"] by simp
  with assms show ?thesis
    by (auto simp: stamp_header_def check_header_def Let_def A_VERSION_SKIP_CHECKSUM_def ones)
qed

theorem stamp_header_checked_witness:
  "\<exists>q. stamp_header (sint A_VERSION_MIN)
        \<lparr>msg = amessage_zero\<lparr>command := A_WRTE, data_length := 2\<rparr>, payload = block_of ''ab''\<rparr> = Inr q
     \<and> payload q = block_of ''ab'' \<and> check_header 4096 q
     \<and> msg q = amessage_zero\<lparr>command := A_WRTE, data_length := 2, magic := NOT A_WRTE, data_check := 195\<rparr>"
  using stamp_header_checked [of "\<lparr>msg = amessage_zero\<lparr>command := A_WRTE, data_length := 2\<rparr>,
      payload = block_of ''ab''\<rparr>" "sint A_VERSION_MIN" 4096]
  by (simp add: amessage_zero_def A_VERSION_MIN_def)

text \<open>
  The image of a message in memory and on the wire determines it, and every 24 bytes are the
  image of a message: encoding and decoding are inverse in both directions.
\<close>

theorem amessage_roundtrip:
  "amessage_at (amessage_bytes m @ rest) = m
   \<and> (length bs = amessage_size \<longrightarrow> amessage_bytes (amessage_at bs) = bs)"
  by (simp add: amessage_size_def amessage_bytes_at)

theorem amessage_roundtrip_witness:
  "amessage_bytes (amessage_at ''CNXNaaaabbbbccccddddeeee'') = ''CNXNaaaabbbbccccddddeeee''"
  using amessage_roundtrip [of amessage_zero "[]" "''CNXNaaaabbbbccccddddeeee''"]
  by (simp add: amessage_size_def)

text \<open>The four bytes of a command word spell its name.\<close>

lemma command_bytes:
  "le32 A_SYNC = ''SYNC''" "le32 A_CNXN = ''CNXN''" "le32 A_OPEN = ''OPEN''" "le32 A_OKAY = ''OKAY''"
  "le32 A_CLSE = ''CLSE''" "le32 A_WRTE = ''WRTE''" "le32 A_AUTH = ''AUTH''" "le32 A_STLS = ''STLS''"
  by (simp_all add: le32_def command_defs char_of_def bit_0 bit_iff_odd)

end
