(* ===== verification/Packet_Reader.thy ===== *)
theory Packet_Reader
  imports Packet
begin

text \<open>
  \<open>APacketReader\<close> of \<open>apacket_reader.cpp\<close>, which assembles packets from blocks cut at arbitrary
  boundaries. One activation of \<open>add_bytes\<close> is \<open>add_bytes_step\<close>, which either returns or makes
  the tail call of the source; \<open>add_bytes\<close> iterates it. The reference definition is \<open>frames\<close>,
  which cuts a whole byte stream into packets, and the theorems show that the reader implements
  it whatever the boundaries of the blocks are.
\<close>

subsection \<open>The reader\<close>

record apacket_reader =
  rheader :: block
  rpacket :: "apacket option"
  rpackets :: "apacket list"

datatype AddResult = OK | ERROR

datatype add_step = Return AddResult apacket_reader block | Again apacket_reader block

definition prepare_for_next_packet :: "apacket_reader \<Rightarrow> apacket_reader" where
  "prepare_for_next_packet r = r\<lparr>rheader := block_rewind (rheader r), rpacket := None\<rparr>"

definition APacketReader :: "(nat \<Rightarrow> char) \<Rightarrow> apacket_reader result" where
  "APacketReader fresh =
     rbind (block_new fresh amessage_size) (\<lambda>h.
       Inr (prepare_for_next_packet \<lparr>rheader = h, rpacket = None, rpackets = []\<rparr>))"

definition add_packet :: "apacket \<Rightarrow> apacket_reader \<Rightarrow> apacket_reader" where
  "add_packet p r = prepare_for_next_packet (r\<lparr>rpackets := rpackets r @ [p]\<rparr>)"

text \<open>The copying path: fill the payload of the packet under construction.\<close>

definition fill_payload :: "apacket_reader \<Rightarrow> apacket \<Rightarrow> block \<Rightarrow> add_step result" where
  "fill_payload r p b =
     rbind (block_fillFrom (payload p) b) (\<lambda>(pl, b', n).
       let r' = (if block_is_full pl then add_packet (p\<lparr>payload := block_rewind pl\<rparr>) r
                 else r\<lparr>rpacket := Some (p\<lparr>payload := pl\<rparr>)\<rparr>)
       in Inr (if 0 < block_remaining b' then Again r' b' else Return OK r' b'))"

text \<open>The payload of a packet that has one: moved when the block is exactly it, else copied.\<close>

definition add_payload :: "(nat \<Rightarrow> char) \<Rightarrow> apacket_reader \<Rightarrow> amessage \<Rightarrow> block \<Rightarrow> add_step result" where
  "add_payload fresh r m b =
     (case rpacket r of
        Some p \<Rightarrow> fill_payload r p b
      | None \<Rightarrow>
          if bposition b = 0 \<and> block_remaining b = unat (data_length m)
          then (let (pl, b') = block_move_assign block_empty b
                in Inr (Return OK (add_packet \<lparr>msg = m, payload = pl\<rparr> r) b'))
          else rbind (block_resize fresh block_empty (unat (data_length m))) (\<lambda>pl.
                 fill_payload r \<lparr>msg = m, payload = pl\<rparr> b))"

definition add_bytes_step :: "(nat \<Rightarrow> char) \<Rightarrow> apacket_reader \<Rightarrow> block \<Rightarrow> add_step result" where
  "add_bytes_step fresh r b =
     (if block_remaining b = 0 then Inr (Return OK r b)
      else rbind (block_fillFrom (rheader r) b) (\<lambda>(h, b', n).
        let r' = r\<lparr>rheader := h\<rparr>
        in if \<not> block_is_full h then Inr (Return OK r' b')
           else rbind (block_load h 0 amessage_size) (\<lambda>hb.
             let m = amessage_at hb
             in if MAX_PAYLOAD < unat (data_length m)
                then Inr (Return ERROR (prepare_for_next_packet r') b')
                else if data_length m = 0
                then rbind (block_new fresh 0) (\<lambda>z.
                       Inr (Again (add_packet \<lparr>msg = m,
                         payload = fst (block_move_assign block_empty z)\<rparr> r') b'))
                else if block_remaining b' = 0 then Inr (Return OK r' b')
                else add_payload fresh r' m b')))"

partial_function (option) add_bytes ::
  "(nat \<Rightarrow> char) \<Rightarrow> apacket_reader \<Rightarrow> block \<Rightarrow> (AddResult \<times> apacket_reader \<times> block) result option" where
  "add_bytes fresh r b =
     (case add_bytes_step fresh r b of
        Inl e \<Rightarrow> Some (Inl e)
      | Inr (Return res r' b') \<Rightarrow> Some (Inr (res, r', b'))
      | Inr (Again r' b') \<Rightarrow> add_bytes fresh r' b')"

definition get_packets :: "apacket_reader \<Rightarrow> apacket list \<times> apacket_reader" where
  "get_packets r = (rpackets r, r\<lparr>rpackets := []\<rparr>)"

text \<open>The blocks of a stream are added one after the other; the first error ends it.\<close>

fun add_blocks ::
  "(nat \<Rightarrow> char) \<Rightarrow> apacket_reader \<Rightarrow> block list \<Rightarrow> (AddResult \<times> apacket_reader) result option" where
  "add_blocks fresh r [] = Some (Inr (OK, r))"
| "add_blocks fresh r (b # bs) =
     (case add_bytes fresh r b of
        None \<Rightarrow> None
      | Some (Inl e) \<Rightarrow> Some (Inl e)
      | Some (Inr (ERROR, r', _)) \<Rightarrow> Some (Inr (ERROR, r'))
      | Some (Inr (OK, r', _)) \<Rightarrow> add_blocks fresh r' bs)"

subsection \<open>The reference: a stream cut into packets\<close>

text \<open>
  The packets of a byte stream, the bytes of an unfinished packet at its end, and whether no header
  announced more than \<open>MAX_PAYLOAD\<close> bytes (the stream is abandoned at one that does).
\<close>

type_synonym frame = "amessage \<times> bytes"

function frames :: "bytes \<Rightarrow> frame list \<times> bytes \<times> bool" where
  "frames bs =
     (if length bs < 24 then ([], bs, True)
      else let m = amessage_at bs; n = unat (data_length m)
           in if MAX_PAYLOAD < n then ([], [], False)
              else if length bs < 24 + n then ([], bs, True)
              else (let (ps, rest, ok) = frames (drop (24 + n) bs)
                    in ((m, take n (drop 24 bs)) # ps, rest, ok)))"
  by pat_completeness auto
termination by (relation "measure length") auto

declare frames.simps [simp del]

definition frame_bytes :: "frame \<Rightarrow> bytes" where
  "frame_bytes f = amessage_bytes (fst f) @ snd f"

definition frame_ok :: "frame \<Rightarrow> bool" where
  "frame_ok f \<longleftrightarrow> unat (data_length (fst f)) = length (snd f) \<and> length (snd f) \<le> MAX_PAYLOAD"

definition frame_of :: "apacket \<Rightarrow> frame" where
  "frame_of p = (msg p, block_bytes (payload p))"

lemma frames_short: "length bs < 24 \<Longrightarrow> frames bs = ([], bs, True)"
  by (subst frames.simps) simp

lemma frames_partial:
  assumes "24 \<le> length bs" "unat (data_length (amessage_at bs)) \<le> MAX_PAYLOAD"
    "length bs < 24 + unat (data_length (amessage_at bs))"
  shows "frames bs = ([], bs, True)"
  using assms by (subst frames.simps) (simp add: Let_def)

lemma frames_oversized:
  assumes "24 \<le> length bs" "MAX_PAYLOAD < unat (data_length (amessage_at bs))"
  shows "frames bs = ([], [], False)"
  using assms by (subst frames.simps) (simp add: Let_def)

lemma frames_Cons:
  assumes "length h = 24" "m = amessage_at h" "unat (data_length m) = length pl"
    "length pl \<le> MAX_PAYLOAD" "frames rest = (ps, r, ok)"
  shows "frames (h @ pl @ rest) = ((m, pl) # ps, r, ok)"
proof -
  have "amessage_at (h @ pl @ rest) = m" using assms by (simp add: amessage_at_append)
  then show ?thesis using assms by (subst frames.simps) (simp add: Let_def)
qed

text \<open>
  A stream can be cut anywhere: what is unfinished is completed by what follows, and nothing is
  read after an oversized header.
\<close>

lemma frames_append:
  "frames (xs @ ys) =
     (case frames xs of (ps, rest, ok) \<Rightarrow>
        if ok then (case frames (rest @ ys) of (qs, rest', ok') \<Rightarrow> (ps @ qs, rest', ok'))
        else (ps, rest, False))"
proof (induction xs rule: frames.induct)
  case (1 xs)
  let ?n = "unat (data_length (amessage_at xs))"
  consider (short) "length xs < 24" | (big) "24 \<le> length xs" "MAX_PAYLOAD < ?n"
    | (partial) "24 \<le> length xs" "?n \<le> MAX_PAYLOAD" "length xs < 24 + ?n"
    | (whole) "?n \<le> MAX_PAYLOAD" "24 + ?n \<le> length xs" by linarith
  then show ?case
  proof cases
    case big
    moreover from big have "amessage_at (xs @ ys) = amessage_at xs"
      using amessage_at_take [of "length xs" "xs @ ys"] by simp
    ultimately show ?thesis by (simp add: frames_oversized)
  next
    case whole
    define h pl xs' where "h = take 24 xs" and "pl = take ?n (drop 24 xs)" and "xs' = drop (24 + ?n) xs"
    have xs: "xs = h @ pl @ xs'"
      by (simp add: h_def pl_def xs'_def add.commute flip: drop_drop)
    have hd: "length h = 24" "amessage_at xs = amessage_at h" "?n = length pl" "length pl \<le> MAX_PAYLOAD"
      using whole by (simp_all add: h_def pl_def amessage_at_take)
    then have eq: "frames (h @ pl @ zs) = (case frames zs of (ps, r, ok) \<Rightarrow> ((amessage_at xs, pl) # ps, r, ok))"
      for zs using frames_Cons [OF hd(1) hd(2)] by (cases "frames zs") simp
    have "frames (xs' @ ys) = (case frames xs' of (ps, rest, ok) \<Rightarrow>
        if ok then (case frames (rest @ ys) of (qs, rest', ok') \<Rightarrow> (ps @ qs, rest', ok'))
        else (ps, rest, False))"
      using "1.IH" [OF _ refl refl] whole by (simp add: xs'_def)
    moreover have "frames xs = frames (h @ pl @ xs')" "frames (xs @ ys) = frames (h @ pl @ xs' @ ys)"
      by (subst xs, simp)+
    ultimately show ?thesis by (simp add: eq split: prod.splits if_splits)
  qed (auto simp: frames_short frames_partial split: prod.split)
qed

lemma frames_frame_bytes:
  assumes "\<forall>f\<in>set fs. frame_ok f"
  shows "frames (concat (map frame_bytes fs) @ rest) =
           (case frames rest of (ps, r, ok) \<Rightarrow> (fs @ ps, r, ok))"
  using assms
proof (induction fs)
  case Nil
  then show ?case by (simp split: prod.split)
next
  case (Cons f fs)
  obtain ps r ok where "frames rest = (ps, r, ok)" by (cases "frames rest") auto
  with Cons frames_Cons [of "amessage_bytes (fst f)" "fst f" "snd f"] show ?case
    by (simp add: frame_bytes_def frame_ok_def)
qed

subsection \<open>Invariant of the reader\<close>

text \<open>The bytes already taken of a packet that is not complete.\<close>

definition pending :: "apacket_reader \<Rightarrow> bytes" where
  "pending r = block_read (rheader r) @
     (case rpacket r of None \<Rightarrow> [] | Some p \<Rightarrow> block_read (payload p))"

definition reader_packet_ok :: "apacket_reader \<Rightarrow> bool" where
  "reader_packet_ok r \<longleftrightarrow>
     (case rpacket r of
        None \<Rightarrow> True
      | Some p \<Rightarrow> bposition (rheader r) = 24 \<and> msg p = amessage_at (block_bytes (rheader r))
          \<and> wf_block (payload p) \<and> bsize (payload p) = unat (data_length (msg p))
          \<and> bposition (payload p) < bsize (payload p))"

definition wf_reader :: "apacket_reader \<Rightarrow> bool" where
  "wf_reader r \<longleftrightarrow> wf_block (rheader r) \<and> bsize (rheader r) = 24 \<and> reader_packet_ok r
     \<and> (bposition (rheader r) = 24 \<longrightarrow>
          0 < unat (data_length (amessage_at (block_bytes (rheader r))))
          \<and> unat (data_length (amessage_at (block_bytes (rheader r)))) \<le> MAX_PAYLOAD)"

lemma full_header_read:
  "wf_block h \<Longrightarrow> bsize h = 24 \<Longrightarrow> bposition h = 24 \<Longrightarrow> block_read h = block_bytes h"
  by (simp add: block_read_def length_block_bytes)

lemma pending_incomplete: "wf_reader r \<Longrightarrow> frames (pending r) = ([], pending r, True)"
proof -
  assume wf: "wf_reader r"
  then have h: "wf_block (rheader r)" "bsize (rheader r) = 24" "bposition (rheader r) \<le> 24"
    by (auto simp: wf_reader_def wf_block_def)
  show ?thesis
  proof (cases "bposition (rheader r) = 24")
    case False
    with wf h have "rpacket r = None" "length (block_read (rheader r)) < 24"
      by (auto simp: wf_reader_def reader_packet_ok_def length_block_read split: option.splits)
    then show ?thesis by (simp add: pending_def frames_short)
  next
    case True
    let ?hb = "block_bytes (rheader r)"
    let ?x = "case rpacket r of None \<Rightarrow> [] | Some p \<Rightarrow> block_read (payload p)"
    have p: "pending r = ?hb @ ?x" using True h by (simp add: pending_def full_header_read)
    have "length ?hb = 24" using h by (simp add: length_block_bytes)
    moreover from this have "amessage_at (?hb @ ?x) = amessage_at ?hb" by (rule amessage_at_append)
    moreover have "length ?x < unat (data_length (amessage_at ?hb))"
      using wf True by (auto simp: wf_reader_def reader_packet_ok_def length_block_read split: option.splits)
    moreover have "unat (data_length (amessage_at ?hb)) \<le> MAX_PAYLOAD"
      using wf True by (simp add: wf_reader_def)
    ultimately show ?thesis unfolding p by (intro frames_partial) simp_all
  qed
qed

text \<open>
  What one activation owes to the specification: \<open>s\<close> is the pending stream before it. Either it
  returns, and then the packets it added and the bytes it keeps are the reference's, or it goes on
  with a shorter block and the reference's packets are those it added and those still to come.
\<close>

definition step_ok :: "apacket_reader \<Rightarrow> block \<Rightarrow> add_step \<Rightarrow> bool" where
  "step_ok r b st \<longleftrightarrow>
     (case st of
        Return res r' b' \<Rightarrow> wf_reader r' \<and> (\<exists>new. rpackets r' = rpackets r @ new
          \<and> (\<forall>p\<in>set new. wf_block (payload p) \<and> bposition (payload p) = 0)
          \<and> frames (pending r @ block_unread b) = (map frame_of new, pending r', res = OK))
      | Again r' b' \<Rightarrow> wf_reader r' \<and> wf_block b' \<and> length (block_unread b') < length (block_unread b)
          \<and> (\<exists>new. rpackets r' = rpackets r @ new
          \<and> (\<forall>p\<in>set new. wf_block (payload p) \<and> bposition (payload p) = 0)
          \<and> frames (pending r @ block_unread b) =
              (case frames (pending r' @ block_unread b') of (ps, rest, ok) \<Rightarrow>
                 (map frame_of new @ ps, rest, ok))))"

lemma step_ok_cong:
  assumes "rpackets r = rpackets r1" "pending r @ block_unread b = pending r1 @ block_unread b1"
    "length (block_unread b1) \<le> length (block_unread b)" "step_ok r1 b1 st"
  shows "step_ok r b st"
  using assms by (auto simp: step_ok_def split: add_step.splits)

text \<open>A reader whose header is complete and announces \<open>n\<close> bytes of payload.\<close>

definition header_full :: "apacket_reader \<Rightarrow> amessage \<Rightarrow> bool" where
  "header_full r m \<longleftrightarrow> wf_block (rheader r) \<and> bsize (rheader r) = 24 \<and> bposition (rheader r) = 24
     \<and> m = amessage_at (block_bytes (rheader r))
     \<and> 0 < unat (data_length m) \<and> unat (data_length m) \<le> MAX_PAYLOAD"

lemma prepare_ok:
  assumes "wf_block (rheader r)" "bsize (rheader r) = 24"
  shows "wf_reader (prepare_for_next_packet r)" "pending (prepare_for_next_packet r) = []"
    "rpackets (prepare_for_next_packet r) = rpackets r"
  using assms wf_block_rewind [OF assms(1)]
  by (auto simp: prepare_for_next_packet_def wf_reader_def reader_packet_ok_def pending_def
      block_rewind_def [of "rheader r"] block_read_def)

lemma add_packet_ok:
  assumes "wf_block (rheader r)" "bsize (rheader r) = 24"
  shows "wf_reader (add_packet p r)" "pending (add_packet p r) = []"
    "rpackets (add_packet p r) = rpackets r @ [p]"
  using prepare_ok [of "r\<lparr>rpackets := rpackets r @ [p]\<rparr>"] assms by (simp_all add: add_packet_def)

lemma frames_full:
  assumes "header_full r m" "length pl = unat (data_length m)"
  shows "frames (block_read (rheader r) @ pl @ rest) =
           (case frames rest of (ps, q, ok) \<Rightarrow> ((m, pl) # ps, q, ok))"
proof -
  obtain ps q ok where "frames rest = (ps, q, ok)" by (cases "frames rest") auto
  moreover have "length (block_bytes (rheader r)) = 24"
    using assms(1) by (simp add: header_full_def length_block_bytes)
  ultimately show ?thesis
    using assms frames_Cons [of "block_bytes (rheader r)" m pl rest ps q ok]
    by (auto simp: header_full_def full_header_read)
qed

lemma fill_payload_ok:
  assumes h: "header_full r m" and p: "msg p = m" "wf_block (payload p)"
    "bsize (payload p) = unat (data_length m)" "bposition (payload p) < bsize (payload p)"
    and b: "wf_block b" "block_unread b \<noteq> []"
  shows "\<exists>st. fill_payload r p b = Inr st \<and> step_ok (r\<lparr>rpacket := Some p\<rparr>) b st"
proof -
  let ?s = "block_read (rheader r) @ block_read (payload p) @ block_unread b"
  define n where "n = min (length (block_unread (payload p))) (length (block_unread b))"
  from block_fillFrom_ok [OF p(2) b(1) n_def] obtain pl b' where
    ff: "block_fillFrom (payload p) b = Inr (pl, b', n)" and pl: "wf_block pl"
      "block_read pl = block_read (payload p) @ take n (block_unread b)" "bsize pl = bsize (payload p)"
      "bposition pl = bposition (payload p) + n"
    and b': "wf_block b'" "block_unread b' = drop n (block_unread b)" by blast
  have "0 < length (block_unread (payload p))" using p by (simp add: length_block_unread)
  then have "0 < n" using b(2) by (simp add: n_def)
  have split: "?s = block_read (rheader r) @ block_read pl @ block_unread b'"
    by (simp add: pl(2) b'(2))
  have shorter: "length (block_unread b') < length (block_unread b)"
    using \<open>0 < n\<close> b(2) by (simp add: b'(2))
  have hd: "wf_block (rheader r)" "bsize (rheader r) = 24" using h by (simp_all add: header_full_def)
  show ?thesis
  proof (cases "block_is_full pl")
    case True
    then have "bposition pl = bsize pl"
      using pl(1) by (simp add: block_is_full_def block_remaining_def wf_block_def)
    then have all: "block_read pl = block_bytes pl" using pl(1) by (simp add: block_read_def length_block_bytes)
    let ?q = "p\<lparr>payload := block_rewind pl\<rparr>"
    have q: "wf_block (payload ?q)" "bposition (payload ?q) = 0" "frame_of ?q = (m, block_bytes pl)"
      using pl(1) p(1) by (simp_all add: frame_of_def)
    have fr: "frames ?s = (case frames (block_unread b') of (ps, q, ok) \<Rightarrow> (frame_of ?q # ps, q, ok))"
      unfolding split all q(3) using frames_full [OF h] pl(1,3) p(3) by (simp add: length_block_bytes)
    have pe: "pending (r\<lparr>rpacket := Some p\<rparr>) @ block_unread b = ?s" by (simp add: pending_def)
    have "step_ok (r\<lparr>rpacket := Some p\<rparr>) b (if 0 < block_remaining b' then Again (add_packet ?q r) b'
        else Return OK (add_packet ?q r) b')"
      using shorter q b'(1) add_packet_ok [OF hd, of ?q]
      by (simp add: step_ok_def pe fr block_remaining_unread frames_short)
    then show ?thesis using ff True by (auto simp: fill_payload_def Let_def split: if_splits)
  next
    case False
    let ?r = "r\<lparr>rpacket := Some (p\<lparr>payload := pl\<rparr>)\<rparr>"
    have lt: "bposition pl < bsize pl"
      using False pl(1) by (auto simp: block_is_full_def block_remaining_def wf_block_def)
    have "wf_reader ?r"
      using h p pl lt by (auto simp: wf_reader_def reader_packet_ok_def header_full_def)
    moreover have pe: "pending ?r = block_read (rheader r) @ block_read pl" by (simp add: pending_def)
    moreover have "pending (r\<lparr>rpacket := Some p\<rparr>) @ block_unread b = pending ?r @ block_unread b'"
      using split pe by (simp add: pending_def)
    ultimately have "step_ok (r\<lparr>rpacket := Some p\<rparr>) b (if 0 < block_remaining b' then Again ?r b'
        else Return OK ?r b')"
      using shorter b'(1) pending_incomplete [of ?r]
      by (simp add: step_ok_def block_remaining_unread split: prod.split)
    then show ?thesis using ff False by (auto simp: fill_payload_def Let_def split: if_splits)
  qed
qed

lemma add_payload_ok:
  assumes h: "header_full r m" "reader_packet_ok r" and b: "wf_block b" "block_unread b \<noteq> []"
  shows "\<exists>st. add_payload fresh r m b = Inr st \<and> step_ok r b st"
proof (cases "rpacket r")
  case (Some p)
  then have "r\<lparr>rpacket := Some p\<rparr> = r" by simp
  with Some fill_payload_ok [OF h(1) _ _ _ _ b, of p] h show ?thesis
    by (auto simp: add_payload_def reader_packet_ok_def header_full_def)
next
  case None
  have pe: "pending r = block_read (rheader r)" using None by (simp add: pending_def)
  show ?thesis
  proof (cases "bposition b = 0 \<and> block_remaining b = unat (data_length m)")
    case True
    obtain pl b' where mv: "block_move_assign block_empty b = (pl, b')" by fastforce
    then have pl: "wf_block pl" "block_bytes pl = block_unread b" "bposition pl = 0"
      using True b(1) by (auto simp: block_move_assign_eq block_unread_def wf_block_def split: option.splits)
    have "length (block_unread b) = unat (data_length m)"
      using True b(1) by (simp add: block_remaining_unread)
    from frames_full [OF h(1) this, of "[]"]
    have "frames (pending r @ block_unread b) = ([(m, block_unread b)], [], True)"
      by (simp add: pe frames_short)
    then show ?thesis
      using None True mv pl h(1) add_packet_ok [of r "\<lparr>msg = m, payload = pl\<rparr>"]
      by (simp add: add_payload_def step_ok_def header_full_def frame_of_def)
  next
    case False
    let ?n = "unat (data_length m)"
    have pos: "0 < ?n" using h(1) unfolding header_full_def by blast
    from block_new_ok [of fresh ?n] obtain pl where
      pl: "block_resize fresh block_empty ?n = Inr pl" "wf_block pl" "bsize pl = ?n" "bposition pl = 0"
      by (auto simp: block_resize_def block_new_def block_empty_def)
    let ?p = "\<lparr>msg = m, payload = pl\<rparr>"
    obtain st where st: "fill_payload r ?p b = Inr st" "step_ok (r\<lparr>rpacket := Some ?p\<rparr>) b st"
      using fill_payload_ok [OF h(1) _ _ _ _ b, of ?p] pl pos by auto
    have "step_ok r b st"
      by (rule step_ok_cong [OF _ _ _ st(2)])
        (simp_all add: None pending_def block_read_def [of pl] pl(4))
    then show ?thesis using None False pl(1) st(1) by (auto simp: add_payload_def)
  qed
qed

text \<open>Filling the header: a header that was complete stays as it is.\<close>

lemma fill_header_ok:
  assumes r: "wf_reader r" and b: "wf_block b" "block_unread b \<noteq> []"
  shows "\<exists>h b' n. block_fillFrom (rheader r) b = Inr (h, b', n) \<and> wf_block h \<and> bsize h = 24
     \<and> wf_block b' \<and> length (block_unread b') \<le> length (block_unread b)
     \<and> pending r @ block_unread b = pending (r\<lparr>rheader := h\<rparr>) @ block_unread b'
     \<and> reader_packet_ok (r\<lparr>rheader := h\<rparr>)
     \<and> (bposition h < 24 \<longrightarrow> block_unread b' = [] \<and> rpacket r = None)
     \<and> (if bposition (rheader r) = 24 then header_full (r\<lparr>rheader := h\<rparr>) (amessage_at (block_bytes h))
        else rpacket r = None \<and> length (block_unread b') < length (block_unread b))"
proof -
  let ?h = "rheader r"
  have h0: "wf_block ?h" "bsize ?h = 24" "bposition ?h \<le> 24"
    using r by (auto simp: wf_reader_def wf_block_def)
  define n where "n = min (length (block_unread ?h)) (length (block_unread b))"
  from block_fillFrom_ok [OF h0(1) b(1) n_def] obtain h b' where
    ff: "block_fillFrom ?h b = Inr (h, b', n)" and h: "wf_block h"
      "block_read h = block_read ?h @ take n (block_unread b)" "bsize h = 24"
      "bposition h = bposition ?h + n"
    and b': "wf_block b'" "block_unread b' = drop n (block_unread b)" using h0(2) by metis
  have len: "length (block_unread ?h) = 24 - bposition ?h" using h0 by (simp add: length_block_unread)
  show ?thesis
  proof (cases "bposition ?h = 24")
    case True
    then have "n = 0" "bposition h = 24" using len h by (simp_all add: n_def)
    then have "block_bytes h = block_bytes ?h"
      using h h0 True full_header_read [of h] full_header_read [of ?h] by simp
    then show ?thesis using r ff h b' True \<open>n = 0\<close>
      by (auto simp: wf_reader_def reader_packet_ok_def header_full_def pending_def split: option.splits)
  next
    case False
    then have "rpacket r = None" "0 < n" using r len h0 b(2)
      by (auto simp: wf_reader_def reader_packet_ok_def n_def split: option.splits)
    moreover have "block_unread b' = []" if "bposition h < 24"
      using that h(4) len by (auto simp: n_def b'(2) min_def split: if_splits)
    ultimately show ?thesis using ff h b' b(2) False
      by (auto simp: reader_packet_ok_def pending_def)
  qed
qed

lemma add_bytes_step_ok:
  assumes r: "wf_reader r" and b: "wf_block b"
  shows "\<exists>st. add_bytes_step fresh r b = Inr st \<and> step_ok r b st"
proof (cases "block_unread b = []")
  case True
  with r b pending_incomplete [OF r] show ?thesis
    by (simp add: add_bytes_step_def block_remaining_unread step_ok_def)
next
  case False
  from fill_header_ok [OF r b False] obtain h b' n where
    ff: "block_fillFrom (rheader r) b = Inr (h, b', n)" and h: "wf_block h" "bsize h = 24"
    and b': "wf_block b'" "length (block_unread b') \<le> length (block_unread b)"
    and pe: "pending r @ block_unread b = pending (r\<lparr>rheader := h\<rparr>) @ block_unread b'"
    and rp: "reader_packet_ok (r\<lparr>rheader := h\<rparr>)"
    and short: "bposition h < 24 \<longrightarrow> block_unread b' = [] \<and> rpacket r = None"
    and old: "if bposition (rheader r) = 24 then header_full (r\<lparr>rheader := h\<rparr>) (amessage_at (block_bytes h))
        else rpacket r = None \<and> length (block_unread b') < length (block_unread b)" by blast
  let ?r = "r\<lparr>rheader := h\<rparr>" and ?hb = "block_bytes h"
  let ?m = "amessage_at ?hb"
  have nz: "block_remaining b \<noteq> 0" using False b by (simp add: block_remaining_unread)
  have full: "block_is_full h \<longleftrightarrow> \<not> bposition h < 24"
    using h by (auto simp: block_is_full_def block_remaining_def wf_block_def)
  have load: "block_load h 0 amessage_size = Inr ?hb"
    using h by (simp add: block_load_ok amessage_size_def length_block_bytes)
  have lhb: "length ?hb = 24" using h by (simp add: length_block_bytes)
  have read: "block_read h = ?hb" if "\<not> bposition h < 24"
    using that h full_header_read [of h] by (auto simp: wf_block_def)
  note unfold = add_bytes_step_def nz ff full load Let_def
  consider (short) "bposition h < 24"
    | (big) "\<not> bposition h < 24" "MAX_PAYLOAD < unat (data_length ?m)"
    | (none) "\<not> bposition h < 24" "data_length ?m = 0"
    | (some) "\<not> bposition h < 24" "\<not> MAX_PAYLOAD < unat (data_length ?m)" "data_length ?m \<noteq> 0"
    by blast
  then show ?thesis
  proof cases
    case short
    with \<open>bposition h < 24 \<longrightarrow> _\<close> have "wf_reader ?r" "block_unread b' = []"
      using h rp by (auto simp: wf_reader_def)
    with pending_incomplete [of ?r] pe short show ?thesis
      by (simp add: unfold step_ok_def)
  next
    case big
    then have "frames (pending ?r @ block_unread b') = ([], [], False)"
      using frames_oversized [of "pending ?r @ block_unread b'"]
      by (simp add: pending_def read lhb amessage_at_append)
    then show ?thesis using big prepare_ok [of ?r] h by (simp add: unfold step_ok_def pe)
  next
    case none
    then have new: "rpacket r = None" "length (block_unread b') < length (block_unread b)"
      using old by (auto simp: header_full_def split: if_splits)
    let ?p = "\<lparr>msg = ?m, payload = block_empty\<rparr>"
    obtain ps q ok where fr: "frames (block_unread b') = (ps, q, ok)" by (cases "frames (block_unread b')") auto
    have "frames (pending r @ block_unread b) = (frame_of ?p # ps, q, ok)"
      unfolding pe using frames_Cons [OF lhb refl _ _ fr, of "[]"] none new
      by (simp add: pending_def read frame_of_def)
    moreover have "fst (block_move_assign block_empty block_empty) = block_empty"
      by (simp add: block_move_assign_eq block_empty_def)
    ultimately show ?thesis
      using none new b' fr h add_packet_ok [of ?r ?p]
      by (simp add: unfold step_ok_def block_new_def block_allocate_empty, simp add: block_empty_def)
  next
    case some
    then have hf: "header_full ?r ?m"
      using h by (auto simp: header_full_def wf_block_def unat_gt_0)
    show ?thesis
    proof (cases "block_unread b' = []")
      case True
      have "wf_reader ?r" using hf rp by (simp add: wf_reader_def header_full_def)
      with pending_incomplete [of ?r] pe some b' True show ?thesis
        by (simp add: unfold step_ok_def block_remaining_unread)
    next
      case False
      from add_payload_ok [OF hf rp b'(1) False] obtain st where
        "add_payload fresh ?r ?m b' = Inr st" "step_ok ?r b' st" by blast
      moreover from this(2) have "step_ok r b st"
        by (rule step_ok_cong [rotated -1]) (simp_all add: pe b'(2))
      ultimately show ?thesis using some b' False by (simp add: unfold block_remaining_unread)
    qed
  qed
qed

subsection \<open>The reader implements the reference\<close>

lemma add_bytes_ok:
  assumes "wf_reader r" "wf_block b"
  shows "\<exists>res r' b' new. add_bytes fresh r b = Some (Inr (res, r', b')) \<and> wf_reader r'
           \<and> rpackets r' = rpackets r @ new
           \<and> (\<forall>p\<in>set new. wf_block (payload p) \<and> bposition (payload p) = 0)
           \<and> frames (pending r @ block_unread b) = (map frame_of new, pending r', res = OK)"
  using assms
proof (induction "length (block_unread b)" arbitrary: r b rule: less_induct)
  case less
  from add_bytes_step_ok [OF less.prems] obtain st where
    st: "add_bytes_step fresh r b = Inr st" "step_ok r b st" by blast
  show ?case
  proof (cases st)
    case (Return res r' b')
    then show ?thesis using st by (subst add_bytes.simps) (simp add: step_ok_def)
  next
    case (Again r1 b1)
    with st(2) obtain new where s: "wf_reader r1" "wf_block b1"
      "length (block_unread b1) < length (block_unread b)" "rpackets r1 = rpackets r @ new"
      "\<forall>p\<in>set new. wf_block (payload p) \<and> bposition (payload p) = 0"
      "frames (pending r @ block_unread b) = (case frames (pending r1 @ block_unread b1) of (ps, rest, ok) \<Rightarrow>
                 (map frame_of new @ ps, rest, ok))"
      by (auto simp: step_ok_def)
    from less.hyps [OF s(3,1,2)] obtain res r' b' more where
      "add_bytes fresh r1 b1 = Some (Inr (res, r', b'))" "wf_reader r'" "rpackets r' = rpackets r1 @ more"
      "\<forall>p\<in>set more. wf_block (payload p) \<and> bposition (payload p) = 0"
      "frames (pending r1 @ block_unread b1) = (map frame_of more, pending r', res = OK)" by blast
    moreover have "add_bytes fresh r b = add_bytes fresh r1 b1"
      using st(1) Again by (subst add_bytes.simps) simp
    ultimately show ?thesis using s(4,5,6) by (intro exI [of _ "new @ more"] exI) auto
  qed
qed

lemma add_blocks_ok:
  assumes "wf_reader r" "\<forall>b\<in>set bs. wf_block b"
  shows "\<exists>res r' new. add_blocks fresh r bs = Some (Inr (res, r')) \<and> wf_reader r'
           \<and> rpackets r' = rpackets r @ new
           \<and> (\<forall>p\<in>set new. wf_block (payload p) \<and> bposition (payload p) = 0)
           \<and> (if res = OK then frames (pending r @ concat (map block_unread bs)) = (map frame_of new, pending r', True)
              else \<exists>q. frames (pending r @ concat (map block_unread bs)) = (map frame_of new, q, False))"
  using assms
proof (induction bs arbitrary: r)
  case Nil
  then show ?case using pending_incomplete [of r] by simp
next
  case (Cons b bs)
  from add_bytes_ok [of r b fresh] Cons.prems obtain res r1 b' new where
    ab: "add_bytes fresh r b = Some (Inr (res, r1, b'))" "wf_reader r1" "rpackets r1 = rpackets r @ new"
      "\<forall>p\<in>set new. wf_block (payload p) \<and> bposition (payload p) = 0"
      "frames (pending r @ block_unread b) = (map frame_of new, pending r1, res = OK)" by auto
  show ?case
  proof (cases res)
    case ERROR
    with ab show ?thesis
      using frames_append [of "pending r @ block_unread b" "concat (map block_unread bs)"] by simp
  next
    case OK
    from Cons.IH [OF ab(2)] Cons.prems(2) obtain res' r' more where
      "add_blocks fresh r1 bs = Some (Inr (res', r'))" "wf_reader r'" "rpackets r' = rpackets r1 @ more"
      "\<forall>p\<in>set more. wf_block (payload p) \<and> bposition (payload p) = 0"
      "if res' = AddResult.OK then frames (pending r1 @ concat (map block_unread bs)) = (map frame_of more, pending r', True)
       else \<exists>q. frames (pending r1 @ concat (map block_unread bs)) = (map frame_of more, q, False)" by auto
    with ab OK show ?thesis
      using frames_append [of "pending r @ block_unread b" "concat (map block_unread bs)"]
      by (intro exI [of _ res'] exI [of _ r'] exI [of _ "new @ more"]) (auto split: if_splits)
  qed
qed

lemma APacketReader_ok:
  "\<exists>r. APacketReader fresh = Inr r \<and> wf_reader r \<and> pending r = [] \<and> rpackets r = []"
proof -
  obtain h where h: "block_new fresh 24 = Inr h" "wf_block h" "bsize h = 24"
    using block_new_ok [of fresh 24] by auto
  with prepare_ok [of "\<lparr>rheader = h, rpacket = None, rpackets = []\<rparr>"] show ?thesis
    by (simp add: APacketReader_def amessage_size_def)
qed

text \<open>
  C1: the reader is insensitive to how the stream was cut. A sequence of packets, each at most
  \<open>MAX_PAYLOAD\<close> long, sent as one byte stream and delivered in blocks cut at any boundaries (headers
  split, headers and payloads merged, several packets in one block) is returned by \<open>get_packets\<close> as
  exactly these packets, in order, with nothing left pending; \<open>add_bytes\<close> terminates and no
  access is out of bounds.
\<close>

theorem reader_reassembles:
  assumes "\<forall>f\<in>set fs. frame_ok f" "\<forall>b\<in>set bs. wf_block b"
    "concat (map block_unread bs) = concat (map frame_bytes fs)"
  shows "\<exists>r r'. APacketReader fresh = Inr r \<and> add_blocks fresh r bs = Some (Inr (OK, r'))
           \<and> map frame_of (fst (get_packets r')) = fs \<and> rpackets (snd (get_packets r')) = []
           \<and> pending r' = []"
proof -
  obtain r where r: "APacketReader fresh = Inr r" "wf_reader r" "pending r = []" "rpackets r = []"
    using APacketReader_ok by blast
  have "frames (pending r @ concat (map block_unread bs)) = (fs, [], True)"
    using frames_frame_bytes [OF assms(1), of "[]"] assms(3) r(3) by (simp add: frames_short)
  with add_blocks_ok [OF r(2) assms(2), of fresh] r show ?thesis
    by (auto simp: get_packets_def split: if_splits)
qed

text \<open>
  C24: whatever bytes arrive, adding a block terminates without a fault in a well-formed reader; the
  packets it adds are those the reference cuts from the stream, and \<open>ERROR\<close> is returned exactly
  when a header announces more than \<open>MAX_PAYLOAD\<close> bytes. The packets received before such a header
  are kept and the reader is ready for a new packet.
\<close>

theorem add_bytes_refines_frames:
  assumes "wf_reader r" "wf_block b"
  shows "\<exists>res r' b' new. add_bytes fresh r b = Some (Inr (res, r', b')) \<and> wf_reader r'
           \<and> rpackets r' = rpackets r @ new
           \<and> frames (pending r @ block_unread b) = (map frame_of new, pending r', res = OK)"
  using add_bytes_ok [OF assms, of fresh] by blast

text \<open>A cut in the middle of the header, and a payload merged with the next header.\<close>

definition example_frame :: frame where
  "example_frame = (amessage_zero\<lparr>command := A_WRTE, data_length := 2\<rparr>, ''hi'')"

theorem reader_reassembles_witness:
  "\<exists>r r'. APacketReader (\<lambda>_. CHR ''x'') = Inr r
     \<and> add_blocks (\<lambda>_. CHR ''x'') r [block_of (take 10 (frame_bytes example_frame)),
          block_of (drop 10 (frame_bytes example_frame) @ frame_bytes example_frame)] = Some (Inr (OK, r'))
     \<and> map frame_of (fst (get_packets r')) = [example_frame, example_frame]
     \<and> rpackets (snd (get_packets r')) = [] \<and> pending r' = []"
  by (rule reader_reassembles)
    (simp_all add: example_frame_def frame_ok_def amessage_zero_def MAX_PAYLOAD_def)

theorem add_bytes_refines_frames_witness:
  "\<exists>r res r' b' new. APacketReader (\<lambda>_. CHR ''x'') = Inr r
     \<and> add_bytes (\<lambda>_. CHR ''x'') r (block_of (frame_bytes example_frame @ ''ab'')) = Some (Inr (res, r', b'))
     \<and> wf_reader r' \<and> map frame_of (rpackets r') = [example_frame] \<and> pending r' = ''ab'' \<and> res = OK"
proof -
  obtain r where r: "APacketReader (\<lambda>_. CHR ''x'') = Inr r" "wf_reader r" "pending r = []" "rpackets r = []"
    using APacketReader_ok by blast
  have "frames (frame_bytes example_frame @ ''ab'') = ([example_frame], ''ab'', True)"
    using frames_frame_bytes [of "[example_frame]" "''ab''"]
    by (simp add: frames_short example_frame_def frame_ok_def amessage_zero_def MAX_PAYLOAD_def)
  with add_bytes_refines_frames [OF r(2) wf_block_of, of "\<lambda>_. CHR ''x''" "frame_bytes example_frame @ ''ab''"] r
  show ?thesis by auto
qed

end
