(* ===== verification/Adb_Io.thy ===== *)
theory Adb_Io
  imports Packet
begin

text \<open>
  \<open>adb_io.cpp\<close>: exact reads and writes on a file descriptor and the length-prefixed strings of the
  smart-socket protocol. A descriptor is modelled by what the kernel will do: the chunks or the error
  each \<open>read\<close> returns (end of file when there are none left), and how much each \<open>write\<close> takes or
  the error it gives. A \<open>write\<close> past the end of the script has not returned, so \<open>WriteFdExactly\<close>
  is \<open>None\<close> when it is still waiting.
\<close>

subsection \<open>Descriptors\<close>

datatype read_event = Data bytes | Read_error nat
datatype write_event = Accept nat | Write_error nat

text \<open>The answer of one \<open>writev\<close>: its return value, \<open>EAGAIN\<close>, or another error.\<close>

datatype writev_result = Wrote nat | Would_block | Write_failed

record fd_state =
  fd_in :: "read_event list"
  fd_wr :: "write_event list"
  fd_out :: bytes
  fd_errno :: nat
  fd_shut :: bool

definition EAGAIN :: nat where "EAGAIN = 11"
definition EINVAL :: nat where "EINVAL = 22"
definition EPIPE :: nat where "EPIPE = 32"
definition EMSGSIZE :: nat where "EMSGSIZE = 90"

text \<open>
  \<open>adb_read\<close>: at most \<open>len\<close> bytes of the first chunk, the rest of which stays; \<open>Some []\<close> is the
  return value 0 and \<open>None\<close> is -1.
\<close>

fun adb_read :: "nat \<Rightarrow> fd_state \<Rightarrow> bytes option \<times> fd_state" where
  "adb_read len fd =
     (case fd_in fd of
        [] \<Rightarrow> (Some [], fd)
      | Read_error e # evs \<Rightarrow> (None, fd\<lparr>fd_in := evs, fd_errno := e\<rparr>)
      | Data c # evs \<Rightarrow>
          (Some (take len c), fd\<lparr>fd_in := (if length c \<le> len then evs else Data (drop len c) # evs)\<rparr>))"

declare adb_read.simps [simp del]

subsection \<open>Exact reads and writes\<close>

text \<open>The bytes stored in the buffer are returned with the flag, also when the read fails.\<close>

function ReadFdExactly :: "nat \<Rightarrow> fd_state \<Rightarrow> bool \<times> bytes \<times> fd_state" where
  "ReadFdExactly len fd =
     (if len = 0 then (True, [], fd)
      else case adb_read len fd of
             (None, fd') \<Rightarrow> (False, [], fd')
           | (Some c, fd') \<Rightarrow>
               if c = [] then (False, [], fd'\<lparr>fd_errno := 0\<rparr>)
               else (case ReadFdExactly (len - length c) fd' of
                       (ok, cs, fd'') \<Rightarrow> (ok, c @ cs, fd'')))"
  by pat_completeness auto
termination by (relation "measure fst") auto

declare ReadFdExactly.simps [simp del]

fun WriteFdExactly_loop ::
  "bytes \<Rightarrow> write_event list \<Rightarrow> bytes \<Rightarrow> nat \<Rightarrow> (bool \<times> write_event list \<times> bytes \<times> nat) option" where
  "WriteFdExactly_loop [] wr out err = Some (True, wr, out, err)"
| "WriteFdExactly_loop (b # bs) [] out err = None"
| "WriteFdExactly_loop (b # bs) (Write_error e # wr) out err =
     (if e = EAGAIN then WriteFdExactly_loop (b # bs) wr out e
      else if e = EPIPE then Some (False, wr, out, 0)
      else Some (False, wr, out, e))"
| "WriteFdExactly_loop (b # bs) (Accept n # wr) out err =
     WriteFdExactly_loop (drop n (b # bs)) wr (out @ take n (b # bs)) err"

definition WriteFdExactly :: "bytes \<Rightarrow> fd_state \<Rightarrow> (bool \<times> fd_state) option" where
  "WriteFdExactly bs fd =
     (case WriteFdExactly_loop bs (fd_wr fd) (fd_out fd) (fd_errno fd) of
        None \<Rightarrow> None
      | Some (ok, wr, out, err) \<Rightarrow> Some (ok, fd\<lparr>fd_wr := wr, fd_out := out, fd_errno := err\<rparr>))"

subsection \<open>Protocol strings\<close>

definition SendProtocolString :: "string \<Rightarrow> fd_state \<Rightarrow> (bool \<times> fd_state) option" where
  "SendProtocolString s fd =
     (let length' = length s mod 2 ^ 32
      in if MAX_PAYLOAD - 4 < length' then Some (False, fd\<lparr>fd_errno := EMSGSIZE\<rparr>)
         else WriteFdExactly (hex_pad 4 length' @ s) fd)"

text \<open>
  \<open>strerror\<close> is the text of an error number. Resizing the string to a length no allocation can
  satisfy throws an exception that nothing catches.
\<close>

definition perror_str :: "(nat \<Rightarrow> string) \<Rightarrow> string \<Rightarrow> fd_state \<Rightarrow> string" where
  "perror_str strerror m fd = m @ '': '' @ strerror (fd_errno fd)"

datatype 'a protocol_read = Read_ok 'a | Read_fault string

definition ReadProtocolString ::
  "(nat \<Rightarrow> string) \<Rightarrow> fd_state \<Rightarrow> (string protocol_read \<times> fd_state) result" where
  "ReadProtocolString strerror fd =
     (case ReadFdExactly 4 fd of
        (False, _, fd1) \<Rightarrow>
          Inr (Read_fault (perror_str strerror ''protocol fault (couldn't read status length)'' fd1), fd1)
      | (True, buf, fd1) \<Rightarrow>
          let len = fst (strtoul 16 buf)
          in if 2 ^ 63 \<le> len then Inl Uncaught
             else (case ReadFdExactly len fd1 of
                     (False, _, fd2) \<Rightarrow>
                       Inr (Read_fault (perror_str strerror
                              ''protocol fault (couldn't read status message)'' fd2), fd2)
                   | (True, s, fd2) \<Rightarrow> Inr (Read_ok s, fd2)))"

definition SendOkay :: "fd_state \<Rightarrow> (bool \<times> fd_state) option" where
  "SendOkay fd = WriteFdExactly ''OKAY'' fd"

definition SendFail :: "string \<Rightarrow> fd_state \<Rightarrow> (bool \<times> fd_state) option" where
  "SendFail reason fd =
     (case WriteFdExactly ''FAIL'' fd of
        None \<Rightarrow> None
      | Some (False, fd') \<Rightarrow> Some (False, fd')
      | Some (True, fd') \<Rightarrow> SendProtocolString reason fd')"

definition ReadOrderlyShutdown :: "fd_state \<Rightarrow> (bool \<times> fd_state) result" where
  "ReadOrderlyShutdown fd =
     (case adb_read 16 fd of
        (None, fd') \<Rightarrow> rcheck (fd_errno fd' \<noteq> EAGAIN) (Inr (False, fd'))
      | (Some c, fd') \<Rightarrow>
          if c = [] then Inr (True, fd')
          else Inr (False, fd'\<lparr>fd_errno := EINVAL, fd_shut := True\<rparr>))"

subsection \<open>What an exact read returns\<close>

text \<open>A descriptor that will deliver \<open>bs\<close> in non-empty chunks.\<close>

fun delivers :: "read_event list \<Rightarrow> bytes \<Rightarrow> bool" where
  "delivers [] bs \<longleftrightarrow> bs = []"
| "delivers (Read_error e # evs) bs \<longleftrightarrow> False"
| "delivers (Data c # evs) bs \<longleftrightarrow> c \<noteq> [] \<and> take (length c) bs = c \<and> delivers evs (drop (length c) bs)"

lemma delivers_Cons: "delivers (Data c # evs) bs \<longleftrightarrow> c \<noteq> [] \<and> (\<exists>bs'. bs = c @ bs' \<and> delivers evs bs')"
  by (auto, metis append_take_drop_id)

lemma adb_read_delivers:
  assumes "delivers (fd_in fd) bs" "0 < len" "bs \<noteq> []"
  shows "\<exists>c evs. adb_read len fd = (Some c, fd\<lparr>fd_in := evs\<rparr>) \<and> c \<noteq> [] \<and> length c \<le> len
           \<and> (\<exists>bs'. bs = c @ bs' \<and> delivers evs bs')"
proof (cases "fd_in fd")
  case Nil
  with assms show ?thesis by simp
next
  case (Cons ev evs)
  with assms(1) obtain c bs' where ev: "ev = Data c" "c \<noteq> []" "bs = c @ bs'" "delivers evs bs'"
    by (cases ev) (auto simp: delivers_Cons simp del: delivers.simps(3))
  show ?thesis
  proof (cases "length c \<le> len")
    case True
    with ev Cons show ?thesis by (auto simp: adb_read.simps)
  next
    case False
    then have "bs = take len c @ drop len c @ bs'" "drop len c \<noteq> []" using ev(3) by simp_all
    with False ev Cons assms(2) show ?thesis
      by (auto simp: adb_read.simps delivers_Cons simp del: delivers.simps(3))
  qed
qed

lemma ReadFdExactly_delivers:
  assumes "delivers (fd_in fd) bs" "n \<le> length bs"
  shows "\<exists>evs. ReadFdExactly n fd = (True, take n bs, fd\<lparr>fd_in := evs\<rparr>) \<and> delivers evs (drop n bs)"
  using assms
proof (induction n fd arbitrary: bs rule: ReadFdExactly.induct)
  case (1 n fd)
  show ?case
  proof (cases "n = 0")
    case True
    with 1 show ?thesis by (subst ReadFdExactly.simps) (auto intro: exI [of _ "fd_in fd"])
  next
    case False
    with 1 have "bs \<noteq> []" by auto
    with adb_read_delivers [OF "1.prems"(1), of n] False obtain c evs bs' where
      rd: "adb_read n fd = (Some c, fd\<lparr>fd_in := evs\<rparr>)" "c \<noteq> []" "length c \<le> n" "bs = c @ bs'" "delivers evs bs'"
      by auto
    have "n - length c \<le> length bs'" using rd(4) "1.prems"(2) by simp
    with "1.IH" [OF False rd(1) [symmetric] refl rd(2), of bs'] rd(5) obtain evs' where
      "ReadFdExactly (n - length c) (fd\<lparr>fd_in := evs\<rparr>) = (True, take (n - length c) bs', fd\<lparr>fd_in := evs'\<rparr>)"
      "delivers evs' (drop (n - length c) bs')" by auto
    with rd False show ?thesis by (subst ReadFdExactly.simps) auto
  qed
qed

text \<open>A read that succeeds stores exactly the bytes asked for, whatever happened.\<close>

lemma ReadFdExactly_length:
  "ReadFdExactly n fd = (ok, bs, fd') \<Longrightarrow> length bs \<le> n \<and> (ok \<longleftrightarrow> length bs = n)"
proof (induction n fd arbitrary: ok bs fd' rule: ReadFdExactly.induct)
  case (1 n fd)
  show ?case
  proof (cases "n = 0")
    case True
    with "1.prems" show ?thesis by (subst (asm) ReadFdExactly.simps) simp
  next
    case False
    obtain r fd1 where rd: "adb_read n fd = (r, fd1)" by fastforce
    show ?thesis
    proof (cases r)
      case None
      with rd False "1.prems" show ?thesis by (subst (asm) ReadFdExactly.simps) simp
    next
      case (Some c)
      have len: "length c \<le> n"
        using rd Some by (auto simp: adb_read.simps split: list.splits read_event.splits)
      show ?thesis
      proof (cases "c = []")
        case True
        with rd Some False "1.prems" show ?thesis by (subst (asm) ReadFdExactly.simps) simp
      next
        case c: False
        obtain ok' cs fd2 where rec: "ReadFdExactly (n - length c) fd1 = (ok', cs, fd2)"
          by (cases "ReadFdExactly (n - length c) fd1")
        from "1.IH" [OF False rd [symmetric] Some c rec] rec rd Some c False len "1.prems"
        show ?thesis by (subst (asm) (2) ReadFdExactly.simps) auto
      qed
    qed
  qed
qed

subsection \<open>What an exact write does\<close>

fun accepted :: "write_event list \<Rightarrow> nat" where
  "accepted [] = 0"
| "accepted (Accept n # wr) = n + accepted wr"
| "accepted (Write_error e # wr) = accepted wr"

definition transient :: "write_event list \<Rightarrow> bool" where
  "transient wr \<longleftrightarrow> (\<forall>ev\<in>set wr. \<forall>e. ev = Write_error e \<longrightarrow> e = EAGAIN)"

lemma transient_simps [simp]:
  "transient []" "transient (Accept n # wr) = transient wr"
  "transient (Write_error e # wr) = (e = EAGAIN \<and> transient wr)"
  by (auto simp: transient_def)

text \<open>What has been written is always a prefix, and all of it on success.\<close>

lemma WriteFdExactly_loop_prefix:
  "WriteFdExactly_loop bs wr out err = Some (ok, wr', out', err') \<Longrightarrow>
     \<exists>k. out' = out @ take k bs \<and> (ok \<longrightarrow> out' = out @ bs)"
proof (induction bs wr out err rule: WriteFdExactly_loop.induct)
  case (1 wr out err)
  then show ?case by simp
next
  case (2 b bs out err)
  then show ?case by simp
next
  case (3 b bs e wr out err)
  then show ?case by (auto split: if_splits intro: exI [of _ 0])
next
  case (4 b bs n wr out err)
  then obtain k where k: "out' = (out @ take n (b # bs)) @ take k (drop n (b # bs))"
    "ok \<longrightarrow> out' = (out @ take n (b # bs)) @ drop n (b # bs)" by auto
  have "take n (b # bs) @ take k (drop n (b # bs)) = take (n + k) (b # bs)" by (simp add: take_add)
  then show ?case using k by (intro exI [of _ "n + k"]) (simp del: take_Cons drop_Cons)
qed

text \<open>A kernel that keeps taking bytes lets the write finish; \<open>EAGAIN\<close> only delays it.\<close>

lemma WriteFdExactly_loop_total:
  "transient wr \<Longrightarrow> length bs \<le> accepted wr \<Longrightarrow>
     \<exists>wr' err'. WriteFdExactly_loop bs wr out err = Some (True, wr', out @ bs, err')"
proof (induction bs wr out err rule: WriteFdExactly_loop.induct)
  case (4 b bs n wr out err)
  have "take n (b # bs) @ drop n (b # bs) = b # bs" by (rule append_take_drop_id)
  with 4 show ?case by simp
qed auto

lemma WriteFdExactly_total:
  assumes "transient (fd_wr fd)" "length bs \<le> accepted (fd_wr fd)"
  shows "\<exists>fd'. WriteFdExactly bs fd = Some (True, fd') \<and> fd_out fd' = fd_out fd @ bs \<and> fd_in fd' = fd_in fd"
  using WriteFdExactly_loop_total [OF assms, of "fd_out fd" "fd_errno fd"]
  by (auto simp: WriteFdExactly_def)

subsection \<open>Protocol strings: correct up to 65535 bytes\<close>

lemma ReadProtocolString_delivers:
  assumes "delivers (fd_in fd) (h @ s @ rest)" "length h = 4" "fst (strtoul 16 h) = length s"
    "length s < 2 ^ 63"
  shows "\<exists>evs. ReadProtocolString strerror fd = Inr (Read_ok s, fd\<lparr>fd_in := evs\<rparr>) \<and> delivers evs rest"
proof -
  from ReadFdExactly_delivers [OF assms(1), of 4] assms(2) obtain evs where
    r1: "ReadFdExactly 4 fd = (True, h, fd\<lparr>fd_in := evs\<rparr>)" "delivers evs (s @ rest)" by auto
  from ReadFdExactly_delivers [of "fd\<lparr>fd_in := evs\<rparr>" "s @ rest" "length s"] r1(2) obtain evs' where
    "ReadFdExactly (length s) (fd\<lparr>fd_in := evs\<rparr>) = (True, s, fd\<lparr>fd_in := evs'\<rparr>)" "delivers evs' rest" by auto
  with r1 assms show ?thesis by (auto simp: ReadProtocolString_def Let_def)
qed

text \<open>
  C27: a protocol string of at most \<open>0xffff\<close> bytes survives the trip. Whatever pieces the sender's
  kernel takes and whatever chunks the receiver's kernel delivers, \<open>SendProtocolString\<close> returns,
  and \<open>ReadProtocolString\<close> on what was sent gives the string back and leaves the bytes behind it.
\<close>

theorem protocol_string_roundtrip:
  assumes "length s \<le> 0xffff" "transient (fd_wr fd)" "length s + 4 \<le> accepted (fd_wr fd)"
  shows "\<exists>fd' w. SendProtocolString s fd = Some (True, fd') \<and> fd_out fd' = fd_out fd @ w
           \<and> (\<forall>rd rest. delivers (fd_in rd) (w @ rest) \<longrightarrow>
                (\<exists>evs. ReadProtocolString strerror rd = Inr (Read_ok s, rd\<lparr>fd_in := evs\<rparr>)
                   \<and> delivers evs rest))"
proof -
  let ?w = "hex_pad 4 (length s) @ s"
  have len: "length (hex_pad 4 (length s)) = 4" using assms(1) by (simp add: length_hex_pad)
  have "fst (strtoul 16 (hex_pad 4 (length s))) = length s"
    using strtoul_hex_pad [of "length s" 4] assms(1) by simp
  then have "\<exists>evs. ReadProtocolString strerror rd = Inr (Read_ok s, rd\<lparr>fd_in := evs\<rparr>) \<and> delivers evs rest"
    if "delivers (fd_in rd) (?w @ rest)" for rd rest
    using ReadProtocolString_delivers [of rd "hex_pad 4 (length s)" s rest strerror] that len assms(1) by simp
  moreover from WriteFdExactly_total [OF assms(2), of ?w] assms(3) len obtain fd' where
    "WriteFdExactly ?w fd = Some (True, fd')" "fd_out fd' = fd_out fd @ ?w" by auto
  ultimately show ?thesis using assms(1)
    by (intro exI [of _ fd'] exI [of _ ?w]) (simp add: SendProtocolString_def Let_def MAX_PAYLOAD_def)
qed

definition example_fd :: fd_state where
  "example_fd = \<lparr>fd_in = [Data ''00'', Data ''02o'', Data ''kx''], fd_wr = [Accept 3, Write_error EAGAIN, Accept 9],
     fd_out = [], fd_errno = 0, fd_shut = False\<rparr>"

theorem protocol_string_roundtrip_witness:
  "\<exists>fd' w. SendProtocolString ''ok'' example_fd = Some (True, fd') \<and> fd_out fd' = w
     \<and> (\<forall>rd rest. delivers (fd_in rd) (w @ rest) \<longrightarrow>
          (\<exists>evs. ReadProtocolString (\<lambda>_. []) rd = Inr (Read_ok ''ok'', rd\<lparr>fd_in := evs\<rparr>) \<and> delivers evs rest))"
  using protocol_string_roundtrip [of "''ok''" example_fd "\<lambda>_. []"] by (simp add: example_fd_def)

text \<open>
  Longer strings do not survive. From 65536 bytes up to the limit \<open>MAX_PAYLOAD - 4\<close> that
  \<open>SendProtocolString\<close> accepts, the length takes five digits; the send succeeds, the receiver
  reads the first four, and takes a string of a sixteenth of the length, which starts with
  the fifth digit.
\<close>

theorem protocol_string_overlong:
  assumes "0x10000 \<le> length s" "length s \<le> MAX_PAYLOAD - 4" "transient (fd_wr fd)"
    "length s + 5 \<le> accepted (fd_wr fd)"
  shows "\<exists>fd' w. SendProtocolString s fd = Some (True, fd') \<and> fd_out fd' = fd_out fd @ w
           \<and> (\<forall>rd rest. delivers (fd_in rd) (w @ rest) \<longrightarrow>
                (\<exists>evs s'. ReadProtocolString strerror rd = Inr (Read_ok s', rd\<lparr>fd_in := evs\<rparr>)
                   \<and> length s' = length s div 16 \<and> s' \<noteq> s \<and> hd s' = digit_char (length s mod 16)))"
proof -
  let ?n = "length s" and ?d = "digit_char (length s mod 16)"
  let ?h = "digits 16 (?n div 16)"
  have n: "?n < 16 ^ 5" "16 ^ 3 \<le> ?n div 16" "?n div 16 < 16 ^ 4"
    using assms(1,2) by (simp_all add: MAX_PAYLOAD_def)
  have split: "digits 16 ?n = ?h @ [?d]" using assms(1) by (simp add: digits.simps [of 16 ?n])
  have lh: "length ?h = 4"
    using length_digits_le [OF n(3)] length_digits_ge [OF n(2)] by simp
  then have pad: "hex_pad 4 ?n = ?h @ [?d]" by (simp add: hex_pad_def Let_def split)
  have "hex_pad 4 (?n div 16) = ?h" using lh by (simp add: hex_pad_def Let_def)
  then have "strtoul 16 ?h = (?n div 16, [])"
    using strtoul_hex_pad [of "?n div 16" 4] n(3) by simp
  moreover have "?n div 16 < ?n" using assms(1) by simp
  ultimately have rd: "\<exists>evs. ReadProtocolString strerror rd = Inr (Read_ok s', rd\<lparr>fd_in := evs\<rparr>)"
    if "delivers (fd_in rd) (?h @ s' @ rest)" "length s' = ?n div 16" for rd s' rest
    using ReadProtocolString_delivers [OF that(1) lh, of strerror] that(2) n(3) by auto
  define s' where "s' = take (?n div 16) (?d # s)"
  have s': "length s' = ?n div 16" "hd s' = ?d" using n(2) by (simp_all add: s'_def hd_take)
  then have "s' \<noteq> s" using \<open>?n div 16 < ?n\<close> by auto
  have "((?h @ [?d]) @ s) @ rest = ?h @ s' @ drop (?n div 16) (?d # s) @ rest" for rest
    unfolding s'_def by (simp flip: append_assoc)
  then have "\<forall>rd rest. delivers (fd_in rd) (((?h @ [?d]) @ s) @ rest) \<longrightarrow>
      (\<exists>evs. ReadProtocolString strerror rd = Inr (Read_ok s', rd\<lparr>fd_in := evs\<rparr>))"
    using rd s'(1) by metis
  moreover from WriteFdExactly_total [OF assms(3), of "(?h @ [?d]) @ s"] assms(4) lh obtain fd' where
    "WriteFdExactly ((?h @ [?d]) @ s) fd = Some (True, fd')" "fd_out fd' = fd_out fd @ (?h @ [?d]) @ s" by auto
  moreover from this(1) have "SendProtocolString s fd = Some (True, fd')"
    using assms(2) n(1) by (simp add: SendProtocolString_def Let_def pad)
  ultimately show ?thesis using s' \<open>s' \<noteq> s\<close> by blast
qed

theorem protocol_string_overlong_witness:
  "\<exists>fd' w. SendProtocolString (replicate 0x10000 CHR ''a'') (example_fd\<lparr>fd_wr := [Accept 100000]\<rparr>) = Some (True, fd')
     \<and> fd_out fd' = w
     \<and> (\<forall>rd rest. delivers (fd_in rd) (w @ rest) \<longrightarrow>
          (\<exists>evs s'. ReadProtocolString (\<lambda>_. []) rd = Inr (Read_ok s', rd\<lparr>fd_in := evs\<rparr>)
             \<and> length s' = 0x1000 \<and> s' \<noteq> replicate 0x10000 CHR ''a'' \<and> hd s' = CHR ''0''))"
  using protocol_string_overlong [of "replicate 0x10000 CHR ''a''" "example_fd\<lparr>fd_wr := [Accept 100000]\<rparr>" "\<lambda>_. []"]
  by (simp add: example_fd_def MAX_PAYLOAD_def digit_char_def char_of_def bit_iff_odd)

end
