(* ===== verification/Shell_Protocol.thy ===== *)
theory Shell_Protocol
  imports Adb_Io
begin

text \<open>
  \<open>ShellProtocol\<close> of \<open>shell_protocol.h\<close> and \<open>shell_service_protocol.cpp\<close>: packets of a one-byte
  id and a four-byte length in front of the data. The buffer \<open>buffer_\<close> is a list of bytes and
  \<open>buffer_end_\<close> the offset of its end; a packet longer than the buffer is handed out by several
  calls of \<open>Read\<close>.
\<close>

record shell_protocol =
  sp_fd :: fd_state
  sp_buffer :: bytes
  sp_buffer_end :: nat
  sp_data_length :: nat
  sp_bytes_left :: nat

definition kIdStdin :: nat where "kIdStdin = 0"
definition kIdStdout :: nat where "kIdStdout = 1"
definition kIdStderr :: nat where "kIdStderr = 2"
definition kIdExit :: nat where "kIdExit = 3"
definition kIdCloseStdin :: nat where "kIdCloseStdin = 4"
definition kIdWindowSizeChange :: nat where "kIdWindowSizeChange = 5"
definition kIdInvalid :: nat where "kIdInvalid = 255"

definition kHeaderSize :: nat where "kHeaderSize = 5"
definition kBufferSize :: nat where "kBufferSize = MAX_PAYLOAD"

definition ShellProtocol :: "(nat \<Rightarrow> char) \<Rightarrow> fd_state \<Rightarrow> shell_protocol" where
  "ShellProtocol fresh fd =
     \<lparr>sp_fd = fd, sp_buffer = char_of kIdInvalid # map fresh [1..<kBufferSize],
      sp_buffer_end = kBufferSize, sp_data_length = 0, sp_bytes_left = 0\<rparr>"

definition sp_data_capacity :: "shell_protocol \<Rightarrow> nat" where
  "sp_data_capacity p = size_sub (sp_buffer_end p) kHeaderSize"

definition sp_data :: "shell_protocol \<Rightarrow> bytes" where
  "sp_data p = take (sp_data_length p) (drop kHeaderSize (sp_buffer p))"

text \<open>\<open>id()\<close> converts a \<open>char\<close> to \<open>int\<close>: whether it is signed depends on the platform.\<close>

definition sp_id :: "bool \<Rightarrow> shell_protocol \<Rightarrow> int result" where
  "sp_id signed_char p =
     rbind (vec_at (sp_buffer p) 0) (\<lambda>c.
       let k = of_char c :: nat in Inr (if signed_char \<and> 128 \<le> k then int k - 256 else int k))"

text \<open>\<open>ReadFdExactly\<close> into the buffer at an offset; also a failed read leaves what it stored.\<close>

definition sp_read_into :: "nat \<Rightarrow> nat \<Rightarrow> shell_protocol \<Rightarrow> (bool \<times> shell_protocol) result" where
  "sp_read_into off len p =
     (case ReadFdExactly len (sp_fd p) of
        (ok, bs, fd) \<Rightarrow>
          rbind (mem_write (sp_buffer p) off bs) (\<lambda>buf. Inr (ok, p\<lparr>sp_fd := fd, sp_buffer := buf\<rparr>)))"

definition sp_read_header :: "shell_protocol \<Rightarrow> (bool \<times> shell_protocol) result" where
  "sp_read_header p =
     (if sp_bytes_left p \<noteq> 0 then Inr (True, p)
      else rbind (sp_read_into 0 kHeaderSize p) (\<lambda>(ok, p1).
        if \<not> ok then Inr (False, p1)
        else rbind (mem_read (sp_buffer p1) 1 4) (\<lambda>bs.
          Inr (True, p1\<lparr>sp_data_length := 0, sp_bytes_left := unat (of_le32 bs)\<rparr>))))"

definition sp_Read :: "shell_protocol \<Rightarrow> (bool \<times> shell_protocol) result" where
  "sp_Read p =
     rbind (sp_read_header p) (\<lambda>(ok, p1).
       if \<not> ok then Inr (False, p1)
       else let read_length = min (sp_bytes_left p1) (sp_data_capacity p1)
            in rbind (if read_length = 0 then Inr (True, p1)
                      else sp_read_into kHeaderSize read_length p1) (\<lambda>(ok2, p2).
              if \<not> ok2 then Inr (False, p2)
              else Inr (True, p2\<lparr>sp_data_length := read_length,
                                 sp_bytes_left := size_sub (sp_bytes_left p2) read_length\<rparr>)))"

text \<open>\<open>None\<close> is a write that does not return.\<close>

definition sp_Write :: "nat \<Rightarrow> nat \<Rightarrow> shell_protocol \<Rightarrow> (bool \<times> shell_protocol) result option" where
  "sp_Write i len p =
     (let framed = rbind (mem_write (sp_buffer p) 0 [char_of i]) (\<lambda>b1.
                   rbind (mem_write b1 1 (le32 (of_nat len))) (\<lambda>b2.
                   rbind (mem_read b2 0 (kHeaderSize + len)) (\<lambda>out. Inr (b2, out))))
      in case framed of
           Inl e \<Rightarrow> Some (Inl e)
         | Inr (b2, out) \<Rightarrow>
             (case WriteFdExactly out (sp_fd p) of
                None \<Rightarrow> None
              | Some (ok, fd) \<Rightarrow> Some (Inr (ok, p\<lparr>sp_fd := fd, sp_buffer := b2\<rparr>))))"

text \<open>
  A reader of one packet: \<open>Read\<close> until nothing of it is left, with the data of every call; \<open>n\<close>
  bounds the number of calls.
\<close>

fun sp_read_packet :: "bool \<Rightarrow> nat \<Rightarrow> shell_protocol \<Rightarrow> (int \<times> bytes \<times> shell_protocol) option" where
  "sp_read_packet sc 0 p = None"
| "sp_read_packet sc (Suc n) p =
     (case sp_Read p of
        Inr (True, p1) \<Rightarrow>
          (case sp_id sc p1 of
             Inl _ \<Rightarrow> None
           | Inr i \<Rightarrow>
             if sp_bytes_left p1 = 0 then Some (i, sp_data p1, p1)
             else (case sp_read_packet sc n p1 of
                     Some (j, ds, p2) \<Rightarrow> if j = i then Some (i, sp_data p1 @ ds, p2) else None
                   | None \<Rightarrow> None))
      | _ \<Rightarrow> None)"

subsection \<open>Lemmas\<close>

definition wf_sp :: "shell_protocol \<Rightarrow> bool" where
  "wf_sp p \<longleftrightarrow> kHeaderSize < sp_buffer_end p \<and> sp_buffer_end p \<le> length (sp_buffer p)"

lemma wf_sp_new: "wf_sp (ShellProtocol fresh fd)"
  by (simp add: wf_sp_def ShellProtocol_def kHeaderSize_def kBufferSize_def MAX_PAYLOAD_def)

lemma wf_sp_capacity: "wf_sp p \<Longrightarrow> sp_data_capacity p = sp_buffer_end p - 5 \<and> 0 < sp_data_capacity p"
  by (simp add: wf_sp_def sp_data_capacity_def kHeaderSize_def)

lemma sp_read_into_delivers:
  assumes "delivers (fd_in (sp_fd p)) bs" "len \<le> length bs" "off + len \<le> length (sp_buffer p)"
  shows "\<exists>evs. sp_read_into off len p = Inr (True, p\<lparr>sp_fd := (sp_fd p)\<lparr>fd_in := evs\<rparr>,
             sp_buffer := take off (sp_buffer p) @ take len bs @ drop (off + len) (sp_buffer p)\<rparr>)
           \<and> delivers evs (drop len bs)"
  using ReadFdExactly_delivers [OF assms(1,2)] assms(2,3) by (auto simp: sp_read_into_def)

text \<open>One call in the middle of a packet takes the next piece and leaves the header alone.\<close>

lemma sp_Read_continue:
  assumes wf: "wf_sp p" and left: "0 < sp_bytes_left p"
    and del: "delivers (fd_in (sp_fd p)) bs" and len: "sp_bytes_left p \<le> length bs"
    and k: "k = min (sp_bytes_left p) (sp_data_capacity p)"
  shows "\<exists>p'. sp_Read p = Inr (True, p') \<and> wf_sp p' \<and> sp_bytes_left p' = sp_bytes_left p - k
           \<and> sp_data p' = take k bs \<and> delivers (fd_in (sp_fd p')) (drop k bs)
           \<and> sp_data_capacity p' = sp_data_capacity p \<and> sp_id sc p' = sp_id sc p"
proof -
  have kpos: "0 < k" "k \<le> length bs" "kHeaderSize + k \<le> length (sp_buffer p)" "k \<le> sp_bytes_left p"
    using wf left len wf_sp_capacity [OF wf] by (auto simp: k wf_sp_def kHeaderSize_def)
  from sp_read_into_delivers [OF del kpos(2,3)] obtain evs where
    rd: "sp_read_into kHeaderSize k p = Inr (True, p\<lparr>sp_fd := (sp_fd p)\<lparr>fd_in := evs\<rparr>,
        sp_buffer := take kHeaderSize (sp_buffer p) @ take k bs @ drop (kHeaderSize + k) (sp_buffer p)\<rparr>)"
      "delivers evs (drop k bs)" by blast
  let ?p = "p\<lparr>sp_fd := (sp_fd p)\<lparr>fd_in := evs\<rparr>,
        sp_buffer := take kHeaderSize (sp_buffer p) @ take k bs @ drop (kHeaderSize + k) (sp_buffer p),
        sp_data_length := k, sp_bytes_left := sp_bytes_left p - k\<rparr>"
  have "sp_Read p = Inr (True, ?p)"
    using left kpos rd(1) by (simp add: sp_Read_def sp_read_header_def Let_def flip: k)
  moreover have "wf_sp ?p" using wf kpos by (simp add: wf_sp_def)
  moreover have "sp_data ?p = take k bs" using kpos by (simp add: sp_data_def)
  moreover have "sp_id sc ?p = sp_id sc p"
    using kpos(3) by (auto simp: sp_id_def kHeaderSize_def vec_at_def nth_append)
  ultimately show ?thesis using rd(2) by (auto simp: sp_data_capacity_def)
qed

text \<open>The first call of a packet reads the header and goes on as in the middle of one.\<close>

lemma sp_read_header_delivers:
  assumes wf: "wf_sp p" and left: "sp_bytes_left p = 0"
    and del: "delivers (fd_in (sp_fd p)) (char_of i # le32 n @ bs)" and i: "i < 128"
  shows "\<exists>p'. sp_read_header p = Inr (True, p') \<and> wf_sp p' \<and> sp_bytes_left p' = unat n
           \<and> delivers (fd_in (sp_fd p')) bs \<and> sp_data_length p' = 0
           \<and> sp_data_capacity p' = sp_data_capacity p \<and> sp_id sc p' = Inr (int i)"
proof -
  let ?s = "char_of i # le32 n @ bs"
  have "kHeaderSize \<le> length ?s" "0 + kHeaderSize \<le> length (sp_buffer p)"
    using wf by (simp_all add: kHeaderSize_def wf_sp_def)
  from sp_read_into_delivers [OF del this] obtain evs where
    rd: "sp_read_into 0 kHeaderSize p = Inr (True, p\<lparr>sp_fd := (sp_fd p)\<lparr>fd_in := evs\<rparr>,
        sp_buffer := char_of i # le32 n @ drop kHeaderSize (sp_buffer p)\<rparr>)" "delivers evs bs"
    by (auto simp: kHeaderSize_def)
  have "sp_id sc (p\<lparr>sp_fd := (sp_fd p)\<lparr>fd_in := evs\<rparr>,
      sp_buffer := char_of i # le32 n @ drop kHeaderSize (sp_buffer p),
      sp_data_length := 0, sp_bytes_left := unat n\<rparr>) = Inr (int i)"
    using i by (simp add: sp_id_def Let_def)
  with rd left wf show ?thesis
    by (auto simp: sp_read_header_def wf_sp_def sp_data_capacity_def kHeaderSize_def)
qed

lemma sp_Read_header:
  assumes "sp_read_header p = Inr (True, p')" "0 < sp_bytes_left p'"
  shows "sp_Read p = sp_Read p'"
  using assms by (simp add: sp_Read_def sp_read_header_def [of p'])

lemma sp_read_packet_continue:
  assumes "wf_sp p" "0 < sp_bytes_left p" "delivers (fd_in (sp_fd p)) bs" "sp_bytes_left p \<le> length bs"
    "sp_id sc p = Inr i" "sp_bytes_left p \<le> n"
  shows "\<exists>p'. sp_read_packet sc n p = Some (i, take (sp_bytes_left p) bs, p') \<and> wf_sp p'
           \<and> sp_bytes_left p' = 0 \<and> delivers (fd_in (sp_fd p')) (drop (sp_bytes_left p) bs)"
  using assms
proof (induction n arbitrary: p bs)
  case 0
  then show ?case by simp
next
  case (Suc n)
  define k where "k = min (sp_bytes_left p) (sp_data_capacity p)"
  have k: "0 < k" "k \<le> sp_bytes_left p" using Suc.prems wf_sp_capacity [of p] by (auto simp: k_def)
  from sp_Read_continue [OF Suc.prems(1-4) k_def, of sc] obtain p1 where
    p1: "sp_Read p = Inr (True, p1)" "wf_sp p1" "sp_bytes_left p1 = sp_bytes_left p - k"
      "sp_data p1 = take k bs" "delivers (fd_in (sp_fd p1)) (drop k bs)" "sp_id sc p1 = Inr i"
    using Suc.prems(5) by auto
  show ?case
  proof (cases "sp_bytes_left p1 = 0")
    case True
    then have "sp_bytes_left p = k" using k p1(3) by simp
    with p1 True show ?thesis by simp
  next
    case False
    have "sp_bytes_left p1 \<le> length (drop k bs)" "sp_bytes_left p1 \<le> n"
      using p1(3) Suc.prems(4,6) k by simp_all
    with Suc.IH [OF p1(2) _ p1(5) _ p1(6)] False p1(3) k obtain p2 where
      "sp_read_packet sc n p1 = Some (i, take (sp_bytes_left p - k) (drop k bs), p2)" "wf_sp p2"
      "sp_bytes_left p2 = 0" "delivers (fd_in (sp_fd p2)) (drop (sp_bytes_left p - k) (drop k bs))" by auto
    moreover have "take k bs @ take (sp_bytes_left p - k) (drop k bs) = take (sp_bytes_left p) bs"
      using k(2) by (metis le_add_diff_inverse take_add)
    ultimately show ?thesis using p1 False k by simp
  qed
qed

lemma sp_Write_ok:
  assumes "wf_sp p" "len \<le> sp_data_capacity p" "transient (fd_wr (sp_fd p))"
    "5 + len \<le> accepted (fd_wr (sp_fd p))"
  shows "\<exists>p'. sp_Write i len p = Some (Inr (True, p')) \<and> fd_out (sp_fd p') =
           fd_out (sp_fd p) @ char_of i # le32 (of_nat len) @ take len (drop kHeaderSize (sp_buffer p))"
proof -
  let ?d = "drop 5 (sp_buffer p)"
  have len: "5 + len \<le> length (sp_buffer p)" using assms(1,2) wf_sp_capacity [of p] by (auto simp: wf_sp_def kHeaderSize_def)
  obtain c buf where buf: "sp_buffer p = c # buf" using len by (cases "sp_buffer p") auto
  have w1: "mem_write (sp_buffer p) 0 [char_of i] = Inr (char_of i # buf)" by (simp add: buf)
  have w2: "mem_write (char_of i # buf) 1 (le32 (of_nat len)) = Inr (char_of i # le32 (of_nat len) @ ?d)"
    using len by (simp add: buf)
  have w3: "mem_read (char_of i # le32 (of_nat len) @ ?d) 0 (kHeaderSize + len)
      = Inr (char_of i # le32 (of_nat len) @ take len ?d)"
    using len by (simp add: kHeaderSize_def take_Cons')
  from WriteFdExactly_total [OF assms(3), of "char_of i # le32 (of_nat len) @ take len ?d"] assms(4) len
  obtain fd where "WriteFdExactly (char_of i # le32 (of_nat len) @ take len ?d) (sp_fd p) = Some (True, fd)"
    "fd_out fd = fd_out (sp_fd p) @ char_of i # le32 (of_nat len) @ take len ?d" by auto
  then show ?thesis by (simp add: sp_Write_def Let_def w1 w2 [simplified] w3 [unfolded kHeaderSize_def] kHeaderSize_def)
qed

text \<open>
  C28: a shell packet survives the trip. \<open>Write\<close> of an id and \<open>len\<close> bytes that fit the sender's
  buffer returns, and on what it sent, delivered in any chunks, a receiver with a buffer of any size
  gets by successive \<open>Read\<close> calls the same id and, put together, the same bytes, with the stream
  left at the next packet.
\<close>

theorem shell_packet_roundtrip:
  assumes "wf_sp p" "len \<le> sp_data_capacity p" "len < 2 ^ 32" "i < 128"
    "transient (fd_wr (sp_fd p))" "5 + len \<le> accepted (fd_wr (sp_fd p))"
  shows "\<exists>p' w. sp_Write i len p = Some (Inr (True, p')) \<and> fd_out (sp_fd p') = fd_out (sp_fd p) @ w
     \<and> (\<forall>q rest. wf_sp q \<and> sp_bytes_left q = 0 \<and> delivers (fd_in (sp_fd q)) (w @ rest) \<longrightarrow>
          (\<exists>q'. sp_read_packet sc (len + 1) q = Some (int i, take len (drop kHeaderSize (sp_buffer p)), q')
             \<and> wf_sp q' \<and> sp_bytes_left q' = 0 \<and> delivers (fd_in (sp_fd q')) rest))"
proof -
  let ?d = "take len (drop kHeaderSize (sp_buffer p))"
  let ?w = "char_of i # le32 (of_nat len) @ ?d"
  have ld: "length ?d = len" using assms(1,2) wf_sp_capacity [of p] by (auto simp: wf_sp_def kHeaderSize_def)
  have un: "unat (of_nat len :: u32) = len" using assms(3) by (simp add: unat_of_nat)
  have "\<exists>q'. sp_read_packet sc (len + 1) q = Some (int i, ?d, q')
      \<and> wf_sp q' \<and> sp_bytes_left q' = 0 \<and> delivers (fd_in (sp_fd q')) rest"
    if q: "wf_sp q" "sp_bytes_left q = 0" "delivers (fd_in (sp_fd q)) (?w @ rest)" for q rest
  proof -
    from sp_read_header_delivers [OF q(1,2) _ assms(4), of "of_nat len" "?d @ rest" sc] q(3) un obtain h where
      h: "sp_read_header q = Inr (True, h)" "wf_sp h" "sp_bytes_left h = len"
        "delivers (fd_in (sp_fd h)) (?d @ rest)" "sp_data_length h = 0" "sp_id sc h = Inr (int i)" by auto
    show ?thesis
    proof (cases "len = 0")
      case True
      then show ?thesis using h by (auto simp: sp_Read_def sp_data_def sp_id_def wf_sp_def)
    next
      case False
      from sp_read_packet_continue [OF h(2) _ h(4) _ h(6), of "len + 1"] h(3) False ld sp_Read_header [OF h(1)]
      show ?thesis by (auto split: prod.splits)
    qed
  qed
  then show ?thesis using sp_Write_ok [OF assms(1,2,5,6), of i] by blast
qed

definition example_shell :: shell_protocol where
  "example_shell = \<lparr>sp_fd = example_fd, sp_buffer = ''xxxxxabc'', sp_buffer_end = 8, sp_data_length = 0,
     sp_bytes_left = 0\<rparr>"

theorem shell_packet_roundtrip_witness:
  "\<exists>p' w. sp_Write kIdStdout 3 example_shell = Some (Inr (True, p')) \<and> fd_out (sp_fd p') = w
     \<and> (\<forall>q rest. wf_sp q \<and> sp_bytes_left q = 0 \<and> delivers (fd_in (sp_fd q)) (w @ rest) \<longrightarrow>
          (\<exists>q'. sp_read_packet True 4 q = Some (1, ''abc'', q')
             \<and> wf_sp q' \<and> sp_bytes_left q' = 0 \<and> delivers (fd_in (sp_fd q')) rest))"
  using shell_packet_roundtrip [of example_shell 3 1 True]
  by (simp add: example_shell_def example_fd_def wf_sp_def sp_data_capacity_def kHeaderSize_def kIdStdout_def)

end
