(* ===== verification/Byte_Queue.thy ===== *)
theory Byte_Queue
  imports Adb_Prelude
begin

text \<open>
  The contract a socket relies on for the data waiting to be written to its file descriptor: a
  first-in first-out queue of bytes, filled with whole payloads and drained by however many bytes
  the kernel takes. \<open>queue_run\<close> is a history of such calls together with the bytes written out;
  the locale states what the queue promises and proves that no history reorders, loses or
  repeats a byte.
\<close>

datatype 'b queue_op = Put 'b | Written nat

text \<open>One call: a payload is appended, or the kernel takes at most \<open>n\<close> bytes, which are dropped.\<close>

definition queue_step ::
  "('q \<Rightarrow> 'b \<Rightarrow> 'q) \<Rightarrow> (nat \<Rightarrow> 'q \<Rightarrow> 'q result) \<Rightarrow> ('q \<Rightarrow> bytes) \<Rightarrow> 'b queue_op \<Rightarrow> 'q \<times> bytes
     \<Rightarrow> ('q \<times> bytes) result" where
  "queue_step put drop_n contents c s =
     (case c of
        Put b \<Rightarrow> Inr (put (fst s) b, snd s)
      | Written n \<Rightarrow>
          (let k = min n (length (contents (fst s)))
           in rbind (drop_n k (fst s)) (\<lambda>q. Inr (q, snd s @ take k (contents (fst s))))))"

fun queue_run ::
  "('q \<Rightarrow> 'b \<Rightarrow> 'q) \<Rightarrow> (nat \<Rightarrow> 'q \<Rightarrow> 'q result) \<Rightarrow> ('q \<Rightarrow> bytes) \<Rightarrow> 'b queue_op list \<Rightarrow> 'q \<times> bytes
     \<Rightarrow> ('q \<times> bytes) result" where
  "queue_run put drop_n contents [] s = Inr s"
| "queue_run put drop_n contents (c # cs) s =
     rbind (queue_step put drop_n contents c s) (queue_run put drop_n contents cs)"

fun put_bytes :: "('b \<Rightarrow> bytes) \<Rightarrow> 'b queue_op list \<Rightarrow> bytes" where
  "put_bytes item [] = []"
| "put_bytes item (Put b # cs) = item b @ put_bytes item cs"
| "put_bytes item (Written n # cs) = put_bytes item cs"

fun puts_ok :: "('b \<Rightarrow> bool) \<Rightarrow> 'b queue_op list \<Rightarrow> bool" where
  "puts_ok ok [] = True"
| "puts_ok ok (Put b # cs) = (ok b \<and> puts_ok ok cs)"
| "puts_ok ok (Written n # cs) = puts_ok ok cs"

locale byte_queue =
  fixes invar :: "'q \<Rightarrow> bool"
    and contents :: "'q \<Rightarrow> bytes"
    and put :: "'q \<Rightarrow> 'b \<Rightarrow> 'q"
    and drop_n :: "nat \<Rightarrow> 'q \<Rightarrow> 'q result"
    and item :: "'b \<Rightarrow> bytes"
    and item_ok :: "'b \<Rightarrow> bool"
    and limit :: nat
  assumes put_law: "invar q \<Longrightarrow> item_ok b \<Longrightarrow> invar (put q b) \<and> contents (put q b) = contents q @ item b"
    and drop_law: "invar q \<Longrightarrow> n \<le> length (contents q) \<Longrightarrow> n < limit \<Longrightarrow>
      \<exists>q'. drop_n n q = Inr q' \<and> invar q' \<and> contents q' = drop n (contents q)"
begin

lemma step_fifo:
  assumes "invar q" "puts_ok item_ok [c]" "length (contents q) < limit"
  shows "\<exists>q' out'. queue_step put drop_n contents c (q, out) = Inr (q', out') \<and> invar q'
           \<and> out' @ contents q' = out @ contents q @ put_bytes item [c]
           \<and> length (contents q') \<le> length (contents q) + length (put_bytes item [c])"
proof (cases c)
  case (Put b)
  with assms put_law [of q b] show ?thesis by (simp add: queue_step_def)
next
  case (Written n)
  let ?k = "min n (length (contents q))"
  obtain q' where "drop_n ?k q = Inr q'" "invar q'" "contents q' = drop ?k (contents q)"
    using drop_law [of q ?k] assms(1,3) by (auto simp: min_less_iff_disj)
  then show ?thesis by (simp add: queue_step_def Written Let_def)
qed

lemma run_fifo:
  assumes "invar q" "puts_ok item_ok cs" "length (contents q @ put_bytes item cs) < limit"
  shows "\<exists>q' out'. queue_run put drop_n contents cs (q, out) = Inr (q', out') \<and> invar q'
           \<and> out' @ contents q' = out @ contents q @ put_bytes item cs"
  using assms
proof (induction cs arbitrary: q out)
  case Nil
  then show ?case by simp
next
  case (Cons c cs)
  have split: "put_bytes item (c # cs) = put_bytes item [c] @ put_bytes item cs"
    and ok: "puts_ok item_ok [c]" "puts_ok item_ok cs"
    using Cons.prems(2) by (cases c; simp)+
  obtain q1 out1 where st: "queue_step put drop_n contents c (q, out) = Inr (q1, out1)" "invar q1"
    "out1 @ contents q1 = out @ contents q @ put_bytes item [c]"
    "length (contents q1) \<le> length (contents q) + length (put_bytes item [c])"
    using step_fifo [OF Cons.prems(1) ok(1), of out] Cons.prems(3) by (auto simp: split)
  have "length (contents q1 @ put_bytes item cs) < limit"
    using st(4) Cons.prems(3) by (simp add: split)
  then obtain q2 out2 where "queue_run put drop_n contents cs (q1, out1) = Inr (q2, out2)" "invar q2"
    "out2 @ contents q2 = (out1 @ contents q1) @ put_bytes item cs"
    using Cons.IH [OF st(2) ok(2), of out1] by auto
  then show ?case using st(1,3) by (simp add: split)
qed

end

end
