(* ===== verification/IOVec.thy ===== *)
theory IOVec
  imports Block Byte_Queue
begin

text \<open>
  \<open>struct IOVector\<close> of \<open>types.h\<close> and \<open>types.cpp\<close>: a chain of blocks read from the front. The
  fields \<open>chain_\<close>, \<open>chain_length_\<close>, \<open>begin_offset_\<close> and \<open>start_index_\<close> keep their names. Blocks
  before \<open>start_index\<close> have been consumed and are emptied; \<open>begin_offset\<close> bytes of the block at
  \<open>start_index\<close> have been consumed. Moving a block out of the chain leaves the moved-from block
  behind, as \<open>std::move\<close> does.
\<close>

record iovector =
  chain :: "block list"
  chain_length :: nat
  begin_offset :: nat
  start_index :: nat

subsection \<open>Operations\<close>

definition iov_empty :: iovector where
  "iov_empty = \<lparr>chain = [], chain_length = 0, begin_offset = 0, start_index = 0\<rparr>"

definition iov_size :: "iovector \<Rightarrow> nat" where
  "iov_size v = size_sub (chain_length v) (begin_offset v)"

definition iov_front_size :: "iovector \<Rightarrow> nat result" where
  "iov_front_size v =
     (if chain v = [] then Inr 0
      else rbind (vec_at (chain v) (start_index v)) (\<lambda>b. Inr (size_sub (bsize b) (begin_offset v))))"

text \<open>The bytes at \<open>front_data()\<close>, \<open>None\<close> for the null pointer.\<close>

definition iov_front_data :: "iovector \<Rightarrow> bytes option result" where
  "iov_front_data v =
     (if chain v = [] then Inr None
      else rbind (vec_at (chain v) (start_index v)) (\<lambda>b. Inr (Some (drop (begin_offset v) (block_bytes b)))))"

definition iov_append :: "iovector \<Rightarrow> block \<Rightarrow> iovector" where
  "iov_append v b =
     (if bsize b = 0 then v
      else v\<lparr>chain_length := chain_length v + bsize b,
             chain := chain v @ [fst (block_move_construct b)]\<rparr>)"

definition iov_clear :: "iovector \<Rightarrow> iovector \<times> block" where
  "iov_clear v =
     (v\<lparr>chain_length := 0, begin_offset := 0, start_index := 0, chain := []\<rparr>,
      if chain v \<noteq> [] then fst (block_move_assign block_empty (last (chain v))) else block_empty)"

text \<open>Move assignment: the new value of the target and what is left of the source.\<close>

definition iov_move_assign :: "iovector \<Rightarrow> iovector \<Rightarrow> iovector \<times> iovector" where
  "iov_move_assign dst src =
     (dst\<lparr>chain := chain src, chain_length := chain_length src, begin_offset := begin_offset src,
          start_index := start_index src\<rparr>,
      fst (iov_clear (src\<lparr>chain := []\<rparr>)))"

definition iov_trim_chain_front :: "iovector \<Rightarrow> iovector result" where
  "iov_trim_chain_front v =
     (if start_index v \<noteq> 0
      then if start_index v \<le> length (chain v)
           then Inr (v\<lparr>chain := drop (start_index v) (chain v), start_index := 0\<rparr>)
           else Inl Out_of_range
      else Inr v)"

definition iov_pop_front_block :: "iovector \<Rightarrow> iovector result" where
  "iov_pop_front_block v =
     rbind (vec_at (chain v) (start_index v)) (\<lambda>b.
       let v' = v\<lparr>chain_length := size_sub (chain_length v) (bsize b), begin_offset := 0,
                  chain := (chain v)[start_index v := block_clear b],
                  start_index := start_index v + 1\<rparr>
       in if max 4 (length (chain v') div 2) < start_index v' then iov_trim_chain_front v'
          else Inr v')"

lemma iov_pop_front_block_shorter:
  "iov_pop_front_block v = Inr v' \<Longrightarrow>
     length (chain v') - start_index v' < length (chain v) - start_index v"
  by (auto simp: iov_pop_front_block_def rbind_eq_Inr vec_at_def iov_trim_chain_front_def Let_def
      split: if_splits)

text \<open>
  The loop of \<open>drop_front\<close>. Its counter is declared \<open>auto dropped = 0u\<close>, so it is an
  \<open>unsigned int\<close> and the assignment \<open>dropped += next\<close> keeps 32 bits.
\<close>

function iov_drop_loop :: "nat \<Rightarrow> nat \<Rightarrow> iovector \<Rightarrow> iovector result" where
  "iov_drop_loop len dropped v =
     (if dropped < len
      then rbind (vec_at (chain v) (start_index v)) (\<lambda>b.
             let nxt = size_sub (bsize b) (begin_offset v)
             in if dropped + nxt \<le> len
                then rbind (iov_pop_front_block v) (\<lambda>v'. iov_drop_loop len ((dropped + nxt) mod 2 ^ 32) v')
                else Inr (v\<lparr>begin_offset := begin_offset v + (len - dropped)\<rparr>))
      else Inr v)"
  by pat_completeness auto
termination
  by (relation "measure (\<lambda>(len, dropped, v). length (chain v) - start_index v)")
    (auto dest: iov_pop_front_block_shorter)

declare iov_drop_loop.simps [simp del]

definition iov_drop_front :: "nat \<Rightarrow> iovector \<Rightarrow> iovector result" where
  "iov_drop_front len v =
     (if len = 0 then Inr v
      else if len = iov_size v then Inr (fst (iov_clear v))
      else rcheck (len < iov_size v) (iov_drop_loop len 0 v))"

text \<open>
  \<open>take_front\<close>: a block that goes to the result as a whole (the body of its loop), the loop,
  then the split of the one block that goes to both sides.
\<close>

definition iov_take_block :: "block \<Rightarrow> iovector \<Rightarrow> iovector \<Rightarrow> iovector \<times> iovector" where
  "iov_take_block b res v =
     (if begin_offset v < bsize b
      then (if begin_offset v \<noteq> 0 then (iov_append res b)\<lparr>begin_offset := begin_offset v\<rparr>
            else iov_append res b,
            v\<lparr>chain_length := size_sub (chain_length v) (bsize b),
              chain := (chain v)[start_index v := snd (block_move_construct b)],
              begin_offset := 0, start_index := start_index v + 1\<rparr>)
      else (res, v\<lparr>chain_length := size_sub (chain_length v) (bsize b), begin_offset := 0,
                   start_index := start_index v + 1\<rparr>))"

lemma iov_take_block_shorter:
  "iov_take_block b res v = (res', v') \<Longrightarrow> start_index v < length (chain v) \<Longrightarrow>
     length (chain v') - start_index v' < length (chain v) - start_index v"
  by (auto simp: iov_take_block_def split: if_splits)

function iov_take_loop :: "nat \<Rightarrow> iovector \<Rightarrow> iovector \<Rightarrow> (nat \<times> iovector \<times> iovector) result" where
  "iov_take_loop len res v =
     rbind (vec_at (chain v) (start_index v)) (\<lambda>b.
       if size_sub (bsize b) (begin_offset v) \<le> len
       then case iov_take_block b res v of (res', v') \<Rightarrow>
              iov_take_loop (size_sub len (size_sub (bsize b) (begin_offset v))) res' v'
       else Inr (len, res, v))"
  by pat_completeness auto
termination
  by (relation "measure (\<lambda>(len, res, v). length (chain v) - start_index v)")
    (auto simp: vec_at_def split: if_splits prod.splits dest: iov_take_block_shorter)

declare iov_take_loop.simps [simp del]

definition iov_take_split ::
  "(nat \<Rightarrow> char) \<Rightarrow> nat \<Rightarrow> iovector \<Rightarrow> iovector \<Rightarrow> (iovector \<times> iovector) result" where
  "iov_take_split fresh len res v =
     rbind (vec_at (chain v) (start_index v)) (\<lambda>b.
       if begin_offset v \<noteq> 0 \<or> len < bsize b div 2
       then rbind (block_load b (begin_offset v) len) (\<lambda>bs.
            rbind (block_of_range fresh bs) (\<lambda>blk.
              Inr (iov_append res blk, v\<lparr>begin_offset := begin_offset v + len\<rparr>)))
       else rcheck (begin_offset v = 0)
            (rbind (block_load b len (size_sub (bsize b) len)) (\<lambda>bs.
             rbind (block_of_range fresh bs) (\<lambda>blk.
               let v1 = v\<lparr>chain_length := size_sub (chain_length v) (bsize b)\<rparr>
               in rbind (block_resize fresh b len) (\<lambda>b'.
                    let v2 = v1\<lparr>chain_length := chain_length v1 + bsize blk\<rparr>;
                        left = snd (block_move_construct b')
                    in Inr (iov_append res b',
                            v2\<lparr>chain := (chain v2)[start_index v := fst (block_move_assign left blk)]\<rparr>))))))"

text \<open>Returns the front as a vector of its own and what is left of this one.\<close>

definition iov_take_front :: "(nat \<Rightarrow> char) \<Rightarrow> nat \<Rightarrow> iovector \<Rightarrow> (iovector \<times> iovector) result" where
  "iov_take_front fresh len v =
     (if len = 0 then Inr (iov_empty, v)
      else if len = iov_size v then Inr (iov_move_assign iov_empty v)
      else rcheck (len \<le> iov_size v)
           (rbind (iov_take_loop len iov_empty v) (\<lambda>(len', res, v').
              if 0 < len' then iov_take_split fresh len' res v' else Inr (res, v'))))"

definition iov_trim_front :: "(nat \<Rightarrow> char) \<Rightarrow> iovector \<Rightarrow> iovector result" where
  "iov_trim_front fresh v =
     (if (begin_offset v = 0 \<and> start_index v = 0) \<or> chain v = [] then Inr v
      else rbind (vec_at (chain v) (start_index v)) (\<lambda>b.
           rbind (if begin_offset v = bsize b then Inr (v\<lparr>start_index := start_index v + 1\<rparr>)
                  else rbind (block_load b (begin_offset v) (size_sub (bsize b) (begin_offset v))) (\<lambda>bs.
                       rbind (block_store b 0 bs) (\<lambda>b1.
                       rbind (block_resize fresh b1 (size_sub (bsize b1) (begin_offset v))) (\<lambda>b2.
                         Inr (v\<lparr>chain := (chain v)[start_index v := b2]\<rparr>)))))
             (\<lambda>v1. iov_trim_chain_front
                     (v1\<lparr>chain_length := size_sub (chain_length v1) (begin_offset v1),
                         begin_offset := 0\<rparr>))))"

text \<open>\<open>iterate_blocks\<close>: the slices its callback sees, in order; \<open>iovecs\<close> collects just these.\<close>

definition iov_iterate_blocks :: "iovector \<Rightarrow> bytes list result" where
  "iov_iterate_blocks v =
     (if iov_size v = 0 then Inr []
      else case drop (start_index v) (chain v) of
             [] \<Rightarrow> Inr []
           | b # bs \<Rightarrow> rcheck (begin_offset v \<le> bsize b)
                        (Inr (drop (begin_offset v) (block_bytes b) # map block_bytes bs)))"

definition iov_iovecs :: "iovector \<Rightarrow> bytes list result" where
  "iov_iovecs v = iov_iterate_blocks v"

fun iov_copy_blocks :: "block \<Rightarrow> nat \<Rightarrow> bytes list \<Rightarrow> block result" where
  "iov_copy_blocks r off [] = Inr r"
| "iov_copy_blocks r off (s # ss) =
     rbind (block_store r off s) (\<lambda>r'. iov_copy_blocks r' (off + length s) ss)"

definition iov_coalesce :: "(nat \<Rightarrow> char) \<Rightarrow> iovector \<Rightarrow> block result" where
  "iov_coalesce fresh v =
     (if iov_size v = 0 then Inr block_empty
      else rbind (block_resize fresh block_empty (iov_size v)) (\<lambda>r.
           rbind (iov_iterate_blocks v) (\<lambda>ss. iov_copy_blocks r 0 ss)))"

definition iov_coalesced :: "(nat \<Rightarrow> char) \<Rightarrow> (bytes \<Rightarrow> 'a) \<Rightarrow> iovector \<Rightarrow> 'a result" where
  "iov_coalesced fresh f v =
     (if length (chain v) = start_index v + 1
      then rbind (vec_at (chain v) (start_index v)) (\<lambda>b.
           rbind (block_load b (begin_offset v) (iov_size v)) (\<lambda>bs. Inr (f bs)))
      else rbind (iov_coalesce fresh v) (\<lambda>r. Inr (f (block_bytes r))))"

text \<open>
  The destructive \<open>coalesce() &&\<close>. \<open>iov_shift_front\<close> is its \<open>memmove\<close> of the block's live bytes
  to the start of the block.
\<close>

definition iov_shift_front :: "nat \<Rightarrow> block \<Rightarrow> block result" where
  "iov_shift_front off b =
     (if off \<noteq> 0
      then rbind (block_load b off (size_sub (bsize b) off)) (\<lambda>bs. block_store b 0 bs)
      else Inr b)"

definition iov_coalesce_move :: "(nat \<Rightarrow> char) \<Rightarrow> iovector \<Rightarrow> (block \<times> iovector) result" where
  "iov_coalesce_move fresh v =
     (if iov_size v = 0 then Inr (block_empty, v)
      else rbind (vec_at (chain v) (start_index v)) (\<lambda>b.
        let back = last (chain v)
        in if begin_offset v = bsize b \<and> length (chain v) = start_index v + 2
           then Inr (fst (block_move_construct back),
                     v\<lparr>chain_length := size_sub (chain_length v) (bsize back),
                       chain := butlast (chain v)\<rparr>)
           else if length (chain v) = start_index v + 1
           then rbind (iov_shift_front (begin_offset v) back) (\<lambda>r.
                rbind (if begin_offset v \<noteq> 0
                       then block_resize fresh r (size_sub (bsize r) (begin_offset v)) else Inr r) (\<lambda>r'.
                  Inr (r', v\<lparr>chain_length := size_sub (chain_length v) (bsize back),
                             chain := butlast (chain v), begin_offset := 0\<rparr>)))
           else if iov_size v \<le> bcapacity b
           then rbind (iov_shift_front (begin_offset v) b) (\<lambda>r.
                let sz = size_sub (bsize b) (begin_offset v);
                    rest = map block_bytes (drop (start_index v + 1) (chain v))
                in rbind (iov_copy_blocks r sz rest) (\<lambda>r'.
                   rbind (block_resize fresh r' (sz + sum_list (map length rest))) (\<lambda>r''.
                     Inr (r'', v\<lparr>chain_length := size_sub (chain_length v) (bsize b), begin_offset := 0,
                                 chain := (chain v)[start_index v := snd (block_move_construct b)],
                                 start_index := start_index v + 1\<rparr>))))
           else rbind (iov_coalesce fresh v) (\<lambda>r. Inr (r, v))))"

subsection \<open>Invariant and contents\<close>

definition wf_iov :: "iovector \<Rightarrow> bool" where
  "wf_iov v \<longleftrightarrow>
     start_index v \<le> length (chain v)
     \<and> (\<forall>b \<in> set (chain v). wf_block b \<and> bposition b = 0)
     \<and> chain_length v = sum_list (map bsize (drop (start_index v) (chain v)))
     \<and> begin_offset v \<le> (if start_index v < length (chain v) then bsize (chain v ! start_index v) else 0)"

definition iov_bytes :: "iovector \<Rightarrow> bytes" where
  "iov_bytes v = drop (begin_offset v) (concat (map block_bytes (drop (start_index v) (chain v))))"

lemma wf_iov_empty [simp]: "wf_iov iov_empty"
  by (simp add: wf_iov_def iov_empty_def)

lemma iov_bytes_empty [simp]: "iov_bytes iov_empty = []"
  by (simp add: iov_bytes_def iov_empty_def)

lemma length_concat_blocks:
  "\<forall>b \<in> set bs. wf_block b \<and> bposition b = 0 \<Longrightarrow>
     length (concat (map block_bytes bs)) = sum_list (map bsize bs)"
  by (induction bs) (simp_all add: length_block_bytes)

lemma wf_iov_drop:
  "wf_iov v \<Longrightarrow> \<forall>b \<in> set (drop n (chain v)). wf_block b \<and> bposition b = 0"
  by (auto simp: wf_iov_def dest: in_set_dropD)

lemma iov_begin_offset_le:
  assumes "wf_iov v"
  shows "length (concat (map block_bytes (drop (start_index v) (chain v)))) = chain_length v"
    "begin_offset v \<le> chain_length v"
proof -
  show "length (concat (map block_bytes (drop (start_index v) (chain v)))) = chain_length v"
    using assms length_concat_blocks [OF wf_iov_drop [OF assms]] by (simp add: wf_iov_def)
  show "begin_offset v \<le> chain_length v"
    using assms by (cases "start_index v < length (chain v)")
      (auto simp: wf_iov_def Cons_nth_drop_Suc [symmetric])
qed

lemma iov_size_bytes: "wf_iov v \<Longrightarrow> iov_size v = length (iov_bytes v)"
  using iov_begin_offset_le [of v] by (simp add: iov_size_def iov_bytes_def)

text \<open>The front block and the rest of the chain.\<close>

lemma iov_nonempty_start:
  assumes "wf_iov v" "iov_bytes v \<noteq> []"
  shows "start_index v < length (chain v)"
proof (rule ccontr)
  assume "\<not> start_index v < length (chain v)"
  with assms show False by (simp add: wf_iov_def iov_bytes_def)
qed

lemma iov_front:
  assumes "wf_iov v" "start_index v < length (chain v)"
  shows "wf_block (chain v ! start_index v)" "bposition (chain v ! start_index v) = 0"
    "begin_offset v \<le> bsize (chain v ! start_index v)"
    "iov_bytes v = drop (begin_offset v) (block_bytes (chain v ! start_index v))
       @ concat (map block_bytes (drop (Suc (start_index v)) (chain v)))"
    "chain_length v = bsize (chain v ! start_index v)
       + sum_list (map bsize (drop (Suc (start_index v)) (chain v)))"
proof -
  let ?b = "chain v ! start_index v"
  show b: "wf_block ?b" "bposition ?b = 0" "begin_offset v \<le> bsize ?b"
    using assms by (auto simp: wf_iov_def)
  have d: "drop (start_index v) (chain v) = ?b # drop (Suc (start_index v)) (chain v)"
    using assms(2) by (rule Cons_nth_drop_Suc [symmetric])
  show "iov_bytes v = drop (begin_offset v) (block_bytes ?b)
      @ concat (map block_bytes (drop (Suc (start_index v)) (chain v)))"
    using b by (simp add: iov_bytes_def d length_block_bytes)
  show "chain_length v = bsize ?b + sum_list (map bsize (drop (Suc (start_index v)) (chain v)))"
    using assms(1) by (simp add: wf_iov_def d)
qed

text \<open>
  A vector that has given up its front block: the chain may hold anything well-formed before
  the new start.
\<close>

lemma wf_iov_advance:
  assumes v: "wf_iov v" and s: "start_index v < length (chain v)" and x: "wf_block x" "bposition x = 0"
    and v': "chain v' = (chain v)[start_index v := x]" "start_index v' = Suc (start_index v)"
      "begin_offset v' = 0" "chain_length v' = chain_length v - bsize (chain v ! start_index v)"
  shows "wf_iov v'" "iov_bytes v' = concat (map block_bytes (drop (Suc (start_index v)) (chain v)))"
proof -
  show "wf_iov v'"
    using v s x iov_front(5) [OF v s] set_update_subset_insert [of "chain v" "start_index v" x]
    by (auto simp: wf_iov_def v' drop_update_cancel)
  show "iov_bytes v' = concat (map block_bytes (drop (Suc (start_index v)) (chain v)))"
    by (simp add: iov_bytes_def v' drop_update_cancel)
qed

text \<open>A vector whose front block, unread, is replaced by another.\<close>

lemma wf_iov_replace:
  assumes v: "wf_iov v" and s: "start_index v < length (chain v)" and x: "wf_block x" "bposition x = 0"
    and v': "chain v' = (chain v)[start_index v := x]" "start_index v' = start_index v"
      "begin_offset v' = 0" "chain_length v' = chain_length v - bsize (chain v ! start_index v) + bsize x"
  shows "wf_iov v'"
    "iov_bytes v' = block_bytes x @ concat (map block_bytes (drop (Suc (start_index v)) (chain v)))"
proof -
  have d: "drop (start_index v) (chain v') = x # drop (Suc (start_index v)) (chain v)"
    using s by (simp add: v' Cons_nth_drop_Suc [symmetric] drop_update_cancel)
  show "wf_iov v'"
    using v s x iov_front(5) [OF v s] set_update_subset_insert [of "chain v" "start_index v" x] d v'
    by (auto simp: wf_iov_def)
  show "iov_bytes v' = block_bytes x @ concat (map block_bytes (drop (Suc (start_index v)) (chain v)))"
    unfolding iov_bytes_def v'(2,3) d by simp
qed

lemma iov_trim_chain_front_ok:
  assumes "wf_iov v"
  shows "\<exists>v'. iov_trim_chain_front v = Inr v' \<and> wf_iov v' \<and> iov_bytes v' = iov_bytes v
           \<and> start_index v' = 0 \<and> begin_offset v' = begin_offset v"
  using assms by (auto simp: iov_trim_chain_front_def wf_iov_def iov_bytes_def dest: in_set_dropD)

lemma iov_pop_front_block_ok:
  assumes v: "wf_iov v" and s: "start_index v < length (chain v)"
  shows "\<exists>v'. iov_pop_front_block v = Inr v' \<and> wf_iov v'
           \<and> iov_bytes v' = concat (map block_bytes (drop (Suc (start_index v)) (chain v)))"
proof -
  let ?b = "chain v ! start_index v"
  let ?v = "v\<lparr>chain_length := size_sub (chain_length v) (bsize ?b), begin_offset := 0,
              chain := (chain v)[start_index v := block_clear ?b], start_index := start_index v + 1\<rparr>"
  have "wf_iov ?v" and "iov_bytes ?v = concat (map block_bytes (drop (Suc (start_index v)) (chain v)))"
    by (rule wf_iov_advance [OF v s, of block_empty];
        simp add: block_empty_def wf_block_def iov_front(5) [OF v s])+
  with iov_trim_chain_front_ok [of ?v] show ?thesis
    using s by (auto simp: iov_pop_front_block_def Let_def)
qed

subsection \<open>Functional behaviour\<close>

lemma iov_append_ok:
  assumes "wf_iov v" "wf_block b" "bposition b = 0"
  shows "wf_iov (iov_append v b)" "iov_bytes (iov_append v b) = iov_bytes v @ block_bytes b"
proof -
  have z: "bsize b = 0 \<Longrightarrow> block_bytes b = []"
    using length_block_bytes [OF assms(2)] by simp
  show "wf_iov (iov_append v b)"
    using assms by (auto simp: iov_append_def wf_iov_def nth_append not_less)
  have "begin_offset v \<le> length (concat (map block_bytes (drop (start_index v) (chain v))))"
    using iov_begin_offset_le [OF assms(1)] by simp
  then show "iov_bytes (iov_append v b) = iov_bytes v @ block_bytes b"
    using z assms(1) by (auto simp: iov_append_def iov_bytes_def wf_iov_def)
qed

lemma iov_clear_ok [simp]:
  "wf_iov (fst (iov_clear v))" "iov_bytes (fst (iov_clear v)) = []"
  by (simp_all add: iov_clear_def wf_iov_def iov_bytes_def)

lemma iov_drop_loop_ok:
  assumes "wf_iov v" "dropped + m = len" "m < length (iov_bytes v)" "len < 2 ^ 32"
  shows "\<exists>v'. iov_drop_loop len dropped v = Inr v' \<and> wf_iov v' \<and> iov_bytes v' = drop m (iov_bytes v)"
  using assms
proof (induction len dropped v arbitrary: m rule: iov_drop_loop.induct)
  case (1 len dropped v)
  note prems = "1.prems" and IH = "1.IH"
  show ?case
  proof (cases "m = 0")
    case True
    with prems show ?thesis by (subst iov_drop_loop.simps) simp
  next
    case False
    have s: "start_index v < length (chain v)"
      using prems by (intro iov_nonempty_start) auto
    let ?b = "chain v ! start_index v"
    let ?n = "bsize ?b - begin_offset v"
    let ?rest = "concat (map block_bytes (drop (Suc (start_index v)) (chain v)))"
    note front = iov_front [OF prems(1) s]
    have sub: "size_sub (bsize ?b) (begin_offset v) = ?n" using front(3) by simp
    have len_front: "length (drop (begin_offset v) (block_bytes ?b)) = ?n"
      using front(1) by (simp add: length_block_bytes)
    show ?thesis
    proof (cases "?n \<le> m")
      case True
      from iov_pop_front_block_ok [OF prems(1) s] obtain v' where pop:
        "iov_pop_front_block v = Inr v'" "wf_iov v'" "iov_bytes v' = ?rest" by auto
      have md: "(dropped + ?n) mod 2 ^ 32 = dropped + ?n" using True prems by simp
      have "\<exists>w. iov_drop_loop len (dropped + ?n) v' = Inr w \<and> wf_iov w
          \<and> iov_bytes w = drop (m - ?n) (iov_bytes v')"
        using prems True False pop front(4) len_front s
        by (intro IH [of ?b ?n v' "m - ?n", unfolded md]) (auto simp: sub)
      moreover have "iov_drop_loop len dropped v = iov_drop_loop len (dropped + ?n) v'"
        using prems True False s pop
        by (subst iov_drop_loop.simps) (simp add: sub md Let_def)
      moreover have "drop (m - ?n) ?rest = drop m (iov_bytes v)"
        using True len_front by (simp add: front(4))
      ultimately show ?thesis using pop(3) by auto
    next
      case m: False
      then have "iov_drop_loop len dropped v = Inr (v\<lparr>begin_offset := begin_offset v + m\<rparr>)"
        using prems False s by (subst iov_drop_loop.simps) (auto simp: sub Let_def)
      moreover have "wf_iov (v\<lparr>begin_offset := begin_offset v + m\<rparr>)"
        using prems(1) s m front(3) by (auto simp: wf_iov_def)
      ultimately show ?thesis by (simp add: iov_bytes_def add.commute)
    qed
  qed
qed

lemma iov_drop_front_ok:
  assumes "wf_iov v" "n \<le> length (iov_bytes v)" "n < 2 ^ 32"
  shows "\<exists>v'. iov_drop_front n v = Inr v' \<and> wf_iov v' \<and> iov_bytes v' = drop n (iov_bytes v)"
proof (cases "n = 0 \<or> n = length (iov_bytes v)")
  case True
  with assms show ?thesis by (auto simp: iov_drop_front_def iov_size_bytes)
next
  case False
  with assms have "n < length (iov_bytes v)" by auto
  with iov_drop_loop_ok [of v 0 n n] assms False show ?thesis
    by (auto simp: iov_drop_front_def iov_size_bytes)
qed

text \<open>
  The loop of \<open>take_front\<close> moves whole blocks: what the result holds and what is left, put
  together, is the original.
\<close>

lemma iov_take_block_ok:
  assumes v: "wf_iov v" "start_index v < length (chain v)" and res: "wf_iov res"
    and off: "begin_offset v \<noteq> 0 \<Longrightarrow> res = iov_empty"
    and eq: "iov_take_block (chain v ! start_index v) res v = (res', v')"
  shows "wf_iov v'" "wf_iov res'" "begin_offset v' = 0"
    "iov_bytes v' = concat (map block_bytes (drop (Suc (start_index v)) (chain v)))"
    "iov_bytes res' = iov_bytes res @ drop (begin_offset v) (block_bytes (chain v ! start_index v))"
proof -
  let ?b = "chain v ! start_index v"
  note front = iov_front [OF v]
  have sub: "size_sub (chain_length v) (bsize ?b) = chain_length v - bsize ?b"
    using front(5) by simp
  show "begin_offset v' = 0"
    using eq by (auto simp: iov_take_block_def split: if_splits)
  show "wf_iov v'" "iov_bytes v' = concat (map block_bytes (drop (Suc (start_index v)) (chain v)))"
    using wf_iov_advance [OF v, of block_empty v'] wf_iov_advance [OF v, of ?b v'] front(1,2) eq sub
    by (auto simp: iov_take_block_def block_empty_def wf_block_def split: if_splits)
  have app: "wf_iov (iov_append res ?b)" "iov_bytes (iov_append res ?b) = iov_bytes res @ block_bytes ?b"
    using res front by (auto intro!: iov_append_ok)
  have emp: "wf_iov ((iov_append iov_empty ?b)\<lparr>begin_offset := begin_offset v\<rparr>)"
    "iov_bytes ((iov_append iov_empty ?b)\<lparr>begin_offset := begin_offset v\<rparr>)
       = drop (begin_offset v) (block_bytes ?b)"
    if "begin_offset v < bsize ?b"
    using that front by (auto simp: iov_append_def iov_empty_def wf_iov_def iov_bytes_def)
  show "wf_iov res'"
    using app emp res off eq by (auto simp: iov_take_block_def split: if_splits)
  show "iov_bytes res' = iov_bytes res @ drop (begin_offset v) (block_bytes ?b)"
    using app emp off eq front(1) by (auto simp: iov_take_block_def length_block_bytes split: if_splits)
qed

lemma iov_take_loop_ok:
  assumes "wf_iov v" "wf_iov res" "len < length (iov_bytes v)"
    "begin_offset v \<noteq> 0 \<Longrightarrow> res = iov_empty"
  shows "\<exists>len' res' v'. iov_take_loop len res v = Inr (len', res', v') \<and> wf_iov v' \<and> wf_iov res'
           \<and> len' \<le> len \<and> iov_bytes res' = iov_bytes res @ take (len - len') (iov_bytes v)
           \<and> iov_bytes v' = drop (len - len') (iov_bytes v) \<and> start_index v' < length (chain v')
           \<and> len' < bsize (chain v' ! start_index v') - begin_offset v'"
  using assms
proof (induction len res v rule: iov_take_loop.induct)
  case (1 len res v)
  note prems = "1.prems" and IH = "1.IH"
  have s: "start_index v < length (chain v)"
    using prems by (intro iov_nonempty_start) auto
  let ?b = "chain v ! start_index v"
  let ?n = "bsize ?b - begin_offset v"
  note front = iov_front [OF prems(1) s]
  have sub: "size_sub (bsize ?b) (begin_offset v) = ?n" using front(3) by simp
  have len_front: "length (drop (begin_offset v) (block_bytes ?b)) = ?n"
    using front(1) by (simp add: length_block_bytes)
  show ?case
  proof (cases "?n \<le> len")
    case False
    then have "iov_take_loop len res v = Inr (len, res, v)"
      using s by (subst iov_take_loop.simps) (simp add: sub)
    with False s prems show ?thesis by auto
  next
    case True
    obtain res' v' where blk: "iov_take_block ?b res v = (res', v')" by fastforce
    note tk = iov_take_block_ok [OF prems(1) s prems(2,4) blk]
    have "len - ?n < length (iov_bytes v')"
      using prems(3) True len_front by (simp add: tk(4) front(4))
    with IH [of ?b res' v'] s True tk(1-3) blk obtain len' res'' v'' where r:
      "iov_take_loop (len - ?n) res' v' = Inr (len', res'', v'')" "wf_iov v''" "wf_iov res''"
      "len' \<le> len - ?n" "iov_bytes res'' = iov_bytes res' @ take (len - ?n - len') (iov_bytes v')"
      "iov_bytes v'' = drop (len - ?n - len') (iov_bytes v')" "start_index v'' < length (chain v'')"
      "len' < bsize (chain v'' ! start_index v'') - begin_offset v''"
      by (auto simp: sub)
    have "take (len - len') (iov_bytes v) =
        drop (begin_offset v) (block_bytes ?b) @ take (len - ?n - len') (iov_bytes v')"
      "drop (len - len') (iov_bytes v) = drop (len - ?n - len') (iov_bytes v')"
      using True r(4) len_front by (simp_all add: front(4) tk(4) add.commute)
    moreover have "iov_take_loop len res v = iov_take_loop (len - ?n) res' v'"
      using s True blk by (subst iov_take_loop.simps) (simp add: sub)
    ultimately show ?thesis using r tk(5) by auto
  qed
qed

lemma iov_take_split_ok:
  assumes v: "wf_iov v" "start_index v < length (chain v)" and res: "wf_iov res"
    and len: "0 < len" "len < bsize (chain v ! start_index v) - begin_offset v"
  shows "\<exists>res' v'. iov_take_split fresh len res v = Inr (res', v') \<and> wf_iov res' \<and> wf_iov v'
           \<and> iov_bytes res' = iov_bytes res @ take len (iov_bytes v)
           \<and> iov_bytes v' = drop len (iov_bytes v)"
proof -
  let ?b = "chain v ! start_index v"
  let ?bs = "block_bytes ?b"
  note front = iov_front [OF v]
  have lb: "length ?bs = bsize ?b" using front(1) by (rule length_block_bytes)
  show ?thesis
  proof (cases "begin_offset v \<noteq> 0 \<or> len < bsize ?b div 2")
    case True
    have "block_load ?b (begin_offset v) len = Inr (take len (drop (begin_offset v) ?bs))"
      using front(1,3) len by (intro block_load_ok) auto
    moreover have "wf_iov (v\<lparr>begin_offset := begin_offset v + len\<rparr>)"
      using v len by (auto simp: wf_iov_def)
    moreover have "iov_bytes (v\<lparr>begin_offset := begin_offset v + len\<rparr>) = drop len (iov_bytes v)"
      by (simp add: iov_bytes_def add.commute)
    ultimately show ?thesis
      using True v(2) res front(4) len lb
      by (simp add: iov_take_split_def block_of_range_eq iov_append_ok)
  next
    case False
    then have off: "begin_offset v = 0" by simp
    obtain b' where b': "block_resize fresh ?b len = Inr b'" "wf_block b'"
      "block_bytes b' = take len ?bs" "bposition b' = 0"
      using block_resize_shrink [OF front(1) less_imp_le front(2), of len fresh] len by fastforce
    let ?tl = "block_of (drop len ?bs)"
    let ?v = "v\<lparr>chain_length := chain_length v - bsize ?b + bsize ?tl,
                chain := (chain v)[start_index v := ?tl]\<rparr>"
    have load: "block_load ?b len (bsize ?b - len) = Inr (drop len ?bs)"
      using block_load_ok [OF front(1), of len "bsize ?b - len"] len lb by simp
    have eq: "iov_take_split fresh len res v = Inr (iov_append res b', ?v)"
      using False v(2) b' load front(5) len
      by (simp add: iov_take_split_def block_of_range_eq Let_def)
    have "wf_iov ?v" "iov_bytes ?v = drop len ?bs @ concat (map block_bytes (drop (Suc (start_index v)) (chain v)))"
      using wf_iov_replace [OF v, of ?tl ?v] off by simp_all
    moreover have "iov_bytes ?v = drop len (iov_bytes v)"
      using calculation off front(4) len lb by simp
    moreover have "iov_bytes (iov_append res b') = iov_bytes res @ take len (iov_bytes v)"
      using res b' off front(4) len lb by (simp add: iov_append_ok)
    ultimately show ?thesis using eq res b' by (simp add: iov_append_ok)
  qed
qed

lemma iov_take_front_ok:
  assumes "wf_iov v" "n \<le> length (iov_bytes v)"
  shows "\<exists>res v'. iov_take_front fresh n v = Inr (res, v') \<and> wf_iov res \<and> wf_iov v'
           \<and> iov_bytes res = take n (iov_bytes v) \<and> iov_bytes v' = drop n (iov_bytes v)"
proof (cases "n = 0 \<or> n = length (iov_bytes v)")
  case True
  with assms show ?thesis
    by (auto simp: iov_take_front_def iov_size_bytes iov_move_assign_def iov_empty_def wf_iov_def
        iov_bytes_def iov_clear_def)
next
  case False
  with assms have n: "0 < n" "n < length (iov_bytes v)" by auto
  from iov_take_loop_ok [of v iov_empty n] assms n obtain len' res v' where r:
    "iov_take_loop n iov_empty v = Inr (len', res, v')" "wf_iov v'" "wf_iov res" "len' \<le> n"
    "iov_bytes res = take (n - len') (iov_bytes v)" "iov_bytes v' = drop (n - len') (iov_bytes v)"
    "start_index v' < length (chain v')" "len' < bsize (chain v' ! start_index v') - begin_offset v'"
    by auto
  have tk: "take (n - len') (iov_bytes v) @ take len' (drop (n - len') (iov_bytes v)) = take n (iov_bytes v)"
    using r(4) by (simp flip: take_add)
  show ?thesis
    using r n tk assms iov_take_split_ok [OF r(2) r(7) r(3), of len' fresh]
    by (cases "len' = 0") (auto simp: iov_take_front_def iov_size_bytes)
qed

text \<open>The \<open>memmove\<close> of a block's live bytes to its start, shared by \<open>trim_front\<close> and \<open>coalesce\<close>.\<close>

lemma block_shift_ok:
  assumes "wf_block b" "bposition b = 0" "off \<le> bsize b"
  shows "\<exists>r. rbind (block_load b off (size_sub (bsize b) off)) (\<lambda>bs. block_store b 0 bs) = Inr r
           \<and> wf_block r \<and> bsize r = bsize b \<and> bposition r = 0 \<and> bcapacity r = bcapacity b
           \<and> take (bsize b - off) (block_bytes r) = drop off (block_bytes b)"
proof -
  let ?bs = "drop off (block_bytes b)"
  have load: "block_load b off (size_sub (bsize b) off) = Inr ?bs"
    using assms block_load_ok [OF assms(1), of off "bsize b - off"] by (simp add: length_block_bytes)
  have "0 + length ?bs \<le> bsize b" using assms by (simp add: length_block_bytes)
  from block_store_ok [OF assms(1) this] load assms show ?thesis
    by (auto simp: length_block_bytes)
qed

lemma iov_shift_front_ok:
  assumes "wf_block b" "bposition b = 0" "off \<le> bsize b"
  shows "\<exists>r. iov_shift_front off b = Inr r \<and> wf_block r \<and> bsize r = bsize b \<and> bposition r = 0
           \<and> bcapacity r = bcapacity b \<and> take (bsize b - off) (block_bytes r) = drop off (block_bytes b)"
  using assms block_shift_ok [OF assms] by (cases "off = 0") (auto simp: iov_shift_front_def length_block_bytes)

lemma iov_trim_front_ok:
  assumes v: "wf_iov v" and s: "chain v = [] \<or> start_index v < length (chain v)"
  shows "\<exists>v'. iov_trim_front fresh v = Inr v' \<and> wf_iov v' \<and> iov_bytes v' = iov_bytes v
           \<and> (chain v = [] \<or> begin_offset v' = 0 \<and> start_index v' = 0)"
proof (cases "(begin_offset v = 0 \<and> start_index v = 0) \<or> chain v = []")
  case True
  with v show ?thesis by (auto simp: iov_trim_front_def)
next
  case False
  with s have s: "start_index v < length (chain v)" by simp
  let ?b = "chain v ! start_index v"
  let ?fin = "\<lambda>w. w\<lparr>chain_length := size_sub (chain_length w) (begin_offset w), begin_offset := 0\<rparr>"
  note front = iov_front [OF v s]
  have "\<exists>w. wf_iov (?fin w) \<and> iov_bytes (?fin w) = iov_bytes v
      \<and> iov_trim_front fresh v = iov_trim_chain_front (?fin w)"
  proof (cases "begin_offset v = bsize ?b")
    case True
    let ?w = "v\<lparr>start_index := start_index v + 1\<rparr>"
    have "wf_iov (?fin ?w)" "iov_bytes (?fin ?w) = concat (map block_bytes (drop (Suc (start_index v)) (chain v)))"
      using wf_iov_advance [OF v s, of ?b "?fin ?w"] front(1,2,5) True by simp_all
    then show ?thesis
      using False s True front(1,4)
      by (intro exI [of _ ?w]) (auto simp: iov_trim_front_def length_block_bytes)
  next
    case b: False
    obtain r where r: "rbind (block_load ?b (begin_offset v) (size_sub (bsize ?b) (begin_offset v)))
        (\<lambda>bs. block_store ?b 0 bs) = Inr r" "wf_block r" "bsize r = bsize ?b" "bposition r = 0"
      "take (bsize ?b - begin_offset v) (block_bytes r) = drop (begin_offset v) (block_bytes ?b)"
      using block_shift_ok [OF front(1-3)] by auto
    obtain r' where r': "block_resize fresh r (bsize r - begin_offset v) = Inr r'" "wf_block r'"
      "block_bytes r' = drop (begin_offset v) (block_bytes ?b)" "bposition r' = 0"
      "bsize r' = bsize ?b - begin_offset v"
      using block_resize_shrink [OF r(2) _ r(4), of "bsize r - begin_offset v" fresh] r(3,5) by auto
    let ?w = "v\<lparr>chain := (chain v)[start_index v := r']\<rparr>"
    have "chain_length v - begin_offset v = chain_length v - bsize ?b + bsize r'"
      using front(3,5) r'(5) by simp
    then have "wf_iov (?fin ?w)" "iov_bytes (?fin ?w) = iov_bytes v"
      using wf_iov_replace [OF v s r'(2,4), of "?fin ?w"] iov_begin_offset_le(2) [OF v] front(4) r'(3)
      by simp_all
    moreover have "iov_trim_front fresh v = iov_trim_chain_front (?fin ?w)"
      using False s b r r' front(3) by (auto simp: iov_trim_front_def rbind_eq_Inr)
    ultimately show ?thesis by blast
  qed
  then obtain w where w: "wf_iov (?fin w)" "iov_bytes (?fin w) = iov_bytes v"
    "iov_trim_front fresh v = iov_trim_chain_front (?fin w)" by blast
  from iov_trim_chain_front_ok [OF w(1)] w(2,3) show ?thesis by auto
qed

lemma iov_iterate_blocks_ok:
  assumes "wf_iov v"
  shows "\<exists>ss. iov_iterate_blocks v = Inr ss \<and> concat ss = iov_bytes v"
proof (cases "iov_bytes v = []")
  case True
  with assms show ?thesis by (simp add: iov_iterate_blocks_def iov_size_bytes)
next
  case False
  note s = iov_nonempty_start [OF assms False]
  then show ?thesis
    using False assms iov_front [OF assms s] Cons_nth_drop_Suc [OF s, symmetric]
    by (simp add: iov_iterate_blocks_def iov_size_bytes)
qed

lemma iov_copy_blocks_data:
  "bdata r = Some d \<Longrightarrow> off + length (concat ss) \<le> length d \<Longrightarrow>
     iov_copy_blocks r off ss =
       Inr (r\<lparr>bdata := Some (take off d @ concat ss @ drop (off + length (concat ss)) d)\<rparr>)"
proof (induction ss arbitrary: r off d)
  case Nil
  then show ?case by (simp flip: Nil.prems(1))
next
  case (Cons s ss)
  let ?d = "take off d @ s @ drop (off + length s) d"
  have st: "block_store r off s = Inr (r\<lparr>bdata := Some ?d\<rparr>)"
    using Cons.prems by (cases "s = []") (simp_all add: block_store_def)
  have off: "take (off + length s) ?d = take off d @ s"
    "drop (off + length s + k) ?d = drop (off + length s + k) d" for k
    using Cons.prems by (simp_all add: add.commute)
  have "iov_copy_blocks (r\<lparr>bdata := Some ?d\<rparr>) (off + length s) ss =
      Inr (r\<lparr>bdata := Some (take (off + length s) ?d @ concat ss
        @ drop (off + length s + length (concat ss)) ?d)\<rparr>)"
    using Cons.prems by (subst Cons.IH [of _ ?d]) simp_all
  then show ?case
    by (simp only: off) (simp add: st add.assoc)
qed

lemma iov_coalesce_eq: "wf_iov v \<Longrightarrow> iov_coalesce fresh v = Inr (block_of (iov_bytes v))"
proof -
  assume v: "wf_iov v"
  obtain ss where ss: "iov_iterate_blocks v = Inr ss" "concat ss = iov_bytes v"
    using iov_iterate_blocks_ok [OF v] by blast
  show ?thesis
  proof (cases "iov_bytes v = []")
    case True
    with v show ?thesis by (simp add: iov_coalesce_def iov_size_bytes block_of_def)
  next
    case False
    let ?n = "length (iov_bytes v)"
    let ?r = "\<lparr>bdata = Some (map fresh [0..<?n]), bcapacity = ?n, bsize = ?n, bposition = 0\<rparr>"
    have "block_resize fresh block_empty ?n = Inr ?r"
      using False by (simp add: block_resize_def block_empty_def block_allocate_def)
    moreover have "iov_copy_blocks ?r 0 ss = Inr (block_of (iov_bytes v))"
      using False by (subst iov_copy_blocks_data [of _ "map fresh [0..<?n]"])
        (simp_all add: ss block_of_def)
    ultimately show ?thesis
      using False v by (simp add: iov_coalesce_def iov_size_bytes ss)
  qed
qed

lemma iov_coalesced_eq: "wf_iov v \<Longrightarrow> iov_coalesced fresh f v = Inr (f (iov_bytes v))"
proof -
  assume v: "wf_iov v"
  show ?thesis
  proof (cases "length (chain v) = start_index v + 1")
    case True
    then have s: "start_index v < length (chain v)" by simp
    note front = iov_front [OF v s]
    have b: "iov_bytes v = drop (begin_offset v) (block_bytes (chain v ! start_index v))"
      using True front(4) by simp
    then have "iov_size v = bsize (chain v ! start_index v) - begin_offset v"
      using v front(1) by (simp add: iov_size_bytes length_block_bytes)
    then show ?thesis
      using True front(1,3) b by (simp add: iov_coalesced_def block_load_ok length_block_bytes)
  next
    case False
    with v show ?thesis by (simp add: iov_coalesced_def iov_coalesce_eq)
  qed
qed

text \<open>
  The destructive \<open>coalesce\<close> returns all bytes on every branch, and the counters it leaves agree
  with the chain.
\<close>

lemma iov_coalesce_move_first:
  assumes v: "wf_iov v" "iov_bytes v \<noteq> []" "length (chain v) \<noteq> start_index v + 1"
    and cap: "iov_size v \<le> bcapacity (chain v ! start_index v)"
    and nback: "\<not> (begin_offset v = bsize (chain v ! start_index v) \<and> length (chain v) = start_index v + 2)"
  shows "\<exists>r v'. iov_coalesce_move fresh v = Inr (r, v') \<and> wf_block r \<and> bposition r = 0
           \<and> block_bytes r = iov_bytes v \<and> wf_iov v'"
proof -
  have s: "start_index v < length (chain v)" using v by (auto intro: iov_nonempty_start)
  let ?b = "chain v ! start_index v"
  let ?rest = "map block_bytes (drop (Suc (start_index v)) (chain v))"
  let ?n = "bsize ?b - begin_offset v"
  let ?v = "v\<lparr>chain_length := chain_length v - bsize ?b, begin_offset := 0,
              chain := (chain v)[start_index v := block_empty], start_index := start_index v + 1\<rparr>"
  note front = iov_front [OF v(1) s]
  obtain r where r: "iov_shift_front (begin_offset v) ?b = Inr r" "wf_block r" "bsize r = bsize ?b"
    "bposition r = 0" "bcapacity r = bcapacity ?b"
    "take ?n (block_bytes r) = drop (begin_offset v) (block_bytes ?b)"
    using iov_shift_front_ok [OF front(1-3)] by auto
  have tot: "length (iov_bytes v) = ?n + length (concat ?rest)"
    using front(1,3) by (simp add: front(4) length_block_bytes)
  moreover have "0 < length (iov_bytes v)" using v(2) by simp
  ultimately have "0 < bcapacity r" using cap v(1) r(5) by (simp only: iov_size_bytes)
  with r(2) obtain d where d: "bdata r = Some d" "length d = bcapacity r"
    by (auto simp: wf_block_def split: option.splits)
  let ?r = "r\<lparr>bdata := Some (take ?n d @ concat ?rest @ drop (?n + length (concat ?rest)) d)\<rparr>"
  have "iov_copy_blocks r ?n ?rest = Inr ?r"
    using d cap r(5) tot v(1) by (intro iov_copy_blocks_data) (simp_all add: iov_size_bytes)
  moreover have "take ?n d = drop (begin_offset v) (block_bytes ?b)"
    using r(2,3,6) d by (simp add: block_bytes_def wf_block_def min_def split: if_splits)
  moreover have "sum_list (map length ?rest) = length (concat ?rest)"
    by (simp add: length_concat)
  moreover have c: "(begin_offset v = bsize ?b \<and> length (chain v) = Suc (Suc (start_index v))) = False"
    using nback by simp
  ultimately have "iov_coalesce_move fresh v = Inr (?r\<lparr>bsize := length (iov_bytes v)\<rparr>, ?v)"
    using v s cap r(1,5) front(3,5) tot [symmetric]
    by (simp add: iov_coalesce_move_def Let_def block_resize_def iov_size_bytes c)
  moreover have "wf_block (?r\<lparr>bsize := length (iov_bytes v)\<rparr>)"
    using cap r(4,5) d tot v(1) \<open>0 < bcapacity r\<close> by (simp add: wf_block_def iov_size_bytes)
  moreover have "block_bytes (?r\<lparr>bsize := length (iov_bytes v)\<rparr>) = iov_bytes v"
    using \<open>take ?n d = _\<close> front(1) tot by (simp add: block_bytes_def front(4) length_block_bytes)
  moreover have "wf_iov ?v"
    using wf_iov_advance(1) [OF v(1) s, of block_empty ?v] by (simp add: block_empty_def wf_block_def)
  ultimately show ?thesis using r(4) by auto
qed

lemma iov_coalesce_move_ok:
  assumes v: "wf_iov v"
  shows "\<exists>r v'. iov_coalesce_move fresh v = Inr (r, v') \<and> wf_block r \<and> bposition r = 0
           \<and> block_bytes r = iov_bytes v \<and> wf_iov v'"
proof (cases "iov_bytes v = []")
  case True
  with v show ?thesis by (simp add: iov_coalesce_move_def iov_size_bytes block_empty_def wf_block_def block_bytes_def)
next
  case False
  note s = iov_nonempty_start [OF v False]
  let ?b = "chain v ! start_index v"
  note front = iov_front [OF v s]
  consider (tail) "begin_offset v = bsize ?b" "length (chain v) = start_index v + 2"
    | (one) "length (chain v) = start_index v + 1"
    | (first) "length (chain v) \<noteq> start_index v + 1" "iov_size v \<le> bcapacity ?b"
        "\<not> (begin_offset v = bsize ?b \<and> length (chain v) = start_index v + 2)"
    | (copy) "length (chain v) \<noteq> start_index v + 1" "\<not> iov_size v \<le> bcapacity ?b"
        "\<not> (begin_offset v = bsize ?b \<and> length (chain v) = start_index v + 2)"
    by blast
  then show ?thesis
  proof cases
    case tail
    have ne: "chain v \<noteq> []" using s by auto
    have ch: "drop (Suc (start_index v)) (chain v) = [last (chain v)]"
      using tail(2) last_conv_nth [OF ne] by (simp add: Cons_nth_drop_Suc [symmetric])
    then have d: "drop (start_index v) (chain v) = [?b, last (chain v)]"
      using Cons_nth_drop_Suc [OF s] by simp
    have l: "wf_block (last (chain v))" "bposition (last (chain v)) = 0"
      using v last_in_set [OF ne] by (auto simp: wf_iov_def)
    have "iov_bytes v = block_bytes (last (chain v))"
      using front(1,4) ch tail(1) by (simp add: length_block_bytes)
    with False have "0 < length (block_bytes (last (chain v)))" by simp
    then have "0 < bsize (last (chain v))" by (simp only: length_block_bytes [OF l(1)])
    with l show ?thesis
      using False v s tail front ch d
      by (auto simp: iov_coalesce_move_def Let_def iov_size_bytes length_block_bytes wf_iov_def nth_butlast
          drop_butlast in_set_butlastD)
  next
    case one
    have ne: "chain v \<noteq> []" using s by auto
    have ch: "last (chain v) = ?b" "drop (Suc (start_index v)) (chain v) = []"
      using one last_conv_nth [OF ne] by simp_all
    obtain r where r: "iov_shift_front (begin_offset v) ?b = Inr r" "wf_block r" "bsize r = bsize ?b"
      "bposition r = 0" "take (bsize ?b - begin_offset v) (block_bytes r) = drop (begin_offset v) (block_bytes ?b)"
      using iov_shift_front_ok [OF front(1-3)] by auto
    have "\<exists>r'. (if begin_offset v \<noteq> 0 then block_resize fresh r (size_sub (bsize r) (begin_offset v)) else Inr r)
        = Inr r' \<and> wf_block r' \<and> bposition r' = 0 \<and> block_bytes r' = iov_bytes v"
      using block_resize_shrink [OF r(2) _ r(4), of "bsize r - begin_offset v" fresh] r front ch
      by (auto simp: length_block_bytes)
    moreover have "wf_iov (v\<lparr>chain_length := 0, chain := butlast (chain v), begin_offset := 0\<rparr>)"
      using v one by (auto simp: wf_iov_def in_set_butlastD)
    ultimately show ?thesis
      using one ch False v s r(1) front(5) by (auto simp: iov_coalesce_move_def Let_def iov_size_bytes)
  next
    case first
    with v False show ?thesis by (intro iov_coalesce_move_first)
  next
    case copy
    then show ?thesis
      using False v s by (auto simp: iov_coalesce_move_def Let_def iov_size_bytes iov_coalesce_eq)
  qed
qed

subsection \<open>The queue contract\<close>

interpretation iovq: byte_queue wf_iov iov_bytes iov_append iov_drop_front block_bytes
  "\<lambda>b. wf_block b \<and> bposition b = 0" "2 ^ 32"
  by unfold_locales (auto simp: iov_append_ok intro!: iov_drop_front_ok)

text \<open>
  C25: \<open>IOVector\<close> is a first-in first-out queue. Over any history of \<open>append\<close> calls and partial
  writes (\<open>drop_front\<close> of what the kernel took), with less than 4 GiB queued, no call faults and
  the bytes written followed by the bytes still queued are the bytes appended, in order.
\<close>

theorem iovector_fifo:
  assumes "wf_iov v" "puts_ok (\<lambda>b. wf_block b \<and> bposition b = 0) cs"
    and "length (iov_bytes v @ put_bytes block_bytes cs) < 2 ^ 32"
  shows "\<exists>v' out'. queue_run iov_append iov_drop_front iov_bytes cs (v, out) = Inr (v', out') \<and> wf_iov v'
           \<and> out' @ iov_bytes v' = out @ iov_bytes v @ put_bytes block_bytes cs"
  using assms by (rule iovq.run_fifo)

theorem iovector_fifo_witness:
  "\<exists>v' out'. queue_run iov_append iov_drop_front iov_bytes
       [Put (block_of ''abc''), Written 2, Put (block_of ''de''), Written 9] (iov_empty, [])
     = Inr (v', out') \<and> wf_iov v' \<and> out' @ iov_bytes v' = ''abcde''"
  using iovector_fifo [of iov_empty
      "[Put (block_of ''abc''), Written 2, Put (block_of ''de''), Written 9]" "[]"]
  by simp

text \<open>
  \<open>take_front(len)\<close> splits the vector at \<open>len\<close>: for every \<open>len\<close> up to the size it succeeds,
  the returned vector holds the first \<open>len\<close> bytes, this vector keeps the rest, and both are
  well-formed, whichever of the moving or copying paths is taken.
\<close>

theorem take_front_splits:
  assumes "wf_iov v" "n \<le> iov_size v"
  shows "\<exists>res v'. iov_take_front fresh n v = Inr (res, v') \<and> wf_iov res \<and> wf_iov v'
           \<and> iov_bytes res = take n (iov_bytes v) \<and> iov_bytes v' = drop n (iov_bytes v)"
  using assms iov_take_front_ok by (simp add: iov_size_bytes)

theorem take_front_splits_witness:
  "\<exists>res v'. iov_take_front (\<lambda>_. CHR ''x'') 2 (iov_append (iov_append iov_empty (block_of ''a'')) (block_of ''bcd''))
       = Inr (res, v') \<and> wf_iov res \<and> wf_iov v' \<and> iov_bytes res = ''ab'' \<and> iov_bytes v' = ''cd''"
  using take_front_splits [of "iov_append (iov_append iov_empty (block_of ''a'')) (block_of ''bcd'')" 2
      "\<lambda>_. CHR ''x''"]
  by (simp add: iov_append_ok iov_size_bytes)

text \<open>
  Every way to read the whole vector sees the same bytes: \<open>iovecs\<close>, the copying \<open>coalesce\<close>,
  \<open>coalesced(f)\<close> and the destructive \<open>coalesce() &&\<close>, none of which faults, and \<open>size()\<close> is
  their number.
\<close>

theorem iovector_readers_agree:
  assumes "wf_iov v"
  shows "\<exists>ss r v'. iov_iovecs v = Inr ss \<and> concat ss = iov_bytes v
           \<and> iov_coalesce fresh v = Inr (block_of (iov_bytes v))
           \<and> iov_coalesced fresh f v = Inr (f (iov_bytes v))
           \<and> iov_coalesce_move fresh v = Inr (r, v') \<and> block_bytes r = iov_bytes v
           \<and> iov_size v = length (iov_bytes v)"
  using iov_iterate_blocks_ok [OF assms] iov_coalesce_move_ok [OF assms, of fresh]
  by (auto simp: iov_iovecs_def assms iov_coalesce_eq iov_coalesced_eq iov_size_bytes)

theorem iovector_readers_agree_witness:
  "\<exists>ss r v'. iov_iovecs (iov_append iov_empty (block_of ''ab'')) = Inr ss \<and> concat ss = ''ab''
     \<and> iov_coalesce (\<lambda>_. CHR ''x'') (iov_append iov_empty (block_of ''ab'')) = Inr (block_of ''ab'')
     \<and> iov_coalesced (\<lambda>_. CHR ''x'') length (iov_append iov_empty (block_of ''ab'')) = Inr 2
     \<and> iov_coalesce_move (\<lambda>_. CHR ''x'') (iov_append iov_empty (block_of ''ab'')) = Inr (r, v')
     \<and> block_bytes r = ''ab'' \<and> iov_size (iov_append iov_empty (block_of ''ab'')) = 2"
  using iovector_readers_agree [of "iov_append iov_empty (block_of ''ab'')" "\<lambda>_. CHR ''x''" length]
  by (simp add: iov_append_ok numeral_2_eq_2)

text \<open>
  The 32-bit counter of \<open>drop_front\<close>: with three blocks of 2 GiB queued, dropping 4 GiB wraps the
  counter to 0 and the loop runs past the end of the chain.
\<close>

lemma drop_front_counter_wraps:
  assumes "bsize a = 2 ^ 31" "bsize b = 2 ^ 31" "bsize c = 2 ^ 31"
  shows "iov_drop_front (2 ^ 32) \<lparr>chain = [a, b, c], chain_length = 3 * 2 ^ 31, begin_offset = 0,
           start_index = 0\<rparr> = Inl Out_of_range"
  using assms
  by (simp add: iov_drop_front_def iov_size_def iov_drop_loop.simps iov_pop_front_block_def Let_def
      block_empty_def)

text \<open>
  C26: after the destructive \<open>coalesce() &&\<close> the vector is not always usable: when consumed blocks
  precede the one that is returned, \<open>chain_\<close> stays non-empty while \<open>start_index_\<close> is its size, and
  \<open>front_size()\<close>, \<open>front_data()\<close> and \<open>trim_front()\<close> all index past the end of the chain.
\<close>

theorem coalesce_move_invalidates_front:
  fixes v :: iovector
  assumes "wf_iov v" "length (chain v) = start_index v + 1" "0 < start_index v" "iov_bytes v \<noteq> []"
  shows "\<exists>r v'. iov_coalesce_move fresh v = Inr (r, v') \<and> iov_front_size v' = Inl Out_of_range
           \<and> iov_front_data v' = Inl Out_of_range \<and> iov_trim_front fresh v' = Inl Out_of_range"
proof -
  obtain r v' where cm: "iov_coalesce_move fresh v = Inr (r, v')"
    using iov_coalesce_move_ok [OF assms(1), of fresh] by blast
  have "chain v \<noteq> []" using assms(2) by auto
  then have "chain v' = butlast (chain v)" "start_index v' = start_index v"
    using cm assms by (auto simp: iov_coalesce_move_def iov_size_bytes Let_def rbind_eq_Inr)
  moreover from assms(2,3) have "butlast (chain v) \<noteq> []" by (cases "chain v") auto
  ultimately show ?thesis
    using cm assms(2,3) by (simp add: iov_front_size_def iov_front_data_def iov_trim_front_def)
qed

theorem coalesce_move_invalidates_front_witness:
  "\<exists>r v'. iov_coalesce_move (\<lambda>_. CHR ''x'') \<lparr>chain = [block_empty, block_of ''b''], chain_length = 1,
        begin_offset = 0, start_index = 1\<rparr> = Inr (r, v') \<and> iov_front_size v' = Inl Out_of_range
     \<and> iov_front_data v' = Inl Out_of_range \<and> iov_trim_front (\<lambda>_. CHR ''x'') v' = Inl Out_of_range"
  by (rule coalesce_move_invalidates_front) (simp_all add: wf_iov_def iov_bytes_def block_empty_def,
      simp_all add: wf_block_def)

end
