(* ===== verification/Adb_Utils.thy ===== *)
theory Adb_Utils
  imports Packet
begin

text \<open>
  \<open>adb_utils.cpp\<close> and \<open>adb_utils.h\<close>: quoting of shell arguments, the dumps of packets for the log,
  the validation of forwarding targets, the creation of a directory hierarchy, the blocking queue,
  and the string helpers of the service parsers. Functions of libbase (\<open>StartsWith\<close>,
  \<open>ParseInt\<close>, \<open>Dirname\<close>) and of the file system are arguments.
\<close>

subsection \<open>Quoting\<close>

text \<open>The loop of \<open>escape_arg\<close> on the part of the string from \<open>base\<close> on.\<close>

function escape_arg_loop :: "string \<Rightarrow> string" where
  "escape_arg_loop s =
     (let piece = takeWhile (\<lambda>c. c \<noteq> CHR 0x27) s; found = dropWhile (\<lambda>c. c \<noteq> CHR 0x27) s
      in if found = [] then piece
         else piece @ [CHR 0x27, CHR 0x5C, CHR 0x27, CHR 0x27] @ escape_arg_loop (tl found))"
  by pat_completeness auto
termination
proof (relation "measure length", goal_cases)
  case (2 s x xa)
  from 2(3) have "length (tl xa) < length xa" by (cases xa) simp_all
  also have "\<dots> \<le> length s" unfolding 2(2) by (rule length_dropWhile_le)
  finally show ?case by simp
qed simp

declare escape_arg_loop.simps [simp del]

definition escape_arg :: "string \<Rightarrow> string" where
  "escape_arg s = [CHR 0x27] @ escape_arg_loop s @ [CHR 0x27]"

text \<open>
  The reference: how a POSIX shell reads one word. Inside single quotes everything up to the next
  single quote is literal; outside them a backslash protects the next character, and a word ends at
  a blank or at a character with a meaning of its own.
\<close>

definition sh_special :: "char \<Rightarrow> bool" where
  "sh_special c \<longleftrightarrow> c \<in> set '' |&;<>()$`\"*?[#~=%!{}'' \<or> c = CHR 0x0A \<or> c = CHR 0x09"

fun prefix_word :: "string \<Rightarrow> (string \<times> string) option \<Rightarrow> (string \<times> string) option" where
  "prefix_word p None = None"
| "prefix_word p (Some (w, rest)) = Some (p @ w, rest)"

fun sh_word :: "bool \<Rightarrow> string \<Rightarrow> (string \<times> string) option" where
  "sh_word True [] = None"
| "sh_word True (c # cs) =
     (if c = CHR 0x27 then sh_word False cs else prefix_word [c] (sh_word True cs))"
| "sh_word False [] = Some ([], [])"
| "sh_word False (c # cs) =
     (if c = CHR 0x27 then sh_word True cs
      else if c = CHR 0x5C
      then (case cs of [] \<Rightarrow> None | d # ds \<Rightarrow> prefix_word [d] (sh_word False ds))
      else if sh_special c then Some ([], c # cs)
      else prefix_word [c] (sh_word False cs))"

lemma prefix_word_simps [simp]:
  "prefix_word [] x = x" "prefix_word p (prefix_word q x) = prefix_word (p @ q) x"
  by (cases "(p, x)" rule: prefix_word.cases; simp)+

lemma sh_word_literal:
  "\<forall>c\<in>set p. c \<noteq> CHR 0x27 \<Longrightarrow> sh_word True (p @ cs) = prefix_word p (sh_word True cs)"
  by (induction p) simp_all

lemma escape_arg_loop_cases:
  obtains (last) "\<forall>c\<in>set s. c \<noteq> CHR 0x27" "escape_arg_loop s = s"
  | (quote) p r where "s = p @ CHR 0x27 # r" "\<forall>c\<in>set p. c \<noteq> CHR 0x27"
      "escape_arg_loop s = p @ [CHR 0x27, CHR 0x5C, CHR 0x27, CHR 0x27] @ escape_arg_loop r"
proof (cases "CHR 0x27 \<in> set s")
  case False
  then have "takeWhile (\<lambda>c. c \<noteq> CHR 0x27) s = s" "dropWhile (\<lambda>c. c \<noteq> CHR 0x27) s = []" by auto
  with False show ?thesis by (intro last) (auto simp: escape_arg_loop.simps [of s] Let_def)
next
  case True
  then obtain p r where s: "s = p @ CHR 0x27 # r" "CHR 0x27 \<notin> set p" by (meson split_list_first)
  have "takeWhile (\<lambda>c. c \<noteq> CHR 0x27) s = p" "dropWhile (\<lambda>c. c \<noteq> CHR 0x27) s = CHR 0x27 # r"
    using s(2) unfolding s(1) by (induction p) auto
  then have "escape_arg_loop s = p @ [CHR 0x27, CHR 0x5C, CHR 0x27, CHR 0x27] @ escape_arg_loop r"
    by (subst escape_arg_loop.simps) simp
  with s show ?thesis by (intro quote [of p r]) auto
qed

lemma sh_word_escape_arg_loop:
  "sh_word True (escape_arg_loop s @ cs) = prefix_word s (sh_word True cs)"
proof (induction "length s" arbitrary: s rule: less_induct)
  case less
  show ?case
  proof (cases s rule: escape_arg_loop_cases)
    case last
    then show ?thesis by (simp add: sh_word_literal)
  next
    case (quote p r)
    with less [of r] show ?thesis by (simp add: sh_word_literal)
  qed
qed

text \<open>
  C29: quoting is safe. Whatever characters the argument holds, a shell reads \<open>escape_arg s\<close> as one
  word whose value is exactly \<open>s\<close>, and leaves what follows untouched.
\<close>

theorem escape_arg_is_one_word:
  "sh_word False (escape_arg s @ CHR '' '' # rest) = Some (s, CHR '' '' # rest)"
  by (simp add: escape_arg_def sh_word_escape_arg_loop sh_special_def)

subsection \<open>Log dumps\<close>

definition is_print :: "char \<Rightarrow> bool" where
  "is_print c \<longleftrightarrow> 32 \<le> (of_char c :: nat) \<and> (of_char c :: nat) < 127"

definition dump_hex :: "bytes \<Rightarrow> string" where
  "dump_hex bs =
     (let truncate_len = 16; truncated = truncate_len < length bs;
          p = (if truncated then take truncate_len bs else bs)
      in concat (map (\<lambda>c. hex_pad 2 (of_char c)) p) @ '' '' @ map (\<lambda>c. if is_print c then c else CHR ''.'') p
         @ (if truncated then '' [truncated]'' else []))"

text \<open>\<open>"%d"\<close> of a 32-bit value.\<close>

definition signed_decimal :: "u32 \<Rightarrow> string" where
  "signed_decimal w = (if sint w < 0 then ''-'' @ decimal (nat (- sint w)) else decimal (unat w))"

definition dump_arg :: "u32 \<Rightarrow> string" where
  "dump_arg a = (if a < 256 then signed_decimal a else ''0x'' @ hex_pad 1 (unat a))"

definition dump_header :: "amessage \<Rightarrow> string" where
  "dump_header m =
     (let cmd = (if list_all is_print (le32 (command m)) then le32 (command m) else hex_pad 8 (unat (command m)))
      in ''['' @ cmd @ ''] arg0='' @ dump_arg (arg0 m) @ '' arg1='' @ dump_arg (arg1 m)
         @ '' (len='' @ signed_decimal (data_length m) @ '') '')"

definition dump_packet :: "string \<Rightarrow> string \<Rightarrow> apacket \<Rightarrow> string" where
  "dump_packet name func p =
     name @ '': '' @ func @ '': '' @ dump_header (msg p) @ dump_hex (block_bytes (payload p))"

text \<open>A dump stays short whatever the packet holds.\<close>

lemma length_dump_hex: "length (dump_hex bs) \<le> 61"
proof -
  have two: "length (hex_pad 2 (of_char c)) = 2" for c :: char
    by (rule length_hex_pad) simp_all
  have "length (concat (map (\<lambda>c. hex_pad 2 (of_char c)) p)) = 2 * length p" for p :: bytes
    by (induction p) (simp_all add: two)
  then show ?thesis by (auto simp: dump_hex_def Let_def)
qed

subsection \<open>Strings of services\<close>

text \<open>The loop counts the NULs from the end; \<open>remove_suffix\<close> drops as many characters.\<close>

definition StripTrailingNulls :: "string \<Rightarrow> string" where
  "StripTrailingNulls str =
     (let n = length (takeWhile (\<lambda>c. c = CHR 0x00) (rev str)) in take (length str - n) str)"

lemma StripTrailingNulls_eq: "StripTrailingNulls s = rev (dropWhile (\<lambda>c. c = CHR 0x00) (rev s))"
proof -
  let ?t = "takeWhile (\<lambda>c. c = CHR 0x00) (rev s)" and ?d = "dropWhile (\<lambda>c. c = CHR 0x00) (rev s)"
  have "rev (?t @ ?d) = s" by (simp only: takeWhile_dropWhile_id rev_rev_ident)
  then have s: "rev ?d @ rev ?t = s" by (simp only: rev_append)
  from arg_cong [OF s, of length] have "length s = length ?d + length ?t" by (simp only: length_append length_rev)
  then have "take (length s - length ?t) (rev ?d @ rev ?t) = rev ?d" by simp
  then show ?thesis unfolding s by (simp add: StripTrailingNulls_def)
qed

text \<open>
  \<open>ParseUint\<close> on a type with the largest value \<open>mx\<close>: \<open>std::from_chars\<close> in base 10 takes as many
  digits as there are, fails when there are none or the value is too large; text after the number is
  an error unless the caller asks for it.
\<close>

definition ParseUint :: "nat \<Rightarrow> bool \<Rightarrow> string \<Rightarrow> (nat \<times> string) option" where
  "ParseUint mx want_remaining str =
     (let (v, rest) = digits_value 10 str 0
      in if str = [] \<or> digit_value 10 (hd str) = None then None
         else if mx < v then None
         else if rest \<noteq> [] \<and> \<not> want_remaining then None
         else Some (v, rest))"

lemma hd_digits: "2 \<le> base \<Longrightarrow> base \<le> 36 \<Longrightarrow> digit_value base (hd (digits base n)) \<noteq> None"
  using digits_are_digits [of base "hd (digits base n)" n] by simp

lemma ParseUint_decimal:
  assumes "n \<le> mx" "rest = [] \<or> (want \<and> digit_value 10 (hd rest) = None)"
  shows "ParseUint mx want (decimal n @ rest) = Some (n, rest)"
proof -
  have "digits_value 10 rest n = (n, rest)" using assms(2) by (cases rest) auto
  then show ?thesis using assms hd_digits [of 10 n]
    by (auto simp: ParseUint_def decimal_def digits_value_digits)
qed

text \<open>
  \<open>forward_targets_are_valid\<close>: \<open>&source[4]\<close> is read as a C string, up to the first NUL. The result
  is the error text, if there is one.
\<close>

definition c_str :: "string \<Rightarrow> string" where
  "c_str s = takeWhile (\<lambda>c. c \<noteq> CHR 0x00) s"

definition forward_targets_are_valid ::
  "(string \<Rightarrow> string \<Rightarrow> bool) \<Rightarrow> (string \<Rightarrow> int option) \<Rightarrow> string \<Rightarrow> string \<Rightarrow> string option" where
  "forward_targets_are_valid StartsWith ParseInt source dest =
     (let bad = (\<lambda>port low. case port of None \<Rightarrow> True | Some p \<Rightarrow> p < (low :: int))
      in if StartsWith source ''tcp:'' \<and> bad (ParseInt (c_str (drop 4 source))) 0
         then Some (''Invalid source port: '' @ [CHR 0x27] @ c_str (drop 4 source) @ [CHR 0x27])
         else if StartsWith dest ''tcp:'' \<and> bad (ParseInt (c_str (drop 4 dest))) 1
         then Some (''Invalid destination port: '' @ [CHR 0x27] @ c_str (drop 4 dest) @ [CHR 0x27])
         else None)"

subsection \<open>Directories\<close>

text \<open>
  \<open>mkdirs\<close> over a file system \<open>fs\<close>: \<open>is_dir\<close> is the test by \<open>stat\<close>, \<open>mkdir\<close> the system call (its
  flag is success; it may fail because somebody else made the directory meanwhile). The recursion
  follows \<open>Dirname\<close>, so a \<open>Dirname\<close> that never reaches a fixed point never returns.
\<close>

partial_function (option) mkdirs ::
  "(string \<Rightarrow> string) \<Rightarrow> ('fs \<Rightarrow> string \<Rightarrow> bool) \<Rightarrow> ('fs \<Rightarrow> string \<Rightarrow> bool \<times> 'fs) \<Rightarrow> string \<Rightarrow> 'fs
     \<Rightarrow> (bool \<times> 'fs) option" where
  "mkdirs Dirname is_dir mkdir path fs =
     (if is_dir fs path then Some (True, fs)
      else if Dirname path = path then Some (False, fs)
      else Option.bind (mkdirs Dirname is_dir mkdir (Dirname path) fs) (\<lambda>r.
             if \<not> fst r then Some (False, snd r)
             else (case mkdir (snd r) path of
                     (True, fs2) \<Rightarrow> Some (True, fs2)
                   | (False, fs2) \<Rightarrow> Some (is_dir fs2 path, fs2))))"

text \<open>
  \<open>mkdirs\<close> returns for every path whose parents get shorter until they stop changing, and when
  it returns true the path is a directory.
\<close>

theorem mkdirs_creates:
  assumes dirname: "\<And>p. Dirname p \<noteq> p \<Longrightarrow> length (Dirname p) < length p"
    and made: "\<And>fs p fs'. mkdir fs p = (True, fs') \<Longrightarrow> is_dir fs' p"
  shows "\<exists>ok fs'. mkdirs Dirname is_dir mkdir path fs = Some (ok, fs') \<and> (ok \<longrightarrow> is_dir fs' path)"
proof (induction "length path" arbitrary: path rule: less_induct)
  case less
  show ?case
  proof (cases "is_dir fs path \<or> Dirname path = path")
    case True
    then show ?thesis by (subst mkdirs.simps) auto
  next
    case False
    with less [OF dirname] obtain ok fs1 where
      rec: "mkdirs Dirname is_dir mkdir (Dirname path) fs = Some (ok, fs1)" by blast
    obtain ok2 fs2 where mk: "mkdir fs1 path = (ok2, fs2)" by fastforce
    show ?thesis using False rec mk made [of fs1 path]
      by (subst mkdirs.simps) (cases ok; cases ok2; auto)
  qed
qed

text \<open>A file system that is the set of its directories, with two parents to make.\<close>

definition example_dirname :: "string \<Rightarrow> string" where
  "example_dirname p = (if length p \<le> 1 then p else take (length p - 2) p)"

theorem mkdirs_creates_witness:
  "\<exists>ok fs'. mkdirs example_dirname (\<lambda>fs p. p \<in> fs) (\<lambda>fs p. (True, insert p fs)) ''/a/b'' {[]} = Some (ok, fs')
     \<and> (ok \<longrightarrow> ''/a/b'' \<in> fs')"
  by (rule mkdirs_creates [where is_dir = "\<lambda>fs p. p \<in> fs"]) (auto simp: example_dirname_def split: if_splits)

subsection \<open>The blocking queue\<close>

text \<open>
  \<open>BlockingQueue\<close>: any thread pushes, under the mutex; \<open>PopAll\<close> waits until there is something
  and takes all of it before it calls its function, so a step of the consumer moves the whole queue.
  The state also records what was pushed and what was handed to the function.
\<close>

record 'a blocking_queue =
  bq_queue :: "'a list"
  bq_pushed :: "'a list"
  bq_popped :: "'a list"

definition bq_Push :: "'a \<Rightarrow> 'a blocking_queue \<Rightarrow> 'a blocking_queue" where
  "bq_Push x q = q\<lparr>bq_queue := bq_queue q @ [x], bq_pushed := bq_pushed q @ [x]\<rparr>"

definition bq_PopAll :: "'a blocking_queue \<Rightarrow> 'a blocking_queue option" where
  "bq_PopAll q = (if bq_queue q = [] then None
     else Some (q\<lparr>bq_queue := [], bq_popped := bq_popped q @ bq_queue q\<rparr>))"

inductive bq_reachable :: "'a blocking_queue \<Rightarrow> bool" where
  bq_init: "bq_reachable \<lparr>bq_queue = [], bq_pushed = [], bq_popped = []\<rparr>"
| bq_push: "bq_reachable q \<Longrightarrow> bq_reachable (bq_Push x q)"
| bq_pop: "bq_reachable q \<Longrightarrow> bq_PopAll q = Some q' \<Longrightarrow> bq_reachable q'"

lemma bq_fifo: "bq_reachable q \<Longrightarrow> bq_pushed q = bq_popped q @ bq_queue q"
  by (induction rule: bq_reachable.induct) (auto simp: bq_Push_def bq_PopAll_def split: if_splits)

end
