(* ===== verification/Host_Service.thy ===== *)
theory Host_Service
  imports Adb_Utils
begin

text \<open>
  The request parsers of \<open>sockets.cpp\<close>: \<open>unhex\<close>, which reads the length of a smart-socket request,
  and \<open>internal::parse_host_service\<close>, which splits a \<open>host-serial:\<close> request into a serial and a
  command. The two string views of the latter are offsets into the request: \<open>hs_serial\<close> is the
  length of \<open>serial\<close>, which starts at 0, and \<open>hs_command\<close> the start of \<open>command\<close>.
\<close>

subsection \<open>\<open>unhex\<close>\<close>

text \<open>The switch of the source, on the value of a character.\<close>

definition unhex_digit :: "char \<Rightarrow> u32 option" where
  "unhex_digit ch =
     (let c = of_char ch :: nat
      in if 48 \<le> c \<and> c \<le> 57 then Some (of_nat (c - 48))
         else if 97 \<le> c \<and> c \<le> 102 then Some (of_nat (c - 97 + 10))
         else if 65 \<le> c \<and> c \<le> 70 then Some (of_nat (c - 65 + 10))
         else None)"

fun unhex_loop :: "string \<Rightarrow> u32 \<Rightarrow> u32" where
  "unhex_loop [] n = n"
| "unhex_loop (ch # s) n =
     (case unhex_digit ch of
        None \<Rightarrow> 0xffffffff
      | Some c \<Rightarrow> unhex_loop s ((push_bit 4 n) OR c))"

definition unhex :: "string \<Rightarrow> nat \<Rightarrow> u32" where
  "unhex s len = unhex_loop (take len s) 0"

subsection \<open>\<open>parse_host_service\<close>\<close>

definition find_char :: "char \<Rightarrow> string \<Rightarrow> nat option" where
  "find_char c s = (let k = length (takeWhile (\<lambda>x. x \<noteq> c) s) in if k < length s then Some k else None)"

definition starts_with :: "string \<Rightarrow> string \<Rightarrow> bool" where
  "starts_with s p \<longleftrightarrow> take (length p) s = p"

record hs_state =
  hs_serial :: nat
  hs_command :: nat

definition hs_cmd :: "string \<Rightarrow> hs_state \<Rightarrow> string" where
  "hs_cmd full st = drop (hs_command st) full"

definition hs_consume :: "string \<Rightarrow> nat \<Rightarrow> hs_state \<Rightarrow> hs_state result" where
  "hs_consume full n st =
     rcheck (n \<le> length (hs_cmd full st))
       (rcheck (hs_serial st \<noteq> 0 \<longrightarrow> hs_serial st = hs_command st)
         (Inr \<lparr>hs_serial = min (hs_serial st + n) (length full), hs_command = hs_command st + n\<rparr>))"

definition hs_finish :: "string \<Rightarrow> hs_state \<Rightarrow> (string \<times> string) option result" where
  "hs_finish full st =
     (let serial = take (hs_serial st) full; command = hs_cmd full st
      in if serial = [] \<or> command = [] then Inr None
         else rcheck (last serial = CHR '':'') (Inr (Some (butlast serial, command))))"

definition hs_prefixes :: "string list" where
  "hs_prefixes = [''usb:'', ''product:'', ''model:'', ''device:'', ''localfilesystem:'']"

text \<open>The optional protocol prefixes in front of an address; \<open>None\<close> is \<open>return false\<close>.\<close>

definition hs_tcp_udp :: "string \<Rightarrow> hs_state \<Rightarrow> hs_state option result" where
  "hs_tcp_udp full st =
     (if starts_with (hs_cmd full st) ''tcp:'' \<or> starts_with (hs_cmd full st) ''udp:''
      then rbind (hs_consume full 4 st) (\<lambda>st1. Inr (if hs_cmd full st1 = [] then None else Some st1))
      else Inr (Some st))"

definition hs_vsock :: "string \<Rightarrow> hs_state \<Rightarrow> hs_state option result" where
  "hs_vsock full st =
     (if starts_with (hs_cmd full st) ''vsock:''
      then (case find_char CHR '':'' (hs_cmd full st) of
              None \<Rightarrow> Inr None
            | Some k \<Rightarrow> rbind (hs_consume full (k + 1) st) (\<lambda>st2. Inr (Some st2)))
      else Inr (Some st))"

text \<open>An IPv6 address in brackets, or everything up to the next colon.\<close>

definition hs_to_colon :: "string \<Rightarrow> hs_state \<Rightarrow> hs_state option result" where
  "hs_to_colon full st =
     (case find_char CHR '':'' (hs_cmd full st) of
        None \<Rightarrow> Inr None
      | Some k \<Rightarrow> rbind (hs_consume full (k + 1) st) (\<lambda>st'. Inr (Some st')))"

definition hs_address :: "string \<Rightarrow> hs_state \<Rightarrow> hs_state option result" where
  "hs_address full st =
     rbind (vec_at (hs_cmd full st) 0) (\<lambda>c0.
       if c0 = CHR ''[''
       then (case find_char CHR '']'' (hs_cmd full st) of
               Some k \<Rightarrow>
                 rbind (hs_consume full (k + 1) st) (\<lambda>st1.
                   if hs_cmd full st1 = [] then Inr None
                   else rbind (vec_at (hs_cmd full st1) 0) (\<lambda>c1.
                     if c1 \<noteq> CHR '':'' then Inr None
                     else rbind (hs_consume full 1 st1) (\<lambda>st2. Inr (Some st2))))
             | None \<Rightarrow> hs_to_colon full st)
       else hs_to_colon full st)"

definition is_digit :: "char \<Rightarrow> bool" where
  "is_digit c \<longleftrightarrow> 48 \<le> (of_char c :: nat) \<and> (of_char c :: nat) \<le> 57"

text \<open>A port between colons belongs to the serial.\<close>

definition hs_port :: "string \<Rightarrow> hs_state \<Rightarrow> (string \<times> string) option result" where
  "hs_port full st =
     (case find_char CHR '':'' (hs_cmd full st) of
        None \<Rightarrow> hs_finish full st
      | Some k \<Rightarrow>
          if length (hs_cmd full st) \<le> k then Inr None
          else if list_all is_digit (take k (hs_cmd full st))
          then rbind (hs_consume full (k + 1) st) (hs_finish full)
          else hs_finish full st)"

definition parse_host_service :: "string \<Rightarrow> (string \<times> string) option result" where
  "parse_host_service full =
     (if full = [] then Inr None
      else let st = \<lparr>hs_serial = 0, hs_command = 0\<rparr>
           in case find (starts_with full) hs_prefixes of
                Some prefix \<Rightarrow>
                  rbind (hs_consume full (length prefix) st) (\<lambda>st1.
                    rbind (hs_to_colon full st1) (\<lambda>o2. case o2 of None \<Rightarrow> Inr None | Some st2 \<Rightarrow>
                      hs_finish full st2))
              | None \<Rightarrow>
                  rbind (hs_tcp_udp full st) (\<lambda>o1. case o1 of None \<Rightarrow> Inr None | Some st1 \<Rightarrow>
                    rbind (hs_vsock full st1) (\<lambda>o2. case o2 of None \<Rightarrow> Inr None | Some st2 \<Rightarrow>
                      rbind (hs_address full st2) (\<lambda>o3. case o3 of None \<Rightarrow> Inr None | Some st3 \<Rightarrow>
                        hs_port full st3))))"

subsection \<open>Lemmas\<close>

lemma find_char_append: "c \<notin> set p \<Longrightarrow> find_char c (p @ c # r) = Some (length p)"
proof -
  assume "c \<notin> set p"
  then have "takeWhile (\<lambda>x. x \<noteq> c) (p @ c # r) = p" by (induction p) auto
  then show ?thesis by (simp add: find_char_def)
qed

lemma find_char_None: "find_char c s = None \<longleftrightarrow> c \<notin> set s"
proof (cases "c \<in> set s")
  case True
  then obtain p r where "s = p @ c # r" "c \<notin> set p" by (meson split_list_first)
  with True show ?thesis by (simp add: find_char_append)
next
  case False
  then have "takeWhile (\<lambda>x. x \<noteq> c) s = s" by (auto simp: takeWhile_eq_all_conv)
  then have "length (takeWhile (\<lambda>x. x \<noteq> c) s) = length s" by (rule arg_cong)
  with False show ?thesis unfolding find_char_def by (simp only: Let_def) simp
qed

lemma find_char_SomeD:
  assumes "find_char c s = Some k"
  shows "k < length s" "s ! k = c"
proof -
  have "c \<in> set s" using assms find_char_None [of c s] by auto
  then obtain p r where s: "s = p @ c # r" "c \<notin> set p" by (meson split_list_first)
  with assms have "k = length p" by (simp add: find_char_append)
  with s show "k < length s" "s ! k = c" by simp_all
qed

text \<open>The two views always meet, so a state of the parser is a position in the request.\<close>

definition at_pos :: "nat \<Rightarrow> hs_state" where
  "at_pos k = \<lparr>hs_serial = k, hs_command = k\<rparr>"

definition after_colon :: "string \<Rightarrow> nat \<Rightarrow> bool" where
  "after_colon full k \<longleftrightarrow> 0 < k \<and> k \<le> length full \<and> full ! (k - 1) = CHR '':''"

lemma hs_cmd_at [simp]: "hs_cmd full (at_pos k) = drop k full"
  by (simp add: hs_cmd_def at_pos_def)

lemma hs_consume_at: "k + n \<le> length full \<Longrightarrow> hs_consume full n (at_pos k) = Inr (at_pos (k + n))"
  by (auto simp: hs_consume_def hs_cmd_def at_pos_def rcheck_def)

lemma hs_to_colon_at:
  "hs_to_colon full (at_pos k) = Inr None \<or>
   (\<exists>k'. hs_to_colon full (at_pos k) = Inr (Some (at_pos k')) \<and> after_colon full k' \<and> k < k')"
proof (cases "find_char CHR '':'' (drop k full)")
  case None
  then show ?thesis by (simp add: hs_to_colon_def)
next
  case (Some j)
  then have "k + (j + 1) \<le> length full" "full ! (k + j) = CHR '':''"
    using find_char_SomeD [OF Some] by simp_all
  then have "hs_consume full (j + 1) (at_pos k) = Inr (at_pos (k + (j + 1)))" "after_colon full (k + (j + 1))"
    by (simp_all add: hs_consume_at after_colon_def)
  with Some show ?thesis by (force simp: hs_to_colon_def)
qed

lemma hs_address_at:
  assumes "k < length full"
  shows "hs_address full (at_pos k) = Inr None \<or>
   (\<exists>k'. hs_address full (at_pos k) = Inr (Some (at_pos k')) \<and> after_colon full k' \<and> k < k')"
proof (cases "full ! k = CHR ''['' \<and> CHR '']'' \<in> set (drop k full)")
  case False
  then have "hs_address full (at_pos k) = hs_to_colon full (at_pos k)"
    using assms find_char_None [of "CHR '']''" "drop k full"]
    by (auto simp: hs_address_def split: option.split)
  then show ?thesis using hs_to_colon_at [of full k] by simp
next
  case True
  then obtain j where j: "find_char CHR '']'' (drop k full) = Some j"
    using find_char_None by fastforce
  then have len: "k + (j + 1) \<le> length full" using find_char_SomeD(1) [OF j] by simp
  have c: "hs_consume full (j + 1) (at_pos k) = Inr (at_pos (k + (j + 1)))"
    by (rule hs_consume_at [OF len])
  show ?thesis
  proof (cases "k + (j + 1) < length full \<and> full ! (k + (j + 1)) = CHR '':''")
    case colon: True
    then have "hs_consume full 1 (at_pos (k + (j + 1))) = Inr (at_pos (k + (j + 1) + 1))"
      "after_colon full (k + (j + 1) + 1)"
      by (simp_all add: hs_consume_at after_colon_def)
    with True assms j c colon show ?thesis by (force simp: hs_address_def)
  next
    case False
    with True assms j c len show ?thesis by (auto simp: hs_address_def)
  qed
qed

lemma hs_finish_at:
  assumes "after_colon full k"
  shows "hs_finish full (at_pos k) = Inr (if k = length full then None else Some (take (k - 1) full, drop k full))"
proof -
  obtain j where k: "k = Suc j" "j < length full" "full ! j = CHR '':''"
    using assms by (cases k) (auto simp: after_colon_def)
  then have "take k full = take j full @ [CHR '':'']" by (simp add: take_Suc_conv_app_nth)
  with k show ?thesis by (auto simp: hs_finish_def Let_def at_pos_def hs_cmd_def)
qed

lemma hs_port_at:
  assumes "after_colon full k"
  shows "\<exists>k'. hs_port full (at_pos k) = hs_finish full (at_pos k') \<and> after_colon full k'"
proof (cases "find_char CHR '':'' (drop k full)")
  case None
  with assms show ?thesis by (auto simp: hs_port_def)
next
  case (Some j)
  then have "k + (j + 1) \<le> length full" "full ! (k + j) = CHR '':''" "j < length full - k"
    using find_char_SomeD [OF Some] by simp_all
  then have "hs_consume full (j + 1) (at_pos k) = Inr (at_pos (k + (j + 1)))" "after_colon full (k + (j + 1))"
    by (simp_all add: hs_consume_at after_colon_def)
  with Some assms \<open>j < length full - k\<close> show ?thesis
    by (cases "list_all is_digit (take j (drop k full))") (auto simp: hs_port_def)
qed

lemma starts_with_append: "starts_with s p \<longleftrightarrow> (\<exists>r. s = p @ r)"
  unfolding starts_with_def by (metis append_eq_conv_conj append_take_drop_id)

lemma hs_tcp_udp_at:
  "hs_tcp_udp full (at_pos 0) =
     Inr (if starts_with full ''tcp:'' \<or> starts_with full ''udp:''
          then (if length full = 4 then None else Some (at_pos 4)) else Some (at_pos 0))"
proof (cases "starts_with full ''tcp:'' \<or> starts_with full ''udp:''")
  case True
  then have "4 \<le> length full" by (auto simp: starts_with_append)
  with True hs_consume_at [of 0 4 full] show ?thesis by (simp add: hs_tcp_udp_def)
qed (simp add: hs_tcp_udp_def)

lemma hs_vsock_at:
  "hs_vsock full (at_pos k) = Inr (Some (at_pos (if starts_with (drop k full) ''vsock:'' then k + 6 else k)))"
proof (cases "starts_with (drop k full) ''vsock:''")
  case True
  then obtain r where r: "drop k full = ''vsock:'' @ r" by (auto simp: starts_with_append)
  have "find_char CHR '':'' (drop k full) = Some 5"
    using find_char_append [of "CHR '':''" "''vsock''" r] by (simp add: r)
  moreover have "k + 6 \<le> length full" using arg_cong [OF r, of length] by simp
  ultimately show ?thesis using True hs_consume_at [of k 6 full] by (simp add: hs_vsock_def)
qed (simp add: hs_vsock_def)

definition hs_outcome :: "string \<Rightarrow> (string \<times> string) option result \<Rightarrow> bool" where
  "hs_outcome full r \<longleftrightarrow> r = Inr None \<or>
     (\<exists>k. r = Inr (Some (take (k - 1) full, drop k full)) \<and> after_colon full k \<and> k < length full)"

lemma hs_outcome_simps [simp]: "hs_outcome full (Inr None)" "\<not> hs_outcome full (Inl e)"
  by (simp_all add: hs_outcome_def)

lemma hs_outcome_finish: "after_colon full k \<Longrightarrow> hs_outcome full (hs_finish full (at_pos k))"
  by (auto simp: hs_finish_at hs_outcome_def after_colon_def)

lemma hs_outcome_port: "after_colon full k \<Longrightarrow> hs_outcome full (hs_port full (at_pos k))"
  using hs_port_at [of full k] hs_outcome_finish [of full] by auto

lemma hs_outcome_address:
  "k < length full \<Longrightarrow> hs_outcome full (rbind (hs_address full (at_pos k))
     (\<lambda>o3. case o3 of None \<Rightarrow> Inr None | Some st3 \<Rightarrow> hs_port full st3))"
  using hs_address_at [of k full] by (auto simp: hs_outcome_port)

lemma hs_outcome_to_colon:
  "hs_outcome full (rbind (hs_to_colon full (at_pos k))
     (\<lambda>o3. case o3 of None \<Rightarrow> Inr None | Some st3 \<Rightarrow> hs_finish full st3))"
  using hs_to_colon_at [of full k] by (auto simp: hs_outcome_finish)

lemma hs_init: "\<lparr>hs_serial = 0, hs_command = 0\<rparr> = at_pos 0"
  by (simp add: at_pos_def)

definition vsock_only :: "string \<Rightarrow> bool" where
  "vsock_only full \<longleftrightarrow> full \<in> {''vsock:'', ''tcp:vsock:'', ''udp:vsock:''}"

lemma vsock_only_iff:
  assumes "full \<noteq> []"
  defines "k \<equiv> (if starts_with full ''tcp:'' \<or> starts_with full ''udp:'' then 4 else 0 :: nat)"
  defines "k' \<equiv> (if starts_with (drop k full) ''vsock:'' then k + 6 else k)"
  assumes "k \<noteq> length full"
  shows "k' \<le> length full" "vsock_only full \<longleftrightarrow> k' = length full"
proof -
  have k: "k < length full" using assms(1,4) by (auto simp: k_def starts_with_append split: if_splits)
  show "k' \<le> length full" using k by (auto simp: k'_def starts_with_append dest: arg_cong [of _ _ length])
  have "vsock_only full" if "k' = length full"
  proof -
    have "starts_with (drop k full) ''vsock:''" using that k by (auto simp: k'_def split: if_splits)
    moreover from this have "length (drop k full) = 6" using that by (simp add: k'_def)
    ultimately have "drop k full = ''vsock:''" by (simp add: starts_with_def)
    with append_take_drop_id [of k full] have eq: "take k full @ ''vsock:'' = full" by simp
    have "take k full \<in> {[], ''tcp:'', ''udp:''}"
      by (auto simp: k_def starts_with_def numeral_eq_Suc)
    then have "take k full @ ''vsock:'' \<in> {''vsock:'', ''tcp:vsock:'', ''udp:vsock:''}" by auto
    then show ?thesis unfolding eq vsock_only_def .
  qed
  moreover have "k' = length full" if "vsock_only full"
    using that by (auto simp: vsock_only_def k_def k'_def starts_with_def)
  ultimately show "vsock_only full \<longleftrightarrow> k' = length full" by blast
qed

lemma parse_host_service_outcome:
  "if vsock_only full then parse_host_service full = Inl Out_of_range
   else hs_outcome full (parse_host_service full)"
proof (cases "full = []")
  case True
  then show ?thesis by (simp add: parse_host_service_def vsock_only_def)
next
  case full: False
  show ?thesis
  proof (cases "find (starts_with full) hs_prefixes")
    case (Some p)
    then have p: "p \<in> set hs_prefixes" "starts_with full p" by (auto simp: find_Some_iff)
    then have "\<not> vsock_only full" by (auto simp: vsock_only_def hs_prefixes_def starts_with_def)
    moreover have "length p \<le> length full" using p(2) by (auto simp: starts_with_append)
    ultimately show ?thesis
      using full Some hs_consume_at [of 0 "length p" full] hs_outcome_to_colon [of full "length p"]
      by (simp add: parse_host_service_def hs_init)
  next
    case None
    define k where "k = (if starts_with full ''tcp:'' \<or> starts_with full ''udp:'' then 4 else 0 :: nat)"
    define k' where "k' = (if starts_with (drop k full) ''vsock:'' then k + 6 else k)"
    show ?thesis
    proof (cases "k = length full")
      case True
      then have "starts_with full ''tcp:'' \<or> starts_with full ''udp:''" "length full = 4"
        using full by (auto simp: k_def split: if_splits)
      then have "parse_host_service full = Inr None" "\<not> vsock_only full"
        using full None by (auto simp: parse_host_service_def hs_init hs_tcp_udp_at vsock_only_def)
      then show ?thesis by simp
    next
      case False
      have "parse_host_service full = rbind (hs_address full (at_pos k'))
          (\<lambda>o3. case o3 of None \<Rightarrow> Inr None | Some st3 \<Rightarrow> hs_port full st3)"
        using full None False
        by (auto simp: parse_host_service_def hs_init hs_tcp_udp_at hs_vsock_at k_def k'_def split: if_splits)
      moreover have "k' \<le> length full" "vsock_only full \<longleftrightarrow> k' = length full"
        using vsock_only_iff [OF full False [unfolded k_def]] unfolding k_def k'_def by blast+
      moreover have "hs_address full (at_pos (length full)) = Inl Out_of_range" by (simp add: hs_address_def)
      ultimately show ?thesis using hs_outcome_address [of k' full] by auto
    qed
  qed
qed

text \<open>
  C30: whatever the request, \<open>parse_host_service\<close> fails no \<open>CHECK\<close>; when it succeeds the request
  is exactly the serial, a colon and the command, and the command is not empty.
\<close>

theorem parse_host_service_splits:
  assumes "parse_host_service full = Inr (Some (serial, cmd))"
  shows "full = serial @ '':'' @ cmd \<and> cmd \<noteq> []"
proof -
  have "\<not> vsock_only full" using parse_host_service_outcome [of full] assms by auto
  then have "hs_outcome full (parse_host_service full)" using parse_host_service_outcome [of full] by simp
  with assms obtain k where k: "serial = take (k - 1) full" "cmd = drop k full" "after_colon full k" "k < length full"
    by (auto simp: hs_outcome_def)
  then have "full = take (k - 1) full @ full ! (k - 1) # drop (Suc (k - 1)) full"
    by (intro id_take_nth_drop) (simp add: after_colon_def)
  with k show ?thesis by (simp add: after_colon_def)
qed

theorem parse_host_service_splits_witness:
  "parse_host_service ''tcp:[::1]:5555:shell:ls'' = Inr (Some (''tcp:[::1]:5555'', ''shell:ls''))
   \<and> ''tcp:[::1]:5555:shell:ls'' = ''tcp:[::1]:5555'' @ '':'' @ ''shell:ls''"
proof -
  have "parse_host_service ''tcp:[::1]:5555:shell:ls'' = Inr (Some (''tcp:[::1]:5555'', ''shell:ls''))"
    by code_simp
  with parse_host_service_splits [OF this] show ?thesis by blast
qed

text \<open>
  The parser reads outside the request exactly when there is nothing behind the \<open>vsock:\<close>
  prefix, where \<open>command[0]\<close> is evaluated on an empty view.
\<close>

theorem parse_host_service_faults:
  "(\<exists>e. parse_host_service full = Inl e) \<longleftrightarrow> full \<in> {''vsock:'', ''tcp:vsock:'', ''udp:vsock:''}"
  using parse_host_service_outcome [of full] by (auto simp: vsock_only_def split: if_splits)

lemma parse_empty_serial: "parse_host_service ''::shell'' = Inr (Some ('':'', ''shell''))"
  "parse_host_service '':shell'' = Inr (Some ([], ''shell''))"
  by code_simp+

subsection \<open>\<open>unhex\<close> reads what is printed\<close>

lemma unhex_digit_eq: "unhex_digit c = map_option of_nat (digit_value 16 c)"
  by (auto simp: unhex_digit_def digit_value_def Let_def)

lemma digit_value_less: "digit_value base c = Some d \<Longrightarrow> d < base"
  by (auto simp: digit_value_def Let_def split: if_splits option.splits)

lemma unat_shift_or:
  fixes n :: u32
  assumes "unat n * 16 + 16 \<le> 2 ^ 32" "d < 16"
  shows "unat (push_bit 4 n OR of_nat d) = unat n * 16 + d"
proof -
  have small: "unat (of_nat d :: u32) = d" using assms(2) by (simp add: unat_of_nat)
  have "push_bit 4 n OR of_nat d = push_bit 4 n + (of_nat d :: u32)"
  proof (rule disjunctive_add [symmetric])
    fix i
    show "\<not> bit (push_bit 4 n) i \<or> \<not> bit (of_nat d :: u32) i"
    proof (cases "i < 4")
      case True
      then show ?thesis by (simp add: bit_push_bit_iff)
    next
      case False
      have "d < 2 ^ i" using assms(2) False power_increasing [of 4 i "2 :: nat"] by simp
      then have "\<not> bit d i" by (simp add: bit_iff_odd)
      then show ?thesis by (simp add: bit_simps)
    qed
  qed
  moreover have "unat (push_bit 4 n) = unat n * 16"
    using assms(1) by (simp add: push_bit_eq_mult unat_mult_lem [THEN iffD1])
  ultimately show ?thesis using assms small
    by (simp add: unat_add_lem [THEN iffD1])
qed

lemma unhex_loop_digits:
  assumes "\<forall>c\<in>set s. digit_value 16 c \<noteq> None" "(unat n + 1) * 16 ^ length s \<le> 2 ^ 32"
  shows "unat (unhex_loop s n) = fst (digits_value 16 s (unat n))"
  using assms
proof (induction s arbitrary: n)
  case Nil
  then show ?case by simp
next
  case (Cons c s)
  obtain d where d: "digit_value 16 c = Some d" "d < 16" using Cons.prems(1) digit_value_less by fastforce
  have bound: "(unat n + 1) * 16 * 16 ^ length s \<le> 2 ^ 32" using Cons.prems(2) by (simp add: algebra_simps)
  moreover have "(unat n + 1) * 16 * 1 \<le> (unat n + 1) * 16 * 16 ^ length s" by (intro mult_le_mono2) simp
  ultimately have "(unat n + 1) * 16 \<le> 2 ^ 32" by linarith
  then have step: "unat (push_bit 4 n OR of_nat d) = unat n * 16 + d"
    using unat_shift_or [of n d] d(2) by simp
  have "(unat n * 16 + d + 1) * 16 ^ length s \<le> (unat n + 1) * 16 * 16 ^ length s"
    using d(2) by (intro mult_le_mono1) simp
  with Cons.IH [of "push_bit 4 n OR of_nat d"] Cons.prems(1) bound step show ?case
    by (simp add: unhex_digit_eq d(1))
qed

text \<open>
  \<open>unhex\<close> on four characters: the value of four hexadecimal digits of either case, and
  \<open>0xffffffff\<close> as soon as one of them is not a digit, so a length that \<open>SendProtocolString\<close>
  printed is read back.
\<close>

theorem unhex_four:
  assumes "length s = 4"
  shows "unat (unhex s 4) =
     (if \<forall>c\<in>set s. digit_value 16 c \<noteq> None then fst (digits_value 16 s 0) else 0xffffffff)"
proof (cases "\<forall>c\<in>set s. digit_value 16 c \<noteq> None")
  case True
  then show ?thesis using unhex_loop_digits [of s 0] assms by (simp add: unhex_def)
next
  case False
  have "unhex_loop s n = 0xffffffff" if "\<not> (\<forall>c\<in>set s. digit_value 16 c \<noteq> None)" for s n
    using that by (induction s arbitrary: n) (auto simp: unhex_digit_eq split: option.split)
  then have "unat (unhex_loop s 0) = 0xffffffff" using False by simp
  with assms have "unat (unhex s 4) = 0xffffffff" by (simp add: unhex_def)
  with False show ?thesis by metis
qed

theorem unhex_four_witness: "unat (unhex ''00fF'' 4) = 255"
  using unhex_four [of "''00fF''"] by (simp add: digit_value_def)

lemma unhex_hex_pad: "n < 65536 \<Longrightarrow> unat (unhex (hex_pad 4 n @ rest) 4) = n"
  using unhex_loop_digits [of "hex_pad 4 n" 0] hex_pad_digits [of _ 4 n] digits_value_hex_pad [of 4 n "[]"]
  by (simp add: unhex_def length_hex_pad)

end
