(* ===== verification/Libbase.thy ===== *)
theory Libbase
  imports Adb_Prelude
begin

text \<open>
  The functions of libbase (\<open>android::base\<close>) that the program calls. Their code is not part of
  this repository, so they are the fields of a record that the definitions take as an argument, and
  \<open>libbase_ok\<close> states the documented behaviour the theorems rely on: a prefix test, the removal of a
  prefix, joining with a separator and its inverse. \<open>libbase_ref\<close> is a library with this behaviour.
\<close>

record libbase =
  StartsWith :: "string \<Rightarrow> string \<Rightarrow> bool"
  ConsumePrefix :: "string \<Rightarrow> string \<Rightarrow> string option"
  Split :: "string \<Rightarrow> char \<Rightarrow> string list"
  Join :: "string list \<Rightarrow> char \<Rightarrow> string"
  ParseNetAddress :: "string \<Rightarrow> int \<Rightarrow> (string \<times> int) option"

fun join_with :: "char \<Rightarrow> string list \<Rightarrow> string" where
  "join_with c [] = []"
| "join_with c [x] = x"
| "join_with c (x # y # ys) = x @ c # join_with c (y # ys)"

fun split_on :: "char \<Rightarrow> string \<Rightarrow> string list" where
  "split_on c [] = [[]]"
| "split_on c (x # xs) =
     (if x = c then [] # split_on c xs
      else (case split_on c xs of [] \<Rightarrow> [[x]] | p # ps \<Rightarrow> (x # p) # ps))"

definition libbase_ok :: "libbase \<Rightarrow> bool" where
  "libbase_ok lb \<longleftrightarrow>
     (\<forall>s p. StartsWith lb s p \<longleftrightarrow> (\<exists>r. s = p @ r))
     \<and> (\<forall>s p r. ConsumePrefix lb s p = Some r \<longleftrightarrow> s = p @ r)
     \<and> (\<forall>xs c. Join lb xs c = join_with c xs)
     \<and> (\<forall>s c. Split lb s c \<noteq> [] \<and> join_with c (Split lb s c) = s \<and> (\<forall>p\<in>set (Split lb s c). c \<notin> set p))"

lemma libbase_okD:
  assumes "libbase_ok lb"
  shows "StartsWith lb s p \<longleftrightarrow> (\<exists>r. s = p @ r)" "ConsumePrefix lb s p = Some r \<longleftrightarrow> s = p @ r"
    "Join lb xs c = join_with c xs" "Split lb s c \<noteq> []" "join_with c (Split lb s c) = s"
    "q \<in> set (Split lb s c) \<Longrightarrow> c \<notin> set q"
  using assms by (auto simp: libbase_ok_def)

text \<open>Pieces without the separator are determined by their join.\<close>

lemma split_on_nonempty [simp]: "split_on c s \<noteq> []"
  by (induction s) (auto split: list.split)

lemma split_on_append: "c \<notin> set p \<Longrightarrow> split_on c (p @ c # s) = p # split_on c s"
  by (induction p) auto

lemma split_on_single: "c \<notin> set p \<Longrightarrow> split_on c p = [p]"
  by (induction p) auto

lemma split_on_join:
  "xs \<noteq> [] \<Longrightarrow> \<forall>p\<in>set xs. c \<notin> set p \<Longrightarrow> split_on c (join_with c xs) = xs"
  by (induction c xs rule: join_with.induct) (auto simp: split_on_append split_on_single)

lemma join_split_on: "join_with c (split_on c s) = s"
proof (induction s)
  case (Cons x xs)
  obtain p ps where "split_on c xs = p # ps" by (cases "split_on c xs") auto
  with Cons show ?case by (cases ps) auto
qed simp

lemma split_on_pieces: "p \<in> set (split_on c s) \<Longrightarrow> c \<notin> set p"
  by (induction s arbitrary: p) (force split: list.splits if_splits)+

lemma Split_eq: "libbase_ok lb \<Longrightarrow> Split lb s c = split_on c s"
  using split_on_join [of "Split lb s c" c] libbase_okD(4,5,6) [of lb] by metis

lemma StartsWith_append [simp]: "libbase_ok lb \<Longrightarrow> StartsWith lb (p @ r) p"
  by (auto simp: libbase_okD)

lemma ConsumePrefix_append [simp]: "libbase_ok lb \<Longrightarrow> ConsumePrefix lb (p @ r) p = Some r"
  by (simp add: libbase_okD)

lemma ConsumePrefix_None: "libbase_ok lb \<Longrightarrow> ConsumePrefix lb s p = None \<longleftrightarrow> (\<nexists>r. s = p @ r)"
  using libbase_okD(2) [of lb s p] by (metis not_None_eq)

lemma ConsumePrefix_eq:
  assumes "libbase_ok lb"
  shows "ConsumePrefix lb s p = (if take (length p) s = p then Some (drop (length p) s) else None)"
proof (cases "take (length p) s = p")
  case True
  then have "s = p @ drop (length p) s" by (metis append_take_drop_id)
  with True libbase_okD(2) [OF assms] show ?thesis by simp
next
  case False
  then show ?thesis using ConsumePrefix_None [OF assms, of s p] by auto
qed

definition libbase_ref :: libbase where
  "libbase_ref = \<lparr>
     StartsWith = (\<lambda>s p. take (length p) s = p),
     ConsumePrefix = (\<lambda>s p. if take (length p) s = p then Some (drop (length p) s) else None),
     Split = (\<lambda>s c. split_on c s),
     Join = (\<lambda>xs c. join_with c xs),
     ParseNetAddress = (\<lambda>s port. Some (s, port))\<rparr>"

lemma libbase_ok_ref: "libbase_ok libbase_ref"
proof -
  have "take (length p) s = p \<longleftrightarrow> (\<exists>r. s = p @ r)" for s p :: string
    by (metis append_eq_conv_conj append_take_drop_id)
  then show ?thesis
    by (auto simp: libbase_ok_def libbase_ref_def join_split_on split_on_pieces)
qed

end
