(* ===== verification/Transport.thy ===== *)
theory Transport
  imports Host_Service Libbase "HOL-Library.AList" "HOL-Library.List_Lexorder" "HOL-Library.Char_ord"
begin

text \<open>
  \<open>class atransport\<close> of \<open>transport.h\<close> and the functions of \<open>transport.cpp\<close> and \<open>adb.cpp\<close> on it:
  features and the connection banner, version and payload negotiation, the choice of a device for a
  request, the listing of devices, the record of reverse forwards, keys, disconnect callbacks and the
  one-shot connection flag. The underlying \<open>Connection\<close> is seen through what is handed to its
  \<open>Write\<close> (\<open>t_outgoing\<close>) and whether it was stopped or reset.
\<close>

subsection \<open>State\<close>

datatype TransportType = kTransportUsb | kTransportLocal | kTransportAny | kTransportHost

record atransport =
  t_id :: nat
  t_online :: bool
  t_type :: TransportType
  t_name :: string
  t_product :: string
  t_model :: string
  t_device :: string
  t_devpath :: string
  t_use_tls :: bool
  t_tls_version :: int
  t_kicked :: bool
  t_stopped :: bool
  t_reset :: bool
  t_features :: "string list"
  t_protocol_version :: int
  t_max_payload :: nat
  t_disconnects :: "nat list"
  t_connection_state :: ConnectionState
  t_keys :: "nat option list"
  t_established_ready :: bool
  t_established :: bool
  t_delayed_ack :: bool
  t_reverse_forwards :: "(string \<times> string) list"
  t_token :: bytes
  t_failed_auth_attempts :: nat
  t_auth_key :: string
  t_auth_id :: "nat option"
  t_outgoing :: "apacket list"

text \<open>The constructor; the identifier is the next of a global counter.\<close>

definition new_atransport :: "nat \<Rightarrow> TransportType \<Rightarrow> ConnectionState \<Rightarrow> atransport" where
  "new_atransport next_id ty st =
     \<lparr>t_id = next_id, t_online = False, t_type = ty, t_name = [], t_product = [], t_model = [],
      t_device = [], t_devpath = [], t_use_tls = False, t_tls_version = sint A_STLS_VERSION,
      t_kicked = False, t_stopped = False, t_reset = False, t_features = [],
      t_protocol_version = sint A_VERSION_MIN, t_max_payload = MAX_PAYLOAD, t_disconnects = [],
      t_connection_state = st, t_keys = [], t_established_ready = False, t_established = False,
      t_delayed_ack = False, t_reverse_forwards = [], t_token = replicate 20 (CHR 0x00),
      t_failed_auth_attempts = 0, t_auth_key = [], t_auth_id = None, t_outgoing = []\<rparr>"

definition serial_name :: "atransport \<Rightarrow> string" where
  "serial_name t = (if t_name t \<noteq> [] then t_name t else ''<unknown>'')"

definition transport_Reset :: "atransport \<Rightarrow> atransport" where
  "transport_Reset t = (if t_kicked t then t else t\<lparr>t_kicked := True, t_reset := True\<rparr>)"

definition transport_Kick :: "atransport \<Rightarrow> atransport" where
  "transport_Kick t = (if t_kicked t then t else t\<lparr>t_kicked := True, t_stopped := True\<rparr>)"

definition SetConnectionState :: "ConnectionState \<Rightarrow> atransport \<Rightarrow> atransport" where
  "SetConnectionState s t = t\<lparr>t_connection_state := s\<rparr>"

text \<open>The version is an \<open>int\<close>: a value of the peer above \<open>0x7fffffff\<close> is negative.\<close>

definition update_version :: "u32 \<Rightarrow> u32 \<Rightarrow> atransport \<Rightarrow> atransport" where
  "update_version version maxdata t =
     t\<lparr>t_protocol_version := min (sint version) (sint A_VERSION), t_max_payload := min (unat maxdata) MAX_PAYLOAD\<rparr>"

subsection \<open>Sending\<close>

text \<open>
  \<open>send_packet\<close>: the header is stamped and the packet handed to the connection; \<open>write_ok\<close> is what
  its \<open>Write\<close> answers.
\<close>

definition send_packet :: "bool \<Rightarrow> apacket \<Rightarrow> atransport \<Rightarrow> atransport result" where
  "send_packet write_ok p t =
     rbind (stamp_header (t_protocol_version t) p) (\<lambda>q.
       let t' = t\<lparr>t_outgoing := t_outgoing t @ [q]\<rparr>
       in Inr (if write_ok then t' else transport_Kick t'))"

definition HandleRead :: "apacket \<Rightarrow> atransport \<Rightarrow> apacket option" where
  "HandleRead p t = (if \<not> check_header (t_max_payload t) p then None else Some p)"

subsection \<open>Features\<close>

definition kFeatureDelayedAck :: string where "kFeatureDelayedAck = ''delayed_ack''"

definition supported_features :: "bool \<Rightarrow> bool \<Rightarrow> string list" where
  "supported_features adb_host burst_mode_enabled =
     [''shell_v2'', ''cmd'', ''stat_v2'', ''ls_v2'', ''fixed_push_mkdir'', ''apex'', ''abb'',
      ''fixed_push_symlink_timestamp'', ''abb_exec'', ''remount_shell'', ''track_app'', ''sendrecv_v2'',
      ''sendrecv_v2_brotli'', ''sendrecv_v2_lz4'', ''sendrecv_v2_zstd'', ''sendrecv_v2_dry_run_send'',
      ''openscreen_mdns'', ''devicetracker_proto_format'', ''devraw'', ''app_info'', ''server_status'',
      ''track_mdns'']
     @ (if adb_host then (if burst_mode_enabled then [kFeatureDelayedAck] else []) else [kFeatureDelayedAck])"

definition FeatureSetToString :: "libbase \<Rightarrow> string list \<Rightarrow> string" where
  "FeatureSetToString lb features = Join lb features CHR '',''"

definition StringToFeatureSet :: "libbase \<Rightarrow> string \<Rightarrow> string list" where
  "StringToFeatureSet lb s = (if s = [] then [] else Split lb s CHR '','')"

definition CanUseFeature :: "string list \<Rightarrow> string list \<Rightarrow> string \<Rightarrow> bool" where
  "CanUseFeature supported feature_set feature \<longleftrightarrow> feature \<in> set feature_set \<and> feature \<in> set supported"

definition has_feature :: "atransport \<Rightarrow> string \<Rightarrow> bool" where
  "has_feature t feature \<longleftrightarrow> feature \<in> set (t_features t)"

definition SetFeatures :: "libbase \<Rightarrow> string list \<Rightarrow> string \<Rightarrow> atransport \<Rightarrow> atransport" where
  "SetFeatures lb supported s t =
     (let fs = StringToFeatureSet lb s
      in t\<lparr>t_features := fs, t_delayed_ack := CanUseFeature supported fs kFeatureDelayedAck\<rparr>)"

subsection \<open>The banner\<close>

text \<open>\<open>GetProperty\<close> is the system property store of the daemon; the host sends only its features.\<close>

definition get_connection_string ::
  "libbase \<Rightarrow> bool \<Rightarrow> (string \<Rightarrow> string) \<Rightarrow> string \<Rightarrow> string list \<Rightarrow> string" where
  "get_connection_string lb adb_host GetProperty adb_device_banner supported =
     (let props = (if adb_host then []
                   else map (\<lambda>p. p @ ''='' @ GetProperty p)
                          [''ro.product.name'', ''ro.product.model'', ''ro.product.device''])
      in adb_device_banner @ ''::'' @ Join lb (props @ [''features='' @ FeatureSetToString lb supported]) CHR '';'')"

definition banner_prop :: "libbase \<Rightarrow> string list \<Rightarrow> string \<Rightarrow> atransport \<Rightarrow> atransport" where
  "banner_prop lb supported prop t =
     (if prop = [] then t
      else case Split lb prop CHR ''='' of
             [key, value] \<Rightarrow>
               if key = ''ro.product.name'' then t\<lparr>t_product := value\<rparr>
               else if key = ''ro.product.model'' then t\<lparr>t_model := value\<rparr>
               else if key = ''ro.product.device'' then t\<lparr>t_device := value\<rparr>
               else if key = ''features'' then SetFeatures lb supported value t
               else t
           | _ \<Rightarrow> t)"

definition banner_state :: "string \<Rightarrow> ConnectionState" where
  "banner_state ty =
     (if ty = ''bootloader'' then kCsBootloader
      else if ty = ''device'' then kCsDevice
      else if ty = ''recovery'' then kCsRecovery
      else if ty = ''sideload'' then kCsSideload
      else if ty = ''rescue'' then kCsRescue
      else kCsHost)"

definition parse_banner :: "libbase \<Rightarrow> string list \<Rightarrow> string \<Rightarrow> atransport \<Rightarrow> atransport result" where
  "parse_banner lb supported banner t =
     (let pieces = Split lb banner CHR '':'';
          t1 = SetFeatures lb supported [] t;
          t2 = (if 2 < length pieces
                then fold (banner_prop lb supported) (Split lb (pieces ! 2) CHR '';'') t1 else t1)
      in rbind (vec_at pieces 0) (\<lambda>ty. Inr (SetConnectionState (banner_state ty) t2)))"

subsection \<open>Choosing a device\<close>

definition is_alnum :: "char \<Rightarrow> bool" where
  "is_alnum c \<longleftrightarrow> (let k = of_char c :: nat in (48 \<le> k \<and> k \<le> 57) \<or> (65 \<le> k \<and> k \<le> 90) \<or> (97 \<le> k \<and> k \<le> 122))"

text \<open>
  \<open>qual_match\<close> walks the target as a C string, whose last character is the NUL; a step past it is
  out of bounds.
\<close>

fun qual_match_prefix :: "string \<Rightarrow> string \<Rightarrow> string option result" where
  "qual_match_prefix [] ptr = Inr (Some ptr)"
| "qual_match_prefix (c # prefix) [] = Inl Out_of_range"
| "qual_match_prefix (c # prefix) (d # ptr) = (if c \<noteq> d then Inr None else qual_match_prefix prefix ptr)"

fun qual_match_chars :: "bool \<Rightarrow> string \<Rightarrow> string \<Rightarrow> bool result" where
  "qual_match_chars san [] [] = Inl Out_of_range"
| "qual_match_chars san [] (d # ptr) = Inr (d = CHR 0x00)"
| "qual_match_chars san (q # qs) [] = Inl Out_of_range"
| "qual_match_chars san (q # qs) (d # ptr) =
     (let ch = (if san \<and> \<not> is_alnum q then CHR ''_'' else q)
      in if ch \<noteq> d then Inr False else qual_match_chars san qs ptr)"

definition qual_match :: "string \<Rightarrow> string \<Rightarrow> string \<Rightarrow> bool \<Rightarrow> bool result" where
  "qual_match to_test prefix qual sanitize_qual =
     (if to_test = [] then Inr (qual = [])
      else if qual = [] then Inr False
      else rbind (qual_match_prefix prefix (to_test @ [CHR 0x00])) (\<lambda>o1.
             case o1 of None \<Rightarrow> Inr False | Some ptr \<Rightarrow> qual_match_chars sanitize_qual qual ptr))"

definition matches_local :: "libbase \<Rightarrow> string \<Rightarrow> string \<Rightarrow> bool" where
  "matches_local lb name target =
     (let ptr = (if StartsWith lb target ''tcp:'' \<or> StartsWith lb target ''udp:'' then drop 4 target else target)
      in case ParseNetAddress lb name (- 1) of
           None \<Rightarrow> False
         | Some (serial_host, serial_port) \<Rightarrow>
             (case ParseNetAddress lb (c_str ptr) serial_port of
                None \<Rightarrow> False
              | Some (target_host, target_port) \<Rightarrow> serial_host = target_host \<and> serial_port = target_port))"

definition MatchesTarget :: "libbase \<Rightarrow> atransport \<Rightarrow> string \<Rightarrow> bool result" where
  "MatchesTarget lb t target =
     (if t_name t \<noteq> [] \<and> (target = t_name t \<or> (t_type t = kTransportLocal \<and> matches_local lb (t_name t) target))
      then Inr True
      else if target = t_devpath t then Inr True
      else rbind (qual_match target ''product:'' (t_product t) False) (\<lambda>b1. if b1 then Inr True else
           rbind (qual_match target ''model:'' (t_model t) True) (\<lambda>b2. if b2 then Inr True else
           qual_match target ''device:'' (t_device t) False)))"

text \<open>
  \<open>acquire_one_transport\<close>: the request is an identifier (0 for none), a name or a type. The loop
  keeps the result so far; \<open>acq_done\<close> is its \<open>break\<close>.
\<close>

record acquire_state =
  acq_result :: "atransport option"
  acq_ambiguous :: bool
  acq_error :: string
  acq_done :: bool

definition acquire_error0 :: "TransportType \<Rightarrow> string option \<Rightarrow> nat \<Rightarrow> string" where
  "acquire_error0 ty name tid =
     (if tid \<noteq> 0 then ''no device with transport id '' @ [CHR 0x27] @ decimal tid @ [CHR 0x27]
      else case name of
             Some n \<Rightarrow> ''device '' @ [CHR 0x27] @ c_str n @ [CHR 0x27] @ '' not found''
           | None \<Rightarrow>
               if ty = kTransportLocal then ''no emulators found''
               else if ty = kTransportAny then ''no devices/emulators found''
               else ''no devices found'')"

definition acquire_found :: "string \<Rightarrow> atransport \<Rightarrow> acquire_state \<Rightarrow> acquire_state" where
  "acquire_found ambiguous_msg t a =
     (if acq_result a \<noteq> None
      then a\<lparr>acq_result := None, acq_ambiguous := True, acq_error := ambiguous_msg, acq_done := True\<rparr>
      else a\<lparr>acq_result := Some t\<rparr>)"

definition acquire_visit ::
  "libbase \<Rightarrow> string \<Rightarrow> TransportType \<Rightarrow> string option \<Rightarrow> nat \<Rightarrow> atransport \<Rightarrow> acquire_state \<Rightarrow> acquire_state result" where
  "acquire_visit lb no_perm ty name tid t a =
     (if t_connection_state t = kCsNoPerm then Inr (a\<lparr>acq_error := no_perm\<rparr>)
      else if tid \<noteq> 0
      then Inr (if t_id t = tid then a\<lparr>acq_result := Some t, acq_done := True\<rparr> else a)
      else case name of
             Some n \<Rightarrow>
               rbind (MatchesTarget lb t n) (\<lambda>b.
                 Inr (if b then acquire_found (''more than one device with serial '' @ n) t a else a))
           | None \<Rightarrow>
               Inr (if ty = kTransportUsb \<and> t_type t = kTransportUsb
                    then acquire_found ''more than one USB device'' t a
                    else if ty = kTransportLocal \<and> t_type t = kTransportLocal
                    then acquire_found ''more than one emulator'' t a
                    else if ty = kTransportAny
                    then acquire_found ''more than one device/emulator'' t a
                    else a))"

fun acquire_loop ::
  "libbase \<Rightarrow> string \<Rightarrow> TransportType \<Rightarrow> string option \<Rightarrow> nat \<Rightarrow> atransport list \<Rightarrow> acquire_state \<Rightarrow> acquire_state result" where
  "acquire_loop lb no_perm ty name tid [] a = Inr a"
| "acquire_loop lb no_perm ty name tid (t # ts) a =
     rbind (acquire_visit lb no_perm ty name tid t a) (\<lambda>a'.
       if acq_done a' then Inr a' else acquire_loop lb no_perm ty name tid ts a')"

text \<open>The states in which a device is known but not connected, and what the caller is told.\<close>

fun acquire_state_error :: "string option \<Rightarrow> ConnectionState \<Rightarrow> string option" where
  "acquire_state_error vendor_keys kCsConnecting = Some ''device still connecting''"
| "acquire_state_error vendor_keys kCsAuthorizing = Some ''device still authorizing''"
| "acquire_state_error vendor_keys kCsUnauthorized =
     Some (''device unauthorized.'' @ [CHR 0x0A] @ ''This adb server's $ADB_VENDOR_KEYS is ''
       @ (case vendor_keys of Some k \<Rightarrow> k | None \<Rightarrow> ''not set'') @ [CHR 0x0A]
       @ ''Try 'adb kill-server' if that seems wrong.'' @ [CHR 0x0A]
       @ ''Otherwise check for a confirmation dialog on your device.'')"
| "acquire_state_error vendor_keys kCsOffline = Some ''device offline''"
| "acquire_state_error vendor_keys _ = None"

text \<open>\<open>no_perm\<close> is the help text of the USB library, \<open>vendor_keys\<close> the environment variable.\<close>

definition acquire_one_transport ::
  "libbase \<Rightarrow> string \<Rightarrow> string option \<Rightarrow> atransport list \<Rightarrow> TransportType \<Rightarrow> string option \<Rightarrow> nat \<Rightarrow> bool
     \<Rightarrow> (atransport option \<times> bool \<times> string) result" where
  "acquire_one_transport lb no_perm vendor_keys transport_list ty name tid accept_any_state =
     rbind (acquire_loop lb no_perm ty name tid transport_list
              \<lparr>acq_result = None, acq_ambiguous = False, acq_error = acquire_error0 ty name tid, acq_done = False\<rparr>)
       (\<lambda>a. case acq_result a of
              None \<Rightarrow> Inr (None, acq_ambiguous a, acq_error a)
            | Some t \<Rightarrow>
                (case (if accept_any_state then None else acquire_state_error vendor_keys (t_connection_state t)) of
                   Some err \<Rightarrow> Inr (None, acq_ambiguous a, err)
                 | None \<Rightarrow> Inr (Some t, acq_ambiguous a, ''success'')))"

text \<open>The \<open>--one-device\<close> restriction.\<close>

definition transport_server_owns_device :: "string option \<Rightarrow> string \<Rightarrow> bool" where
  "transport_server_owns_device one_device serial =
     (case one_device of None \<Rightarrow> True | Some d \<Rightarrow> serial = c_str d)"

definition transport_server_owns_device2 :: "string option \<Rightarrow> string \<Rightarrow> string \<Rightarrow> bool" where
  "transport_server_owns_device2 one_device dev_path serial =
     (case one_device of None \<Rightarrow> True | Some d \<Rightarrow> serial = c_str d \<or> dev_path = c_str d)"

subsection \<open>Listing devices\<close>

definition sanitize :: "bool \<Rightarrow> string \<Rightarrow> string" where
  "sanitize alphanumeric s =
     map (\<lambda>c. if (if alphanumeric then \<not> is_alnum c else c = CHR 0x0A) then CHR ''_'' else c) s"

definition append_transport_info :: "string \<Rightarrow> string \<Rightarrow> bool \<Rightarrow> string" where
  "append_transport_info key val alphanumeric =
     (if val = [] then [] else '' '' @ key @ sanitize alphanumeric val)"

definition append_transport :: "string \<Rightarrow> bool \<Rightarrow> atransport \<Rightarrow> string" where
  "append_transport no_perm long_listing t =
     (let serial = (if t_name t = [] then ''(no serial number)'' else t_name t);
          state = ConnectionState_to_string no_perm (t_connection_state t)
      in (if \<not> long_listing then serial @ [CHR 0x09] @ state
          else (let s = c_str serial in s @ replicate (22 - length s) CHR '' '') @ '' '' @ c_str state
            @ append_transport_info [] (t_devpath t) False
            @ append_transport_info ''product:'' (t_product t) False
            @ append_transport_info ''model:'' (t_model t) True
            @ append_transport_info ''device:'' (t_device t) False
            @ '' transport_id:'' @ decimal (t_id t)) @ [CHR 0x0A])"

fun type_rank :: "TransportType \<Rightarrow> nat" where
  "type_rank kTransportUsb = 0"
| "type_rank kTransportLocal = 1"
| "type_rank kTransportAny = 2"
| "type_rank kTransportHost = 3"

text \<open>\<open>std::list::sort\<close> is stable: by type, then by name within a type.\<close>

definition sorted_transports :: "atransport list \<Rightarrow> atransport list" where
  "sorted_transports ts = sort_key (\<lambda>t. type_rank (t_type t)) (sort_key t_name ts)"

definition list_transports_text :: "string \<Rightarrow> bool \<Rightarrow> atransport list \<Rightarrow> string" where
  "list_transports_text no_perm long_listing ts =
     concat (map (append_transport no_perm long_listing) (sorted_transports ts))"

subsection \<open>Reverse forwards\<close>

definition find_semicolon :: "string \<Rightarrow> nat option" where
  "find_semicolon s = find_char CHR '';'' s"

definition UpdateReverseConfig :: "libbase \<Rightarrow> string \<Rightarrow> atransport \<Rightarrow> atransport result" where
  "UpdateReverseConfig lb service t =
     (case ConsumePrefix lb service ''reverse:'' of
        None \<Rightarrow> Inr t
      | Some addr \<Rightarrow>
          (case ConsumePrefix lb addr ''forward:'' of
             Some fwd \<Rightarrow>
               let norebind = (ConsumePrefix lb fwd ''norebind:'' \<noteq> None);
                   spec = (case ConsumePrefix lb fwd ''norebind:'' of None \<Rightarrow> fwd | Some r \<Rightarrow> r)
               in (case find_semicolon spec of
                     None \<Rightarrow> Inr t
                   | Some k \<Rightarrow>
                       let remote = take k spec; local_addr = drop (k + 1) spec
                       in if norebind \<and> map_of (t_reverse_forwards t) remote \<noteq> None then Inr t
                          else Inr (t\<lparr>t_reverse_forwards := AList.update remote local_addr (t_reverse_forwards t)\<rparr>))
           | None \<Rightarrow>
               (case ConsumePrefix lb addr ''killforward:'' of
                  Some remote \<Rightarrow>
                    if find_semicolon remote \<noteq> None then Inr t
                    else Inr (t\<lparr>t_reverse_forwards := AList.delete remote (t_reverse_forwards t)\<rparr>)
                | None \<Rightarrow>
                    if addr = ''killforward-all'' then Inr (t\<lparr>t_reverse_forwards := []\<rparr>)
                    else if addr = ''list-forward'' then Inr t
                    else Inl Fatal)))"

definition IsReverseConfigured :: "string \<Rightarrow> atransport \<Rightarrow> bool" where
  "IsReverseConfigured local_addr t \<longleftrightarrow> list_ex (\<lambda>(remote, l). l = local_addr) (t_reverse_forwards t)"

subsection \<open>Keys, callbacks, the connection flag\<close>

text \<open>Keys are opaque, and the null pointer is \<open>None\<close>; \<open>fetched\<close> is the answer of
  \<open>adb_auth_get_private_keys\<close>, whose last element is null.\<close>

definition transport_Key :: "atransport \<Rightarrow> nat option" where
  "transport_Key t = (case t_keys t of [] \<Rightarrow> None | k # _ \<Rightarrow> k)"

definition transport_NextKey :: "nat option list \<Rightarrow> atransport \<Rightarrow> (nat option \<times> atransport) result" where
  "transport_NextKey fetched t =
     (if t_keys t = []
      then rcheck (fetched \<noteq> []) (let t' = t\<lparr>t_keys := fetched\<rparr> in Inr (transport_Key t', t'))
      else let t' = t\<lparr>t_keys := tl (t_keys t)\<rparr> in Inr (transport_Key t', t'))"

definition transport_ResetKeys :: "atransport \<Rightarrow> atransport" where
  "transport_ResetKeys t = t\<lparr>t_keys := []\<rparr>"

definition AddDisconnect :: "nat \<Rightarrow> atransport \<Rightarrow> atransport" where
  "AddDisconnect d t = t\<lparr>t_disconnects := t_disconnects t @ [d]\<rparr>"

definition RemoveDisconnect :: "nat \<Rightarrow> atransport \<Rightarrow> atransport" where
  "RemoveDisconnect d t = t\<lparr>t_disconnects := removeAll d (t_disconnects t)\<rparr>"

text \<open>The callbacks run in order, and none is left.\<close>

definition RunDisconnects :: "atransport \<Rightarrow> nat list \<times> atransport" where
  "RunDisconnects t = (t_disconnects t, t\<lparr>t_disconnects := []\<rparr>)"

definition SetConnectionEstablished :: "bool \<Rightarrow> atransport \<Rightarrow> atransport" where
  "SetConnectionEstablished success t =
     (if t_established_ready t then t else t\<lparr>t_established_ready := True, t_established := success\<rparr>)"

text \<open>\<open>WaitForConnection\<close>: what it answers once woken or timed out.\<close>

definition WaitForConnection :: "atransport \<Rightarrow> bool" where
  "WaitForConnection t \<longleftrightarrow> t_established_ready t \<and> t_established t"

subsection \<open>Features and banner: what is sent is what is understood\<close>

definition plain :: "string \<Rightarrow> string \<Rightarrow> bool" where
  "plain bad s \<longleftrightarrow> (\<forall>c\<in>set bad. c \<notin> set s)"

lemma join_with_empty: "join_with c xs = [] \<longleftrightarrow> xs = [] \<or> xs = [[]]"
  by (induction c xs rule: join_with.induct) auto

lemma in_set_join_with: "x \<in> set (join_with c xs) \<Longrightarrow> x = c \<or> (\<exists>p\<in>set xs. x \<in> set p)"
  by (induction c xs rule: join_with.induct) auto

lemma StringToFeatureSet_join:
  assumes "libbase_ok lb" "\<forall>f\<in>set fs. f \<noteq> [] \<and> CHR '','' \<notin> set f"
  shows "StringToFeatureSet lb (join_with CHR '','' fs) = fs"
  using assms by (auto simp: StringToFeatureSet_def join_with_empty Split_eq split_on_join)

text \<open>
  The feature list survives the banner's encoding: every list of non-empty names without a
  comma is read back by \<open>StringToFeatureSet\<close> from what \<open>FeatureSetToString\<close> writes.
\<close>

theorem features_roundtrip:
  assumes "libbase_ok lb" "\<forall>f\<in>set fs. f \<noteq> [] \<and> CHR '','' \<notin> set f"
  shows "StringToFeatureSet lb (FeatureSetToString lb fs) = fs"
  using assms StringToFeatureSet_join [OF assms] by (simp add: FeatureSetToString_def libbase_okD)

theorem features_roundtrip_witness:
  "StringToFeatureSet libbase_ref (FeatureSetToString libbase_ref (supported_features False False))
     = supported_features False False"
  by (rule features_roundtrip [OF libbase_ok_ref]) (simp add: supported_features_def kFeatureDelayedAck_def)

lemma banner_prop_value:
  assumes "libbase_ok lb" "plain ''='' key" "plain ''='' val" "key \<noteq> []"
  shows "banner_prop lb supp (key @ ''='' @ val) t =
     (if key = ''ro.product.name'' then t\<lparr>t_product := val\<rparr>
      else if key = ''ro.product.model'' then t\<lparr>t_model := val\<rparr>
      else if key = ''ro.product.device'' then t\<lparr>t_device := val\<rparr>
      else if key = ''features'' then SetFeatures lb supp val t else t)"
  using assms by (simp add: banner_prop_def Split_eq plain_def split_on_append split_on_single)

lemma parse_banner_pieces:
  assumes lb: "libbase_ok lb" and ty: "CHR '':'' \<notin> set ty"
    and props: "ps \<noteq> []" "\<forall>p\<in>set ps. CHR '';'' \<notin> set p \<and> CHR '':'' \<notin> set p"
  shows "parse_banner lb supp (ty @ ''::'' @ join_with CHR '';'' ps) t =
     Inr (SetConnectionState (banner_state ty) (fold (banner_prop lb supp) ps (SetFeatures lb supp [] t)))"
proof -
  let ?j = "join_with CHR '';'' ps"
  have "CHR '':'' \<notin> set ?j" using props(2) in_set_join_with [of "CHR '':''" "CHR '';''" ps] by auto
  then have "split_on CHR '':'' (ty @ ''::'' @ ?j) = [ty, [], ?j]"
    using split_on_append [OF ty, of "CHR '':'' # ?j"] by (simp add: split_on_single)
  moreover have "split_on CHR '';'' ?j = ps" using props by (simp add: split_on_join)
  ultimately show ?thesis by (simp add: parse_banner_def Let_def Split_eq [OF lb] numeral_2_eq_2)
qed

text \<open>
  C31: what the daemon puts into its banner is what the host records. For properties and features
  without the banner's separators, \<open>parse_banner\<close> of \<open>get_connection_string\<close> sets the product, model
  and device names, the feature list, and the connection state the banner's type names; delayed
  acknowledgements are on exactly when both sides have the feature.
\<close>

theorem banner_roundtrip:
  assumes "libbase_ok lb" "CHR '':'' \<notin> set ty" "\<And>p. plain '':;='' (props p)"
    and "\<forall>f\<in>set fs. f \<noteq> [] \<and> plain '':;=,'' f"
  shows "\<exists>t'. parse_banner lb supp (get_connection_string lb False props ty fs) t = Inr t'
     \<and> t_product t' = props ''ro.product.name'' \<and> t_model t' = props ''ro.product.model''
     \<and> t_device t' = props ''ro.product.device'' \<and> t_features t' = fs
     \<and> t_connection_state t' = banner_state ty
     \<and> t_delayed_ack t' = (kFeatureDelayedAck \<in> set fs \<and> kFeatureDelayedAck \<in> set supp)"
proof -
  let ?kv = "\<lambda>p. p @ ''='' @ props p" and ?f = "join_with CHR '','' fs"
  let ?ps = "[?kv ''ro.product.name'', ?kv ''ro.product.model'', ?kv ''ro.product.device'', ''features='' @ ?f]"
  have vals: "c \<notin> set (props p)" if "c \<in> set '':;=''" for c p using assms(3) [of p] that by (auto simp: plain_def)
  have fset: "c \<notin> set ?f" if "c \<in> set '':;=''" for c
    using assms(4) that in_set_join_with [of c "CHR '',''" fs] by (auto simp: plain_def)
  have feats: "StringToFeatureSet lb ?f = fs"
    using StringToFeatureSet_join [OF assms(1)] assms(4) by (simp add: plain_def)
  have "get_connection_string lb False props ty fs = ty @ ''::'' @ join_with CHR '';'' ?ps"
    by (simp add: get_connection_string_def FeatureSetToString_def libbase_okD [OF assms(1)])
  moreover have "\<forall>p\<in>set ?ps. CHR '';'' \<notin> set p \<and> CHR '':'' \<notin> set p" using vals fset by simp
  moreover have "banner_prop lb supp (''features='' @ ?f) t' = SetFeatures lb supp ?f t'" for t'
    using banner_prop_value [OF assms(1), of "''features''" ?f] fset by (simp add: plain_def)
  moreover have "plain ''='' (props p)" for p using vals by (simp add: plain_def)
  ultimately show ?thesis
    using parse_banner_pieces [OF assms(1,2), of ?ps]
      banner_prop_value [OF assms(1), of "''ro.product.name''" "props ''ro.product.name''"]
      banner_prop_value [OF assms(1), of "''ro.product.model''" "props ''ro.product.model''"]
      banner_prop_value [OF assms(1), of "''ro.product.device''" "props ''ro.product.device''"]
    by (simp add: plain_def SetFeatures_def Let_def feats SetConnectionState_def CanUseFeature_def)
qed

theorem banner_roundtrip_witness:
  "\<exists>t'. parse_banner libbase_ref (supported_features True True)
        (get_connection_string libbase_ref False (\<lambda>p. ''x'') ''device'' (supported_features False False))
        (new_atransport 1 kTransportUsb kCsConnecting) = Inr t'
     \<and> t_product t' = ''x'' \<and> t_features t' = supported_features False False
     \<and> t_connection_state t' = kCsDevice \<and> t_delayed_ack t'"
proof -
  have "\<forall>f\<in>set (supported_features False False). f \<noteq> [] \<and> plain '':;=,'' f"
    by (simp add: supported_features_def kFeatureDelayedAck_def plain_def)
  then show ?thesis
    using banner_roundtrip [OF libbase_ok_ref, of "''device''" "\<lambda>p. ''x''" "supported_features False False"
      "supported_features True True" "new_atransport 1 kTransportUsb kCsConnecting"]
    by (auto simp: plain_def banner_state_def supported_features_def)
qed

subsection \<open>Choosing a device: exactly the one that matches\<close>

definition sanitized :: "bool \<Rightarrow> string \<Rightarrow> string" where
  "sanitized san q = map (\<lambda>c. if san \<and> \<not> is_alnum c then CHR ''_'' else c) q"

lemma qual_match_prefix_eq:
  "CHR 0x00 \<notin> set prefix \<Longrightarrow> qual_match_prefix prefix (s @ [CHR 0x00]) =
     Inr (if starts_with s prefix then Some (drop (length prefix) s @ [CHR 0x00]) else None)"
proof (induction prefix arbitrary: s)
  case Nil
  then show ?case by (simp add: starts_with_def)
next
  case (Cons c prefix)
  then show ?case by (cases s) (auto simp: starts_with_def)
qed

lemma qual_match_chars_eq:
  "CHR 0x00 \<notin> set q \<Longrightarrow> CHR 0x00 \<notin> set s \<Longrightarrow>
     qual_match_chars san q (s @ [CHR 0x00]) = Inr (s = sanitized san q)"
proof (induction q arbitrary: s)
  case Nil
  then show ?case by (cases s) (auto simp: sanitized_def)
next
  case (Cons c q)
  then show ?case by (cases s) (auto simp: sanitized_def Let_def)
qed

lemma qual_match_eq:
  assumes "CHR 0x00 \<notin> set prefix" "CHR 0x00 \<notin> set q" "CHR 0x00 \<notin> set s" "s \<noteq> []"
  shows "qual_match s prefix q san = Inr (q \<noteq> [] \<and> s = prefix @ sanitized san q)"
proof (cases "starts_with s prefix")
  case True
  then obtain r where "s = prefix @ r" by (auto simp: starts_with_append)
  moreover have "qual_match_prefix prefix (prefix @ r @ [CHR 0x00]) = Inr (Some (r @ [CHR 0x00]))"
    using qual_match_prefix_eq [OF assms(1), of "prefix @ r"] by (simp add: starts_with_def)
  ultimately show ?thesis using assms by (auto simp: qual_match_def qual_match_chars_eq)
next
  case False
  then show ?thesis using assms by (auto simp: qual_match_def qual_match_prefix_eq starts_with_append)
qed

definition no_nul :: "atransport \<Rightarrow> bool" where
  "no_nul t \<longleftrightarrow> CHR 0x00 \<notin> set (t_product t) \<and> CHR 0x00 \<notin> set (t_model t) \<and> CHR 0x00 \<notin> set (t_device t)"

text \<open>What a target names: a serial, a network address, a bus path, or one of the three properties.\<close>

definition target_names :: "libbase \<Rightarrow> atransport \<Rightarrow> string \<Rightarrow> bool" where
  "target_names lb t target \<longleftrightarrow>
     (t_name t \<noteq> [] \<and> (target = t_name t \<or> t_type t = kTransportLocal \<and> matches_local lb (t_name t) target))
     \<or> target = t_devpath t
     \<or> t_product t \<noteq> [] \<and> target = ''product:'' @ t_product t
     \<or> t_model t \<noteq> [] \<and> target = ''model:'' @ sanitized True (t_model t)
     \<or> t_device t \<noteq> [] \<and> target = ''device:'' @ t_device t"

lemma sanitized_False [simp]: "sanitized False q = q"
  by (simp add: sanitized_def)

lemma MatchesTarget_eq:
  assumes "no_nul t" "CHR 0x00 \<notin> set target" "target \<noteq> []"
  shows "MatchesTarget lb t target = Inr (target_names lb t target)"
  using assms by (auto simp: MatchesTarget_def target_names_def no_nul_def qual_match_eq)

text \<open>The devices a request may mean; those without permission are skipped.\<close>

definition candidates :: "libbase \<Rightarrow> TransportType \<Rightarrow> string option \<Rightarrow> atransport list \<Rightarrow> atransport list" where
  "candidates lb ty name ts = filter (\<lambda>t. t_connection_state t \<noteq> kCsNoPerm \<and>
     (case name of Some n \<Rightarrow> target_names lb t n | None \<Rightarrow> ty = kTransportAny \<or> ty = t_type t \<and> ty \<noteq> kTransportHost)) ts"

definition nul_free :: "string option \<Rightarrow> atransport list \<Rightarrow> bool" where
  "nul_free name ts \<longleftrightarrow> (\<forall>t\<in>set ts. no_nul t) \<and> (case name of Some n \<Rightarrow> CHR 0x00 \<notin> set n \<and> n \<noteq> [] | None \<Rightarrow> True)"

lemma acquire_visit_eq:
  assumes "nul_free name [t]"
  shows "\<exists>a'. acquire_visit lb no_perm ty name 0 t a = Inr a' \<and>
     (if candidates lb ty name [t] = [] then a' = a\<lparr>acq_error := acq_error a'\<rparr>
      else if acq_result a = None then a' = a\<lparr>acq_result := Some t\<rparr>
      else acq_result a' = None \<and> acq_ambiguous a' \<and> acq_done a')"
  using assms
  by (cases name; cases ty)
    (auto simp: acquire_visit_def candidates_def MatchesTarget_eq nul_free_def acquire_found_def)

lemma acquire_loop_eq:
  assumes "nul_free name ts" "\<not> acq_done a" "\<not> acq_ambiguous a"
  shows "\<exists>a'. acquire_loop lb no_perm ty name 0 ts a = Inr a' \<and>
     (case (case acq_result a of None \<Rightarrow> [] | Some t \<Rightarrow> [t]) @ candidates lb ty name ts of
        [] \<Rightarrow> acq_result a' = None \<and> \<not> acq_ambiguous a'
      | [t] \<Rightarrow> acq_result a' = Some t \<and> \<not> acq_ambiguous a'
      | _ \<Rightarrow> acq_result a' = None \<and> acq_ambiguous a')"
  using assms
proof (induction ts arbitrary: a)
  case Nil
  then show ?case by (auto simp: candidates_def split: option.split)
next
  case (Cons t ts)
  have nf: "nul_free name [t]" "nul_free name ts" using Cons.prems(1) by (auto simp: nul_free_def)
  have cand: "candidates lb ty name (t # ts) = candidates lb ty name [t] @ candidates lb ty name ts"
    by (simp add: candidates_def)
  obtain a1 where v: "acquire_visit lb no_perm ty name 0 t a = Inr a1"
    and cases: "if candidates lb ty name [t] = [] then a1 = a\<lparr>acq_error := acq_error a1\<rparr>
      else if acq_result a = None then a1 = a\<lparr>acq_result := Some t\<rparr>
      else acq_result a1 = None \<and> acq_ambiguous a1 \<and> acq_done a1"
    using acquire_visit_eq [OF nf(1)] by blast
  have "candidates lb ty name [t] = [] \<or> candidates lb ty name [t] = [t]" by (simp add: candidates_def)
  then consider (skip) "candidates lb ty name [t] = []" | (first) "candidates lb ty name [t] = [t]" "acq_result a = None"
    | (second) u where "candidates lb ty name [t] = [t]" "acq_result a = Some u"
    by (cases "acq_result a") blast+
  then show ?case
  proof cases
    case skip
    with cases have "acq_result a1 = acq_result a" "\<not> acq_done a1" "\<not> acq_ambiguous a1"
      using Cons.prems(2,3) by (cases a; simp; metis acquire_state.select_convs acquire_state.update_convs)+
    with Cons.IH [OF nf(2), of a1] v skip show ?thesis by (simp add: cand)
  next
    case first
    with cases have "a1 = a\<lparr>acq_result := Some t\<rparr>" by simp
    with Cons.IH [OF nf(2), of a1] Cons.prems(2,3) v first show ?thesis by (simp add: cand)
  next
    case second
    with cases v show ?thesis by (auto simp: cand)
  qed
qed

text \<open>
  C32: a request by name or type gets the one device it can mean. Among the devices with permission
  that match, \<open>acquire_one_transport\<close> returns the only one, if it is in a connected state or any
  state will do, and nothing when there is none or more than one; ambiguity is reported exactly when
  at least two match.
\<close>

theorem acquire_one_transport_unique:
  assumes "nul_free name ts"
  shows "\<exists>err. acquire_one_transport lb no_perm vendor_keys ts ty name 0 accept_any =
     Inr (case candidates lb ty name ts of
            [t] \<Rightarrow> if accept_any \<or> acquire_state_error vendor_keys (t_connection_state t) = None then Some t else None
          | _ \<Rightarrow> None,
          2 \<le> length (candidates lb ty name ts), err)"
proof -
  let ?a = "\<lparr>acq_result = None, acq_ambiguous = False, acq_error = acquire_error0 ty name 0, acq_done = False\<rparr>"
  obtain a' where "acquire_loop lb no_perm ty name 0 ts ?a = Inr a'"
    "case candidates lb ty name ts of
        [] \<Rightarrow> acq_result a' = None \<and> \<not> acq_ambiguous a'
      | [t] \<Rightarrow> acq_result a' = Some t \<and> \<not> acq_ambiguous a'
      | _ \<Rightarrow> acq_result a' = None \<and> acq_ambiguous a'"
    using acquire_loop_eq [OF assms, of ?a lb no_perm ty] by auto
  then show ?thesis
    by (auto simp: acquire_one_transport_def split: list.splits option.splits)
qed

theorem acquire_one_transport_unique_witness:
  "\<exists>err. acquire_one_transport libbase_ref [] None
       [new_atransport 1 kTransportUsb kCsDevice, new_atransport 2 kTransportLocal kCsDevice]
       kTransportLocal None 0 False
     = Inr (Some (new_atransport 2 kTransportLocal kCsDevice), False, err)"
  using acquire_one_transport_unique [of None "[new_atransport 1 kTransportUsb kCsDevice, new_atransport 2 kTransportLocal kCsDevice]"
      libbase_ref "[]" None kTransportLocal False]
  by (simp add: nul_free_def no_nul_def candidates_def new_atransport_def)

subsection \<open>Listing: one line per device\<close>

definition newlines :: "string \<Rightarrow> nat" where
  "newlines s = count_list s CHR 0x0A"

lemma newlines_append [simp]: "newlines (a @ b) = newlines a + newlines b"
  by (simp add: newlines_def)

lemma newlines_Cons: "newlines (c # s) = (if c = CHR 0x0A then Suc (newlines s) else newlines s)"
  by (simp add: newlines_def)

lemma newlines_Nil [simp]: "newlines [] = 0"
  by (simp add: newlines_def)

lemma newlines_sanitize [simp]: "newlines (sanitize b s) = 0"
  by (induction s) (auto simp: sanitize_def newlines_Cons is_alnum_def)

lemma newlines_info [simp]: "newlines key = 0 \<Longrightarrow> newlines (append_transport_info key val b) = 0"
  by (simp add: append_transport_info_def newlines_Cons)

lemma newlines_digits [simp]: "newlines (digits 10 n) = 0"
proof -
  have "CHR 0x0A \<notin> set (digits 10 n)" using digits_are_digits [of 10 "CHR 0x0A" n] by (auto simp: digit_value_def)
  then show ?thesis by (simp add: newlines_def count_list_0_iff)
qed

lemma newlines_replicate [simp]: "c \<noteq> CHR 0x0A \<Longrightarrow> newlines (replicate n c) = 0"
  by (induction n) (simp_all add: newlines_Cons)

lemma newlines_state: "newlines no_perm = 0 \<Longrightarrow> newlines (ConnectionState_to_string no_perm s) = 0"
  by (cases s) (simp_all add: newlines_Cons)

lemma newlines_c_str: "newlines s = 0 \<Longrightarrow> newlines (c_str s) = 0"
  by (auto simp: newlines_def count_list_0_iff c_str_def dest: set_takeWhileD)

lemma c_str_no_nul: "CHR 0x00 \<notin> set s \<Longrightarrow> c_str s = s"
  by (auto simp: c_str_def takeWhile_eq_all_conv)

text \<open>
  A listing has one line per device plus one for every newline in a serial name. The properties
  a device reports are sanitised and cannot add lines, whatever they hold; the serial name is not.
\<close>

theorem listing_lines:
  assumes "newlines no_perm = 0" "\<forall>t\<in>set ts. CHR 0x00 \<notin> set (t_name t)"
  shows "newlines (list_transports_text no_perm long ts) = length ts + (\<Sum>t\<leftarrow>sorted_transports ts. newlines (t_name t))"
proof -
  have one: "newlines (append_transport no_perm long t) = Suc (newlines (t_name t))" if "t \<in> set ts" for t
    using that assms newlines_state [OF assms(1)] newlines_c_str [OF newlines_state [OF assms(1)]]
    by (simp add: append_transport_def Let_def newlines_Cons decimal_def c_str_no_nul)
  have "newlines (concat (map (append_transport no_perm long) us)) = length us + (\<Sum>t\<leftarrow>us. newlines (t_name t))"
    if "set us \<subseteq> set ts" for us using that by (induction us) (simp_all add: one)
  from this [of "sorted_transports ts"] show ?thesis
    by (simp add: list_transports_text_def sorted_transports_def)
qed

theorem listing_lines_witness:
  "newlines (list_transports_text [] True [(new_atransport 1 kTransportUsb kCsDevice)\<lparr>t_name := ''a'' @ [CHR 0x0A] @ ''b'',
       t_model := [CHR 0x0A]\<rparr>]) = 2"
  using listing_lines [of "[]" "[(new_atransport 1 kTransportUsb kCsDevice)\<lparr>t_name := ''a'' @ [CHR 0x0A] @ ''b'',
       t_model := [CHR 0x0A]\<rparr>]" True]
  by (simp add: sorted_transports_def newlines_Cons new_atransport_def)

subsection \<open>Reverse forwards\<close>

text \<open>
  C33: the record of reverse forwards follows the requests that set them up. A \<open>reverse:forward:\<close>
  request without \<open>norebind:\<close> makes its local address an allowed one and maps its remote address to
  it, \<open>killforward:\<close> takes exactly that remote address away and \<open>killforward-all\<close> every one.
\<close>

theorem reverse_config_tracks:
  assumes lb: "libbase_ok lb" and r: "CHR '';'' \<notin> set remote"
    and nb: "\<not> starts_with remote ''norebind:''"
  shows "\<exists>t1 t2 t3. UpdateReverseConfig lb (''reverse:forward:'' @ remote @ '';'' @ loc) t = Inr t1
     \<and> map_of (t_reverse_forwards t1) = (map_of (t_reverse_forwards t))(remote \<mapsto> loc)
     \<and> IsReverseConfigured loc t1
     \<and> UpdateReverseConfig lb (''reverse:killforward:'' @ remote) t1 = Inr t2
     \<and> map_of (t_reverse_forwards t2) = (map_of (t_reverse_forwards t))(remote := None)
     \<and> UpdateReverseConfig lb ''reverse:killforward-all'' t1 = Inr t3 \<and> t_reverse_forwards t3 = []"
proof -
  have "take 9 (remote @ CHR '';'' # loc) \<noteq> ''norebind:''"
  proof
    assume eq: "take 9 (remote @ CHR '';'' # loc) = ''norebind:''"
    show False
    proof (cases "9 \<le> length remote")
      case True
      with eq nb show False by (simp add: starts_with_def numeral_eq_Suc)
    next
      case False
      then have "CHR '';'' \<in> set (take 9 (remote @ CHR '';'' # loc))" by (simp add: take_Cons')
      then show False unfolding eq by simp
    qed
  qed
  then have nr: "ConsumePrefix lb (remote @ CHR '';'' # loc) ''norebind:'' = None"
    by (simp add: ConsumePrefix_eq [OF lb] numeral_eq_Suc)
  let ?t1 = "t\<lparr>t_reverse_forwards := AList.update remote loc (t_reverse_forwards t)\<rparr>"
  have "UpdateReverseConfig lb (''reverse:forward:'' @ remote @ '';'' @ loc) t = Inr ?t1"
    using nr r ConsumePrefix_append [OF lb, of "''reverse:''" "''forward:'' @ remote @ '';'' @ loc"]
      ConsumePrefix_append [OF lb, of "''forward:''" "remote @ '';'' @ loc"]
    by (simp add: UpdateReverseConfig_def find_semicolon_def find_char_append Let_def)
  moreover have "IsReverseConfigured loc ?t1"
    by (auto simp: IsReverseConfigured_def list_ex_iff intro!: bexI [of _ "(remote, loc)"])
      (metis map_of_SomeD update_conv' fun_upd_same)
  moreover have "find_char CHR '';'' remote = None" using r by (simp add: find_char_None)
  ultimately show ?thesis
    by (simp add: UpdateReverseConfig_def ConsumePrefix_eq [OF lb] find_semicolon_def update_conv' delete_conv')
qed

theorem reverse_config_tracks_witness:
  "\<exists>t1 t2 t3. UpdateReverseConfig libbase_ref ''reverse:forward:tcp:80;tcp:8080'' (new_atransport 1 kTransportUsb kCsDevice) = Inr t1
     \<and> map_of (t_reverse_forwards t1) = [''tcp:80'' \<mapsto> ''tcp:8080''] \<and> IsReverseConfigured ''tcp:8080'' t1
     \<and> UpdateReverseConfig libbase_ref ''reverse:killforward:tcp:80'' t1 = Inr t2
     \<and> map_of (t_reverse_forwards t2) = Map.empty
     \<and> UpdateReverseConfig libbase_ref ''reverse:killforward-all'' t1 = Inr t3 \<and> t_reverse_forwards t3 = []"
  using reverse_config_tracks [OF libbase_ok_ref, of "''tcp:80''" "''tcp:8080''" "new_atransport 1 kTransportUsb kCsDevice"]
  by (simp add: starts_with_def new_atransport_def)

text \<open>
  Any other request that starts with \<open>reverse:\<close> stops the server with \<open>LOG(FATAL)\<close>; the request
  is the service name a client sent.
\<close>

theorem reverse_config_fatal:
  assumes "libbase_ok lb"
  shows "UpdateReverseConfig lb service t = Inl Fatal \<longleftrightarrow>
     (\<exists>a. service = ''reverse:'' @ a \<and> \<not> starts_with a ''forward:'' \<and> \<not> starts_with a ''killforward:''
        \<and> a \<noteq> ''killforward-all'' \<and> a \<noteq> ''list-forward'')"
proof (cases "ConsumePrefix lb service ''reverse:''")
  case None
  with ConsumePrefix_None [OF assms, of service "''reverse:''"] show ?thesis
    by (simp add: UpdateReverseConfig_def)
next
  case (Some a)
  then have s: "service = ''reverse:'' @ a" using libbase_okD(2) [OF assms] by blast
  have p: "ConsumePrefix lb a x = None \<longleftrightarrow> \<not> starts_with a x" for x
    by (simp add: ConsumePrefix_None [OF assms] starts_with_append)
  let ?U = "UpdateReverseConfig lb service t = Inl Fatal"
  have f: "\<not> ?U" if "ConsumePrefix lb a ''forward:'' = Some x" for x
    using Some that by (simp add: UpdateReverseConfig_def Let_def split: option.split)
  have k: "\<not> ?U" if "ConsumePrefix lb a ''forward:'' = None" "ConsumePrefix lb a ''killforward:'' = Some x" for x
    using Some that by (simp add: UpdateReverseConfig_def)
  have o: "?U \<longleftrightarrow> a \<noteq> ''killforward-all'' \<and> a \<noteq> ''list-forward''"
    if "ConsumePrefix lb a ''forward:'' = None" "ConsumePrefix lb a ''killforward:'' = None"
    using Some that by (simp add: UpdateReverseConfig_def)
  have "?U \<longleftrightarrow> \<not> starts_with a ''forward:'' \<and> \<not> starts_with a ''killforward:''
      \<and> a \<noteq> ''killforward-all'' \<and> a \<noteq> ''list-forward''"
    using f k o p by (metis option.exhaust)
  then show ?thesis using s by simp
qed

theorem reverse_config_fatal_witness:
  "UpdateReverseConfig libbase_ref ''reverse:x'' (new_atransport 1 kTransportUsb kCsDevice) = Inl Fatal"
  using reverse_config_fatal [OF libbase_ok_ref, of "''reverse:x''"] by (simp add: starts_with_def)

text \<open>Keys are tried one after the other, then there is none until they are fetched again.\<close>

lemma transport_NextKey_first: "t_keys t = [] \<Longrightarrow> transport_NextKey (k # ks) t = Inr (k, t\<lparr>t_keys := k # ks\<rparr>)"
  by (simp add: transport_NextKey_def transport_Key_def)

lemma transport_NextKey_next:
  "transport_NextKey fs (t\<lparr>t_keys := k # ks\<rparr>) = Inr (case ks of [] \<Rightarrow> None | k' # _ \<Rightarrow> k', t\<lparr>t_keys := ks\<rparr>)"
  by (simp add: transport_NextKey_def transport_Key_def)

text \<open>Only the first outcome of a connection attempt counts.\<close>

lemma SetConnectionEstablished_once:
  "SetConnectionEstablished b (SetConnectionEstablished a t) = SetConnectionEstablished a t"
  by (simp add: SetConnectionEstablished_def)

lemma update_version_bounds:
  "t_max_payload (update_version v p t) \<le> MAX_PAYLOAD" "t_protocol_version (update_version v p t) \<le> 0x01000001"
  by (simp_all add: update_version_def A_VERSION_def)

end
