(* ===== verification/Sockets.thy ===== *)
theory Sockets
  imports IOVec Transport Adb_Io
begin

text \<open>
  \<open>sockets.cpp\<close>: the two halves of a stream. A socket is an object in a heap, and every pointer of
  the source (\<open>peer\<close>, the members of the two global lists) is an address, so a use after
  \<open>delete\<close> is the fault \<open>Dangling\<close> and a null pointer \<open>Null_deref\<close>. The function pointers
  \<open>enqueue\<close>, \<open>ready\<close>, \<open>shutdown\<close> and \<open>close\<close> are the constructors of small data types. What the
  kernel and the connection answer during one call is the argument \<open>env\<close>.
\<close>

subsection \<open>State\<close>

type_synonym addr = nat
type_synonym tptr = nat

datatype enqueue_fn = local_enqueue_fn | remote_enqueue_fn | smart_enqueue_fn
datatype ready_fn = local_ready_fn | local_ready_notify_fn | remote_ready_fn | smart_ready_fn
datatype close_fn = local_close_fn | local_close_notify_fn | remote_close_fn | smart_close_fn

record asocket =
  s_id :: u32
  s_closing :: bool
  s_has_write_error :: bool
  s_exit_on_close :: bool
  s_peer :: "addr option"
  s_enqueue :: enqueue_fn
  s_ready :: ready_fn
  s_shutdown :: bool
  s_close :: close_fn
  s_transport :: "tptr option"
  s_has_fde :: bool
  s_fde_read :: bool
  s_fde_write :: bool
  s_fd :: int
  s_packet_queue :: iovector
  s_available_send_bytes :: "int option"
  s_smart_socket_data :: string

record world =
  w_heap :: "addr \<Rightarrow> asocket option"
  w_next :: addr
  w_local_list :: "addr list"
  w_closing_list :: "addr list"
  w_next_id :: u32
  w_transports :: "tptr \<Rightarrow> atransport option"
  w_replies :: "(int \<times> bytes) list"
  w_closed_fds :: "int list"

text \<open>The answers of \<open>writev\<close> (its return value, \<open>EAGAIN\<close>, or another error), of \<open>read\<close>, of the
  connection's \<open>Write\<close>, and the contents of fresh memory.\<close>

record env =
  e_writev :: "addr \<Rightarrow> nat \<Rightarrow> writev_result"
  e_reads :: "addr \<Rightarrow> read_event list"
  e_send_ok :: "tptr \<Rightarrow> bool"
  e_fresh :: "nat \<Rightarrow> char"

definition new_asocket :: asocket where
  "new_asocket = \<lparr>s_id = 0, s_closing = False, s_has_write_error = False, s_exit_on_close = False,
     s_peer = None, s_enqueue = local_enqueue_fn, s_ready = local_ready_fn, s_shutdown = False,
     s_close = local_close_fn, s_transport = None, s_has_fde = False, s_fde_read = False,
     s_fde_write = False, s_fd = - 1, s_packet_queue = iov_empty, s_available_send_bytes = None,
     s_smart_socket_data = []\<rparr>"

definition sock :: "addr \<Rightarrow> world \<Rightarrow> asocket result" where
  "sock a w = of_option Dangling (w_heap w a)"

definition set_sock :: "addr \<Rightarrow> asocket \<Rightarrow> world \<Rightarrow> world" where
  "set_sock a s w = w\<lparr>w_heap := (w_heap w)(a \<mapsto> s)\<rparr>"

definition mod_sock :: "addr \<Rightarrow> (asocket \<Rightarrow> asocket) \<Rightarrow> world \<Rightarrow> world result" where
  "mod_sock a f w = rbind (sock a w) (\<lambda>s. Inr (set_sock a (f s) w))"

definition delete_sock :: "addr \<Rightarrow> world \<Rightarrow> world result" where
  "delete_sock a w = rbind (sock a w) (\<lambda>_. Inr (w\<lparr>w_heap := (w_heap w)(a := None)\<rparr>))"

definition trans :: "tptr \<Rightarrow> world \<Rightarrow> atransport result" where
  "trans t w = of_option Dangling (w_transports w t)"

definition set_trans :: "tptr \<Rightarrow> atransport \<Rightarrow> world \<Rightarrow> world" where
  "set_trans t tr w = w\<lparr>w_transports := (w_transports w)(t \<mapsto> tr)\<rparr>"

definition w_send_packet :: "env \<Rightarrow> apacket \<Rightarrow> tptr \<Rightarrow> world \<Rightarrow> world result" where
  "w_send_packet env p t w =
     rbind (trans t w) (\<lambda>tr. rbind (send_packet (e_send_ok env t) p tr) (\<lambda>tr'. Inr (set_trans t tr' w)))"

definition w_reply :: "int \<Rightarrow> bytes \<Rightarrow> world \<Rightarrow> world" where
  "w_reply fd bs w = w\<lparr>w_replies := w_replies w @ [(fd, bs)]\<rparr>"

subsection \<open>Packets sent by sockets\<close>

definition header_packet :: "u32 \<Rightarrow> u32 \<Rightarrow> u32 \<Rightarrow> apacket" where
  "header_packet cmd a0 a1 = get_apacket\<lparr>msg := amessage_zero\<lparr>command := cmd, arg0 := a0, arg1 := a1\<rparr>\<rparr>"

definition send_ready :: "env \<Rightarrow> u32 \<Rightarrow> u32 \<Rightarrow> tptr \<Rightarrow> u32 \<Rightarrow> world \<Rightarrow> world result" where
  "send_ready env loc rem t ack_bytes w =
     rbind (trans t w) (\<lambda>tr.
       let p = header_packet A_OKAY loc rem
       in if t_delayed_ack tr
          then rbind (block_resize (e_fresh env) (payload p) 4) (\<lambda>b.
               rbind (block_store b 0 (le32 ack_bytes)) (\<lambda>b'.
                 w_send_packet env \<lparr>msg = (msg p)\<lparr>data_length := 4\<rparr>, payload = b'\<rparr> t w))
          else w_send_packet env p t w)"

definition send_close :: "env \<Rightarrow> u32 \<Rightarrow> u32 \<Rightarrow> tptr \<Rightarrow> world \<Rightarrow> world result" where
  "send_close env loc rem t w = w_send_packet env (header_packet A_CLSE loc rem) t w"

subsection \<open>The list of sockets\<close>

fun find_local_socket_in :: "u32 \<Rightarrow> u32 \<Rightarrow> addr list \<Rightarrow> world \<Rightarrow> addr option result" where
  "find_local_socket_in local_id peer_id [] w = Inr None"
| "find_local_socket_in local_id peer_id (a # as) w =
     rbind (sock a w) (\<lambda>s.
       if s_id s \<noteq> local_id then find_local_socket_in local_id peer_id as w
       else if peer_id = 0 then Inr (Some a)
       else (case s_peer s of
               None \<Rightarrow> Inr None
             | Some p \<Rightarrow> rbind (sock p w) (\<lambda>ps. Inr (if s_id ps = peer_id then Some a else None))))"

definition find_local_socket :: "u32 \<Rightarrow> u32 \<Rightarrow> world \<Rightarrow> addr option result" where
  "find_local_socket local_id peer_id w = find_local_socket_in local_id peer_id (w_local_list w) w"

definition install_local_socket :: "addr \<Rightarrow> world \<Rightarrow> world result" where
  "install_local_socket a w =
     rbind (mod_sock a (\<lambda>s. s\<lparr>s_id := w_next_id w\<rparr>) w) (\<lambda>w1.
       let w2 = w1\<lparr>w_next_id := w_next_id w1 + 1\<rparr>
       in if w_next_id w2 = 0 then Inl Fatal
          else Inr (w2\<lparr>w_local_list := w_local_list w2 @ [a]\<rparr>))"

definition remove_socket :: "addr \<Rightarrow> world \<Rightarrow> world" where
  "remove_socket a w = w\<lparr>w_local_list := removeAll a (w_local_list w), w_closing_list := removeAll a (w_closing_list w)\<rparr>"

subsection \<open>Closing\<close>

definition remote_socket_shutdown :: "env \<Rightarrow> addr \<Rightarrow> world \<Rightarrow> world result" where
  "remote_socket_shutdown env a w =
     rbind (sock a w) (\<lambda>s.
     rbind (case s_peer s of None \<Rightarrow> Inr 0 | Some p \<Rightarrow> rbind (sock p w) (\<lambda>ps. Inr (s_id ps))) (\<lambda>peer_id.
     rbind (of_option Null_deref (s_transport s)) (\<lambda>t.
       w_send_packet env (header_packet A_CLSE peer_id (s_id s)) t w)))"

text \<open>\<open>deferred_close\<close> takes the descriptor over; \<open>exit(0)\<close> ends the daemon.\<close>

definition local_socket_destroy :: "addr \<Rightarrow> world \<Rightarrow> world result" where
  "local_socket_destroy a w =
     rbind (sock a w) (\<lambda>s.
       if \<not> s_has_fde s then Inl Null_deref
       else rbind (delete_sock a (remove_socket a (w\<lparr>w_closed_fds := w_closed_fds w @ [s_fd s]\<rparr>))) (\<lambda>w'.
              if s_exit_on_close s then Inl Exit else Inr w'))"

definition close_peer_of_local :: "env \<Rightarrow> (addr \<Rightarrow> world \<Rightarrow> world result) \<Rightarrow> addr \<Rightarrow> world \<Rightarrow> world result" where
  "close_peer_of_local env close a w =
     rbind (sock a w) (\<lambda>s.
       case s_peer s of
         None \<Rightarrow> Inr w
       | Some p \<Rightarrow>
           rbind (sock p w) (\<lambda>ps.
           rbind (if s_shutdown ps then remote_socket_shutdown env p w else Inr w) (\<lambda>w1.
           rbind (mod_sock p (\<lambda>x. x\<lparr>s_peer := None\<rparr>) w1) (\<lambda>w2.
           rbind (close p w2) (\<lambda>w3.
             mod_sock a (\<lambda>x. x\<lparr>s_peer := None\<rparr>) w3)))))"

text \<open>Destroyed at once, or kept on the closing list until the queued data is written.\<close>

definition local_socket_finish :: "addr \<Rightarrow> world \<Rightarrow> world result" where
  "local_socket_finish a w =
     rbind (sock a w) (\<lambda>s.
       if s_closing s \<or> s_has_write_error s \<or> iov_size (s_packet_queue s) = 0
       then local_socket_destroy a w
       else if \<not> s_has_fde s then Inl Null_deref
       else let s' = s\<lparr>s_closing := True, s_fde_read := False\<rparr>;
                w2 = remove_socket a (set_sock a s' w);
                w3 = w2\<lparr>w_closing_list := w_closing_list w2 @ [a]\<rparr>
            in rcheck (s_fde_write s') (Inr w3))"

definition local_socket_close :: "env \<Rightarrow> (addr \<Rightarrow> world \<Rightarrow> world result) \<Rightarrow> addr \<Rightarrow> world \<Rightarrow> world result" where
  "local_socket_close env close a w = rbind (close_peer_of_local env close a w) (local_socket_finish a)"

definition remote_socket_close :: "(addr \<Rightarrow> world \<Rightarrow> world result) \<Rightarrow> addr \<Rightarrow> world \<Rightarrow> world result" where
  "remote_socket_close close a w =
     rbind (sock a w) (\<lambda>s.
     rbind (case s_peer s of
              None \<Rightarrow> Inr w
            | Some p \<Rightarrow> rbind (mod_sock p (\<lambda>x. x\<lparr>s_peer := None\<rparr>) w) (close p))
       (delete_sock a))"

definition smart_socket_close :: "(addr \<Rightarrow> world \<Rightarrow> world result) \<Rightarrow> addr \<Rightarrow> world \<Rightarrow> world result" where
  "smart_socket_close close a w =
     rbind (sock a w) (\<lambda>s.
     rbind (case s_peer s of
              None \<Rightarrow> Inr w
            | Some p \<Rightarrow>
                rbind (mod_sock p (\<lambda>x. x\<lparr>s_peer := None\<rparr>) w) (\<lambda>w1.
                rbind (close p w1) (mod_sock a (\<lambda>x. x\<lparr>s_peer := None\<rparr>))))
       (delete_sock a))"

text \<open>The \<open>FAIL\<close> goes to the socket's own descriptor; then the socket closes as an ordinary one.\<close>

definition fail_reply :: "string \<Rightarrow> bytes" where
  "fail_reply reason = ''FAIL'' @ hex_pad 4 (length reason) @ reason"

definition local_socket_close_notify :: "(addr \<Rightarrow> world \<Rightarrow> world result) \<Rightarrow> addr \<Rightarrow> world \<Rightarrow> world result" where
  "local_socket_close_notify close a w =
     rbind (sock a w) (\<lambda>s.
       close a (w_reply (s_fd s) (fail_reply ''closed'')
         (set_sock a (s\<lparr>s_ready := local_ready_fn, s_shutdown := False, s_close := local_close_fn\<rparr>) w)))"

text \<open>
  \<open>s->close(s)\<close>: a call goes to the function the pointer holds, and that function may close the
  peer. \<open>n\<close> bounds the depth of these calls; since a peer is always detached before it is closed,
  four are enough.
\<close>

fun socket_close :: "env \<Rightarrow> nat \<Rightarrow> addr \<Rightarrow> world \<Rightarrow> world result" where
  "socket_close env 0 a w = Inl Out_of_fuel"
| "socket_close env (Suc n) a w =
     rbind (sock a w) (\<lambda>s.
       case s_close s of
         local_close_fn \<Rightarrow> local_socket_close env (socket_close env n) a w
       | local_close_notify_fn \<Rightarrow> local_socket_close_notify (socket_close env n) a w
       | remote_close_fn \<Rightarrow> remote_socket_close (socket_close env n) a w
       | smart_close_fn \<Rightarrow> smart_socket_close (socket_close env n) a w)"

definition close_depth :: nat where "close_depth = 4"

definition s_do_close :: "env \<Rightarrow> addr \<Rightarrow> world \<Rightarrow> world result" where
  "s_do_close env a w = socket_close env close_depth a w"

text \<open>
  \<open>close_all_sockets\<close> starts over after every close, since a close changes the list; the loop ends
  when no listed socket belongs to the transport.
\<close>

fun find_socket_of :: "tptr \<Rightarrow> addr list \<Rightarrow> world \<Rightarrow> addr option result" where
  "find_socket_of t [] w = Inr None"
| "find_socket_of t (a # as) w =
     rbind (sock a w) (\<lambda>s.
       if s_transport s = Some t then Inr (Some a)
       else (case s_peer s of
               None \<Rightarrow> find_socket_of t as w
             | Some p \<Rightarrow> rbind (sock p w) (\<lambda>ps.
                 if s_transport ps = Some t then Inr (Some a) else find_socket_of t as w)))"

partial_function (option) close_all_sockets :: "env \<Rightarrow> tptr \<Rightarrow> world \<Rightarrow> world result option" where
  "close_all_sockets env t w =
     (case find_socket_of t (w_local_list w) w of
        Inl e \<Rightarrow> Some (Inl e)
      | Inr None \<Rightarrow> Some (Inr w)
      | Inr (Some a) \<Rightarrow>
          (case s_do_close env a w of
             Inl e \<Rightarrow> Some (Inl e)
           | Inr w' \<Rightarrow> close_all_sockets env t w'))"

subsection \<open>From the peer to the descriptor\<close>

datatype SocketFlushResult = Destroyed | TryAgain | Completed

text \<open>The \<open>writev\<close> of the queued blocks, with the number of bytes it took.\<close>

definition flush_write :: "env \<Rightarrow> addr \<Rightarrow> asocket \<Rightarrow> (asocket \<times> u32) result" where
  "flush_write env a s =
     (let q = s_packet_queue s
      in if iov_size q = 0 then Inr (s, 0)
         else rbind (iov_iovecs q) (\<lambda>_.
           case e_writev env a (iov_size q) of
             Wrote n \<Rightarrow>
               if 0 < n
               then rbind (if n = iov_size q then Inr (fst (iov_clear q)) else iov_drop_front n q) (\<lambda>q'.
                      Inr (s\<lparr>s_packet_queue := q'\<rparr>, of_nat n))
               else Inr (s\<lparr>s_has_write_error := True\<rparr>, 0)
           | Would_block \<Rightarrow> Inr (s, 0)
           | Write_failed \<Rightarrow> Inr (s\<lparr>s_has_write_error := True\<rparr>, 0)))"

definition flush_ack :: "env \<Rightarrow> asocket \<Rightarrow> u32 \<Rightarrow> world \<Rightarrow> world result" where
  "flush_ack env s bytes_flushed w =
     (case (s_transport s, s_peer s) of
        (Some t, Some p) \<Rightarrow>
          rbind (sock p w) (\<lambda>ps.
            if s_available_send_bytes s \<noteq> None then send_ready env (s_id s) (s_id ps) t bytes_flushed w
            else if bytes_flushed \<noteq> 0 \<and> iov_size (s_packet_queue s) < MAX_PAYLOAD
            then send_ready env (s_id s) (s_id ps) t 0 w
            else Inr w)
      | _ \<Rightarrow> Inr w)"

definition local_socket_flush_incoming :: "env \<Rightarrow> addr \<Rightarrow> world \<Rightarrow> (SocketFlushResult \<times> world) result" where
  "local_socket_flush_incoming env a w =
     rbind (sock a w) (\<lambda>s.
     rbind (flush_write env a s) (\<lambda>(s1, bytes_flushed).
       let fd_full = (iov_size (s_packet_queue s1) \<noteq> 0 \<and> \<not> s_has_write_error s1)
       in rbind (flush_ack env s1 bytes_flushed (set_sock a s1 w)) (\<lambda>w1.
            if s_closing s1 \<and> \<not> fd_full
            then rbind (s_do_close env a w1) (\<lambda>w2. Inr (Destroyed, w2))
            else if \<not> s_has_fde s1 then Inl Null_deref
            else rbind (mod_sock a (\<lambda>x. x\<lparr>s_fde_write := fd_full\<rparr>) w1) (\<lambda>w2.
                   Inr (if fd_full then TryAgain else Completed, w2)))))"

definition local_socket_enqueue :: "env \<Rightarrow> addr \<Rightarrow> block \<Rightarrow> world \<Rightarrow> (int \<times> world) result" where
  "local_socket_enqueue env a data w =
     rbind (mod_sock a (\<lambda>s. s\<lparr>s_packet_queue := iov_append (s_packet_queue s) data\<rparr>) w) (\<lambda>w1.
     rbind (local_socket_flush_incoming env a w1) (\<lambda>(r, w2).
       Inr (case r of Destroyed \<Rightarrow> - 1 | TryAgain \<Rightarrow> 1 | Completed \<Rightarrow> 0, w2)))"

definition remote_socket_enqueue :: "env \<Rightarrow> addr \<Rightarrow> block \<Rightarrow> world \<Rightarrow> (int \<times> world) result" where
  "remote_socket_enqueue env a data w =
     rbind (sock a w) (\<lambda>s.
     rbind (of_option Null_deref (s_peer s)) (\<lambda>p.
     rbind (sock p w) (\<lambda>ps.
       if MAX_PAYLOAD < bsize data then Inr (- 1, w)
       else rbind (of_option Null_deref (s_transport s)) (\<lambda>t.
            let m = msg (header_packet A_WRTE (s_id ps) (s_id s));
                pl = fst (block_move_assign block_empty data)
            in rbind (w_send_packet env \<lparr>msg = m\<lparr>data_length := of_nat (bsize pl)\<rparr>, payload = pl\<rparr> t w) (\<lambda>w'.
                 Inr (1, w'))))))"

subsection \<open>Ready\<close>

definition local_socket_ready :: "addr \<Rightarrow> world \<Rightarrow> world result" where
  "local_socket_ready a w =
     rbind (sock a w) (\<lambda>s.
       if \<not> s_has_fde s then Inl Null_deref else Inr (set_sock a (s\<lparr>s_fde_read := True\<rparr>) w))"

definition remote_socket_ready :: "env \<Rightarrow> addr \<Rightarrow> world \<Rightarrow> world result" where
  "remote_socket_ready env a w =
     rbind (sock a w) (\<lambda>s.
     rbind (of_option Null_deref (s_peer s)) (\<lambda>p.
     rbind (sock p w) (\<lambda>ps.
     rbind (of_option Null_deref (s_transport s)) (\<lambda>t.
       w_send_packet env (header_packet A_OKAY (s_id ps) (s_id s)) t w))))"

definition local_socket_ready_notify :: "addr \<Rightarrow> world \<Rightarrow> world result" where
  "local_socket_ready_notify a w =
     rbind (sock a w) (\<lambda>s.
       local_socket_ready a (w_reply (s_fd s) ''OKAY''
         (set_sock a (s\<lparr>s_ready := local_ready_fn, s_shutdown := False, s_close := local_close_fn\<rparr>) w)))"

definition s_do_ready :: "env \<Rightarrow> addr \<Rightarrow> world \<Rightarrow> world result" where
  "s_do_ready env a w =
     rbind (sock a w) (\<lambda>s.
       case s_ready s of
         local_ready_fn \<Rightarrow> local_socket_ready a w
       | local_ready_notify_fn \<Rightarrow> local_socket_ready_notify a w
       | remote_ready_fn \<Rightarrow> remote_socket_ready env a w
       | smart_ready_fn \<Rightarrow> Inr w)"

text \<open>The bytes acknowledged by the far side, if it does delayed acknowledgements.\<close>

definition local_socket_ack :: "env \<Rightarrow> addr \<Rightarrow> int option \<Rightarrow> world \<Rightarrow> world result" where
  "local_socket_ack env a acked_bytes w =
     rbind (sock a w) (\<lambda>s.
       case (s_available_send_bytes s, acked_bytes) of
         (None, None) \<Rightarrow> s_do_ready env a w
       | (Some n, Some k) \<Rightarrow>
           let w' = set_sock a (s\<lparr>s_available_send_bytes := Some (n + k)\<rparr>) w
           in if 0 < n + k then s_do_ready env a w' else Inr w'
       | _ \<Rightarrow> Inr w)"

subsection \<open>Creation\<close>

definition alloc_sock :: "asocket \<Rightarrow> world \<Rightarrow> addr \<times> world" where
  "alloc_sock s w = (w_next w, (set_sock (w_next w) s w)\<lparr>w_next := w_next w + 1\<rparr>)"

definition create_local_socket :: "int \<Rightarrow> world \<Rightarrow> (addr \<times> world) result" where
  "create_local_socket fd w =
     (let (a, w1) = alloc_sock (new_asocket\<lparr>s_fd := fd\<rparr>) w
      in rbind (install_local_socket a w1) (\<lambda>w2.
         rbind (mod_sock a (\<lambda>s. s\<lparr>s_has_fde := True\<rparr>) w2) (\<lambda>w3. Inr (a, w3))))"

definition create_remote_socket :: "u32 \<Rightarrow> tptr \<Rightarrow> world \<Rightarrow> (addr \<times> world) result" where
  "create_remote_socket i t w =
     (if i = 0 then Inl Fatal
      else Inr (alloc_sock (new_asocket\<lparr>s_id := i, s_enqueue := remote_enqueue_fn, s_ready := remote_ready_fn,
                  s_shutdown := True, s_close := remote_close_fn, s_transport := Some t\<rparr>) w))"

definition asocket_get_max_payload :: "addr \<Rightarrow> world \<Rightarrow> nat result" where
  "asocket_get_max_payload a w =
     rbind (sock a w) (\<lambda>s.
     rbind (case s_transport s of
              None \<Rightarrow> Inr MAX_PAYLOAD
            | Some t \<Rightarrow> rbind (trans t w) (\<lambda>tr. Inr (min MAX_PAYLOAD (t_max_payload tr)))) (\<lambda>mx.
       case s_peer s of
         None \<Rightarrow> Inr mx
       | Some p \<Rightarrow> rbind (sock p w) (\<lambda>ps.
           case s_transport ps of
             None \<Rightarrow> Inr mx
           | Some t \<Rightarrow> rbind (trans t w) (\<lambda>tr. Inr (min mx (t_max_payload tr))))))"

definition send_open :: "env \<Rightarrow> addr \<Rightarrow> asocket \<Rightarrow> tptr \<Rightarrow> bool \<Rightarrow> string \<Rightarrow> world \<Rightarrow> world result" where
  "send_open env a s t da destination w =
     (let m = msg (header_packet A_OPEN (s_id s) (if da then of_nat INITIAL_DELAYED_ACK_BYTES else 0))
      in rbind (block_resize (e_fresh env) block_empty (length destination + 1)) (\<lambda>b.
         rbind (block_store b 0 destination) (\<lambda>b1.
         rbind (block_store b1 (length destination) [CHR 0x00]) (\<lambda>b2.
         rbind (asocket_get_max_payload a w) (\<lambda>mx.
           let m' = m\<lparr>data_length := of_nat (bsize b2)\<rparr>
           in rcheck (unat (data_length m') \<le> mx) (w_send_packet env \<lparr>msg = m', payload = b2\<rparr> t w))))))"

definition connect_to_remote :: "env \<Rightarrow> libbase \<Rightarrow> bool \<Rightarrow> addr \<Rightarrow> string \<Rightarrow> world \<Rightarrow> world result" where
  "connect_to_remote env lb adb_host a destination w =
     rbind (sock a w) (\<lambda>s.
     rbind (of_option Null_deref (s_transport s)) (\<lambda>t.
     rbind (trans t w) (\<lambda>tr.
     rbind (if adb_host then UpdateReverseConfig lb destination tr else Inr tr) (\<lambda>tr1.
       let w1 = set_trans t tr1 w;
           da = t_delayed_ack tr1;
           w2 = (if da then set_sock a (s\<lparr>s_available_send_bytes := Some 0\<rparr>) w1 else w1)
       in send_open env a s t da destination w2))))"

subsection \<open>The smart socket\<close>

text \<open>
  A client of the server first talks to a smart socket, which waits for a request of four
  hexadecimal digits and a service name. \<open>handle_host_request\<close> and \<open>host_service_to_socket\<close> are
  arguments: what the first replies to the client's descriptor and which transport it selects, and
  the descriptor of the service the second opens.
\<close>

datatype HostRequestResult = Handled | SwitchedTransport | Unhandled

record host_services =
  h_request :: "string \<Rightarrow> TransportType \<Rightarrow> string option \<Rightarrow> nat \<Rightarrow> world \<Rightarrow> HostRequestResult \<times> bytes \<times> tptr option"
  h_service :: "string \<Rightarrow> string \<Rightarrow> nat \<Rightarrow> int option"

datatype smart_parse =
    Need_more
  | Bad_request
  | Bad_transport_id
  | Host_service string TransportType string nat
  | Device_service string

definition parse_smart_service :: "libbase \<Rightarrow> string \<Rightarrow> smart_parse result" where
  "parse_smart_service lb service =
     (case ConsumePrefix lb service ''host-serial:'' of
        Some r \<Rightarrow>
          rbind (parse_host_service r) (\<lambda>o1. Inr (case o1 of
              None \<Rightarrow> Bad_request
            | Some (serial, cmd) \<Rightarrow> Host_service cmd kTransportAny serial 0))
      | None \<Rightarrow>
     (case ConsumePrefix lb service ''host-transport-id:'' of
        Some r \<Rightarrow>
          Inr (case ParseUint (2 ^ 64 - 1) True r of
                 None \<Rightarrow> Bad_transport_id
               | Some (tid, r1) \<Rightarrow>
                   (case ConsumePrefix lb r1 '':'' of
                      None \<Rightarrow> Bad_transport_id
                    | Some cmd \<Rightarrow>
                        if cmd = [] then Device_service service else Host_service cmd kTransportAny [] tid))
      | None \<Rightarrow>
     (let host = (\<lambda>r ty. Inr (if r = [] then Device_service service else Host_service r ty [] 0))
      in case ConsumePrefix lb service ''host-usb:'' of
           Some r \<Rightarrow> host r kTransportUsb
         | None \<Rightarrow>
        (case ConsumePrefix lb service ''host-local:'' of
           Some r \<Rightarrow> host r kTransportLocal
         | None \<Rightarrow>
        (case ConsumePrefix lb service ''host:'' of
           Some r \<Rightarrow> host r kTransportAny
         | None \<Rightarrow> Inr (Device_service service))))))"

text \<open>
  The buffer handling: the length, the wait for the rest, and the NUL written behind the request.
  The service is everything behind the length, also what was received after the request.
\<close>

definition smart_parse_buffer :: "libbase \<Rightarrow> string \<Rightarrow> (smart_parse \<times> string) result" where
  "smart_parse_buffer lb buf =
     (if length buf < 4 then Inr (Need_more, buf)
      else let len = unat (unhex buf 4)
           in if len = 0 \<or> MAX_PAYLOAD < len then Inr (Bad_request, buf)
              else if length buf < len + 4 then Inr (Need_more, buf)
              else let buf' = (if len + 4 < length buf then buf[len + 4 := CHR 0x00] else buf)
                   in rbind (parse_smart_service lb (drop 4 buf')) (\<lambda>p. Inr (p, buf')))"

definition smart_fail :: "env \<Rightarrow> addr \<Rightarrow> world \<Rightarrow> (int \<times> world) result" where
  "smart_fail env a w = rbind (s_do_close env a w) (\<lambda>w'. Inr (- 1, w'))"

definition smart_host_service ::
  "env \<Rightarrow> host_services \<Rightarrow> addr \<Rightarrow> string \<Rightarrow> TransportType \<Rightarrow> string \<Rightarrow> nat \<Rightarrow> world \<Rightarrow> (int \<times> world) result" where
  "smart_host_service env hs a service ty serial tid w =
     rbind (sock a w) (\<lambda>s.
     rbind (of_option Null_deref (s_peer s)) (\<lambda>p.
     rbind (sock p w) (\<lambda>ps.
       case h_request hs service ty (if serial = [] then None else Some serial) tid w of
         (Handled, reply, _) \<Rightarrow> smart_fail env a (w_reply (s_fd ps) reply w)
       | (SwitchedTransport, reply, tr) \<Rightarrow>
           Inr (0, set_sock a (s\<lparr>s_transport := tr, s_smart_socket_data := []\<rparr>) (w_reply (s_fd ps) reply w))
       | (Unhandled, reply, _) \<Rightarrow>
           (case h_service hs service serial tid of
              None \<Rightarrow> smart_fail env a (w_reply (s_fd ps)
                        (fail_reply (''unknown host service '' @ [CHR 0x27] @ service @ [CHR 0x27])) w)
            | Some fd \<Rightarrow>
                rbind (create_local_socket fd w) (\<lambda>(b, w1).
                rbind (mod_sock p (\<lambda>x. x\<lparr>s_peer := Some b, s_ready := local_ready_fn, s_shutdown := False,
                                        s_close := local_close_fn\<rparr>) (w_reply (s_fd ps) ''OKAY'' w1)) (\<lambda>w2.
                rbind (mod_sock b (\<lambda>x. x\<lparr>s_peer := Some p\<rparr>) w2) (\<lambda>w3.
                rbind (mod_sock a (\<lambda>x. x\<lparr>s_peer := None\<rparr>) w3) (\<lambda>w4.
                rbind (s_do_close env a w4) (\<lambda>w5.
                rbind (s_do_ready env b w5) (\<lambda>w6. Inr (0, w6)))))))))))"

definition smart_device_service :: "env \<Rightarrow> libbase \<Rightarrow> addr \<Rightarrow> string \<Rightarrow> world \<Rightarrow> (int \<times> world) result" where
  "smart_device_service env lb a service w =
     rbind (sock a w) (\<lambda>s.
     rbind (of_option Null_deref (s_peer s)) (\<lambda>p.
     rbind (sock p w) (\<lambda>ps.
       case s_transport s of
         None \<Rightarrow> smart_fail env a (w_reply (s_fd ps) (fail_reply ''device offline (no transport)'') w)
       | Some t \<Rightarrow>
           rbind (trans t w) (\<lambda>tr.
             if \<not> ConnectionStateIsOnline (t_connection_state tr)
             then smart_fail env a (w_reply (s_fd ps) (fail_reply ''device offline (transport offline)'') w)
             else rbind (connect_to_remote env lb True p service
                          (set_sock p (ps\<lparr>s_peer := None, s_ready := local_ready_notify_fn, s_shutdown := False,
                             s_close := local_close_notify_fn, s_transport := Some t\<rparr>) w)) (\<lambda>w1.
                  rbind (mod_sock a (\<lambda>x. x\<lparr>s_peer := None\<rparr>) w1) (\<lambda>w2.
                  rbind (s_do_close env a w2) (\<lambda>w3. Inr (1, w3))))))))"

definition smart_socket_enqueue ::
  "env \<Rightarrow> libbase \<Rightarrow> host_services \<Rightarrow> addr \<Rightarrow> block \<Rightarrow> world \<Rightarrow> (int \<times> world) result" where
  "smart_socket_enqueue env lb hs a data w =
     rbind (sock a w) (\<lambda>s.
     rbind (smart_parse_buffer lb (s_smart_socket_data s @ block_bytes data)) (\<lambda>(parsed, buf).
       let w1 = set_sock a (s\<lparr>s_smart_socket_data := buf\<rparr>) w
       in case parsed of
            Need_more \<Rightarrow> Inr (0, w1)
          | Bad_request \<Rightarrow> smart_fail env a w1
          | Bad_transport_id \<Rightarrow> Inr (- 1, w1)
          | Host_service service ty serial tid \<Rightarrow> smart_host_service env hs a service ty serial tid w1
          | Device_service service \<Rightarrow> smart_device_service env lb a service w1))"

definition connect_to_smartsocket :: "env \<Rightarrow> addr \<Rightarrow> world \<Rightarrow> world result" where
  "connect_to_smartsocket env a w =
     (let (b, w1) = alloc_sock (new_asocket\<lparr>s_enqueue := smart_enqueue_fn, s_ready := smart_ready_fn,
                      s_close := smart_close_fn\<rparr>) w
      in rbind (mod_sock a (\<lambda>x. x\<lparr>s_peer := Some b\<rparr>) w1) (\<lambda>w2.
         rbind (mod_sock b (\<lambda>x. x\<lparr>s_peer := Some a\<rparr>) w2) (s_do_ready env a)))"

subsection \<open>From the descriptor to the peer\<close>

definition s_do_enqueue ::
  "env \<Rightarrow> libbase \<Rightarrow> host_services \<Rightarrow> addr \<Rightarrow> block \<Rightarrow> world \<Rightarrow> (int \<times> world) result" where
  "s_do_enqueue env lb hs a data w =
     rbind (sock a w) (\<lambda>s.
       case s_enqueue s of
         local_enqueue_fn \<Rightarrow> local_socket_enqueue env a data w
       | remote_enqueue_fn \<Rightarrow> remote_socket_enqueue env a data w
       | smart_enqueue_fn \<Rightarrow> smart_socket_enqueue env lb hs a data w)"

text \<open>The read loop: what was read, and whether the end of the file or an error was met.\<close>

fun flush_read :: "nat \<Rightarrow> read_event list \<Rightarrow> bytes \<times> bool" where
  "flush_read avail [] = ([], 0 < avail)"
| "flush_read avail (Read_error e # evs) = ([], 0 < avail \<and> e \<noteq> EAGAIN)"
| "flush_read avail (Data c # evs) =
     (if avail = 0 then ([], False)
      else if c = [] then ([], True)
      else if length c < avail
      then (case flush_read (avail - length c) evs of (bs, eof) \<Rightarrow> (c @ bs, eof))
      else (take avail c, False))"

definition flush_outgoing_enqueue ::
  "env \<Rightarrow> libbase \<Rightarrow> host_services \<Rightarrow> addr \<Rightarrow> addr \<Rightarrow> block \<Rightarrow> world \<Rightarrow> (bool \<times> world) result" where
  "flush_outgoing_enqueue env lb hs a p data w =
     rbind (mod_sock a (\<lambda>x. x\<lparr>s_available_send_bytes :=
              map_option (\<lambda>n. n - int (bsize data)) (s_available_send_bytes x)\<rparr>) w) (\<lambda>w1.
     rbind (s_do_enqueue env lb hs p data w1) (\<lambda>(r, w2).
       if r < 0 then Inr (False, w2)
       else if r = 0 then Inr (True, w2)
       else rbind (sock a w2) (\<lambda>s.
              if (case s_available_send_bytes s of Some n \<Rightarrow> n \<le> 0 | None \<Rightarrow> True)
              then (if \<not> s_has_fde s then Inl Null_deref
                    else Inr (True, set_sock a (s\<lparr>s_fde_read := False\<rparr>) w2))
              else Inr (True, w2))))"

definition local_socket_flush_outgoing ::
  "env \<Rightarrow> libbase \<Rightarrow> host_services \<Rightarrow> addr \<Rightarrow> world \<Rightarrow> (bool \<times> world) result" where
  "local_socket_flush_outgoing env lb hs a w =
     rbind (asocket_get_max_payload a w) (\<lambda>max_payload.
     rbind (block_resize (e_fresh env) block_empty max_payload) (\<lambda>data.
     rbind (sock a w) (\<lambda>s.
       let (bs, is_eof) = flush_read max_payload (e_reads env a)
       in rbind (block_store data 0 bs) (\<lambda>data1.
          rbind (case s_peer s of
                   Some p \<Rightarrow>
                     if bs = [] then Inr (True, w)
                     else rbind (block_resize (e_fresh env) data1 (length bs)) (\<lambda>data2.
                            flush_outgoing_enqueue env lb hs a p data2 w)
                 | None \<Rightarrow> Inr (True, w)) (\<lambda>(go_on, w1).
            if \<not> go_on then Inr (False, w1)
            else if is_eof then rbind (s_do_close env a w1) (\<lambda>w2. Inr (False, w2))
            else Inr (True, w1))))))"

definition local_socket_event_func ::
  "env \<Rightarrow> libbase \<Rightarrow> host_services \<Rightarrow> bool \<Rightarrow> bool \<Rightarrow> addr \<Rightarrow> world \<Rightarrow> world result" where
  "local_socket_event_func env lb hs ev_read ev_write a w =
     rbind (if ev_write then local_socket_flush_incoming env a w else Inr (Completed, w)) (\<lambda>(r, w1).
       if r = Destroyed then Inr w1
       else if ev_read then rbind (local_socket_flush_outgoing env lb hs a w1) (\<lambda>(_, w2). Inr w2)
       else Inr w1)"

end
