(* ===== verification/Socket_Safety.thy ===== *)
theory Socket_Safety
  imports Sockets
begin

text \<open>
  The invariant of the socket heap and its preservation by every operation: peers point at each
  other, the two global lists hold exactly the local sockets, identifiers are unique and not 0, and a
  local socket with queued data waits for its descriptor to become writable. From it follows that no
  operation dereferences a null or dangling pointer or fails a \<open>CHECK\<close>. During a close one socket
  points to a peer that no longer points back; \<open>wf_world (Some a)\<close> is the invariant up to that
  socket \<open>a\<close>.
\<close>

subsection \<open>Invariant\<close>

definition is_local :: "asocket \<Rightarrow> bool" where
  "is_local s \<longleftrightarrow> s_enqueue s = local_enqueue_fn"

text \<open>What a socket must be by itself: its function pointers belong together, \<open>waiting_ok\<close>.\<close>

definition waiting_ok :: "asocket \<Rightarrow> bool" where
  "waiting_ok s \<longleftrightarrow> wf_iov (s_packet_queue s)
     \<and> (iov_size (s_packet_queue s) \<noteq> 0 \<longrightarrow> s_has_write_error s \<or> s_fde_write s)"

definition kind_ok :: "asocket \<Rightarrow> bool" where
  "kind_ok s \<longleftrightarrow>
     (case s_enqueue s of
        local_enqueue_fn \<Rightarrow>
          \<not> s_shutdown s \<and> s_close s \<in> {local_close_fn, local_close_notify_fn}
          \<and> s_ready s \<in> {local_ready_fn, local_ready_notify_fn} \<and> s_has_fde s
          \<and> s_id s \<noteq> 0 \<and> (s_closing s \<longrightarrow> s_peer s = None)
      | remote_enqueue_fn \<Rightarrow>
          s_shutdown s \<and> s_close s = remote_close_fn \<and> s_ready s = remote_ready_fn
          \<and> s_transport s \<noteq> None \<and> s_id s \<noteq> 0 \<and> \<not> s_closing s
      | smart_enqueue_fn \<Rightarrow>
          \<not> s_closing s \<and> \<not> s_shutdown s \<and> s_close s = smart_close_fn \<and> s_ready s = smart_ready_fn)"

definition sock_ok :: "world \<Rightarrow> addr \<Rightarrow> asocket \<Rightarrow> bool" where
  "sock_ok w a s \<longleftrightarrow> kind_ok s \<and> (is_local s \<longrightarrow> waiting_ok s)
     \<and> (\<forall>t. s_transport s = Some t \<longrightarrow> \<not> s_closing s \<longrightarrow> w_transports w t \<noteq> None)
     \<and> (is_local s \<longrightarrow> s_id s < w_next_id w
          \<and> a \<in> set (if s_closing s then w_closing_list w else w_local_list w))"

lemma sock_ok_mono:
  assumes "sock_ok w a s" "\<And>t. w_transports w t \<noteq> None \<Longrightarrow> w_transports w' t \<noteq> None"
    "w_next_id w \<le> w_next_id w'" "a \<in> set (w_local_list w) \<Longrightarrow> a \<in> set (w_local_list w')"
    "a \<in> set (w_closing_list w) \<Longrightarrow> a \<in> set (w_closing_list w')"
  shows "sock_ok w' a s"
  using assms by (auto simp: sock_ok_def split: if_splits dest: order.strict_trans2)

definition peers_ok :: "addr option \<Rightarrow> (addr \<Rightarrow> asocket option) \<Rightarrow> bool" where
  "peers_ok e h \<longleftrightarrow> (\<forall>a s p. h a = Some s \<longrightarrow> s_peer s = Some p \<longrightarrow> e \<noteq> Some a \<longrightarrow>
     p \<noteq> a \<and> (\<exists>ps. h p = Some ps \<and> s_peer ps = Some a))"

definition ids_ok :: "(addr \<Rightarrow> asocket option) \<Rightarrow> bool" where
  "ids_ok h \<longleftrightarrow> (\<forall>a b s s'. h a = Some s \<longrightarrow> h b = Some s' \<longrightarrow> is_local s \<longrightarrow> is_local s' \<longrightarrow>
     s_id s = s_id s' \<longrightarrow> a = b)"

definition lists_ok :: "world \<Rightarrow> bool" where
  "lists_ok w \<longleftrightarrow> distinct (w_local_list w) \<and> distinct (w_closing_list w)
     \<and> (\<forall>a\<in>set (w_local_list w). \<exists>s. w_heap w a = Some s \<and> is_local s \<and> \<not> s_closing s)
     \<and> (\<forall>a\<in>set (w_closing_list w). \<exists>s. w_heap w a = Some s \<and> is_local s \<and> s_closing s)"

definition wf_world :: "addr option \<Rightarrow> world \<Rightarrow> bool" where
  "wf_world e w \<longleftrightarrow>
     (\<forall>a s. w_heap w a = Some s \<longrightarrow> sock_ok w a s) \<and> peers_ok e (w_heap w) \<and> ids_ok (w_heap w)
     \<and> lists_ok w \<and> (\<forall>a. w_next w \<le> a \<longrightarrow> w_heap w a = None) \<and> w_next_id w \<noteq> 0
     \<and> (\<forall>t tr. w_transports w t = Some tr \<longrightarrow> t_max_payload tr \<le> MAX_PAYLOAD)"

lemma wf_sockD: "wf_world e w \<Longrightarrow> w_heap w a = Some s \<Longrightarrow> sock_ok w a s"
  by (simp add: wf_world_def)

lemma wf_peerD:
  "wf_world e w \<Longrightarrow> w_heap w a = Some s \<Longrightarrow> s_peer s = Some p \<Longrightarrow> e \<noteq> Some a \<Longrightarrow>
     p \<noteq> a \<and> (\<exists>ps. w_heap w p = Some ps \<and> s_peer ps = Some a)"
  unfolding wf_world_def peers_ok_def by blast

lemma sock_Some [simp]: "w_heap w a = Some s \<Longrightarrow> sock a w = Inr s"
  by (simp add: sock_def)

lemma mod_sock_Some [simp]: "w_heap w a = Some s \<Longrightarrow> mod_sock a f w = Inr (set_sock a (f s) w)"
  by (simp add: mod_sock_def)

lemma set_sock_simps [simp]:
  "w_heap (set_sock a s w) = (w_heap w)(a \<mapsto> s)" "w_local_list (set_sock a s w) = w_local_list w"
  "w_closing_list (set_sock a s w) = w_closing_list w" "w_next (set_sock a s w) = w_next w"
  "w_next_id (set_sock a s w) = w_next_id w" "w_transports (set_sock a s w) = w_transports w"
  "w_replies (set_sock a s w) = w_replies w" "w_closed_fds (set_sock a s w) = w_closed_fds w"
  by (simp_all add: set_sock_def)

lemma set_trans_simps [simp]:
  "w_heap (set_trans t tr w) = w_heap w" "w_local_list (set_trans t tr w) = w_local_list w"
  "w_closing_list (set_trans t tr w) = w_closing_list w" "w_next (set_trans t tr w) = w_next w"
  "w_next_id (set_trans t tr w) = w_next_id w" "w_transports (set_trans t tr w) = (w_transports w)(t \<mapsto> tr)"
  "w_replies (set_trans t tr w) = w_replies w"
  by (simp_all add: set_trans_def)

lemma w_reply_simps [simp]:
  "w_heap (w_reply fd bs w) = w_heap w" "w_local_list (w_reply fd bs w) = w_local_list w"
  "w_closing_list (w_reply fd bs w) = w_closing_list w" "w_next (w_reply fd bs w) = w_next w"
  "w_next_id (w_reply fd bs w) = w_next_id w" "w_transports (w_reply fd bs w) = w_transports w"
  by (simp_all add: w_reply_def)

subsection \<open>Updates that keep the invariant\<close>

lemma wf_worldI:
  assumes "\<And>a s. w_heap w a = Some s \<Longrightarrow> sock_ok w a s" "peers_ok e (w_heap w)" "ids_ok (w_heap w)"
    "lists_ok w" "\<And>a. w_next w \<le> a \<Longrightarrow> w_heap w a = None" "w_next_id w \<noteq> 0"
    "\<And>t tr. w_transports w t = Some tr \<Longrightarrow> t_max_payload tr \<le> MAX_PAYLOAD"
  shows "wf_world e w"
  using assms by (simp add: wf_world_def)

lemma wf_worldD:
  assumes "wf_world e w"
  shows "peers_ok e (w_heap w)" "ids_ok (w_heap w)" "lists_ok w" "\<And>a. w_next w \<le> a \<Longrightarrow> w_heap w a = None"
    "w_next_id w \<noteq> 0" "\<And>t tr. w_transports w t = Some tr \<Longrightarrow> t_max_payload tr \<le> MAX_PAYLOAD"
  using assms by (auto simp: wf_world_def)

lemma wf_reply [simp]: "wf_world e (w_reply fd bs w) = wf_world e w"
  by (simp add: wf_world_def sock_ok_def lists_ok_def)

lemma wf_set_trans:
  assumes "wf_world e w" "w_transports w t = Some tr" "t_max_payload tr' = t_max_payload tr"
  shows "wf_world e (set_trans t tr' w)"
proof (rule wf_worldI)
  show "sock_ok (set_trans t tr' w) a s" if "w_heap (set_trans t tr' w) a = Some s" for a s
    by (rule sock_ok_mono [of w]) (use assms that in \<open>auto intro: wf_sockD\<close>)
  show "lists_ok (set_trans t tr' w)" using wf_worldD(3) [OF assms(1)] by (simp add: lists_ok_def)
qed (use assms wf_worldD [OF assms(1)] in \<open>auto split: if_splits\<close>)

lemma peers_ok_upd:
  assumes "peers_ok e h" "h a = Some s" "s_peer s' = s_peer s"
  shows "peers_ok e (h(a \<mapsto> s'))"
  using assms unfolding peers_ok_def by (auto; metis option.inject)

lemma ids_ok_upd:
  assumes "ids_ok h" "h a = Some s" "s_id s' = s_id s" "s_enqueue s' = s_enqueue s"
  shows "ids_ok (h(a \<mapsto> s'))"
  using assms unfolding ids_ok_def is_local_def by (auto; metis)

text \<open>A change of a socket that keeps its identity and its list.\<close>

lemma wf_update:
  assumes wf: "wf_world e w" and s: "w_heap w a = Some s" and ok: "sock_ok w a s'"
    and same: "s_id s' = s_id s" "s_enqueue s' = s_enqueue s" "s_closing s' = s_closing s"
    and peers: "peers_ok e' ((w_heap w)(a \<mapsto> s'))"
  shows "wf_world e' (set_sock a s' w)"
proof (rule wf_worldI)
  show "ids_ok (w_heap (set_sock a s' w))"
    using ids_ok_upd [OF wf_worldD(2) [OF wf] s same(1,2)] by simp
  show "lists_ok (set_sock a s' w)"
    using wf_worldD(3) [OF wf] s same unfolding lists_ok_def is_local_def by auto
  show "sock_ok (set_sock a s' w) b x" if "w_heap (set_sock a s' w) b = Some x" for b x
    by (rule sock_ok_mono [of w]) (use wf ok that in \<open>auto intro: wf_sockD split: if_splits\<close>)
  show "peers_ok e' (w_heap (set_sock a s' w))" using peers by simp
qed (use wf_worldD(4-6) [OF wf] s in \<open>auto split: if_splits\<close>)

lemma wf_set_sock:
  assumes wf: "wf_world e w" and s: "w_heap w a = Some s" and ok: "sock_ok w a s'"
    and same: "s_peer s' = s_peer s" "s_id s' = s_id s" "s_enqueue s' = s_enqueue s" "s_closing s' = s_closing s"
  shows "wf_world e (set_sock a s' w)"
  by (rule wf_update [OF wf s ok same(2-4) peers_ok_upd [OF wf_worldD(1) [OF wf] s same(1)]])

lemma sock_ok_peer: "sock_ok w a s \<Longrightarrow> sock_ok w a (s\<lparr>s_peer := None\<rparr>)"
  by (cases "s_enqueue s") (simp_all add: sock_ok_def kind_ok_def waiting_ok_def is_local_def)

text \<open>Cutting the pointer back: the other side is the exception until it is cut too.\<close>

lemma wf_clear_back:
  assumes wf: "wf_world None w" and p: "w_heap w p = Some ps" "s_peer ps = Some a"
  shows "wf_world (Some a) (set_sock p (ps\<lparr>s_peer := None\<rparr>) w)"
proof (rule wf_update [OF wf p(1) sock_ok_peer [OF wf_sockD [OF wf p(1)]]])
  let ?h = "(w_heap w)(p \<mapsto> ps\<lparr>s_peer := None\<rparr>)"
  show "peers_ok (Some a) ?h"
    unfolding peers_ok_def
  proof (intro allI impI)
    fix b s q
    assume b: "?h b = Some s" "s_peer s = Some q" "Some a \<noteq> Some b"
    then have bp: "b \<noteq> p" "w_heap w b = Some s" by (auto split: if_splits)
    from wf_peerD [OF wf bp(2) b(2)] obtain qs where q: "q \<noteq> b" "w_heap w q = Some qs" "s_peer qs = Some b" by auto
    then have "q \<noteq> p" using p b(3) by auto
    with q show "q \<noteq> b \<and> (\<exists>ps'. ?h q = Some ps' \<and> s_peer ps' = Some b)" by simp
  qed
qed simp_all

definition pointed :: "addr \<Rightarrow> world \<Rightarrow> bool" where
  "pointed a w \<longleftrightarrow> (\<exists>b s. w_heap w b = Some s \<and> s_peer s = Some a)"

lemma not_pointed_detached:
  assumes "wf_world None w" "w_heap w a = Some s" "s_peer s = None"
  shows "\<not> pointed a w"
proof
  assume "pointed a w"
  then obtain b x where "w_heap w b = Some x" "s_peer x = Some a" by (auto simp: pointed_def)
  with wf_peerD [OF assms(1) this] assms(2,3) show False by auto
qed

lemma not_pointed_cut:
  assumes wf: "wf_world None w" and a: "w_heap w a = Some s" "s_peer s = Some p" and p: "w_heap w p = Some ps"
  shows "\<not> pointed a (set_sock p (ps\<lparr>s_peer := None\<rparr>) w)"
proof
  assume "pointed a (set_sock p (ps\<lparr>s_peer := None\<rparr>) w)"
  then obtain b x where b: "b \<noteq> p" "w_heap w b = Some x" "s_peer x = Some a"
    by (auto simp: pointed_def split: if_splits)
  with wf_peerD [OF wf b(2,3)] a show False by auto
qed

subsection \<open>Removing a socket\<close>

lemma remove_socket_simps [simp]:
  "w_heap (remove_socket a w) = w_heap w" "w_next (remove_socket a w) = w_next w"
  "w_next_id (remove_socket a w) = w_next_id w" "w_transports (remove_socket a w) = w_transports w"
  "w_local_list (remove_socket a w) = removeAll a (w_local_list w)"
  "w_closing_list (remove_socket a w) = removeAll a (w_closing_list w)"
  by (simp_all add: remove_socket_def)

text \<open>Nobody but the exception points to \<open>a\<close>.\<close>

definition unpointed :: "addr option \<Rightarrow> addr \<Rightarrow> world \<Rightarrow> bool" where
  "unpointed e a w \<longleftrightarrow> (\<forall>b s. w_heap w b = Some s \<longrightarrow> s_peer s = Some a \<longrightarrow> e = Some b)"

lemma unpointed_detached:
  assumes "wf_world e w" "w_heap w a = Some s" "s_peer s = None"
  shows "unpointed e a w"
  unfolding unpointed_def
proof (intro allI impI)
  fix b x
  assume "w_heap w b = Some x" "s_peer x = Some a"
  with wf_peerD [OF assms(1) this] assms(2,3) show "e = Some b" by auto
qed

lemma wf_remove:
  assumes wf: "wf_world e w" and un: "unpointed e a w" and e': "e' = e \<or> e = Some a \<and> e' = None"
  shows "wf_world e' ((remove_socket a w)\<lparr>w_heap := (w_heap w)(a := None)\<rparr>)"
proof (rule wf_worldI)
  let ?w = "(remove_socket a w)\<lparr>w_heap := (w_heap w)(a := None)\<rparr>"
  show "sock_ok ?w b x" if "w_heap ?w b = Some x" for b x
    by (rule sock_ok_mono [of w]) (use wf that in \<open>auto intro: wf_sockD split: if_splits\<close>)
  show "ids_ok (w_heap ?w)"
    using wf_worldD(2) [OF wf] unfolding ids_ok_def by (auto split: if_splits)
  show "lists_ok ?w" using wf_worldD(3) [OF wf] by (auto simp: lists_ok_def distinct_removeAll)
  have "peers_ok e' ((w_heap w)(a := None))"
    unfolding peers_ok_def
  proof (intro allI impI)
    fix b s q
    assume b: "((w_heap w)(a := None)) b = Some s" "s_peer s = Some q" "e' \<noteq> Some b"
    then have hb: "b \<noteq> a" "w_heap w b = Some s" "e \<noteq> Some b" using e' by (auto split: if_splits)
    from wf_peerD [OF wf hb(2) b(2) hb(3)] obtain qs where q: "q \<noteq> b" "w_heap w q = Some qs" "s_peer qs = Some b" by auto
    moreover have "q \<noteq> a" using un hb b(2) by (auto simp: unpointed_def)
    ultimately show "q \<noteq> b \<and> (\<exists>ps. ((w_heap w)(a := None)) q = Some ps \<and> s_peer ps = Some b)" by simp
  qed
  then show "peers_ok e' (w_heap ?w)" by simp
qed (use wf_worldD(4-6) [OF wf] in \<open>auto split: if_splits\<close>)

lemma remove_not_local:
  assumes "wf_world e w" "w_heap w a = Some s" "\<not> is_local s"
  shows "remove_socket a w = w"
proof -
  have "a \<notin> set (w_local_list w)" "a \<notin> set (w_closing_list w)"
    using wf_worldD(3) [OF assms(1)] assms(2,3) by (auto simp: lists_ok_def)
  then show ?thesis by (simp add: remove_socket_def removeAll_id)
qed

lemma wf_delete_sock:
  assumes wf: "wf_world e w" and a: "w_heap w a = Some s" "\<not> is_local s" and un: "unpointed e a w"
    and e': "e' = e \<or> e = Some a \<and> e' = None"
  shows "delete_sock a w = Inr (w\<lparr>w_heap := (w_heap w)(a := None)\<rparr>)"
    and "wf_world e' (w\<lparr>w_heap := (w_heap w)(a := None)\<rparr>)"
  using wf_remove [OF wf un e'] remove_not_local [OF wf a] a(1) by (simp_all add: delete_sock_def)

lemma wf_closed_fds [simp]: "wf_world e (w\<lparr>w_closed_fds := x\<rparr>) = wf_world e w"
  by (simp add: wf_world_def sock_ok_def lists_ok_def)

text \<open>What closing the detached socket \<open>p\<close> may change.\<close>

definition closed :: "addr option \<Rightarrow> addr \<Rightarrow> world \<Rightarrow> world \<Rightarrow> bool" where
  "closed e p w w' \<longleftrightarrow> wf_world e w' \<and> (\<forall>b. b \<noteq> p \<longrightarrow> w_heap w' b = w_heap w b)
     \<and> (\<forall>s. w_heap w' p = Some s \<longrightarrow> s_peer s = None \<and> s_closing s)
     \<and> w_local_list w' = removeAll p (w_local_list w) \<and> w_transports w' = w_transports w
     \<and> w_next w' = w_next w \<and> w_next_id w' = w_next_id w"

lemma local_socket_destroy_ok:
  assumes wf: "wf_world e w" and a: "w_heap w a = Some s" "is_local s" and un: "unpointed e a w"
    and e': "e' = e \<or> e = Some a \<and> e' = None"
  shows "safe (closed e' a w) (local_socket_destroy a w)"
proof -
  let ?w = "w\<lparr>w_closed_fds := w_closed_fds w @ [s_fd s]\<rparr>"
  have "wf_world e' ((remove_socket a ?w)\<lparr>w_heap := (w_heap w)(a := None)\<rparr>)"
    using wf_remove [of e ?w a e'] wf un e' by (simp add: unpointed_def)
  moreover have "s_has_fde s" using wf_sockD [OF wf a(1)] a(2) by (simp add: sock_ok_def kind_ok_def is_local_def)
  ultimately show ?thesis using a(1)
    by (simp add: local_socket_destroy_def delete_sock_def sock_def closed_def)
qed


subsection \<open>Closing\<close>

lemma kind_local:
  assumes "sock_ok w a s" "is_local s"
  shows "\<not> s_shutdown s" "s_close s = local_close_fn \<or> s_close s = local_close_notify_fn" "s_has_fde s"
    "s_id s \<noteq> 0" "s_closing s \<Longrightarrow> s_peer s = None" "waiting_ok s"
    "s_ready s = local_ready_fn \<or> s_ready s = local_ready_notify_fn"
  using assms by (auto simp: sock_ok_def kind_ok_def is_local_def)

lemma wf_to_closing:
  assumes wf: "wf_world e w" and a: "w_heap w a = Some s" "is_local s" "\<not> s_closing s" "s_peer s = None"
  shows "wf_world e ((remove_socket a (set_sock a (s\<lparr>s_closing := True, s_fde_read := False\<rparr>) w))
           \<lparr>w_closing_list := removeAll a (w_closing_list w) @ [a]\<rparr>)"
proof (rule wf_worldI)
  let ?s = "s\<lparr>s_closing := True, s_fde_read := False\<rparr>"
  let ?w = "(remove_socket a (set_sock a ?s w))\<lparr>w_closing_list := removeAll a (w_closing_list w) @ [a]\<rparr>"
  have ok: "sock_ok w a s" by (rule wf_sockD [OF wf a(1)])
  show "sock_ok ?w b x" if b: "w_heap ?w b = Some x" for b x
  proof (cases "b = a")
    case True
    then show ?thesis using b ok a by (auto simp: sock_ok_def kind_ok_def waiting_ok_def is_local_def)
  next
    case False
    then show ?thesis using b by (intro sock_ok_mono [OF wf_sockD [OF wf]]) auto
  qed
  show "peers_ok e (w_heap ?w)" using peers_ok_upd [OF wf_worldD(1) [OF wf] a(1), of ?s] by simp
  show "ids_ok (w_heap ?w)" using ids_ok_upd [OF wf_worldD(2) [OF wf] a(1), of ?s] by simp
  show "lists_ok ?w"
    using wf_worldD(3) [OF wf] a unfolding lists_ok_def is_local_def by (auto simp: distinct_removeAll)
qed (use wf_worldD(4-6) [OF wf] a in \<open>auto split: if_splits\<close>)

lemma local_socket_finish_ok:
  assumes wf: "wf_world e w" and a: "w_heap w a = Some s" "is_local s" "s_peer s = None"
  shows "safe (closed e a w) (local_socket_finish a w)"
proof (cases "s_closing s \<or> s_has_write_error s \<or> iov_size (s_packet_queue s) = 0")
  case True
  then show ?thesis
    using local_socket_destroy_ok [OF wf a(1,2) unpointed_detached [OF wf a(1,3)]] a(1)
    by (simp add: local_socket_finish_def)
next
  case False
  then show ?thesis
    using wf_to_closing [OF wf a(1,2) _ a(3)] kind_local [OF wf_sockD [OF wf a(1)] a(2)] a
    by (auto simp: local_socket_finish_def waiting_ok_def closed_def Let_def)
qed

text \<open>One call through the pointer \<open>s->close\<close>.\<close>

lemma socket_close_step:
  assumes "w_heap w a = Some s"
  shows "s_close s = local_close_fn \<Longrightarrow> socket_close env (Suc n) a w = local_socket_close env (socket_close env n) a w"
    "s_close s = remote_close_fn \<Longrightarrow> socket_close env (Suc n) a w = remote_socket_close (socket_close env n) a w"
    "s_close s = smart_close_fn \<Longrightarrow> socket_close env (Suc n) a w = smart_socket_close (socket_close env n) a w"
    "s_close s = local_close_notify_fn \<Longrightarrow> socket_close env (Suc n) a w =
       socket_close env n a (w_reply (s_fd s) (fail_reply ''closed'')
         (set_sock a (s\<lparr>s_ready := local_ready_fn, s_shutdown := False, s_close := local_close_fn\<rparr>) w))"
  using assms by (simp_all add: local_socket_close_notify_def)

declare socket_close.simps [simp del]

lemma closed_from:
  assumes "closed e p w w'" "\<And>b. b \<noteq> p \<Longrightarrow> w_heap w b = w_heap v b" "w_local_list w = w_local_list v"
    "w_transports w = w_transports v" "w_next w = w_next v" "w_next_id w = w_next_id v"
  shows "closed e p v w'"
  using assms by (simp add: closed_def)

lemma close_local_detached:
  assumes wf: "wf_world e w" and p: "w_heap w p = Some ps" "s_peer ps = None" "is_local ps"
    "s_close ps = local_close_fn"
  shows "safe (closed e p w) (socket_close env (Suc n) p w)"
  using local_socket_finish_ok [OF wf p(1,3,2)] p(1,2)
  by (simp add: socket_close_step(1) [OF p(1,4)] local_socket_close_def close_peer_of_local_def)

lemma wf_notified:
  assumes wf: "wf_world e w" and p: "w_heap w p = Some s" "is_local s"
  shows "wf_world e (set_sock p (s\<lparr>s_ready := local_ready_fn, s_shutdown := False, s_close := local_close_fn\<rparr>) w)"
  by (rule wf_set_sock [OF wf p(1)])
     (use wf_sockD [OF wf p(1)] p(2) in \<open>auto simp: sock_ok_def kind_ok_def waiting_ok_def is_local_def\<close>)

lemma close_detached:
  assumes wf: "wf_world e w" and p: "w_heap w p = Some ps" "s_peer ps = None" and e: "e \<noteq> Some p"
  shows "safe (closed e p w) (socket_close env (Suc (Suc n)) p w)"
proof (cases "is_local ps")
  case True
  note k = kind_local [OF wf_sockD [OF wf p(1)] True]
  let ?ps = "ps\<lparr>s_ready := local_ready_fn, s_shutdown := False, s_close := local_close_fn\<rparr>"
  let ?w = "w_reply (s_fd ps) (fail_reply ''closed'') (set_sock p ?ps w)"
  show ?thesis
  proof (cases "s_close ps = local_close_fn")
    case True
    then show ?thesis using close_local_detached [OF wf p \<open>is_local ps\<close>] by simp
  next
    case False
    have "safe (closed e p ?w) (socket_close env (Suc n) p ?w)"
      by (rule close_local_detached [where ps = ?ps])
         (use wf_notified [OF wf p(1) \<open>is_local ps\<close>] p \<open>is_local ps\<close> in \<open>simp_all add: is_local_def\<close>)
    then have "safe (closed e p w) (socket_close env (Suc n) p ?w)"
      by (rule safe_mono) (erule closed_from, simp_all)
    then show ?thesis using False k(2) by (simp add: socket_close_step(4) [OF p(1)])
  qed
next
  case False
  have "s_close ps = remote_close_fn \<or> s_close ps = smart_close_fn"
    using wf_sockD [OF wf p(1)] False by (auto simp: sock_ok_def kind_ok_def is_local_def split: enqueue_fn.splits)
  moreover have "removeAll p (w_local_list w) = w_local_list w"
    using arg_cong [OF remove_not_local [OF wf p(1) False], of w_local_list] by (simp only: remove_socket_simps)
  moreover note wf_delete_sock [OF wf p(1) False unpointed_detached [OF wf p], of e]
  ultimately show ?thesis using p
    by (auto simp: socket_close_step(2,3) [OF p(1)] remote_socket_close_def smart_socket_close_def closed_def)
qed


subsection \<open>Sending\<close>

text \<open>A packet whose header does not claim more data than there is.\<close>

definition sendable :: "apacket \<Rightarrow> bool" where
  "sendable p \<longleftrightarrow> wf_block (payload p) \<and> unat (data_length (msg p)) \<le> bsize (payload p)"

text \<open>What a sent packet changes of a transport: it is queued behind the others, and a failed write
  kicks the connection.\<close>

definition sent_on :: "apacket \<Rightarrow> atransport \<Rightarrow> atransport \<Rightarrow> bool" where
  "sent_on p tr tr' \<longleftrightarrow> (\<exists>q. command (msg q) = command (msg p) \<and> arg0 (msg q) = arg0 (msg p)
     \<and> arg1 (msg q) = arg1 (msg p) \<and> data_length (msg q) = data_length (msg p) \<and> payload q = payload p
     \<and> (tr' = tr\<lparr>t_outgoing := t_outgoing tr @ [q]\<rparr>
        \<or> tr' = transport_Kick (tr\<lparr>t_outgoing := t_outgoing tr @ [q]\<rparr>)))"

definition tr_ext :: "atransport \<Rightarrow> atransport \<Rightarrow> bool" where
  "tr_ext tr tr' \<longleftrightarrow> t_max_payload tr' = t_max_payload tr \<and> t_delayed_ack tr' = t_delayed_ack tr
     \<and> t_connection_state tr' = t_connection_state tr \<and> t_online tr' = t_online tr \<and> t_type tr' = t_type tr
     \<and> t_disconnects tr' = t_disconnects tr \<and> t_auth_id tr' = t_auth_id tr \<and> t_auth_key tr' = t_auth_key tr
     \<and> t_token tr' = t_token tr \<and> t_use_tls tr' = t_use_tls tr \<and> t_keys tr' = t_keys tr
     \<and> (t_kicked tr \<longrightarrow> t_kicked tr') \<and> (\<exists>qs. t_outgoing tr' = t_outgoing tr @ qs)"

definition trans_ext :: "world \<Rightarrow> world \<Rightarrow> bool" where
  "trans_ext w w' \<longleftrightarrow> (\<forall>t. rel_option tr_ext (w_transports w t) (w_transports w' t))"

lemma tr_ext_refl [simp]: "tr_ext tr tr"
  by (simp add: tr_ext_def)

lemma tr_ext_trans: "tr_ext a b \<Longrightarrow> tr_ext b c \<Longrightarrow> tr_ext a c"
  by (auto simp: tr_ext_def)

lemma trans_ext_same: "w_transports w' = w_transports w \<Longrightarrow> trans_ext w w'"
  by (simp add: trans_ext_def option.rel_refl)

lemma trans_ext_trans: "trans_ext a b \<Longrightarrow> trans_ext b c \<Longrightarrow> trans_ext a c"
  unfolding trans_ext_def by (metis (mono_tags, lifting) option.rel_transp tr_ext_trans transpD transpI)

lemma tr_ext_queued: "tr_ext tr (tr\<lparr>t_outgoing := t_outgoing tr @ qs\<rparr>)"
  by (simp add: tr_ext_def)

lemma tr_ext_Kick: "tr_ext tr (transport_Kick tr)"
  by (simp add: tr_ext_def transport_Kick_def)

lemma sent_on_ext: "sent_on p tr tr' \<Longrightarrow> tr_ext tr tr'"
  unfolding sent_on_def by (elim exE conjE disjE) (simp_all add: tr_ext_queued tr_ext_trans [OF tr_ext_queued tr_ext_Kick])
lemma trans_ext_set: "w_transports w t = Some tr \<Longrightarrow> tr_ext tr tr' \<Longrightarrow> trans_ext w (set_trans t tr' w)"
  by (simp add: trans_ext_def option.rel_refl)

lemma stamp_header_ok:
  assumes "sendable p"
  shows "\<exists>q. stamp_header v p = Inr q \<and> command (msg q) = command (msg p) \<and> arg0 (msg q) = arg0 (msg p)
     \<and> arg1 (msg q) = arg1 (msg p) \<and> data_length (msg q) = data_length (msg p) \<and> payload q = payload p"
  using assms by (simp add: stamp_header_def calculate_apacket_checksum_def sendable_def block_load_ok Let_def)

lemma w_send_packet_ok:
  assumes "w_transports w t = Some tr" "sendable p"
  shows "\<exists>tr'. w_send_packet env p t w = Inr (set_trans t tr' w) \<and> sent_on p tr tr'"
proof -
  from stamp_header_ok [OF assms(2), of "t_protocol_version tr"] obtain q
    where q: "stamp_header (t_protocol_version tr) p = Inr q" "command (msg q) = command (msg p)"
      "arg0 (msg q) = arg0 (msg p)" "arg1 (msg q) = arg1 (msg p)" "data_length (msg q) = data_length (msg p)"
      "payload q = payload p" by auto
  let ?tr = "tr\<lparr>t_outgoing := t_outgoing tr @ [q]\<rparr>"
  have "sent_on p tr (if e_send_ok env t then ?tr else transport_Kick ?tr)"
    unfolding sent_on_def by (rule exI [of _ q]) (simp add: q)
  moreover have "w_send_packet env p t w = Inr (set_trans t (if e_send_ok env t then ?tr else transport_Kick ?tr) w)"
    using assms q by (simp add: w_send_packet_def trans_def send_packet_def)
  ultimately show ?thesis by blast
qed

lemma w_send_packet_wf:
  assumes "wf_world e w" "w_transports w t = Some tr" "sendable p"
  shows "\<exists>tr'. w_send_packet env p t w = Inr (set_trans t tr' w) \<and> sent_on p tr tr'
           \<and> wf_world e (set_trans t tr' w) \<and> trans_ext w (set_trans t tr' w)"
proof -
  from w_send_packet_ok [OF assms(2,3)] obtain tr'
    where s: "w_send_packet env p t w = Inr (set_trans t tr' w)" "sent_on p tr tr'" by auto
  note ext = sent_on_ext [OF s(2)]
  then have "wf_world e (set_trans t tr' w)"
    by (intro wf_set_trans [OF assms(1,2)]) (simp add: tr_ext_def)
  with s trans_ext_set [OF assms(2) ext] show ?thesis by blast
qed

lemma sendable_header [simp]: "sendable (header_packet c x y)"
  by (simp add: sendable_def header_packet_def get_apacket_def amessage_zero_def)

lemma remote_socket_shutdown_ok:
  assumes wf: "wf_world e w" and a: "w_heap w a = Some s" "s_shutdown s" "s_peer s = Some p" "w_heap w p = Some ps"
  shows "\<exists>t tr tr'. s_transport s = Some t \<and> w_transports w t = Some tr
           \<and> remote_socket_shutdown env a w = Inr (set_trans t tr' w)
           \<and> sent_on (header_packet A_CLSE (s_id ps) (s_id s)) tr tr'
           \<and> wf_world e (set_trans t tr' w) \<and> trans_ext w (set_trans t tr' w)"
proof -
  have "s_transport s \<noteq> None" "\<forall>t. s_transport s = Some t \<longrightarrow> w_transports w t \<noteq> None"
    using wf_sockD [OF wf a(1)] a(2) by (auto simp: sock_ok_def kind_ok_def split: enqueue_fn.splits)
  then obtain t tr where t: "s_transport s = Some t" "w_transports w t = Some tr" by auto
  with w_send_packet_wf [OF wf t(2) sendable_header, of env A_CLSE "s_id ps" "s_id s"] show ?thesis
    using a by (auto simp: remote_socket_shutdown_def)
qed

subsection \<open>Closing both halves\<close>

definition peer_of :: "world \<Rightarrow> addr \<Rightarrow> addr option" where
  "peer_of w a = Option.bind (w_heap w a) s_peer"

definition shut :: "addr \<Rightarrow> world \<Rightarrow> bool" where
  "shut a w \<longleftrightarrow> (\<forall>s. w_heap w a = Some s \<longrightarrow> s_peer s = None \<and> s_closing s) \<and> a \<notin> set (w_local_list w)"

definition closed_both :: "addr \<Rightarrow> world \<Rightarrow> world \<Rightarrow> bool" where
  "closed_both a w w' \<longleftrightarrow> wf_world None w' \<and> trans_ext w w' \<and> shut a w'
     \<and> (\<forall>p. peer_of w a = Some p \<longrightarrow> shut p w')
     \<and> set (w_local_list w') \<subseteq> set (w_local_list w)
     \<and> (\<forall>b. b \<noteq> a \<longrightarrow> peer_of w a \<noteq> Some b \<longrightarrow> w_heap w' b = w_heap w b)
     \<and> w_next w' = w_next w \<and> w_next_id w' = w_next_id w"

lemma closed_imp_both:
  "closed None a w w' \<Longrightarrow> peer_of w a = None \<Longrightarrow> closed_both a w w'"
  by (auto simp: closed_def closed_both_def shut_def trans_ext_same)

text \<open>The peer was detached and closed; then \<open>a\<close> has its pointer cut or is deleted.\<close>

definition peer_closed :: "addr \<Rightarrow> asocket \<Rightarrow> addr \<Rightarrow> world \<Rightarrow> world \<Rightarrow> bool" where
  "peer_closed a s p w w' \<longleftrightarrow> wf_world (Some a) w' \<and> unpointed (Some a) a w' \<and> w_heap w' a = Some s
     \<and> p \<noteq> a \<and> trans_ext w w' \<and> shut p w' \<and> w_local_list w' = removeAll p (w_local_list w)
     \<and> (\<forall>b. b \<noteq> a \<longrightarrow> b \<noteq> p \<longrightarrow> w_heap w' b = w_heap w b)
     \<and> w_next w' = w_next w \<and> w_next_id w' = w_next_id w"

lemma detach_and_close:
  assumes wf: "wf_world None w" and a: "w_heap w a = Some s" "s_peer s = Some p"
    and p: "w_heap w p = Some ps"
  shows "safe (peer_closed a s p w) (socket_close env (Suc (Suc n)) p (set_sock p (ps\<lparr>s_peer := None\<rparr>) w))"
proof -
  from wf_peerD [OF wf a] p have pa: "p \<noteq> a" "s_peer ps = Some a" by auto
  let ?w = "set_sock p (ps\<lparr>s_peer := None\<rparr>) w"
  have wf1: "wf_world (Some a) ?w" by (rule wf_clear_back [OF wf p pa(2)])
  have cl: "safe (closed (Some a) p ?w) (socket_close env (Suc (Suc n)) p ?w)"
    by (rule close_detached [OF wf1]) (use pa in auto)
  have "peer_closed a s p w w'" if w': "closed (Some a) p ?w w'" for w'
  proof -
    have "unpointed (Some a) a w'"
      unfolding unpointed_def
    proof (intro allI impI)
      fix b x
      assume b: "w_heap w' b = Some x" "s_peer x = Some a"
      show "Some a = Some b"
      proof (rule ccontr)
        assume "Some a \<noteq> Some b"
        moreover have "wf_world (Some a) w'" "w_heap w' a = Some s" using w' pa a by (auto simp: closed_def)
        ultimately have "s_peer s = Some b" using wf_peerD [OF _ b] by auto
        with a b w' show False by (auto simp: closed_def)
      qed
    qed
    with w' pa a show ?thesis by (auto simp: closed_def peer_closed_def shut_def trans_ext_same)
  qed
  with cl show ?thesis by (auto intro: safe_mono)
qed


lemma wf_cut_exempt:
  assumes wf: "wf_world (Some a) w" and a: "w_heap w a = Some s" and un: "unpointed (Some a) a w"
    and p: "s_peer s \<noteq> Some a"
  shows "wf_world None (set_sock a (s\<lparr>s_peer := None\<rparr>) w)"
proof (rule wf_update [OF wf a sock_ok_peer [OF wf_sockD [OF wf a]]])
  let ?h = "(w_heap w)(a \<mapsto> s\<lparr>s_peer := None\<rparr>)"
  show "peers_ok None ?h"
    unfolding peers_ok_def
  proof (intro allI impI)
    fix b x q
    assume b: "?h b = Some x" "s_peer x = Some q"
    then have ba: "b \<noteq> a" "w_heap w b = Some x" by (auto split: if_splits)
    from wf_peerD [OF wf ba(2) b(2)] ba(1) obtain qs where q: "q \<noteq> b" "w_heap w q = Some qs" "s_peer qs = Some b" by auto
    moreover have "q \<noteq> a" using un ba b(2) by (auto simp: unpointed_def)
    ultimately show "q \<noteq> b \<and> (\<exists>ps. ?h q = Some ps \<and> s_peer ps = Some b)" by simp
  qed
qed simp_all

lemma peer_of_Some [simp]: "w_heap w a = Some s \<Longrightarrow> peer_of w a = s_peer s"
  by (simp add: peer_of_def)

lemma closed_both_from:
  assumes "closed_both a w1 w'" "trans_ext w w1" "w_heap w1 = w_heap w" "w_local_list w1 = w_local_list w"
    "w_next w1 = w_next w" "w_next_id w1 = w_next_id w"
  shows "closed_both a w w'"
  using assms trans_ext_trans [OF assms(2)] by (auto simp: closed_both_def peer_of_def)


text \<open>The step from the closed peer to the closed pair, for a local socket and for the others.\<close>

lemma finish_both:
  assumes pc: "peer_closed a s p w w1" and s: "w_heap w a = Some s" "s_peer s = Some p" "is_local s"
  shows "safe (closed_both a w) (local_socket_finish a (set_sock a (s\<lparr>s_peer := None\<rparr>) w1))"
proof -
  let ?w = "set_sock a (s\<lparr>s_peer := None\<rparr>) w1"
  have wf: "wf_world None ?w"
    by (rule wf_cut_exempt) (use pc s in \<open>auto simp: peer_closed_def\<close>)
  have "safe (closed None a ?w) (local_socket_finish a ?w)"
    by (rule local_socket_finish_ok [OF wf, where s = "s\<lparr>s_peer := None\<rparr>"]) (use s in \<open>simp_all add: is_local_def\<close>)
  then show ?thesis
  proof (rule safe_mono)
    fix w'
    assume "closed None a ?w w'"
    then show "closed_both a w w'"
      using pc s by (auto simp: closed_def closed_both_def peer_closed_def shut_def trans_ext_def)
  qed
qed

lemma delete_both:
  assumes pc: "peer_closed a s p w w1" and s: "w_heap w a = Some s" "s_peer s = Some p" "\<not> is_local s"
  shows "safe (closed_both a w) (delete_sock a w1)"
proof -
  have wf: "wf_world (Some a) w1" and un: "unpointed (Some a) a w1" and a: "w_heap w1 a = Some s"
    using pc by (auto simp: peer_closed_def)
  have "a \<notin> set (w_local_list w1)"
    using wf_worldD(3) [OF wf] a s(3) by (auto simp: lists_ok_def)
  with wf_delete_sock [OF wf a s(3) un, of None] pc s show ?thesis
    by (auto simp: peer_closed_def closed_both_def shut_def trans_ext_def)
qed

lemma close_pair_local:
  assumes wf: "wf_world None w" and a: "w_heap w a = Some s" "s_peer s = Some p" "is_local s"
    "s_close s = local_close_fn"
  shows "safe (closed_both a w) (socket_close env (Suc (Suc (Suc n))) a w)"
proof -
  from wf_peerD [OF wf a(1,2)] obtain ps where p: "p \<noteq> a" "w_heap w p = Some ps" "s_peer ps = Some a" by auto
  obtain w1 where w1: "(if s_shutdown ps then remote_socket_shutdown env p w else Inr w) = Inr w1"
      "wf_world None w1" "trans_ext w w1" "w_heap w1 = w_heap w" "w_local_list w1 = w_local_list w"
      "w_next w1 = w_next w" "w_next_id w1 = w_next_id w"
    using remote_socket_shutdown_ok [OF wf p(2) _ p(3) a(1), of env] wf trans_ext_same [of w w]
    by (cases "s_shutdown ps") auto
  have a1: "w_heap w1 a = Some s" and p1: "w_heap w1 p = Some ps" using w1 a p by simp_all
  have "safe (closed_both a w1)
     (rbind (socket_close env (Suc (Suc n)) p (set_sock p (ps\<lparr>s_peer := None\<rparr>) w1)) (\<lambda>w3.
        rbind (mod_sock a (\<lambda>x. x\<lparr>s_peer := None\<rparr>) w3) (local_socket_finish a)))"
  proof (rule safe_rbind [OF detach_and_close [OF w1(2) a1 a(2) p1]])
    fix w3
    assume pc: "peer_closed a s p w1 w3"
    then have "w_heap w3 a = Some s" by (simp add: peer_closed_def)
    with finish_both [OF pc a1 a(2,3)]
    show "safe (closed_both a w1) (rbind (mod_sock a (\<lambda>x. x\<lparr>s_peer := None\<rparr>) w3) (local_socket_finish a))" by simp
  qed
  then show ?thesis
    using w1 a p closed_both_from [OF _ w1(3-7)]
    by (simp add: socket_close_step(1) [OF a(1,4)] local_socket_close_def close_peer_of_local_def rbind_assoc safe_mono)
qed


lemma close_pair_other:
  assumes wf: "wf_world None w" and a: "w_heap w a = Some s" "s_peer s = Some p" "\<not> is_local s"
  shows "safe (closed_both a w) (socket_close env (Suc (Suc (Suc n))) a w)"
proof -
  from wf_peerD [OF wf a(1,2)] obtain ps where p: "p \<noteq> a" "w_heap w p = Some ps" "s_peer ps = Some a" by auto
  note cl = detach_and_close [OF wf a(1,2) p(2), of env n]
  consider "s_close s = remote_close_fn" | "s_close s = smart_close_fn"
    using wf_sockD [OF wf a(1)] a(3) by (auto simp: sock_ok_def kind_ok_def is_local_def split: enqueue_fn.splits)
  then show ?thesis
  proof cases
    case 1
    have "safe (closed_both a w) (rbind (socket_close env (Suc (Suc n)) p (set_sock p (ps\<lparr>s_peer := None\<rparr>) w)) (delete_sock a))"
      by (rule safe_rbind [OF cl]) (rule delete_both [OF _ a])
    then show ?thesis using a p by (simp add: socket_close_step(2) [OF a(1) 1] remote_socket_close_def rbind_assoc)
  next
    case 2
    have "safe (closed_both a w) (rbind (socket_close env (Suc (Suc n)) p (set_sock p (ps\<lparr>s_peer := None\<rparr>) w))
       (\<lambda>w3. rbind (mod_sock a (\<lambda>x. x\<lparr>s_peer := None\<rparr>) w3) (delete_sock a)))"
    proof (rule safe_rbind [OF cl])
      fix w3
      assume pc: "peer_closed a s p w w3"
      have "delete_sock a (set_sock a (s\<lparr>s_peer := None\<rparr>) w3) = delete_sock a w3"
        using pc by (simp add: delete_sock_def peer_closed_def set_sock_def)
      with delete_both [OF pc a] pc
      show "safe (closed_both a w) (rbind (mod_sock a (\<lambda>x. x\<lparr>s_peer := None\<rparr>) w3) (delete_sock a))"
        by (simp add: peer_closed_def)
    qed
    then show ?thesis using a p by (simp add: socket_close_step(3) [OF a(1) 2] smart_socket_close_def rbind_assoc)
  qed
qed

lemma s_do_close_Suc: "s_do_close env a w = socket_close env (Suc (Suc (Suc (Suc 0)))) a w"
  by (simp add: s_do_close_def close_depth_def numeral_eq_Suc)

lemma s_do_close_ok:
  assumes wf: "wf_world None w" and a: "w_heap w a = Some s"
  shows "safe (closed_both a w) (s_do_close env a w)"
proof (cases "s_peer s")
  case None
  show ?thesis
    unfolding s_do_close_Suc by (rule safe_mono [OF close_detached [OF wf a None]]) (simp_all add: closed_imp_both a None)
next
  case (Some p)
  let ?s = "s\<lparr>s_ready := local_ready_fn, s_shutdown := False, s_close := local_close_fn\<rparr>"
  let ?w = "w_reply (s_fd s) (fail_reply ''closed'') (set_sock a ?s w)"
  consider "\<not> is_local s" | "is_local s" "s_close s = local_close_fn" | "is_local s" "s_close s = local_close_notify_fn"
    using kind_local(2) [OF wf_sockD [OF wf a]] by blast
  then show ?thesis
  proof cases
    case 1
    then show ?thesis unfolding s_do_close_Suc by (rule close_pair_other [OF wf a Some])
  next
    case 2
    then show ?thesis unfolding s_do_close_Suc by (rule close_pair_local [OF wf a Some])
  next
    case 3
    have "safe (closed_both a ?w) (socket_close env (Suc (Suc (Suc 0))) a ?w)"
      by (rule close_pair_local [where s = ?s])
         (use wf_notified [OF wf a 3(1)] 3 Some in \<open>simp_all add: is_local_def\<close>)
    then show ?thesis
      unfolding s_do_close_Suc socket_close_step(4) [OF a 3(2)]
      by (rule safe_mono) (use a in \<open>auto simp: closed_both_def peer_of_def trans_ext_def\<close>)
  qed
qed


subsection \<open>Closing all sockets of a transport\<close>

text \<open>The sockets without a descriptor are one half of a pair whose other half is a local socket.\<close>

definition attached :: "world \<Rightarrow> bool" where
  "attached w \<longleftrightarrow> (\<forall>a s. w_heap w a = Some s \<longrightarrow> \<not> is_local s \<longrightarrow>
     (\<exists>p ps. s_peer s = Some p \<and> w_heap w p = Some ps \<and> is_local ps))"

definition good :: "world \<Rightarrow> bool" where
  "good w \<longleftrightarrow> wf_world None w \<and> attached w"

lemma closed_both_other:
  assumes cb: "closed_both a w w'" and wf: "wf_world None w" and b: "b \<noteq> a" "peer_of w a \<noteq> Some b"
    "w_heap w b = Some s" "s_peer s = Some q" and a: "w_heap w a \<noteq> None"
  shows "w_heap w' q = w_heap w q"
proof -
  from wf_peerD [OF wf b(3,4)] obtain qs where q: "w_heap w q = Some qs" "s_peer qs = Some b" by auto
  have "q \<noteq> a" using b q by auto
  moreover have "peer_of w a \<noteq> Some q"
  proof
    assume p: "peer_of w a = Some q"
    from a obtain as where as: "w_heap w a = Some as" by auto
    from wf_peerD [OF wf as] p as q b show False by auto
  qed
  ultimately show ?thesis using cb by (simp add: closed_both_def)
qed

lemma attached_closed_both:
  assumes cb: "closed_both a w w'" and g: "good w" and a: "w_heap w a \<noteq> None"
  shows "good w'"
proof -
  have wf: "wf_world None w" "wf_world None w'" using g cb by (auto simp: good_def closed_both_def)
  have "attached w'"
    unfolding attached_def
  proof (intro allI impI)
    fix b s
    assume b: "w_heap w' b = Some s" "\<not> is_local s"
    have nc: "\<not> s_closing s"
      using wf_sockD [OF wf(2) b(1)] b(2) by (auto simp: sock_ok_def kind_ok_def is_local_def split: enqueue_fn.splits)
    then have ne: "b \<noteq> a" "peer_of w a \<noteq> Some b" using cb b(1) by (auto simp: closed_both_def shut_def)
    then have wb: "w_heap w b = Some s" using cb b(1) by (auto simp: closed_both_def)
    then obtain p ps where p: "s_peer s = Some p" "w_heap w p = Some ps" "is_local ps"
      using g b(2) unfolding good_def attached_def by blast
    with closed_both_other [OF cb wf(1) ne wb p(1) a]
    show "\<exists>p ps. s_peer s = Some p \<and> w_heap w' p = Some ps \<and> is_local ps" by auto
  qed
  with wf show ?thesis by (simp add: good_def)
qed

text \<open>The condition of the loop: the socket or its peer uses the transport.\<close>

definition belongs :: "tptr \<Rightarrow> addr \<Rightarrow> world \<Rightarrow> bool" where
  "belongs t a w \<longleftrightarrow> (case w_heap w a of None \<Rightarrow> False
     | Some s \<Rightarrow> s_transport s = Some t \<or>
         (case s_peer s of None \<Rightarrow> False | Some p \<Rightarrow> (case w_heap w p of None \<Rightarrow> False
            | Some ps \<Rightarrow> s_transport ps = Some t)))"

lemma find_socket_of_ok:
  assumes wf: "wf_world None w" and as: "\<And>a. a \<in> set as \<Longrightarrow> w_heap w a \<noteq> None"
  shows "\<exists>r. find_socket_of t as w = Inr r \<and> (case r of None \<Rightarrow> (\<forall>a\<in>set as. \<not> belongs t a w)
           | Some a \<Rightarrow> a \<in> set as \<and> belongs t a w)"
  using as
proof (induction as)
  case (Cons a as)
  from Cons.prems obtain s where s: "w_heap w a = Some s" by force
  have p: "\<exists>ps. w_heap w p = Some ps" if "s_peer s = Some p" for p using wf_peerD [OF wf s that] by auto
  from Cons obtain r where "find_socket_of t as w = Inr r" "case r of None \<Rightarrow> (\<forall>a\<in>set as. \<not> belongs t a w)
           | Some a \<Rightarrow> a \<in> set as \<and> belongs t a w" by auto
  with s p show ?case by (cases "s_peer s"; cases r) (auto simp: belongs_def)
qed simp

text \<open>A socket that does not belong to the transport is not touched when one that does is closed.\<close>

lemma close_keeps_others:
  assumes cb: "closed_both a w w'" and wf: "wf_world None w" and a: "belongs t a w"
    and b: "b \<in> set (w_local_list w)" "\<not> belongs t b w"
  shows "b \<in> set (w_local_list w')" "w_heap w' b = w_heap w b" "\<not> belongs t b w'"
proof -
  from a obtain as where as: "w_heap w a = Some as" by (auto simp: belongs_def split: option.splits)
  from b(1) wf_worldD(3) [OF wf] obtain s where s: "w_heap w b = Some s" "is_local s" "\<not> s_closing s"
    by (auto simp: lists_ok_def)
  have ne: "b \<noteq> a" using a b by auto
  have np: "peer_of w a \<noteq> Some b"
  proof
    assume p: "peer_of w a = Some b"
    with as wf_peerD [OF wf as] s have "s_peer s = Some a" by auto
    with a b(2) as s p show False by (auto simp: belongs_def)
  qed
  show h: "w_heap w' b = w_heap w b" using cb ne np by (simp add: closed_both_def)
  have "wf_world None w'" using cb by (simp add: closed_both_def)
  from wf_sockD [OF this, of b s] h s show "b \<in> set (w_local_list w')" by (simp add: sock_ok_def)
  have "w_heap w' q = w_heap w q" if "s_peer s = Some q" for q
    using closed_both_other [OF cb wf ne np s(1) that] as by simp
  with h s b(2) show "\<not> belongs t b w'" by (auto simp: belongs_def split: option.splits)
qed

text \<open>The result of \<open>close_all_sockets\<close>.\<close>

definition all_closed :: "tptr \<Rightarrow> world \<Rightarrow> world \<Rightarrow> bool" where
  "all_closed t w w' \<longleftrightarrow> good w' \<and> trans_ext w w'
     \<and> (\<forall>a\<in>set (w_local_list w'). \<not> belongs t a w')
     \<and> (\<forall>b\<in>set (w_local_list w). \<not> belongs t b w \<longrightarrow> b \<in> set (w_local_list w') \<and> w_heap w' b = w_heap w b)"

lemma close_all_sockets_ok:
  assumes "good w"
  shows "\<exists>r. close_all_sockets env t w = Some r \<and> safe (all_closed t w) r"
  using assms
proof (induction "card (set (w_local_list w))" arbitrary: w rule: less_induct)
  case less
  have wf: "wf_world None w" using less.prems by (simp add: good_def)
  have "\<And>a. a \<in> set (w_local_list w) \<Longrightarrow> w_heap w a \<noteq> None"
    using wf_worldD(3) [OF wf] by (auto simp: lists_ok_def)
  from find_socket_of_ok [OF wf this, of "w_local_list w" t] obtain r
    where r: "find_socket_of t (w_local_list w) w = Inr r" "case r of None \<Rightarrow> (\<forall>a\<in>set (w_local_list w). \<not> belongs t a w)
           | Some a \<Rightarrow> a \<in> set (w_local_list w) \<and> belongs t a w" by auto
  show ?case
  proof (cases r)
    case None
    with r less.prems show ?thesis
      by (subst close_all_sockets.simps) (auto simp: all_closed_def trans_ext_same)
  next
    case (Some a)
    with r have a: "a \<in> set (w_local_list w)" "belongs t a w" by auto
    then obtain s where s: "w_heap w a = Some s" by (auto simp: belongs_def split: option.splits)
    note cl = s_do_close_ok [OF wf s, of env]
    show ?thesis
    proof (cases "s_do_close env a w")
      case (Inl e)
      with cl r Some show ?thesis by (subst close_all_sockets.simps) simp
    next
      case (Inr w')
      with cl have cb: "closed_both a w w'" by simp
      have "set (w_local_list w') \<subset> set (w_local_list w)" using cb a(1) by (auto simp: closed_both_def shut_def)
      then have "card (set (w_local_list w')) < card (set (w_local_list w))" by (simp add: psubset_card_mono)
      moreover have "good w'" using attached_closed_both [OF cb less.prems] s by simp
      ultimately obtain r' where r': "close_all_sockets env t w' = Some r'" "safe (all_closed t w') r'"
        using less.hyps by blast
      have "close_all_sockets env t w = Some r'"
        using r Some Inr r' by (subst close_all_sockets.simps) simp
      moreover have "all_closed t w w''" if "all_closed t w' w''" for w''
        using that cb close_keeps_others [OF cb wf a(2)] trans_ext_trans
        unfolding all_closed_def closed_both_def by metis
      ultimately show ?thesis using r'(2) by (auto intro: safe_mono)
    qed
  qed
qed


subsection \<open>Lookup\<close>

definition peer_id_is :: "u32 \<Rightarrow> addr \<Rightarrow> world \<Rightarrow> bool" where
  "peer_id_is i a w \<longleftrightarrow> (case peer_of w a of None \<Rightarrow> False
     | Some p \<Rightarrow> (case w_heap w p of None \<Rightarrow> False | Some ps \<Rightarrow> s_id ps = i))"

definition has_ids :: "u32 \<Rightarrow> u32 \<Rightarrow> addr \<Rightarrow> world \<Rightarrow> bool" where
  "has_ids local_id peer_id a w \<longleftrightarrow>
     (case w_heap w a of None \<Rightarrow> False | Some s \<Rightarrow> s_id s = local_id \<and> (peer_id = 0 \<or> peer_id_is peer_id a w))"

lemma find_local_socket_in_ok:
  assumes wf: "wf_world None w" and as: "\<And>a. a \<in> set as \<Longrightarrow> \<exists>s. w_heap w a = Some s \<and> is_local s"
  shows "\<exists>r. find_local_socket_in i j as w = Inr r \<and> (\<forall>a. r = Some a \<longleftrightarrow> a \<in> set as \<and> has_ids i j a w)"
  using as
proof (induction as)
  case (Cons a as)
  from Cons.prems obtain s where s: "w_heap w a = Some s" "is_local s" by force
  have p: "\<exists>ps. w_heap w p = Some ps" if "s_peer s = Some p" for p using wf_peerD [OF wf s(1) that] by auto
  have uniq: "b = a" if "s_id s = i" "b \<in> set as" "has_ids i j b w" for b
  proof -
    from Cons.prems [of b] that(2) obtain x where "w_heap w b = Some x" "is_local x" by auto
    with wf_worldD(2) [OF wf] s that(1,3) show ?thesis unfolding ids_ok_def has_ids_def by auto
  qed
  from Cons obtain r where r: "find_local_socket_in i j as w = Inr r"
    "\<And>a. r = Some a \<longleftrightarrow> a \<in> set as \<and> has_ids i j a w" by auto
  show ?case
  proof (cases "s_id s = i")
    case False
    then have "\<not> has_ids i j a w" using s by (simp add: has_ids_def)
    with False r s show ?thesis by auto
  next
    case True
    then have "find_local_socket_in i j (a # as) w = Inr (if has_ids i j a w then Some a else None)"
      using s p by (cases "s_peer s") (auto simp: has_ids_def peer_id_is_def)
    with uniq [OF True] show ?thesis by auto
  qed
qed simp

text \<open>Looking up a socket by its identifiers finds it exactly when it is in the list: the socket
  with this identifier, if the peer's identifier was not given or agrees.\<close>

theorem find_local_socket_correct:
  assumes "good w"
  shows "\<exists>r. find_local_socket i j w = Inr r
           \<and> (\<forall>a. r = Some a \<longleftrightarrow> a \<in> set (w_local_list w) \<and> has_ids i j a w)"
proof -
  have wf: "wf_world None w" using assms by (simp add: good_def)
  have "\<exists>s. w_heap w a = Some s \<and> is_local s" if "a \<in> set (w_local_list w)" for a
    using wf_worldD(3) [OF wf] that by (auto simp: lists_ok_def)
  from find_local_socket_in_ok [OF wf this] show ?thesis by (simp add: find_local_socket_def)
qed

text \<open>Two open streams: the local socket 1 with its remote half on transport 0, and the local socket 2
  with its remote half on transport 1.\<close>

definition example_local :: "u32 \<Rightarrow> tptr \<Rightarrow> addr \<Rightarrow> asocket" where
  "example_local i t p = new_asocket\<lparr>s_id := i, s_fd := uint i, s_has_fde := True, s_fde_read := True,
     s_transport := Some t, s_peer := Some p\<rparr>"

definition example_remote :: "u32 \<Rightarrow> tptr \<Rightarrow> addr \<Rightarrow> asocket" where
  "example_remote i t p = new_asocket\<lparr>s_id := i, s_enqueue := remote_enqueue_fn, s_ready := remote_ready_fn,
     s_shutdown := True, s_close := remote_close_fn, s_transport := Some t, s_peer := Some p\<rparr>"

definition example_world :: world where
  "example_world = \<lparr>w_heap = [0 \<mapsto> example_local 1 0 1, 1 \<mapsto> example_remote 7 0 0,
                              2 \<mapsto> example_local 2 1 3, 3 \<mapsto> example_remote 7 1 2],
     w_next = 4, w_local_list = [0, 2], w_closing_list = [], w_next_id = 3,
     w_transports = [0 \<mapsto> (new_atransport 1 kTransportUsb kCsDevice)\<lparr>t_online := True\<rparr>,
                     1 \<mapsto> (new_atransport 2 kTransportUsb kCsDevice)\<lparr>t_online := True\<rparr>],
     w_replies = [], w_closed_fds = []\<rparr>"

lemma wf_iov_new [simp]: "wf_iov (s_packet_queue new_asocket)" "iov_size (s_packet_queue new_asocket) = 0"
  by (simp_all add: new_asocket_def iov_size_bytes)

lemma example_good: "good example_world"
proof -
  note d = example_world_def example_local_def example_remote_def is_local_def
  have s: "sock_ok example_world a s" if "w_heap example_world a = Some s" for a s
    using that by (auto simp: d sock_ok_def kind_ok_def waiting_ok_def new_asocket_def iov_size_bytes
        split: if_splits)
  have "peers_ok None (w_heap example_world)" "ids_ok (w_heap example_world)"
    by (auto simp: d peers_ok_def ids_ok_def new_asocket_def split: if_splits)
  moreover have "lists_ok example_world" "attached example_world"
    by (auto simp: d lists_ok_def attached_def new_asocket_def split: if_splits)
  moreover have "w_heap example_world a = None" if "w_next example_world \<le> a" for a
    using that by (auto simp: example_world_def)
  moreover have "w_next_id example_world \<noteq> 0" by (simp add: example_world_def)
  moreover have "t_max_payload tr \<le> MAX_PAYLOAD" if "w_transports example_world t = Some tr" for t tr
    using that by (auto simp: example_world_def new_atransport_def split: if_splits)
  ultimately show ?thesis unfolding good_def by (blast intro: wf_worldI s)
qed

theorem find_local_socket_correct_witness:
  "\<exists>r. find_local_socket 2 7 example_world = Inr r \<and> r = Some 2"
  using find_local_socket_correct [OF example_good, of 2 7]
  by (auto simp: has_ids_def peer_id_is_def peer_of_def example_world_def example_local_def example_remote_def
      new_asocket_def)

end
