(* ===== verification/Socket_Flow.thy ===== *)
theory Socket_Flow
  imports Socket_Safety
begin

text \<open>
  The operations on sockets besides closing: the flow of data between a descriptor and the peer, the
  acknowledgements, the creation of sockets and the smart socket. Every operation keeps the invariant
  \<open>good\<close> of \<open>Socket_Safety\<close> and dereferences no null or dangling pointer.
\<close>

subsection \<open>The environment\<close>

text \<open>\<open>writev\<close> takes at most what it was given, and never more than \<open>MAX_RW_COUNT\<close>, which is less
  than \<open>2^31\<close>.\<close>

definition env_ok :: "env \<Rightarrow> bool" where
  "env_ok env \<longleftrightarrow> (\<forall>a n k. e_writev env a n = Wrote k \<longrightarrow> k \<le> n \<and> k < 2 ^ 31)"

subsection \<open>Writing the queue to the descriptor\<close>

lemma flush_write_ok:
  assumes env: "env_ok env" and q: "wf_iov (s_packet_queue s)"
  shows "\<exists>q' he k. flush_write env a s = Inr (s\<lparr>s_packet_queue := q', s_has_write_error := he\<rparr>, of_nat k)
           \<and> wf_iov q' \<and> k < 2 ^ 31 \<and> k \<le> iov_size (s_packet_queue s)
           \<and> (k \<noteq> 0 \<longrightarrow> e_writev env a (length (iov_bytes (s_packet_queue s))) = Wrote k)
           \<and> iov_bytes q' = drop k (iov_bytes (s_packet_queue s)) \<and> (s_has_write_error s \<longrightarrow> he)"
proof -
  let ?q = "s_packet_queue s"
  obtain ss where ss: "iov_iovecs ?q = Inr ss"
    using iov_iterate_blocks_ok [OF q] by (auto simp: iov_iovecs_def)
  have idle: "?thesis" if "flush_write env a s = Inr (s\<lparr>s_has_write_error := he\<rparr>, 0)" "s_has_write_error s \<longrightarrow> he" for he
    using that q by (intro exI [of _ ?q] exI [of _ he] exI [of _ 0]) simp
  show ?thesis
  proof (cases "iov_size ?q = 0")
    case True
    then show ?thesis by (intro idle [of "s_has_write_error s"]) (simp_all add: flush_write_def)
  next
    case False
    show ?thesis
    proof (cases "e_writev env a (iov_size ?q)")
      case (Wrote n)
      then have n: "n \<le> iov_size ?q" "n < 2 ^ 31" using env by (auto simp: env_ok_def)
      show ?thesis
      proof (cases "n = 0")
        case True
        then show ?thesis using False Wrote ss by (intro idle [of True]) (simp_all add: flush_write_def)
      next
        case nz: False
        obtain q' where q': "(if n = iov_size ?q then Inr (fst (iov_clear ?q)) else iov_drop_front n ?q) = Inr q'"
          "wf_iov q'" "iov_bytes q' = drop n (iov_bytes ?q)"
          using iov_drop_front_ok [OF q, of n] n
          by (cases "n = length (iov_bytes ?q)") (auto simp: iov_size_bytes [OF q])
        have "flush_write env a s = Inr (s\<lparr>s_packet_queue := q'\<rparr>, of_nat n)"
          using False Wrote ss nz q' by (simp add: flush_write_def Let_def)
        then show ?thesis
          using q' n Wrote iov_size_bytes [OF q] by (intro exI [of _ q'] exI [of _ "s_has_write_error s"] exI [of _ n]) simp
      qed
    next
      case Would_block
      then show ?thesis using False ss by (intro idle [of "s_has_write_error s"]) (simp_all add: flush_write_def)
    next
      case Write_failed
      then show ?thesis using False ss by (intro idle [of True]) (simp_all add: flush_write_def)
    qed
  qed
qed

subsection \<open>Acknowledgements\<close>

lemma send_ready_ok:
  assumes t: "w_transports w t = Some tr"
  shows "\<exists>p tr'. send_ready env loc rem t k w = Inr (set_trans t tr' w) \<and> sent_on p tr tr'
           \<and> command (msg p) = A_OKAY \<and> arg0 (msg p) = loc \<and> arg1 (msg p) = rem
           \<and> block_bytes (payload p) = (if t_delayed_ack tr then le32 k else [])"
proof (cases "t_delayed_ack tr")
  case False
  let ?p = "header_packet A_OKAY loc rem"
  from w_send_packet_ok [OF t, of ?p env] obtain tr'
    where "w_send_packet env ?p t w = Inr (set_trans t tr' w)" "sent_on ?p tr tr'" by auto
  with False t show ?thesis
    by (intro exI [of _ ?p] exI [of _ tr'])
       (simp add: send_ready_def trans_def header_packet_def get_apacket_def amessage_zero_def)
next
  case True
  obtain b where b: "block_resize (e_fresh env) block_empty 4 = Inr b" "wf_block b" "bsize b = 4" "bposition b = 0"
    using block_resize_empty by blast
  from block_store_ok [OF b(2), of 0 "le32 k"] b(3) obtain b'
    where b': "block_store b 0 (le32 k) = Inr b'" "wf_block b'" "bsize b' = 4" "block_bytes b' = le32 k @ drop 4 (block_bytes b)"
    by auto
  then have bytes: "block_bytes b' = le32 k" using length_block_bytes [OF b(2)] b(3) by simp
  let ?p = "\<lparr>msg = (msg (header_packet A_OKAY loc rem))\<lparr>data_length := 4\<rparr>, payload = b'\<rparr>"
  have "sendable ?p" using b' by (simp add: sendable_def)
  from w_send_packet_ok [OF t this, of env] obtain tr'
    where "w_send_packet env ?p t w = Inr (set_trans t tr' w)" "sent_on ?p tr tr'" by auto
  with True t b b' bytes show ?thesis
    by (intro exI [of _ ?p] exI [of _ tr'])
       (simp add: send_ready_def trans_def header_packet_def get_apacket_def amessage_zero_def)
qed


text \<open>A step that sends packets and does nothing else.\<close>

definition only_sends :: "world \<Rightarrow> world \<Rightarrow> bool" where
  "only_sends w w' \<longleftrightarrow> trans_ext w w' \<and> w' = w\<lparr>w_transports := w_transports w'\<rparr>"

lemma only_sends_refl [simp]: "only_sends w w"
  by (simp add: only_sends_def trans_ext_same)

lemma only_sendsD:
  assumes "only_sends w w'"
  shows "w_heap w' = w_heap w" "w_next w' = w_next w" "w_next_id w' = w_next_id w"
    "w_local_list w' = w_local_list w" "w_closing_list w' = w_closing_list w" "trans_ext w w'"
  using assms by (auto simp: only_sends_def elim: ssubst)

lemma only_sends_set_trans:
  "w_transports w t = Some tr \<Longrightarrow> sent_on p tr tr' \<Longrightarrow> only_sends w (set_trans t tr' w)"
  using trans_ext_set [of w t tr tr'] by (simp add: only_sends_def sent_on_ext set_trans_def)

lemma only_sends_trans:
  assumes "only_sends w w'" "only_sends w' w''"
  shows "only_sends w w''"
proof -
  obtain x where x: "w' = w\<lparr>w_transports := x\<rparr>" using assms(1) unfolding only_sends_def by metis
  have "w'' = w'\<lparr>w_transports := w_transports w''\<rparr>" using assms(2) unfolding only_sends_def by metis
  also have "\<dots> = w\<lparr>w_transports := w_transports w''\<rparr>" by (simp add: x)
  finally show ?thesis using assms trans_ext_trans unfolding only_sends_def by blast
qed

lemma only_sends_set_sock:
  assumes "only_sends (set_sock a s w) w'"
  shows "only_sends (set_sock a s' w) (set_sock a s' w')"
proof -
  obtain x where "w' = (set_sock a s w)\<lparr>w_transports := x\<rparr>" using assms by (auto simp: only_sends_def)
  with assms show ?thesis by (simp add: only_sends_def set_sock_def trans_ext_def)
qed

lemma wf_only_sends:
  assumes wf: "wf_world e w" and s: "only_sends w w'"
  shows "wf_world e w'"
proof (rule wf_worldI)
  note d = only_sendsD [OF s]
  have t: "rel_option tr_ext (w_transports w t) (w_transports w' t)" for t using d(6) by (simp add: trans_ext_def)
  show "sock_ok w' a x" if "w_heap w' a = Some x" for a x
  proof (rule sock_ok_mono [of w])
    show "sock_ok w a x" using wf_sockD [OF wf] d that by simp
    show "w_transports w' t \<noteq> None" if "w_transports w t \<noteq> None" for t
      using t [of t] that by (cases "w_transports w' t") auto
  qed (simp_all add: d)
  show "lists_ok w'" using wf_worldD(3) [OF wf] by (simp add: lists_ok_def d)
  show "t_max_payload tr \<le> MAX_PAYLOAD" if "w_transports w' t = Some tr" for t tr
  proof -
    from t [of t] that obtain tr0 where "w_transports w t = Some tr0" "tr_ext tr0 tr" by (auto simp: option_rel_Some2)
    with wf_worldD(6) [OF wf] show ?thesis by (auto simp: tr_ext_def)
  qed
qed (use wf_worldD [OF wf] only_sendsD [OF s] in auto)

lemma flush_ack_ok:
  assumes p: "\<And>p. s_peer s = Some p \<Longrightarrow> w_heap w p \<noteq> None"
    and t: "\<And>t. s_peer s \<noteq> None \<Longrightarrow> s_transport s = Some t \<Longrightarrow> w_transports w t \<noteq> None"
  shows "\<exists>w'. flush_ack env s k w = Inr w' \<and> only_sends w w'"
proof (cases "s_transport s = None \<or> s_peer s = None")
  case True
  then have "flush_ack env s k w = Inr w" by (auto simp: flush_ack_def split: option.splits)
  then show ?thesis by simp
next
  case False
  then obtain t tr q qs where d: "s_transport s = Some t" "s_peer s = Some q" "w_transports w t = Some tr" "w_heap w q = Some qs"
    using p t by fastforce
  have "\<exists>w'. send_ready env (s_id s) (s_id qs) t n w = Inr w' \<and> only_sends w w'" for n
    using send_ready_ok [OF d(3), of env "s_id s" "s_id qs" n] only_sends_set_trans [OF d(3)] by blast
  with d show ?thesis by (simp add: flush_ack_def)
qed


subsection \<open>Data for the descriptor\<close>

lemma set_sock_again [simp]: "set_sock a s (set_sock a s' w) = set_sock a s w"
  by (simp add: set_sock_def)

text \<open>The outcome of \<open>local_socket_flush_incoming\<close> with the bytes \<open>bs\<close> queued: the socket is kept
  with the rest of them, and waits for the descriptor if some are left and no write failed; or it was
  closing and is gone.\<close>

definition flushed :: "env \<Rightarrow> addr \<Rightarrow> asocket \<Rightarrow> bytes \<Rightarrow> world \<Rightarrow> SocketFlushResult \<times> world \<Rightarrow> bool" where
  "flushed env a s bs w r \<longleftrightarrow> (case r of (res, w') \<Rightarrow> wf_world None w' \<and>
     (if res = Destroyed then s_closing s \<and> closed_both a w w'
      else \<exists>q he fw k. only_sends (set_sock a (s\<lparr>s_packet_queue := q, s_has_write_error := he, s_fde_write := fw\<rparr>) w) w'
             \<and> (k \<noteq> 0 \<longrightarrow> e_writev env a (length bs) = Wrote k)
             \<and> iov_bytes q = drop k bs \<and> fw = (drop k bs \<noteq> [] \<and> \<not> he) \<and> (res = TryAgain \<longleftrightarrow> fw)))"

lemma flushedI:
  assumes "wf_world None w'"
    "only_sends (set_sock a (s\<lparr>s_packet_queue := q, s_has_write_error := he, s_fde_write := fw\<rparr>) w) w'"
    "k \<noteq> 0 \<longrightarrow> e_writev env a (length bs) = Wrote k"
    "iov_bytes q = drop k bs" "fw = (drop k bs \<noteq> [] \<and> \<not> he)" "res = (if fw then TryAgain else Completed)"
  shows "flushed env a s bs w (res, w')"
  unfolding flushed_def using assms by auto

lemma wf_flushed:
  assumes wf: "wf_world e w" and a: "w_heap w a = Some s" "is_local s" and q: "wf_iov q"
    and w: "iov_size q \<noteq> 0 \<longrightarrow> he \<or> fw"
  shows "wf_world e (set_sock a (s\<lparr>s_packet_queue := q, s_has_write_error := he, s_fde_write := fw\<rparr>) w)"
  by (rule wf_set_sock [OF wf a(1)])
     (use wf_sockD [OF wf a(1)] a(2) q w in \<open>auto simp: sock_ok_def kind_ok_def waiting_ok_def is_local_def\<close>)

lemma flush_incoming_ok:
  assumes env: "env_ok env" and wf: "wf_world None w" and a: "w_heap w a = Some s" "is_local s" and q: "wf_iov q"
  shows "safe (flushed env a s (iov_bytes q) w)
           (local_socket_flush_incoming env a (set_sock a (s\<lparr>s_packet_queue := q\<rparr>) w))"
proof -
  note k = kind_local [OF wf_sockD [OF wf a(1)] a(2)]
  let ?s = "s\<lparr>s_packet_queue := q\<rparr>"
  from flush_write_ok [OF env, of ?s a] q obtain q' he n
    where fw: "flush_write env a ?s = Inr (?s\<lparr>s_packet_queue := q', s_has_write_error := he\<rparr>, of_nat n)"
      "wf_iov q'" "iov_bytes q' = drop n (iov_bytes q)" "n \<noteq> 0 \<longrightarrow> e_writev env a (length (iov_bytes q)) = Wrote n" by auto
  define s1 where "s1 = s\<lparr>s_packet_queue := q', s_has_write_error := he\<rparr>"
  have fs: "flush_write env a ?s = Inr (s1, of_nat n)" using fw(1) by (simp add: s1_def)
  define full where "full \<longleftrightarrow> iov_size q' \<noteq> 0 \<and> \<not> he"
  have full': "full \<longleftrightarrow> drop n (iov_bytes q) \<noteq> [] \<and> \<not> he"
    using fw(3) by (simp add: full_def iov_size_bytes [OF fw(2)])
  let ?s2 = "s\<lparr>s_packet_queue := q', s_has_write_error := he, s_fde_write := full\<rparr>"
  have "\<exists>w1. flush_ack env s1 (of_nat n) (set_sock a s1 w) = Inr w1 \<and> only_sends (set_sock a s1 w) w1"
  proof (rule flush_ack_ok)
    show "w_heap (set_sock a s1 w) p \<noteq> None" if "s_peer s1 = Some p" for p
      using wf_peerD [OF wf a(1)] that by (auto simp: s1_def)
    show "w_transports (set_sock a s1 w) t \<noteq> None" if "s_peer s1 \<noteq> None" "s_transport s1 = Some t" for t
      using wf_sockD [OF wf a(1)] k(5) that by (auto simp: s1_def sock_ok_def)
  qed
  then obtain w1 where w1: "flush_ack env s1 (of_nat n) (set_sock a s1 w) = Inr w1" "only_sends (set_sock a s1 w) w1" by blast
  have h1: "w_heap w1 a = Some s1" using only_sendsD(1) [OF w1(2)] by simp
  have s2: "s1\<lparr>s_fde_write := full\<rparr> = ?s2" and s1f: "s_closing s1 = s_closing s" "s_has_fde s1"
      "s_packet_queue s1 = q'" "s_has_write_error s1 = he"
    using k(3) by (simp_all add: s1_def)
  have eq: "local_socket_flush_incoming env a (set_sock a ?s w) =
      (if s_closing s \<and> \<not> full then rbind (s_do_close env a w1) (\<lambda>w2. Inr (Destroyed, w2))
       else Inr (if full then TryAgain else Completed, set_sock a ?s2 w1))"
    unfolding local_socket_flush_incoming_def
    unfolding s2 [symmetric] using fs w1(1) h1 by (auto simp: s1f full_def Let_def)
  show ?thesis
  proof (cases "s_closing s \<and> \<not> full")
    case False
    have wf2: "wf_world None (set_sock a ?s2 w)" by (rule wf_flushed [OF wf a fw(2)]) (auto simp: full_def)
    have os: "only_sends (set_sock a ?s2 w) (set_sock a ?s2 w1)" by (rule only_sends_set_sock [OF w1(2)])
    show ?thesis unfolding eq if_not_P [OF False] safe_Inr
      by (rule flushedI [OF wf_only_sends [OF wf2 os] os fw(4,3)]) (simp_all add: full')
  next
    case True
    have "wf_world None (set_sock a s1 w)"
      using wf_flushed [OF wf a fw(2), of he "s_fde_write s"] True by (auto simp: s1_def full_def)
    then have wf1: "wf_world None w1" using w1(2) by (rule wf_only_sends)
    have np: "s_peer s = None" using k(5) True by simp
    have "flushed env a s (iov_bytes q) w (Destroyed, w')" if "closed_both a w1 w'" for w'
      using that only_sendsD [OF w1(2)] a np True trans_ext_trans [of w w1]
      by (auto simp: flushed_def closed_both_def peer_of_def s1_def trans_ext_def)
    then show ?thesis unfolding eq using True
      by (auto intro!: safe_rbind [OF s_do_close_ok [OF wf1 h1]])
  qed
qed


text \<open>An operation on the socket \<open>a\<close> that keeps every socket alive, paired and listed as it was.\<close>

definition same_role :: "asocket \<Rightarrow> asocket \<Rightarrow> bool" where
  "same_role s s' \<longleftrightarrow> s_peer s' = s_peer s \<and> s_enqueue s' = s_enqueue s \<and> s_id s' = s_id s
     \<and> s_closing s' = s_closing s \<and> s_transport s' = s_transport s \<and> s_fd s' = s_fd s"

definition keeps :: "addr \<Rightarrow> world \<Rightarrow> world \<Rightarrow> bool" where
  "keeps a w w' \<longleftrightarrow> wf_world None w' \<and> trans_ext w w' \<and> (\<forall>b. b \<noteq> a \<longrightarrow> w_heap w' b = w_heap w b)
     \<and> rel_option same_role (w_heap w a) (w_heap w' a)
     \<and> w_local_list w' = w_local_list w \<and> w_closing_list w' = w_closing_list w
     \<and> w_next w' = w_next w \<and> w_next_id w' = w_next_id w"

lemma same_role_refl [simp]: "same_role s s"
  by (simp add: same_role_def)

lemma same_role_trans: "same_role a b \<Longrightarrow> same_role b c \<Longrightarrow> same_role a c"
  by (simp add: same_role_def)

lemma same_role_local: "same_role s s' \<Longrightarrow> is_local s' = is_local s"
  by (simp add: same_role_def is_local_def)

lemma keeps_role: "keeps a w w' \<Longrightarrow> rel_option same_role (w_heap w b) (w_heap w' b)"
  by (cases "b = a") (simp_all add: keeps_def option.rel_refl)

lemma keeps_SomeD: "keeps a w w' \<Longrightarrow> w_heap w b = Some s \<Longrightarrow> \<exists>s'. w_heap w' b = Some s' \<and> same_role s s'"
  using keeps_role [of a w w' b] by (auto simp: option_rel_Some1)

lemma keeps_SomeE: "keeps a w w' \<Longrightarrow> w_heap w' b = Some s' \<Longrightarrow> \<exists>s. w_heap w b = Some s \<and> same_role s s'"
  using keeps_role [of a w w' b] by (auto simp: option_rel_Some2)

lemma good_keeps: "good w \<Longrightarrow> keeps a w w' \<Longrightarrow> good w'"
proof -
  assume g: "good w" and k: "keeps a w w'"
  have "attached w'"
    unfolding attached_def
  proof (intro allI impI)
    fix b s'
    assume b: "w_heap w' b = Some s'" "\<not> is_local s'"
    from keeps_SomeE [OF k b(1)] obtain s where s: "w_heap w b = Some s" "same_role s s'" by auto
    then have "\<not> is_local s" using b(2) by (simp add: same_role_def is_local_def)
    with s(1) g obtain p ps where p: "s_peer s = Some p" "w_heap w p = Some ps" "is_local ps"
      unfolding good_def attached_def by blast
    with keeps_SomeD [OF k p(2)] s(2) show "\<exists>p ps. s_peer s' = Some p \<and> w_heap w' p = Some ps \<and> is_local ps"
      by (auto simp: same_role_def is_local_def)
  qed
  with k show "good w'" by (simp add: good_def keeps_def)
qed

lemma keeps_trans:
  assumes "keeps a w w'" "keeps a w' w''"
  shows "keeps a w w''"
proof -
  have "rel_option same_role (w_heap w a) (w_heap w'' a)"
    by (rule option.rel_transp [unfolded transp_def, rule_format, OF _ keeps_role [OF assms(1)] keeps_role [OF assms(2)]])
       (rule same_role_trans)
  moreover have "trans_ext w w''" using assms trans_ext_trans [of w w' w''] by (simp add: keeps_def)
  ultimately show ?thesis using assms by (simp add: keeps_def)
qed

lemma keeps_sends: "wf_world None w \<Longrightarrow> only_sends w w' \<Longrightarrow> keeps a w w'"
  using only_sendsD [of w w'] wf_only_sends [of None w w'] by (auto simp: keeps_def option.rel_refl)

lemma keeps_set_sock:
  assumes "wf_world None w" "w_heap w a = Some s" "sock_ok w a s'" "same_role s s'"
  shows "keeps a w (set_sock a s' w)"
  using assms wf_set_sock [OF assms(1-3)] by (simp add: keeps_def same_role_def trans_ext_same)

lemma keeps_reply: "keeps a w w' \<Longrightarrow> keeps a w (w_reply fd bs w')"
  by (simp add: keeps_def trans_ext_def)

lemma keeps_set_sends:
  assumes wf: "wf_world None w'" and a: "w_heap w a = Some s" "same_role s s'" and os: "only_sends (set_sock a s' w) w'"
  shows "keeps a w w'"
proof -
  have "trans_ext w w'" using only_sendsD(6) [OF os] by (simp add: trans_ext_def)
  with assms only_sendsD [OF os] show ?thesis by (simp add: keeps_def)
qed

lemma flushed_keeps:
  assumes "flushed env a s bs w (res, w')" "w_heap w a = Some s" "res \<noteq> Destroyed"
  shows "keeps a w w'"
proof -
  from assms obtain q he fw k where
    "only_sends (set_sock a (s\<lparr>s_packet_queue := q, s_has_write_error := he, s_fde_write := fw\<rparr>) w) w'"
    "wf_world None w'" by (auto simp: flushed_def)
  then show ?thesis by (intro keeps_set_sends [OF _ assms(2)]) (auto simp: same_role_def)
qed

lemma local_socket_enqueue_ok:
  assumes env: "env_ok env" and wf: "wf_world None w" and a: "w_heap w a = Some s" "is_local s"
    and d: "wf_block data" "bposition data = 0"
  shows "safe (\<lambda>(r, w'). \<exists>res. flushed env a s (iov_bytes (s_packet_queue s) @ block_bytes data) w (res, w')
           \<and> r = (case res of Destroyed \<Rightarrow> - 1 | TryAgain \<Rightarrow> 1 | Completed \<Rightarrow> 0)) (local_socket_enqueue env a data w)"
proof -
  have "waiting_ok s" by (rule kind_local(6) [OF wf_sockD [OF wf a(1)] a(2)])
  then have "wf_iov (s_packet_queue s)" by (simp add: waiting_ok_def)
  note q = iov_append_ok [OF this d]
  from flush_incoming_ok [OF env wf a q(1)] show ?thesis
    unfolding local_socket_enqueue_def mod_sock_Some [OF a(1)] rbind_Inr q(2) by (rule safe_rbind) auto
qed

lemma kind_remote:
  assumes "sock_ok w a s" "s_enqueue s = remote_enqueue_fn"
  shows "\<exists>t. s_transport s = Some t \<and> w_transports w t \<noteq> None" "s_id s \<noteq> 0"
  using assms by (auto simp: sock_ok_def kind_ok_def)

lemma remote_socket_enqueue_ok:
  assumes wf: "wf_world e w" and a: "w_heap w a = Some s" "s_enqueue s = remote_enqueue_fn"
    "s_peer s = Some p" "w_heap w p = Some ps" and d: "wf_block data" "bsize data \<le> MAX_PAYLOAD"
  shows "\<exists>t tr tr' q. remote_socket_enqueue env a data w = Inr (1, set_trans t tr' w)
           \<and> s_transport s = Some t \<and> w_transports w t = Some tr \<and> sent_on q tr tr'
           \<and> command (msg q) = A_WRTE \<and> arg0 (msg q) = s_id ps \<and> arg1 (msg q) = s_id s
           \<and> block_bytes (payload q) = block_bytes data \<and> unat (data_length (msg q)) = length (block_bytes data)"
proof -
  from kind_remote(1) [OF wf_sockD [OF wf a(1)] a(2)] obtain t tr
    where t: "s_transport s = Some t" "w_transports w t = Some tr" by auto
  let ?pl = "fst (block_move_assign block_empty data)"
  let ?q = "\<lparr>msg = (msg (header_packet A_WRTE (s_id ps) (s_id s)))\<lparr>data_length := of_nat (bsize ?pl)\<rparr>, payload = ?pl\<rparr>"
  have pl: "wf_block ?pl" by (rule wf_block_move_assign [OF d(1)])
  have n0: "bsize ?pl = bsize data" by (simp add: block_move_assign_eq)
  have "unat (of_nat (bsize data) :: u32) = bsize data"
    using d(2) by (simp add: unat_of_nat MAX_PAYLOAD_def)
  then have n: "unat (data_length (msg ?q)) = bsize data" by (simp add: n0)
  then have "sendable ?q" using pl n0 by (simp add: sendable_def)
  from w_send_packet_ok [OF t(2) this, of env] obtain tr'
    where s: "w_send_packet env ?q t w = Inr (set_trans t tr' w)" "sent_on ?q tr tr'" by auto
  have "remote_socket_enqueue env a data w = Inr (1, set_trans t tr' w)"
    using a d(2) t s(1) by (simp add: remote_socket_enqueue_def Let_def)
  with t s n d(1) show ?thesis
    by (intro exI [of _ t] exI [of _ tr] exI [of _ tr'] exI [of _ ?q]) 
       (simp add: header_packet_def get_apacket_def amessage_zero_def length_block_bytes)
qed


subsection \<open>Ready\<close>

lemma keeps_local:
  assumes wf: "wf_world None w" and a: "w_heap w a = Some s" "is_local s"
  shows "keeps a w (set_sock a (s\<lparr>s_fde_read := x\<rparr>) w)"
    "keeps a w (set_sock a (s\<lparr>s_available_send_bytes := y\<rparr>) w)"
    "keeps a w (set_sock a (s\<lparr>s_ready := local_ready_fn, s_shutdown := False, s_close := local_close_fn\<rparr>) w)"
  by (rule keeps_set_sock [OF wf a(1)];
      use wf_sockD [OF wf a(1)] a(2) in \<open>auto simp: sock_ok_def kind_ok_def waiting_ok_def is_local_def same_role_def\<close>)+

lemma remote_socket_ready_ok:
  assumes wf: "wf_world None w" and a: "w_heap w a = Some s" "s_enqueue s = remote_enqueue_fn" "s_peer s \<noteq> None"
  shows "\<exists>w'. remote_socket_ready env a w = Inr w' \<and> keeps a w w'"
proof -
  from a(3) obtain p where p: "s_peer s = Some p" by auto
  from wf_peerD [OF wf a(1) p] obtain ps where ps: "w_heap w p = Some ps" by auto
  from kind_remote(1) [OF wf_sockD [OF wf a(1)] a(2)] obtain t tr
    where t: "s_transport s = Some t" "w_transports w t = Some tr" by auto
  from w_send_packet_ok [OF t(2) sendable_header, of env A_OKAY "s_id ps" "s_id s"] obtain tr'
    where "w_send_packet env (header_packet A_OKAY (s_id ps) (s_id s)) t w = Inr (set_trans t tr' w)"
      "sent_on (header_packet A_OKAY (s_id ps) (s_id s)) tr tr'" by auto
  with a(1) p ps t keeps_sends [OF wf only_sends_set_trans [OF t(2)]] show ?thesis
    by (auto simp: remote_socket_ready_def)
qed

lemma local_socket_ready_ok:
  assumes wf: "wf_world None w" and a: "w_heap w a = Some s" "is_local s"
  shows "local_socket_ready a w = Inr (set_sock a (s\<lparr>s_fde_read := True\<rparr>) w)"
    and "keeps a w (set_sock a (s\<lparr>s_fde_read := True\<rparr>) w)"
  using kind_local(3) [OF wf_sockD [OF wf a(1)] a(2)] a(1) keeps_local(1) [OF wf a]
  by (simp_all add: local_socket_ready_def)

lemma local_socket_ready_notify_ok:
  assumes wf: "wf_world None w" and a: "w_heap w a = Some s" "is_local s"
  shows "\<exists>w'. local_socket_ready_notify a w = Inr w' \<and> keeps a w w'"
proof -
  let ?s = "s\<lparr>s_ready := local_ready_fn, s_shutdown := False, s_close := local_close_fn\<rparr>"
  let ?w = "w_reply (s_fd s) ''OKAY'' (set_sock a ?s w)"
  have k: "keeps a w ?w" by (rule keeps_reply [OF keeps_local(3) [OF wf a]])
  then have "wf_world None ?w" by (simp add: keeps_def)
  from local_socket_ready_ok [OF this, of a ?s] k keeps_trans [OF k] a show ?thesis
    by (auto simp: local_socket_ready_notify_def is_local_def)
qed

text \<open>\<open>ready\<close> is called on local sockets, and on the others only while they have a peer.\<close>

lemma s_do_ready_ok:
  assumes wf: "wf_world None w" and a: "w_heap w a = Some s" "is_local s \<or> s_peer s \<noteq> None"
  shows "\<exists>w'. s_do_ready env a w = Inr w' \<and> keeps a w w'"
proof -
  note k = wf_sockD [OF wf a(1)]
  consider "is_local s" "s_ready s = local_ready_fn" | "is_local s" "s_ready s = local_ready_notify_fn"
    | "s_enqueue s = remote_enqueue_fn" "s_ready s = remote_ready_fn" "s_peer s \<noteq> None"
    | "s_ready s = smart_ready_fn"
    using k a(2) by (auto simp: sock_ok_def kind_ok_def is_local_def split: enqueue_fn.splits)
  then show ?thesis
  proof cases
    case 1
    then show ?thesis using local_socket_ready_ok [OF wf a(1)] a(1) by (simp add: s_do_ready_def)
  next
    case 2
    then show ?thesis using local_socket_ready_notify_ok [OF wf a(1)] a(1) by (simp add: s_do_ready_def)
  next
    case 3
    then show ?thesis using remote_socket_ready_ok [OF wf a(1)] a(1) by (simp add: s_do_ready_def)
  next
    case 4
    then show ?thesis using a(1) keeps_sends [OF wf only_sends_refl] by (simp add: s_do_ready_def)
  qed
qed

text \<open>Every acknowledgement is added to what may be sent; a mismatch changes nothing.\<close>

lemma local_socket_ack_ok:
  assumes wf: "wf_world None w" and a: "w_heap w a = Some s" "is_local s"
  shows "\<exists>w'. local_socket_ack env a acked w = Inr w' \<and> keeps a w w'"
proof -
  note r = keeps_sends [OF wf only_sends_refl, of a]
  note plain = s_do_ready_ok [OF wf a(1) disjI1 [OF a(2)], of env]
  have "\<exists>w'. (let w' = set_sock a (s\<lparr>s_available_send_bytes := Some m\<rparr>) w
           in if 0 < m then s_do_ready env a w' else Inr w') = Inr w' \<and> keeps a w w'" for m
  proof -
    let ?s = "s\<lparr>s_available_send_bytes := Some m\<rparr>" and ?w = "set_sock a (s\<lparr>s_available_send_bytes := Some m\<rparr>) w"
    have k: "keeps a w ?w" by (rule keeps_local(2) [OF wf a])
    then have "wf_world None ?w" by (simp add: keeps_def)
    from s_do_ready_ok [OF this, of a ?s env] a(2) keeps_trans [OF k] k show ?thesis
      by (auto simp: is_local_def Let_def)
  qed
  with a(1) r plain show ?thesis
    by (cases "s_available_send_bytes s"; cases acked) (simp_all add: local_socket_ack_def Let_def)
qed

end
