(* ===== verification/Socket_Links.thy ===== *)
theory Socket_Links
  imports Socket_Flow
begin

text \<open>
  The operations that make sockets and change who is whose peer: creation, the link of a local socket
  with a new remote or smart socket, the smart socket's requests, and the data read from a descriptor,
  which go to whatever kind of socket the peer is.
\<close>

subsection \<open>Creation\<close>

lemma sock_ok_set_peer: "sock_ok w a s \<Longrightarrow> \<not> s_closing s \<Longrightarrow> sock_ok w a (s\<lparr>s_peer := x\<rparr>)"
  by (cases "s_enqueue s") (simp_all add: sock_ok_def kind_ok_def waiting_ok_def is_local_def)

lemma wf_next: "wf_world e w \<Longrightarrow> w_heap w (w_next w) = None"
  by (simp add: wf_worldD(4))

text \<open>The socket \<open>create_local_socket\<close> makes and the world it is added to.\<close>

definition fresh_local :: "int \<Rightarrow> world \<Rightarrow> asocket" where
  "fresh_local fd w = new_asocket\<lparr>s_fd := fd, s_id := w_next_id w, s_has_fde := True\<rparr>"

definition with_local :: "int \<Rightarrow> world \<Rightarrow> world" where
  "with_local fd w = (set_sock (w_next w) (fresh_local fd w) w)\<lparr>w_next := w_next w + 1,
     w_next_id := w_next_id w + 1, w_local_list := w_local_list w @ [w_next w]\<rparr>"

lemma create_local_socket_eq:
  assumes "w_next_id w + 1 \<noteq> 0"
  shows "create_local_socket fd w = Inr (w_next w, with_local fd w)"
  using assms by (simp add: create_local_socket_def alloc_sock_def install_local_socket_def mod_sock_def sock_def
      set_sock_def new_asocket_def fresh_local_def with_local_def)

lemma create_local_socket_overflow:
  assumes "w_next_id w + 1 = 0"
  shows "create_local_socket fd w = Inl Fatal"
  using assms by (simp add: create_local_socket_def alloc_sock_def install_local_socket_def mod_sock_def sock_def
      set_sock_def new_asocket_def)

text \<open>A new local socket in front of an old world.\<close>

definition new_local :: "addr \<Rightarrow> world \<Rightarrow> world \<Rightarrow> bool" where
  "new_local a w w' \<longleftrightarrow> wf_world None w' \<and> a = w_next w \<and> w_heap w a = None
     \<and> (\<exists>s. w_heap w' = (w_heap w)(a \<mapsto> s) \<and> is_local s \<and> s_peer s = None \<and> \<not> s_closing s \<and> s_transport s = None)
     \<and> w_transports w' = w_transports w \<and> w_local_list w' = w_local_list w @ [a] \<and> w_next w' = a + 1"

lemma fresh_local_simps [simp]:
  "is_local (fresh_local fd w)" "s_peer (fresh_local fd w) = None" "\<not> s_closing (fresh_local fd w)"
  "s_id (fresh_local fd w) = w_next_id w" "s_transport (fresh_local fd w) = None"
  by (simp_all add: fresh_local_def new_asocket_def is_local_def)

lemma with_local_simps [simp]:
  "w_heap (with_local fd w) = (w_heap w)(w_next w \<mapsto> fresh_local fd w)" "w_next (with_local fd w) = w_next w + 1"
  "w_local_list (with_local fd w) = w_local_list w @ [w_next w]" "w_closing_list (with_local fd w) = w_closing_list w"
  "w_next_id (with_local fd w) = w_next_id w + 1" "w_transports (with_local fd w) = w_transports w"
  by (simp_all add: with_local_def)

lemma word_less_Suc:
  fixes x :: u32
  assumes "x + 1 \<noteq> 0"
  shows "x < x + 1"
proof -
  have "unat (x + 1) = (unat x + 1) mod 2 ^ 32" by (simp add: unat_word_ariths)
  moreover have "unat (x + 1) \<noteq> 0" using assms by (simp add: unat_eq_zero)
  moreover have "unat x < 2 ^ 32" using unat_u32_less [of x] by simp
  ultimately have "unat x < unat (x + 1)" by (cases "unat x + 1 = 2 ^ 32") auto
  then show ?thesis by (simp add: word_less_nat_alt)
qed

lemma wf_with_local:
  assumes wf: "wf_world None w" and i: "w_next_id w + 1 \<noteq> 0"
  shows "wf_world None (with_local fd w)"
proof (rule wf_worldI)
  let ?w = "with_local fd w" and ?a = "w_next w"
  have fresh: "w_heap w ?a = None" by (rule wf_next [OF wf])
  have lt: "w_next_id w < w_next_id w + 1" using i by (rule word_less_Suc)
  have old: "s_id x < w_next_id w" if "w_heap w b = Some x" "is_local x" for b x
    using wf_sockD [OF wf that(1)] that(2) by (simp add: sock_ok_def)
  show "sock_ok ?w b x" if b: "w_heap ?w b = Some x" for b x
  proof (cases "b = ?a")
    case True
    then show ?thesis using b lt wf_worldD(5) [OF wf]
      by (auto simp: sock_ok_def kind_ok_def waiting_ok_def is_local_def fresh_local_def new_asocket_def iov_size_bytes)
  next
    case False
    then have x: "w_heap w b = Some x" using b by simp
    show ?thesis by (rule sock_ok_mono [OF wf_sockD [OF wf x]]) (use lt in auto)
  qed
  show "peers_ok None (w_heap ?w)"
    using wf_worldD(1) [OF wf] fresh unfolding peers_ok_def by (auto; metis option.discI)
  show "ids_ok (w_heap ?w)"
    using wf_worldD(2) [OF wf] unfolding ids_ok_def by (auto split: if_splits dest: old)
  show "lists_ok ?w"
    using wf_worldD(3) [OF wf] fresh by (auto simp: lists_ok_def)
  show "w_heap ?w b = None" if "w_next ?w \<le> b" for b using wf_worldD(4) [OF wf, of b] that by auto
  show "w_next_id ?w \<noteq> 0" using i by simp
  show "t_max_payload tr \<le> MAX_PAYLOAD" if "w_transports ?w t = Some tr" for t tr
    using wf_worldD(6) [OF wf] that by simp
qed

lemma create_local_socket_ok:
  assumes wf: "wf_world None w"
  shows "safe_but {Fatal} (\<lambda>(a, w'). new_local a w w') (create_local_socket fd w)"
  using wf_with_local [OF wf] wf_next [OF wf]
  by (cases "w_next_id w + 1 = 0")
     (auto simp: create_local_socket_overflow create_local_socket_eq new_local_def)


subsection \<open>Links\<close>

lemma set_sock_comm: "a \<noteq> b \<Longrightarrow> set_sock a s (set_sock b s' w) = set_sock b s' (set_sock a s w)"
  by (simp add: set_sock_def fun_upd_twist)

lemma wf_link:
  assumes wf: "wf_world None w" and a: "w_heap w a = Some s" "s_peer s = None" "\<not> s_closing s"
    and p: "w_heap w p = Some ps" "s_peer ps = None" "\<not> s_closing ps" and ne: "a \<noteq> p"
  shows "wf_world None (set_sock p (ps\<lparr>s_peer := Some a\<rparr>) (set_sock a (s\<lparr>s_peer := Some p\<rparr>) w))"
proof (rule wf_update)
  let ?s = "s\<lparr>s_peer := Some p\<rparr>" and ?ps = "ps\<lparr>s_peer := Some a\<rparr>"
  let ?w = "set_sock a ?s w"
  have np: "s_peer x \<noteq> Some a" "s_peer x \<noteq> Some p" if "w_heap w b = Some x" for b x
    using wf_peerD [OF wf that] a p by auto
  show "wf_world (Some a) ?w"
  proof (rule wf_update [OF wf a(1) sock_ok_set_peer [OF wf_sockD [OF wf a(1)] a(3)]])
    show "peers_ok (Some a) ((w_heap w)(a \<mapsto> ?s))"
      using wf_worldD(1) [OF wf] np a unfolding peers_ok_def by (auto; metis option.inject)
  qed simp_all
  show "w_heap ?w p = Some ps" using p ne by simp
  show "sock_ok ?w p ?ps"
    by (rule sock_ok_mono [OF sock_ok_set_peer [OF wf_sockD [OF wf p(1)] p(3)]]) simp_all
  show "peers_ok None ((w_heap ?w)(p \<mapsto> ?ps))"
    unfolding peers_ok_def
  proof (intro allI impI)
    fix b x q
    assume b: "((w_heap ?w)(p \<mapsto> ?ps)) b = Some x" "s_peer x = Some q"
    show "q \<noteq> b \<and> (\<exists>y. ((w_heap ?w)(p \<mapsto> ?ps)) q = Some y \<and> s_peer y = Some b)"
    proof (cases "b = a \<or> b = p")
      case True
      then show ?thesis using b ne by auto
    next
      case False
      then have x: "w_heap w b = Some x" using b by simp
      from wf_peerD [OF wf x b(2)] obtain y where y: "q \<noteq> b" "w_heap w q = Some y" "s_peer y = Some b" by auto
      with np [OF x] b(2) show ?thesis by auto
    qed
  qed
qed simp_all

lemma attached_from:
  assumes "attached w" "\<And>x s. w_heap w' x = Some s \<Longrightarrow> \<not> is_local s \<Longrightarrow> w_heap w x = Some s"
    "\<And>q s. w_heap w q = Some s \<Longrightarrow> is_local s \<Longrightarrow> \<exists>s'. w_heap w' q = Some s' \<and> is_local s'"
  shows "attached w'"
  using assms unfolding attached_def by metis

text \<open>A socket that is not local, made as the peer of the local socket \<open>a\<close>.\<close>

definition with_peer :: "addr \<Rightarrow> asocket \<Rightarrow> asocket \<Rightarrow> world \<Rightarrow> world" where
  "with_peer a s r w = set_sock (w_next w) (r\<lparr>s_peer := Some a\<rparr>) (set_sock a (s\<lparr>s_peer := Some (w_next w)\<rparr>)
     (w\<lparr>w_next := w_next w + 1\<rparr>))"

lemma wf_add:
  assumes wf: "wf_world None w" and r: "\<not> is_local r" "kind_ok r" "s_peer r = None"
    and t: "\<And>t. s_transport r = Some t \<Longrightarrow> w_transports w t \<noteq> None"
  shows "wf_world None (set_sock (w_next w) r (w\<lparr>w_next := w_next w + 1\<rparr>))" (is "wf_world None ?w")
proof (rule wf_worldI)
  have fresh: "w_heap w (w_next w) = None" by (rule wf_next [OF wf])
  show "sock_ok ?w b x" if b: "w_heap ?w b = Some x" for b x
  proof (cases "b = w_next w")
    case True
    then show ?thesis using b r t by (auto simp: sock_ok_def)
  next
    case False
    then show ?thesis using b by (intro sock_ok_mono [OF wf_sockD [OF wf]]) auto
  qed
  show "peers_ok None (w_heap ?w)"
    using wf_worldD(1) [OF wf] fresh r(3) unfolding peers_ok_def by (auto; metis option.discI)
  show "ids_ok (w_heap ?w)" using wf_worldD(2) [OF wf] r(1) unfolding ids_ok_def by (auto split: if_splits)
  show "lists_ok ?w" using wf_worldD(3) [OF wf] fresh by (auto simp: lists_ok_def)
  show "w_heap ?w b = None" if "w_next ?w \<le> b" for b using wf_worldD(4) [OF wf, of b] that by auto
qed (use wf_worldD [OF wf] in auto)

lemma good_with_peer:
  assumes g: "good w" and a: "w_heap w a = Some s" "is_local s" "s_peer s = None" "\<not> s_closing s"
    and r: "\<not> is_local r" "kind_ok r" "s_peer r = None" "\<not> s_closing r"
    and t: "\<And>t. s_transport r = Some t \<Longrightarrow> w_transports w t \<noteq> None"
  shows "good (with_peer a s r w)"
proof -
  have wf: "wf_world None w" and att: "attached w" using g by (simp_all add: good_def)
  have ne: "a \<noteq> w_next w" using wf_next [OF wf] a(1) by auto
  let ?w = "set_sock (w_next w) r (w\<lparr>w_next := w_next w + 1\<rparr>)"
  have "wf_world None (set_sock (w_next w) (r\<lparr>s_peer := Some a\<rparr>) (set_sock a (s\<lparr>s_peer := Some (w_next w)\<rparr>) ?w))"
    by (rule wf_link [OF wf_add [OF wf r(1-3) t]]) (use a r ne in auto)
  also have "\<dots> = with_peer a s r w" using ne by (simp add: with_peer_def set_sock_def fun_upd_twist)
  finally have "wf_world None (with_peer a s r w)" .
  moreover have "attached (with_peer a s r w)"
    unfolding attached_def
  proof (intro allI impI)
    fix b x
    assume b: "w_heap (with_peer a s r w) b = Some x" "\<not> is_local x"
    show "\<exists>p ps. s_peer x = Some p \<and> w_heap (with_peer a s r w) p = Some ps \<and> is_local ps"
    proof (cases "b = w_next w")
      case True
      then show ?thesis using b ne a by (auto simp: with_peer_def is_local_def)
    next
      case False
      then have x: "w_heap w b = Some x" "b \<noteq> a" using b a ne by (auto simp: with_peer_def is_local_def split: if_splits)
      then obtain p ps where p: "s_peer x = Some p" "w_heap w p = Some ps" "is_local ps"
        using att b(2) unfolding attached_def by blast
      then show ?thesis using wf_next [OF wf] a(2) by (auto simp: with_peer_def is_local_def)
    qed
  qed
  ultimately show ?thesis by (simp add: good_def)
qed


lemma connect_to_smartsocket_ok:
  assumes g: "good w" and a: "w_heap w a = Some s" "is_local s" "s_peer s = None" "\<not> s_closing s"
  shows "\<exists>w'. connect_to_smartsocket env a w = Inr w' \<and> good w'"
proof -
  let ?r = "new_asocket\<lparr>s_enqueue := smart_enqueue_fn, s_ready := smart_ready_fn, s_close := smart_close_fn\<rparr>"
  have wf: "wf_world None w" using g by (simp add: good_def)
  have ne: "a \<noteq> w_next w" using wf_next [OF wf] a(1) by auto
  have g1: "good (with_peer a s ?r w)"
    by (rule good_with_peer [OF g a]) (simp_all add: is_local_def kind_ok_def new_asocket_def)
  have wf1: "wf_world None (with_peer a s ?r w)" using g1 by (simp add: good_def)
  have eq: "connect_to_smartsocket env a w = s_do_ready env a (with_peer a s ?r w)"
    using a(1) ne by (simp add: connect_to_smartsocket_def alloc_sock_def mod_sock_def sock_def with_peer_def set_sock_def
        fun_upd_twist)
  have "w_heap (with_peer a s ?r w) a = Some (s\<lparr>s_peer := Some (w_next w)\<rparr>)" using ne by (simp add: with_peer_def)
  from s_do_ready_ok [OF wf1 this, of env] a(2) eq good_keeps [OF g1] show ?thesis
    by (auto simp: is_local_def)
qed

subsection \<open>Requests to the device\<close>

lemma get_max_payload_ok:
  assumes wf: "wf_world e w" and a: "w_heap w a = Some s" "\<And>t. s_transport s = Some t \<Longrightarrow> w_transports w t \<noteq> None"
    and p: "\<And>p. s_peer s = Some p \<Longrightarrow> \<exists>ps. w_heap w p = Some ps \<and> \<not> s_closing ps"
  shows "\<exists>m. asocket_get_max_payload a w = Inr m \<and> m \<le> MAX_PAYLOAD"
proof -
  have t: "\<exists>tr. w_transports w t = Some tr" if "w_heap w b = Some x" "\<not> s_closing x" "s_transport x = Some t" for b x t
    using wf_sockD [OF wf that(1)] that(2,3) by (auto simp: sock_ok_def)
  have 1: "\<exists>m. (case s_transport s of None \<Rightarrow> Inr MAX_PAYLOAD
              | Some t \<Rightarrow> rbind (trans t w) (\<lambda>tr. Inr (min MAX_PAYLOAD (t_max_payload tr)))) = Inr m \<and> m \<le> MAX_PAYLOAD"
    using a(2) by (cases "s_transport s") (auto simp: trans_def)
  have 2: "\<exists>m'. (case s_transport ps of None \<Rightarrow> Inr m | Some t \<Rightarrow> rbind (trans t w) (\<lambda>tr. Inr (min m (t_max_payload tr)))) = Inr m' \<and> m' \<le> m"
    if "w_heap w q = Some ps" "\<not> s_closing ps" for q ps and m :: nat
    using t [OF that] by (cases "s_transport ps") (auto simp: trans_def)
  from 1 obtain m where m: "(case s_transport s of None \<Rightarrow> Inr MAX_PAYLOAD
              | Some t \<Rightarrow> rbind (trans t w) (\<lambda>tr. Inr (min MAX_PAYLOAD (t_max_payload tr)))) = Inr m" "m \<le> MAX_PAYLOAD" by blast
  show ?thesis
  proof (cases "s_peer s")
    case None
    then show ?thesis using m a by (simp add: asocket_get_max_payload_def)
  next
    case (Some q)
    with p obtain ps where ps: "w_heap w q = Some ps" "\<not> s_closing ps" by blast
    from 2 [OF ps, of m] m Some ps a show ?thesis by (auto simp: asocket_get_max_payload_def)
  qed
qed

lemma UpdateReverseConfig_ext:
  "safe_but {Fatal} (tr_ext tr) (UpdateReverseConfig lb d tr)"
proof -
  have [simp]: "tr_ext tr (tr\<lparr>t_reverse_forwards := x\<rparr>)" for x by (simp add: tr_ext_def)
  have opt: "safe_but {Fatal} (tr_ext tr) (case x of None \<Rightarrow> m | Some y \<Rightarrow> f y)"
    if "x = None \<Longrightarrow> safe_but {Fatal} (tr_ext tr) m" "\<And>y. x = Some y \<Longrightarrow> safe_but {Fatal} (tr_ext tr) (f y)"
    for x :: "'b option" and m f using that by (cases x) auto
  have if': "safe_but {Fatal} (tr_ext tr) (if b then m else n)"
    if "safe_but {Fatal} (tr_ext tr) m" "safe_but {Fatal} (tr_ext tr) n" for b m n using that by simp
  show ?thesis unfolding UpdateReverseConfig_def Let_def
    by (intro opt if') simp_all
qed


lemma destination_block:
  "\<exists>b b1 b2. block_resize fresh block_empty (length d + 1) = Inr b \<and> block_store b 0 d = Inr b1
     \<and> block_store b1 (length d) [CHR 0x00] = Inr b2 \<and> wf_block b2 \<and> block_bytes b2 = d @ [CHR 0x00]"
proof -
  obtain b where b: "block_resize fresh block_empty (length d + 1) = Inr b" "wf_block b" "bsize b = length d + 1"
    using block_resize_empty by blast
  from block_store_ok [OF b(2), of 0 d] b(3) obtain b1
    where b1: "block_store b 0 d = Inr b1" "wf_block b1" "bsize b1 = length d + 1"
      "block_bytes b1 = d @ drop (length d) (block_bytes b)" by auto
  from block_store_ok [OF b1(2), of "length d" "[CHR 0x00]"] b1(3) obtain b2
    where b2: "block_store b1 (length d) [CHR 0x00] = Inr b2" "wf_block b2"
      "block_bytes b2 = take (length d) (block_bytes b1) @ [CHR 0x00] @ drop (length d + 1) (block_bytes b1)" by auto
  have "length (block_bytes b) = length d + 1" using length_block_bytes [OF b(2)] b(3) by simp
  with b b1 b2 show ?thesis by (intro exI [of _ b] exI [of _ b1] exI [of _ b2]) simp
qed

lemma unat_of_nat_le: "unat (of_nat n :: u32) \<le> n"
  by (simp add: unat_of_nat)

lemma only_sends_trans_ext:
  assumes "trans_ext w w'" "w' = w\<lparr>w_transports := x\<rparr>"
  shows "only_sends w w'"
  using assms by (simp add: only_sends_def)

lemma send_open_ok:
  assumes wf: "wf_world e w" and a: "w_heap w a = Some x" "\<not> s_closing x" "s_peer x = None"
    and t: "w_transports w t = Some tr"
  shows "safe_but {Check_failed} (only_sends w) (send_open env a s t da d w)"
proof -
  obtain b b1 b2 where b: "block_resize (e_fresh env) block_empty (length d + 1) = Inr b" "block_store b 0 d = Inr b1"
    "block_store b1 (length d) [CHR 0x00] = Inr b2" "wf_block b2" using destination_block by blast
  obtain mx where mx: "asocket_get_max_payload a w = Inr mx"
    using get_max_payload_ok [OF wf a(1)] wf_sockD [OF wf a(1)] a(2,3) by (auto simp: sock_ok_def)
  let ?m = "(msg (header_packet A_OPEN (s_id s) (if da then of_nat INITIAL_DELAYED_ACK_BYTES else 0)))\<lparr>data_length := of_nat (bsize b2)\<rparr>"
  have "sendable \<lparr>msg = ?m, payload = b2\<rparr>" using b(4) by (simp add: sendable_def unat_of_nat_le)
  from w_send_packet_ok [OF t this, of env] only_sends_set_trans [OF t] b mx show ?thesis
    by (auto simp: send_open_def Let_def rcheck_def)
qed

lemma connect_to_remote_ok:
  assumes wf: "wf_world e w" and a: "w_heap w a = Some s" "s_transport s = Some t" "\<not> s_closing s" "s_peer s = None" "is_local s"
  shows "safe_but {Fatal, Check_failed} (\<lambda>w'. \<exists>x. only_sends (set_sock a (s\<lparr>s_available_send_bytes := x\<rparr>) w) w')
           (connect_to_remote env lb adb_host a d w)"
proof -
  from wf_sockD [OF wf a(1)] a(2,3) obtain tr where tr: "w_transports w t = Some tr" by (auto simp: sock_ok_def)
  have "safe_but {Fatal} (tr_ext tr) (if adb_host then UpdateReverseConfig lb d tr else Inr tr)"
    using UpdateReverseConfig_ext by simp
  then have rev: "safe_but {Fatal, Check_failed} (tr_ext tr) (if adb_host then UpdateReverseConfig lb d tr else Inr tr)"
    by (rule safe_but_mono) auto
  have step: "safe_but {Fatal, Check_failed} (\<lambda>w'. \<exists>x. only_sends (set_sock a (s\<lparr>s_available_send_bytes := x\<rparr>) w) w')
      (send_open env a s t da d (if da then set_sock a (s\<lparr>s_available_send_bytes := Some 0\<rparr>) (set_trans t tr1 w) else set_trans t tr1 w))"
    if e1: "tr_ext tr tr1" for tr1 da
  proof -
    define x where "x = (if da then Some 0 else s_available_send_bytes s)"
    let ?s = "s\<lparr>s_available_send_bytes := x\<rparr>"
    have w2: "(if da then set_sock a (s\<lparr>s_available_send_bytes := Some 0\<rparr>) (set_trans t tr1 w) else set_trans t tr1 w)
        = set_trans t tr1 (set_sock a ?s w)"
      using a(1) by (auto simp: x_def set_sock_def set_trans_def map_upd_triv)
    have os: "only_sends (set_sock a ?s w) (set_trans t tr1 (set_sock a ?s w))"
      using e1 tr trans_ext_set [of "set_sock a ?s w" t tr tr1] by (simp add: only_sends_def set_trans_def)
    have "wf_world e (set_sock a ?s w)"
      by (rule wf_set_sock [OF wf a(1)])
         (use wf_sockD [OF wf a(1)] a(5) in \<open>auto simp: sock_ok_def kind_ok_def waiting_ok_def is_local_def\<close>)
    from send_open_ok [OF wf_only_sends [OF this os], of a ?s t tr1 env s da d] a
    show ?thesis unfolding w2
      by (auto elim!: safe_but_mono intro: only_sends_trans [OF os])
  qed
  show ?thesis
    unfolding connect_to_remote_def trans_def Let_def sock_Some [OF a(1)] rbind_Inr a(2) tr of_option_simps
    by (rule safe_but_rbind [OF rev step])
qed


subsection \<open>The smart socket\<close>

lemma wf_cut:
  assumes wf: "wf_world None w" and a: "w_heap w a = Some s" "s_peer s = Some p" and p: "w_heap w p = Some ps"
  shows "wf_world None (set_sock a (s\<lparr>s_peer := None\<rparr>) (set_sock p (ps\<lparr>s_peer := None\<rparr>) w))"
proof (rule wf_cut_exempt)
  from wf_peerD [OF wf a] p have pa: "p \<noteq> a" "s_peer ps = Some a" by auto
  let ?w = "set_sock p (ps\<lparr>s_peer := None\<rparr>) w"
  show "wf_world (Some a) ?w" by (rule wf_clear_back [OF wf p pa(2)])
  show "w_heap ?w a = Some s" using a pa by simp
  show "unpointed (Some a) a ?w"
    using not_pointed_cut [OF wf a p] by (auto simp: pointed_def unpointed_def)
  show "s_peer s \<noteq> Some a" using a pa by simp
qed

text \<open>The transport a request switches to is a registered one.\<close>

definition hs_ok :: "host_services \<Rightarrow> bool" where
  "hs_ok hs \<longleftrightarrow> (\<forall>service ty serial tid w reply t.
     h_request hs service ty serial tid w = (SwitchedTransport, reply, Some t) \<longrightarrow> w_transports w t \<noteq> None)"

text \<open>What a request leaves: a good heap, and the client's socket if the result is not negative.\<close>

definition requested :: "addr \<Rightarrow> world \<Rightarrow> int \<times> world \<Rightarrow> bool" where
  "requested p w r \<longleftrightarrow> (case r of (n, w') \<Rightarrow> good w' \<and> trans_ext w w'
     \<and> (0 \<le> n \<longrightarrow> (\<exists>s. w_heap w' p = Some s \<and> is_local s \<and> \<not> s_closing s)))"

lemma good_reply [simp]: "good (w_reply fd bs w) = good w"
  by (simp add: good_def attached_def)

lemma smart_fail_ok:
  assumes g: "good w" and a: "w_heap w a = Some s" and w0: "trans_ext w0 w"
  shows "safe (requested p w0) (smart_fail env a w)"
proof -
  have wf: "wf_world None w" using g by (simp add: good_def)
  have "requested p w0 (- 1, w')" if "closed_both a w w'" for w'
    using attached_closed_both [OF that g] a trans_ext_trans [OF w0] that by (simp add: requested_def closed_both_def)
  then show ?thesis unfolding smart_fail_def by (intro safe_rbind [OF s_do_close_ok [OF wf a]]) simp
qed

lemma close_detached_smart:
  assumes wf: "wf_world None w" and a: "w_heap w a = Some s" "s_peer s = None"
  shows "safe (closed None a w) (s_do_close env a w)"
  unfolding s_do_close_Suc by (rule close_detached [OF wf a]) simp

lemma trans_ext_refl [simp]: "trans_ext w w"
  by (rule trans_ext_same) simp

text \<open>The client's socket \<open>p\<close>, first linked to the smart socket \<open>a\<close>, is linked to the service \<open>b\<close>.\<close>

lemma relink_ok:
  fixes fd :: int and r :: bytes
  assumes g: "good w" and a: "w_heap w a = Some s" "\<not> is_local s" "s_peer s = Some p" and p: "w_heap w p = Some ps" "is_local ps"
    and n: "new_local b w w1" "w_heap w1 b = Some bs"
  defines "ps' \<equiv> ps\<lparr>s_peer := Some b, s_ready := local_ready_fn, s_shutdown := False, s_close := local_close_fn\<rparr>"
  defines "w4 \<equiv> set_sock a (s\<lparr>s_peer := None\<rparr>) (set_sock b (bs\<lparr>s_peer := Some p\<rparr>) (set_sock p ps' (w_reply fd r w1)))"
  shows "wf_world None w4" and "a \<noteq> p" "a \<noteq> b" "p \<noteq> b"
proof -
  have wf: "wf_world None w" using g by (simp add: good_def)
  from n obtain x where x: "w_heap w1 = (w_heap w)(b \<mapsto> x)" "w_heap w b = None" "wf_world None w1" "x = bs"
    "is_local bs" "s_peer bs = None" "\<not> s_closing bs" by (auto simp: new_local_def)
  from wf_peerD [OF wf a(1,3)] p have pa: "p \<noteq> a" "s_peer ps = Some a" by auto
  show ne: "a \<noteq> p" "a \<noteq> b" "p \<noteq> b" using pa x a p by auto
  let ?ps = "ps\<lparr>s_ready := local_ready_fn, s_shutdown := False, s_close := local_close_fn\<rparr>"
  let ?w1 = "w_reply fd r w1"
  have nc: "\<not> s_closing ps" using kind_local(5) [OF wf_sockD [OF wf p(1)] p(2)] pa by auto
  have wA: "wf_world None (set_sock p ?ps ?w1)"
    by (rule wf_notified) (use x p ne in auto)
  have wB: "wf_world None (set_sock a (s\<lparr>s_peer := None\<rparr>) (set_sock p (?ps\<lparr>s_peer := None\<rparr>) (set_sock p ?ps ?w1)))"
    by (rule wf_cut [OF wA]) (use x a ne in auto)
  have "wf_world None (set_sock b (bs\<lparr>s_peer := Some p\<rparr>) (set_sock p ((?ps\<lparr>s_peer := None\<rparr>)\<lparr>s_peer := Some b\<rparr>)
      (set_sock a (s\<lparr>s_peer := None\<rparr>) (set_sock p (?ps\<lparr>s_peer := None\<rparr>) (set_sock p ?ps ?w1)))))"
    by (rule wf_link [OF wB]) (use x ne nc in auto)
  moreover have "(?ps\<lparr>s_peer := None\<rparr>)\<lparr>s_peer := Some b\<rparr> = ps'" by (simp add: ps'_def)
  ultimately show "wf_world None w4" using ne by (simp add: w4_def set_sock_comm)
qed


lemma good_closed:
  assumes att: "attached w" and a: "w_heap w a = Some s" "\<not> is_local s" and c: "closed None a w4 w5"
    and others: "\<And>x y. x \<noteq> a \<Longrightarrow> w_heap w4 x = Some y \<Longrightarrow> \<not> is_local y \<Longrightarrow> w_heap w x = Some y"
    and locals: "\<And>q y. q \<noteq> a \<Longrightarrow> w_heap w q = Some y \<Longrightarrow> is_local y \<Longrightarrow> \<exists>z. w_heap w4 q = Some z \<and> is_local z"
  shows "good w5"
proof -
  have h5: "w_heap w5 x = w_heap w4 x" if "x \<noteq> a" for x using c that by (simp add: closed_def)
  have wf5: "wf_world None w5" using c by (simp add: closed_def)
  have "attached w5"
  proof (rule attached_from [OF att])
    fix x y
    assume x: "w_heap w5 x = Some y" "\<not> is_local y"
    have "\<not> s_closing y" using wf_sockD [OF wf5 x(1)] x(2) by (auto simp: sock_ok_def kind_ok_def is_local_def split: enqueue_fn.splits)
    then have "x \<noteq> a" using c x by (auto simp: closed_def)
    with x h5 others show "w_heap w x = Some y" by simp
  next
    fix q y
    assume q: "w_heap w q = Some y" "is_local y"
    then have "q \<noteq> a" using a by auto
    with q h5 locals show "\<exists>s'. w_heap w5 q = Some s' \<and> is_local s'" by simp
  qed
  with wf5 show ?thesis by (simp add: good_def)
qed

lemma relinked_requested:
  assumes g: "good w" and a: "w_heap w a = Some s" "\<not> is_local s"
    and h4: "w_heap w4 = (w_heap w)(p \<mapsto> ps', b \<mapsto> bs, a \<mapsto> s')" and p: "is_local ps'" "\<not> s_closing ps'"
    and b: "w_heap w b = None" "is_local bs" and ne: "a \<noteq> p" "a \<noteq> b" "p \<noteq> b" and t: "w_transports w4 = w_transports w"
    and c: "closed None a w4 w5" and k: "keeps b w5 w6"
  shows "requested p w (0, w6)"
proof -
  have "good w5"
    by (rule good_closed [OF _ a c]) (use g h4 p b in \<open>auto simp: good_def split: if_splits\<close>)
  then have "good w6" using good_keeps [OF _ k] by simp
  moreover have "trans_ext w w6"
    using c k t trans_ext_trans [of w w5 w6] by (simp add: closed_def keeps_def trans_ext_same)
  moreover have "w_heap w6 p = Some ps'" using c k h4 ne by (simp add: closed_def keeps_def)
  ultimately show ?thesis using p by (simp add: requested_def)
qed

lemma smart_service_linked:
  assumes g: "good w" and a: "w_heap w a = Some s" "\<not> is_local s" "s_peer s = Some p" and p: "w_heap w p = Some ps" "is_local ps"
    and n: "new_local b w w1"
  shows "safe (requested p w)
     (rbind (mod_sock p (\<lambda>x. x\<lparr>s_peer := Some b, s_ready := local_ready_fn, s_shutdown := False,
                              s_close := local_close_fn\<rparr>) (w_reply rfd rbs w1)) (\<lambda>w2.
      rbind (mod_sock b (\<lambda>x. x\<lparr>s_peer := Some p\<rparr>) w2) (\<lambda>w3.
      rbind (mod_sock a (\<lambda>x. x\<lparr>s_peer := None\<rparr>) w3) (\<lambda>w4.
      rbind (s_do_close env a w4) (\<lambda>w5.
      rbind (s_do_ready env b w5) (\<lambda>w6. Inr (0, w6)))))))"
proof -
  have wf: "wf_world None w" using g by (simp add: good_def)
  from n obtain bs where b: "w_heap w1 = (w_heap w)(b \<mapsto> bs)" "w_heap w b = None" "is_local bs"
    "w_transports w1 = w_transports w" by (auto simp: new_local_def)
  define ps' where "ps' = ps\<lparr>s_peer := Some b, s_ready := local_ready_fn, s_shutdown := False, s_close := local_close_fn\<rparr>"
  define w4 where "w4 = set_sock a (s\<lparr>s_peer := None\<rparr>) (set_sock b (bs\<lparr>s_peer := Some p\<rparr>) (set_sock p ps' (w_reply rfd rbs w1)))"
  have bb: "w_heap w1 b = Some bs" using b by simp
  note wf4 = relink_ok(1) [OF g a p n bb, where fd = rfd and r = rbs, folded ps'_def w4_def]
    and ne = relink_ok(2-4) [OF g a p n bb]
  have pc: "\<not> s_closing ps" using kind_local(5) [OF wf_sockD [OF wf p(1)] p(2)] wf_peerD [OF wf a(1,3)] p(1) by auto
  have h4: "w_heap w4 = (w_heap w)(p \<mapsto> ps', b \<mapsto> bs\<lparr>s_peer := Some p\<rparr>, a \<mapsto> s\<lparr>s_peer := None\<rparr>)"
    using b ne by (simp add: w4_def fun_upd_twist)
  have cl: "safe (closed None a w4) (s_do_close env a w4)"
    by (rule close_detached_smart [OF wf4, where s = "s\<lparr>s_peer := None\<rparr>"]) (simp_all add: w4_def)
  have rest: "safe (requested p w) (rbind (s_do_ready env b w5) (\<lambda>w6. Inr (0, w6)))" if c: "closed None a w4 w5" for w5
  proof -
    have "wf_world None w5" "w_heap w5 b = Some (bs\<lparr>s_peer := Some p\<rparr>)" using c ne h4 by (simp_all add: closed_def)
    from s_do_ready_ok [OF this, of env] obtain w6 where w6: "s_do_ready env b w5 = Inr w6" "keeps b w5 w6" by auto
    have "requested p w (0, w6)"
      by (rule relinked_requested [OF g a(1,2) h4 _ _ b(2) _ ne _ c w6(2)])
         (use p pc b in \<open>simp_all add: ps'_def is_local_def w4_def\<close>)
    with w6 show ?thesis by simp
  qed
  from safe_rbind [OF cl rest] show ?thesis using a p b ne by (simp add: w4_def ps'_def)
qed

lemma set_sock_reply: "set_sock a s (w_reply fd bs w) = w_reply fd bs (set_sock a s w)"
  by (simp add: set_sock_def w_reply_def)

lemma good_set_sock:
  assumes g: "good w" and a: "w_heap w a = Some s" and ok: "sock_ok w a s'"
    and same: "s_peer s' = s_peer s" "s_id s' = s_id s" "s_enqueue s' = s_enqueue s" "s_closing s' = s_closing s"
  shows "good (set_sock a s' w)"
proof -
  have wf: "wf_world None w" and att: "attached w" using g by (simp_all add: good_def)
  have "attached (set_sock a s' w)"
    unfolding attached_def
  proof (intro allI impI)
    fix b x
    assume b: "w_heap (set_sock a s' w) b = Some x" "\<not> is_local x"
    then obtain y where y: "w_heap w b = Some y" "\<not> is_local y" "s_peer y = s_peer x"
      using a same by (cases "b = a") (auto simp: is_local_def)
    then obtain p ps where p: "s_peer x = Some p" "w_heap w p = Some ps" "is_local ps"
      using att unfolding attached_def by metis
    then show "\<exists>p ps. s_peer x = Some p \<and> w_heap (set_sock a s' w) p = Some ps \<and> is_local ps"
      using a same by (cases "p = a") (auto simp: is_local_def)
  qed
  with wf_set_sock [OF wf a ok same] show ?thesis by (simp add: good_def)
qed

lemma smart_host_service_ok:
  assumes g: "good w" and hs: "hs_ok hs" and a: "w_heap w a = Some s" "s_enqueue s = smart_enqueue_fn" "s_peer s = Some p"
  shows "safe_but {Fatal} (requested p w) (smart_host_service env hs a service ty serial tid w)"
proof -
  have wf: "wf_world None w" using g by (simp add: good_def)
  have na: "\<not> is_local s" using a(2) by (simp add: is_local_def)
  then obtain ps where p: "w_heap w p = Some ps" "is_local ps" using g a unfolding good_def attached_def by fastforce
  have pc: "\<not> s_closing ps" using kind_local(5) [OF wf_sockD [OF wf p(1)] p(2)] wf_peerD [OF wf a(1,3)] p(1) by auto
  have fail: "safe_but {Fatal} (requested p w) (smart_fail env a (w_reply fd bs w))" for fd bs
    by (rule safe_but_safe, rule smart_fail_ok) (use g a in \<open>simp_all add: trans_ext_def option.rel_refl\<close>)
  obtain res reply tr where r: "h_request hs service ty (if serial = [] then None else Some serial) tid w = (res, reply, tr)"
    by (cases "h_request hs service ty (if serial = [] then None else Some serial) tid w") auto
  show ?thesis
  proof (cases res)
    case Handled
    then show ?thesis using a p r fail by (simp add: smart_host_service_def)
  next
    case SwitchedTransport
    let ?s = "s\<lparr>s_transport := tr, s_smart_socket_data := []\<rparr>"
    have t: "w_transports w t \<noteq> None" if "tr = Some t" for t
      using hs r SwitchedTransport that unfolding hs_ok_def by blast
    have "good (set_sock a ?s w)"
      by (rule good_set_sock [OF g a(1)])
         (use wf_sockD [OF wf a(1)] a(2) t in \<open>auto simp: sock_ok_def kind_ok_def is_local_def\<close>)
    moreover have "p \<noteq> a" using wf_peerD [OF wf a(1,3)] by simp
    ultimately have "requested p w (0, set_sock a ?s (w_reply (s_fd ps) reply w))"
      using p pc by (simp add: requested_def set_sock_reply trans_ext_same)
    then show ?thesis using a p r SwitchedTransport by (simp add: smart_host_service_def)
  next
    case Unhandled
    show ?thesis
    proof (cases "h_service hs service serial tid")
      case None
      then show ?thesis using a p r fail Unhandled by (simp add: smart_host_service_def)
    next
      case (Some fd)
      have "safe_but {Fatal} (requested p w)
        (rbind (create_local_socket fd w) (\<lambda>(b, w1).
                rbind (mod_sock p (\<lambda>x. x\<lparr>s_peer := Some b, s_ready := local_ready_fn, s_shutdown := False,
                                        s_close := local_close_fn\<rparr>) (w_reply (s_fd ps) ''OKAY'' w1)) (\<lambda>w2.
                rbind (mod_sock b (\<lambda>x. x\<lparr>s_peer := Some p\<rparr>) w2) (\<lambda>w3.
                rbind (mod_sock a (\<lambda>x. x\<lparr>s_peer := None\<rparr>) w3) (\<lambda>w4.
                rbind (s_do_close env a w4) (\<lambda>w5.
                rbind (s_do_ready env b w5) (\<lambda>w6. Inr (0, w6))))))))"
        by (rule safe_but_rbind [OF create_local_socket_ok [OF wf]])
           (auto intro!: safe_but_safe smart_service_linked [OF g a(1) na a(3) p])
      then show ?thesis using a p r Some Unhandled by (simp add: smart_host_service_def)
    qed
  qed
qed


text \<open>The client's socket is detached from the smart socket \<open>a\<close> and asks the device for a stream.\<close>

lemma detached_client:
  assumes wf: "wf_world None w" and a: "w_heap w a = Some s" "s_peer s = Some p" "s_transport s = Some t" "\<not> s_closing s"
    and p: "w_heap w p = Some ps" "is_local ps"
  defines "ps' \<equiv> ps\<lparr>s_peer := None, s_ready := local_ready_notify_fn, s_shutdown := False,
                 s_close := local_close_notify_fn, s_transport := Some t\<rparr>"
  shows "wf_world (Some a) (set_sock p ps' w)" and "p \<noteq> a" and "\<not> s_closing ps"
proof -
  from wf_peerD [OF wf a(1,2)] p have pa: "p \<noteq> a" "s_peer ps = Some a" by auto
  show "p \<noteq> a" by (rule pa(1))
  show nc: "\<not> s_closing ps" using kind_local(5) [OF wf_sockD [OF wf p(1)] p(2)] pa by auto
  let ?w = "set_sock p (ps\<lparr>s_peer := None\<rparr>) w"
  have wf1: "wf_world (Some a) ?w" by (rule wf_clear_back [OF wf p(1) pa(2)])
  have "w_transports w t \<noteq> None" using wf_sockD [OF wf a(1)] a(3,4) by (auto simp: sock_ok_def)
  then have "wf_world (Some a) (set_sock p ps' ?w)"
    by (intro wf_set_sock [OF wf1, where s = "ps\<lparr>s_peer := None\<rparr>"])
       (use wf_sockD [OF wf p(1)] p(2) in \<open>auto simp: ps'_def sock_ok_def kind_ok_def waiting_ok_def is_local_def\<close>)
  then show "wf_world (Some a) (set_sock p ps' w)" by simp
qed

lemma client_connected:
  assumes g: "good w" and a: "w_heap w a = Some s" "\<not> is_local s" "s_peer s = Some p" and p: "w_heap w p = Some ps"
    and os: "only_sends (set_sock p ps' w) w1" and ps': "s_peer ps' = None" "is_local ps'" "\<not> s_closing ps'"
    and wf0: "wf_world (Some a) (set_sock p ps' w)"
  shows "safe (requested p w)
     (rbind (mod_sock a (\<lambda>x. x\<lparr>s_peer := None\<rparr>) w1) (\<lambda>w2. rbind (s_do_close env a w2) (\<lambda>w3. Inr (1, w3))))"
proof -
  have wf: "wf_world None w" using g by (simp add: good_def)
  have ne: "p \<noteq> a" using wf_peerD [OF wf a(1,3)] by simp
  have h1: "w_heap w1 = (w_heap w)(p \<mapsto> ps')" using only_sendsD(1) [OF os] by simp
  let ?w2 = "set_sock a (s\<lparr>s_peer := None\<rparr>) w1"
  have "unpointed (Some a) a w1"
    using not_pointed_cut [OF wf a(1,3) p] h1 ps'(1) by (auto simp: pointed_def unpointed_def split: if_splits)
  then have wf2: "wf_world None ?w2"
    by (intro wf_cut_exempt [OF wf_only_sends [OF wf0 os]]) (use h1 a ne in auto)
  have cl: "safe (closed None a ?w2) (s_do_close env a ?w2)"
    by (rule close_detached_smart [OF wf2, where s = "s\<lparr>s_peer := None\<rparr>"]) simp_all
  have "requested p w (1, w3)" if c: "closed None a ?w2 w3" for w3
  proof -
    have "good w3"
      by (rule good_closed [OF _ a(1,2) c]) (use g h1 ps' in \<open>auto simp: good_def split: if_splits\<close>)
    moreover have "trans_ext w w3" using c only_sendsD(6) [OF os] by (simp add: closed_def trans_ext_def)
    moreover have "w_heap w3 p = Some ps'" using c h1 ne by (simp add: closed_def)
    ultimately show ?thesis using ps' by (simp add: requested_def)
  qed
  then have "safe (requested p w) (rbind (s_do_close env a ?w2) (\<lambda>w3. Inr (1, w3)))"
    by (intro safe_rbind [OF cl]) simp
  then show ?thesis using h1 a ne by simp
qed

lemma smart_device_service_ok:
  assumes g: "good w" and a: "w_heap w a = Some s" "s_enqueue s = smart_enqueue_fn" "s_peer s = Some p"
  shows "safe_but {Fatal, Check_failed} (requested p w) (smart_device_service env lb a service w)"
proof -
  have wf: "wf_world None w" using g by (simp add: good_def)
  have na: "\<not> is_local s" using a(2) by (simp add: is_local_def)
  then obtain ps where p: "w_heap w p = Some ps" "is_local ps" using g a unfolding good_def attached_def by fastforce
  have nc: "\<not> s_closing s" using wf_sockD [OF wf a(1)] a(2) by (simp add: sock_ok_def kind_ok_def)
  have fail: "safe_but {Fatal, Check_failed} (requested p w) (smart_fail env a (w_reply fd bs w))" for fd bs
    by (rule safe_but_safe, rule smart_fail_ok) (use g a in \<open>simp_all add: trans_ext_def option.rel_refl\<close>)
  show ?thesis
  proof (cases "s_transport s")
    case None
    then show ?thesis using a p fail by (simp add: smart_device_service_def)
  next
    case (Some t)
    then obtain tr where tr: "w_transports w t = Some tr" using wf_sockD [OF wf a(1)] nc by (auto simp: sock_ok_def)
    define ps' where "ps' = ps\<lparr>s_peer := None, s_ready := local_ready_notify_fn, s_shutdown := False,
                 s_close := local_close_notify_fn, s_transport := Some t\<rparr>"
    note dc = detached_client [OF wf a(1,3) Some nc p, folded ps'_def]
    have ps': "w_heap (set_sock p ps' w) p = Some ps'" "s_transport ps' = Some t" "\<not> s_closing ps'" "s_peer ps' = None" "is_local ps'"
      using dc(3) p(2) by (simp_all add: ps'_def is_local_def)
    have "safe_but {Fatal, Check_failed} (requested p w)
        (rbind (connect_to_remote env lb True p service (set_sock p ps' w)) (\<lambda>w1.
         rbind (mod_sock a (\<lambda>x. x\<lparr>s_peer := None\<rparr>) w1) (\<lambda>w2. rbind (s_do_close env a w2) (\<lambda>w3. Inr (1, w3)))))"
    proof (rule safe_but_rbind [OF connect_to_remote_ok [OF dc(1) ps']])
      fix w1
      assume "\<exists>x. only_sends (set_sock p (ps'\<lparr>s_available_send_bytes := x\<rparr>) (set_sock p ps' w)) w1"
      then obtain x where os: "only_sends (set_sock p (ps'\<lparr>s_available_send_bytes := x\<rparr>) w) w1" by auto
      have "wf_world (Some a) (set_sock p (ps'\<lparr>s_available_send_bytes := x\<rparr>) (set_sock p ps' w))"
        by (rule wf_set_sock [OF dc(1) ps'(1)])
           (use wf_sockD [OF dc(1) ps'(1)] ps'(5) in \<open>auto simp: sock_ok_def kind_ok_def waiting_ok_def is_local_def\<close>)
      then show "safe_but {Fatal, Check_failed} (requested p w)
         (rbind (mod_sock a (\<lambda>x. x\<lparr>s_peer := None\<rparr>) w1) (\<lambda>w2. rbind (s_do_close env a w2) (\<lambda>w3. Inr (1, w3))))"
        by (intro safe_but_safe client_connected [OF g a(1) na a(3) p(1) os]) (use ps' in \<open>simp_all add: is_local_def\<close>)
    qed
    then show ?thesis using a p tr Some fail by (simp add: smart_device_service_def trans_def ps'_def)
  qed
qed


text \<open>The faults a request of a client can cause: a malformed service name, a reverse service the
  server does not know, a service name too long for the device.\<close>

abbreviation request_faults :: "fault set" where
  "request_faults \<equiv> {Fatal, Check_failed, Out_of_range}"

lemma smart_parse_buffer_ok: "safe_but request_faults (\<lambda>_. True) (smart_parse_buffer lb buf)"
proof -
  have "safe_but request_faults (\<lambda>_. True) (parse_host_service r)" for r
    using parse_host_service_outcome [of r] by (cases "parse_host_service r") (auto split: if_splits)
  then have p: "safe_but request_faults (\<lambda>_. True) (rbind (parse_host_service r) (\<lambda>x. Inr (f x)))" for r and f :: "_ \<Rightarrow> smart_parse"
    by (rule safe_but_rbind) simp
  have q: "safe_but request_faults (\<lambda>_. True) (parse_smart_service lb service)" for service
    using p unfolding parse_smart_service_def Let_def by (simp split: option.split)
  have "safe_but request_faults (\<lambda>_. True) (rbind (parse_smart_service lb service) (\<lambda>x. Inr (f x)))"
    for service and f :: "smart_parse \<Rightarrow> smart_parse \<times> string"
    by (rule safe_but_rbind [OF q]) simp
  then show ?thesis unfolding smart_parse_buffer_def Let_def by simp
qed

lemma smart_socket_enqueue_ok:
  assumes g: "good w" and hs: "hs_ok hs" and a: "w_heap w a = Some s" "s_enqueue s = smart_enqueue_fn" "s_peer s = Some p"
  shows "safe_but request_faults (requested p w) (smart_socket_enqueue env lb hs a data w)"
proof -
  have wf: "wf_world None w" using g by (simp add: good_def)
  have na: "\<not> is_local s" using a(2) by (simp add: is_local_def)
  then obtain ps where p: "w_heap w p = Some ps" "is_local ps" using g a unfolding good_def attached_def by fastforce
  have pa: "p \<noteq> a" "\<not> s_closing ps"
    using wf_peerD [OF wf a(1,3)] kind_local(5) [OF wf_sockD [OF wf p(1)] p(2)] p(1) by auto
  have body: "safe_but request_faults (requested p w)
      (let w1 = set_sock a (s\<lparr>s_smart_socket_data := buf\<rparr>) w
       in case parsed of
            Need_more \<Rightarrow> Inr (0, w1)
          | Bad_request \<Rightarrow> smart_fail env a w1
          | Bad_transport_id \<Rightarrow> Inr (- 1, w1)
          | Host_service service ty serial tid \<Rightarrow> smart_host_service env hs a service ty serial tid w1
          | Device_service service \<Rightarrow> smart_device_service env lb a service w1)" for parsed buf
  proof -
    let ?s = "s\<lparr>s_smart_socket_data := buf\<rparr>" and ?w = "set_sock a (s\<lparr>s_smart_socket_data := buf\<rparr>) w"
    have g1: "good ?w"
      by (rule good_set_sock [OF g a(1)]) (use wf_sockD [OF wf a(1)] a(2) in \<open>auto simp: sock_ok_def kind_ok_def is_local_def\<close>)
    have h: "w_heap ?w a = Some ?s" "s_enqueue ?s = smart_enqueue_fn" "s_peer ?s = Some p" using a by simp_all
    have stay: "requested p w (n, ?w)" for n using g1 p pa by (simp add: requested_def trans_ext_same)
    have w0: "requested p ?w r \<Longrightarrow> requested p w r" for r by (simp add: requested_def trans_ext_def split: prod.splits)
    show ?thesis
    proof (cases parsed)
      case Bad_request
      have "safe (requested p w) (smart_fail env a ?w)"
        by (rule smart_fail_ok [OF g1 h(1)]) (simp add: trans_ext_same)
      with Bad_request show ?thesis by (simp add: safe_but_safe)
    next
      case (Host_service service ty serial tid)
      then show ?thesis
        using safe_but_mono [OF smart_host_service_ok [OF g1 hs h], of request_faults "requested p w"] w0 by simp
    next
      case (Device_service service)
      then show ?thesis
        using safe_but_mono [OF smart_device_service_ok [OF g1 h], of request_faults "requested p w"] w0 by simp
    qed (simp_all add: stay)
  qed
  show ?thesis unfolding smart_socket_enqueue_def sock_Some [OF a(1)] rbind_Inr
    by (rule safe_but_rbind [OF smart_parse_buffer_ok]) (use body in auto)
qed


subsection \<open>Data from the descriptor\<close>

lemma length_flush_read: "length (fst (flush_read m evs)) \<le> m"
  by (induction m evs rule: flush_read.induct) (auto split: prod.splits)

lemma flushed_kept: "flushed env a s bs w (res, w') \<Longrightarrow> \<not> s_closing s \<Longrightarrow> res \<noteq> Destroyed"
  by (auto simp: flushed_def)

lemma close_good:
  assumes g: "good w" and a: "w_heap w a = Some s"
  shows "safe (\<lambda>w'. good w' \<and> trans_ext w w') (s_do_close env a w)"
proof -
  have wf: "wf_world None w" using g by (simp add: good_def)
  have "good w' \<and> trans_ext w w'" if "closed_both a w w'" for w'
    using attached_closed_both [OF that g] a that by (simp add: closed_both_def)
  then show ?thesis using s_do_close_ok [OF wf a, of env] by (rule safe_mono [rotated])
qed

lemma keeps_requested:
  assumes g: "good w" and k: "keeps b w w'" and p: "w_heap w p = Some ps" "is_local ps" "\<not> s_closing ps"
  shows "requested p w (n, w')"
  using good_keeps [OF g k] keeps_SomeD [OF k p(1)] k p(2,3)
  by (auto simp: requested_def keeps_def same_role_def is_local_def)

text \<open>The peer takes data of the local socket \<open>a\<close>, whatever kind of socket it is.\<close>

lemma s_do_enqueue_ok:
  assumes env: "env_ok env" and hs: "hs_ok hs" and g: "good w" and a: "w_heap w a = Some s" "is_local s" "s_peer s = Some p"
    and d: "wf_block data" "bposition data = 0" "bsize data \<le> MAX_PAYLOAD"
  shows "safe_but request_faults (requested a w) (s_do_enqueue env lb hs p data w)"
proof -
  have wf: "wf_world None w" using g by (simp add: good_def)
  from wf_peerD [OF wf a(1,3)] obtain ps where p: "p \<noteq> a" "w_heap w p = Some ps" "s_peer ps = Some a" by auto
  have nc: "\<not> s_closing s" using kind_local(5) [OF wf_sockD [OF wf a(1)] a(2)] a(3) by auto
  show ?thesis
  proof (cases "s_enqueue ps")
    case local_enqueue_fn
    then have l: "is_local ps" by (simp add: is_local_def)
    have "\<not> s_closing ps" using kind_local(5) [OF wf_sockD [OF wf p(2)] l] p(3) by auto
    then have "requested a w (n, w')" if "flushed env p ps bs w (res, w')" for res w' bs n
      using flushed_keeps [OF that p(2) flushed_kept [OF that]] keeps_requested [OF g _ a(1,2) nc] by blast
    then have "safe (requested a w) (local_socket_enqueue env p data w)"
      by (intro safe_mono [OF local_socket_enqueue_ok [OF env wf p(2) l d(1,2)]]) (auto split: prod.splits)
    then show ?thesis using local_enqueue_fn p(2) by (simp add: s_do_enqueue_def safe_but_safe)
  next
    case remote_enqueue_fn
    from remote_socket_enqueue_ok [OF wf p(2) this p(3) a(1) d(1,3), of env] obtain t tr tr' q
      where r: "remote_socket_enqueue env p data w = Inr (1, set_trans t tr' w)" "w_transports w t = Some tr" "sent_on q tr tr'" by blast
    have "keeps p w (set_trans t tr' w)" by (rule keeps_sends [OF wf only_sends_set_trans [OF r(2,3)]])
    from keeps_requested [OF g this a(1,2) nc] r remote_enqueue_fn p(2) show ?thesis by (simp add: s_do_enqueue_def)
  next
    case smart_enqueue_fn
    then show ?thesis using smart_socket_enqueue_ok [OF g hs p(2) smart_enqueue_fn p(3)] p(2) by (simp add: s_do_enqueue_def)
  qed
qed

definition outgoing_ok :: "addr \<Rightarrow> world \<Rightarrow> bool \<times> world \<Rightarrow> bool" where
  "outgoing_ok a w r \<longleftrightarrow> (case r of (go_on, w') \<Rightarrow> good w' \<and> trans_ext w w'
     \<and> (go_on \<longrightarrow> (\<exists>s. w_heap w' a = Some s)))"

lemma flush_outgoing_enqueue_ok:
  assumes env: "env_ok env" and hs: "hs_ok hs" and g: "good w" and a: "w_heap w a = Some s" "is_local s" "s_peer s = Some p"
    and d: "wf_block data" "bposition data = 0" "bsize data \<le> MAX_PAYLOAD"
  shows "safe_but request_faults (outgoing_ok a w) (flush_outgoing_enqueue env lb hs a p data w)"
proof -
  have wf: "wf_world None w" using g by (simp add: good_def)
  define s1 where "s1 = s\<lparr>s_available_send_bytes := map_option (\<lambda>n. n - int (bsize data)) (s_available_send_bytes s)\<rparr>"
  have k1: "keeps a w (set_sock a s1 w)" unfolding s1_def by (rule keeps_local(2) [OF wf a(1,2)])
  have g1: "good (set_sock a s1 w)" by (rule good_keeps [OF g k1])
  have h1: "w_heap (set_sock a s1 w) a = Some s1" "is_local s1" "s_peer s1 = Some p" using a by (simp_all add: s1_def is_local_def)
  have rest: "safe_but request_faults (outgoing_ok a w)
       (if r < 0 then Inr (False, w2)
       else if r = 0 then Inr (True, w2)
       else rbind (sock a w2) (\<lambda>s.
              if (case s_available_send_bytes s of Some n \<Rightarrow> n \<le> 0 | None \<Rightarrow> True)
              then (if \<not> s_has_fde s then Inl Null_deref
                    else Inr (True, set_sock a (s\<lparr>s_fde_read := False\<rparr>) w2))
              else Inr (True, w2)))" if r: "requested a (set_sock a s1 w) (r, w2)" for r :: int and w2
  proof -
    have g2: "good w2" "trans_ext w w2" using r by (simp_all add: requested_def trans_ext_def)
    show ?thesis
    proof (cases "r < 0")
      case True
      then show ?thesis using g2 by (simp add: outgoing_ok_def)
    next
      case False
      then obtain s2 where s2: "w_heap w2 a = Some s2" "is_local s2" using r by (auto simp: requested_def)
      have wf2: "wf_world None w2" using g2 by (simp add: good_def)
      note k2 = keeps_local(1) [OF wf2 s2, of False]
      have "outgoing_ok a w (True, w2)" "outgoing_ok a w (True, set_sock a (s2\<lparr>s_fde_read := False\<rparr>) w2)"
        using g2 good_keeps [OF g2(1) k2] s2 by (auto simp: outgoing_ok_def trans_ext_def)
      then show ?thesis using False s2 kind_local(3) [OF wf_sockD [OF wf2 s2(1)] s2(2)] by simp
    qed
  qed
  show ?thesis
    unfolding flush_outgoing_enqueue_def mod_sock_Some [OF a(1)] rbind_Inr s1_def [symmetric]
    by (rule safe_but_rbind [OF s_do_enqueue_ok [OF env hs g1 h1 d]]) (use rest in auto)
qed

lemma local_socket_flush_outgoing_ok:
  assumes env: "env_ok env" and hs: "hs_ok hs" and g: "good w" and a: "w_heap w a = Some s" "is_local s"
    and t: "\<And>t. s_transport s = Some t \<Longrightarrow> w_transports w t \<noteq> None"
  shows "safe_but request_faults (\<lambda>(_, w'). good w' \<and> trans_ext w w') (local_socket_flush_outgoing env lb hs a w)"
proof -
  have wf: "wf_world None w" using g by (simp add: good_def)
  have "\<exists>ps. w_heap w p = Some ps \<and> \<not> s_closing ps" if sp: "s_peer s = Some p" for p
  proof -
    from wf_peerD [OF wf a(1) sp] obtain ps where ps: "w_heap w p = Some ps" "s_peer ps = Some a" by auto
    then have "\<not> s_closing ps" using wf_sockD [OF wf ps(1)] by (auto simp: sock_ok_def kind_ok_def split: enqueue_fn.splits)
    with ps show ?thesis by simp
  qed
  from get_max_payload_ok [OF wf a(1) t this] obtain m where m: "asocket_get_max_payload a w = Inr m" "m \<le> MAX_PAYLOAD" by auto
  obtain bs eof where fr: "flush_read m (e_reads env a) = (bs, eof)" by (cases "flush_read m (e_reads env a)")
  then have len: "length bs \<le> m" using length_flush_read [of m "e_reads env a"] by simp
  obtain d where d: "block_resize (e_fresh env) block_empty m = Inr d" "wf_block d" "bsize d = m" "bposition d = 0"
    using block_resize_empty by blast
  from block_store_ok [OF d(2), of 0 bs] len d(3,4) obtain d1
    where d1: "block_store d 0 bs = Inr d1" "wf_block d1" "bsize d1 = m" "bposition d1 = 0" by auto
  from block_resize_shrink [OF d1(2), of "length bs" "e_fresh env"] len d1(3,4) obtain d2
    where d2: "block_resize (e_fresh env) d1 (length bs) = Inr d2" "wf_block d2" "bsize d2 = length bs" "bposition d2 = 0" by auto
  have enq: "safe_but request_faults (outgoing_ok a w) (case s_peer s of
                   Some p \<Rightarrow>
                     if bs = [] then Inr (True, w)
                     else rbind (block_resize (e_fresh env) d1 (length bs)) (\<lambda>data2.
                            flush_outgoing_enqueue env lb hs a p data2 w)
                 | None \<Rightarrow> Inr (True, w))"
    using flush_outgoing_enqueue_ok [OF env hs g a _ d2(2,4)] d2 len m(2) g a(1)
    by (auto simp: outgoing_ok_def split: option.split)
  have rest: "safe_but request_faults (\<lambda>(_, w'). good w' \<and> trans_ext w w')
      (if \<not> go_on then Inr (False, w1)
       else if eof then rbind (s_do_close env a w1) (\<lambda>w2. Inr (False, w2))
       else Inr (True, w1))" if o: "outgoing_ok a w (go_on, w1)" for go_on w1
  proof -
    have g1: "good w1" "trans_ext w w1" using o by (simp_all add: outgoing_ok_def)
    have "safe (\<lambda>(_, w'). good w' \<and> trans_ext w w') (rbind (s_do_close env a w1) (\<lambda>w2. Inr (False, w2)))" if go_on
    proof -
      from o that obtain x where x: "w_heap w1 a = Some x" by (auto simp: outgoing_ok_def)
      from close_good [OF g1(1) x] show ?thesis
        by (rule safe_rbind) (use trans_ext_trans [OF g1(2)] in auto)
    qed
    then show ?thesis using g1 by (auto simp: safe_but_safe)
  qed
  show ?thesis
    unfolding local_socket_flush_outgoing_def m(1) rbind_Inr d(1) sock_Some [OF a(1)] fr Let_def prod.case d1(1)
    by (rule safe_but_rbind [OF enq]) (use rest in auto)
qed

text \<open>A whole event on the descriptor of the local socket \<open>a\<close>. A read event on a closing socket is
  safe only as long as its transport exists.\<close>

lemma local_socket_event_func_ok:
  assumes env: "env_ok env" and hs: "hs_ok hs" and g: "good w" and a: "w_heap w a = Some s" "is_local s"
    and t: "\<And>t. ev_read \<Longrightarrow> s_closing s \<Longrightarrow> s_transport s = Some t \<Longrightarrow> w_transports w t \<noteq> None"
  shows "safe_but request_faults (\<lambda>w'. good w' \<and> trans_ext w w') (local_socket_event_func env lb hs ev_read ev_write a w)"
proof -
  have wf: "wf_world None w" using g by (simp add: good_def)
  have q: "wf_iov (s_packet_queue s)" using kind_local(6) [OF wf_sockD [OF wf a(1)] a(2)] by (simp add: waiting_ok_def)
  have "set_sock a (s\<lparr>s_packet_queue := s_packet_queue s\<rparr>) w = w" using a(1) by (simp add: set_sock_def map_upd_triv)
  with flush_incoming_ok [OF env wf a q] have fl: "safe (flushed env a s (iov_bytes (s_packet_queue s)) w) (local_socket_flush_incoming env a w)"
    by simp
  let ?P = "\<lambda>(r, w1). good w1 \<and> trans_ext w w1 \<and> (r \<noteq> Destroyed \<longrightarrow> keeps a w w1)"
  have flP: "?P (r, w1)" if f: "flushed env a s (iov_bytes (s_packet_queue s)) w (r, w1)" for r w1
  proof (cases "r = Destroyed")
    case True
    then have "closed_both a w w1" using f by (simp add: flushed_def)
    with attached_closed_both [OF this g] a(1) True show ?thesis by (simp add: closed_both_def)
  next
    case False
    have k: "keeps a w w1" by (rule flushed_keeps [OF f a(1) False])
    with good_keeps [OF g k] show ?thesis by (simp add: keeps_def)
  qed
  have first: "safe_but request_faults ?P (if ev_write then local_socket_flush_incoming env a w else Inr (Completed, w))"
    using safe_mono [OF fl, of ?P] flP g keeps_sends [OF wf only_sends_refl] by (auto intro!: safe_but_safe)
  have second: "safe_but request_faults (\<lambda>w'. good w' \<and> trans_ext w w') (rbind (local_socket_flush_outgoing env lb hs a w1) (\<lambda>(_, w2). Inr w2))"
    if k: "keeps a w w1" and r: ev_read for w1
  proof -
    have g1: "good w1" "trans_ext w w1" using k good_keeps [OF g k] by (simp_all add: keeps_def)
    from keeps_SomeD [OF k a(1)] obtain s1 where s1: "w_heap w1 a = Some s1" "same_role s s1" by blast
    have l1: "is_local s1" using s1(2) a(2) by (simp add: same_role_def is_local_def)
    have "w_transports w u \<noteq> None" if "s_transport s = Some u" for u
      using wf_sockD [OF wf a(1)] t r that by (cases "s_closing s") (auto simp: sock_ok_def)
    then have "w_transports w1 u \<noteq> None" if "s_transport s1 = Some u" for u
      using that s1(2) g1(2) unfolding trans_ext_def same_role_def by (metis option.rel_distinct(2) option.exhaust)
    from local_socket_flush_outgoing_ok [OF env hs g1(1) s1(1) l1 this] show ?thesis
      by (rule safe_but_rbind) (use trans_ext_trans [OF g1(2)] in auto)
  qed
  show ?thesis unfolding local_socket_event_func_def
    by (rule safe_but_rbind [OF first]) (use second in auto)
qed

end
