(* ===== verification/Packet_Handler.thy ===== *)
theory Packet_Handler
  imports Socket_Links "HOL-Library.Sublist"
begin

text \<open>
  \<open>handle_packet\<close> of \<open>adb.cpp\<close> with what it calls: going online and offline, the connection
  handshake, the authentication on the host (\<open>client/auth.cpp\<close>) and on the device
  (\<open>daemon/auth.cpp\<close>, \<open>daemon/adb_wifi.cpp\<close>), and the packets that open, acknowledge, close and
  write streams. The library \<open>libadbd_auth\<close>, the random generator, RSA and the services behind a
  stream are arguments. Whether the program is the server or the daemon is the argument
  \<open>p_adb_host\<close>, where the source has \<open>#if ADB_HOST\<close>.
\<close>

subsection \<open>State and parameters\<close>

text \<open>
  Besides the sockets and transports: the number of connections the watchdog of the daemon counts and
  whether it runs, the transports that wait for an answer of another thread, under the number it was
  given, and the disconnect callbacks that were run.
\<close>

record adb_state =
  g_world :: world
  g_active_connections :: int
  g_watchdog_running :: bool
  g_callbacks :: "u32 \<Rightarrow> tptr option"
  g_transport_auth_id :: u32
  g_disconnected :: "(nat \<times> tptr) list"

record params =
  p_env :: env
  p_lb :: libbase
  p_adb_host :: bool
  p_auth_required :: bool
  p_supported :: "string list"
  p_GetProperty :: "string \<Rightarrow> string"
  p_adb_device_banner :: string
  p_hs :: host_services
  p_service_to_socket :: "string \<Rightarrow> tptr \<Rightarrow> world \<Rightarrow> (addr \<times> world) option"
  p_service_to_fd :: "string \<Rightarrow> tptr \<Rightarrow> int option"
  p_getuid :: nat
  p_debuggable :: bool
  p_urandom :: bytes
  p_public_keys :: "string list"
  p_pubkey_decode :: "string \<Rightarrow> nat option"
  p_RSA_verify :: "bytes \<Rightarrow> bytes \<Rightarrow> nat \<Rightarrow> bool"
  p_notify_auth :: "string \<Rightarrow> nat"
  p_tls_device_connected :: "string \<Rightarrow> nat"
  p_prompt_user :: "string \<Rightarrow> u32 \<Rightarrow> nat option"
  p_private_keys :: "nat option list"
  p_RSA_sign :: "nat \<Rightarrow> bytes \<Rightarrow> string option"
  p_userkey :: string

text \<open>A step that may not return (\<open>None\<close>), may abort, or returns a state.\<close>

type_synonym step = "adb_state result option"

definition obind :: "step \<Rightarrow> (adb_state \<Rightarrow> step) \<Rightarrow> step" where
  "obind m f = (case m of None \<Rightarrow> None | Some (Inl e) \<Rightarrow> Some (Inl e) | Some (Inr g) \<Rightarrow> f g)"

definition g_trans :: "tptr \<Rightarrow> adb_state \<Rightarrow> atransport result" where
  "g_trans t g = trans t (g_world g)"

definition g_set_trans :: "tptr \<Rightarrow> atransport \<Rightarrow> adb_state \<Rightarrow> adb_state" where
  "g_set_trans t tr g = g\<lparr>g_world := set_trans t tr (g_world g)\<rparr>"

definition g_mod_trans :: "tptr \<Rightarrow> (atransport \<Rightarrow> atransport) \<Rightarrow> adb_state \<Rightarrow> adb_state result" where
  "g_mod_trans t f g = rbind (g_trans t g) (\<lambda>tr. Inr (g_set_trans t (f tr) g))"

definition on_world :: "(world \<Rightarrow> world result) \<Rightarrow> adb_state \<Rightarrow> adb_state result" where
  "on_world f g = rbind (f (g_world g)) (\<lambda>w. Inr (g\<lparr>g_world := w\<rparr>))"

definition g_send :: "params \<Rightarrow> apacket \<Rightarrow> tptr \<Rightarrow> adb_state \<Rightarrow> adb_state result" where
  "g_send pr p t g = on_world (w_send_packet (p_env pr) p t) g"

subsection \<open>Online and offline\<close>

definition IncrementActiveConnections :: "adb_state \<Rightarrow> adb_state" where
  "IncrementActiveConnections g =
     (let g' = g\<lparr>g_active_connections := g_active_connections g + 1\<rparr>
      in if g_active_connections g = 0 then g'\<lparr>g_watchdog_running := False\<rparr> else g')"

definition DecrementActiveConnections :: "adb_state \<Rightarrow> adb_state" where
  "DecrementActiveConnections g =
     (let g' = g\<lparr>g_active_connections := g_active_connections g - 1\<rparr>
      in if g_active_connections g' = 0 then g'\<lparr>g_watchdog_running := True\<rparr> else g')"

definition handle_online :: "params \<Rightarrow> tptr \<Rightarrow> adb_state \<Rightarrow> adb_state result" where
  "handle_online pr t g =
     rbind (g_mod_trans t (\<lambda>tr. tr\<lparr>t_online := True\<rparr>) g) (\<lambda>g1.
       if p_adb_host pr then g_mod_trans t (SetConnectionEstablished True) g1
       else Inr (IncrementActiveConnections g1))"

text \<open>The disconnect callbacks of the daemon notify \<open>libadbd_auth\<close> and check the identifier first;
  those of the host only get the transport.\<close>

definition kAuthDisconnect :: nat where "kAuthDisconnect = 0"
definition kWifiDisconnect :: nat where "kWifiDisconnect = 1"

fun run_callbacks :: "nat list \<Rightarrow> tptr \<Rightarrow> adb_state \<Rightarrow> adb_state result" where
  "run_callbacks [] t g = Inr g"
| "run_callbacks (c # cs) t g =
     rbind (g_trans t g) (\<lambda>tr.
       if (c = kAuthDisconnect \<or> c = kWifiDisconnect) \<and> t_auth_id tr = None then Inl Check_failed
       else run_callbacks cs t (g\<lparr>g_disconnected := g_disconnected g @ [(c, t)]\<rparr>))"

definition handle_offline :: "params \<Rightarrow> tptr \<Rightarrow> adb_state \<Rightarrow> step" where
  "handle_offline pr t g =
     (case g_trans t g of
        Inl e \<Rightarrow> Some (Inl e)
      | Inr tr \<Rightarrow>
          if t_connection_state tr = kCsOffline then Some (Inr g)
          else let g1 = (if p_adb_host pr then g else DecrementActiveConnections g);
                   g2 = g_set_trans t ((SetConnectionState kCsOffline tr)\<lparr>t_online := False\<rparr>) g1
               in (case close_all_sockets (p_env pr) t (g_world g2) of
                     None \<Rightarrow> None
                   | Some (Inl e) \<Rightarrow> Some (Inl e)
                   | Some (Inr w) \<Rightarrow>
                       let g3 = g2\<lparr>g_world := w\<rparr>
                       in Some (rbind (g_trans t g3) (\<lambda>tr3.
                            let (cbs, tr4) = RunDisconnects tr3
                            in run_callbacks cbs t (g_set_trans t tr4 g3)))))"

subsection \<open>The handshake\<close>

definition send_tls_request :: "params \<Rightarrow> tptr \<Rightarrow> adb_state \<Rightarrow> adb_state result" where
  "send_tls_request pr t g = g_send pr (header_packet A_STLS A_STLS_VERSION 0) t g"

definition send_connect :: "params \<Rightarrow> tptr \<Rightarrow> adb_state \<Rightarrow> adb_state result" where
  "send_connect pr t g =
     rbind (g_trans t g) (\<lambda>tr.
       let connection_str = get_connection_string (p_lb pr) (p_adb_host pr) (p_GetProperty pr)
                              (p_adb_device_banner pr) (p_supported pr);
           m = msg (header_packet A_CNXN A_VERSION (of_nat (t_max_payload tr)))
       in if MAX_PAYLOAD_V1 < length connection_str then Inl Fatal
          else rbind (block_assign (e_fresh (p_env pr)) block_empty connection_str) (\<lambda>b.
               g_send pr \<lparr>msg = m\<lparr>data_length := of_nat (bsize b)\<rparr>, payload = b\<rparr> t g))"

definition ADB_AUTH_TOKEN :: u32 where "ADB_AUTH_TOKEN = 1"
definition ADB_AUTH_SIGNATURE :: u32 where "ADB_AUTH_SIGNATURE = 2"
definition ADB_AUTH_RSAPUBLICKEY :: u32 where "ADB_AUTH_RSAPUBLICKEY = 3"

text \<open>A packet \<open>A_AUTH\<close> with the given bytes.\<close>

definition auth_packet :: "params \<Rightarrow> u32 \<Rightarrow> bytes \<Rightarrow> apacket result" where
  "auth_packet pr kind bs =
     rbind (block_assign (e_fresh (p_env pr)) block_empty bs) (\<lambda>b.
       Inr \<lparr>msg = (msg (header_packet A_AUTH kind 0))\<lparr>data_length := of_nat (bsize b)\<rparr>, payload = b\<rparr>)"

text \<open>What \<open>/dev/urandom\<close> gave overwrites the token, also when it was too short.\<close>

definition adbd_auth_generate_token :: "bytes \<Rightarrow> bytes \<Rightarrow> bytes \<times> bool" where
  "adbd_auth_generate_token urandom token =
     (take (length token) urandom @ drop (length urandom) token, length token \<le> length urandom)"

definition send_auth_request :: "params \<Rightarrow> tptr \<Rightarrow> adb_state \<Rightarrow> adb_state result" where
  "send_auth_request pr t g =
     rbind (g_trans t g) (\<lambda>tr.
       let (token, okay) = adbd_auth_generate_token (p_urandom pr) (t_token tr);
           g1 = g_set_trans t (tr\<lparr>t_token := token\<rparr>) g
       in if \<not> okay then Inr g1
          else rbind (auth_packet pr ADB_AUTH_TOKEN token) (\<lambda>p. g_send pr p t g1))"

definition handle_new_connection :: "params \<Rightarrow> tptr \<Rightarrow> apacket \<Rightarrow> adb_state \<Rightarrow> step" where
  "handle_new_connection pr t p g =
     obind (handle_offline pr t g) (\<lambda>g1. Some (
       rbind (g_mod_trans t (update_version (arg0 (msg p)) (arg1 (msg p))) g1) (\<lambda>g2.
       rbind (g_trans t g2) (\<lambda>tr2.
       rbind (parse_banner (p_lb pr) (p_supported pr) (block_bytes (payload p)) tr2) (\<lambda>tr3.
         let g3 = g_set_trans t tr3 g2
         in if p_adb_host pr then handle_online pr t g3
            else if t_use_tls tr3 then send_tls_request pr t g3
            else if \<not> p_auth_required pr then rbind (handle_online pr t g3) (send_connect pr t)
            else send_auth_request pr t g3)))))"

subsection \<open>Authentication on the device\<close>

text \<open>The known keys are tried in turn, up to the first that verifies.\<close>

fun first_key :: "(string \<Rightarrow> bool) \<Rightarrow> string list \<Rightarrow> string option" where
  "first_key verified [] = None"
| "first_key verified (k # ks) = (if verified k then Some k else first_key verified ks)"

definition decode_public_key :: "params \<Rightarrow> string \<Rightarrow> nat option" where
  "decode_public_key pr public_key =
     p_pubkey_decode pr (takeWhile (\<lambda>c. c \<noteq> CHR '' '' \<and> c \<noteq> CHR 0x09) public_key)"

definition adbd_auth_verify :: "params \<Rightarrow> bytes \<Rightarrow> bytes \<Rightarrow> string option" where
  "adbd_auth_verify pr token sig =
     first_key (\<lambda>public_key. case decode_public_key pr public_key of
         None \<Rightarrow> False
       | Some key \<Rightarrow> p_RSA_verify pr token sig key) (p_public_keys pr)"

text \<open>The certificate of a TLS client: its key, if it has one, is compared with the known keys.\<close>

definition adbd_tls_verify_cert :: "params \<Rightarrow> nat option \<Rightarrow> bool \<times> string option" where
  "adbd_tls_verify_cert pr cert_key =
     (if \<not> p_auth_required pr then (True, None)
      else (case cert_key of
              None \<Rightarrow> (False, None)
            | Some k \<Rightarrow>
                let r = first_key (\<lambda>public_key. decode_public_key pr public_key = Some k) (p_public_keys pr)
                in (r \<noteq> None, r)))"

definition adbd_auth_verified :: "params \<Rightarrow> tptr \<Rightarrow> adb_state \<Rightarrow> adb_state result" where
  "adbd_auth_verified pr t g = rbind (handle_online pr t g) (send_connect pr t)"

definition adbd_notify_framework_connected_key :: "params \<Rightarrow> tptr \<Rightarrow> adb_state \<Rightarrow> adb_state result" where
  "adbd_notify_framework_connected_key pr t g =
     g_mod_trans t (\<lambda>tr. tr\<lparr>t_auth_id := Some (p_notify_auth pr (t_auth_key tr))\<rparr>) g"

definition transport_to_callback_arg :: "tptr \<Rightarrow> adb_state \<Rightarrow> u32 \<times> adb_state" where
  "transport_to_callback_arg t g =
     (let i = g_transport_auth_id g
      in (i, g\<lparr>g_transport_auth_id := i + 1, g_callbacks := (g_callbacks g)(i \<mapsto> t)\<rparr>))"

text \<open>The map holds weak pointers: of a deleted transport only the null pointer is left.\<close>

definition transport_from_callback_arg :: "u32 \<Rightarrow> adb_state \<Rightarrow> tptr option \<times> adb_state" where
  "transport_from_callback_arg i g =
     (case g_callbacks g i of
        None \<Rightarrow> (None, g)
      | Some t \<Rightarrow>
          (if w_transports (g_world g) t = None then None else Some t,
           g\<lparr>g_callbacks := (g_callbacks g)(i := None)\<rparr>))"

definition adbd_auth_confirm_key :: "params \<Rightarrow> tptr \<Rightarrow> adb_state \<Rightarrow> adb_state result" where
  "adbd_auth_confirm_key pr t g =
     rbind (g_mod_trans t (AddDisconnect kAuthDisconnect) g) (\<lambda>g1.
     rbind (g_trans t g1) (\<lambda>tr1.
       let (arg, g2) = transport_to_callback_arg t g1
       in case p_prompt_user pr (t_auth_key tr1) arg of
            Some i \<Rightarrow> g_mod_trans t (\<lambda>tr. tr\<lparr>t_auth_id := Some i\<rparr>) g2
          | None \<Rightarrow> Inr g2))"

definition adbd_auth_key_authorized :: "params \<Rightarrow> u32 \<Rightarrow> nat \<Rightarrow> adb_state \<Rightarrow> adb_state result" where
  "adbd_auth_key_authorized pr arg i g =
     (case transport_from_callback_arg arg g of
        (None, g1) \<Rightarrow> Inr g1
      | (Some t, g1) \<Rightarrow>
          rbind (g_trans t g1) (\<lambda>tr.
            case t_auth_id tr of
              Some j \<Rightarrow> if j \<noteq> i then Inr g1 else adbd_auth_verified pr t g1
            | None \<Rightarrow> adbd_auth_verified pr t (g_set_trans t (tr\<lparr>t_auth_id := Some i\<rparr>) g1)))"

definition adbd_wifi_secure_connect :: "params \<Rightarrow> tptr \<Rightarrow> adb_state \<Rightarrow> adb_state result" where
  "adbd_wifi_secure_connect pr t g =
     rbind (g_mod_trans t (AddDisconnect kWifiDisconnect) g) (\<lambda>g1.
     rbind (handle_online pr t g1) (\<lambda>g2.
     rbind (send_connect pr t g2) (
       g_mod_trans t (\<lambda>tr. tr\<lparr>t_auth_id := Some (p_tls_device_connected pr (t_auth_key tr))\<rparr>))))"

text \<open>The handshake runs in a thread of its own; its end is a later step on the main thread.\<close>

definition adbd_auth_tls_handshake :: "tptr \<Rightarrow> adb_state \<Rightarrow> adb_state" where
  "adbd_auth_tls_handshake t g = snd (transport_to_callback_arg t g)"

definition adbd_auth_tls_handshake_done :: "params \<Rightarrow> u32 \<Rightarrow> bool \<Rightarrow> string \<Rightarrow> adb_state \<Rightarrow> adb_state result" where
  "adbd_auth_tls_handshake_done pr arg connected auth_key g =
     (case transport_from_callback_arg arg g of
        (None, g1) \<Rightarrow> Inr g1
      | (Some t, g1) \<Rightarrow>
          if \<not> connected then g_mod_trans t transport_Kick g1
          else rbind (g_trans t g1) (\<lambda>tr.
            if t_type tr = kTransportLocal
            then adbd_wifi_secure_connect pr t (g_set_trans t (tr\<lparr>t_auth_key := auth_key\<rparr>) g1)
            else rbind (adbd_auth_verified pr t g1) (adbd_notify_framework_connected_key pr t)))"

subsection \<open>Authentication on the host\<close>

definition TOKEN_SIZE :: nat where "TOKEN_SIZE = 20"

definition adb_auth_sign :: "params \<Rightarrow> nat \<Rightarrow> bytes \<Rightarrow> string" where
  "adb_auth_sign pr key token =
     (if length token \<noteq> TOKEN_SIZE then []
      else (case p_RSA_sign pr key token of None \<Rightarrow> [] | Some sig \<Rightarrow> sig))"

definition send_auth_publickey :: "params \<Rightarrow> tptr \<Rightarrow> adb_state \<Rightarrow> adb_state result" where
  "send_auth_publickey pr t g =
     (let key = p_userkey pr
      in if key = [] then Inr g
         else if MAX_PAYLOAD_V1 \<le> length key then Inr g
         else rbind (auth_packet pr ADB_AUTH_RSAPUBLICKEY (key @ [CHR 0x00])) (\<lambda>p. g_send pr p t g))"

definition send_auth_response :: "params \<Rightarrow> bytes \<Rightarrow> tptr \<Rightarrow> adb_state \<Rightarrow> adb_state result" where
  "send_auth_response pr token t g =
     rbind (g_trans t g) (\<lambda>tr.
     rbind (transport_NextKey (p_private_keys pr) tr) (\<lambda>(key, tr1).
       case key of
         None \<Rightarrow> send_auth_publickey pr t
                   (g_set_trans t (SetConnectionEstablished True (SetConnectionState kCsUnauthorized tr1)) g)
       | Some k \<Rightarrow>
           let result = adb_auth_sign pr k token; g1 = g_set_trans t tr1 g
           in if result = [] then Inr g1
              else rbind (auth_packet pr ADB_AUTH_SIGNATURE result) (\<lambda>p. g_send pr p t g1)))"

text \<open>
  The thread of the TLS handshake on the host: the key it uses, and what follows the handshake. It
  keeps the transport as a plain pointer.
\<close>

definition adb_auth_tls_handshake_key :: "params \<Rightarrow> tptr \<Rightarrow> adb_state \<Rightarrow> (nat \<times> adb_state) result" where
  "adb_auth_tls_handshake_key pr t g =
     rbind (g_trans t g) (\<lambda>tr.
       case transport_Key tr of
         Some k \<Rightarrow> Inr (k, g)
       | None \<Rightarrow>
           rbind (transport_NextKey (p_private_keys pr) tr) (\<lambda>(key, tr1).
             case key of None \<Rightarrow> Inl Check_failed | Some k \<Rightarrow> Inr (k, g_set_trans t tr1 g)))"

definition adb_auth_tls_handshake_done :: "bool \<Rightarrow> tptr \<Rightarrow> adb_state \<Rightarrow> adb_state result" where
  "adb_auth_tls_handshake_done success t g = (if success then Inr g else g_mod_trans t transport_Kick g)"

subsection \<open>The packets\<close>

text \<open>A payload read as a C string: up to the first NUL of the buffer, and beyond the buffer if
  there is none.\<close>

definition payload_c_str :: "block \<Rightarrow> string result" where
  "payload_c_str b =
     rbind (of_option Null_deref (bdata b)) (\<lambda>d.
       if CHR 0x00 \<in> set d then Inr (takeWhile (\<lambda>c. c \<noteq> CHR 0x00) d) else Inl Out_of_range)"

definition handle_auth :: "params \<Rightarrow> tptr \<Rightarrow> apacket \<Rightarrow> adb_state \<Rightarrow> step" where
  "handle_auth pr t p g =
     (case g_trans t g of
        Inl e \<Rightarrow> Some (Inl e)
      | Inr tr \<Rightarrow>
          if t_use_tls tr then Some (Inr g)
          else if p_adb_host pr \<and> arg0 (msg p) = ADB_AUTH_TOKEN
          then Some (send_auth_response pr (block_bytes (payload p)) t
                 (g_set_trans t (if t_connection_state tr \<noteq> kCsAuthorizing
                                 then SetConnectionState kCsAuthorizing tr else tr) g))
          else if \<not> p_adb_host pr \<and> arg0 (msg p) = ADB_AUTH_SIGNATURE
          then Some (case adbd_auth_verify pr (t_token tr) (block_bytes (payload p)) of
                 Some auth_key \<Rightarrow>
                   rbind (adbd_auth_verified pr t g) (\<lambda>g1.
                   rbind (g_mod_trans t (\<lambda>x. x\<lparr>t_failed_auth_attempts := 0, t_auth_key := auth_key\<rparr>) g1)
                     (adbd_notify_framework_connected_key pr t))
               | None \<Rightarrow>
                   send_auth_request pr t
                     (g_set_trans t (tr\<lparr>t_failed_auth_attempts := t_failed_auth_attempts tr + 1\<rparr>) g))
          else if \<not> p_adb_host pr \<and> arg0 (msg p) = ADB_AUTH_RSAPUBLICKEY
          then Some (rbind (payload_c_str (payload p)) (\<lambda>key.
                 adbd_auth_confirm_key pr t (g_set_trans t (tr\<lparr>t_auth_key := key\<rparr>) g)))
          else handle_offline pr t (g_set_trans t (SetConnectionState kCsOffline tr) g))"

text \<open>The prefixes that end the daemon when their service closes.\<close>

definition exits_on_close :: "params \<Rightarrow> string \<Rightarrow> bool" where
  "exits_on_close pr name \<longleftrightarrow>
     \<not> p_adb_host pr \<and>
     (prefix ''root:'' name \<and> p_getuid pr \<noteq> 0 \<and> p_debuggable pr \<or>
      prefix ''unroot:'' name \<and> p_getuid pr = 0 \<or>
      prefix ''usb:'' name \<or> prefix ''tcpip:'' name)"

definition create_local_service_socket ::
  "params \<Rightarrow> string \<Rightarrow> tptr \<Rightarrow> world \<Rightarrow> (addr option \<times> world) result" where
  "create_local_service_socket pr name t w =
     (case (if p_adb_host pr then None else p_service_to_socket pr name t w) of
        Some (a, w') \<Rightarrow> Inr (Some a, w')
      | None \<Rightarrow>
          (case p_service_to_fd pr name t of
             None \<Rightarrow> Inr (None, w)
           | Some fd \<Rightarrow>
               rbind (create_local_socket fd w) (\<lambda>(a, w1).
               rbind (mod_sock a (\<lambda>s. s\<lparr>s_transport := Some t\<rparr>) w1) (\<lambda>w2.
               rbind (mod_sock a (\<lambda>s. if exits_on_close pr name then s\<lparr>s_exit_on_close := True\<rparr> else s) w2)
                 (\<lambda>w3. Inr (Some a, w3))))))"

text \<open>\<open>s->peer = create_remote_socket(...)\<close> and the link back.\<close>

definition link_remote :: "addr \<Rightarrow> u32 \<Rightarrow> tptr \<Rightarrow> world \<Rightarrow> (addr \<times> world) result" where
  "link_remote a i t w =
     rbind (create_remote_socket i t w) (\<lambda>(b, w1).
     rbind (mod_sock a (\<lambda>s. s\<lparr>s_peer := Some b\<rparr>) w1) (\<lambda>w2.
     rbind (mod_sock b (\<lambda>s. s\<lparr>s_peer := Some a\<rparr>) w2) (\<lambda>w3. Inr (b, w3))))"

definition open_stream :: "params \<Rightarrow> tptr \<Rightarrow> u32 \<Rightarrow> u32 \<Rightarrow> bool \<Rightarrow> addr \<Rightarrow> world \<Rightarrow> world result" where
  "open_stream pr t remote_id send_bytes delayed_ack a w =
     rbind (link_remote a remote_id t w) (\<lambda>(b, w1).
     rbind (if delayed_ack
            then mod_sock a (\<lambda>s. s\<lparr>s_available_send_bytes := Some (uint send_bytes)\<rparr>) w1 else Inr w1) (\<lambda>w2.
     rbind (sock a w2) (\<lambda>s.
     rbind (sock b w2) (\<lambda>ps.
     rbind (send_ready (p_env pr) (s_id s) (s_id ps) t
              (if delayed_ack then of_nat INITIAL_DELAYED_ACK_BYTES else 0) w2)
       (s_do_ready (p_env pr) a)))))"

definition handle_open :: "params \<Rightarrow> tptr \<Rightarrow> apacket \<Rightarrow> world \<Rightarrow> world result" where
  "handle_open pr t p w =
     rbind (trans t w) (\<lambda>tr.
       let remote_id = arg0 (msg p); send_bytes = arg1 (msg p)
       in if \<not> t_online tr \<or> remote_id = 0 then Inr w
          else if t_delayed_ack tr \<noteq> (send_bytes \<noteq> 0) then send_close (p_env pr) 0 remote_id t w
          else let address = StripTrailingNulls (block_bytes (payload p))
               in rbind (if p_adb_host pr then rbind (payload_c_str (payload p)) (\<lambda>local_addr.
                           if \<not> IsReverseConfigured local_addr tr then Inl Fatal else Inr ()) else Inr ()) (\<lambda>_.
                  rbind (create_local_service_socket pr address t w) (\<lambda>(s, w1).
                    case s of
                      None \<Rightarrow> send_close (p_env pr) 0 remote_id t w1
                    | Some a \<Rightarrow> open_stream pr t remote_id send_bytes (t_delayed_ack tr) a w1)))"

definition handle_okay :: "params \<Rightarrow> tptr \<Rightarrow> apacket \<Rightarrow> world \<Rightarrow> world result" where
  "handle_okay pr t p w =
     rbind (trans t w) (\<lambda>tr.
       if t_online tr \<and> arg0 (msg p) \<noteq> 0 \<and> arg1 (msg p) \<noteq> 0
       then rbind (find_local_socket (arg1 (msg p)) 0 w) (\<lambda>so.
         case so of
           None \<Rightarrow> send_close (p_env pr) (arg1 (msg p)) (arg0 (msg p)) t w
         | Some a \<Rightarrow>
             if bsize (payload p) \<noteq> 4 \<and> bsize (payload p) \<noteq> 0 then Inr w
             else rbind (if bsize (payload p) = 4
                         then rbind (block_load (payload p) 0 4) (\<lambda>bs. Inr (Some (sint (of_le32 bs))))
                         else Inr None) (\<lambda>acked_bytes.
                  rbind (sock a w) (\<lambda>s.
                    case s_peer s of
                      None \<Rightarrow> rbind (link_remote a (arg0 (msg p)) t w) (\<lambda>(_, w1).
                                local_socket_ack (p_env pr) a acked_bytes w1)
                    | Some b \<Rightarrow>
                        rbind (sock b w) (\<lambda>ps.
                          if s_id ps = arg0 (msg p) then local_socket_ack (p_env pr) a acked_bytes w
                          else Inr w))))
       else Inr w)"

definition handle_clse :: "params \<Rightarrow> tptr \<Rightarrow> apacket \<Rightarrow> world \<Rightarrow> world result" where
  "handle_clse pr t p w =
     rbind (trans t w) (\<lambda>tr.
       if t_online tr \<and> arg1 (msg p) \<noteq> 0
       then rbind (find_local_socket (arg1 (msg p)) (arg0 (msg p)) w) (\<lambda>so.
         case so of
           None \<Rightarrow> Inr w
         | Some a \<Rightarrow>
             rbind (sock a w) (\<lambda>s.
             rbind (case s_peer s of
                      None \<Rightarrow> Inr False
                    | Some b \<Rightarrow> rbind (sock b w) (\<lambda>ps. Inr (arg0 (msg p) = 0 \<and> s_transport ps \<noteq> Some t)))
               (\<lambda>foreign. if foreign then Inr w else s_do_close (p_env pr) a w)))
       else Inr w)"

definition handle_wrte :: "params \<Rightarrow> tptr \<Rightarrow> apacket \<Rightarrow> world \<Rightarrow> world result" where
  "handle_wrte pr t p w =
     rbind (trans t w) (\<lambda>tr.
       if t_online tr \<and> arg0 (msg p) \<noteq> 0 \<and> arg1 (msg p) \<noteq> 0
       then rbind (find_local_socket (arg1 (msg p)) (arg0 (msg p)) w) (\<lambda>so.
         case so of
           None \<Rightarrow> Inr w
         | Some a \<Rightarrow>
             rbind (s_do_enqueue (p_env pr) (p_lb pr) (p_hs pr) a (fst (block_move_construct (payload p))) w)
               (\<lambda>(_, w1). Inr w1))
       else Inr w)"

definition handle_stls :: "params \<Rightarrow> tptr \<Rightarrow> adb_state \<Rightarrow> adb_state result" where
  "handle_stls pr t g =
     rbind (g_mod_trans t (\<lambda>tr. tr\<lparr>t_use_tls := True\<rparr>) g) (\<lambda>g1.
       if p_adb_host pr then send_tls_request pr t g1 else Inr (adbd_auth_tls_handshake t g1))"

definition handle_packet :: "params \<Rightarrow> apacket \<Rightarrow> tptr \<Rightarrow> adb_state \<Rightarrow> step" where
  "handle_packet pr p t g =
     (if bsize (payload p) \<noteq> unat (data_length (msg p)) then Some (Inl Check_failed)
      else if command (msg p) = A_CNXN then handle_new_connection pr t p g
      else if command (msg p) = A_STLS then Some (handle_stls pr t g)
      else if command (msg p) = A_AUTH then handle_auth pr t p g
      else if command (msg p) = A_OPEN then Some (on_world (handle_open pr t p) g)
      else if command (msg p) = A_OKAY then Some (on_world (handle_okay pr t p) g)
      else if command (msg p) = A_CLSE then Some (on_world (handle_clse pr t p) g)
      else if command (msg p) = A_WRTE then Some (on_world (handle_wrte pr t p) g)
      else Some (Inr g))"

end
