(* ===== verification/Handler_Safety.thy ===== *)
theory Handler_Safety
  imports Packet_Handler
begin

text \<open>
  The packet handler keeps the invariant of the sockets: whatever a peer sends, \<open>handle_packet\<close>
  returns, no null or dangling pointer is followed, and the program stops only where the source says
  so. The two exceptions, payloads that are read as C strings without being terminated, are stated
  separately. Then what a peer can do before it has authenticated, and the handshake between the two
  sides.
\<close>

subsection \<open>The invariant of the whole state\<close>

text \<open>A transport whose disconnect callbacks need an authentication identifier has one.\<close>

definition auth_ok :: "atransport \<Rightarrow> bool" where
  "auth_ok tr \<longleftrightarrow>
     (kAuthDisconnect \<in> set (t_disconnects tr) \<or> kWifiDisconnect \<in> set (t_disconnects tr) \<longrightarrow> t_auth_id tr \<noteq> None)"

definition state_ok :: "adb_state \<Rightarrow> bool" where
  "state_ok g \<longleftrightarrow> good (g_world g) \<and> (\<forall>t tr. w_transports (g_world g) t = Some tr \<longrightarrow> auth_ok tr)"

text \<open>\<open>g'\<close> is a good state with the transports of \<open>g\<close>.\<close>

definition follows :: "adb_state \<Rightarrow> adb_state \<Rightarrow> bool" where
  "follows g g' \<longleftrightarrow> state_ok g'
     \<and> (\<forall>t. w_transports (g_world g') t = None \<longleftrightarrow> w_transports (g_world g) t = None)"

lemma follows_refl [simp]: "state_ok g \<Longrightarrow> follows g g"
  by (simp add: follows_def)

lemma follows_trans: "follows g g' \<Longrightarrow> follows g' g'' \<Longrightarrow> follows g g''"
  by (simp add: follows_def)

lemma follows_state: "follows g g' \<Longrightarrow> state_ok g'"
  by (simp add: follows_def)

lemma follows_alive: "follows g g' \<Longrightarrow> w_transports (g_world g) t = Some tr \<Longrightarrow> \<exists>tr'. w_transports (g_world g') t = Some tr'"
  unfolding follows_def by (metis not_None_eq)

lemma state_goodD: "state_ok g \<Longrightarrow> good (g_world g)" "state_ok g \<Longrightarrow> wf_world None (g_world g)"
  by (simp_all add: state_ok_def good_def)

lemma good_set_trans:
  assumes g: "good w" and t: "t_max_payload tr' \<le> MAX_PAYLOAD"
  shows "good (set_trans t tr' w)"
proof -
  have wf: "wf_world None w" and att: "attached w" using g by (simp_all add: good_def)
  have "wf_world None (set_trans t tr' w)"
  proof (rule wf_worldI)
    show "sock_ok (set_trans t tr' w) a s" if "w_heap (set_trans t tr' w) a = Some s" for a s
      by (rule sock_ok_mono [of w]) (use that in \<open>auto intro: wf_sockD [OF wf]\<close>)
    show "lists_ok (set_trans t tr' w)" using wf_worldD(3) [OF wf] by (simp add: lists_ok_def)
  qed (use t wf_worldD [OF wf] in \<open>auto split: if_splits\<close>)
  with att show ?thesis by (simp add: good_def attached_def)
qed

lemma g_trans_Some [simp]: "w_transports (g_world g) t = Some tr \<Longrightarrow> g_trans t g = Inr tr"
  by (simp add: g_trans_def trans_def)

lemma g_mod_trans_Some [simp]:
  "w_transports (g_world g) t = Some tr \<Longrightarrow> g_mod_trans t f g = Inr (g_set_trans t (f tr) g)"
  by (simp add: g_mod_trans_def)

lemma g_world_set_trans [simp]: "g_world (g_set_trans t tr g) = set_trans t tr (g_world g)"
  by (simp add: g_set_trans_def)

lemma state_ok_set_trans:
  assumes g: "state_ok g" and t: "t_max_payload tr' \<le> MAX_PAYLOAD" "auth_ok tr'"
  shows "state_ok (g_set_trans t tr' g)"
  using g good_set_trans [OF state_goodD(1) [OF g] t(1)] t by (auto simp: state_ok_def)

lemma follows_set_trans:
  assumes g: "state_ok g" and t: "w_transports (g_world g) t = Some tr" "t_max_payload tr' \<le> MAX_PAYLOAD" "auth_ok tr'"
  shows "follows g (g_set_trans t tr' g)"
  using state_ok_set_trans [OF g t(2,3)] t by (auto simp: follows_def)

lemma auth_ok_of: "state_ok g \<Longrightarrow> w_transports (g_world g) t = Some tr \<Longrightarrow> auth_ok tr"
  by (simp add: state_ok_def)

lemma max_payload_of: "state_ok g \<Longrightarrow> w_transports (g_world g) t = Some tr \<Longrightarrow> t_max_payload tr \<le> MAX_PAYLOAD"
  using wf_worldD(6) [OF state_goodD(2)] by blast

lemma follows_world:
  assumes g: "state_ok g" and w: "good w" "trans_ext (g_world g) w"
  shows "follows g (g\<lparr>g_world := w\<rparr>)"
proof -
  have rel: "rel_option tr_ext (w_transports (g_world g) t) (w_transports w t)" for t
    using w(2) by (simp add: trans_ext_def)
  have "auth_ok tr'" if "w_transports w t = Some tr'" for t tr'
    using rel [of t] that auth_ok_of [OF g] by (auto simp: option_rel_Some2 tr_ext_def auth_ok_def)
  moreover have "w_transports w t = None \<longleftrightarrow> w_transports (g_world g) t = None" for t
    using rel [of t] by (cases "w_transports w t"; cases "w_transports (g_world g) t") auto
  ultimately show ?thesis using w(1) by (simp add: follows_def state_ok_def)
qed

lemma safe_on_world:
  assumes g: "state_ok g" and f: "safe_but F (\<lambda>w. good w \<and> trans_ext (g_world g) w) (f (g_world g))"
  shows "safe_but F (follows g) (on_world f g)"
  unfolding on_world_def by (rule safe_but_rbind [OF f]) (use follows_world [OF g] in simp)

lemma g_send_ok:
  assumes g: "state_ok g" and t: "w_transports (g_world g) t = Some tr" and p: "sendable p"
  shows "\<exists>g' tr'. g_send pr p t g = Inr g' \<and> follows g g' \<and> g' = g_set_trans t tr' g \<and> sent_on p tr tr'"
proof -
  from w_send_packet_ok [OF t p, of "p_env pr"] obtain tr'
    where s: "w_send_packet (p_env pr) p t (g_world g) = Inr (set_trans t tr' (g_world g))" "sent_on p tr tr'" by auto
  have e: "tr_ext tr tr'" by (rule sent_on_ext [OF s(2)])
  have "follows g (g_set_trans t tr' g)"
    by (rule follows_set_trans [OF g t])
       (use e max_payload_of [OF g t] auth_ok_of [OF g t] in \<open>auto simp: tr_ext_def auth_ok_def\<close>)
  moreover have "g_send pr p t g = Inr (g_set_trans t tr' g)"
    using s by (simp add: g_send_def on_world_def g_set_trans_def)
  ultimately show ?thesis using s(2) by blast
qed

subsection \<open>Going online and offline\<close>

lemma follows_more:
  "follows g g' \<Longrightarrow> g_world g'' = g_world g' \<Longrightarrow> follows g g''"
  by (simp add: follows_def state_ok_def)

lemma Increment_world [simp]: "g_world (IncrementActiveConnections g) = g_world g"
  by (simp add: IncrementActiveConnections_def Let_def)

lemma Decrement_world [simp]: "g_world (DecrementActiveConnections g) = g_world g"
  by (simp add: DecrementActiveConnections_def Let_def)

lemma SetConnectionEstablished_simps [simp]:
  "t_max_payload (SetConnectionEstablished b tr) = t_max_payload tr"
  "t_disconnects (SetConnectionEstablished b tr) = t_disconnects tr"
  "t_auth_id (SetConnectionEstablished b tr) = t_auth_id tr" "t_online (SetConnectionEstablished b tr) = t_online tr"
  by (simp_all add: SetConnectionEstablished_def)

lemma handle_online_ok:
  assumes g: "state_ok g" and t: "w_transports (g_world g) t = Some tr"
  shows "\<exists>g'. handle_online pr t g = Inr g' \<and> follows g g'
           \<and> (\<exists>tr'. w_transports (g_world g') t = Some tr' \<and> t_online tr')"
proof -
  note b = max_payload_of [OF g t] auth_ok_of [OF g t]
  let ?g1 = "g_set_trans t (tr\<lparr>t_online := True\<rparr>) g"
  have f1: "follows g ?g1" by (rule follows_set_trans [OF g t]) (use b in \<open>auto simp: auth_ok_def\<close>)
  let ?g2 = "g_set_trans t (SetConnectionEstablished True (tr\<lparr>t_online := True\<rparr>)) ?g1"
  have t1: "w_transports (g_world ?g1) t = Some (tr\<lparr>t_online := True\<rparr>)" by simp
  have f2: "follows ?g1 ?g2"
    by (rule follows_set_trans [OF follows_state [OF f1] t1]) (use b in \<open>auto simp: auth_ok_def\<close>)
  show ?thesis
    using f1 follows_trans [OF f1 f2] follows_more [OF f1, of "IncrementActiveConnections ?g1"] t
    by (cases "p_adb_host pr") (auto simp: handle_online_def)
qed

lemma run_callbacks_ok:
  assumes t: "w_transports (g_world g) t = Some tr"
    and cs: "kAuthDisconnect \<in> set cs \<or> kWifiDisconnect \<in> set cs \<Longrightarrow> t_auth_id tr \<noteq> None"
  shows "run_callbacks cs t g = Inr (g\<lparr>g_disconnected := g_disconnected g @ map (\<lambda>c. (c, t)) cs\<rparr>)"
  using assms by (induction cs arbitrary: g) auto

lemma auth_ok_state [simp]:
  "auth_ok (tr\<lparr>t_online := b\<rparr>) = auth_ok tr" "auth_ok (SetConnectionState s tr) = auth_ok tr"
  "auth_ok (SetConnectionEstablished b tr) = auth_ok tr" "auth_ok (tr\<lparr>t_disconnects := []\<rparr>)"
  "auth_ok (tr\<lparr>t_token := k\<rparr>) = auth_ok tr" "auth_ok (tr\<lparr>t_use_tls := b\<rparr>) = auth_ok tr"
  "auth_ok (tr\<lparr>t_auth_key := key\<rparr>) = auth_ok tr" "auth_ok (tr\<lparr>t_auth_id := Some i\<rparr>)"
  "auth_ok (tr\<lparr>t_failed_auth_attempts := n\<rparr>) = auth_ok tr" "auth_ok (tr\<lparr>t_keys := ks\<rparr>) = auth_ok tr"
  "auth_ok (transport_Kick tr) = auth_ok tr"
  by (simp_all add: auth_ok_def SetConnectionState_def transport_Kick_def)

lemma SetConnectionState_simps [simp]:
  "t_max_payload (SetConnectionState s tr) = t_max_payload tr" "t_connection_state (SetConnectionState s tr) = s"
  "t_disconnects (SetConnectionState s tr) = t_disconnects tr" "t_auth_id (SetConnectionState s tr) = t_auth_id tr"
  "t_online (SetConnectionState s tr) = t_online tr" "t_keys (SetConnectionState s tr) = t_keys tr"
  by (simp_all add: SetConnectionState_def)

text \<open>The transport is offline, has no disconnect callback left and no open socket.\<close>

definition torn_down :: "tptr \<Rightarrow> adb_state \<Rightarrow> bool" where
  "torn_down t g \<longleftrightarrow> (\<exists>tr. w_transports (g_world g) t = Some tr \<and> t_connection_state tr = kCsOffline
      \<and> \<not> t_online tr \<and> t_disconnects tr = [])
     \<and> (\<forall>a\<in>set (w_local_list (g_world g)). \<not> belongs t a (g_world g))"

lemma belongs_cong: "w_heap w' = w_heap w \<Longrightarrow> belongs t a w' = belongs t a w"
  by (auto simp: belongs_def split: option.splits)

text \<open>The part after the early return: \<open>g2\<close> is the state when the sockets are closed.\<close>

lemma handle_offline_step:
  assumes t: "w_transports (g_world g) t = Some tr" and n: "t_connection_state tr \<noteq> kCsOffline"
  shows "handle_offline pr t g =
     (case close_all_sockets (p_env pr) t (g_world (g_set_trans t ((SetConnectionState kCsOffline tr)\<lparr>t_online := False\<rparr>)
               (if p_adb_host pr then g else DecrementActiveConnections g))) of
        None \<Rightarrow> None
      | Some (Inl e) \<Rightarrow> Some (Inl e)
      | Some (Inr w) \<Rightarrow> Some (rbind (g_trans t ((g_set_trans t ((SetConnectionState kCsOffline tr)\<lparr>t_online := False\<rparr>)
               (if p_adb_host pr then g else DecrementActiveConnections g))\<lparr>g_world := w\<rparr>)) (\<lambda>tr3.
          run_callbacks (t_disconnects tr3) t (g_set_trans t (tr3\<lparr>t_disconnects := []\<rparr>)
            ((g_set_trans t ((SetConnectionState kCsOffline tr)\<lparr>t_online := False\<rparr>)
               (if p_adb_host pr then g else DecrementActiveConnections g))\<lparr>g_world := w\<rparr>)))))"
  unfolding handle_offline_def Let_def RunDisconnects_def case_prod_conv using t n by simp

lemma handle_offline_ok:
  assumes g: "state_ok g" and t: "w_transports (g_world g) t = Some tr"
  shows "\<exists>r. handle_offline pr t g = Some r
     \<and> safe (\<lambda>g'. follows g g' \<and> (t_connection_state tr \<noteq> kCsOffline \<longrightarrow> torn_down t g')) r"
proof (cases "t_connection_state tr = kCsOffline")
  case True
  then show ?thesis using t g by (simp add: handle_offline_def)
next
  case False
  note b = max_payload_of [OF g t] auth_ok_of [OF g t]
  define g1 where "g1 = (if p_adb_host pr then g else DecrementActiveConnections g)"
  let ?tr = "(SetConnectionState kCsOffline tr)\<lparr>t_online := False\<rparr>"
  define g2 where "g2 = g_set_trans t ?tr g1"
  have w1: "g_world g1 = g_world g" by (simp add: g1_def)
  then have f2: "follows g g2"
    using follows_more [OF follows_set_trans [OF g t, of ?tr]] b by (simp add: g2_def)
  note s2 = follows_state [OF f2]
  note step = handle_offline_step [OF t False, of pr, folded g1_def, folded g2_def]
  from close_all_sockets_ok [OF state_goodD(1) [OF s2], of "p_env pr" t] obtain r
    where r: "close_all_sockets (p_env pr) t (g_world g2) = Some r" "safe (all_closed t (g_world g2)) r" by auto
  show ?thesis
  proof (cases r)
    case (Inl e)
    then show ?thesis using r by (simp add: step)
  next
    case (Inr w)
    define g3 where "g3 = g2\<lparr>g_world := w\<rparr>"
    have ac: "all_closed t (g_world g2) w" using r Inr by simp
    then have f3: "follows g g3"
      using follows_trans [OF f2 follows_world [OF s2]] by (simp add: all_closed_def g3_def)
    have "rel_option tr_ext (w_transports (g_world g2) t) (w_transports w t)"
      using ac by (simp add: all_closed_def trans_ext_def)
    then obtain tr3 where t3: "w_transports (g_world g3) t = Some tr3" "tr_ext ?tr tr3"
      by (auto simp: g2_def g3_def option_rel_Some1)
    let ?tr4 = "tr3\<lparr>t_disconnects := []\<rparr>"
    define g4 where "g4 = g_set_trans t ?tr4 g3"
    have f4: "follows g g4" unfolding g4_def
      by (rule follows_trans [OF f3 follows_set_trans [OF follows_state [OF f3] t3(1)]])
         (use b t3(2) in \<open>auto simp: tr_ext_def\<close>)
    have t4: "w_transports (g_world g4) t = Some ?tr4" by (simp add: g4_def)
    let ?g = "g4\<lparr>g_disconnected := g_disconnected g4 @ map (\<lambda>c. (c, t)) (t_disconnects tr3)\<rparr>"
    have "run_callbacks (t_disconnects tr3) t g4 = Inr ?g"
      by (rule run_callbacks_ok [OF t4]) (use t3(2) b(2) in \<open>auto simp: tr_ext_def auth_ok_def\<close>)
    then have eq: "handle_offline pr t g = Some (Inr ?g)"
      using r(1) Inr t3(1) unfolding step by (simp add: g3_def [symmetric] g4_def [symmetric] del: g_world_set_trans)
    have "torn_down t ?g"
      using ac t3(2) t4 by (auto simp: torn_down_def all_closed_def tr_ext_def g4_def g3_def
          belongs_cong [of "set_trans t ?tr4 w" w])
    with eq follows_more [OF f4, of ?g] show ?thesis by simp
  qed
qed

subsection \<open>The handshake\<close>

lemma sendable_block_of: "sendable \<lparr>msg = m\<lparr>data_length := of_nat (bsize (block_of bs))\<rparr>, payload = block_of bs\<rparr>"
  by (simp add: sendable_def unat_of_nat_le)

lemma send_tls_request_ok:
  assumes "state_ok g" "w_transports (g_world g) t = Some tr"
  shows "safe_but F (follows g) (send_tls_request pr t g)"
  using g_send_ok [OF assms sendable_header, of pr A_STLS A_STLS_VERSION 0] unfolding send_tls_request_def by auto

text \<open>What \<open>send_connect\<close> sends, unless the banner is too long.\<close>

definition our_banner :: "params \<Rightarrow> string" where
  "our_banner pr = get_connection_string (p_lb pr) (p_adb_host pr) (p_GetProperty pr) (p_adb_device_banner pr)
     (p_supported pr)"

lemma send_connect_eq:
  assumes g: "state_ok g" and t: "w_transports (g_world g) t = Some tr" and n: "length (our_banner pr) \<le> MAX_PAYLOAD_V1"
  shows "\<exists>g' tr' p. send_connect pr t g = Inr g' \<and> follows g g' \<and> g' = g_set_trans t tr' g \<and> sent_on p tr tr'
     \<and> command (msg p) = A_CNXN \<and> arg0 (msg p) = A_VERSION \<and> arg1 (msg p) = of_nat (t_max_payload tr)
     \<and> payload p = block_of (our_banner pr) \<and> data_length (msg p) = of_nat (length (our_banner pr))"
proof -
  let ?m = "msg (header_packet A_CNXN A_VERSION (of_nat (t_max_payload tr)))" and ?b = "block_of (our_banner pr)"
  let ?p = "\<lparr>msg = ?m\<lparr>data_length := of_nat (bsize ?b)\<rparr>, payload = ?b\<rparr>"
  have "send_connect pr t g = g_send pr ?p t g"
    using t n by (simp add: send_connect_def our_banner_def [symmetric] block_assign_eq Let_def)
  moreover have "command (msg ?p) = A_CNXN" "arg0 (msg ?p) = A_VERSION" "arg1 (msg ?p) = of_nat (t_max_payload tr)"
    by (simp_all add: header_packet_def)
  moreover have "payload ?p = block_of (our_banner pr)" "data_length (msg ?p) = of_nat (length (our_banner pr))" by simp_all
  ultimately show ?thesis using g_send_ok [OF g t sendable_block_of, of pr "our_banner pr" ?m] by metis
qed

lemma send_connect_ok:
  assumes g: "state_ok g" and t: "w_transports (g_world g) t = Some tr"
  shows "safe_but {Fatal} (follows g) (send_connect pr t g)"
proof (cases "length (our_banner pr) \<le> MAX_PAYLOAD_V1")
  case True
  with send_connect_eq [OF g t] show ?thesis by fastforce
next
  case False
  then show ?thesis using t by (simp add: send_connect_def our_banner_def)
qed

lemma auth_packet_eq:
  "auth_packet pr k bs = Inr \<lparr>msg = (msg (header_packet A_AUTH k 0))\<lparr>data_length := of_nat (bsize (block_of bs))\<rparr>,
     payload = block_of bs\<rparr>"
  by (simp add: auth_packet_def block_assign_eq)

lemma send_auth_ok:
  assumes g: "state_ok g" and t: "w_transports (g_world g) t = Some tr"
  shows "\<exists>g' tr' p. rbind (auth_packet pr k bs) (\<lambda>p. g_send pr p t g) = Inr g' \<and> follows g g' \<and> g' = g_set_trans t tr' g
     \<and> sent_on p tr tr' \<and> command (msg p) = A_AUTH \<and> arg0 (msg p) = k \<and> payload p = block_of bs
     \<and> data_length (msg p) = of_nat (length bs)"
proof -
  let ?p = "\<lparr>msg = (msg (header_packet A_AUTH k 0))\<lparr>data_length := of_nat (bsize (block_of bs))\<rparr>, payload = block_of bs\<rparr>"
  have "command (msg ?p) = A_AUTH" "arg0 (msg ?p) = k" "payload ?p = block_of bs" "data_length (msg ?p) = of_nat (length bs)"
    by (simp_all add: header_packet_def)
  with g_send_ok [OF g t sendable_block_of, of pr bs "msg (header_packet A_AUTH k 0)"] show ?thesis
    unfolding auth_packet_eq rbind_Inr by metis
qed

lemma send_auth_request_ok:
  assumes g: "state_ok g" and t: "w_transports (g_world g) t = Some tr"
  shows "safe_but F (follows g) (send_auth_request pr t g)"
proof -
  obtain token okay where k: "adbd_auth_generate_token (p_urandom pr) (t_token tr) = (token, okay)" by fastforce
  let ?tr = "tr\<lparr>t_token := token\<rparr>"
  have f: "follows g (g_set_trans t ?tr g)"
    by (rule follows_set_trans [OF g t]) (use max_payload_of [OF g t] auth_ok_of [OF g t] in auto)
  from send_auth_ok [OF follows_state [OF f], of t ?tr pr ADB_AUTH_TOKEN token] follows_trans [OF f] f t k show ?thesis
    by (auto simp: send_auth_request_def Let_def)
qed

lemma banner_prop_same:
  "t_max_payload (banner_prop lb sf p tr) = t_max_payload tr" "t_disconnects (banner_prop lb sf p tr) = t_disconnects tr"
  "t_auth_id (banner_prop lb sf p tr) = t_auth_id tr" "t_online (banner_prop lb sf p tr) = t_online tr"
  "t_use_tls (banner_prop lb sf p tr) = t_use_tls tr" "t_token (banner_prop lb sf p tr) = t_token tr"
  "t_outgoing (banner_prop lb sf p tr) = t_outgoing tr"
  by (simp_all add: banner_prop_def SetFeatures_def Let_def split: list.splits)

lemma banner_props_same:
  "t_max_payload (fold (banner_prop lb sf) ps tr) = t_max_payload tr
   \<and> t_disconnects (fold (banner_prop lb sf) ps tr) = t_disconnects tr
   \<and> t_auth_id (fold (banner_prop lb sf) ps tr) = t_auth_id tr
   \<and> t_online (fold (banner_prop lb sf) ps tr) = t_online tr
   \<and> t_use_tls (fold (banner_prop lb sf) ps tr) = t_use_tls tr
   \<and> t_token (fold (banner_prop lb sf) ps tr) = t_token tr
   \<and> t_outgoing (fold (banner_prop lb sf) ps tr) = t_outgoing tr"
  by (induction ps arbitrary: tr) (simp_all add: banner_prop_same)

lemma parse_banner_ok:
  assumes "libbase_ok lb"
  shows "\<exists>tr'. parse_banner lb sf s tr = Inr tr' \<and> t_max_payload tr' = t_max_payload tr
     \<and> t_disconnects tr' = t_disconnects tr \<and> t_auth_id tr' = t_auth_id tr \<and> t_online tr' = t_online tr
     \<and> t_use_tls tr' = t_use_tls tr \<and> t_token tr' = t_token tr \<and> t_outgoing tr' = t_outgoing tr
     \<and> t_connection_state tr' \<noteq> kCsOffline"
proof -
  have "\<exists>x. vec_at (Split lb s CHR '':'') 0 = Inr x" using libbase_okD(4) [OF assms] by (simp add: vec_at_def)
  moreover have "banner_state x \<noteq> kCsOffline" for x by (simp add: banner_state_def)
  ultimately show ?thesis
    by (auto simp: parse_banner_def Let_def banner_props_same SetFeatures_def SetConnectionState_def)
qed

text \<open>A step that returns, in a good state with the same transports.\<close>

definition step_ok :: "fault set \<Rightarrow> adb_state \<Rightarrow> step \<Rightarrow> bool" where
  "step_ok F g m \<longleftrightarrow> (\<exists>r. m = Some r \<and> safe_but F (follows g) r)"

lemma step_ok_Some [simp]: "step_ok F g (Some r) = safe_but F (follows g) r"
  by (simp add: step_ok_def)

lemma step_ok_offline:
  assumes "state_ok g" "w_transports (g_world g) t = Some tr"
  shows "step_ok F g (handle_offline pr t g)"
proof -
  from handle_offline_ok [OF assms, of pr] obtain r where "handle_offline pr t g = Some r"
    "safe (\<lambda>g'. follows g g' \<and> (t_connection_state tr \<noteq> kCsOffline \<longrightarrow> torn_down t g')) r" by auto
  then show ?thesis by (simp add: safe_but_safe safe_mono)
qed

lemma step_ok_obind:
  assumes m: "step_ok F g m" and f: "\<And>g'. follows g g' \<Longrightarrow> step_ok F g' (f g')"
  shows "step_ok F g (obind m f)"
proof -
  from m obtain r where r: "m = Some r" "safe_but F (follows g) r" by (auto simp: step_ok_def)
  show ?thesis
  proof (cases r)
    case (Inl e)
    then show ?thesis using r by (simp add: obind_def)
  next
    case (Inr g')
    with r have "follows g g'" by simp
    with f [OF this] Inr r show ?thesis by (auto simp: obind_def step_ok_def intro: safe_but_mono follows_trans)
  qed
qed

lemma safe_follows_rbind:
  assumes "safe_but F (follows g) m" "\<And>g'. follows g g' \<Longrightarrow> safe_but F (follows g') (f g')"
  shows "safe_but F (follows g) (rbind m f)"
  by (rule safe_but_rbind [OF assms(1)]) (auto intro: safe_but_mono [OF assms(2)] follows_trans)

lemma safe_follows_from:
  assumes "follows g g'" "safe_but F (follows g') m"
  shows "safe_but F (follows g) m"
  by (rule safe_but_mono [OF assms(2)]) (use follows_trans [OF assms(1)] in auto)

lemma adbd_auth_verified_ok:
  assumes g: "state_ok g" and t: "w_transports (g_world g) t = Some tr"
  shows "safe_but {Fatal} (follows g) (adbd_auth_verified pr t g)"
proof -
  from handle_online_ok [OF g t, of pr] obtain g' tr' where
    "handle_online pr t g = Inr g'" "follows g g'" "w_transports (g_world g') t = Some tr'" by auto
  with safe_follows_from [OF this(2) send_connect_ok [OF follows_state [OF this(2)] this(3)]] show ?thesis
    by (simp add: adbd_auth_verified_def)
qed

lemma handle_new_connection_ok:
  assumes lb: "libbase_ok (p_lb pr)" and g: "state_ok g" and t: "w_transports (g_world g) t = Some tr"
  shows "step_ok {Fatal} g (handle_new_connection pr t p g)"
  unfolding handle_new_connection_def
proof (rule step_ok_obind [OF step_ok_offline [OF g t]])
  fix g1
  assume f1: "follows g g1"
  from follows_alive [OF f1 t] obtain tr1 where t1: "w_transports (g_world g1) t = Some tr1" by auto
  let ?tr2 = "update_version (arg0 (msg p)) (arg1 (msg p)) tr1"
  from parse_banner_ok [OF lb, of "p_supported pr" "block_bytes (payload p)" ?tr2] obtain tr3
    where tr3: "parse_banner (p_lb pr) (p_supported pr) (block_bytes (payload p)) ?tr2 = Inr tr3"
      "t_max_payload tr3 = t_max_payload ?tr2" "t_disconnects tr3 = t_disconnects tr1" "t_auth_id tr3 = t_auth_id tr1"
      by (auto simp: update_version_def)
  let ?g2 = "g_set_trans t ?tr2 g1" and ?g3 = "g_set_trans t tr3 (g_set_trans t ?tr2 g1)"
  have a: "auth_ok tr1" by (rule auth_ok_of [OF follows_state [OF f1] t1])
  have f2: "follows g1 ?g2"
    by (rule follows_set_trans [OF follows_state [OF f1] t1]) (use a in \<open>auto simp: update_version_def auth_ok_def\<close>)
  have f3: "follows ?g2 ?g3"
    by (rule follows_set_trans [OF follows_state [OF f2], of _ ?tr2])
       (use a tr3 in \<open>auto simp: update_version_def auth_ok_def\<close>)
  note f = follows_trans [OF f2 f3]
  have t3: "w_transports (g_world ?g3) t = Some tr3" by simp
  note s3 = follows_state [OF f3]
  from handle_online_ok [OF s3 t3, of pr] obtain g4 where
    h: "handle_online pr t ?g3 = Inr g4" "follows ?g3 g4" by auto
  have "safe_but {Fatal} (follows ?g3) (if p_adb_host pr then handle_online pr t ?g3
      else if t_use_tls tr3 then send_tls_request pr t ?g3
      else if \<not> p_auth_required pr then rbind (handle_online pr t ?g3) (send_connect pr t)
      else send_auth_request pr t ?g3)"
    using h send_tls_request_ok [OF s3 t3, of "{Fatal}" pr] adbd_auth_verified_ok [OF s3 t3, of pr]
      send_auth_request_ok [OF s3 t3, of "{Fatal}" pr] by (auto simp: adbd_auth_verified_def)
  from safe_follows_from [OF f this] t1 tr3(1)
  show "step_ok {Fatal} g1 (Some (rbind (g_mod_trans t (update_version (arg0 (msg p)) (arg1 (msg p))) g1) (\<lambda>g2.
       rbind (g_trans t g2) (\<lambda>tr2.
       rbind (parse_banner (p_lb pr) (p_supported pr) (block_bytes (payload p)) tr2) (\<lambda>tr3.
         let g3 = g_set_trans t tr3 g2
         in if p_adb_host pr then handle_online pr t g3
            else if t_use_tls tr3 then send_tls_request pr t g3
            else if \<not> p_auth_required pr then rbind (handle_online pr t g3) (send_connect pr t)
            else send_auth_request pr t g3)))))"
    by (simp add: Let_def)
qed

subsection \<open>Authentication\<close>

lemma transport_to_callback_world [simp]: "g_world (snd (transport_to_callback_arg t g)) = g_world g"
  by (simp add: transport_to_callback_arg_def Let_def)

lemma notify_connected_ok:
  assumes g: "state_ok g" and t: "w_transports (g_world g) t = Some tr"
  shows "safe_but F (follows g) (adbd_notify_framework_connected_key pr t g)"
  using follows_set_trans [OF g t, of "tr\<lparr>t_auth_id := Some (p_notify_auth pr (t_auth_key tr))\<rparr>"] max_payload_of [OF g t] t
  by (simp add: adbd_notify_framework_connected_key_def)

lemma adbd_auth_confirm_key_ok:
  assumes g: "state_ok g" and t: "w_transports (g_world g) t = Some tr" and i: "\<And>k a. p_prompt_user pr k a \<noteq> None"
  shows "safe_but F (follows g) (adbd_auth_confirm_key pr t g)"
proof -
  let ?tr = "AddDisconnect kAuthDisconnect tr"
  let ?g1 = "g_set_trans t ?tr g"
  obtain arg g2 where a: "transport_to_callback_arg t ?g1 = (arg, g2)" by fastforce
  then have w2: "g_world g2 = set_trans t ?tr (g_world g)"
    using transport_to_callback_world [of t ?g1] by simp
  obtain j where j: "p_prompt_user pr (t_auth_key ?tr) arg = Some j" using i by fastforce
  let ?tr2 = "?tr\<lparr>t_auth_id := Some j\<rparr>"
  have t2: "w_transports (g_world g2) t = Some ?tr" by (simp add: w2)
  have f: "follows g (g_set_trans t ?tr2 g)"
    by (rule follows_set_trans [OF g t]) (use max_payload_of [OF g t] in \<open>simp_all add: AddDisconnect_def\<close>)
  have "follows g (g_set_trans t ?tr2 g2)"
    by (rule follows_more [OF f]) (simp add: w2 set_trans_def)
  with t t2 a j show ?thesis by (simp add: adbd_auth_confirm_key_def)
qed

lemma NextKey_ok:
  assumes "ks \<noteq> []"
  shows "\<exists>k tr'. transport_NextKey ks tr = Inr (k, tr') \<and> (\<exists>ks'. tr' = tr\<lparr>t_keys := ks'\<rparr>)"
  using assms by (auto simp: transport_NextKey_def Let_def)

lemma send_auth_response_ok:
  assumes g: "state_ok g" and t: "w_transports (g_world g) t = Some tr" and ks: "p_private_keys pr \<noteq> []"
  shows "safe_but F (follows g) (send_auth_response pr token t g)"
proof -
  from NextKey_ok [OF ks, of tr] obtain k ks' where
    k: "transport_NextKey (p_private_keys pr) tr = Inr (k, tr\<lparr>t_keys := ks'\<rparr>)" by auto
  note b = max_payload_of [OF g t] auth_ok_of [OF g t]
  let ?tr1 = "tr\<lparr>t_keys := ks'\<rparr>"
  let ?tr2 = "SetConnectionEstablished True (SetConnectionState kCsUnauthorized ?tr1)"
  have f1: "follows g (g_set_trans t ?tr1 g)" and f2: "follows g (g_set_trans t ?tr2 g)"
    by (rule follows_set_trans [OF g t]; use b in simp)+
  note n1 = send_auth_ok [OF follows_state [OF f1], of t ?tr1 pr] and n2 = send_auth_ok [OF follows_state [OF f2], of t ?tr2 pr]
  show ?thesis
  proof (cases k)
    case None
    have "safe_but F (follows (g_set_trans t ?tr2 g)) (send_auth_publickey pr t (g_set_trans t ?tr2 g))"
      using n2 [of ADB_AUTH_RSAPUBLICKEY "p_userkey pr @ [CHR 0x00]"] follows_state [OF f2]
      by (auto simp: send_auth_publickey_def Let_def)
    from safe_follows_from [OF f2 this] t k None show ?thesis by (simp add: send_auth_response_def)
  next
    case (Some k')
    with n1 [of ADB_AUTH_SIGNATURE "adb_auth_sign pr k' token"] f1 follows_trans [OF f1] t k show ?thesis
      by (auto simp: send_auth_response_def Let_def)
  qed
qed

text \<open>What the two places that read the payload as a C string rely on.\<close>

definition terminated :: "apacket \<Rightarrow> bool" where
  "terminated p \<longleftrightarrow> (\<exists>d. bdata (payload p) = Some d \<and> CHR 0x00 \<in> set d)"

lemma payload_c_str_ok: "terminated p \<Longrightarrow> \<exists>s. payload_c_str (payload p) = Inr s"
  by (auto simp: terminated_def payload_c_str_def)

lemma signature_ok:
  assumes g: "state_ok g" and t: "w_transports (g_world g) t = Some tr"
  shows "safe_but {Fatal} (follows g) (rbind (adbd_auth_verified pr t g) (\<lambda>g1.
     rbind (g_mod_trans t (\<lambda>x. x\<lparr>t_failed_auth_attempts := 0, t_auth_key := key\<rparr>) g1)
       (adbd_notify_framework_connected_key pr t)))"
proof (rule safe_follows_rbind [OF adbd_auth_verified_ok [OF g t]])
  fix g1
  assume f: "follows g g1"
  from follows_alive [OF f t] obtain tr1 where t1: "w_transports (g_world g1) t = Some tr1" by auto
  let ?tr = "tr1\<lparr>t_failed_auth_attempts := 0, t_auth_key := key\<rparr>"
  note b = max_payload_of [OF follows_state [OF f] t1] auth_ok_of [OF follows_state [OF f] t1]
  have f2: "follows g1 (g_set_trans t ?tr g1)"
    by (rule follows_set_trans [OF follows_state [OF f] t1]) (use b in simp_all)
  from safe_follows_from [OF f2 notify_connected_ok [OF follows_state [OF f2]], of t ?tr "{Fatal}" pr] t1
  show "safe_but {Fatal} (follows g1) (rbind (g_mod_trans t (\<lambda>x. x\<lparr>t_failed_auth_attempts := 0, t_auth_key := key\<rparr>) g1)
       (adbd_notify_framework_connected_key pr t))" by simp
qed

lemma handle_auth_ok:
  assumes g: "state_ok g" and t: "w_transports (g_world g) t = Some tr"
    and ks: "p_private_keys pr \<noteq> []" and i: "\<And>k a. p_prompt_user pr k a \<noteq> None"
    and c: "\<not> p_adb_host pr \<Longrightarrow> arg0 (msg p) = ADB_AUTH_RSAPUBLICKEY \<Longrightarrow> terminated p"
  shows "step_ok {Fatal} g (handle_auth pr t p g)"
proof -
  note b = max_payload_of [OF g t] auth_ok_of [OF g t]
  have set: "follows g (g_set_trans t tr' g)" if "t_max_payload tr' = t_max_payload tr" "auth_ok tr'" for tr'
    by (rule follows_set_trans [OF g t]) (use b that in simp_all)
  have 1: "safe_but {Fatal} (follows g) (send_auth_response pr tok t (g_set_trans t tr' g))"
    if "tr' = (if t_connection_state tr \<noteq> kCsAuthorizing then SetConnectionState kCsAuthorizing tr else tr)" for tr' tok
  proof -
    have f: "follows g (g_set_trans t tr' g)" by (rule set) (use that b in auto)
    show ?thesis by (rule safe_follows_from [OF f send_auth_response_ok [OF follows_state [OF f] _ ks]]) simp
  qed
  have 2: "safe_but {Fatal} (follows g) (send_auth_request pr t (g_set_trans t (tr\<lparr>t_failed_auth_attempts := n\<rparr>) g))" for n
  proof -
    have f: "follows g (g_set_trans t (tr\<lparr>t_failed_auth_attempts := n\<rparr>) g)" by (rule set) (use b in auto)
    show ?thesis by (rule safe_follows_from [OF f send_auth_request_ok [OF follows_state [OF f]]]) simp
  qed
  have 3: "safe_but {Fatal} (follows g) (adbd_auth_confirm_key pr t (g_set_trans t (tr\<lparr>t_auth_key := key\<rparr>) g))" for key
  proof -
    have f: "follows g (g_set_trans t (tr\<lparr>t_auth_key := key\<rparr>) g)" by (rule set) (use b in auto)
    show ?thesis by (rule safe_follows_from [OF f adbd_auth_confirm_key_ok [OF follows_state [OF f] _ i]]) simp
  qed
  have 4: "step_ok {Fatal} g (handle_offline pr t (g_set_trans t (SetConnectionState kCsOffline tr) g))"
    using set [of "SetConnectionState kCsOffline tr"] b by (simp add: handle_offline_def)
  show ?thesis
    using t g 1 2 3 4 signature_ok [OF g t, of pr] payload_c_str_ok [OF c]
    by (auto simp: handle_auth_def split: option.splits)
qed

subsection \<open>Streams\<close>

definition goes :: "world \<Rightarrow> world \<Rightarrow> bool" where
  "goes w w' \<longleftrightarrow> good w' \<and> trans_ext w w'"

lemma goes_refl [simp]: "good w \<Longrightarrow> goes w w"
  by (simp add: goes_def trans_ext_same)

lemma goes_trans: "goes w w' \<Longrightarrow> goes w' w'' \<Longrightarrow> goes w w''"
  using trans_ext_trans by (auto simp: goes_def)

lemma goes_alive: "goes w w' \<Longrightarrow> w_transports w t = Some tr \<Longrightarrow> \<exists>tr'. w_transports w' t = Some tr' \<and> tr_ext tr tr'"
  unfolding goes_def trans_ext_def by (metis option_rel_Some1)

lemma goes_keeps: "good w \<Longrightarrow> keeps a w w' \<Longrightarrow> goes w w'"
  using good_keeps by (simp add: goes_def keeps_def)

lemma goes_only_sends: "good w \<Longrightarrow> only_sends w w' \<Longrightarrow> goes w w'"
  using goes_keeps [OF _ keeps_sends] by (simp add: good_def)

lemma send_close_ok:
  assumes "good w" "w_transports w t = Some tr"
  shows "safe_but F (goes w) (send_close env x y t w)"
  using w_send_packet_ok [OF assms(2) sendable_header, of env A_CLSE x y]
    goes_only_sends [OF assms(1) only_sends_set_trans [OF assms(2)]]
  by (auto simp: send_close_def)

lemma good_with_local:
  assumes "good w" "w_next_id w + 1 \<noteq> 0"
  shows "good (with_local fd w)"
proof -
  have wf: "wf_world None w" and att: "attached w" using assms by (simp_all add: good_def)
  have "attached (with_local fd w)"
    by (rule attached_from [OF att]) (use wf_next [OF wf] in \<open>auto split: if_splits\<close>)
  then show ?thesis using wf_with_local [OF wf assms(2)] by (simp add: good_def)
qed

text \<open>The socket of a new stream: local, open, not yet linked, with transport \<open>t\<close>.\<close>

definition unlinked :: "addr \<Rightarrow> asocket \<Rightarrow> world \<Rightarrow> bool" where
  "unlinked a s w \<longleftrightarrow> w_heap w a = Some s \<and> is_local s \<and> s_peer s = None \<and> \<not> s_closing s"

definition plain_service :: "params \<Rightarrow> tptr \<Rightarrow> world \<Rightarrow> string \<Rightarrow> bool" where
  "plain_service pr t w name \<longleftrightarrow> p_adb_host pr \<or> p_service_to_socket pr name t w = None"

lemma create_local_service_socket_ok:
  assumes g: "good w" and t: "w_transports w t = Some tr" and n: "plain_service pr t w name"
  shows "safe_but {Fatal} (\<lambda>(so, w'). goes w w' \<and> (\<forall>a. so = Some a \<longrightarrow> (\<exists>s. unlinked a s w' \<and> s_transport s = Some t)))
     (create_local_service_socket pr name t w)"
proof -
  have none: "(if p_adb_host pr then None else p_service_to_socket pr name t w) = None"
    using n by (auto simp: plain_service_def)
  show ?thesis
  proof (cases "p_service_to_fd pr name t")
    case None
    then show ?thesis using g none by (simp add: create_local_service_socket_def)
  next
    case (Some fd)
    show ?thesis
    proof (cases "w_next_id w + 1 = 0")
      case True
      then show ?thesis using Some none by (simp add: create_local_service_socket_def create_local_socket_overflow)
    next
      case False
      let ?w = "with_local fd w" and ?a = "w_next w"
      let ?s = "(fresh_local fd w)\<lparr>s_transport := Some t\<rparr>"
      define s where "s = (if exits_on_close pr name then ?s\<lparr>s_exit_on_close := True\<rparr> else ?s)"
      have g1: "good ?w" by (rule good_with_local [OF g False])
      have ok: "sock_ok ?w ?a (fresh_local fd w)" by (rule wf_sockD [of None]) (use g1 in \<open>simp_all add: good_def\<close>)
      have loc: "is_local s \<and> s_peer s = None \<and> \<not> s_closing s \<and> s_transport s = Some t"
        by (simp add: s_def is_local_def fresh_local_def new_asocket_def)
      have ok': "sock_ok ?w ?a s"
        using ok t by (simp add: s_def sock_ok_def kind_ok_def waiting_ok_def is_local_def fresh_local_def new_asocket_def)
      have "good (set_sock ?a s ?w)"
        by (rule good_set_sock [OF g1 _ ok', of "fresh_local fd w"]) (simp_all add: s_def)
      moreover have "create_local_service_socket pr name t w = Inr (Some ?a, set_sock ?a s ?w)"
        using Some none False by (simp add: create_local_service_socket_def create_local_socket_eq s_def set_sock_def)
      ultimately show ?thesis using loc by (simp add: goes_def trans_ext_same unlinked_def)
    qed
  qed
qed

lemma link_remote_ok:
  assumes g: "good w" and a: "unlinked a s w" and t: "w_transports w t = Some tr" and i: "i \<noteq> 0"
  shows "\<exists>b s' r. link_remote a i t w = Inr (b, with_peer a s r w) \<and> goes w (with_peer a s r w)
     \<and> w_heap (with_peer a s r w) a = Some s' \<and> is_local s' \<and> s' = s\<lparr>s_peer := Some b\<rparr>
     \<and> w_heap (with_peer a s r w) b = Some (r\<lparr>s_peer := Some a\<rparr>) \<and> s_id r = i \<and> s_transport r = Some t"
proof -
  let ?r = "new_asocket\<lparr>s_id := i, s_enqueue := remote_enqueue_fn, s_ready := remote_ready_fn,
                  s_shutdown := True, s_close := remote_close_fn, s_transport := Some t\<rparr>"
  have wf: "wf_world None w" using g by (simp add: good_def)
  have a': "w_heap w a = Some s" "is_local s" "s_peer s = None" "\<not> s_closing s" using a by (simp_all add: unlinked_def)
  have ne: "a \<noteq> w_next w" using wf_next [OF wf] a' by auto
  have "good (with_peer a s ?r w)"
    by (rule good_with_peer [OF g a']) (use t i in \<open>simp_all add: is_local_def kind_ok_def new_asocket_def\<close>)
  moreover have "link_remote a i t w = Inr (w_next w, with_peer a s ?r w)"
    using i ne a' by (simp add: link_remote_def create_remote_socket_def alloc_sock_def with_peer_def set_sock_def
        mod_sock_def sock_def fun_upd_twist)
  ultimately show ?thesis
    using ne a'(2) by (intro exI [of _ "w_next w"] exI [of _ "s\<lparr>s_peer := Some (w_next w)\<rparr>"] exI [of _ ?r])
      (simp add: goes_def with_peer_def trans_ext_same is_local_def)
qed


lemma open_stream_ok:
  assumes g: "good w" and a: "unlinked a s w" and t: "w_transports w t = Some tr" and i: "i \<noteq> 0"
  shows "safe_but F (goes w) (open_stream pr t i n da a w)"
proof -
  from link_remote_ok [OF g a t i] obtain b s' r where
    l: "link_remote a i t w = Inr (b, with_peer a s r w)" "goes w (with_peer a s r w)"
      "w_heap (with_peer a s r w) a = Some s'" "is_local s'" "w_heap (with_peer a s r w) b = Some (r\<lparr>s_peer := Some a\<rparr>)"
      "s' = s\<lparr>s_peer := Some b\<rparr>" by blast
  define w1 where "w1 = with_peer a s r w"
  have g1: "good w1" using l(2) by (simp add: goes_def w1_def)
  have wf1: "wf_world None w1" using g1 by (simp add: good_def)
  have ne: "b \<noteq> a" using wf_peerD [OF wf1, of a s' b] l by (simp add: w1_def)
  define s2 where "s2 = (if da then s'\<lparr>s_available_send_bytes := Some (uint n)\<rparr> else s')"
  define w2 where "w2 = (if da then set_sock a s2 w1 else w1)"
  have k2: "keeps a w1 w2"
    using keeps_local(2) [OF wf1 l(3) [folded w1_def] l(4), of "Some (uint n)"] keeps_sends [OF wf1 only_sends_refl, of a]
    by (simp add: w2_def s2_def)
  have h2: "w_heap w2 a = Some s2" "w_heap w2 b = Some (r\<lparr>s_peer := Some a\<rparr>)"
    using l ne by (auto simp: w2_def s2_def w1_def)
  have m: "(if da then mod_sock a (\<lambda>s. s\<lparr>s_available_send_bytes := Some (uint n)\<rparr>) w1 else Inr w1) = Inr w2"
    using l by (simp add: w1_def w2_def s2_def)
  note go2 = goes_trans [OF l(2) [folded w1_def] goes_keeps [OF g1 k2]]
  have g2: "good w2" using go2 by (simp add: goes_def)
  from goes_alive [OF go2 t] obtain tr2 where t2: "w_transports w2 t = Some tr2" by auto
  from send_ready_ok [OF t2, of "p_env pr" "s_id s2" "s_id r" "if da then of_nat INITIAL_DELAYED_ACK_BYTES else 0"]
  obtain tr3 q where r: "send_ready (p_env pr) (s_id s2) (s_id r) t (if da then of_nat INITIAL_DELAYED_ACK_BYTES else 0) w2
      = Inr (set_trans t tr3 w2)" "sent_on q tr2 tr3" by blast
  have go3: "goes w2 (set_trans t tr3 w2)" by (rule goes_only_sends [OF g2 only_sends_set_trans [OF t2 r(2)]])
  then have g3: "good (set_trans t tr3 w2)" by (simp add: goes_def)
  have loc2: "is_local s2" using l(4) by (simp add: s2_def is_local_def)
  from s_do_ready_ok [of "set_trans t tr3 w2" a s2 "p_env pr"] g3 h2 loc2 obtain w4 where
    w4: "s_do_ready (p_env pr) a (set_trans t tr3 w2) = Inr w4" "keeps a (set_trans t tr3 w2) w4" by (auto simp: good_def)
  have "open_stream pr t i n da a w = Inr w4"
    using l(1) m h2 r w4 by (simp add: open_stream_def w1_def [symmetric])
  with goes_trans [OF go2 goes_trans [OF go3 goes_keeps [OF g3 w4(2)]]] show ?thesis by simp
qed

text \<open>The destination of an \<open>A_OPEN\<close> packet, and the condition under which the handler is safe.\<close>

definition open_address :: "apacket \<Rightarrow> string" where
  "open_address p = StripTrailingNulls (block_bytes (payload p))"

lemma handle_open_ok:
  assumes g: "good w" and t: "w_transports w t = Some tr" and n: "plain_service pr t w (open_address p)"
    and c: "p_adb_host pr \<Longrightarrow> terminated p"
  shows "safe_but {Fatal} (goes w) (handle_open pr t p w)"
proof -
  let ?rest = "rbind (create_local_service_socket pr (open_address p) t w) (\<lambda>(s, w1).
      case s of None \<Rightarrow> send_close (p_env pr) 0 (arg0 (msg p)) t w1
      | Some a \<Rightarrow> open_stream pr t (arg0 (msg p)) (arg1 (msg p)) (t_delayed_ack tr) a w1)"
  have rest: "safe_but {Fatal} (goes w) ?rest" if i: "arg0 (msg p) \<noteq> 0"
  proof (rule safe_but_rbind [OF create_local_service_socket_ok [OF g t n]], clarify)
    fix so w1
    assume w1: "goes w w1" and so: "\<forall>a. so = Some a \<longrightarrow> (\<exists>s. unlinked a s w1 \<and> s_transport s = Some t)"
    from goes_alive [OF w1 t] obtain tr1 where t1: "w_transports w1 t = Some tr1" by auto
    have g1: "good w1" using w1 by (simp add: goes_def)
    have "safe_but {Fatal} (goes w1) (case so of None \<Rightarrow> send_close (p_env pr) 0 (arg0 (msg p)) t w1
      | Some a \<Rightarrow> open_stream pr t (arg0 (msg p)) (arg1 (msg p)) (t_delayed_ack tr) a w1)"
      using send_close_ok [OF g1 t1] open_stream_ok [OF g1 _ t1 i] so by (auto split: option.splits)
    then show "safe_but {Fatal} (goes w) (case so of None \<Rightarrow> send_close (p_env pr) 0 (arg0 (msg p)) t w1
      | Some a \<Rightarrow> open_stream pr t (arg0 (msg p)) (arg1 (msg p)) (t_delayed_ack tr) a w1)"
      by (rule safe_but_mono) (use goes_trans [OF w1] in auto)
  qed
  let ?guard = "if p_adb_host pr then rbind (payload_c_str (payload p)) (\<lambda>local_addr.
      if \<not> IsReverseConfigured local_addr tr then Inl Fatal else Inr ()) else Inr ()"
  have "safe_but {Fatal} (\<lambda>_. True) ?guard" using payload_c_str_ok [OF c] by (cases "p_adb_host pr") auto
  then have body: "safe_but {Fatal} (goes w) (rbind ?guard (\<lambda>_. ?rest))" if "arg0 (msg p) \<noteq> 0"
    by (rule safe_but_rbind) (use rest that in simp)
  show ?thesis
    using t g body send_close_ok [OF g t, of "{Fatal}"]
    by (simp add: handle_open_def trans_def open_address_def [symmetric] Let_def)
qed


lemma find_local_socket_ok:
  assumes g: "good w"
  shows "\<exists>r. find_local_socket i j w = Inr r \<and> (\<forall>a. r = Some a \<longrightarrow>
     a \<in> set (w_local_list w) \<and> has_ids i j a w \<and> (\<exists>s. w_heap w a = Some s \<and> is_local s \<and> \<not> s_closing s))"
proof -
  have wf: "wf_world None w" using g by (simp add: good_def)
  have l: "\<exists>s. w_heap w a = Some s \<and> is_local s \<and> \<not> s_closing s" if "a \<in> set (w_local_list w)" for a
    using wf_worldD(3) [OF wf] that by (auto simp: lists_ok_def)
  then have "\<exists>s. w_heap w a = Some s \<and> is_local s" if "a \<in> set (w_local_list w)" for a using that by blast
  from find_local_socket_in_ok [OF wf this] obtain r where
    "find_local_socket i j w = Inr r" "\<And>a. r = Some a \<longleftrightarrow> a \<in> set (w_local_list w) \<and> has_ids i j a w"
    unfolding find_local_socket_def by metis
  with l show ?thesis by blast
qed

lemma ack_goes:
  assumes "good w" "w_heap w a = Some s" "is_local s"
  shows "safe_but F (goes w) (local_socket_ack env a n w)"
  using local_socket_ack_ok [of w a s env n] assms goes_keeps by (auto simp: good_def)

lemma handle_okay_ok:
  assumes g: "good w" and t: "w_transports w t = Some tr" and p: "wf_block (payload p)"
  shows "safe_but F (goes w) (handle_okay pr t p w)"
proof -
  have wf: "wf_world None w" using g by (simp add: good_def)
  from find_local_socket_ok [OF g, of "arg1 (msg p)" 0] obtain so where
    f: "find_local_socket (arg1 (msg p)) 0 w = Inr so"
      "\<And>a. so = Some a \<Longrightarrow> \<exists>s. w_heap w a = Some s \<and> is_local s \<and> \<not> s_closing s" by blast
  have acked: "\<exists>x. (if bsize (payload p) = 4 then rbind (block_load (payload p) 0 4) (\<lambda>bs. Inr (Some (sint (of_le32 bs))))
      else Inr None) = Inr x" using p by (simp add: block_load_ok)
  have main: "safe_but F (goes w) (rbind (sock a w) (\<lambda>s. case s_peer s of
        None \<Rightarrow> rbind (link_remote a (arg0 (msg p)) t w) (\<lambda>(_, w1). local_socket_ack (p_env pr) a x w1)
      | Some b \<Rightarrow> rbind (sock b w) (\<lambda>ps.
          if s_id ps = arg0 (msg p) then local_socket_ack (p_env pr) a x w else Inr w)))"
    if a: "so = Some a" and i: "arg0 (msg p) \<noteq> 0" for a x
  proof -
    from f(2) [OF a] obtain s where s: "w_heap w a = Some s" "is_local s" "\<not> s_closing s" by auto
    show ?thesis
    proof (cases "s_peer s")
      case None
      with s have u: "unlinked a s w" by (simp add: unlinked_def)
      from link_remote_ok [OF g u t i] obtain b s' r where
        l: "link_remote a (arg0 (msg p)) t w = Inr (b, with_peer a s r w)" "goes w (with_peer a s r w)"
          "w_heap (with_peer a s r w) a = Some s'" "is_local s'" by blast
      have "good (with_peer a s r w)" using l(2) by (simp add: goes_def)
      from safe_but_mono [OF ack_goes [OF this l(3,4), of F "p_env pr" x] subset_refl goes_trans [OF l(2)]] l(1) s None
      show ?thesis by simp
    next
      case (Some b)
      with wf_peerD [OF wf s(1)] obtain ps where "w_heap w b = Some ps" by auto
      with Some s g ack_goes [OF g s(1,2)] show ?thesis by simp
    qed
  qed
  show ?thesis
    using t g f(1) send_close_ok [OF g t, of F] acked main
    by (auto simp: handle_okay_def trans_def split: option.splits)
qed

lemma handle_clse_ok:
  assumes g: "good w" and t: "w_transports w t = Some tr"
  shows "safe_but F (goes w) (handle_clse pr t p w)"
proof -
  have wf: "wf_world None w" using g by (simp add: good_def)
  from find_local_socket_ok [OF g, of "arg1 (msg p)" "arg0 (msg p)"] obtain so where
    f: "find_local_socket (arg1 (msg p)) (arg0 (msg p)) w = Inr so"
      "\<And>a. so = Some a \<Longrightarrow> \<exists>s. w_heap w a = Some s \<and> is_local s \<and> \<not> s_closing s" by blast
  have cl: "safe_but F (goes w) (s_do_close (p_env pr) a w)" if "w_heap w a = Some s" for a s
    using safe_but_safe [OF close_good [OF g that, of "p_env pr"]] by (rule safe_but_mono) (auto simp: goes_def)
  have main: "safe_but F (goes w) (rbind (sock a w) (\<lambda>s.
             rbind (case s_peer s of
                      None \<Rightarrow> Inr False
                    | Some b \<Rightarrow> rbind (sock b w) (\<lambda>ps. Inr (arg0 (msg p) = 0 \<and> s_transport ps \<noteq> Some t)))
               (\<lambda>foreign. if foreign then Inr w else s_do_close (p_env pr) a w)))" if a: "so = Some a" for a
  proof -
    from f(2) [OF a] obtain s where s: "w_heap w a = Some s" by auto
    show ?thesis
    proof (cases "s_peer s")
      case None
      with s cl [OF s] show ?thesis by simp
    next
      case (Some b)
      with wf_peerD [OF wf s(1)] obtain ps where "w_heap w b = Some ps" by auto
      with Some s g cl [OF s] show ?thesis by simp
    qed
  qed
  show ?thesis
    using t g f(1) main by (auto simp: handle_clse_def trans_def split: option.splits)
qed

lemma handle_wrte_ok:
  assumes env: "env_ok (p_env pr)" and g: "good w" and t: "w_transports w t = Some tr"
    and p: "wf_block (payload p)" "bposition (payload p) = 0"
  shows "safe_but F (goes w) (handle_wrte pr t p w)"
proof -
  have wf: "wf_world None w" using g by (simp add: good_def)
  from find_local_socket_ok [OF g, of "arg1 (msg p)" "arg0 (msg p)"] obtain so where
    f: "find_local_socket (arg1 (msg p)) (arg0 (msg p)) w = Inr so"
      "\<And>a. so = Some a \<Longrightarrow> \<exists>s. w_heap w a = Some s \<and> is_local s \<and> \<not> s_closing s" by blast
  have eq: "fst (block_move_construct (payload p)) = payload p" by (simp add: block_move_construct_def)
  have main: "safe_but F (goes w) (rbind (s_do_enqueue (p_env pr) (p_lb pr) (p_hs pr) a (payload p) w) (\<lambda>(_, w1). Inr w1))"
    if a: "so = Some a" for a
  proof -
    from f(2) [OF a] obtain s where s: "w_heap w a = Some s" "is_local s" "\<not> s_closing s" by auto
    have "safe_but F (\<lambda>(r, w'). goes w w') (local_socket_enqueue (p_env pr) a (payload p) w)"
    proof (rule safe_but_mono [OF safe_but_safe [OF local_socket_enqueue_ok [OF env wf s(1,2) p]] subset_refl], clarify)
      fix w' res
      assume fl: "flushed (p_env pr) a s (iov_bytes (s_packet_queue s) @ block_bytes (payload p)) w (res, w')"
      show "goes w w'"
      proof (cases "res = Destroyed")
        case True
        then show ?thesis using fl s(3) by (simp add: flushed_def)
      next
        case False
        then show ?thesis by (rule goes_keeps [OF g flushed_keeps [OF fl s(1)]])
      qed
    qed
    then have "safe_but F (goes w) (rbind (local_socket_enqueue (p_env pr) a (payload p) w) (\<lambda>(_, w1). Inr w1))"
      by (rule safe_but_rbind) auto
    then show ?thesis using s by (simp add: s_do_enqueue_def is_local_def)
  qed
  show ?thesis
    using t g f(1) main by (auto simp: handle_wrte_def trans_def eq split: option.splits)
qed


subsection \<open>The packet handler is safe\<close>

text \<open>What the environment promises: libbase as documented, \<open>writev\<close> does not claim more than it was
  given, the list of private keys ends with its null element, and \<open>libadbd_auth\<close> gives an identifier
  when it prompts.\<close>

definition params_ok :: "params \<Rightarrow> bool" where
  "params_ok pr \<longleftrightarrow> libbase_ok (p_lb pr) \<and> env_ok (p_env pr) \<and> p_private_keys pr \<noteq> []
     \<and> (\<forall>k a. p_prompt_user pr k a \<noteq> None)"

text \<open>What the packet readers deliver.\<close>

definition packet_ok :: "apacket \<Rightarrow> bool" where
  "packet_ok p \<longleftrightarrow> wf_block (payload p) \<and> bposition (payload p) = 0 \<and> bsize (payload p) = unat (data_length (msg p))"

definition reads_c_string :: "params \<Rightarrow> apacket \<Rightarrow> bool" where
  "reads_c_string pr p \<longleftrightarrow>
     (if p_adb_host pr then command (msg p) = A_OPEN
      else command (msg p) = A_AUTH \<and> arg0 (msg p) = ADB_AUTH_RSAPUBLICKEY)"

lemma handle_stls_ok:
  assumes g: "state_ok g" and t: "w_transports (g_world g) t = Some tr"
  shows "safe_but F (follows g) (handle_stls pr t g)"
proof -
  let ?tr = "tr\<lparr>t_use_tls := True\<rparr>"
  have f: "follows g (g_set_trans t ?tr g)"
    by (rule follows_set_trans [OF g t]) (use max_payload_of [OF g t] auth_ok_of [OF g t] in simp_all)
  from safe_follows_from [OF f send_tls_request_ok [OF follows_state [OF f]], of t ?tr F pr]
    follows_more [OF f, of "adbd_auth_tls_handshake t (g_set_trans t ?tr g)"] t
  show ?thesis by (simp add: handle_stls_def adbd_auth_tls_handshake_def)
qed

lemma commands_distinct [simp]:
  "A_STLS \<noteq> A_CNXN" "A_AUTH \<noteq> A_CNXN" "A_OPEN \<noteq> A_CNXN" "A_OKAY \<noteq> A_CNXN" "A_CLSE \<noteq> A_CNXN" "A_WRTE \<noteq> A_CNXN"
  "A_AUTH \<noteq> A_STLS" "A_OPEN \<noteq> A_STLS" "A_OKAY \<noteq> A_STLS" "A_CLSE \<noteq> A_STLS" "A_WRTE \<noteq> A_STLS"
  "A_OPEN \<noteq> A_AUTH" "A_OKAY \<noteq> A_AUTH" "A_CLSE \<noteq> A_AUTH" "A_WRTE \<noteq> A_AUTH"
  "A_OKAY \<noteq> A_OPEN" "A_CLSE \<noteq> A_OPEN" "A_WRTE \<noteq> A_OPEN" "A_CLSE \<noteq> A_OKAY" "A_WRTE \<noteq> A_OKAY" "A_WRTE \<noteq> A_CLSE"
  by (simp_all add: A_STLS_def A_CNXN_def A_AUTH_def A_OPEN_def A_OKAY_def A_CLSE_def A_WRTE_def)

lemma handle_packet_ok:
  assumes pr: "params_ok pr" and g: "state_ok g" and t: "w_transports (g_world g) t = Some tr" and p: "packet_ok p"
    and n: "plain_service pr t (g_world g) (open_address p)" and c: "reads_c_string pr p \<Longrightarrow> terminated p"
  shows "step_ok {Fatal} g (handle_packet pr p t g)"
proof -
  have lb: "libbase_ok (p_lb pr)" and env: "env_ok (p_env pr)" and ks: "p_private_keys pr \<noteq> []"
    and i: "\<And>k a. p_prompt_user pr k a \<noteq> None" using pr by (auto simp: params_ok_def)
  have pb: "wf_block (payload p)" "bposition (payload p) = 0" "bsize (payload p) = unat (data_length (msg p))"
    using p by (simp_all add: packet_ok_def)
  note gg = state_goodD(1) [OF g]
  have w: "safe_but {Fatal} (follows g) (on_world f g)" if "safe_but {Fatal} (goes (g_world g)) (f (g_world g))" for f
    by (rule safe_on_world [OF g]) (use that in \<open>simp add: goes_def [abs_def]\<close>)
  have o: "safe_but {Fatal} (goes (g_world g)) (handle_open pr t p (g_world g))" if "command (msg p) = A_OPEN"
    by (rule handle_open_ok [OF gg t n]) (use c that in \<open>auto simp: reads_c_string_def\<close>)
  have a: "step_ok {Fatal} g (handle_auth pr t p g)" if "command (msg p) = A_AUTH"
    by (rule handle_auth_ok [OF g t ks i]) (use c that in \<open>auto simp: reads_c_string_def\<close>)
  show ?thesis
    using pb(3) handle_new_connection_ok [OF lb g t] handle_stls_ok [OF g t] a o g
      handle_okay_ok [OF gg t pb(1)] handle_clse_ok [OF gg t] handle_wrte_ok [OF env gg t pb(1,2)]
    by (simp add: handle_packet_def w)
qed


definition example_env :: env where
  "example_env = \<lparr>e_writev = (\<lambda>a n. Wrote (min n 100)), e_reads = (\<lambda>a. []), e_send_ok = (\<lambda>t. True), e_fresh = (\<lambda>n. CHR 0x00)\<rparr>"

definition example_params :: "bool \<Rightarrow> params" where
  "example_params adb_host = \<lparr>p_env = example_env, p_lb = libbase_ref, p_adb_host = adb_host, p_auth_required = True,
     p_supported = [''shell_v2''], p_GetProperty = (\<lambda>p. ''x''), p_adb_device_banner = ''device'',
     p_hs = \<lparr>h_request = (\<lambda>s ty ser i w. (Unhandled, [], None)), h_service = (\<lambda>s ser i. None)\<rparr>,
     p_service_to_socket = (\<lambda>n t w. None), p_service_to_fd = (\<lambda>n t. Some 40), p_getuid = 2000, p_debuggable = False,
     p_urandom = replicate 20 CHR ''r'', p_public_keys = [''key adb@host''], p_pubkey_decode = (\<lambda>s. if s = ''key'' then Some 1 else None),
     p_RSA_verify = (\<lambda>token sig k. sig = ''signed by 1'' \<and> k = 1), p_notify_auth = (\<lambda>k. 5), p_tls_device_connected = (\<lambda>k. 6),
     p_prompt_user = (\<lambda>k a. Some 7), p_private_keys = [Some 1, None], p_RSA_sign = (\<lambda>k token. Some ''signed by 1''),
     p_userkey = ''key adb@host''\<rparr>"

definition example_state :: adb_state where
  "example_state = \<lparr>g_world = example_world, g_active_connections = 2, g_watchdog_running = False,
     g_callbacks = (\<lambda>i. None), g_transport_auth_id = 0, g_disconnected = []\<rparr>"

lemma example_params_ok: "params_ok (example_params h)"
  by (simp add: params_ok_def example_params_def libbase_ok_ref env_ok_def example_env_def min_less_iff_disj)

lemma example_state_ok: "state_ok example_state"
  using example_good
  by (auto simp: state_ok_def example_state_def example_world_def auth_ok_def new_atransport_def)

lemma example_transport: "w_transports (g_world example_state) 0 = Some ((new_atransport 1 kTransportUsb kCsDevice)\<lparr>t_online := True\<rparr>)"
  by (simp add: example_state_def example_world_def)

text \<open>Two bytes for the first stream.\<close>

definition example_write :: apacket where
  "example_write = \<lparr>msg = (msg (header_packet A_WRTE 7 1))\<lparr>data_length := 2\<rparr>, payload = block_of ''hi''\<rparr>"

lemma example_write_ok: "packet_ok example_write" "\<not> reads_c_string pr example_write"
  by (simp_all add: packet_ok_def example_write_def reads_c_string_def header_packet_def)


end
