(* ===== verification/Auth_Protocol.thy ===== *)
theory Auth_Protocol
  imports Handler_Safety
begin

text \<open>
  What the handshake achieves: the daemon goes online only for a verified signature, a peer that is
  not online reaches no stream, the host tries its keys one after the other and then offers its public
  key, and host and daemon with a common key end up online. Then the places where the code does
  something else than it means to.
\<close>

subsection \<open>Nothing but a signature brings a transport online\<close>

definition online :: "tptr \<Rightarrow> adb_state \<Rightarrow> bool" where
  "online t g \<longleftrightarrow> (case w_transports (g_world g) t of None \<Rightarrow> False | Some tr \<Rightarrow> t_online tr)"

text \<open>No transport goes online from \<open>g\<close> to \<open>g'\<close>.\<close>

definition no_rise :: "adb_state \<Rightarrow> adb_state \<Rightarrow> bool" where
  "no_rise g g' \<longleftrightarrow> follows g g' \<and> (\<forall>t. online t g' \<longrightarrow> online t g)"

lemma no_rise_trans: "no_rise g g' \<Longrightarrow> no_rise g' g'' \<Longrightarrow> no_rise g g''"
  using follows_trans by (auto simp: no_rise_def)

lemma no_rise_set:
  assumes "state_ok g" "w_transports (g_world g) t = Some tr" "follows g (g_set_trans t tr' g)" "t_online tr' \<longrightarrow> t_online tr"
  shows "no_rise g (g_set_trans t tr' g)"
  using assms by (auto simp: no_rise_def online_def split: if_splits)

lemma no_rise_sent:
  assumes "state_ok g" "w_transports (g_world g) t = Some tr" "follows g (g_set_trans t tr' g)" "sent_on p tr tr'"
  shows "no_rise g (g_set_trans t tr' g)"
  using no_rise_set [OF assms(1-3)] sent_on_ext [OF assms(4)] by (simp add: tr_ext_def)

lemma no_rise_set_ok:
  assumes g: "state_ok g" and t: "w_transports (g_world g) t = Some tr" and tr': "t_max_payload tr' \<le> MAX_PAYLOAD" "auth_ok tr'"
    "t_online tr' \<longrightarrow> t_online tr"
  shows "no_rise g (g_set_trans t tr' g)"
  by (rule no_rise_set [OF g t follows_set_trans [OF g t tr'(1,2)] tr'(3)])

lemma no_rise_world:
  assumes g: "state_ok g" and w: "good w" "trans_ext (g_world g) w"
  shows "no_rise g (g\<lparr>g_world := w\<rparr>)"
proof -
  have "online t g" if "online t (g\<lparr>g_world := w\<rparr>)" for t
  proof -
    from that obtain tr' where "w_transports w t = Some tr'" "t_online tr'" by (auto simp: online_def split: option.splits)
    moreover have "rel_option tr_ext (w_transports (g_world g) t) (w_transports w t)" using w(2) by (simp add: trans_ext_def)
    ultimately show ?thesis by (auto simp: option_rel_Some2 tr_ext_def online_def)
  qed
  with follows_world [OF g w] show ?thesis by (simp add: no_rise_def)
qed

lemma no_rise_more: "no_rise g g' \<Longrightarrow> g_world g'' = g_world g' \<Longrightarrow> no_rise g g''"
  using follows_more by (auto simp: no_rise_def online_def)

lemma no_rise_refl [simp]: "state_ok g \<Longrightarrow> no_rise g g"
  by (simp add: no_rise_def)

lemma no_rise_state: "no_rise g g' \<Longrightarrow> state_ok g'"
  by (auto simp: no_rise_def follows_state)

lemma no_rise_alive: "no_rise g g' \<Longrightarrow> w_transports (g_world g) t = Some tr \<Longrightarrow> \<exists>tr'. w_transports (g_world g') t = Some tr'"
  by (auto simp: no_rise_def dest: follows_alive)

lemma g_set_trans_twice [simp]: "g_set_trans t tr (g_set_trans t tr' g) = g_set_trans t tr g"
  by (simp add: g_set_trans_def set_trans_def)

lemma send_tls_request_no_rise:
  assumes "state_ok g" "w_transports (g_world g) t = Some tr" "send_tls_request pr t g = Inr g'"
  shows "no_rise g g'"
  using g_send_ok [OF assms(1,2) sendable_header, of pr A_STLS A_STLS_VERSION 0] no_rise_sent [OF assms(1,2)] assms(3)
  by (auto simp: send_tls_request_def)

lemma send_auth_request_no_rise:
  assumes g: "state_ok g" and t: "w_transports (g_world g) t = Some tr" and s: "send_auth_request pr t g = Inr g'"
  shows "no_rise g g'"
proof -
  obtain token okay where k: "adbd_auth_generate_token (p_urandom pr) (t_token tr) = (token, okay)" by fastforce
  let ?tr = "tr\<lparr>t_token := token\<rparr>"
  have n: "no_rise g (g_set_trans t ?tr g)"
    by (rule no_rise_set_ok [OF g t]) (use max_payload_of [OF g t] auth_ok_of [OF g t] in auto)
  have t1: "w_transports (g_world (g_set_trans t ?tr g)) t = Some ?tr" by simp
  show ?thesis
  proof (cases okay)
    case False
    with n s t k show ?thesis by (simp add: send_auth_request_def Let_def)
  next
    case True
    from send_auth_ok [OF no_rise_state [OF n] t1, of pr ADB_AUTH_TOKEN token] s t k True
    obtain tr' p where "g' = g_set_trans t tr' (g_set_trans t ?tr g)" "follows (g_set_trans t ?tr g) g'" "sent_on p ?tr tr'"
      by (auto simp: send_auth_request_def Let_def)
    with no_rise_trans [OF n no_rise_sent [OF no_rise_state [OF n] t1]] show ?thesis by blast
  qed
qed

lemma handle_offline_no_rise:
  assumes g: "state_ok g" and t: "w_transports (g_world g) t = Some tr" and s: "handle_offline pr t g = Some (Inr g')"
  shows "no_rise g g'"
proof (cases "t_connection_state tr = kCsOffline")
  case True
  with s t g show ?thesis by (simp add: handle_offline_def)
next
  case False
  define g1 where "g1 = (if p_adb_host pr then g else DecrementActiveConnections g)"
  let ?tr = "(SetConnectionState kCsOffline tr)\<lparr>t_online := False\<rparr>"
  define g2 where "g2 = g_set_trans t ?tr g1"
  have w1: "g_world g1 = g_world g" by (simp add: g1_def)
  have n2: "no_rise g g2"
    using no_rise_more [OF no_rise_set_ok [OF g t, of ?tr]] max_payload_of [OF g t] auth_ok_of [OF g t] w1
    by (simp add: g2_def)
  note step = handle_offline_step [OF t False, of pr, folded g1_def, folded g2_def]
  from close_all_sockets_ok [OF state_goodD(1) [OF no_rise_state [OF n2]], of "p_env pr" t] s step obtain w
    where w: "close_all_sockets (p_env pr) t (g_world g2) = Some (Inr w)" "all_closed t (g_world g2) w"
    by (auto split: sum.splits option.splits)
  have n3: "no_rise g (g2\<lparr>g_world := w\<rparr>)"
    using no_rise_trans [OF n2 no_rise_world [OF no_rise_state [OF n2]]] w(2) by (simp add: all_closed_def)
  from no_rise_alive [OF n3 t] obtain tr3 where t3: "w_transports w t = Some tr3" by auto
  let ?g3 = "g2\<lparr>g_world := w\<rparr>" and ?tr4 = "tr3\<lparr>t_disconnects := []\<rparr>"
  have s3: "state_ok ?g3" by (rule no_rise_state [OF n3])
  have t3': "w_transports (g_world ?g3) t = Some tr3" using t3 by simp
  have n4: "no_rise ?g3 (g_set_trans t ?tr4 ?g3)"
    by (rule no_rise_set_ok [OF s3 t3']) (use max_payload_of [OF s3 t3'] in auto)
  have "run_callbacks (t_disconnects tr3) t (g_set_trans t ?tr4 ?g3) = Inr g'" using s step w t3 by (simp add: g_trans_def trans_def)
  moreover have "run_callbacks (t_disconnects tr3) t (g_set_trans t ?tr4 ?g3)
      = Inr ((g_set_trans t ?tr4 ?g3)\<lparr>g_disconnected := g_disconnected (g_set_trans t ?tr4 ?g3) @ map (\<lambda>c. (c, t)) (t_disconnects tr3)\<rparr>)"
    by (rule run_callbacks_ok [where tr = ?tr4]) (use auth_ok_of [OF s3 t3'] in \<open>auto simp: auth_ok_def\<close>)
  ultimately show ?thesis by (intro no_rise_more [OF no_rise_trans [OF n3 n4]]) auto
qed


lemma new_connection_no_rise:
  assumes lb: "libbase_ok (p_lb pr)" and d: "\<not> p_adb_host pr" "p_auth_required pr"
    and g: "state_ok g" and t: "w_transports (g_world g) t = Some tr"
    and s: "handle_new_connection pr t p g = Some (Inr g')"
  shows "no_rise g g'"
proof -
  from s obtain g1 where g1: "handle_offline pr t g = Some (Inr g1)"
    by (auto simp: handle_new_connection_def obind_def split: option.splits sum.splits)
  have n1: "no_rise g g1" by (rule handle_offline_no_rise [OF g t g1])
  from no_rise_alive [OF n1 t] obtain tr1 where t1: "w_transports (g_world g1) t = Some tr1" by auto
  let ?tr2 = "update_version (arg0 (msg p)) (arg1 (msg p)) tr1"
  from parse_banner_ok [OF lb, of "p_supported pr" "block_bytes (payload p)" ?tr2] obtain tr3
    where tr3: "parse_banner (p_lb pr) (p_supported pr) (block_bytes (payload p)) ?tr2 = Inr tr3"
      "t_max_payload tr3 = t_max_payload ?tr2" "t_disconnects tr3 = t_disconnects tr1" "t_auth_id tr3 = t_auth_id tr1"
      "t_online tr3 = t_online tr1" by (auto simp: update_version_def)
  let ?g3 = "g_set_trans t tr3 g1"
  have n3: "no_rise g1 ?g3"
    by (rule no_rise_set_ok [OF no_rise_state [OF n1] t1])
       (use auth_ok_of [OF no_rise_state [OF n1] t1] tr3 in \<open>auto simp: auth_ok_def update_version_def\<close>)

  have "(if t_use_tls tr3 then send_tls_request pr t ?g3 else send_auth_request pr t ?g3) = Inr g'"
    using s g1 t1 tr3(1) d by (auto simp: handle_new_connection_def obind_def Let_def split: if_splits)
  then have "no_rise ?g3 g'"
    using send_tls_request_no_rise [OF no_rise_state [OF n3], of t tr3 pr g']
      send_auth_request_no_rise [OF no_rise_state [OF n3], of t tr3 pr g'] by (auto split: if_splits)
  with no_rise_trans [OF n1 no_rise_trans [OF n3]] show ?thesis by blast
qed

lemma confirm_key_no_rise:
  assumes g: "state_ok g" and t: "w_transports (g_world g) t = Some tr" and i: "\<And>k a. p_prompt_user pr k a \<noteq> None"
    and s: "adbd_auth_confirm_key pr t g = Inr g'"
  shows "no_rise g g'"
proof -
  from adbd_auth_confirm_key_ok [OF g t i, where F = "{}"] s have f: "follows g g'" by simp
  have "online t' g' = online t' g" for t'
    using s t by (auto simp: adbd_auth_confirm_key_def transport_to_callback_arg_def Let_def AddDisconnect_def online_def
        g_set_trans_def set_trans_def g_mod_trans_def g_trans_def trans_def split: option.splits if_splits)
  with f show ?thesis by (simp add: no_rise_def)
qed

lemma not_online_ignored:
  assumes "w_transports w t = Some tr" "\<not> t_online tr"
  shows "handle_open pr t p w = Inr w" "handle_okay pr t p w = Inr w" "handle_clse pr t p w = Inr w"
    "handle_wrte pr t p w = Inr w"
  using assms by (simp_all add: handle_open_def handle_okay_def handle_clse_def handle_wrte_def trans_def)

lemma first_key_Some: "first_key P ks = Some k \<Longrightarrow> k \<in> set ks \<and> P k"
  by (induction ks) (auto split: if_splits)

lemma adbd_auth_verify_Some:
  "adbd_auth_verify pr token sig = Some key \<Longrightarrow>
     key \<in> set (p_public_keys pr) \<and> (\<exists>k. decode_public_key pr key = Some k \<and> p_RSA_verify pr token sig k)"
  using first_key_Some [of _ "p_public_keys pr" key] by (force simp: adbd_auth_verify_def split: option.splits)

lemma auth_rejected_no_rise:
  assumes d: "\<not> p_adb_host pr" and i: "\<And>k a. p_prompt_user pr k a \<noteq> None"
    and g: "state_ok g" and t: "w_transports (g_world g) t = Some tr"
    and rej: "arg0 (msg p) = ADB_AUTH_SIGNATURE \<Longrightarrow> adbd_auth_verify pr (t_token tr) (block_bytes (payload p)) = None"
    and c: "handle_auth pr t p g = Some (Inr g')"
  shows "no_rise g g'"
proof -
  note b = max_payload_of [OF g t] auth_ok_of [OF g t]
  have set: "no_rise g (g_set_trans t tr' g)" if "t_max_payload tr' = t_max_payload tr" "auth_ok tr'" "t_online tr' = t_online tr" for tr'
    by (rule no_rise_set_ok [OF g t]) (use that b in auto)
  consider (tls) "t_use_tls tr" | (sig) "\<not> t_use_tls tr" "arg0 (msg p) = ADB_AUTH_SIGNATURE"
    | (key) "\<not> t_use_tls tr" "arg0 (msg p) = ADB_AUTH_RSAPUBLICKEY" "arg0 (msg p) \<noteq> ADB_AUTH_SIGNATURE"
    | (bad) "\<not> t_use_tls tr" "arg0 (msg p) \<noteq> ADB_AUTH_SIGNATURE" "arg0 (msg p) \<noteq> ADB_AUTH_RSAPUBLICKEY" by blast
  then show ?thesis
  proof cases
    case tls
    then show ?thesis using c t g by (simp add: handle_auth_def)
  next
    case sig
    let ?tr = "tr\<lparr>t_failed_auth_attempts := t_failed_auth_attempts tr + 1\<rparr>"
    have s: "send_auth_request pr t (g_set_trans t ?tr g) = Inr g'" using sig rej c t d by (simp add: handle_auth_def)
    have n: "no_rise g (g_set_trans t ?tr g)" by (rule set) (use b in auto)
    show ?thesis by (rule no_rise_trans [OF n send_auth_request_no_rise [OF no_rise_state [OF n] _ s]]) simp
  next
    case key
    with c t d obtain k where s: "adbd_auth_confirm_key pr t (g_set_trans t (tr\<lparr>t_auth_key := k\<rparr>) g) = Inr g'"
      by (auto simp: handle_auth_def rbind_eq_Inr)
    have n: "no_rise g (g_set_trans t (tr\<lparr>t_auth_key := k\<rparr>) g)" by (rule set) (use b in auto)
    show ?thesis by (rule no_rise_trans [OF n confirm_key_no_rise [OF no_rise_state [OF n] _ i s]]) simp
  next
    case bad
    with c t d have "g' = g_set_trans t (SetConnectionState kCsOffline tr) g"
      by (simp add: handle_auth_def handle_offline_def)
    with set [of "SetConnectionState kCsOffline tr"] b show ?thesis by simp
  qed
qed

text \<open>
  C3: on a daemon that requires authentication, one packet brings a transport online only if it is
  an \<open>A_AUTH\<close> packet with a signature of the token last sent to that peer, under one of the keys
  the device knows. No other packet does, whatever it contains.
\<close>

theorem authentication_gate:
  assumes pr: "params_ok pr" "\<not> p_adb_host pr" "p_auth_required pr"
    and g: "state_ok g" and t: "w_transports (g_world g) t = Some tr" "\<not> t_online tr"
    and s: "handle_packet pr p t g = Some (Inr g')" "online t g'"
  shows "command (msg p) = A_AUTH \<and> arg0 (msg p) = ADB_AUTH_SIGNATURE
     \<and> (\<exists>key\<in>set (p_public_keys pr). \<exists>k. decode_public_key pr key = Some k
          \<and> p_RSA_verify pr (t_token tr) (block_bytes (payload p)) k)"
proof (rule ccontr)
  assume no: "\<not> ?thesis"
  have lb: "libbase_ok (p_lb pr)" and i: "\<And>k a. p_prompt_user pr k a \<noteq> None" using pr by (auto simp: params_ok_def)
  have off: "\<not> online t g" using t by (simp add: online_def)
  have rej: "adbd_auth_verify pr (t_token tr) (block_bytes (payload p)) = None"
    if "command (msg p) = A_AUTH" "arg0 (msg p) = ADB_AUTH_SIGNATURE"
  proof (rule ccontr)
    assume "adbd_auth_verify pr (t_token tr) (block_bytes (payload p)) \<noteq> None"
    with adbd_auth_verify_Some [of pr] no that show False by fastforce
  qed
  have stls: "no_rise g g'" if "handle_stls pr t g = Inr g'"
    using no_rise_more [OF no_rise_set_ok [OF g t(1), of "tr\<lparr>t_use_tls := True\<rparr>"], of g'] that t pr
      max_payload_of [OF g t(1)] auth_ok_of [OF g t(1)]
    by (auto simp: handle_stls_def adbd_auth_tls_handshake_def)
  have "no_rise g g'"
    using s(1) auth_rejected_no_rise [OF pr(2) i g t(1) rej] stls new_connection_no_rise [OF lb pr(2,3) g t(1)] t g
    by (simp add: handle_packet_def on_world_def not_online_ignored split: if_splits)
  with off s(2) show False by (simp add: no_rise_def)
qed


text \<open>A third device that has been sent a token of twenty \<open>r\<close>, and its answer.\<close>

definition example_unauthenticated :: atransport where
  "example_unauthenticated = (new_atransport 3 kTransportUsb kCsHost)\<lparr>t_token := replicate 20 CHR ''r''\<rparr>"

definition example_daemon :: adb_state where
  "example_daemon = g_set_trans 2 example_unauthenticated example_state"

definition example_signature :: apacket where
  "example_signature = \<lparr>msg = (msg (header_packet A_AUTH ADB_AUTH_SIGNATURE 0))\<lparr>data_length := 11\<rparr>,
     payload = block_of ''signed by 1''\<rparr>"

lemma example_daemon_ok: "state_ok example_daemon"
  unfolding example_daemon_def
  by (rule state_ok_set_trans [OF example_state_ok]) (simp_all add: example_unauthenticated_def new_atransport_def auth_ok_def)

lemma example_verified:
  "adbd_auth_verify (example_params False) token ''signed by 1'' = Some ''key adb@host''"
  by (simp add: adbd_auth_verify_def example_params_def decode_public_key_def)

lemma example_banner: "length (our_banner (example_params False)) \<le> MAX_PAYLOAD_V1"
  by (simp add: our_banner_def example_params_def get_connection_string_def libbase_ref_def FeatureSetToString_def MAX_PAYLOAD_V1_def)

text \<open>What is known of a transport after one packet was sent on it.\<close>

lemma sent_onD:
  assumes "sent_on p tr tr'"
  shows "\<exists>q. t_outgoing tr' = t_outgoing tr @ [q] \<and> command (msg q) = command (msg p) \<and> arg0 (msg q) = arg0 (msg p)
     \<and> arg1 (msg q) = arg1 (msg p) \<and> data_length (msg q) = data_length (msg p) \<and> payload q = payload p"
  using assms by (auto simp: sent_on_def transport_Kick_def)

text \<open>An accepted signature: the transport is online and was sent the banner.\<close>

definition welcomed :: "params \<Rightarrow> atransport \<Rightarrow> atransport \<Rightarrow> bool" where
  "welcomed pr tr tr' \<longleftrightarrow> (\<exists>q. t_outgoing tr' = t_outgoing tr @ [q] \<and> command (msg q) = A_CNXN
     \<and> arg0 (msg q) = A_VERSION \<and> arg1 (msg q) = of_nat (t_max_payload tr)
     \<and> data_length (msg q) = of_nat (length (our_banner pr)) \<and> payload q = block_of (our_banner pr))"

lemma adbd_auth_verified_online:
  assumes d: "\<not> p_adb_host pr" and g: "state_ok g" and t: "w_transports (g_world g) t = Some tr"
    and n: "length (our_banner pr) \<le> MAX_PAYLOAD_V1"
  shows "\<exists>g' tr'. adbd_auth_verified pr t g = Inr g' \<and> follows g g' \<and> w_transports (g_world g') t = Some tr'
     \<and> t_online tr' \<and> welcomed pr tr tr'"
proof -
  let ?tr = "tr\<lparr>t_online := True\<rparr>"
  define g1 where "g1 = IncrementActiveConnections (g_set_trans t ?tr g)"
  have h: "handle_online pr t g = Inr g1" using d t by (simp add: handle_online_def g1_def)
  then have f1: "follows g g1" using handle_online_ok [OF g t, of pr] by auto
  have t1: "w_transports (g_world g1) t = Some ?tr" by (simp add: g1_def)
  from send_connect_eq [OF follows_state [OF f1] t1 n] obtain g2 tr2 p where
    s: "send_connect pr t g1 = Inr g2" "follows g1 g2" "g2 = g_set_trans t tr2 g1" "sent_on p ?tr tr2"
      "command (msg p) = A_CNXN" "arg0 (msg p) = A_VERSION" "arg1 (msg p) = of_nat (t_max_payload ?tr)"
      "payload p = block_of (our_banner pr)" "data_length (msg p) = of_nat (length (our_banner pr))" by blast
  have "welcomed pr tr tr2" using sent_onD [OF s(4)] s(5-9) by (auto simp: welcomed_def)
  moreover have "t_online tr2" using sent_on_ext [OF s(4)] by (simp add: tr_ext_def)
  ultimately show ?thesis using h s follows_trans [OF f1] by (auto simp: adbd_auth_verified_def)
qed

lemma accepted_online:
  assumes d: "\<not> p_adb_host pr" and g: "state_ok g" and t: "w_transports (g_world g) t = Some tr" "\<not> t_use_tls tr"
    and p: "command (msg p) = A_AUTH" "arg0 (msg p) = ADB_AUTH_SIGNATURE" "bsize (payload p) = unat (data_length (msg p))"
    and v: "adbd_auth_verify pr (t_token tr) (block_bytes (payload p)) = Some key"
    and n: "length (our_banner pr) \<le> MAX_PAYLOAD_V1"
  shows "\<exists>g' tr'. handle_packet pr p t g = Some (Inr g') \<and> follows g g' \<and> w_transports (g_world g') t = Some tr'
     \<and> t_online tr' \<and> t_auth_key tr' = key \<and> t_auth_id tr' = Some (p_notify_auth pr key) \<and> welcomed pr tr tr'"
proof -
  from adbd_auth_verified_online [OF d g t(1) n] obtain g1 tr1 where
    v1: "adbd_auth_verified pr t g = Inr g1" "follows g g1" "w_transports (g_world g1) t = Some tr1" "t_online tr1"
      "welcomed pr tr tr1" by blast
  let ?tr = "tr1\<lparr>t_failed_auth_attempts := 0, t_auth_key := key, t_auth_id := Some (p_notify_auth pr key)\<rparr>"
  have "handle_packet pr p t g = Some (Inr (g_set_trans t ?tr g1))"
    using p t d v v1 by (simp add: handle_packet_def handle_auth_def adbd_notify_framework_connected_key_def)
  moreover have "follows g (g_set_trans t ?tr g1)"
    by (rule follows_trans [OF v1(2) follows_set_trans [OF follows_state [OF v1(2)] v1(3)]])
       (use max_payload_of [OF follows_state [OF v1(2)] v1(3)] in simp_all)
  ultimately show ?thesis using v1(4,5) by (simp add: welcomed_def)
qed

theorem authentication_gate_witness:
  "\<exists>g'. handle_packet (example_params False) example_signature 2 example_daemon = Some (Inr g') \<and> online 2 g'
     \<and> command (msg example_signature) = A_AUTH \<and> arg0 (msg example_signature) = ADB_AUTH_SIGNATURE
     \<and> (\<exists>key\<in>set (p_public_keys (example_params False)). \<exists>k. decode_public_key (example_params False) key = Some k
          \<and> p_RSA_verify (example_params False) (replicate 20 CHR ''r'') (block_bytes (payload example_signature)) k)"
proof -
  have d: "\<not> p_adb_host (example_params False)" "p_auth_required (example_params False)" by (simp_all add: example_params_def)
  have t: "w_transports (g_world example_daemon) 2 = Some example_unauthenticated" by (simp add: example_daemon_def)
  have e: "\<not> t_online example_unauthenticated" "\<not> t_use_tls example_unauthenticated"
    "t_token example_unauthenticated = replicate 20 CHR ''r''" by (simp_all add: example_unauthenticated_def new_atransport_def)
  have p: "command (msg example_signature) = A_AUTH" "arg0 (msg example_signature) = ADB_AUTH_SIGNATURE"
    "bsize (payload example_signature) = unat (data_length (msg example_signature))"
    "block_bytes (payload example_signature) = ''signed by 1''" by (simp_all add: example_signature_def header_packet_def)
  from accepted_online [OF d(1) example_daemon_ok t e(2) p(1-3) _ example_banner, of "''key adb@host''"] obtain g' where
    g': "handle_packet (example_params False) example_signature 2 example_daemon = Some (Inr g')" "online 2 g'"
    by (auto simp: p(4) example_verified online_def)
  from authentication_gate [OF example_params_ok d example_daemon_ok t e(1) g'] g' show ?thesis unfolding e(3) by blast
qed


lemma outgoing_state [simp]:
  "t_outgoing (SetConnectionState s tr) = t_outgoing tr" "t_outgoing (SetConnectionEstablished b tr) = t_outgoing tr"
  "t_connection_state (SetConnectionEstablished b tr) = t_connection_state tr"
  by (simp_all add: SetConnectionState_def SetConnectionEstablished_def)

subsection \<open>The keys of the host\<close>

text \<open>The packet \<open>A_AUTH\<close> that ends what was sent on a transport.\<close>

definition auth_sent :: "u32 \<Rightarrow> bytes \<Rightarrow> atransport \<Rightarrow> atransport \<Rightarrow> bool" where
  "auth_sent kind bs tr tr' \<longleftrightarrow> (\<exists>q. t_outgoing tr' = t_outgoing tr @ [q] \<and> command (msg q) = A_AUTH
     \<and> arg0 (msg q) = kind \<and> payload q = block_of bs \<and> data_length (msg q) = of_nat (length bs))"

lemma send_auth_sent:
  assumes g: "state_ok g" and t: "w_transports (g_world g) t = Some tr"
  shows "\<exists>g' tr'. rbind (auth_packet pr k bs) (\<lambda>p. g_send pr p t g) = Inr g' \<and> follows g g'
     \<and> g' = g_set_trans t tr' g \<and> auth_sent k bs tr tr' \<and> tr_ext tr tr'"
proof -
  from send_auth_ok [OF g t, of pr k bs] obtain g' tr' p where
    s: "rbind (auth_packet pr k bs) (\<lambda>p. g_send pr p t g) = Inr g'" "follows g g'" "g' = g_set_trans t tr' g" "sent_on p tr tr'"
      "command (msg p) = A_AUTH" "arg0 (msg p) = k" "payload p = block_of bs" "data_length (msg p) = of_nat (length bs)" by blast
  have "auth_sent k bs tr tr'" using sent_onD [OF s(4)] s(5-8) by (auto simp: auth_sent_def)
  with s sent_on_ext [OF s(4)] show ?thesis by blast
qed

text \<open>An \<open>A_AUTH\<close> packet with a token, as the host receives it.\<close>

definition token_packet :: "apacket \<Rightarrow> bytes \<Rightarrow> bool" where
  "token_packet p token \<longleftrightarrow> command (msg p) = A_AUTH \<and> arg0 (msg p) = ADB_AUTH_TOKEN \<and> block_bytes (payload p) = token
     \<and> bsize (payload p) = unat (data_length (msg p))"

definition next_keys :: "nat option list \<Rightarrow> nat option list \<Rightarrow> nat option list" where
  "next_keys fetched keys = (if keys = [] then fetched else tl keys)"

lemma transport_NextKey_eq:
  assumes "next_keys fetched (t_keys tr) = k # ks"
  shows "transport_NextKey fetched tr = Inr (k, tr\<lparr>t_keys := k # ks\<rparr>)"
  using assms by (simp add: transport_NextKey_def next_keys_def transport_Key_def split: if_splits)

lemma token_response:
  assumes h: "p_adb_host pr" and g: "state_ok g" and t: "w_transports (g_world g) t = Some tr" "\<not> t_use_tls tr"
    and p: "token_packet p token" and k: "next_keys (p_private_keys pr) (t_keys tr) = Some k # ks"
    and s: "adb_auth_sign pr k token = sig" "sig \<noteq> []"
  shows "\<exists>g' tr'. handle_packet pr p t g = Some (Inr g') \<and> follows g g' \<and> g' = g_set_trans t tr' g
     \<and> auth_sent ADB_AUTH_SIGNATURE sig tr tr' \<and> t_keys tr' = Some k # ks \<and> \<not> t_use_tls tr' \<and> t_connection_state tr' = kCsAuthorizing
     \<and> t_max_payload tr' = t_max_payload tr \<and> t_disconnects tr' = t_disconnects tr"
proof -
  let ?tr = "(SetConnectionState kCsAuthorizing tr)\<lparr>t_keys := Some k # ks\<rparr>"
  have f: "follows g (g_set_trans t ?tr g)"
    by (rule follows_set_trans [OF g t(1)]) (use max_payload_of [OF g t(1)] auth_ok_of [OF g t(1)] in simp_all)
  have st: "(if t_connection_state tr \<noteq> kCsAuthorizing then SetConnectionState kCsAuthorizing tr else tr)
      = SetConnectionState kCsAuthorizing tr" by (simp add: SetConnectionState_def)
  have k': "transport_NextKey (p_private_keys pr) (SetConnectionState kCsAuthorizing tr) = Inr (Some k, ?tr)"
    by (rule transport_NextKey_eq) (use k in simp)
  from send_auth_sent [OF follows_state [OF f], of t ?tr pr ADB_AUTH_SIGNATURE sig] obtain tr' where
    r: "rbind (auth_packet pr ADB_AUTH_SIGNATURE sig) (\<lambda>p. g_send pr p t (g_set_trans t ?tr g)) = Inr (g_set_trans t tr' g)"
      "follows (g_set_trans t ?tr g) (g_set_trans t tr' g)" "auth_sent ADB_AUTH_SIGNATURE sig ?tr tr'" "tr_ext ?tr tr'" by auto
  have "handle_packet pr p t g = Some (Inr (g_set_trans t tr' g))"
    using h t p s r(1) k' by (simp add: handle_packet_def handle_auth_def token_packet_def send_auth_response_def st)
  moreover have "auth_sent ADB_AUTH_SIGNATURE sig tr tr'" using r(3) by (simp add: auth_sent_def SetConnectionState_def)
  ultimately show ?thesis using follows_trans [OF f r(2)] r(4) t(2) by (auto simp: tr_ext_def SetConnectionState_def)
qed

lemma token_exhausted:
  assumes h: "p_adb_host pr" and g: "state_ok g" and t: "w_transports (g_world g) t = Some tr" "\<not> t_use_tls tr"
    and p: "token_packet p token" and k: "next_keys (p_private_keys pr) (t_keys tr) = None # ks"
    and u: "p_userkey pr \<noteq> []" "length (p_userkey pr) < MAX_PAYLOAD_V1"
  shows "\<exists>g' tr'. handle_packet pr p t g = Some (Inr g') \<and> follows g g' \<and> g' = g_set_trans t tr' g
     \<and> auth_sent ADB_AUTH_RSAPUBLICKEY (p_userkey pr @ [CHR 0x00]) tr tr' \<and> t_connection_state tr' = kCsUnauthorized"
proof -
  let ?tr1 = "(SetConnectionState kCsAuthorizing tr)\<lparr>t_keys := None # ks\<rparr>"
  let ?tr = "SetConnectionEstablished True (SetConnectionState kCsUnauthorized ?tr1)"
  have f: "follows g (g_set_trans t ?tr g)"
    by (rule follows_set_trans [OF g t(1)]) (use max_payload_of [OF g t(1)] auth_ok_of [OF g t(1)] in simp_all)
  have st: "(if t_connection_state tr \<noteq> kCsAuthorizing then SetConnectionState kCsAuthorizing tr else tr)
      = SetConnectionState kCsAuthorizing tr" by (simp add: SetConnectionState_def)
  have k': "transport_NextKey (p_private_keys pr) (SetConnectionState kCsAuthorizing tr) = Inr (None, ?tr1)"
    by (rule transport_NextKey_eq) (use k in simp)
  from send_auth_sent [OF follows_state [OF f], of t ?tr pr ADB_AUTH_RSAPUBLICKEY "p_userkey pr @ [CHR 0x00]"] obtain tr' where
    r: "rbind (auth_packet pr ADB_AUTH_RSAPUBLICKEY (p_userkey pr @ [CHR 0x00])) (\<lambda>p. g_send pr p t (g_set_trans t ?tr g))
        = Inr (g_set_trans t tr' g)"
      "follows (g_set_trans t ?tr g) (g_set_trans t tr' g)"
      "auth_sent ADB_AUTH_RSAPUBLICKEY (p_userkey pr @ [CHR 0x00]) ?tr tr'" "tr_ext ?tr tr'" by auto
  have "handle_packet pr p t g = Some (Inr (g_set_trans t tr' g))"
    using h t p u r(1) k' by (simp add: handle_packet_def handle_auth_def token_packet_def send_auth_response_def st
        send_auth_publickey_def)
  moreover have "auth_sent ADB_AUTH_RSAPUBLICKEY (p_userkey pr @ [CHR 0x00]) tr tr'"
    using r(3) by (simp add: auth_sent_def)
  moreover have "t_connection_state tr' = kCsUnauthorized" using r(4) by (simp add: tr_ext_def)
  ultimately show ?thesis using follows_trans [OF f r(2)] by blast
qed


text \<open>Packets handled one after the other.\<close>

fun run_packets :: "params \<Rightarrow> tptr \<Rightarrow> apacket list \<Rightarrow> adb_state \<Rightarrow> step" where
  "run_packets pr t [] g = Some (Inr g)"
| "run_packets pr t (p # ps) g = obind (handle_packet pr p t g) (run_packets pr t ps)"

definition auth_content :: "apacket \<Rightarrow> u32 \<times> u32 \<times> bytes" where
  "auth_content q = (command (msg q), arg0 (msg q), block_bytes (payload q))"

lemma auth_sent_content:
  "auth_sent k bs tr tr' \<Longrightarrow> \<exists>q. t_outgoing tr' = t_outgoing tr @ [q] \<and> auth_content q = (A_AUTH, k, bs)"
  by (auto simp: auth_sent_def auth_content_def)

lemma host_keys_from:
  assumes h: "p_adb_host pr" and u: "p_userkey pr \<noteq> []" "length (p_userkey pr) < MAX_PAYLOAD_V1" and l: "token_packet lst tok"
  shows "state_ok g \<Longrightarrow> w_transports (g_world g) t = Some tr \<Longrightarrow> \<not> t_use_tls tr \<Longrightarrow>
     next_keys (p_private_keys pr) (t_keys tr) = map Some ks @ [None] \<Longrightarrow> length ks = length ps \<Longrightarrow>
     list_all2 token_packet ps toks \<Longrightarrow> (\<And>k tok. k \<in> set ks \<Longrightarrow> tok \<in> set toks \<Longrightarrow> adb_auth_sign pr k tok \<noteq> []) \<Longrightarrow>
     \<exists>g' tr' qs. run_packets pr t (ps @ [lst]) g = Some (Inr g') \<and> w_transports (g_world g') t = Some tr'
       \<and> t_connection_state tr' = kCsUnauthorized \<and> t_outgoing tr' = t_outgoing tr @ qs
       \<and> map auth_content qs = map2 (\<lambda>k tok. (A_AUTH, ADB_AUTH_SIGNATURE, adb_auth_sign pr k tok)) ks toks
           @ [(A_AUTH, ADB_AUTH_RSAPUBLICKEY, p_userkey pr @ [CHR 0x00])]"
proof (induction ks arbitrary: g tr ps toks)
  case Nil
  then have ps: "ps = []" by simp
  from Nil.prems(4) have k: "next_keys (p_private_keys pr) (t_keys tr) = None # []" by simp
  from token_exhausted [OF h Nil.prems(1-3) l k u] obtain tr' where
    r: "handle_packet pr lst t g = Some (Inr (g_set_trans t tr' g))" "t_connection_state tr' = kCsUnauthorized"
      "auth_sent ADB_AUTH_RSAPUBLICKEY (p_userkey pr @ [CHR 0x00]) tr tr'" by blast
  from auth_sent_content [OF r(3)] obtain q where
    "t_outgoing tr' = t_outgoing tr @ [q]" "auth_content q = (A_AUTH, ADB_AUTH_RSAPUBLICKEY, p_userkey pr @ [CHR 0x00])" by blast
  with r ps show ?case by (intro exI [of _ "g_set_trans t tr' g"] exI [of _ tr'] exI [of _ "[q]"]) (simp add: obind_def)
next
  case (Cons k ks)
  then obtain p ps' tk toks' where ps: "ps = p # ps'" "toks = tk # toks'" "token_packet p tk" "list_all2 token_packet ps' toks'"
    by (cases ps; cases toks) auto
  from Cons.prems(4) have k: "next_keys (p_private_keys pr) (t_keys tr) = Some k # (map Some ks @ [None])" by simp
  have sg: "adb_auth_sign pr k tk \<noteq> []" using Cons.prems(7) ps by simp
  from token_response [OF h Cons.prems(1-3) ps(3) k refl sg] obtain tr1 where
    r: "handle_packet pr p t g = Some (Inr (g_set_trans t tr1 g))" "follows g (g_set_trans t tr1 g)"
      "auth_sent ADB_AUTH_SIGNATURE (adb_auth_sign pr k tk) tr tr1" "t_keys tr1 = Some k # (map Some ks @ [None])"
      "\<not> t_use_tls tr1" by blast
  from auth_sent_content [OF r(3)] obtain q where
    q: "t_outgoing tr1 = t_outgoing tr @ [q]" "auth_content q = (A_AUTH, ADB_AUTH_SIGNATURE, adb_auth_sign pr k tk)" by blast
  have "\<exists>g' tr' qs. run_packets pr t (ps' @ [lst]) (g_set_trans t tr1 g) = Some (Inr g') \<and> w_transports (g_world g') t = Some tr'
       \<and> t_connection_state tr' = kCsUnauthorized \<and> t_outgoing tr' = t_outgoing tr1 @ qs
       \<and> map auth_content qs = map2 (\<lambda>k tok. (A_AUTH, ADB_AUTH_SIGNATURE, adb_auth_sign pr k tok)) ks toks'
           @ [(A_AUTH, ADB_AUTH_RSAPUBLICKEY, p_userkey pr @ [CHR 0x00])]"
    by (rule Cons.IH [OF follows_state [OF r(2)]]) (use r Cons.prems ps in \<open>auto simp: next_keys_def\<close>)
  then obtain g' tr' qs where "run_packets pr t (ps' @ [lst]) (g_set_trans t tr1 g) = Some (Inr g')"
    "w_transports (g_world g') t = Some tr'" "t_connection_state tr' = kCsUnauthorized" "t_outgoing tr' = t_outgoing tr1 @ qs"
    "map auth_content qs = map2 (\<lambda>k tok. (A_AUTH, ADB_AUTH_SIGNATURE, adb_auth_sign pr k tok)) ks toks'
           @ [(A_AUTH, ADB_AUTH_RSAPUBLICKEY, p_userkey pr @ [CHR 0x00])]" by blast
  with r(1) q ps show ?case
    by (intro exI [of _ g'] exI [of _ tr'] exI [of _ "q # qs"]) (simp add: obind_def)
qed

text \<open>
  C17: the host answers the tokens of a daemon that accepts none of its keys with one signature per
  private key, in the order of the keys, then with its public key and a NUL; the device is then shown
  as unauthorized. Each token is signed with the key whose turn it is.
\<close>

theorem host_tries_every_key:
  assumes "p_adb_host pr" "p_userkey pr \<noteq> []" "length (p_userkey pr) < MAX_PAYLOAD_V1"
    "state_ok g" "w_transports (g_world g) t = Some tr" "\<not> t_use_tls tr" "t_keys tr = []"
    "p_private_keys pr = map Some ks @ [None]" "length ps = length ks"
    "list_all2 token_packet (ps @ [lst]) (toks @ [tok])"
    "\<forall>k\<in>set ks. \<forall>tok\<in>set toks. adb_auth_sign pr k tok \<noteq> []"
  shows "\<exists>g' tr' qs. run_packets pr t (ps @ [lst]) g = Some (Inr g') \<and> w_transports (g_world g') t = Some tr'
       \<and> t_connection_state tr' = kCsUnauthorized \<and> t_outgoing tr' = t_outgoing tr @ qs
       \<and> map auth_content qs = map2 (\<lambda>k tok. (A_AUTH, ADB_AUTH_SIGNATURE, adb_auth_sign pr k tok)) ks toks
           @ [(A_AUTH, ADB_AUTH_RSAPUBLICKEY, p_userkey pr @ [CHR 0x00])]"
proof -
  from assms(10) have l: "list_all2 token_packet ps toks" "token_packet lst tok"
    by (auto simp: list_all2_append1 list_all2_Cons1 append_eq_append_conv2 dest: list_all2_lengthD)
  have k: "next_keys (p_private_keys pr) (t_keys tr) = map Some ks @ [None]" using assms(7,8) by (simp add: next_keys_def)
  show ?thesis
    by (rule host_keys_from [OF assms(1-3) l(2) assms(4-6) k _ l(1)]) (use assms(9,11) in auto)
qed


definition example_token :: apacket where
  "example_token = \<lparr>msg = (msg (header_packet A_AUTH ADB_AUTH_TOKEN 0))\<lparr>data_length := 20\<rparr>,
     payload = block_of (replicate 20 CHR ''r'')\<rparr>"

lemma example_token_ok: "token_packet example_token (replicate 20 CHR ''r'')"
  by (simp add: token_packet_def example_token_def header_packet_def)

theorem host_tries_every_key_witness:
  "\<exists>g' tr'. run_packets (example_params True) 2 [example_token, example_token] example_daemon = Some (Inr g')
       \<and> w_transports (g_world g') 2 = Some tr' \<and> t_connection_state tr' = kCsUnauthorized
       \<and> map auth_content (t_outgoing tr') = [(A_AUTH, ADB_AUTH_SIGNATURE, ''signed by 1''),
            (A_AUTH, ADB_AUTH_RSAPUBLICKEY, ''key adb@host'' @ [CHR 0x00])]"
proof -
  have pr: "p_adb_host (example_params True)" "p_userkey (example_params True) = ''key adb@host''"
    "p_private_keys (example_params True) = map Some [1] @ [None]"
    "adb_auth_sign (example_params True) 1 (replicate 20 CHR ''r'') = ''signed by 1''"
    by (simp_all add: example_params_def adb_auth_sign_def TOKEN_SIZE_def)
  have e: "w_transports (g_world example_daemon) 2 = Some example_unauthenticated" "\<not> t_use_tls example_unauthenticated"
    "t_keys example_unauthenticated = []" and o: "t_outgoing example_unauthenticated = []"
    by (simp_all add: example_daemon_def example_unauthenticated_def new_atransport_def)
  have k: "length (p_userkey (example_params True)) < MAX_PAYLOAD_V1" by (simp add: pr MAX_PAYLOAD_V1_def)
  have "\<exists>g' tr' qs. run_packets (example_params True) 2 ([example_token] @ [example_token]) example_daemon = Some (Inr g')
     \<and> w_transports (g_world g') 2 = Some tr' \<and> t_connection_state tr' = kCsUnauthorized
     \<and> t_outgoing tr' = t_outgoing example_unauthenticated @ qs
     \<and> map auth_content qs = map2 (\<lambda>k tok. (A_AUTH, ADB_AUTH_SIGNATURE, adb_auth_sign (example_params True) k tok)) [1] [replicate 20 CHR ''r'']
         @ [(A_AUTH, ADB_AUTH_RSAPUBLICKEY, p_userkey (example_params True) @ [CHR 0x00])]"
    by (rule host_tries_every_key [OF pr(1) _ k example_daemon_ok e pr(3)])
       (use example_token_ok pr in simp_all)
  then show ?thesis using pr(2,4) o by auto
qed

subsection \<open>Both sides together\<close>

definition outgoing :: "tptr \<Rightarrow> adb_state \<Rightarrow> apacket list" where
  "outgoing t g = (case w_transports (g_world g) t of None \<Rightarrow> [] | Some tr \<Rightarrow> t_outgoing tr)"

lemma outgoing_Some [simp]: "w_transports (g_world g) t = Some tr \<Longrightarrow> outgoing t g = t_outgoing tr"
  by (simp add: outgoing_def)

lemma close_all_sockets_none:
  assumes g: "good w" and n: "\<forall>a\<in>set (w_local_list w). \<not> belongs t a w"
  shows "close_all_sockets env t w = Some (Inr w)"
proof -
  have wf: "wf_world None w" using g by (simp add: good_def)
  have "\<And>a. a \<in> set (w_local_list w) \<Longrightarrow> w_heap w a \<noteq> None" using wf_worldD(3) [OF wf] by (auto simp: lists_ok_def)
  from find_socket_of_ok [OF wf this, of "w_local_list w" t] n have "find_socket_of t (w_local_list w) w = Inr None"
    by (auto split: option.splits)
  then show ?thesis by (subst close_all_sockets.simps) simp
qed

lemma daemon_sends_token:
  assumes pr: "params_ok pr" "\<not> p_adb_host pr" "p_auth_required pr"
    and g: "state_ok g" and t: "w_transports (g_world g) t = Some tr" "t_connection_state tr = kCsOffline" "\<not> t_use_tls tr"
    and k: "length (t_token tr) \<le> length (p_urandom pr)"
    and p: "command (msg p) = A_CNXN" "bsize (payload p) = unat (data_length (msg p))"
  shows "\<exists>g' tr'. handle_packet pr p t g = Some (Inr g') \<and> follows g g' \<and> w_transports (g_world g') t = Some tr'
     \<and> t_token tr' = take (length (t_token tr)) (p_urandom pr) \<and> auth_sent ADB_AUTH_TOKEN (t_token tr') tr tr'
     \<and> \<not> t_use_tls tr' \<and> t_online tr' = t_online tr \<and> g' = g_set_trans t tr' g \<and> t_connection_state tr' \<noteq> kCsOffline"
proof -
  have lb: "libbase_ok (p_lb pr)" using pr by (simp add: params_ok_def)
  let ?tr2 = "update_version (arg0 (msg p)) (arg1 (msg p)) tr" and ?k = "take (length (t_token tr)) (p_urandom pr)"
  from parse_banner_ok [OF lb, of "p_supported pr" "block_bytes (payload p)" ?tr2] obtain tr3
    where tr3: "parse_banner (p_lb pr) (p_supported pr) (block_bytes (payload p)) ?tr2 = Inr tr3"
      "t_max_payload tr3 = t_max_payload ?tr2" "t_disconnects tr3 = t_disconnects tr" "t_auth_id tr3 = t_auth_id tr"
      "t_online tr3 = t_online tr" "\<not> t_use_tls tr3" "t_token tr3 = t_token tr" "t_outgoing tr3 = t_outgoing tr"
      "t_connection_state tr3 \<noteq> kCsOffline"
    using t(3) by (auto simp: update_version_def)
  let ?tr4 = "tr3\<lparr>t_token := ?k\<rparr>"
  have f: "follows g (g_set_trans t ?tr4 g)"
    by (rule follows_set_trans [OF g t(1)]) (use auth_ok_of [OF g t(1)] tr3 in \<open>auto simp: auth_ok_def update_version_def\<close>)
  from send_auth_sent [OF follows_state [OF f], of t ?tr4 pr ADB_AUTH_TOKEN ?k] obtain tr5 where
    s: "rbind (auth_packet pr ADB_AUTH_TOKEN ?k) (\<lambda>p. g_send pr p t (g_set_trans t ?tr4 g)) = Inr (g_set_trans t tr5 g)"
      "follows (g_set_trans t ?tr4 g) (g_set_trans t tr5 g)" "auth_sent ADB_AUTH_TOKEN ?k ?tr4 tr5" "tr_ext ?tr4 tr5" by auto
  have "adbd_auth_generate_token (p_urandom pr) (t_token tr) = (?k, True)" using k by (simp add: adbd_auth_generate_token_def)
  then have "handle_packet pr p t g = Some (Inr (g_set_trans t tr5 g))"
    using p t pr tr3 s(1) by (simp add: handle_packet_def handle_new_connection_def handle_offline_def obind_def Let_def send_auth_request_def)
  moreover have "auth_sent ADB_AUTH_TOKEN ?k tr tr5" using s(3) tr3 by (simp add: auth_sent_def)
  ultimately show ?thesis using follows_trans [OF f s(2)] s(4) tr3 by (auto simp: tr_ext_def)
qed

lemma handle_offline_quiet:
  assumes g: "state_ok g" and t: "w_transports (g_world g) t = Some tr"
    and n: "\<forall>a\<in>set (w_local_list (g_world g)). \<not> belongs t a (g_world g)"
  shows "\<exists>g'. handle_offline pr t g = Some (Inr g') \<and> (p_adb_host pr \<or> t_connection_state tr = kCsOffline \<or>
     g_active_connections g' = g_active_connections g - 1
     \<and> (g_active_connections g \<noteq> 1 \<longrightarrow> g_watchdog_running g' = g_watchdog_running g))"
proof (cases "t_connection_state tr = kCsOffline")
  case False
  let ?tr = "(SetConnectionState kCsOffline tr)\<lparr>t_online := False\<rparr>"
  define g2 where "g2 = g_set_trans t ?tr (if p_adb_host pr then g else DecrementActiveConnections g)"
  have w: "g_world g2 = set_trans t ?tr (g_world g)" by (simp add: g2_def)
  have gd: "good (g_world g2)"
    unfolding w by (rule good_set_trans [OF state_goodD(1) [OF g]]) (use max_payload_of [OF g t] in simp)
  have c: "close_all_sockets (p_env pr) t (g_world g2) = Some (Inr (g_world g2))"
    by (rule close_all_sockets_none [OF gd]) (use n belongs_cong [of "g_world g2" "g_world g"] in \<open>simp add: w\<close>)
  let ?g3 = "g_set_trans t (?tr\<lparr>t_disconnects := []\<rparr>) g2"
  have r: "run_callbacks (t_disconnects tr) t ?g3
      = Inr (?g3\<lparr>g_disconnected := g_disconnected ?g3 @ map (\<lambda>c. (c, t)) (t_disconnects tr)\<rparr>)"
    by (rule run_callbacks_ok [where tr = "?tr\<lparr>t_disconnects := []\<rparr>"]) (use auth_ok_of [OF g t] in \<open>auto simp: auth_ok_def\<close>)
  have same: "g2\<lparr>g_world := set_trans t ?tr (g_world g)\<rparr> = g2" unfolding w [symmetric] by simp
  have "handle_offline pr t g = Some (run_callbacks (t_disconnects tr) t ?g3)"
    unfolding handle_offline_step [OF t False] g2_def [symmetric] c by (simp add: same g_trans_def trans_def w)
  then have "handle_offline pr t g = Some (Inr (?g3\<lparr>g_disconnected := g_disconnected ?g3 @ map (\<lambda>c. (c, t)) (t_disconnects tr)\<rparr>))"
    unfolding r .
  moreover have "\<not> p_adb_host pr \<Longrightarrow> g_active_connections ?g3 = g_active_connections g - 1
      \<and> (g_active_connections g \<noteq> 1 \<longrightarrow> g_watchdog_running ?g3 = g_watchdog_running g)"
    by (simp add: g2_def g_set_trans_def DecrementActiveConnections_def Let_def)
  ultimately show ?thesis by auto
qed (use t in \<open>simp add: handle_offline_def\<close>)

lemma host_goes_online:
  assumes pr: "params_ok pr" "p_adb_host pr"
    and g: "state_ok g" and t: "w_transports (g_world g) t = Some tr"
    and n: "\<forall>a\<in>set (w_local_list (g_world g)). \<not> belongs t a (g_world g)"
    and p: "command (msg p) = A_CNXN" "bsize (payload p) = unat (data_length (msg p))"
  shows "\<exists>g'. handle_packet pr p t g = Some (Inr g') \<and> online t g'"
proof -
  have lb: "libbase_ok (p_lb pr)" using pr by (simp add: params_ok_def)
  obtain g1 where g1: "handle_offline pr t g = Some (Inr g1)" using handle_offline_quiet [OF g t n, of pr] by blast
  have f1: "follows g g1" using handle_offline_ok [OF g t, of pr] g1 by auto
  from follows_alive [OF f1 t] obtain tr1 where t1: "w_transports (g_world g1) t = Some tr1" by auto
  let ?tr2 = "update_version (arg0 (msg p)) (arg1 (msg p)) tr1"
  from parse_banner_ok [OF lb] obtain tr3
    where tr3: "parse_banner (p_lb pr) (p_supported pr) (block_bytes (payload p)) ?tr2 = Inr tr3" by blast
  show ?thesis
    using p g1 t1 tr3 pr(2)
    by (simp add: handle_packet_def handle_new_connection_def obind_def Let_def handle_online_def online_def)
qed


text \<open>The signature of one side is accepted by the other: what RSA promises of a matching key pair.\<close>

definition key_pair :: "params \<Rightarrow> nat \<Rightarrow> params \<Rightarrow> string \<Rightarrow> bool" where
  "key_pair ph k pd key \<longleftrightarrow> key \<in> set (p_public_keys pd) \<and> (\<exists>k'. decode_public_key pd key = Some k'
     \<and> (\<forall>token. length token = TOKEN_SIZE \<longrightarrow> (\<exists>sig. p_RSA_sign ph k token = Some sig \<and> sig \<noteq> [] \<and> length sig < 2 ^ 32
          \<and> p_RSA_verify pd token sig k')))"

lemma first_key_exists: "k \<in> set ks \<Longrightarrow> P k \<Longrightarrow> \<exists>k'. first_key P ks = Some k'"
  by (induction ks) auto

lemma key_pair_verifies:
  assumes "key_pair ph k pd key" "length token = TOKEN_SIZE"
  shows "adb_auth_sign ph k token \<noteq> []" "length (adb_auth_sign ph k token) < 2 ^ 32"
    "\<exists>key'. adbd_auth_verify pd token (adb_auth_sign ph k token) = Some key'"
proof -
  from assms obtain k' sig where s: "key \<in> set (p_public_keys pd)" "decode_public_key pd key = Some k'"
    "p_RSA_sign ph k token = Some sig" "sig \<noteq> []" "length sig < 2 ^ 32" "p_RSA_verify pd token sig k'"
    by (auto simp: key_pair_def)
  then have eq: "adb_auth_sign ph k token = sig" using assms(2) by (simp add: adb_auth_sign_def)
  show "adb_auth_sign ph k token \<noteq> []" "length (adb_auth_sign ph k token) < 2 ^ 32" using eq s by simp_all
  show "\<exists>key'. adbd_auth_verify pd token (adb_auth_sign ph k token) = Some key'"
    unfolding eq adbd_auth_verify_def by (rule first_key_exists [OF s(1)]) (use s in simp)
qed

lemma auth_sentD:
  assumes "auth_sent k bs tr tr'" "length bs < 2 ^ 32"
  shows "\<exists>q. t_outgoing tr' = t_outgoing tr @ [q] \<and> command (msg q) = A_AUTH \<and> arg0 (msg q) = k
     \<and> block_bytes (payload q) = bs \<and> bsize (payload q) = unat (data_length (msg q))"
  using assms by (auto simp: auth_sent_def unat_of_nat)

text \<open>
  C4: a host whose first private key belongs to a key the device knows gets in. The daemon answers
  the first packet of a new connection with a token, the host answers the token with a signature, the
  daemon goes online for it and sends its banner, and the host goes online for the banner: each packet
  is the one the other side has just sent.
\<close>

theorem handshake_completes:
  assumes pd: "params_ok pd" "\<not> p_adb_host pd" "p_auth_required pd" "length (our_banner pd) \<le> MAX_PAYLOAD_V1"
    "TOKEN_SIZE \<le> length (p_urandom pd)"
    and ph: "params_ok ph" "p_adb_host ph" "p_private_keys ph = Some k # ks" and key: "key_pair ph k pd key"
    and gd: "state_ok gd" "w_transports (g_world gd) td = Some trd" "t_connection_state trd = kCsOffline" "\<not> t_use_tls trd"
    "length (t_token trd) = TOKEN_SIZE"
    and gh: "state_ok gh" "w_transports (g_world gh) th = Some trh" "\<not> t_use_tls trh" "t_keys trh = []"
    "\<forall>a\<in>set (w_local_list (g_world gh)). \<not> belongs th a (g_world gh)"
    and p0: "command (msg p0) = A_CNXN" "packet_ok p0"
  shows "\<exists>gd1 gh1 gd2 gh2 p1 p2 p3.
       handle_packet pd p0 td gd = Some (Inr gd1) \<and> outgoing td gd1 = outgoing td gd @ [p1]
     \<and> handle_packet ph p1 th gh = Some (Inr gh1) \<and> outgoing th gh1 = outgoing th gh @ [p2]
     \<and> handle_packet pd p2 td gd1 = Some (Inr gd2) \<and> outgoing td gd2 = outgoing td gd1 @ [p3]
     \<and> handle_packet ph p3 th gh1 = Some (Inr gh2) \<and> online td gd2 \<and> online th gh2"
proof -
  have c0: "bsize (payload p0) = unat (data_length (msg p0))" using p0 by (simp add: packet_ok_def)
  have "length (t_token trd) \<le> length (p_urandom pd)" using pd gd by simp
  from daemon_sends_token [OF pd(1-3) gd(1-4) this p0(1) c0] obtain gd1 trd1 where
    d1: "handle_packet pd p0 td gd = Some (Inr gd1)" "follows gd gd1" "w_transports (g_world gd1) td = Some trd1"
      "t_token trd1 = take TOKEN_SIZE (p_urandom pd)" "auth_sent ADB_AUTH_TOKEN (t_token trd1) trd trd1" "\<not> t_use_tls trd1"
    unfolding gd(5) by blast
  have n: "length (t_token trd1) = TOKEN_SIZE" using d1(4) pd(5) by simp
  note kp = key_pair_verifies [OF key n]
  from auth_sentD [OF d1(5)] n obtain p1 where
    p1: "t_outgoing trd1 = t_outgoing trd @ [p1]" "token_packet p1 (t_token trd1)" by (auto simp: token_packet_def TOKEN_SIZE_def)
  have nk: "next_keys (p_private_keys ph) (t_keys trh) = Some k # ks" using ph(3) gh(4) by (simp add: next_keys_def)
  from token_response [OF ph(2) gh(1-3) p1(2) nk refl kp(1)] obtain trh1 where
    h1: "handle_packet ph p1 th gh = Some (Inr (g_set_trans th trh1 gh))" "follows gh (g_set_trans th trh1 gh)"
      "auth_sent ADB_AUTH_SIGNATURE (adb_auth_sign ph k (t_token trd1)) trh trh1" by blast
  from auth_sentD [OF h1(3) kp(2)] obtain p2 where
    p2: "t_outgoing trh1 = t_outgoing trh @ [p2]" "command (msg p2) = A_AUTH" "arg0 (msg p2) = ADB_AUTH_SIGNATURE"
      "block_bytes (payload p2) = adb_auth_sign ph k (t_token trd1)" "bsize (payload p2) = unat (data_length (msg p2))" by blast
  from kp(3) obtain key' where v: "adbd_auth_verify pd (t_token trd1) (block_bytes (payload p2)) = Some key'"
    unfolding p2(4) by blast
  from accepted_online [OF pd(2) follows_state [OF d1(2)] d1(3,6) p2(2,3,5) v pd(4)] obtain gd2 trd2 where
    d2: "handle_packet pd p2 td gd1 = Some (Inr gd2)" "w_transports (g_world gd2) td = Some trd2" "t_online trd2"
      "welcomed pd trd1 trd2" by blast
  from d2(4) obtain p3 where p3: "t_outgoing trd2 = t_outgoing trd1 @ [p3]" "command (msg p3) = A_CNXN"
    "bsize (payload p3) = unat (data_length (msg p3))"
    using pd(4) by (auto simp: welcomed_def unat_of_nat MAX_PAYLOAD_V1_def)
  have nb: "\<forall>a\<in>set (w_local_list (g_world (g_set_trans th trh1 gh))). \<not> belongs th a (g_world (g_set_trans th trh1 gh))"
    using gh(5) belongs_cong [of "g_world (g_set_trans th trh1 gh)" "g_world gh"] by simp
  from host_goes_online [OF ph(1,2) follows_state [OF h1(2)] _ nb p3(2,3), of trh1] obtain gh2 where
    h2: "handle_packet ph p3 th (g_set_trans th trh1 gh) = Some (Inr gh2)" "online th gh2" by auto
  show ?thesis
    by (rule exI [of _ gd1], rule exI [of _ "g_set_trans th trh1 gh"], rule exI [of _ gd2], rule exI [of _ gh2],
        rule exI [of _ p1], rule exI [of _ p2], rule exI [of _ p3])
       (use d1 p1 h1 p2 d2 p3 h2 gd(2) gh(2) in \<open>simp add: online_def\<close>)
qed


text \<open>The same state seen by a daemon and a host, with a transport that has just connected.\<close>

definition example_fresh :: adb_state where
  "example_fresh = g_set_trans 2 (new_atransport 3 kTransportUsb kCsOffline) example_state"

lemma example_fresh_ok: "state_ok example_fresh"
  unfolding example_fresh_def
  by (rule state_ok_set_trans [OF example_state_ok]) (simp_all add: new_atransport_def auth_ok_def)

lemma example_fresh_transport:
  "w_transports (g_world example_fresh) 2 = Some (new_atransport 3 kTransportUsb kCsOffline)"
  "\<forall>a\<in>set (w_local_list (g_world example_fresh)). \<not> belongs 2 a (g_world example_fresh)"
  by (simp_all add: example_fresh_def example_state_def example_world_def belongs_def example_local_def example_remote_def
      new_asocket_def)

definition example_connect :: apacket where
  "example_connect = header_packet A_CNXN A_VERSION (of_nat MAX_PAYLOAD)"

lemma example_connect_ok: "command (msg example_connect) = A_CNXN" "packet_ok example_connect"
  by (simp_all add: example_connect_def header_packet_def packet_ok_def get_apacket_def amessage_zero_def block_empty_def
      wf_block_def)

lemma example_key_pair: "key_pair (example_params True) 1 (example_params False) ''key adb@host''"
  by (simp add: key_pair_def example_params_def decode_public_key_def)

theorem handshake_completes_witness:
  "\<exists>gd1 gh1 gd2 gh2 p1 p2 p3.
       handle_packet (example_params False) example_connect 2 example_fresh = Some (Inr gd1)
     \<and> outgoing 2 gd1 = outgoing 2 example_fresh @ [p1]
     \<and> handle_packet (example_params True) p1 2 example_fresh = Some (Inr gh1)
     \<and> outgoing 2 gh1 = outgoing 2 example_fresh @ [p2]
     \<and> handle_packet (example_params False) p2 2 gd1 = Some (Inr gd2) \<and> outgoing 2 gd2 = outgoing 2 gd1 @ [p3]
     \<and> handle_packet (example_params True) p3 2 gh1 = Some (Inr gh2) \<and> online 2 gd2 \<and> online 2 gh2"
proof -
  have pr: "\<not> p_adb_host (example_params False)" "p_auth_required (example_params False)"
    "TOKEN_SIZE \<le> length (p_urandom (example_params False))" "p_adb_host (example_params True)"
    "p_private_keys (example_params True) = Some 1 # [None]"
    by (simp_all add: example_params_def TOKEN_SIZE_def)
  have tr: "t_connection_state (new_atransport 3 kTransportUsb kCsOffline) = kCsOffline"
    "\<not> t_use_tls (new_atransport 3 kTransportUsb kCsOffline)" "t_keys (new_atransport 3 kTransportUsb kCsOffline) = []"
    "length (t_token (new_atransport 3 kTransportUsb kCsOffline)) = TOKEN_SIZE"
    by (simp_all add: new_atransport_def TOKEN_SIZE_def)
  show ?thesis
    by (rule handshake_completes [OF example_params_ok pr(1,2) example_banner pr(3) example_params_ok pr(4,5)
          example_key_pair example_fresh_ok example_fresh_transport(1) tr(1,2,4) example_fresh_ok
          example_fresh_transport(1) tr(2,3) example_fresh_transport(2) example_connect_ok])
qed

subsection \<open>Where the handler goes wrong\<close>

text \<open>
  C38: an \<open>A_AUTH\<close> packet of an unknown kind is meant to take the transport offline. But the state is
  set to offline first, so \<open>handle_offline\<close> sees an offline transport and returns: the transport stays
  online, its sockets stay open and its disconnect callbacks are not run.
\<close>

theorem auth_unknown_not_taken_offline:
  assumes "w_transports (g_world g) t = Some tr" "\<not> t_use_tls tr" "command (msg p) = A_AUTH"
    "bsize (payload p) = unat (data_length (msg p))"
    "arg0 (msg p) \<notin> {ADB_AUTH_TOKEN, ADB_AUTH_SIGNATURE, ADB_AUTH_RSAPUBLICKEY}"
  shows "handle_packet pr p t g = Some (Inr (g_set_trans t (SetConnectionState kCsOffline tr) g))
     \<and> online t (g_set_trans t (SetConnectionState kCsOffline tr) g) = online t g
     \<and> w_local_list (g_world (g_set_trans t (SetConnectionState kCsOffline tr) g)) = w_local_list (g_world g)"
  using assms by (simp add: handle_packet_def handle_auth_def handle_offline_def online_def)

definition example_bad_auth :: apacket where
  "example_bad_auth = header_packet A_AUTH 9 0"

theorem auth_unknown_not_taken_offline_witness:
  "\<exists>tr. handle_packet (example_params False) example_bad_auth 0 example_state
       = Some (Inr (g_set_trans 0 (SetConnectionState kCsOffline tr) example_state))
     \<and> online 0 (g_set_trans 0 (SetConnectionState kCsOffline tr) example_state)
     \<and> w_local_list (g_world (g_set_trans 0 (SetConnectionState kCsOffline tr) example_state)) = [0, 2]"
proof -
  have p: "command (msg example_bad_auth) = A_AUTH" "bsize (payload example_bad_auth) = unat (data_length (msg example_bad_auth))"
    "arg0 (msg example_bad_auth) \<notin> {ADB_AUTH_TOKEN, ADB_AUTH_SIGNATURE, ADB_AUTH_RSAPUBLICKEY}"
    by (simp_all add: example_bad_auth_def header_packet_def get_apacket_def amessage_zero_def block_empty_def
        ADB_AUTH_TOKEN_def ADB_AUTH_SIGNATURE_def ADB_AUTH_RSAPUBLICKEY_def)
  have "\<not> t_use_tls ((new_atransport 1 kTransportUsb kCsDevice)\<lparr>t_online := True\<rparr>)" by (simp add: new_atransport_def)
  from auth_unknown_not_taken_offline [OF example_transport this p, of "example_params False"] example_transport
  show ?thesis by (auto simp: online_def example_state_def example_world_def)
qed

text \<open>
  A public key is read as a C string. A peer that has not authenticated can send one without a
  NUL: the daemon then reads past the end of the payload, and of a null pointer if it is empty.
\<close>

theorem public_key_not_terminated:
  assumes "\<not> p_adb_host pr" "w_transports (g_world g) t = Some tr" "\<not> t_use_tls tr" "packet_ok p"
    "command (msg p) = A_AUTH" "arg0 (msg p) = ADB_AUTH_RSAPUBLICKEY" "\<not> terminated p"
  shows "handle_packet pr p t g = Some (Inl (if bdata (payload p) = None then Null_deref else Out_of_range))"
proof -
  have "ADB_AUTH_RSAPUBLICKEY \<noteq> ADB_AUTH_SIGNATURE" by (simp add: ADB_AUTH_RSAPUBLICKEY_def ADB_AUTH_SIGNATURE_def)
  with assms show ?thesis
    by (auto simp: handle_packet_def handle_auth_def packet_ok_def payload_c_str_def terminated_def split: option.splits)
qed

definition example_key_packet :: "bytes \<Rightarrow> apacket" where
  "example_key_packet bs = \<lparr>msg = (msg (header_packet A_AUTH ADB_AUTH_RSAPUBLICKEY 0))\<lparr>data_length := of_nat (length bs)\<rparr>,
     payload = block_of bs\<rparr>"

theorem public_key_not_terminated_witness:
  "handle_packet (example_params False) (example_key_packet ''key'') 2 example_fresh = Some (Inl Out_of_range)"
proof -
  have p: "packet_ok (example_key_packet ''key'')" "command (msg (example_key_packet ''key'')) = A_AUTH"
    "arg0 (msg (example_key_packet ''key'')) = ADB_AUTH_RSAPUBLICKEY" "\<not> terminated (example_key_packet ''key'')"
    "bdata (payload (example_key_packet ''key'')) \<noteq> None"
    by (simp_all add: example_key_packet_def packet_ok_def header_packet_def terminated_def block_of_def wf_block_def)
  have "\<not> p_adb_host (example_params False)" "\<not> t_use_tls (new_atransport 3 kTransportUsb kCsOffline)"
    by (simp_all add: example_params_def new_atransport_def)
  from public_key_not_terminated [OF this(1) example_fresh_transport(1) this(2) p(1-4)] p(5) show ?thesis by simp
qed

text \<open>
  C39: the daemon counts connections to stop the watchdog while somebody is connected. It counts a
  connection when it goes online, but it also discounts one that never did: a client that connects
  and leaves without authenticating leaves the counter at -1, and the next client that authenticates
  does not stop the watchdog.
\<close>

theorem watchdog_counts_unauthenticated:
  assumes pr: "params_ok pr" "\<not> p_adb_host pr" "p_auth_required pr"
    and g: "state_ok g" and t: "w_transports (g_world g) t = Some tr" "t_connection_state tr = kCsOffline" "\<not> t_use_tls tr"
    and k: "length (t_token tr) \<le> length (p_urandom pr)"
    and n: "\<forall>a\<in>set (w_local_list (g_world g)). \<not> belongs t a (g_world g)"
    and p: "command (msg p) = A_CNXN" "packet_ok p" and z: "g_active_connections g = 0"
  shows "\<exists>g1 g2. handle_packet pr p t g = Some (Inr g1) \<and> handle_offline pr t g1 = Some (Inr g2)
     \<and> g_active_connections g2 = - 1
     \<and> (\<forall>t' g3. handle_online pr t' g2 = Inr g3 \<longrightarrow> g_watchdog_running g3 = g_watchdog_running g)"
proof -
  have c: "bsize (payload p) = unat (data_length (msg p))" using p by (simp add: packet_ok_def)
  from daemon_sends_token [OF pr g t k p(1) c] obtain tr1 where
    d: "handle_packet pr p t g = Some (Inr (g_set_trans t tr1 g))" "follows g (g_set_trans t tr1 g)"
      "t_connection_state tr1 \<noteq> kCsOffline" by blast
  let ?g1 = "g_set_trans t tr1 g"
  have t1: "w_transports (g_world ?g1) t = Some tr1" by simp
  have "\<forall>a\<in>set (w_local_list (g_world ?g1)). \<not> belongs t a (g_world ?g1)"
    using n belongs_cong [of "g_world ?g1" "g_world g"] by simp
  from handle_offline_quiet [OF follows_state [OF d(2)] t1 this, of pr] pr(2) d(3) z obtain g2 where
    g2: "handle_offline pr t ?g1 = Some (Inr g2)" "g_active_connections g2 = - 1" "g_watchdog_running g2 = g_watchdog_running g"
    by (auto simp: g_set_trans_def)
  have "g_watchdog_running g3 = g_watchdog_running g" if "handle_online pr t' g2 = Inr g3" for t' g3
    using that pr(2) g2(2,3)
    by (auto simp: handle_online_def rbind_eq_Inr g_mod_trans_def g_set_trans_def IncrementActiveConnections_def Let_def)
  with d(1) g2 show ?thesis by blast
qed


theorem watchdog_counts_unauthenticated_witness:
  "\<exists>g1 g2. handle_packet (example_params False) example_connect 2 (example_fresh\<lparr>g_active_connections := 0\<rparr>) = Some (Inr g1)
     \<and> handle_offline (example_params False) 2 g1 = Some (Inr g2) \<and> g_active_connections g2 = - 1
     \<and> (\<forall>t' g3. handle_online (example_params False) t' g2 = Inr g3 \<longrightarrow>
          g_watchdog_running g3 = g_watchdog_running (example_fresh\<lparr>g_active_connections := 0\<rparr>))"
proof -
  let ?g = "example_fresh\<lparr>g_active_connections := 0\<rparr>"
  have w: "g_world ?g = g_world example_fresh" by simp
  have g: "state_ok ?g" using example_fresh_ok by (simp add: state_ok_def)
  have t: "w_transports (g_world ?g) 2 = Some (new_atransport 3 kTransportUsb kCsOffline)"
    "\<forall>a\<in>set (w_local_list (g_world ?g)). \<not> belongs 2 a (g_world ?g)"
    unfolding w by (rule example_fresh_transport)+
  have pr: "\<not> p_adb_host (example_params False)" "p_auth_required (example_params False)"
    "length (t_token (new_atransport 3 kTransportUsb kCsOffline)) \<le> length (p_urandom (example_params False))"
    by (simp_all add: example_params_def new_atransport_def)
  have tr: "t_connection_state (new_atransport 3 kTransportUsb kCsOffline) = kCsOffline"
    "\<not> t_use_tls (new_atransport 3 kTransportUsb kCsOffline)" by (simp_all add: new_atransport_def)
  show ?thesis
    by (rule watchdog_counts_unauthenticated [OF example_params_ok pr(1,2) g t(1) tr pr(3) t(2) example_connect_ok]) simp
qed

end
