(* ===== verification/Socket_Properties.thy ===== *)
theory Socket_Properties
  imports Auth_Protocol
begin

text \<open>
  What the sockets do for a stream: closing all sockets of a device ends and spares the others, data
  from the far side is written in order, data from the descriptor is sent in one packet within the
  agreed limits and counts against the send budget, and an event is handled without a bad access,
  except for one on a closing socket whose device is gone.
\<close>

text \<open>
  C8: \<open>close_all_sockets\<close> ends. No socket that is left in the list uses the transport, itself or
  through its peer, and every socket that did not use it is still there, unchanged.
\<close>

theorem close_all_sockets_exact:
  assumes "good w"
  shows "\<exists>r. close_all_sockets env t w = Some r \<and> safe (\<lambda>w'. good w'
       \<and> (\<forall>a\<in>set (w_local_list w'). \<not> belongs t a w')
       \<and> (\<forall>b\<in>set (w_local_list w). \<not> belongs t b w \<longrightarrow> b \<in> set (w_local_list w') \<and> w_heap w' b = w_heap w b)) r"
proof -
  from close_all_sockets_ok [OF assms, of env t] obtain r where
    r: "close_all_sockets env t w = Some r" "safe (all_closed t w) r" by blast
  then show ?thesis by (auto simp: all_closed_def intro: safe_mono)
qed

theorem close_all_sockets_exact_witness:
  "\<exists>r. close_all_sockets example_env 0 example_world = Some r \<and> safe (\<lambda>w'. good w'
       \<and> (\<forall>a\<in>set (w_local_list w'). \<not> belongs 0 a w')
       \<and> 2 \<in> set (w_local_list w') \<and> w_heap w' 2 = w_heap example_world 2) r"
proof -
  have "2 \<in> set (w_local_list example_world)" "\<not> belongs 0 2 example_world"
    by (simp_all add: example_world_def belongs_def example_local_def example_remote_def new_asocket_def)
  with close_all_sockets_exact [OF example_good, of example_env 0] show ?thesis by (auto intro: safe_mono)
qed




lemma get_max_payload_le:
  assumes "asocket_get_max_payload a w = Inr m" "w_heap w a = Some s" "s_peer s = Some p" "w_heap w p = Some ps"
    "s_transport ps = Some t" "w_transports w t = Some tr"
  shows "m \<le> t_max_payload tr"
  using assms by (auto simp: asocket_get_max_payload_def trans_def rbind_eq_Inr split: option.splits)

lemma read_block:
  assumes "length bs \<le> m"
  shows "\<exists>d d1 d2. block_resize fresh block_empty m = Inr d \<and> block_store d 0 bs = Inr d1
     \<and> block_resize fresh d1 (length bs) = Inr d2 \<and> wf_block d2 \<and> bposition d2 = 0 \<and> bsize d2 = length bs \<and> block_bytes d2 = bs"
proof -
  obtain d where d: "block_resize fresh block_empty m = Inr d" "wf_block d" "bsize d = m" "bposition d = 0"
    using block_resize_empty by blast
  from block_store_ok [OF d(2), of 0 bs] assms d(3,4) obtain d1
    where d1: "block_store d 0 bs = Inr d1" "wf_block d1" "bsize d1 = m" "bposition d1 = 0"
      "block_bytes d1 = bs @ drop (length bs) (block_bytes d)" by auto
  from block_resize_shrink [OF d1(2), of "length bs" fresh] assms d1(3,4) obtain d2
    where d2: "block_resize fresh d1 (length bs) = Inr d2" "wf_block d2" "bsize d2 = length bs" "bposition d2 = 0"
      "block_bytes d2 = take (length bs) (block_bytes d1)" by auto
  with d d1 show ?thesis by auto
qed

text \<open>
  C11: what is read from the descriptor of a stream goes to the device in one \<open>A_WRTE\<close> packet with
  the identifiers of the two halves, with exactly the bytes read and no more of them than the device
  accepts. They are taken from the send budget, and the descriptor is no longer read when the budget
  is used up, or at once if there is none (one packet until the next acknowledgement).
\<close>

theorem read_is_forwarded:
  assumes g: "good w" and a: "w_heap w a = Some s" "is_local s" "s_peer s = Some p"
    and p: "w_heap w p = Some ps" "s_enqueue ps = remote_enqueue_fn" "s_transport ps = Some t" "w_transports w t = Some tr"
    and r: "asocket_get_max_payload a w = Inr m" "flush_read m (e_reads env a) = (bs, False)" "bs \<noteq> []"
  shows "\<exists>w' tr' q s'. local_socket_flush_outgoing env lb hs a w = Inr (True, w')
     \<and> w_transports w' t = Some tr' \<and> t_outgoing tr' = t_outgoing tr @ [q] \<and> command (msg q) = A_WRTE
     \<and> arg0 (msg q) = s_id s \<and> arg1 (msg q) = s_id ps \<and> block_bytes (payload q) = bs
     \<and> unat (data_length (msg q)) = length bs \<and> length bs \<le> t_max_payload tr
     \<and> w_heap w' a = Some s' \<and> s_available_send_bytes s' = map_option (\<lambda>n. n - int (length bs)) (s_available_send_bytes s)
     \<and> s_fde_read s' = (case s_available_send_bytes s' of None \<Rightarrow> False | Some n \<Rightarrow> n > 0 \<and> s_fde_read s)"
proof -
  have wf: "wf_world None w" using g by (simp add: good_def)
  have fde: "s_has_fde s" by (rule kind_local(3) [OF wf_sockD [OF wf a(1)] a(2)])
  have len: "length bs \<le> m" using length_flush_read [of m "e_reads env a"] r(2) by simp
  have m: "m \<le> t_max_payload tr" by (rule get_max_payload_le [OF r(1) a(1,3) p(1,3,4)])
  then have mx: "length bs \<le> MAX_PAYLOAD" using len wf_worldD(6) [OF wf p(4)] by simp
  from read_block [OF len, of "e_fresh env"] obtain d d1 d2 where
    d: "block_resize (e_fresh env) block_empty m = Inr d" "block_store d 0 bs = Inr d1"
      "block_resize (e_fresh env) d1 (length bs) = Inr d2" "wf_block d2" "bposition d2 = 0" "bsize d2 = length bs"
      "block_bytes d2 = bs" by blast
  define s1 where "s1 = s\<lparr>s_available_send_bytes := map_option (\<lambda>n. n - int (length bs)) (s_available_send_bytes s)\<rparr>"
  let ?w1 = "set_sock a s1 w"
  have wf1: "wf_world None ?w1"
    using keeps_local(2) [OF wf a(1,2), of "map_option (\<lambda>n. n - int (length bs)) (s_available_send_bytes s)"]
    by (simp add: keeps_def s1_def)
  from wf_peerD [OF wf a(1,3)] p(1) have ne: "p \<noteq> a" "s_peer ps = Some a" by auto
  have h1: "w_heap ?w1 p = Some ps" "w_heap ?w1 a = Some s1" using ne p(1) by simp_all
  from remote_socket_enqueue_ok [OF wf1 h1(1) p(2) ne(2) h1(2) d(4), of env] d(6) mx obtain tr' q where
    q: "remote_socket_enqueue env p d2 ?w1 = Inr (1, set_trans t tr' ?w1)" "sent_on q tr tr'"
      "command (msg q) = A_WRTE" "arg0 (msg q) = s_id s1" "arg1 (msg q) = s_id ps" "block_bytes (payload q) = bs"
      "unat (data_length (msg q)) = length bs" using p(3,4) d(7) by auto
  define stop where "stop = (case s_available_send_bytes s1 of Some n \<Rightarrow> n \<le> 0 | None \<Rightarrow> True)"
  let ?s2 = "if stop then s1\<lparr>s_fde_read := False\<rparr> else s1"
  have ids: "s_has_fde s1" "s_id s1 = s_id s" using fde by (simp_all add: s1_def)
  have h2: "w_heap (set_trans t tr' ?w1) a = Some s1" by simp
  have "flush_outgoing_enqueue env lb hs a p d2 w = Inr (True, if stop then set_sock a ?s2 (set_trans t tr' ?w1) else set_trans t tr' ?w1)"
    unfolding flush_outgoing_enqueue_def mod_sock_Some [OF a(1)] rbind_Inr d(6) s1_def [symmetric]
    using q(1) p(2) h1(1) h2 ids(1) by (simp add: s_do_enqueue_def stop_def)
  then have eq: "local_socket_flush_outgoing env lb hs a w = Inr (True, if stop then set_sock a ?s2 (set_trans t tr' ?w1) else set_trans t tr' ?w1)"
    using r d(1-3) a by (simp add: local_socket_flush_outgoing_def)
  from sent_onD [OF q(2)] obtain q' where
    q': "t_outgoing tr' = t_outgoing tr @ [q']" "command (msg q') = A_WRTE" "arg0 (msg q') = s_id s" "arg1 (msg q') = s_id ps"
      "block_bytes (payload q') = bs" "unat (data_length (msg q')) = length bs" using q(3-7) ids(2) by auto
  show ?thesis
    by (rule exI [of _ "if stop then set_sock a ?s2 (set_trans t tr' ?w1) else set_trans t tr' ?w1"], rule exI [of _ tr'],
        rule exI [of _ q'], rule exI [of _ ?s2])
       (use eq q' m len in \<open>auto simp: stop_def s1_def split: option.splits\<close>)
qed


theorem read_is_forwarded_witness:
  "\<exists>w' tr' q s'. local_socket_flush_outgoing (example_env\<lparr>e_reads := (\<lambda>a. [Data ''hi'', Read_error EAGAIN])\<rparr>) libbase_ref
         (p_hs (example_params True)) 0 example_world = Inr (True, w')
     \<and> w_transports w' 0 = Some tr' \<and> t_outgoing tr' = [q] \<and> command (msg q) = A_WRTE
     \<and> arg0 (msg q) = 1 \<and> arg1 (msg q) = 7 \<and> block_bytes (payload q) = ''hi'' \<and> w_heap w' 0 = Some s' \<and> \<not> s_fde_read s'"
proof -
  let ?env = "example_env\<lparr>e_reads := (\<lambda>a. [Data ''hi'', Read_error EAGAIN])\<rparr>"
  let ?tr = "(new_atransport 1 kTransportUsb kCsDevice)\<lparr>t_online := True\<rparr>"
  have h: "w_heap example_world 0 = Some (example_local 1 0 1)" "is_local (example_local 1 0 1)" "s_peer (example_local 1 0 1) = Some 1"
    "w_heap example_world 1 = Some (example_remote 7 0 0)" "s_enqueue (example_remote 7 0 0) = remote_enqueue_fn"
    "s_transport (example_remote 7 0 0) = Some 0" "w_transports example_world 0 = Some ?tr"
    by (simp_all add: example_world_def example_local_def example_remote_def is_local_def new_asocket_def)
  have m: "asocket_get_max_payload 0 example_world = Inr MAX_PAYLOAD"
    by (simp add: asocket_get_max_payload_def sock_def trans_def example_world_def example_local_def example_remote_def
        new_asocket_def new_atransport_def)
  have r: "flush_read MAX_PAYLOAD (e_reads ?env 0) = (''hi'', False)" "''hi'' \<noteq> []" by (simp_all add: MAX_PAYLOAD_def)
  have x: "t_outgoing ?tr = []" "s_id (example_local 1 0 1) = 1" "s_id (example_remote 7 0 0) = 7"
    "s_available_send_bytes (example_local 1 0 1) = None"
    by (simp_all add: new_atransport_def example_local_def example_remote_def new_asocket_def)
  from read_is_forwarded [OF example_good h m r, of libbase_ref "p_hs (example_params True)"] show ?thesis
    unfolding x append_Nil by auto
qed



text \<open>
  C40: a socket that is closing keeps the pointer to its device. The device may be gone by then, in
  an otherwise good state; a read event, which the event loop also delivers for an error or a hang-up
  nobody asked to read, then follows that pointer.
\<close>

theorem closing_socket_uses_deleted_transport:
  assumes "good w" "w_heap w a = Some s" "s_transport s = Some t" "w_transports w t = None"
  shows "s_closing s \<and> local_socket_event_func env lb hs True False a w = Inl Dangling"
proof -
  have "sock_ok w a s" using assms(1,2) by (auto simp: good_def intro: wf_sockD)
  with assms(3,4) have "s_closing s" by (auto simp: sock_ok_def)
  with assms show ?thesis
    by (simp add: local_socket_event_func_def local_socket_flush_outgoing_def asocket_get_max_payload_def trans_def)
qed

text \<open>The first stream of the example was closed with two bytes still to write, and its device unplugged.\<close>

definition example_closing :: asocket where
  "example_closing = (example_local 1 0 1)\<lparr>s_peer := None, s_closing := True, s_fde_read := False, s_fde_write := True,
     s_packet_queue := iov_append iov_empty (block_of ''hi'')\<rparr>"

definition example_unplugged :: world where
  "example_unplugged = example_world\<lparr>w_heap := [0 \<mapsto> example_closing, 2 \<mapsto> example_local 2 1 3, 3 \<mapsto> example_remote 7 1 2],
     w_local_list := [2], w_closing_list := [0], w_transports := (w_transports example_world)(0 := None)\<rparr>"

lemma example_unplugged_good: "good example_unplugged"
proof -
  note d = example_unplugged_def example_closing_def example_world_def example_local_def example_remote_def is_local_def
  have q: "wf_iov (iov_append iov_empty (block_of ''hi''))" using iov_append_ok(1) [of iov_empty "block_of ''hi''"] by simp
  have s: "sock_ok example_unplugged a s" if "w_heap example_unplugged a = Some s" for a s
    using that q by (auto simp: d sock_ok_def kind_ok_def waiting_ok_def new_asocket_def iov_size_bytes split: if_splits)
  have "peers_ok None (w_heap example_unplugged)" "ids_ok (w_heap example_unplugged)"
    by (auto simp: d peers_ok_def ids_ok_def new_asocket_def split: if_splits)
  moreover have "lists_ok example_unplugged" "attached example_unplugged"
    by (auto simp: d lists_ok_def attached_def new_asocket_def split: if_splits)
  moreover have "w_heap example_unplugged a = None" if "w_next example_unplugged \<le> a" for a
    using that by (auto simp: example_unplugged_def example_world_def)
  moreover have "w_next_id example_unplugged \<noteq> 0" by (simp add: example_unplugged_def example_world_def)
  moreover have "t_max_payload tr \<le> MAX_PAYLOAD" if "w_transports example_unplugged t = Some tr" for t tr
    using that by (auto simp: example_unplugged_def example_world_def new_atransport_def split: if_splits)
  ultimately show ?thesis unfolding good_def by (blast intro: wf_worldI s)
qed

theorem closing_socket_uses_deleted_transport_witness:
  "local_socket_event_func example_env libbase_ref (p_hs (example_params True)) True False 0 example_unplugged = Inl Dangling"
proof -
  have "w_heap example_unplugged 0 = Some example_closing" "s_transport example_closing = Some 0" "w_transports example_unplugged 0 = None"
    by (simp_all add: example_unplugged_def example_closing_def example_local_def new_asocket_def)
  from closing_socket_uses_deleted_transport [OF example_unplugged_good this] show ?thesis by simp
qed

end
