(* ===== verification/Connection.thy ===== *)
theory Connection
  imports Adb_Io Packet IOVec
begin

text \<open>
  The connections below a transport: packets on a byte stream (\<open>FdConnection\<close> of \<open>transport.cpp\<close>), on a
  USB pipe (\<open>UsbConnection\<close> of \<open>client/transport_usb.cpp\<close>), and on a non-blocking descriptor
  (\<open>NonblockingFdConnection\<close> of \<open>transport_fd.cpp\<close>). The first two give the interface
  \<open>packet_source\<close>: what one side wrote the other side reads, packet by packet and in order.
\<close>

subsection \<open>The interface\<close>

text \<open>Reading \<open>n\<close> packets one after the other, up to the first failure.\<close>

fun read_n :: "('c \<Rightarrow> ('p option \<times> 'c) result) \<Rightarrow> nat \<Rightarrow> 'c \<Rightarrow> ('p list \<times> 'c) result" where
  "read_n rd 0 c = Inr ([], c)"
| "read_n rd (Suc n) c =
     rbind (rd c) (\<lambda>(po, c1).
       case po of
         None \<Rightarrow> Inr ([], c1)
       | Some p \<Rightarrow> rbind (read_n rd n c1) (\<lambda>(ps, c2). Inr (p # ps, c2)))"

text \<open>
  A source of packets of type \<open>'p\<close>: \<open>wire\<close> is what the writer of a packet puts on the medium, a list
  of units \<open>'u\<close> (bytes, or the transfers of a pipe), and \<open>pending\<close> what is still to be read from it.
\<close>

locale packet_source =
  fixes rd :: "'c \<Rightarrow> ('p option \<times> 'c) result"
    and wire :: "'q \<Rightarrow> 'u list"
    and pending :: "'c \<Rightarrow> 'u list \<Rightarrow> bool"
    and sent_ok :: "'q \<Rightarrow> bool"
    and same :: "'q \<Rightarrow> 'p \<Rightarrow> bool"
  assumes read_law: "pending c (wire q @ rest) \<Longrightarrow> sent_ok q \<Longrightarrow>
      \<exists>p c'. rd c = Inr (Some p, c') \<and> same q p \<and> pending c' rest"
begin

lemma read_all:
  "pending c (concat (map wire qs) @ rest) \<Longrightarrow> \<forall>q\<in>set qs. sent_ok q \<Longrightarrow>
     \<exists>ps c'. read_n rd (length qs) c = Inr (ps, c') \<and> list_all2 same qs ps \<and> pending c' rest"
proof (induction qs arbitrary: c)
  case Nil
  then show ?case by simp
next
  case (Cons q qs)
  then have "pending c (wire q @ (concat (map wire qs) @ rest))" "sent_ok q" by simp_all
  from read_law [OF this] obtain p c1 where
    1: "rd c = Inr (Some p, c1)" "same q p" "pending c1 (concat (map wire qs) @ rest)" by blast
  from Cons.IH [OF 1(3)] Cons.prems(2) obtain ps c2 where
    "read_n rd (length qs) c1 = Inr (ps, c2)" "list_all2 same qs ps" "pending c2 rest" by auto
  with 1 show ?case by simp
qed

end

subsection \<open>Packets on a byte stream\<close>

text \<open>
  With TLS the plain text is a byte stream as well; the only difference is that nothing is read or
  written when the length is 0.
\<close>

definition DispatchRead :: "bool \<Rightarrow> nat \<Rightarrow> fd_state \<Rightarrow> bool \<times> bytes \<times> fd_state" where
  "DispatchRead tls len fd = (if tls \<and> len = 0 then (True, [], fd) else ReadFdExactly len fd)"

definition DispatchWrite :: "bool \<Rightarrow> bytes \<Rightarrow> fd_state \<Rightarrow> (bool \<times> fd_state) option" where
  "DispatchWrite tls bs fd = (if tls \<and> bs = [] then Some (True, fd) else WriteFdExactly bs fd)"

definition FdConnection_Read :: "(nat \<Rightarrow> char) \<Rightarrow> bool \<Rightarrow> fd_state \<Rightarrow> (apacket option \<times> fd_state) result" where
  "FdConnection_Read fresh tls fd =
     (case DispatchRead tls amessage_size fd of
        (False, _, fd1) \<Rightarrow> Inr (None, fd1)
      | (True, hdr, fd1) \<Rightarrow>
          let m = amessage_at hdr
          in if MAX_PAYLOAD < unat (data_length m) then Inr (None, fd1)
             else rbind (block_resize fresh block_empty (unat (data_length m))) (\<lambda>b.
                  case DispatchRead tls (bsize b) fd1 of
                    (False, _, fd2) \<Rightarrow> Inr (None, fd2)
                  | (True, bs, fd2) \<Rightarrow>
                      rbind (block_store b 0 bs) (\<lambda>b'. Inr (Some \<lparr>msg = m, payload = b'\<rparr>, fd2))))"

definition FdConnection_Write :: "bool \<Rightarrow> apacket \<Rightarrow> fd_state \<Rightarrow> (bool \<times> fd_state) result option" where
  "FdConnection_Write tls p fd =
     (case DispatchWrite tls (amessage_bytes (msg p)) fd of
        None \<Rightarrow> None
      | Some (False, fd1) \<Rightarrow> Some (Inr (False, fd1))
      | Some (True, fd1) \<Rightarrow>
          if data_length (msg p) = 0 then Some (Inr (True, fd1))
          else (case block_load (payload p) 0 (unat (data_length (msg p))) of
                  Inl e \<Rightarrow> Some (Inl e)
                | Inr bs \<Rightarrow> (case DispatchWrite tls bs fd1 of None \<Rightarrow> None | Some r \<Rightarrow> Some (Inr r))))"

text \<open>A packet as it is sent: the header says how long the payload is.\<close>

definition sent_packet :: "apacket \<Rightarrow> bool" where
  "sent_packet p \<longleftrightarrow> wf_block (payload p) \<and> bsize (payload p) = unat (data_length (msg p)) \<and> bsize (payload p) \<le> MAX_PAYLOAD"

definition packet_wire :: "apacket \<Rightarrow> bytes" where
  "packet_wire p = amessage_bytes (msg p) @ block_bytes (payload p)"

definition same_packet :: "apacket \<Rightarrow> apacket \<Rightarrow> bool" where
  "same_packet p q \<longleftrightarrow> msg q = msg p \<and> block_bytes (payload q) = block_bytes (payload p) \<and> wf_block (payload q)
     \<and> bposition (payload q) = 0 \<and> bsize (payload q) = unat (data_length (msg q))"

lemma DispatchRead_delivers:
  assumes "delivers (fd_in fd) bs" "n \<le> length bs"
  shows "\<exists>evs. DispatchRead tls n fd = (True, take n bs, fd\<lparr>fd_in := evs\<rparr>) \<and> delivers evs (drop n bs)"
proof (cases "tls \<and> n = 0")
  case True
  with assms show ?thesis by (intro exI [of _ "fd_in fd"]) (simp add: DispatchRead_def)
next
  case False
  have "DispatchRead tls n fd = ReadFdExactly n fd" unfolding DispatchRead_def using False by (rule if_not_P)
  with ReadFdExactly_delivers [OF assms] show ?thesis by simp
qed

lemma FdConnection_Read_law:
  assumes d: "delivers (fd_in fd) (packet_wire p @ rest)" and p: "sent_packet p"
  shows "\<exists>q fd'. FdConnection_Read fresh tls fd = Inr (Some q, fd') \<and> same_packet p q \<and> delivers (fd_in fd') rest"
proof -
  let ?n = "unat (data_length (msg p))"
  have len: "length (block_bytes (payload p)) = ?n" using p by (simp add: sent_packet_def length_block_bytes)
  have d': "delivers (fd_in fd) (amessage_bytes (msg p) @ block_bytes (payload p) @ rest)" using d by (simp add: packet_wire_def)
  from DispatchRead_delivers [OF d', of amessage_size tls] obtain e1 where
    r1: "DispatchRead tls amessage_size fd = (True, amessage_bytes (msg p), fd\<lparr>fd_in := e1\<rparr>)"
      "delivers e1 (block_bytes (payload p) @ rest)" by (auto simp: amessage_size_def)
  from DispatchRead_delivers [of "fd\<lparr>fd_in := e1\<rparr>" "block_bytes (payload p) @ rest" ?n tls] r1(2) len obtain e2 where
    r2: "DispatchRead tls ?n (fd\<lparr>fd_in := e1\<rparr>) = (True, block_bytes (payload p), fd\<lparr>fd_in := e2\<rparr>)" "delivers e2 rest" by auto
  obtain b where b: "block_resize fresh block_empty ?n = Inr b" "wf_block b" "bsize b = ?n" "bposition b = 0"
    using block_resize_empty by blast
  from block_store_ok [OF b(2), of 0 "block_bytes (payload p)"] b(3,4) len obtain b' where
    b': "block_store b 0 (block_bytes (payload p)) = Inr b'" "wf_block b'" "bsize b' = ?n" "bposition b' = 0"
      "block_bytes b' = block_bytes (payload p) @ drop ?n (block_bytes b)" by auto
  have "block_bytes b' = block_bytes (payload p)" using b'(5) b(2,3) by (simp add: length_block_bytes)
  then show ?thesis
    using r1 r2 b b' p by (simp add: FdConnection_Read_def sent_packet_def same_packet_def)
qed

interpretation fdc: packet_source "FdConnection_Read fresh tls" packet_wire "\<lambda>fd bs. delivers (fd_in fd) bs" sent_packet same_packet
  for fresh tls
  by unfold_locales (rule FdConnection_Read_law)


text \<open>The number of times the kernel will still take at least one byte.\<close>

fun takes :: "write_event list \<Rightarrow> nat" where
  "takes [] = 0"
| "takes (Accept n # wr) = (if 0 < n then 1 else 0) + takes wr"
| "takes (Write_error e # wr) = takes wr"

lemma WriteFdExactly_loop_takes:
  "transient wr \<Longrightarrow> length bs \<le> takes wr \<Longrightarrow>
     \<exists>wr' err'. WriteFdExactly_loop bs wr out err = Some (True, wr', out @ bs, err') \<and> transient wr'
       \<and> takes wr \<le> takes wr' + length bs"
proof (induction bs wr out err rule: WriteFdExactly_loop.induct)
  case (4 b bs n wr out err)
  have eq: "take n (b # bs) @ drop n (b # bs) = b # bs" by (rule append_take_drop_id)
  have "length (drop n (b # bs)) \<le> takes wr" using 4(3) by (auto split: if_splits)
  with 4 obtain wr' err' where
    "WriteFdExactly_loop (drop n (b # bs)) wr (out @ take n (b # bs)) err = Some (True, wr', (out @ take n (b # bs)) @ drop n (b # bs), err')"
    "transient wr'" "takes wr \<le> takes wr' + length (drop n (b # bs))" by auto
  with eq show ?case by (auto split: if_splits)
qed auto

lemma DispatchWrite_takes:
  assumes "transient (fd_wr fd)" "length bs \<le> takes (fd_wr fd)"
  shows "\<exists>fd'. DispatchWrite tls bs fd = Some (True, fd') \<and> fd_out fd' = fd_out fd @ bs \<and> transient (fd_wr fd')
     \<and> takes (fd_wr fd) \<le> takes (fd_wr fd') + length bs"
  using WriteFdExactly_loop_takes [OF assms, of "fd_out fd" "fd_errno fd"] assms
  by (auto simp: DispatchWrite_def WriteFdExactly_def)

lemma FdConnection_Write_ok:
  assumes p: "sent_packet p" and w: "transient (fd_wr fd)" "length (packet_wire p) \<le> takes (fd_wr fd)"
  shows "\<exists>fd'. FdConnection_Write tls p fd = Some (Inr (True, fd')) \<and> fd_out fd' = fd_out fd @ packet_wire p
     \<and> transient (fd_wr fd') \<and> takes (fd_wr fd) \<le> takes (fd_wr fd') + length (packet_wire p)"
proof -
  from DispatchWrite_takes [OF w(1), of "amessage_bytes (msg p)" tls] w(2) obtain fd1 where
    1: "DispatchWrite tls (amessage_bytes (msg p)) fd = Some (True, fd1)" "fd_out fd1 = fd_out fd @ amessage_bytes (msg p)"
      "transient (fd_wr fd1)" "takes (fd_wr fd) \<le> takes (fd_wr fd1) + length (amessage_bytes (msg p))"
    by (auto simp: packet_wire_def)
  from DispatchWrite_takes [OF 1(3), of "block_bytes (payload p)" tls] w(2) 1(4) obtain fd2 where
    2: "DispatchWrite tls (block_bytes (payload p)) fd1 = Some (True, fd2)" "fd_out fd2 = fd_out fd1 @ block_bytes (payload p)"
      "transient (fd_wr fd2)" "takes (fd_wr fd1) \<le> takes (fd_wr fd2) + length (block_bytes (payload p))"
    by (auto simp: packet_wire_def)
  show ?thesis
  proof (cases "data_length (msg p) = 0")
    case True
    then have "block_bytes (payload p) = []" using p length_block_bytes [of "payload p"] by (simp add: sent_packet_def)
    with True 1 show ?thesis by (simp add: FdConnection_Write_def packet_wire_def)
  next
    case False
    have "block_load (payload p) 0 (unat (data_length (msg p))) = Inr (block_bytes (payload p))"
      using p by (simp add: sent_packet_def block_load_ok length_block_bytes)
    with False 1 2 show ?thesis by (simp add: FdConnection_Write_def packet_wire_def)
  qed
qed

text \<open>Packets written one after the other.\<close>

fun FdConnection_write_all :: "bool \<Rightarrow> apacket list \<Rightarrow> fd_state \<Rightarrow> (bool \<times> fd_state) result option" where
  "FdConnection_write_all tls [] fd = Some (Inr (True, fd))"
| "FdConnection_write_all tls (p # ps) fd =
     (case FdConnection_Write tls p fd of
        Some (Inr (True, fd1)) \<Rightarrow> FdConnection_write_all tls ps fd1
      | r \<Rightarrow> r)"

lemma FdConnection_write_all_ok:
  "\<forall>p\<in>set ps. sent_packet p \<Longrightarrow> transient (fd_wr fd) \<Longrightarrow> length (concat (map packet_wire ps)) \<le> takes (fd_wr fd) \<Longrightarrow>
     \<exists>fd'. FdConnection_write_all tls ps fd = Some (Inr (True, fd')) \<and> fd_out fd' = fd_out fd @ concat (map packet_wire ps)"
proof (induction ps arbitrary: fd)
  case (Cons p ps)
  from FdConnection_Write_ok [of p fd tls] Cons.prems obtain fd1 where
    1: "FdConnection_Write tls p fd = Some (Inr (True, fd1))" "fd_out fd1 = fd_out fd @ packet_wire p" "transient (fd_wr fd1)"
      "takes (fd_wr fd) \<le> takes (fd_wr fd1) + length (packet_wire p)" by auto
  from Cons.IH [of fd1] Cons.prems 1 show ?case by auto
qed simp

text \<open>
  C20: what one side of a stream connection writes the other side reads: the same packets in the same
  order, however the kernel cuts the bytes into reads and partial writes, with and without TLS.
\<close>

theorem fd_connection_roundtrip:
  assumes "\<forall>p\<in>set ps. sent_packet p" "transient (fd_wr fd)" "length (concat (map packet_wire ps)) \<le> takes (fd_wr fd)"
  shows "\<exists>fd' bs. FdConnection_write_all tls ps fd = Some (Inr (True, fd')) \<and> fd_out fd' = fd_out fd @ bs
     \<and> (\<forall>rd rest. delivers (fd_in rd) (bs @ rest) \<longrightarrow>
          (\<exists>qs rd'. read_n (FdConnection_Read fresh tls) (length ps) rd = Inr (qs, rd')
             \<and> list_all2 same_packet ps qs \<and> delivers (fd_in rd') rest))"
proof -
  from FdConnection_write_all_ok [OF assms] obtain fd' where
    w: "FdConnection_write_all tls ps fd = Some (Inr (True, fd'))" "fd_out fd' = fd_out fd @ concat (map packet_wire ps)" by blast
  have "\<exists>qs rd'. read_n (FdConnection_Read fresh tls) (length ps) rd = Inr (qs, rd')
             \<and> list_all2 same_packet ps qs \<and> delivers (fd_in rd') rest" if "delivers (fd_in rd) (concat (map packet_wire ps) @ rest)"
    for rd rest by (rule fdc.read_all [OF that assms(1)])
  with w show ?thesis by blast
qed

definition example_packet :: "u32 \<Rightarrow> bytes \<Rightarrow> apacket" where
  "example_packet cmd bs = \<lparr>msg = amessage_zero\<lparr>command := cmd, data_length := of_nat (length bs)\<rparr>, payload = block_of bs\<rparr>"

theorem fd_connection_roundtrip_witness:
  "\<exists>fd' bs. FdConnection_write_all False [example_packet A_OPEN ''ab'', example_packet A_CLSE []]
         (example_fd\<lparr>fd_wr := replicate 50 (Accept 3)\<rparr>) = Some (Inr (True, fd')) \<and> fd_out fd' = bs
     \<and> (\<forall>rd rest. delivers (fd_in rd) (bs @ rest) \<longrightarrow>
          (\<exists>qs rd'. read_n (FdConnection_Read (\<lambda>n. CHR 0x00) False) 2 rd = Inr (qs, rd')
             \<and> list_all2 same_packet [example_packet A_OPEN ''ab'', example_packet A_CLSE []] qs \<and> delivers (fd_in rd') rest))"
proof -
  have p: "\<forall>p\<in>set [example_packet A_OPEN ''ab'', example_packet A_CLSE []]. sent_packet p"
    by (simp add: example_packet_def sent_packet_def MAX_PAYLOAD_def)
  have w: "transient (fd_wr (example_fd\<lparr>fd_wr := replicate 50 (Accept 3)\<rparr>))" by (simp add: transient_def)
  have n: "length (concat (map packet_wire [example_packet A_OPEN ''ab'', example_packet A_CLSE []]))
      \<le> takes (fd_wr (example_fd\<lparr>fd_wr := replicate 50 (Accept 3)\<rparr>))"
    by (simp add: packet_wire_def example_packet_def numeral_eq_Suc)
  have o: "fd_out (example_fd\<lparr>fd_wr := replicate 50 (Accept 3)\<rparr>) = []" by (simp add: example_fd_def)
  from fd_connection_roundtrip [OF p w n, of False "\<lambda>n. CHR 0x00"] show ?thesis unfolding o by (simp add: numeral_2_eq_2)
qed


subsection \<open>Packets on a USB pipe\<close>

text \<open>
  A pipe carries USB packets of at most \<open>P\<close> bytes. A read collects packets until its buffer is full or
  a packet is shorter than \<open>P\<close>; a packet that does not fit is an overflow error. A transfer is cut
  into packets of \<open>P\<close> bytes and a shorter last one, without an empty packet at the end.
\<close>

fun usb_read :: "nat \<Rightarrow> nat \<Rightarrow> bytes list \<Rightarrow> (bytes \<times> bytes list) option" where
  "usb_read P n [] = (if n = 0 then Some ([], []) else None)"
| "usb_read P n (c # cs) =
     (if n = 0 then Some ([], c # cs)
      else if n < length c then None
      else if length c < P then Some (c, cs)
      else map_option (\<lambda>(bs, cs'). (c @ bs, cs')) (usb_read P (n - length c) cs))"

function usb_split :: "nat \<Rightarrow> bytes \<Rightarrow> bytes list" where
  "usb_split P bs = (if bs = [] \<or> P = 0 then [] else take P bs # usb_split P (drop P bs))"
  by pat_completeness auto
termination by (relation "measure (\<lambda>(P, bs). length bs)") auto

declare usb_split.simps [simp del]

definition UsbReadMessage :: "nat \<Rightarrow> bytes list \<Rightarrow> (amessage option \<times> bytes list) result" where
  "UsbReadMessage P pipe =
     rcheck (amessage_size \<le> P) (rcheck (P < 4096) (
       case usb_read P P pipe of
         None \<Rightarrow> Inr (None, pipe)
       | Some (bs, pipe') \<Rightarrow> Inr (if length bs \<noteq> amessage_size then None else Some (amessage_at bs), pipe')))"

definition usb_round_up :: "nat \<Rightarrow> nat \<Rightarrow> nat" where
  "usb_round_up P n = (if n mod P \<noteq> 0 then n + (P - n mod P) else n)"

definition UsbReadPayload :: "(nat \<Rightarrow> char) \<Rightarrow> nat \<Rightarrow> amessage \<Rightarrow> bytes list \<Rightarrow> (block option \<times> bytes list) result" where
  "UsbReadPayload fresh P m pipe =
     (if MAX_PAYLOAD < unat (data_length m) then Inr (None, pipe)
      else rbind (block_resize fresh block_empty (usb_round_up P (unat (data_length m)))) (\<lambda>b.
           case usb_read P (bsize b) pipe of
             None \<Rightarrow> Inr (None, pipe)
           | Some (bs, pipe') \<Rightarrow>
               if length bs \<noteq> unat (data_length m) then Inr (None, pipe')
               else rbind (block_store b 0 bs) (\<lambda>b1.
                    rbind (block_resize fresh b1 (length bs)) (\<lambda>b2. Inr (Some b2, pipe')))))"

definition remote_read :: "(nat \<Rightarrow> char) \<Rightarrow> nat \<Rightarrow> bytes list \<Rightarrow> (apacket option \<times> bytes list) result" where
  "remote_read fresh P pipe =
     rbind (UsbReadMessage P pipe) (\<lambda>(mo, pipe1).
       case mo of
         None \<Rightarrow> Inr (None, pipe1)
       | Some m \<Rightarrow>
           if data_length m = 0 then Inr (Some \<lparr>msg = m, payload = block_empty\<rparr>, pipe1)
           else rbind (UsbReadPayload fresh P m pipe1) (\<lambda>(bo, pipe2).
                  Inr (map_option (\<lambda>b. \<lparr>msg = m, payload = b\<rparr>) bo, pipe2)))"

text \<open>\<open>UsbConnection::Write\<close>; \<open>usb_write\<close> is what the write of one transfer returns.\<close>

definition UsbConnection_Write :: "(bytes \<Rightarrow> int) \<Rightarrow> apacket \<Rightarrow> bytes list \<Rightarrow> (bool \<times> bytes list) result" where
  "UsbConnection_Write usb_write p out =
     (let hdr = amessage_bytes (msg p)
      in if usb_write hdr \<noteq> int amessage_size then Inr (False, out)
         else if data_length (msg p) = 0 then Inr (True, out @ [hdr])
         else rbind (block_load (payload p) 0 (unat (data_length (msg p)))) (\<lambda>bs.
                if usb_write bs \<noteq> int (unat (data_length (msg p))) then Inr (False, out @ [hdr])
                else Inr (True, out @ [hdr, bs])))"

definition usb_wire :: "nat \<Rightarrow> apacket \<Rightarrow> bytes list" where
  "usb_wire P p = usb_split P (amessage_bytes (msg p))
     @ (if data_length (msg p) = 0 then [] else usb_split P (block_bytes (payload p)))"

lemma usb_split_Nil [simp]: "usb_split P [] = []"
  by (simp add: usb_split.simps)

lemma usb_read_split:
  assumes "0 < P" "length bs \<le> n" "n mod P = 0" "n < length bs + P"
  shows "usb_read P n (usb_split P bs @ rest) = Some (bs, rest)"
  using assms
proof (induction P bs arbitrary: n rule: usb_split.induct)
  case (1 P bs)
  show ?case
  proof (cases "bs = []")
    case True
    with 1 have "n = 0" by (metis add_0 list.size(3) mod_less)
    with True show ?thesis by (cases rest) simp_all
  next
    case False
    then have eq: "usb_split P bs = take P bs # usb_split P (drop P bs)" using 1(2) by (subst usb_split.simps) simp
    have n0: "P \<le> n" using 1(2-5) False by (metis length_0_conv le_zero_eq mod_less not_le)
    show ?thesis
    proof (cases "length bs < P")
      case True
      then show ?thesis using eq n0 False 1(2) by simp
    next
      case long: False
      have "usb_read P (n - P) (usb_split P (drop P bs) @ rest) = Some (drop P bs, rest)"
        using False 1(2-5) n0 long by (intro 1(1)) (auto simp: le_mod_geq mod_if)
      moreover have "n = 0 \<or> n < P \<or> min (length bs) P < P \<longleftrightarrow> False" using n0 long 1(2) by auto
      ultimately show ?thesis unfolding eq using n0 long 1(2) by (simp add: min_absorb2)
    qed
  qed
qed

lemma usb_round_up:
  assumes "0 < P"
  shows "n \<le> usb_round_up P n" "usb_round_up P n mod P = 0" "usb_round_up P n < n + P"
proof -
  have "(n + (P - n mod P)) mod P = 0"
  proof -
    have "n + (P - n mod P) = (n - n mod P) + P" using mod_less_divisor [OF assms, of n] mod_less_eq_dividend [of n P] by linarith
    then show ?thesis using assms by (simp add: minus_mod_eq_mult_div)
  qed
  then show "n \<le> usb_round_up P n" "usb_round_up P n mod P = 0" "usb_round_up P n < n + P"
    using assms mod_less_divisor [OF assms, of n] by (auto simp: usb_round_up_def)
qed

lemma remote_read_law:
  assumes p: "sent_packet p" "amessage_size \<le> P" "P < 4096"
  shows "\<exists>q. remote_read fresh P (usb_wire P p @ rest) = Inr (Some q, rest) \<and> same_packet p q"
proof -
  have P0: "0 < P" using p(2) by (simp add: amessage_size_def)
  let ?n = "unat (data_length (msg p))"
  have len: "length (block_bytes (payload p)) = ?n" using p(1) by (simp add: sent_packet_def length_block_bytes)
  let ?tl = "if data_length (msg p) = 0 then [] else usb_split P (block_bytes (payload p))"
  have "usb_read P P (usb_split P (amessage_bytes (msg p)) @ (?tl @ rest)) = Some (amessage_bytes (msg p), ?tl @ rest)"
    by (rule usb_read_split) (use p P0 in \<open>auto simp: amessage_size_def\<close>)
  then have m: "UsbReadMessage P (usb_wire P p @ rest) = Inr (Some (msg p), ?tl @ rest)"
    using p by (simp add: UsbReadMessage_def usb_wire_def amessage_size_def)
  show ?thesis
  proof (cases "data_length (msg p) = 0")
    case True
    then have "block_bytes (payload p) = []" using len by simp
    with m True show ?thesis by (simp add: remote_read_def same_packet_def block_empty_def wf_block_def block_bytes_def)
  next
    case False
    note r = usb_round_up [OF P0, of ?n]
    obtain b where b: "block_resize fresh block_empty (usb_round_up P ?n) = Inr b" "wf_block b" "bsize b = usb_round_up P ?n" "bposition b = 0"
      using block_resize_empty by blast
    have rd: "usb_read P (bsize b) (usb_split P (block_bytes (payload p)) @ rest) = Some (block_bytes (payload p), rest)"
      by (rule usb_read_split) (use r P0 b(3) len in auto)
    from block_store_ok [OF b(2), of 0 "block_bytes (payload p)"] b(3,4) len r(1) obtain b1 where
      b1: "block_store b 0 (block_bytes (payload p)) = Inr b1" "wf_block b1" "bsize b1 = usb_round_up P ?n" "bposition b1 = 0"
        "block_bytes b1 = block_bytes (payload p) @ drop ?n (block_bytes b)" by auto
    from block_resize_shrink [OF b1(2), of ?n fresh] b1(3,4) r(1) obtain b2 where
      b2: "block_resize fresh b1 ?n = Inr b2" "wf_block b2" "block_bytes b2 = take ?n (block_bytes b1)" "bsize b2 = ?n" "bposition b2 = 0"
      by auto
    have "block_bytes b2 = block_bytes (payload p)" using b2(3) b1(5) len by simp
    then show ?thesis using m False p(1) b(1) rd b1(1) b2 len
      by (simp add: remote_read_def UsbReadPayload_def sent_packet_def same_packet_def)
  qed
qed

interpretation usbc: packet_source "remote_read fresh P" "usb_wire P" "\<lambda>pipe us. pipe = us"
  "\<lambda>p. sent_packet p \<and> amessage_size \<le> P \<and> P < 4096" same_packet for fresh P
  by unfold_locales (use remote_read_law in blast)


lemma UsbConnection_Write_ok:
  assumes p: "sent_packet p" and w: "\<And>bs. usb_write bs = int (length bs)"
  shows "\<exists>ts. UsbConnection_Write usb_write p out = Inr (True, out @ ts) \<and> concat (map (usb_split P) ts) = usb_wire P p"
proof (cases "data_length (msg p) = 0")
  case True
  then show ?thesis using w by (simp add: UsbConnection_Write_def usb_wire_def Let_def amessage_size_def)
next
  case False
  have len: "length (block_bytes (payload p)) = unat (data_length (msg p))" using p by (simp add: sent_packet_def length_block_bytes)
  have "block_load (payload p) 0 (unat (data_length (msg p))) = Inr (block_bytes (payload p))"
    using p len by (simp add: sent_packet_def block_load_ok)
  then have "UsbConnection_Write usb_write p out = Inr (True, out @ [amessage_bytes (msg p), block_bytes (payload p)])"
    using False w len by (simp add: UsbConnection_Write_def Let_def amessage_size_def)
  then show ?thesis using False by (intro exI [of _ "[amessage_bytes (msg p), block_bytes (payload p)]"]) (simp add: usb_wire_def)
qed

fun UsbConnection_write_all :: "(bytes \<Rightarrow> int) \<Rightarrow> apacket list \<Rightarrow> bytes list \<Rightarrow> (bool \<times> bytes list) result" where
  "UsbConnection_write_all usb_write [] out = Inr (True, out)"
| "UsbConnection_write_all usb_write (p # ps) out =
     rbind (UsbConnection_Write usb_write p out) (\<lambda>(ok, out1).
       if ok then UsbConnection_write_all usb_write ps out1 else Inr (False, out1))"

lemma UsbConnection_write_all_ok:
  assumes w: "\<And>bs. usb_write bs = int (length bs)"
  shows "\<forall>p\<in>set ps. sent_packet p \<Longrightarrow>
     \<exists>ts. UsbConnection_write_all usb_write ps out = Inr (True, out @ ts)
       \<and> concat (map (usb_split P) ts) = concat (map (usb_wire P) ps)"
proof (induction ps arbitrary: out)
  case (Cons p ps)
  from UsbConnection_Write_ok [OF _ w, of p out P] Cons.prems obtain t1 where
    1: "UsbConnection_Write usb_write p out = Inr (True, out @ t1)" "concat (map (usb_split P) t1) = usb_wire P p" by auto
  from Cons.IH [of "out @ t1"] Cons.prems obtain t2 where
    "UsbConnection_write_all usb_write ps (out @ t1) = Inr (True, (out @ t1) @ t2)"
    "concat (map (usb_split P) t2) = concat (map (usb_wire P) ps)" by auto
  with 1 show ?case by (intro exI [of _ "t1 @ t2"]) simp
qed simp



end
