(* ===== verification/State_Machine.thy ===== *)
theory State_Machine
  imports Adb_Prelude
begin

text \<open>
  What the components that run as interleaved steps share: the states a step relation reaches, and the
  contract of an invariant, which every such component discharges for its own steps.
\<close>

inductive reachable :: "('s \<Rightarrow> bool) \<Rightarrow> ('s \<Rightarrow> 's \<Rightarrow> bool) \<Rightarrow> 's \<Rightarrow> bool" for init step where
  reachable_init: "init s \<Longrightarrow> reachable init step s"
| reachable_step: "reachable init step s \<Longrightarrow> step s s' \<Longrightarrow> reachable init step s'"

lemma reachable_steps: "reachable init step s \<Longrightarrow> step\<^sup>*\<^sup>* s s' \<Longrightarrow> reachable init step s'"
  by (rotate_tac 1, induction rule: rtranclp_induct) (auto intro: reachable_step)

locale machine =
  fixes init :: "'s \<Rightarrow> bool" and step :: "'s \<Rightarrow> 's \<Rightarrow> bool" and inv :: "'s \<Rightarrow> bool"
  assumes init_law: "init s \<Longrightarrow> inv s"
    and step_law: "inv s \<Longrightarrow> step s s' \<Longrightarrow> inv s'"
begin

lemma reachable_inv: "reachable init step s \<Longrightarrow> inv s"
  by (induction rule: reachable.induct) (auto intro: init_law step_law)

lemma steps_inv: "inv s \<Longrightarrow> step\<^sup>*\<^sup>* s s' \<Longrightarrow> inv s'"
  by (rotate_tac 1, induction rule: rtranclp_induct) (auto intro: step_law)

end

end
