(* ===== verification/Nonblocking_Connection.thy ===== *)
theory Nonblocking_Connection
  imports Connection State_Machine
begin

text \<open>
  \<open>NonblockingFdConnection\<close> of \<open>transport_fd.cpp\<close>: one thread polls the descriptor, reads blocks and
  cuts them into packets, while \<open>Write\<close> is called from the main thread and writes as much as the
  kernel takes. The lock makes \<open>Write\<close> and the dispatch of a writable descriptor atomic, but the set of
  events a \<open>poll\<close> waits for is fixed before it, so the steps of the thread are separate definitions.
\<close>

subsection \<open>State and operations\<close>

datatype WriteResult = WR_Error | WR_Completed | WR_TryAgain

record nb_connection =
  nb_running :: "bool option"
  nb_read_header :: "amessage option"
  nb_read_buffer :: iovector
  nb_writable :: bool
  nb_write_buffer :: iovector
  nb_wake_bytes :: nat
  nb_out :: bytes
  nb_handed :: "apacket list"

definition new_nb_connection :: nb_connection where
  "new_nb_connection = \<lparr>nb_running = None, nb_read_header = None, nb_read_buffer = iov_empty, nb_writable = True,
     nb_write_buffer = iov_empty, nb_wake_bytes = 0, nb_out = [], nb_handed = []\<rparr>"

text \<open>\<open>wv\<close> is the answer of \<open>writev\<close> to the whole buffer.\<close>

definition DispatchWrites :: "(nat \<Rightarrow> writev_result) \<Rightarrow> nb_connection \<Rightarrow> (WriteResult \<times> nb_connection) result" where
  "DispatchWrites wv c =
     (let q = nb_write_buffer c
      in rcheck (iov_size q \<noteq> 0) (rbind (iov_iovecs q) (\<lambda>iovs.
           case wv (iov_size q) of
             Would_block \<Rightarrow> Inr (WR_TryAgain, c\<lparr>nb_writable := False\<rparr>)
           | Write_failed \<Rightarrow> Inr (WR_Error, c)
           | Wrote n \<Rightarrow>
               if n = 0 then Inr (WR_Error, c)
               else rbind (iov_drop_front n q) (\<lambda>q'.
                    let c' = c\<lparr>nb_write_buffer := q', nb_writable := (iov_size q' = 0),
                                 nb_out := nb_out c @ take n (concat iovs)\<rparr>
                    in Inr (if iov_size q' = 0 then WR_Completed else WR_TryAgain, c')))))"

text \<open>The wake-up descriptor does not block: \<open>room\<close> is what still fits into it.\<close>

definition WakeThread :: "nat \<Rightarrow> nb_connection \<Rightarrow> nb_connection result" where
  "WakeThread room c = (if room < 8 then Inl Fatal else Inr (c\<lparr>nb_wake_bytes := nb_wake_bytes c + 8\<rparr>))"

definition nb_queue_packet :: "(nat \<Rightarrow> char) \<Rightarrow> apacket \<Rightarrow> nb_connection \<Rightarrow> nb_connection result" where
  "nb_queue_packet fresh p c =
     rbind (block_of_range fresh (amessage_bytes (msg p))) (\<lambda>h.
       let q1 = iov_append (nb_write_buffer c) h;
           q2 = (if bsize (payload p) \<noteq> 0 then iov_append q1 (fst (block_move_construct (payload p))) else q1)
       in Inr (c\<lparr>nb_write_buffer := q2\<rparr>))"

definition nb_Write ::
  "(nat \<Rightarrow> char) \<Rightarrow> (nat \<Rightarrow> writev_result) \<Rightarrow> nat \<Rightarrow> apacket \<Rightarrow> nb_connection \<Rightarrow> (bool \<times> nb_connection) result" where
  "nb_Write fresh wv room p c =
     rbind (nb_queue_packet fresh p c) (\<lambda>c1.
     rbind (DispatchWrites wv c1) (\<lambda>(r, c2).
     rbind (if r = WR_TryAgain then WakeThread room c2 else Inr c2) (\<lambda>c3.
       Inr (r \<noteq> WR_Error, c3))))"

text \<open>One turn of \<open>Run\<close>: the events asked for, and what happens for each that came.\<close>

definition nb_wants_pollout :: "nb_connection \<Rightarrow> bool" where
  "nb_wants_pollout c \<longleftrightarrow> \<not> nb_writable c"

definition nb_on_pollout :: "(nat \<Rightarrow> writev_result) \<Rightarrow> nb_connection \<Rightarrow> (string option \<times> nb_connection) result" where
  "nb_on_pollout wv c =
     rbind (DispatchWrites wv c) (\<lambda>(r, c1). Inr (if r = WR_Error then Some ''write failed'' else None, c1))"

definition nb_take_header ::
  "(nat \<Rightarrow> char) \<Rightarrow> amessage option \<Rightarrow> iovector \<Rightarrow> (amessage option \<times> iovector) result" where
  "nb_take_header fresh ho buf =
     (if ho = None \<and> amessage_size \<le> iov_size buf
      then rbind (iov_take_front fresh amessage_size buf) (\<lambda>(h, buf').
           rbind (iov_coalesce_move fresh h) (\<lambda>(hb, _).
             rcheck (bsize hb = amessage_size)
               (rbind (block_load hb 0 amessage_size) (\<lambda>bs. Inr (Some (amessage_at bs), buf')))))
      else Inr (ho, buf))"

definition nb_take_payload ::
  "(nat \<Rightarrow> char) \<Rightarrow> amessage option \<Rightarrow> iovector \<Rightarrow> (apacket option \<times> amessage option \<times> iovector) result" where
  "nb_take_payload fresh ho buf =
     (case ho of
        None \<Rightarrow> Inr (None, None, buf)
      | Some m \<Rightarrow>
          if iov_size buf < unat (data_length m) then Inr (None, ho, buf)
          else rbind (iov_take_front fresh (unat (data_length m)) buf) (\<lambda>(d, buf').
               rbind (iov_coalesce_move fresh d) (\<lambda>(b, _). Inr (Some \<lparr>msg = m, payload = b\<rparr>, None, buf'))))"

definition nb_on_data :: "(nat \<Rightarrow> char) \<Rightarrow> bytes \<Rightarrow> nb_connection \<Rightarrow> nb_connection result" where
  "nb_on_data fresh bs c =
     rbind (block_new fresh MAX_PAYLOAD) (\<lambda>b.
     rbind (block_store b 0 bs) (\<lambda>b1.
     rbind (block_resize fresh b1 (length bs)) (\<lambda>b2.
     rbind (nb_take_header fresh (nb_read_header c) (iov_append (nb_read_buffer c) b2)) (\<lambda>(ho, buf1).
     rbind (nb_take_payload fresh ho buf1) (\<lambda>(po, ho', buf2).
       Inr (c\<lparr>nb_read_header := ho', nb_read_buffer := buf2,
             nb_handed := nb_handed c @ (case po of None \<Rightarrow> [] | Some p \<Rightarrow> [p])\<rparr>))))))"

text \<open>\<open>rc\<close> is the answer of \<open>read\<close>: the text of the error, or the bytes.\<close>

definition nb_on_pollin :: "(nat \<Rightarrow> char) \<Rightarrow> string + bytes \<Rightarrow> nb_connection \<Rightarrow> (string option \<times> nb_connection) result" where
  "nb_on_pollin fresh rc c =
     (case rc of
        Inl err \<Rightarrow> Inr (Some (''read failed: '' @ err), c)
      | Inr [] \<Rightarrow> Inr (Some ''read failed: EOF'', c)
      | Inr bs \<Rightarrow> rbind (nb_on_data fresh bs c) (\<lambda>c'. Inr (None, c')))"

definition nb_on_wake :: "nb_connection \<Rightarrow> nb_connection result" where
  "nb_on_wake c = rcheck (8 \<le> nb_wake_bytes c) (Inr (c\<lparr>nb_wake_bytes := nb_wake_bytes c - 8\<rparr>))"

definition SetRunning :: "bool \<Rightarrow> nb_connection \<Rightarrow> nb_connection" where
  "SetRunning v c = c\<lparr>nb_running := Some v\<rparr>"

text \<open>\<open>Stop\<close> up to the \<open>join\<close>.\<close>

definition nb_Stop :: "nat \<Rightarrow> nb_connection \<Rightarrow> nb_connection result" where
  "nb_Stop room c = WakeThread room (SetRunning False c)"

subsection \<open>The thread and its callers\<close>

text \<open>
  Where the thread stands: not created, created and before the first statement of \<open>Run\<close>, at the loop
  condition, in \<open>poll\<close> with or without \<open>POLLOUT\<close>, with events still to handle, or after \<open>Run\<close> with the
  text that \<open>HandleError\<close> gets.
\<close>

datatype nb_event = Pout | Pin | Pwake

datatype nb_phase = Not_started | Entering | At_top | Polling bool | Handling "nb_event list" | Ended string

text \<open>
  A connection, its thread and the history: the packets given to \<open>Write\<close>, the bytes read, and whether
  a write has failed.
\<close>

record nb_system =
  sys_conn :: nb_connection
  sys_phase :: nb_phase
  sys_written :: "apacket list"
  sys_read :: bytes
  sys_failed :: bool

definition nb_init :: "nb_system \<Rightarrow> bool" where
  "nb_init s \<longleftrightarrow> s = \<lparr>sys_conn = new_nb_connection, sys_phase = Not_started, sys_written = [], sys_read = [], sys_failed = False\<rparr>"

text \<open>
  \<open>writev\<close> takes no more than it is offered, and never more than the \<open>0x7ffff000\<close> bytes to which Linux
  limits one call. A packet is written with its payload not yet read from.
\<close>

definition writev_law :: "(nat \<Rightarrow> writev_result) \<Rightarrow> bool" where
  "writev_law wv \<longleftrightarrow> (\<forall>n k. wv n = Wrote k \<longrightarrow> k \<le> n \<and> k \<le> 0x7ffff000)"

definition fresh_packet :: "apacket \<Rightarrow> bool" where
  "fresh_packet p \<longleftrightarrow> wf_block (payload p) \<and> bposition (payload p) = 0"

definition nb_after :: "nb_event list \<Rightarrow> string option \<Rightarrow> nb_phase" where
  "nb_after es e = (case e of None \<Rightarrow> Handling es | Some t \<Rightarrow> Ended t)"

inductive nb_step :: "(nat \<Rightarrow> char) \<Rightarrow> nb_system \<Rightarrow> nb_system \<Rightarrow> bool" for fresh where
  nb_start: "sys_phase s = Not_started \<Longrightarrow> nb_step fresh s (s\<lparr>sys_phase := Entering\<rparr>)"
| nb_enter: "sys_phase s = Entering \<Longrightarrow>
    nb_step fresh s (s\<lparr>sys_phase := At_top, sys_conn := SetRunning True (sys_conn s)\<rparr>)"
| nb_loop: "sys_phase s = At_top \<Longrightarrow> nb_running (sys_conn s) = Some True \<Longrightarrow>
    nb_step fresh s (s\<lparr>sys_phase := Polling (nb_wants_pollout (sys_conn s))\<rparr>)"
| nb_leave: "sys_phase s = At_top \<Longrightarrow> nb_running (sys_conn s) = Some False \<Longrightarrow>
    nb_step fresh s (s\<lparr>sys_phase := Ended ''connection closed''\<rparr>)"
| nb_poll_failed: "sys_phase s = Polling out \<Longrightarrow>
    nb_step fresh s (s\<lparr>sys_phase := Ended (''poll failed: '' @ err)\<rparr>)"
| nb_poll: "sys_phase s = Polling out \<Longrightarrow> es \<in> set (subseqs [Pout, Pin, Pwake]) \<Longrightarrow> (Pout \<in> set es \<longrightarrow> out) \<Longrightarrow>
    (Pwake \<in> set es \<longrightarrow> 0 < nb_wake_bytes (sys_conn s)) \<Longrightarrow>
    nb_step fresh s (s\<lparr>sys_phase := Handling es\<rparr>)"
| nb_out: "sys_phase s = Handling (Pout # es) \<Longrightarrow> writev_law wv \<Longrightarrow> nb_on_pollout wv (sys_conn s) = Inr (e, c) \<Longrightarrow>
    nb_step fresh s (s\<lparr>sys_phase := nb_after es e, sys_conn := c, sys_failed := (sys_failed s \<or> e \<noteq> None)\<rparr>)"
| nb_in: "sys_phase s = Handling (Pin # es) \<Longrightarrow> (\<forall>bs. rc = Inr bs \<longrightarrow> length bs \<le> MAX_PAYLOAD) \<Longrightarrow>
    nb_on_pollin fresh rc (sys_conn s) = Inr (e, c) \<Longrightarrow>
    nb_step fresh s (s\<lparr>sys_phase := nb_after es e, sys_conn := c,
      sys_read := sys_read s @ (case rc of Inl _ \<Rightarrow> [] | Inr bs \<Rightarrow> bs)\<rparr>)"
| nb_wake: "sys_phase s = Handling (Pwake # es) \<Longrightarrow> nb_on_wake (sys_conn s) = Inr c \<Longrightarrow>
    nb_step fresh s (s\<lparr>sys_phase := Handling es, sys_conn := c\<rparr>)"
| nb_again: "sys_phase s = Handling [] \<Longrightarrow> nb_step fresh s (s\<lparr>sys_phase := At_top\<rparr>)"
| nb_write: "fresh_packet p \<Longrightarrow> writev_law wv \<Longrightarrow> nb_Write fresh wv room p (sys_conn s) = Inr (ok, c) \<Longrightarrow>
    nb_step fresh s (s\<lparr>sys_conn := c, sys_written := sys_written s @ [p], sys_failed := (sys_failed s \<or> \<not> ok)\<rparr>)"
| nb_stop: "nb_Stop room (sys_conn s) = Inr c \<Longrightarrow> nb_step fresh s (s\<lparr>sys_conn := c\<rparr>)"

subsection \<open>Writing\<close>

text \<open>What \<open>DispatchWrites\<close> does to a non-empty buffer, by its result.\<close>

lemma DispatchWrites_ok:
  assumes "wf_iov (nb_write_buffer c)" "iov_bytes (nb_write_buffer c) \<noteq> []" "writev_law wv"
  shows "\<exists>r q k. DispatchWrites wv c =
             Inr (r, c\<lparr>nb_write_buffer := q, nb_out := nb_out c @ take k (iov_bytes (nb_write_buffer c)),
                       nb_writable := (if r = WR_Error then nb_writable c else r = WR_Completed)\<rparr>)
           \<and> wf_iov q \<and> iov_bytes q = drop k (iov_bytes (nb_write_buffer c))
           \<and> (r = WR_Completed \<longrightarrow> iov_bytes q = [])"
proof -
  let ?b = "iov_bytes (nb_write_buffer c)"
  obtain ss where ss: "iov_iovecs (nb_write_buffer c) = Inr ss" "concat ss = ?b"
    using iov_iterate_blocks_ok [OF assms(1)] by (auto simp: iov_iovecs_def)
  have sz: "iov_size (nb_write_buffer c) = length ?b" by (simp add: iov_size_bytes assms(1))
  have c: "c = c\<lparr>nb_write_buffer := nb_write_buffer c, nb_out := nb_out c @ take 0 ?b, nb_writable := nb_writable c\<rparr>"
    by simp
  consider (e) "wv (length ?b) = Write_failed \<or> wv (length ?b) = Wrote 0" | (b) "wv (length ?b) = Would_block"
    | (k) k where "wv (length ?b) = Wrote k" "0 < k" by (cases "wv (length ?b)") auto
  then show ?thesis
  proof cases
    case e
    then have "DispatchWrites wv c = Inr (WR_Error, c)" using assms ss sz by (auto simp: DispatchWrites_def)
    with c assms(1) show ?thesis by (intro exI [of _ WR_Error] exI [of _ "nb_write_buffer c"] exI [of _ 0]) simp
  next
    case b
    then have "DispatchWrites wv c = Inr (WR_TryAgain, c\<lparr>nb_writable := False\<rparr>)" using assms ss sz
      by (simp add: DispatchWrites_def)
    with assms(1) show ?thesis by (intro exI [of _ WR_TryAgain] exI [of _ "nb_write_buffer c"] exI [of _ 0]) simp
  next
    case k
    with assms(3) have le: "k \<le> length ?b" "k < 2 ^ 32" unfolding writev_law_def by fastforce+
    from iov_drop_front_ok [OF assms(1) this] obtain q where
      q: "iov_drop_front k (nb_write_buffer c) = Inr q" "wf_iov q" "iov_bytes q = drop k ?b" by blast
    let ?r = "if iov_size q = 0 then WR_Completed else WR_TryAgain"
    have "DispatchWrites wv c = Inr (?r, c\<lparr>nb_write_buffer := q, nb_writable := (iov_size q = 0), nb_out := nb_out c @ take k ?b\<rparr>)"
      using k assms ss sz q by (simp add: DispatchWrites_def)
    with q show ?thesis by (intro exI [of _ ?r] exI [of _ q] exI [of _ k]) (auto simp: iov_size_bytes)
  qed
qed

lemma DispatchWrites_cases:
  assumes "DispatchWrites wv c = Inr (r, c')" "wf_iov (nb_write_buffer c)" "writev_law wv"
  obtains q w where "c' = c\<lparr>nb_write_buffer := q, nb_out := nb_out c @ w,
                       nb_writable := (if r = WR_Error then nb_writable c else r = WR_Completed)\<rparr>"
    "wf_iov q" "w @ iov_bytes q = iov_bytes (nb_write_buffer c)" "r = WR_Completed \<longrightarrow> iov_bytes q = []"
proof (cases "iov_bytes (nb_write_buffer c) = []")
  case True
  with assms(1,2) show ?thesis by (simp add: DispatchWrites_def iov_size_bytes rcheck_def)
next
  case False
  from DispatchWrites_ok [OF assms(2) False assms(3)] assms(1) show ?thesis by (metis append_take_drop_id old.prod.inject sum.inject(2) that)
qed

lemma nb_queue_packet_ok:
  assumes "wf_iov (nb_write_buffer c)" "fresh_packet p"
  shows "\<exists>q. nb_queue_packet fresh p c = Inr (c\<lparr>nb_write_buffer := q\<rparr>) \<and> wf_iov q
     \<and> iov_bytes q = iov_bytes (nb_write_buffer c) @ packet_wire p"
proof -
  let ?h = "block_of (amessage_bytes (msg p))" and ?b = "fst (block_move_construct (payload p))"
  have b: "?b = payload p" by (simp add: block_move_construct_def)
  note 1 = iov_append_ok [OF assms(1), of ?h]
  note 2 = iov_append_ok [of "iov_append (nb_write_buffer c) ?h" "payload p"]
  have "bsize (payload p) = 0 \<Longrightarrow> block_bytes (payload p) = []"
    using assms(2) length_block_bytes [of "payload p"] by (simp add: fresh_packet_def)
  then show ?thesis using 1 2 assms(2) b
    by (cases "bsize (payload p) = 0")
      (auto simp: nb_queue_packet_def block_of_range_eq packet_wire_def fresh_packet_def Let_def)
qed

lemma nb_Write_cases:
  assumes "nb_Write fresh wv room p c = Inr (ok, c')" "wf_iov (nb_write_buffer c)" "fresh_packet p" "writev_law wv"
  obtains r q w where "c' = c\<lparr>nb_write_buffer := q,
        nb_out := nb_out c @ w,
        nb_writable := (if r = WR_Error then nb_writable c else r = WR_Completed),
        nb_wake_bytes := nb_wake_bytes c + (if r = WR_TryAgain then 8 else 0)\<rparr>"
    "wf_iov q" "w @ iov_bytes q = iov_bytes (nb_write_buffer c) @ packet_wire p"
    "r = WR_Completed \<longrightarrow> iov_bytes q = []" "ok \<longleftrightarrow> r \<noteq> WR_Error"
proof -
  from nb_queue_packet_ok [OF assms(2,3)] obtain q0 where
    q0: "nb_queue_packet fresh p c = Inr (c\<lparr>nb_write_buffer := q0\<rparr>)" "wf_iov q0"
      "iov_bytes q0 = iov_bytes (nb_write_buffer c) @ packet_wire p" by blast
  let ?c = "c\<lparr>nb_write_buffer := q0\<rparr>"
  from assms(1) q0(1) obtain r c2 where d: "DispatchWrites wv ?c = Inr (r, c2)" "ok \<longleftrightarrow> r \<noteq> WR_Error"
    and w: "(if r = WR_TryAgain then WakeThread room c2 else Inr c2) = Inr c'"
    by (auto simp: nb_Write_def rbind_eq_Inr)
  have w': "c' = c2\<lparr>nb_wake_bytes := nb_wake_bytes c2 + (if r = WR_TryAgain then 8 else 0)\<rparr>"
    using w by (cases "r = WR_TryAgain"; cases "room < 8") (simp_all add: WakeThread_def)
  have wf: "wf_iov (nb_write_buffer ?c)" using q0(2) by simp
  obtain q w where q: "c2 = ?c\<lparr>nb_write_buffer := q, nb_out := nb_out ?c @ w,
      nb_writable := (if r = WR_Error then nb_writable ?c else r = WR_Completed)\<rparr>"
    "wf_iov q" "w @ iov_bytes q = iov_bytes (nb_write_buffer ?c)" "r = WR_Completed \<longrightarrow> iov_bytes q = []"
    by (rule DispatchWrites_cases [OF d(1) wf assms(4)])
  show ?thesis
  proof (rule that)
    show "c' = c\<lparr>nb_write_buffer := q, nb_out := nb_out c @ w,
        nb_writable := (if r = WR_Error then nb_writable c else r = WR_Completed),
        nb_wake_bytes := nb_wake_bytes c + (if r = WR_TryAgain then 8 else 0)\<rparr>"
      unfolding w' q(1) by (cases r) simp_all
    show "w @ iov_bytes q = iov_bytes (nb_write_buffer c) @ packet_wire p" using q(3) q0(3) by simp
  qed (fact q(2) q(4) d(2))+
qed

lemma nb_on_pollout_cases:
  assumes "nb_on_pollout wv c = Inr (e, c')" "wf_iov (nb_write_buffer c)" "writev_law wv"
  obtains r q w where "c' = c\<lparr>nb_write_buffer := q, nb_out := nb_out c @ w,
        nb_writable := (if r = WR_Error then nb_writable c else r = WR_Completed)\<rparr>"
    "wf_iov q" "w @ iov_bytes q = iov_bytes (nb_write_buffer c)"
    "r = WR_Completed \<longrightarrow> iov_bytes q = []" "e = (if r = WR_Error then Some ''write failed'' else None)"
proof -
  from assms(1) obtain r where "DispatchWrites wv c = Inr (r, c')" "e = (if r = WR_Error then Some ''write failed'' else None)"
    by (auto simp: nb_on_pollout_def rbind_eq_Inr split: prod.splits)
  with DispatchWrites_cases [OF _ assms(2,3)] that show ?thesis by metis
qed

subsection \<open>Reading\<close>

text \<open>The bytes a header that has been taken from the buffer came from.\<close>

definition header_bytes :: "amessage option \<Rightarrow> bytes" where
  "header_bytes ho = (case ho of None \<Rightarrow> [] | Some m \<Rightarrow> amessage_bytes m)"

lemma nb_take_header_ok:
  assumes "wf_iov buf"
  shows "\<exists>ho' buf'. nb_take_header fresh ho buf = Inr (ho', buf') \<and> wf_iov buf'
     \<and> header_bytes ho' @ iov_bytes buf' = header_bytes ho @ iov_bytes buf
     \<and> (ho' = None \<longrightarrow> length (iov_bytes buf) < amessage_size)"
proof (cases "ho = None \<and> amessage_size \<le> iov_size buf")
  case True
  then have le: "amessage_size \<le> length (iov_bytes buf)" using assms by (simp add: iov_size_bytes)
  from iov_take_front_ok [OF assms le, of fresh] obtain h buf' where
    h: "iov_take_front fresh amessage_size buf = Inr (h, buf')" "wf_iov h" "wf_iov buf'"
      "iov_bytes h = take amessage_size (iov_bytes buf)" "iov_bytes buf' = drop amessage_size (iov_bytes buf)" by blast
  from iov_coalesce_move_ok [OF h(2), of fresh] obtain r v where
    r: "iov_coalesce_move fresh h = Inr (r, v)" "wf_block r" "block_bytes r = iov_bytes h" by blast
  have "bsize r = amessage_size" using r(2,3) h(4) le length_block_bytes [of r] by simp
  moreover have "block_load r 0 amessage_size = Inr (take amessage_size (iov_bytes buf))"
    using r h(4) calculation by (simp add: block_load_ok)
  moreover have "amessage_bytes (amessage_at (take amessage_size (iov_bytes buf))) = take amessage_size (iov_bytes buf)"
    using le by (simp add: amessage_bytes_at amessage_size_def)
  ultimately show ?thesis using True h r by (simp add: nb_take_header_def header_bytes_def)
next
  case False
  then have "nb_take_header fresh ho buf = Inr (ho, buf)" unfolding nb_take_header_def by (rule if_not_P)
  with assms False show ?thesis by (auto simp: iov_size_bytes)
qed

lemma nb_take_payload_ok:
  assumes "wf_iov buf"
  shows "\<exists>po ho' buf'. nb_take_payload fresh ho buf = Inr (po, ho', buf') \<and> wf_iov buf'
     \<and> (case po of None \<Rightarrow> [] | Some p \<Rightarrow> packet_wire p) @ header_bytes ho' @ iov_bytes buf' = header_bytes ho @ iov_bytes buf
     \<and> (\<forall>p. po = Some p \<longrightarrow> wf_block (payload p) \<and> bsize (payload p) = unat (data_length (msg p)))
     \<and> (\<forall>m. ho = Some m \<longrightarrow> unat (data_length m) \<le> length (iov_bytes buf) \<longrightarrow> po \<noteq> None \<and> ho' = None)"
proof (cases ho)
  case None
  with assms show ?thesis by (simp add: nb_take_payload_def)
next
  case (Some m)
  let ?n = "unat (data_length m)"
  show ?thesis
  proof (cases "iov_size buf < ?n")
    case True
    with Some assms show ?thesis by (simp add: nb_take_payload_def iov_size_bytes)
  next
    case False
    then have le: "?n \<le> length (iov_bytes buf)" using assms by (simp add: iov_size_bytes)
    from iov_take_front_ok [OF assms le, of fresh] obtain d buf' where
      d: "iov_take_front fresh ?n buf = Inr (d, buf')" "wf_iov d" "wf_iov buf'"
        "iov_bytes d = take ?n (iov_bytes buf)" "iov_bytes buf' = drop ?n (iov_bytes buf)" by blast
    from iov_coalesce_move_ok [OF d(2), of fresh] obtain r v where
      r: "iov_coalesce_move fresh d = Inr (r, v)" "wf_block r" "block_bytes r = iov_bytes d" by blast
    have "bsize r = ?n" using r(2,3) d(4) le length_block_bytes [of r] by simp
    with Some False d r show ?thesis by (simp add: nb_take_payload_def header_bytes_def packet_wire_def)
  qed
qed

text \<open>The block that a read of \<open>bs\<close> leaves.\<close>

lemma nb_read_block_ok:
  assumes "length bs \<le> MAX_PAYLOAD"
  shows "\<exists>b b1 b2. block_new fresh MAX_PAYLOAD = Inr b \<and> block_store b 0 bs = Inr b1
     \<and> block_resize fresh b1 (length bs) = Inr b2 \<and> wf_block b2 \<and> bposition b2 = 0 \<and> block_bytes b2 = bs"
proof -
  let ?d = "map fresh [0..<MAX_PAYLOAD]"
  have "MAX_PAYLOAD \<noteq> 0" by (simp add: MAX_PAYLOAD_def)
  then show ?thesis using assms
    by (auto simp: block_new_def block_allocate_def block_empty_def block_store_def block_resize_def mem_write_def
        wf_block_def block_bytes_def)
qed

definition nb_received :: "nb_connection \<Rightarrow> bytes" where
  "nb_received c = concat (map packet_wire (nb_handed c)) @ header_bytes (nb_read_header c) @ iov_bytes (nb_read_buffer c)"

definition whole_packet :: "apacket \<Rightarrow> bool" where
  "whole_packet p \<longleftrightarrow> wf_block (payload p) \<and> bsize (payload p) = unat (data_length (msg p))"

lemma nb_on_data_ok:
  assumes "wf_iov (nb_read_buffer c)" "length bs \<le> MAX_PAYLOAD" "list_all whole_packet (nb_handed c)"
  shows "\<exists>ho buf ps. nb_on_data fresh bs c = Inr (c\<lparr>nb_read_header := ho, nb_read_buffer := buf, nb_handed := nb_handed c @ ps\<rparr>)
     \<and> wf_iov buf \<and> list_all whole_packet ps \<and> length ps \<le> 1
     \<and> nb_received (c\<lparr>nb_read_header := ho, nb_read_buffer := buf, nb_handed := nb_handed c @ ps\<rparr>) = nb_received c @ bs"
proof -
  from nb_read_block_ok [OF assms(2), of fresh] obtain b b1 b2 where
    b: "block_new fresh MAX_PAYLOAD = Inr b" "block_store b 0 bs = Inr b1" "block_resize fresh b1 (length bs) = Inr b2"
      "wf_block b2" "bposition b2 = 0" "block_bytes b2 = bs" by blast
  let ?buf = "iov_append (nb_read_buffer c) b2"
  note ap = iov_append_ok [OF assms(1) b(4,5)]
  from nb_take_header_ok [OF ap(1), of fresh "nb_read_header c"] obtain ho1 buf1 where
    h: "nb_take_header fresh (nb_read_header c) ?buf = Inr (ho1, buf1)" "wf_iov buf1"
      "header_bytes ho1 @ iov_bytes buf1 = header_bytes (nb_read_header c) @ iov_bytes ?buf" by blast
  from nb_take_payload_ok [OF h(2), of fresh ho1] obtain po ho2 buf2 where
    p: "nb_take_payload fresh ho1 buf1 = Inr (po, ho2, buf2)" "wf_iov buf2"
      "(case po of None \<Rightarrow> [] | Some p \<Rightarrow> packet_wire p) @ header_bytes ho2 @ iov_bytes buf2 = header_bytes ho1 @ iov_bytes buf1"
      "\<forall>p. po = Some p \<longrightarrow> wf_block (payload p) \<and> bsize (payload p) = unat (data_length (msg p))" by metis
  let ?ps = "case po of None \<Rightarrow> [] | Some p \<Rightarrow> [p]"
  have "nb_on_data fresh bs c = Inr (c\<lparr>nb_read_header := ho2, nb_read_buffer := buf2, nb_handed := nb_handed c @ ?ps\<rparr>)"
    using b h p by (simp add: nb_on_data_def)
  moreover have "list_all whole_packet ?ps" "length ?ps \<le> 1" using p(4) by (auto simp: whole_packet_def split: option.split)
  moreover have "concat (map packet_wire ?ps) = (case po of None \<Rightarrow> [] | Some p \<Rightarrow> packet_wire p)" by (simp split: option.split)
  ultimately show ?thesis using p(2,3) h(3) ap(2) b(6)
    by (intro exI [of _ ho2] exI [of _ buf2] exI [of _ ?ps]) (simp add: nb_received_def)
qed

subsection \<open>The invariant of the running connection\<close>

text \<open>
  What has been written out, followed by the buffer, is what was given to \<open>Write\<close>; what was read is what
  was handed on, followed by the header and the buffer. As long as no write has failed, data that waits has
  \<open>POLLOUT\<close> asked for at the next \<open>poll\<close>, and a thread already in a \<open>poll\<close> without it has a wake-up waiting.
\<close>

definition wake_pending :: "nb_phase \<Rightarrow> nat \<Rightarrow> bool" where
  "wake_pending ph n \<longleftrightarrow> (case ph of Handling es \<Rightarrow> distinct es \<and> (Pwake \<in> set es \<longrightarrow> 8 \<le> n) | _ \<Rightarrow> True)"

definition nb_inv :: "nb_system \<Rightarrow> bool" where
  "nb_inv s \<longleftrightarrow>
     (let c = sys_conn s; b = iov_bytes (nb_write_buffer c)
      in wf_iov (nb_write_buffer c) \<and> wf_iov (nb_read_buffer c)
         \<and> nb_out c @ b = concat (map packet_wire (sys_written s))
         \<and> nb_received c = sys_read s \<and> list_all whole_packet (nb_handed c)
         \<and> (\<not> sys_failed s \<longrightarrow> b \<noteq> [] \<longrightarrow> \<not> nb_writable c)
         \<and> (\<not> sys_failed s \<longrightarrow> b \<noteq> [] \<longrightarrow> sys_phase s = Polling False \<longrightarrow> 8 \<le> nb_wake_bytes c)
         \<and> 8 dvd nb_wake_bytes c \<and> wake_pending (sys_phase s) (nb_wake_bytes c))"

lemma nb_received_cong [simp]:
  "nb_received (c\<lparr>nb_write_buffer := q\<rparr>) = nb_received c" "nb_received (c\<lparr>nb_out := o'\<rparr>) = nb_received c"
  "nb_received (c\<lparr>nb_writable := w\<rparr>) = nb_received c" "nb_received (c\<lparr>nb_wake_bytes := n\<rparr>) = nb_received c"
  "nb_received (c\<lparr>nb_running := r\<rparr>) = nb_received c"
  by (simp_all add: nb_received_def)

lemma nb_after_not_polling [simp]: "nb_after es e \<noteq> Polling b"
  by (simp add: nb_after_def split: option.split)

lemma wake_pending_simps [simp]:
  "wake_pending Not_started n" "wake_pending Entering n" "wake_pending At_top n" "wake_pending (Polling b) n"
  "wake_pending (Ended t) n" "wake_pending (Handling []) n"
  "wake_pending (Handling es) n \<Longrightarrow> wake_pending (Handling es) (n + k)"
  by (auto simp: wake_pending_def)

lemma wake_pending_add: "wake_pending ph n \<Longrightarrow> wake_pending ph (n + k)"
  by (cases ph) simp_all

lemma wake_pending_after: "wake_pending (Handling (x # es)) n \<Longrightarrow> wake_pending (nb_after es e) n"
  by (auto simp: wake_pending_def nb_after_def split: option.split)

lemma wake_pending_poll:
  assumes "es \<in> set (subseqs [Pout, Pin, Pwake])" "Pwake \<in> set es \<longrightarrow> 0 < n" "8 dvd n"
  shows "wake_pending (Handling es) n"
proof -
  have "distinct es" using assms(1) by auto
  with assms(2,3) show ?thesis by (auto simp: wake_pending_def dest: dvd_imp_le)
qed

lemma nb_init_inv: "nb_init s \<Longrightarrow> nb_inv s"
  by (simp add: nb_init_def nb_inv_def new_nb_connection_def nb_received_def header_bytes_def iov_empty_def wf_iov_def iov_bytes_def)

lemma nb_write_inv:
  assumes "nb_inv s" "fresh_packet p" "writev_law wv" "nb_Write fresh wv room p (sys_conn s) = Inr (ok, c)"
  shows "nb_inv (s\<lparr>sys_conn := c, sys_written := sys_written s @ [p], sys_failed := (sys_failed s \<or> \<not> ok)\<rparr>)"
proof -
  have wf: "wf_iov (nb_write_buffer (sys_conn s))" using assms(1) by (simp add: nb_inv_def Let_def)
  obtain r q w where c: "c = sys_conn s\<lparr>nb_write_buffer := q, nb_out := nb_out (sys_conn s) @ w,
        nb_writable := (if r = WR_Error then nb_writable (sys_conn s) else r = WR_Completed),
        nb_wake_bytes := nb_wake_bytes (sys_conn s) + (if r = WR_TryAgain then 8 else 0)\<rparr>"
    "wf_iov q" "w @ iov_bytes q = iov_bytes (nb_write_buffer (sys_conn s)) @ packet_wire p"
    "r = WR_Completed \<longrightarrow> iov_bytes q = []" "ok \<longleftrightarrow> r \<noteq> WR_Error"
    by (rule nb_Write_cases [OF assms(4) wf assms(2,3)])
  have "nb_out (sys_conn s) @ w @ iov_bytes q = concat (map packet_wire (sys_written s)) @ packet_wire p"
    using assms(1) c(3) by (simp add: nb_inv_def Let_def flip: append_assoc)
  then show ?thesis using assms(1) c(2,4,5) unfolding c(1)
    by (cases r) (simp_all add: nb_inv_def Let_def wake_pending_add)
qed

lemma nb_out_inv:
  assumes "nb_inv s" "writev_law wv" "nb_on_pollout wv (sys_conn s) = Inr (e, c)" "sys_phase s = Handling (x # es)"
  shows "nb_inv (s\<lparr>sys_phase := nb_after es e, sys_conn := c, sys_failed := (sys_failed s \<or> e \<noteq> None)\<rparr>)"
proof -
  have wf: "wf_iov (nb_write_buffer (sys_conn s))" using assms(1) by (simp add: nb_inv_def Let_def)
  show ?thesis
    by (rule nb_on_pollout_cases [OF assms(3) wf assms(2)])
      (use assms(1,4) in \<open>auto simp: nb_inv_def Let_def split: if_splits intro: wake_pending_after\<close>)
qed

lemma nb_in_inv:
  assumes "nb_inv s" "\<forall>bs. rc = Inr bs \<longrightarrow> length bs \<le> MAX_PAYLOAD" "nb_on_pollin fresh rc (sys_conn s) = Inr (e, c)"
    "sys_phase s = Handling (x # es)"
  shows "nb_inv (s\<lparr>sys_phase := nb_after es e, sys_conn := c, sys_read := sys_read s @ (case rc of Inl _ \<Rightarrow> [] | Inr bs \<Rightarrow> bs)\<rparr>)"
proof -
  consider (err) "c = sys_conn s" "(case rc of Inl _ \<Rightarrow> [] | Inr bs \<Rightarrow> bs) = []"
    | (data) bs where "rc = Inr bs" "nb_on_data fresh bs (sys_conn s) = Inr c"
    using assms(3) by (cases rc) (auto simp: nb_on_pollin_def rbind_eq_Inr split: list.splits)
  then show ?thesis
  proof cases
    case err
    with assms(1,4) show ?thesis by (auto simp: nb_inv_def Let_def intro: wake_pending_after)
  next
    case data
    with nb_on_data_ok [of "sys_conn s" bs fresh] assms(1,2,4) show ?thesis by (auto simp: nb_inv_def Let_def intro: wake_pending_after)
  qed
qed

lemma nb_step_inv:
  assumes "nb_step fresh s s'" "nb_inv s"
  shows "nb_inv s'"
  using assms
proof (induction rule: nb_step.induct)
  case nb_out
  then show ?case by (intro nb_out_inv)
next
  case nb_in
  then show ?case by (intro nb_in_inv)
next
  case nb_write
  then show ?case by (intro nb_write_inv)
next
  case (nb_wake s es c)
  then show ?case by (auto simp: nb_inv_def Let_def nb_on_wake_def rcheck_def wake_pending_def split: if_splits intro: dvd_diff_nat)
next
  case (nb_stop room s c)
  then show ?case by (auto simp: nb_inv_def Let_def nb_Stop_def WakeThread_def SetRunning_def wake_pending_add split: if_splits)
next
  case nb_poll
  then show ?case by (simp add: nb_inv_def Let_def wake_pending_poll del: subseqs.simps)
qed (simp_all add: nb_inv_def Let_def SetRunning_def nb_wants_pollout_def)

interpretation nbm: machine nb_init "nb_step fresh" nb_inv for fresh
  by unfold_locales (auto intro: nb_init_inv nb_step_inv)

subsection \<open>Properties\<close>

lemma nb_inv_buffers: "nb_inv s \<Longrightarrow> wf_iov (nb_write_buffer (sys_conn s)) \<and> wf_iov (nb_read_buffer (sys_conn s))"
  by (simp add: nb_inv_def Let_def)

lemma nb_Write_total:
  assumes "wf_iov (nb_write_buffer c)" "fresh_packet p" "writev_law wv" "8 \<le> room"
  shows "\<exists>ok c'. nb_Write fresh wv room p c = Inr (ok, c')"
proof -
  from nb_queue_packet_ok [OF assms(1,2)] obtain q where
    q: "nb_queue_packet fresh p c = Inr (c\<lparr>nb_write_buffer := q\<rparr>)" "wf_iov q"
      "iov_bytes q = iov_bytes (nb_write_buffer c) @ packet_wire p" by blast
  have "iov_bytes q \<noteq> []" by (simp add: q(3) packet_wire_def amessage_bytes_def le32_def)
  with DispatchWrites_ok [of "c\<lparr>nb_write_buffer := q\<rparr>" wv] q(2) assms(3) obtain r c2 where
    "DispatchWrites wv (c\<lparr>nb_write_buffer := q\<rparr>) = Inr (r, c2)" by auto
  then show ?thesis using q(1) assms(4) by (cases "r = WR_TryAgain") (auto simp: nb_Write_def WakeThread_def)
qed

text \<open>
  C18: in every state that a non-blocking connection reaches, whatever the kernel takes, whatever arrives
  and however the calls of \<open>Write\<close> and \<open>Stop\<close> interleave with the thread, the bytes written out followed
  by those still buffered are exactly the packets given to \<open>Write\<close>, in order; the bytes read are exactly
  the packets handed to the transport, each with as much payload as its header says, followed by the
  header and the bytes that wait for more. Unless a write has failed, the thread cannot sleep over
  buffered data: if it is in \<open>poll\<close> without \<open>POLLOUT\<close>, a wake-up is waiting for it.
\<close>

theorem nb_connection_exact:
  assumes "reachable nb_init (nb_step fresh) s"
  shows "nb_out (sys_conn s) @ iov_bytes (nb_write_buffer (sys_conn s)) = concat (map packet_wire (sys_written s))
    \<and> concat (map packet_wire (nb_handed (sys_conn s))) @ header_bytes (nb_read_header (sys_conn s))
        @ iov_bytes (nb_read_buffer (sys_conn s)) = sys_read s
    \<and> list_all (\<lambda>p. bsize (payload p) = unat (data_length (msg p))) (nb_handed (sys_conn s))
    \<and> (\<not> sys_failed s \<longrightarrow> sys_phase s = Polling False \<longrightarrow> iov_bytes (nb_write_buffer (sys_conn s)) \<noteq> [] \<longrightarrow>
         8 \<le> nb_wake_bytes (sys_conn s))"
proof -
  have "nb_inv s" by (rule nbm.reachable_inv [OF assms])
  moreover have "list_all whole_packet ps \<Longrightarrow> list_all (\<lambda>p. bsize (payload p) = unat (data_length (msg p))) ps" for ps
    by (erule list.pred_mono_strong) (simp add: whole_packet_def)
  ultimately show ?thesis by (simp add: nb_inv_def Let_def nb_received_def)
qed

text \<open>
  The only check that a reachable connection can fail in its own steps is the one on an empty write
  buffer. A \<open>Write\<close> with room for the wake-up, the handling of a read of at most \<open>MAX_PAYLOAD\<close> bytes and
  the handling of a wake-up never abort, and the handling of \<open>POLLOUT\<close> aborts exactly when the buffer is
  empty.
\<close>

theorem nb_aborts_only_on_empty_buffer:
  assumes "reachable nb_init (nb_step fresh) s" "writev_law wv"
  shows "(fresh_packet p \<longrightarrow> 8 \<le> room \<longrightarrow> (\<exists>r. nb_Write fresh wv room p (sys_conn s) = Inr r))
    \<and> (length bs \<le> MAX_PAYLOAD \<longrightarrow> (\<exists>r. nb_on_pollin fresh (Inr bs) (sys_conn s) = Inr r))
    \<and> (sys_phase s = Handling (Pwake # es) \<longrightarrow> (\<exists>r. nb_on_wake (sys_conn s) = Inr r))
    \<and> ((\<exists>f. nb_on_pollout wv (sys_conn s) = Inl f) \<longleftrightarrow> iov_bytes (nb_write_buffer (sys_conn s)) = [])"
proof -
  have inv: "nb_inv s" by (rule nbm.reachable_inv [OF assms(1)])
  note wf = nb_inv_buffers [OF inv]
  have "\<exists>r. nb_on_pollin fresh (Inr bs) (sys_conn s) = Inr r" if "length bs \<le> MAX_PAYLOAD"
    using nb_on_data_ok [of "sys_conn s" bs fresh] that inv
    by (cases bs) (auto simp: nb_on_pollin_def nb_inv_def Let_def)
  moreover have "\<exists>r. nb_on_wake (sys_conn s) = Inr r" if "sys_phase s = Handling (Pwake # es)"
    using inv that by (simp add: nb_inv_def Let_def wake_pending_def nb_on_wake_def rcheck_def)
  moreover have "(\<exists>f. nb_on_pollout wv (sys_conn s) = Inl f) \<longleftrightarrow> iov_bytes (nb_write_buffer (sys_conn s)) = []"
  proof (cases "iov_bytes (nb_write_buffer (sys_conn s)) = []")
    case True
    with wf show ?thesis by (simp add: nb_on_pollout_def DispatchWrites_def rcheck_def iov_size_bytes)
  next
    case False
    with DispatchWrites_ok [of "sys_conn s" wv] wf assms(2) show ?thesis by (auto simp: nb_on_pollout_def)
  qed
  ultimately show ?thesis using nb_Write_total wf assms(2) by fast
qed

text \<open>A first packet the kernel does not take, and one it does while \<open>POLLOUT\<close> is being reported.\<close>

definition example_apacket :: apacket where
  "example_apacket = \<lparr>msg = \<lparr>command = 0x4e584e43, arg0 = 0, arg1 = 0, data_length = 0, data_check = 0, magic = 0\<rparr>,
     payload = block_empty\<rparr>"

lemma example_apacket_fresh [simp]: "fresh_packet example_apacket"
  by (simp add: fresh_packet_def example_apacket_def block_empty_def wf_block_def)

definition nb_race_state :: "(nat \<Rightarrow> char) \<Rightarrow> nb_system" where
  "nb_race_state fresh = \<lparr>sys_conn = new_nb_connection\<lparr>nb_running := Some True, nb_wake_bytes := 8,
       nb_out := packet_wire example_apacket @ packet_wire example_apacket\<rparr>,
     sys_phase = Handling [Pout], sys_written = [example_apacket, example_apacket], sys_read = [], sys_failed = False\<rparr>"

definition takes_all :: "nat \<Rightarrow> writev_result" where
  "takes_all n = (if n \<le> 0x7ffff000 then Wrote n else Would_block)"

lemma writev_law_examples [simp]: "writev_law (\<lambda>_. Would_block)" "writev_law takes_all"
  by (simp_all add: writev_law_def takes_all_def)

definition nb_blocked :: nb_connection where
  "nb_blocked = new_nb_connection\<lparr>nb_running := Some True, nb_wake_bytes := 8, nb_writable := False,
     nb_write_buffer := iov_append iov_empty (block_of (amessage_bytes (msg example_apacket)))\<rparr>"

lemma length_example_header [simp]: "length (amessage_bytes (msg example_apacket)) = 24"
  by (simp add: amessage_bytes_def)

lemma example_queue:
  "nb_queue_packet fresh example_apacket c =
     Inr (c\<lparr>nb_write_buffer := iov_append (nb_write_buffer c) (block_of (amessage_bytes (msg example_apacket)))\<rparr>)"
  by (simp add: nb_queue_packet_def block_of_range_eq Let_def) (simp add: example_apacket_def block_empty_def)

lemma nb_race_write1:
  "nb_Write fresh (\<lambda>_. Would_block) 8 example_apacket (SetRunning True new_nb_connection) = Inr (True, nb_blocked)"
  by (simp add: nb_Write_def example_queue DispatchWrites_def Let_def SetRunning_def WakeThread_def nb_blocked_def
      new_nb_connection_def rcheck_def iov_size_def iov_append_def iov_empty_def iov_iovecs_def iov_iterate_blocks_def)

lemma nb_race_write2:
  "nb_Write fresh takes_all 8 example_apacket nb_blocked = Inr (True, sys_conn (nb_race_state fresh))"
proof -
  have "packet_wire example_apacket = amessage_bytes (msg example_apacket)"
    by (simp add: packet_wire_def example_apacket_def block_empty_def block_bytes_def)
  then show ?thesis
    by (simp add: nb_Write_def example_queue DispatchWrites_def Let_def takes_all_def nb_blocked_def nb_race_state_def
      new_nb_connection_def rcheck_def iov_size_def iov_append_def iov_empty_def iov_iovecs_def iov_iterate_blocks_def
      iov_drop_front_def iov_clear_def)
qed

lemma nb_race_reachable: "reachable nb_init (nb_step fresh) (nb_race_state fresh)"
proof -
  let ?s = "\<lambda>c ph ws. \<lparr>sys_conn = c, sys_phase = ph, sys_written = ws, sys_read = [], sys_failed = False\<rparr>"
  let ?c = "sys_conn (nb_race_state fresh)" and ?p = example_apacket
  have 0: "reachable nb_init (nb_step fresh) (?s new_nb_connection Not_started [])"
    by (rule reachable_init) (simp add: nb_init_def)
  have 1: "nb_step fresh (?s new_nb_connection Not_started []) (?s new_nb_connection Entering [])"
    using nb_start [of "?s new_nb_connection Not_started []"] by simp
  have 2: "nb_step fresh (?s new_nb_connection Entering []) (?s (SetRunning True new_nb_connection) At_top [])"
    using nb_enter [of "?s new_nb_connection Entering []"] by simp
  have 3: "nb_step fresh (?s (SetRunning True new_nb_connection) At_top []) (?s nb_blocked At_top [?p])"
    using nb_write [where s = "?s (SetRunning True new_nb_connection) At_top []" and fresh = fresh, simplified, OF _ _ nb_race_write1]
    by simp
  have 4: "nb_step fresh (?s nb_blocked At_top [?p]) (?s nb_blocked (Polling True) [?p])"
    using nb_loop [of "?s nb_blocked At_top [?p]"] by (simp add: nb_blocked_def nb_wants_pollout_def)
  have 5: "nb_step fresh (?s nb_blocked (Polling True) [?p]) (?s ?c (Polling True) [?p, ?p])"
    using nb_write [where s = "?s nb_blocked (Polling True) [?p]" and fresh = fresh, simplified, OF _ _ nb_race_write2]
    by simp
  have 6: "nb_step fresh (?s ?c (Polling True) [?p, ?p]) (?s ?c (Handling [Pout]) [?p, ?p])"
    using nb_poll [of "?s ?c (Polling True) [?p, ?p]" True "[Pout]" fresh] by (simp add: Let_def)
  have "nb_race_state fresh = ?s ?c (Handling [Pout]) [?p, ?p]" by (simp add: nb_race_state_def)
  with 0 1 2 3 4 5 6 show ?thesis by (metis reachable_step)
qed

theorem nb_connection_exact_witness:
  "nb_out (sys_conn (nb_race_state (\<lambda>_. CHR ''x''))) @ iov_bytes (nb_write_buffer (sys_conn (nb_race_state (\<lambda>_. CHR ''x''))))
     = packet_wire example_apacket @ packet_wire example_apacket"
  using nb_connection_exact [OF nb_race_reachable, of "\<lambda>_. CHR ''x''"] by (simp add: nb_race_state_def)

theorem nb_aborts_only_on_empty_buffer_witness:
  "\<exists>f. nb_on_pollout takes_all (sys_conn (nb_race_state (\<lambda>_. CHR ''x''))) = Inl f"
  using nb_aborts_only_on_empty_buffer [OF nb_race_reachable writev_law_examples(2)]
  by (simp add: nb_race_state_def new_nb_connection_def iov_empty_def iov_bytes_def)

text \<open>
  C36: that check does fail. The thread waits in \<open>poll\<close> for a descriptor that did not take a first packet;
  the descriptor becomes writable, \<open>poll\<close> returns with \<open>POLLOUT\<close>, and before the thread has the lock a
  second \<open>Write\<close> sends all that is buffered. The thread then finds the buffer empty and aborts the process.
\<close>

theorem nb_pollout_race:
  "\<exists>s. reachable nb_init (nb_step fresh) s \<and> sys_phase s = Handling [Pout] \<and> \<not> sys_failed s
     \<and> (\<forall>wv. nb_on_pollout wv (sys_conn s) = Inl Check_failed)"
  using nb_race_reachable [of fresh]
  by (intro exI [of _ "nb_race_state fresh"]) 
    (simp add: nb_race_state_def nb_on_pollout_def DispatchWrites_def new_nb_connection_def rcheck_def iov_size_def iov_empty_def)

lemma packet_wire_cong:
  assumes "packet_wire p @ xs = packet_wire q @ ys" "whole_packet p" "whole_packet q"
  shows "packet_wire p = packet_wire q" "xs = ys"
proof -
  have h: "amessage_bytes (msg p) @ block_bytes (payload p) @ xs = amessage_bytes (msg q) @ block_bytes (payload q) @ ys"
    using assms(1) by (simp add: packet_wire_def)
  then have "msg p = msg q" by (metis amessage_at_bytes_append)
  with assms(2,3) have "length (packet_wire p) = length (packet_wire q)"
    by (simp add: packet_wire_def whole_packet_def length_block_bytes)
  with assms(1) show "packet_wire p = packet_wire q" "xs = ys" by simp_all
qed

lemma nb_on_data_whole:
  assumes "nb_read_header c = None" "wf_iov (nb_read_buffer c)" "length bs \<le> MAX_PAYLOAD"
    "iov_bytes (nb_read_buffer c) @ bs = packet_wire p @ rest" "whole_packet p"
  shows "\<exists>c' p'. nb_on_data fresh bs c = Inr c' \<and> nb_handed c' = nb_handed c @ [p'] \<and> packet_wire p' = packet_wire p
    \<and> nb_read_header c' = None \<and> iov_bytes (nb_read_buffer c') = rest"
proof -
  from nb_read_block_ok [OF assms(3), of fresh] obtain b b1 b2 where
    b: "block_new fresh MAX_PAYLOAD = Inr b" "block_store b 0 bs = Inr b1" "block_resize fresh b1 (length bs) = Inr b2"
      "wf_block b2" "bposition b2 = 0" "block_bytes b2 = bs" by blast
  let ?buf = "iov_append (nb_read_buffer c) b2"
  note ap = iov_append_ok [OF assms(2) b(4,5)]
  have all: "iov_bytes ?buf = amessage_bytes (msg p) @ block_bytes (payload p) @ rest"
    using ap(2) b(6) assms(4) by (simp add: packet_wire_def)
  from nb_take_header_ok [OF ap(1), of fresh None] obtain ho buf1 where
    h: "nb_take_header fresh None ?buf = Inr (ho, buf1)" "wf_iov buf1" "header_bytes ho @ iov_bytes buf1 = iov_bytes ?buf"
      "ho = None \<longrightarrow> length (iov_bytes ?buf) < amessage_size" by (auto simp: header_bytes_def)
  then obtain m where m: "ho = Some m" by (cases ho) (simp_all add: all amessage_size_def)
  then have hm: "amessage_bytes m @ iov_bytes buf1 = amessage_bytes (msg p) @ block_bytes (payload p) @ rest"
    using h(3) all by (simp add: header_bytes_def)
  then have mp: "m = msg p" by (metis amessage_at_bytes_append)
  with hm have b1: "iov_bytes buf1 = block_bytes (payload p) @ rest" by simp
  have le: "unat (data_length m) \<le> length (iov_bytes buf1)"
    using assms(5) by (simp add: mp b1 whole_packet_def length_block_bytes)
  from nb_take_payload_ok [OF h(2), of fresh ho] le m obtain p' buf2 where
    p: "nb_take_payload fresh ho buf1 = Inr (Some p', None, buf2)" "packet_wire p' @ iov_bytes buf2 = header_bytes ho @ iov_bytes buf1"
      "whole_packet p'" by (auto simp: header_bytes_def whole_packet_def)
  have "packet_wire p' @ iov_bytes buf2 = packet_wire p @ rest"
    using p(2) m mp b1 by (simp add: header_bytes_def packet_wire_def)
  note pc = packet_wire_cong [OF this p(3) assms(5)]
  show ?thesis using b h p pc assms(1) by (simp add: nb_on_data_def)
qed

text \<open>
  A read hands on at most one packet. When the bytes of two whole packets arrive in one read, the first
  is handed to the transport and the second stays in the buffer, where it waits until the peer sends more.
\<close>

theorem nb_second_packet_waits:
  assumes "nb_read_header c = None" "iov_bytes (nb_read_buffer c) = []" "wf_iov (nb_read_buffer c)" "nb_handed c = []"
    and "sent_packet p" "sent_packet q" "length (packet_wire p @ packet_wire q) \<le> MAX_PAYLOAD"
  shows "\<exists>c' p'. nb_on_pollin fresh (Inr (packet_wire p @ packet_wire q)) c = Inr (None, c') \<and> nb_handed c' = [p']
    \<and> packet_wire p' = packet_wire p \<and> nb_read_header c' = None \<and> iov_bytes (nb_read_buffer c') = packet_wire q"
proof -
  let ?bs = "packet_wire p @ packet_wire q"
  have p: "whole_packet p" using assms(5) by (simp add: sent_packet_def whole_packet_def)
  have "iov_bytes (nb_read_buffer c) @ ?bs = ?bs" using assms(2) by simp
  from nb_on_data_whole [OF assms(1,3,7) this p, of fresh] assms(4) obtain c' p' where
    "nb_on_data fresh ?bs c = Inr c'" "nb_handed c' = [p']" "packet_wire p' = packet_wire p" "nb_read_header c' = None"
    "iov_bytes (nb_read_buffer c') = packet_wire q" by auto
  moreover obtain x xs where "?bs = x # xs" by (simp add: packet_wire_def amessage_bytes_def le32_def)
  ultimately show ?thesis by (simp add: nb_on_pollin_def)
qed

theorem nb_second_packet_waits_witness:
  "\<exists>c' p'. nb_on_pollin (\<lambda>_. CHR ''x'') (Inr (packet_wire example_apacket @ packet_wire example_apacket)) new_nb_connection
      = Inr (None, c') \<and> nb_handed c' = [p'] \<and> packet_wire p' = packet_wire example_apacket \<and> nb_read_header c' = None
      \<and> iov_bytes (nb_read_buffer c') = packet_wire example_apacket"
proof -
  have "sent_packet example_apacket"
    by (simp add: sent_packet_def example_apacket_def block_empty_def wf_block_def)
  moreover have "length (packet_wire example_apacket @ packet_wire example_apacket) \<le> MAX_PAYLOAD"
    by (simp add: packet_wire_def MAX_PAYLOAD_def) (simp add: example_apacket_def block_empty_def block_bytes_def)
  ultimately show ?thesis
    using nb_second_packet_waits [of new_nb_connection example_apacket example_apacket]
    by (simp add: new_nb_connection_def iov_empty_def iov_bytes_def wf_iov_def)
qed

end
