(* ===== verification/Connection_Adapter.thy ===== *)
theory Connection_Adapter
  imports Packet State_Machine
begin

text \<open>
  \<open>BlockingConnectionAdapter\<close> of \<open>transport.cpp\<close>: a thread that reads packets from a blocking connection
  and hands them to the transport, a thread that writes what is queued, and the calls of the other threads:
  \<open>Write\<close>, \<open>Stop\<close>, \<open>Reset\<close> and \<open>DoTlsHandshake\<close>. Every section under the mutex, and every call
  outside it, is one step. What the connection below answers is the choice of the steps, and what reaches
  the transport, \<open>HandleRead\<close> and \<open>HandleError\<close>, is recorded in order.
\<close>

subsection \<open>State\<close>

text \<open>A read thread is in \<open>Read\<close>, has a packet, has failed, or has ended.\<close>

datatype read_phase = R_reading | R_packet apacket | R_failed | R_done

datatype write_phase = W_none | W_waiting | W_writing apacket | W_failed | W_done

text \<open>
  The one call of \<open>Stop\<close> that passes the test of \<open>stopped_\<close>: before \<open>Close\<close>, before the threads are moved
  out, joining the read thread, joining the write thread, before the last statement, and after it.
\<close>

datatype stop_phase = No_stop | Closing | Moving | Joining_read nat | Joining_write | Joined | Stop_done

text \<open>\<open>DoTlsHandshake\<close> holds the mutex while it joins the read thread and in the handshake.\<close>

datatype tls_phase = No_tls | Tls_joining nat | Tls_handshake

datatype posted = Packet_read apacket | Error_reported string

text \<open>
  \<open>ad_threads\<close> are all the read threads ever started, and \<open>ad_read_thread\<close> is the one that the member
  \<open>read_thread_\<close> holds, if it is joinable. \<open>ad_given\<close>, \<open>ad_sent\<close> and \<open>ad_late_tls\<close> are history: the
  packets given to \<open>Write\<close>, those passed to the connection below, and whether a handshake was begun after
  \<open>Stop\<close> had taken the threads.
\<close>

record adapter =
  ad_started :: bool
  ad_stopped :: bool
  ad_threads :: "read_phase list"
  ad_read_thread :: "nat option"
  ad_write :: write_phase
  ad_queue :: "apacket list"
  ad_error_flag :: bool
  ad_stop :: stop_phase
  ad_tls :: tls_phase
  ad_closed :: bool
  ad_posted :: "posted list"
  ad_given :: "apacket list"
  ad_sent :: "apacket list"
  ad_late_tls :: bool

definition new_adapter :: adapter where
  "new_adapter = \<lparr>ad_started = False, ad_stopped = False, ad_threads = [], ad_read_thread = None, ad_write = W_none,
     ad_queue = [], ad_error_flag = False, ad_stop = No_stop, ad_tls = No_tls, ad_closed = False, ad_posted = [],
     ad_given = [], ad_sent = [], ad_late_tls = False\<rparr>"

subsection \<open>Operations\<close>

text \<open>\<open>call_once\<close> with the flag of the adapter.\<close>

definition report_error :: "string \<Rightarrow> adapter \<Rightarrow> adapter" where
  "report_error e a =
     (if ad_error_flag a then a else a\<lparr>ad_error_flag := True, ad_posted := ad_posted a @ [Error_reported e]\<rparr>)"

definition set_thread :: "nat \<Rightarrow> read_phase \<Rightarrow> adapter \<Rightarrow> adapter" where
  "set_thread i ph a = a\<lparr>ad_threads := (ad_threads a)[i := ph]\<rparr>"

text \<open>Assigning to a thread that is joinable ends the process, so does a second \<open>Start\<close>.\<close>

definition StartReadThread :: "adapter \<Rightarrow> adapter result" where
  "StartReadThread a =
     (if ad_read_thread a \<noteq> None then Inl Fatal
      else Inr (a\<lparr>ad_threads := ad_threads a @ [R_reading], ad_read_thread := Some (length (ad_threads a))\<rparr>))"

definition adapter_Start :: "adapter \<Rightarrow> adapter result" where
  "adapter_Start a =
     (if ad_started a then Inl Fatal
      else rbind (StartReadThread a) (\<lambda>a'. Inr (a'\<lparr>ad_write := W_waiting, ad_started := True\<rparr>)))"

text \<open>A turn of the read thread after \<open>Read\<close> has returned a packet: it ends at the packet that asks for TLS.\<close>

definition hand_packet :: "nat \<Rightarrow> apacket \<Rightarrow> adapter \<Rightarrow> adapter" where
  "hand_packet i p a =
     set_thread i (if command (msg p) = A_STLS then R_done else R_reading) (a\<lparr>ad_posted := ad_posted a @ [Packet_read p]\<rparr>)"

text \<open>The write thread when its condition holds.\<close>

definition write_turn :: "adapter \<Rightarrow> adapter" where
  "write_turn a =
     (if ad_stopped a then a\<lparr>ad_write := W_done\<rparr>
      else case ad_queue a of
             [] \<Rightarrow> a
           | p # q \<Rightarrow> a\<lparr>ad_queue := q, ad_write := W_writing p, ad_sent := ad_sent a @ [p]\<rparr>)"

definition adapter_Write :: "apacket \<Rightarrow> adapter \<Rightarrow> adapter" where
  "adapter_Write p a = a\<lparr>ad_queue := ad_queue a @ [p], ad_given := ad_given a @ [p]\<rparr>"

text \<open>The first section of \<open>Stop\<close>, which \<open>Reset\<close> tests as well: whether the call goes on.\<close>

definition stop_gate :: "adapter \<Rightarrow> adapter option" where
  "stop_gate a = (if \<not> ad_started a \<or> ad_stopped a then None else Some (a\<lparr>ad_stopped := True, ad_stop := Closing\<rparr>))"

text \<open>The threads are moved out; joining a thread that is not joinable throws.\<close>

definition stop_move :: "adapter \<Rightarrow> adapter result" where
  "stop_move a =
     (case ad_read_thread a of
        None \<Rightarrow> Inl Uncaught
      | Some r \<Rightarrow> Inr (a\<lparr>ad_read_thread := None, ad_stop := Joining_read r\<rparr>))"

definition moved_out :: "adapter \<Rightarrow> bool" where
  "moved_out a \<longleftrightarrow> ad_stop a \<notin> {No_stop, Closing, Moving}"

definition tls_begin :: "adapter \<Rightarrow> adapter" where
  "tls_begin a =
     a\<lparr>ad_tls := (case ad_read_thread a of Some i \<Rightarrow> Tls_joining i | None \<Rightarrow> Tls_handshake),
       ad_late_tls := (ad_late_tls a \<or> moved_out a)\<rparr>"

text \<open>The destructor calls \<open>Stop\<close> and then destroys the members: a joinable thread ends the process.\<close>

definition destroy_members :: "adapter \<Rightarrow> unit result" where
  "destroy_members a = (if ad_read_thread a \<noteq> None then Inl Fatal else Inr ())"

subsection \<open>Steps\<close>

inductive adapter_step :: "adapter \<Rightarrow> adapter \<Rightarrow> bool" where
  ad_start: "ad_tls a = No_tls \<Longrightarrow> adapter_Start a = Inr a' \<Longrightarrow> adapter_step a a'"
| ad_read: "i < length (ad_threads a) \<Longrightarrow> ad_threads a ! i = R_reading \<Longrightarrow> adapter_step a (set_thread i (R_packet p) a)"
| ad_read_fails: "i < length (ad_threads a) \<Longrightarrow> ad_threads a ! i = R_reading \<Longrightarrow> adapter_step a (set_thread i R_failed a)"
| ad_hand: "i < length (ad_threads a) \<Longrightarrow> ad_threads a ! i = R_packet p \<Longrightarrow> adapter_step a (hand_packet i p a)"
| ad_read_ends: "i < length (ad_threads a) \<Longrightarrow> ad_threads a ! i = R_failed \<Longrightarrow>
    adapter_step a (set_thread i R_done (report_error ''read failed'' a))"
| ad_write_turn: "ad_tls a = No_tls \<Longrightarrow> ad_write a = W_waiting \<Longrightarrow> ad_stopped a \<or> ad_queue a \<noteq> [] \<Longrightarrow> adapter_step a (write_turn a)"
| ad_written: "ad_write a = W_writing p \<Longrightarrow> adapter_step a (a\<lparr>ad_write := W_waiting\<rparr>)"
| ad_write_fails: "ad_write a = W_writing p \<Longrightarrow> adapter_step a (a\<lparr>ad_write := W_failed\<rparr>)"
| ad_write_ends: "ad_write a = W_failed \<Longrightarrow> adapter_step a ((report_error ''write failed'' a)\<lparr>ad_write := W_done\<rparr>)"
| ad_Write: "ad_tls a = No_tls \<Longrightarrow> adapter_step a (adapter_Write p a)"
| ad_stop_gate: "ad_tls a = No_tls \<Longrightarrow> stop_gate a = Some a' \<Longrightarrow> adapter_step a a'"
| ad_close: "ad_stop a = Closing \<Longrightarrow> adapter_step a (a\<lparr>ad_stop := Moving, ad_closed := True\<rparr>)"
| ad_move: "ad_tls a = No_tls \<Longrightarrow> ad_stop a = Moving \<Longrightarrow> stop_move a = Inr a' \<Longrightarrow> adapter_step a a'"
| ad_join_read: "ad_stop a = Joining_read r \<Longrightarrow> ad_threads a ! r = R_done \<Longrightarrow> adapter_step a (a\<lparr>ad_stop := Joining_write\<rparr>)"
| ad_join_write: "ad_stop a = Joining_write \<Longrightarrow> ad_write a = W_done \<Longrightarrow> adapter_step a (a\<lparr>ad_stop := Joined\<rparr>)"
| ad_stop_ends: "ad_stop a = Joined \<Longrightarrow> adapter_step a ((report_error ''requested stop'' a)\<lparr>ad_stop := Stop_done\<rparr>)"
| ad_tls_begin: "ad_started a \<Longrightarrow> ad_tls a = No_tls \<Longrightarrow> adapter_step a (tls_begin a)"
| ad_tls_join: "ad_tls a = Tls_joining i \<Longrightarrow> ad_threads a ! i = R_done \<Longrightarrow>
    adapter_step a (a\<lparr>ad_read_thread := None, ad_tls := Tls_handshake\<rparr>)"
| ad_tls_ends: "ad_tls a = Tls_handshake \<Longrightarrow> StartReadThread a = Inr a' \<Longrightarrow> adapter_step a (a'\<lparr>ad_tls := No_tls\<rparr>)"

definition adapter_init :: "adapter \<Rightarrow> bool" where
  "adapter_init a \<longleftrightarrow> a = new_adapter"

subsection \<open>Invariant\<close>

definition is_error :: "posted \<Rightarrow> bool" where
  "is_error e \<longleftrightarrow> (\<exists>t. e = Error_reported t)"

text \<open>The read threads that may still run: the one in the member, or the one that \<open>Stop\<close> is joining.\<close>

definition live_threads :: "adapter \<Rightarrow> nat set" where
  "live_threads a = {i. i < length (ad_threads a) \<and> ad_threads a ! i \<noteq> R_done}"

definition owned_thread :: "adapter \<Rightarrow> nat set" where
  "owned_thread a = set_option (ad_read_thread a) \<union> (case ad_stop a of Joining_read r \<Rightarrow> {r} | _ \<Rightarrow> {})"

definition reported_once :: "adapter \<Rightarrow> bool" where
  "reported_once a \<longleftrightarrow> length (filter is_error (ad_posted a)) = (if ad_error_flag a then 1 else 0)
     \<and> (ad_stop a = Stop_done \<longrightarrow> ad_error_flag a)"

definition writes_in_order :: "adapter \<Rightarrow> bool" where
  "writes_in_order a \<longleftrightarrow> ad_sent a @ ad_queue a = ad_given a"

definition lifecycle :: "adapter \<Rightarrow> bool" where
  "lifecycle a \<longleftrightarrow>
     (\<not> ad_started a \<longrightarrow> ad_threads a = [] \<and> ad_read_thread a = None \<and> ad_write a = W_none \<and> \<not> ad_stopped a \<and> ad_tls a = No_tls)
     \<and> (ad_started a \<longrightarrow> ad_write a \<noteq> W_none)
     \<and> (ad_stopped a \<longleftrightarrow> ad_stop a \<noteq> No_stop)
     \<and> (ad_stop a \<in> {Joined, Stop_done} \<longrightarrow> ad_write a = W_done)"

definition member_thread :: "adapter \<Rightarrow> bool" where
  "member_thread a \<longleftrightarrow>
     (case ad_tls a of
        Tls_joining i \<Rightarrow> ad_read_thread a = Some i
      | Tls_handshake \<Rightarrow> ad_read_thread a = None
      | No_tls \<Rightarrow> ad_started a \<longrightarrow> \<not> moved_out a \<longrightarrow> ad_read_thread a \<noteq> None)"

definition threads_owned :: "adapter \<Rightarrow> bool" where
  "threads_owned a \<longleftrightarrow> ad_late_tls a
     \<or> live_threads a \<subseteq> owned_thread a \<and> (moved_out a \<longrightarrow> ad_read_thread a = None \<and> ad_tls a = No_tls)"

definition adapter_inv :: "adapter \<Rightarrow> bool" where
  "adapter_inv a \<longleftrightarrow> reported_once a \<and> writes_in_order a \<and> lifecycle a \<and> member_thread a \<and> threads_owned a"

text \<open>Each part by itself.\<close>

lemmas adapter_op_defs = adapter_Start_def StartReadThread_def set_thread_def hand_packet_def report_error_def write_turn_def
  adapter_Write_def stop_gate_def stop_move_def tls_begin_def

lemma step_reported_once: "adapter_step a b \<Longrightarrow> reported_once a \<Longrightarrow> lifecycle a \<Longrightarrow> reported_once b"
  by (induction rule: adapter_step.induct)
    (auto simp: reported_once_def is_error_def adapter_op_defs lifecycle_def split: if_splits list.splits option.splits)

lemma step_writes_in_order: "adapter_step a b \<Longrightarrow> writes_in_order a \<Longrightarrow> writes_in_order b"
  by (induction rule: adapter_step.induct)
    (auto simp: writes_in_order_def adapter_op_defs split: if_splits list.splits option.splits)

lemma step_lifecycle: "adapter_step a b \<Longrightarrow> lifecycle a \<Longrightarrow> lifecycle b"
  by (induction rule: adapter_step.induct)
    (auto simp: lifecycle_def adapter_op_defs split: if_splits list.splits option.splits)

lemma step_member_thread: "adapter_step a b \<Longrightarrow> member_thread a \<Longrightarrow> lifecycle a \<Longrightarrow> member_thread b"
  by (induction rule: adapter_step.induct)
    (auto simp: member_thread_def adapter_op_defs moved_out_def lifecycle_def split: if_splits list.splits option.splits tls_phase.splits)

lemma live_set_thread:
  assumes "ad_threads a ! i \<noteq> R_done"
  shows "live_threads (set_thread i ph a) \<subseteq> live_threads a"
proof
  fix j assume "j \<in> live_threads (set_thread i ph a)"
  with assms show "j \<in> live_threads a" by (cases "i = j") (simp_all add: live_threads_def set_thread_def)
qed

text \<open>\<open>threads_owned\<close> reads only the threads, who holds them, and the handshake.\<close>

lemma threads_owned_mono:
  assumes "threads_owned a" "live_threads b \<subseteq> live_threads a" "ad_read_thread b = ad_read_thread a" "ad_stop b = ad_stop a"
    "ad_tls b = ad_tls a" "ad_late_tls b = ad_late_tls a"
  shows "threads_owned b"
proof -
  have "owned_thread b = owned_thread a" "moved_out b = moved_out a" using assms(3,4) by (simp_all add: owned_thread_def moved_out_def)
  with assms show ?thesis unfolding threads_owned_def by (metis subset_trans)
qed

lemma live_threads_cong: "ad_threads b = ad_threads a \<Longrightarrow> live_threads b \<subseteq> live_threads a"
  by (simp add: live_threads_def)

lemma threads_owned_thread:
  assumes "threads_owned a" "ad_threads a ! i \<noteq> R_done" "ad_threads b = ad_threads a" "ad_read_thread b = ad_read_thread a"
    "ad_stop b = ad_stop a" "ad_tls b = ad_tls a" "ad_late_tls b = ad_late_tls a"
  shows "threads_owned (set_thread i ph b)"
proof -
  have "threads_owned b" by (rule threads_owned_mono [OF assms(1) live_threads_cong [OF assms(3)] assms(4-7)])
  moreover have "live_threads (set_thread i ph b) \<subseteq> live_threads b" by (rule live_set_thread) (use assms(2,3) in simp)
  ultimately show ?thesis by (rule threads_owned_mono) (simp_all add: set_thread_def)
qed

lemma report_error_keeps [simp]:
  "ad_threads (report_error e a) = ad_threads a" "ad_read_thread (report_error e a) = ad_read_thread a"
  "ad_stop (report_error e a) = ad_stop a" "ad_tls (report_error e a) = ad_tls a" "ad_late_tls (report_error e a) = ad_late_tls a"
  by (simp_all add: report_error_def)

lemmas threads_owned_defs = threads_owned_def owned_thread_def moved_out_def live_threads_def

lemma threads_owned_same:
  assumes "threads_owned a" "ad_threads b = ad_threads a" "ad_read_thread b = ad_read_thread a" "ad_stop b = ad_stop a"
    "ad_tls b = ad_tls a" "ad_late_tls b = ad_late_tls a"
  shows "threads_owned b"
  by (rule threads_owned_mono [OF assms(1) live_threads_cong [OF assms(2)] assms(3-6)])

lemma step_threads_owned: "adapter_step a b \<Longrightarrow> threads_owned a \<Longrightarrow> lifecycle a \<Longrightarrow> member_thread a \<Longrightarrow> threads_owned b"
proof (induction rule: adapter_step.induct)
  case (ad_start a a')
  then have "\<not> ad_started a" by (auto simp: adapter_Start_def)
  with ad_start have "ad_threads a = []" "ad_stop a = No_stop" "ad_read_thread a = None" by (auto simp: lifecycle_def)
  with ad_start have "a' = a\<lparr>ad_threads := [R_reading], ad_read_thread := Some 0, ad_write := W_waiting, ad_started := True\<rparr>"
    by (auto simp: adapter_Start_def StartReadThread_def split: if_splits)
  then show ?case using \<open>ad_stop a = No_stop\<close> by (auto simp: threads_owned_defs)
next
  case (ad_read i a p)
  show ?case by (rule threads_owned_thread [OF ad_read(3)]) (simp_all add: ad_read)
next
  case (ad_read_fails i a)
  show ?case by (rule threads_owned_thread [OF ad_read_fails(3)]) (simp_all add: ad_read_fails)
next
  case (ad_hand i a p)
  show ?case unfolding hand_packet_def by (rule threads_owned_thread [OF ad_hand(3)]) (simp_all add: ad_hand)
next
  case (ad_read_ends i a)
  show ?case by (rule threads_owned_thread [OF ad_read_ends(3)]) (simp_all add: ad_read_ends)
next
  case (ad_write_turn a)
  show ?case by (rule threads_owned_same [OF ad_write_turn(4)]) (simp_all add: write_turn_def split: list.split)
next
  case (ad_written a p)
  show ?case by (rule threads_owned_same [OF ad_written(2)]) simp_all
next
  case (ad_write_fails a p)
  show ?case by (rule threads_owned_same [OF ad_write_fails(2)]) simp_all
next
  case (ad_write_ends a)
  show ?case by (rule threads_owned_same [OF ad_write_ends(2)]) simp_all
next
  case (ad_Write a p)
  show ?case by (rule threads_owned_same [OF ad_Write(2)]) (simp_all add: adapter_Write_def)
next
  case (ad_tls_begin a)
  then show ?case by (auto simp: tls_begin_def threads_owned_defs split: option.splits)
next
  case (ad_tls_join a i)
  then show ?case by (auto simp: threads_owned_defs member_thread_def)
next
  case (ad_tls_ends a a')
  then show ?case by (auto simp: StartReadThread_def threads_owned_defs nth_append less_Suc_eq split: if_splits)
next
  case (ad_join_read a r)
  then show ?case by (auto simp: threads_owned_defs)
next
  case (ad_stop_gate a a')
  then show ?case by (auto simp: threads_owned_defs stop_gate_def lifecycle_def split: if_splits)
next
  case (ad_close a)
  then show ?case by (simp add: threads_owned_defs)
next
  case (ad_move a a')
  then show ?case by (auto simp: threads_owned_defs stop_move_def split: option.splits)
next
  case (ad_join_write a)
  then show ?case by (simp add: threads_owned_defs)
next
  case (ad_stop_ends a)
  then show ?case by (simp add: threads_owned_defs)
qed

lemma adapter_init_inv: "adapter_init a \<Longrightarrow> adapter_inv a"
  by (simp add: adapter_init_def new_adapter_def adapter_inv_def reported_once_def writes_in_order_def lifecycle_def
      member_thread_def threads_owned_defs)

lemma adapter_step_inv: "adapter_inv a \<Longrightarrow> adapter_step a b \<Longrightarrow> adapter_inv b"
  using step_reported_once step_writes_in_order step_lifecycle step_member_thread step_threads_owned
  unfolding adapter_inv_def by blast

interpretation adm: machine adapter_init adapter_step adapter_inv
  by unfold_locales (auto intro: adapter_init_inv adapter_step_inv)

lemma stop_done_quiet:
  assumes "adapter_inv a" "ad_stop a = Stop_done" "\<not> ad_late_tls a"
  shows "\<forall>t \<in> set (ad_threads a). t = R_done" "ad_write a = W_done" "ad_read_thread a = None" "ad_tls a = No_tls"
    "ad_error_flag a" "ad_started a" "ad_stopped a"
proof -
  have "live_threads a = {}" "ad_read_thread a = None" "ad_tls a = No_tls"
    using assms by (auto simp: adapter_inv_def threads_owned_def owned_thread_def moved_out_def)
  then show "\<forall>t \<in> set (ad_threads a). t = R_done" "ad_read_thread a = None" "ad_tls a = No_tls"
    by (auto simp: live_threads_def in_set_conv_nth)
  show "ad_write a = W_done" "ad_error_flag a" "ad_stopped a"
    using assms by (simp_all add: adapter_inv_def lifecycle_def reported_once_def)
  then show "ad_started a" using assms(1) by (auto simp: adapter_inv_def lifecycle_def)
qed

lemma stop_done_step:
  assumes "adapter_step a b" "adapter_inv a" "ad_stop a = Stop_done" "\<not> ad_late_tls b"
  shows "ad_posted b = ad_posted a \<and> ad_sent b = ad_sent a \<and> ad_stop b = Stop_done"
proof (cases "ad_late_tls a")
  case True
  with assms(1,4) show ?thesis
    by (induction rule: adapter_step.induct) (auto simp: adapter_op_defs split: if_splits list.splits option.splits)
next
  case False
  from assms(1) stop_done_quiet [OF assms(2,3) False] assms(3,4) show ?thesis
    by (induction rule: adapter_step.induct)
      (auto simp: adapter_Start_def adapter_Write_def stop_gate_def tls_begin_def moved_out_def all_set_conv_all_nth split: option.splits)
qed

lemma stop_done_steps:
  assumes "adapter_step\<^sup>*\<^sup>* a b" "adapter_inv a" "ad_stop a = Stop_done" "\<not> ad_late_tls b"
  shows "ad_posted b = ad_posted a \<and> ad_sent b = ad_sent a \<and> ad_stop b = Stop_done"
  using assms
proof (induction rule: rtranclp_induct)
  case (step b c)
  have "\<not> ad_late_tls b"
    using step.hyps(2) step.prems(3)
    by (induction rule: adapter_step.induct) (auto simp: adapter_op_defs split: if_splits list.splits option.splits)
  with step have "ad_posted b = ad_posted a \<and> ad_sent b = ad_sent a \<and> ad_stop b = Stop_done" "adapter_inv b"
    by (auto intro: adm.steps_inv)
  with stop_done_step [OF step.hyps(2)] step.prems(3) show ?case by simp
qed simp

subsection \<open>Properties\<close>


text \<open>A run in which a started connection is stopped.\<close>

definition stopping_adapter :: adapter where
  "stopping_adapter = new_adapter\<lparr>ad_started := True, ad_stopped := True, ad_threads := [R_reading], ad_read_thread := Some 0,
     ad_write := W_waiting, ad_stop := Closing\<rparr>"

definition stopped_adapter :: adapter where
  "stopped_adapter = new_adapter\<lparr>ad_started := True, ad_stopped := True, ad_threads := [R_done], ad_write := W_done,
     ad_error_flag := True, ad_stop := Stop_done, ad_closed := True, ad_posted := [Error_reported ''read failed'']\<rparr>"

definition started_adapter :: adapter where
  "started_adapter = new_adapter\<lparr>ad_started := True, ad_threads := [R_reading], ad_read_thread := Some 0, ad_write := W_waiting\<rparr>"

lemma started_reachable: "reachable adapter_init adapter_step started_adapter"
  by (rule reachable_step [OF reachable_init [of _ new_adapter] ad_start])
    (simp_all add: adapter_init_def new_adapter_def adapter_Start_def StartReadThread_def started_adapter_def)

lemma stopping_reachable: "reachable adapter_init adapter_step stopping_adapter"
  by (rule reachable_step [OF started_reachable ad_stop_gate])
    (simp_all add: new_adapter_def started_adapter_def stop_gate_def stopping_adapter_def)

lemma stopped_reachable: "reachable adapter_init adapter_step stopped_adapter"
proof -
  let ?a = "\<lambda>t rt w fl st ps. new_adapter\<lparr>ad_started := True, ad_stopped := True, ad_threads := [t], ad_read_thread := rt,
     ad_write := w, ad_error_flag := fl, ad_stop := st, ad_closed := True, ad_posted := ps\<rparr>"
  let ?e = "[Error_reported ''read failed'']"
  note defs = stopping_adapter_def new_adapter_def set_thread_def report_error_def stop_move_def write_turn_def
  have "adapter_step stopping_adapter (?a R_reading (Some 0) W_waiting False Moving [])"
    using ad_close [of stopping_adapter] by (simp add: defs)
  moreover have "adapter_step (?a R_reading (Some 0) W_waiting False Moving []) (?a R_reading None W_waiting False (Joining_read 0) [])"
    by (rule ad_move) (simp_all add: defs)
  moreover have "adapter_step (?a R_reading None W_waiting False (Joining_read 0) []) (?a R_failed None W_waiting False (Joining_read 0) [])"
    using ad_read_fails [of 0 "?a R_reading None W_waiting False (Joining_read 0) []"] by (simp add: defs)
  moreover have "adapter_step (?a R_failed None W_waiting False (Joining_read 0) []) (?a R_done None W_waiting True (Joining_read 0) ?e)"
    using ad_read_ends [of 0 "?a R_failed None W_waiting False (Joining_read 0) []"] by (simp add: defs)
  moreover have "adapter_step (?a R_done None W_waiting True (Joining_read 0) ?e) (?a R_done None W_waiting True Joining_write ?e)"
    using ad_join_read [of "?a R_done None W_waiting True (Joining_read 0) ?e" 0] by (simp add: defs)
  moreover have "adapter_step (?a R_done None W_waiting True Joining_write ?e) (?a R_done None W_done True Joining_write ?e)"
    using ad_write_turn [of "?a R_done None W_waiting True Joining_write ?e"] by (simp add: defs)
  moreover have "adapter_step (?a R_done None W_done True Joining_write ?e) (?a R_done None W_done True Joined ?e)"
    using ad_join_write [of "?a R_done None W_done True Joining_write ?e"] by (simp add: defs)
  moreover have "adapter_step (?a R_done None W_done True Joined ?e) stopped_adapter"
    using ad_stop_ends [of "?a R_done None W_done True Joined ?e"] by (simp add: defs stopped_adapter_def)
  ultimately show ?thesis by (meson stopping_reachable reachable_step)
qed


text \<open>
  What \<open>Stop\<close> promises can be undone in two ways. A handshake that begins after \<open>Stop\<close> has returned
  starts a new read thread, which goes on handing packets to the transport, and which the destructor finds
  still joinable, so the process ends. And a second call of \<open>Stop\<close> returns at once while the first has not
  even closed the connection: its caller, \<open>transport_destroy\<close>, goes on to delete the transport while the
  read thread is still reading.
\<close>

theorem adapter_stop_not_final:
  "(\<exists>a. reachable adapter_init adapter_step a \<and> ad_stop a = Stop_done \<and> destroy_members a = Inl Fatal
      \<and> (\<forall>p. \<exists>b. adapter_step\<^sup>*\<^sup>* a b \<and> ad_posted b = ad_posted a @ [Packet_read p]))
   \<and> (\<exists>a. reachable adapter_init adapter_step a \<and> stop_gate a = None \<and> ad_started a \<and> \<not> ad_closed a
        \<and> (\<forall>p. \<exists>b. adapter_step\<^sup>*\<^sup>* a b \<and> ad_posted b = ad_posted a @ [Packet_read p]))"
proof -
  have post: "\<exists>b. adapter_step\<^sup>*\<^sup>* a b \<and> ad_posted b = ad_posted a @ [Packet_read p]"
    if "i < length (ad_threads a)" "ad_threads a ! i = R_reading" for a i p
  proof -
    let ?b = "set_thread i (R_packet p) a"
    have "adapter_step a ?b" by (rule ad_read [OF that])
    moreover have "adapter_step ?b (hand_packet i p ?b)" by (rule ad_hand) (use that in \<open>simp_all add: set_thread_def\<close>)
    ultimately have "adapter_step\<^sup>*\<^sup>* a (hand_packet i p ?b)" by (meson r_into_rtranclp rtranclp_trans)
    then show ?thesis by (intro exI [of _ "hand_packet i p ?b"]) (simp add: hand_packet_def set_thread_def)
  qed
  let ?t = "stopped_adapter\<lparr>ad_tls := Tls_handshake, ad_late_tls := True\<rparr>"
  let ?a = "stopped_adapter\<lparr>ad_late_tls := True, ad_threads := [R_done, R_reading], ad_read_thread := Some 1\<rparr>"
  have 1: "adapter_step stopped_adapter ?t"
    using ad_tls_begin [of stopped_adapter] by (simp add: stopped_adapter_def new_adapter_def tls_begin_def moved_out_def)
  have "adapter_step ?t ((?a\<lparr>ad_tls := Tls_handshake\<rparr>)\<lparr>ad_tls := No_tls\<rparr>)"
    by (rule ad_tls_ends) (simp_all add: stopped_adapter_def new_adapter_def StartReadThread_def)
  then have 2: "adapter_step ?t ?a" by (simp add: stopped_adapter_def new_adapter_def)
  have "reachable adapter_init adapter_step ?a" by (rule reachable_step [OF reachable_step [OF stopped_reachable 1] 2])
  moreover have "ad_stop ?a = Stop_done" "destroy_members ?a = Inl Fatal" by (simp_all add: stopped_adapter_def destroy_members_def)
  moreover note post [of 1 ?a]
  ultimately have "\<exists>a. reachable adapter_init adapter_step a \<and> ad_stop a = Stop_done \<and> destroy_members a = Inl Fatal
      \<and> (\<forall>p. \<exists>b. adapter_step\<^sup>*\<^sup>* a b \<and> ad_posted b = ad_posted a @ [Packet_read p])"
    by (intro exI [of _ ?a]) simp
  moreover have "stop_gate stopping_adapter = None" "ad_started stopping_adapter" "\<not> ad_closed stopping_adapter"
    "ad_threads stopping_adapter = [R_reading]"
    by (simp_all add: stop_gate_def stopping_adapter_def new_adapter_def)
  ultimately show ?thesis using stopping_reachable post [of 0 stopping_adapter] by fastforce
qed

end
