(* ===== verification/Float64.thy ===== *)
theory Float64
  imports Complex_Main "HOL-Library.Log_Nat"
begin

text \<open>
  The double precision arithmetic of the mDNS lifetimes, on rationals: an operation gives the exact result
  rounded to 53 significant bits, to the nearest and ties to even. The values that occur are not negative
  and far from the limits of the exponent (durations of at most \<open>2 ^ 64\<close> seconds in nanoseconds), so
  subnormal numbers and overflow are left out.
\<close>

subsection \<open>Rounding\<close>

definition rne :: "rat \<Rightarrow> int" where
  "rne y = (let f = \<lfloor>y\<rfloor>; r = y - of_int f in if r < 1 / 2 then f else if 1 / 2 < r then f + 1 else if even f then f else f + 1)"

definition ilog2 :: "rat \<Rightarrow> int" where
  "ilog2 x = (let (n, d) = quotient_of x; e = bitlen n - bitlen d in if x < 2 powi e then e - 1 else e)"

definition f64 :: "rat \<Rightarrow> rat" where
  "f64 x = (if x \<le> 0 then 0 else let u = 2 powi (ilog2 x - 52) in of_int (rne (x / u)) * u)"

lemma rne_err: "\<bar>of_int (rne y) - y\<bar> \<le> 1 / 2"
proof -
  have "of_int \<lfloor>y\<rfloor> \<le> y" "y < of_int \<lfloor>y\<rfloor> + 1" using floor_correct [of y] by simp_all
  then show ?thesis by (auto simp: rne_def Let_def)
qed

lemma rne_bounds: "of_int (rne y) \<le> y + 1 / 2" "y - 1 / 2 \<le> of_int (rne y)"
  using rne_err [of y] by linarith+

lemma rne_of_int [simp]: "rne (of_int k) = k"
  by (simp add: rne_def)

lemma rne_mono:
  assumes "y \<le> z"
  shows "rne y \<le> rne z"
proof (cases "\<lfloor>y\<rfloor> = \<lfloor>z\<rfloor>")
  case True
  then show ?thesis using assms by (auto simp: rne_def Let_def)
next
  case False
  then have "\<lfloor>y\<rfloor> + 1 \<le> \<lfloor>z\<rfloor>" using floor_mono [OF assms] by simp
  moreover have "rne y \<le> \<lfloor>y\<rfloor> + 1" "\<lfloor>z\<rfloor> \<le> rne z" by (auto simp: rne_def Let_def)
  ultimately show ?thesis by linarith
qed

lemma bitlen_rat:
  assumes "0 < n"
  shows "2 powi (bitlen n - 1) \<le> (of_int n :: rat)" "(of_int n :: rat) < 2 powi (bitlen n)"
proof -
  have b: "2 ^ nat (bitlen n - 1) \<le> n" "n < 2 ^ nat (bitlen n)" using bitlen_bounds [OF assms] by auto
  have p: "0 < bitlen n" using assms bitlen_nonneg [of n] bitlen_eq_zero_iff [of n] by linarith
  have "(2 :: rat) powi (bitlen n - 1) = of_int (2 ^ nat (bitlen n - 1))" "(2 :: rat) powi (bitlen n) = of_int (2 ^ nat (bitlen n))"
    using p by (simp_all add: power_int_def)
  with b show "2 powi (bitlen n - 1) \<le> (of_int n :: rat)" "(of_int n :: rat) < 2 powi (bitlen n)"
    by (simp_all only: of_int_le_iff of_int_less_iff)
qed

lemma ilog2_bounds:
  assumes "0 < x"
  shows "2 powi (ilog2 x) \<le> x" "x < 2 powi (ilog2 x + 1)"
proof -
  obtain n d where q: "quotient_of x = (n, d)" by fastforce
  then have d: "0 < d" and x: "x = of_int n / of_int d" by (auto intro: quotient_of_denom_pos quotient_of_div)
  then have n: "0 < n" using assms by (simp add: zero_less_divide_iff)
  let ?e = "bitlen n - bitlen d"
  note bn = bitlen_rat [OF n] and bd = bitlen_rat [OF d]
  have pos: "(0 :: rat) < 2 powi k" for k :: int by simp
  have "x < 2 powi (bitlen n) / 2 powi (bitlen d - 1)"
    unfolding x using bn bd n d by (intro frac_less) auto
  then have hi: "x < 2 powi (?e + 1)" by (simp add: power_int_diff power_int_add)
  have "2 powi (bitlen n - 1) / 2 powi (bitlen d) \<le> x"
    unfolding x using bn bd n d by (intro frac_le) auto
  then have lo: "2 powi (?e - 1) \<le> x" by (simp add: power_int_diff)
  have "ilog2 x = (if x < 2 powi ?e then ?e - 1 else ?e)" by (simp add: ilog2_def q Let_def)
  with hi lo show "2 powi (ilog2 x) \<le> x" "x < 2 powi (ilog2 x + 1)" by (auto split: if_splits)
qed

lemma ilog2_unique:
  assumes "2 powi e \<le> x" "x < 2 powi (e + 1)"
  shows "ilog2 x = e"
proof -
  have x: "0 < x" using assms(1) less_le_trans [of 0 "2 powi e" x] by simp
  note b = ilog2_bounds [OF x]
  have "2 powi e < (2 :: rat) powi (ilog2 x + 1)" "2 powi (ilog2 x) < (2 :: rat) powi (e + 1)" using assms b by linarith+
  then have "\<not> ilog2 x + 1 \<le> e" "\<not> e + 1 \<le> ilog2 x"
    using power_int_increasing [of "ilog2 x + 1" e "2 :: rat"] power_int_increasing [of "e + 1" "ilog2 x" "2 :: rat"] by auto
  then show ?thesis by simp
qed

subsection \<open>What rounding keeps\<close>

text \<open>The unit in which a positive number is rounded, and the range of its multiple.\<close>

lemma f64_pos:
  assumes "0 < x"
  shows "\<exists>u m. u = 2 powi (ilog2 x - 52) \<and> m = rne (x / u) \<and> f64 x = of_int m * u \<and> 0 < u \<and> 2 ^ 52 * u \<le> x \<and> x < 2 ^ 53 * u
     \<and> 2 ^ 52 \<le> m \<and> m \<le> 2 ^ 53"
proof -
  let ?u = "2 powi (ilog2 x - 52) :: rat"
  have u: "0 < ?u" by simp
  have "2 powi (ilog2 x) = 2 ^ 52 * ?u" "2 powi (ilog2 x + 1) = 2 ^ 53 * ?u"
    by (simp_all add: power_int_diff power_int_add)
  then have b: "2 ^ 52 * ?u \<le> x" "x < 2 ^ 53 * ?u" using ilog2_bounds [OF assms] by simp_all
  then have "of_int (2 ^ 52) \<le> x / ?u" "x / ?u \<le> of_int (2 ^ 53)" using u by (simp_all add: pos_le_divide_eq pos_divide_le_eq)
  then have "2 ^ 52 \<le> rne (x / ?u)" "rne (x / ?u) \<le> 2 ^ 53"
    using rne_mono [of "of_int (2 ^ 52)" "x / ?u"] rne_mono [of "x / ?u" "of_int (2 ^ 53)"] by (simp_all only: rne_of_int)
  with b u show ?thesis using assms by (simp add: f64_def Let_def)
qed

lemma f64_nonneg [simp]: "0 \<le> f64 x"
proof (cases "0 < x")
  case True
  then obtain u m where "f64 x = of_int m * u" "0 < u" "2 ^ 52 \<le> m" using f64_pos by blast
  then show ?thesis by simp
qed (simp add: f64_def)

lemma f64_0 [simp]: "f64 0 = 0"
  by (simp add: f64_def)

lemma f64_err:
  assumes "0 \<le> x"
  shows "\<bar>f64 x - x\<bar> \<le> x / 2 ^ 53"
proof (cases "x = 0")
  case False
  with assms have "0 < x" by simp
  from f64_pos [OF this] obtain u m where
    u: "m = rne (x / u)" "f64 x = of_int m * u" "0 < u" "2 ^ 52 * u \<le> x" by blast
  have "\<bar>of_int m - x / u\<bar> \<le> 1 / 2" using rne_err [of "x / u"] u(1) by simp
  then have "\<bar>of_int m - x / u\<bar> * u \<le> 1 / 2 * u" using u(3) by (intro mult_right_mono) simp_all
  moreover have "\<bar>of_int m - x / u\<bar> * u = \<bar>(of_int m - x / u) * u\<bar>" using u(3) by (simp add: abs_mult)
  then have "\<bar>of_int m - x / u\<bar> * u = \<bar>f64 x - x\<bar>" using u(2,3) by (simp add: left_diff_distrib)
  moreover have "u / 2 \<le> x / 2 ^ 53" using u(4) by simp
  ultimately show ?thesis by simp
qed simp

lemma f64_bounds: "0 \<le> x \<Longrightarrow> x * (1 - 1 / 2 ^ 53) \<le> f64 x" "0 \<le> x \<Longrightarrow> f64 x \<le> x * (1 + 1 / 2 ^ 53)"
proof -
  assume "0 \<le> x"
  from f64_err [OF this] have "f64 x - x \<le> x / 2 ^ 53" "x - f64 x \<le> x / 2 ^ 53" by (simp_all only: abs_le_iff minus_diff_eq)
  then show "x * (1 - 1 / 2 ^ 53) \<le> f64 x" "f64 x \<le> x * (1 + 1 / 2 ^ 53)" by (simp_all add: right_diff_distrib distrib_left)
qed

lemma f64_mono:
  assumes "0 \<le> x" "x \<le> y"
  shows "f64 x \<le> f64 y"
proof (cases "x = 0")
  case False
  with assms have x: "0 < x" and y: "0 < y" by simp_all
  from f64_pos [OF x] obtain u m where
    u: "u = 2 powi (ilog2 x - 52)" "m = rne (x / u)" "f64 x = of_int m * u" "0 < u" "2 ^ 52 * u \<le> x" "m \<le> 2 ^ 53" by blast
  from f64_pos [OF y] obtain v k where
    v: "v = 2 powi (ilog2 y - 52)" "k = rne (y / v)" "f64 y = of_int k * v" "0 < v" "y < 2 ^ 53 * v" "2 ^ 52 \<le> k" by blast
  show ?thesis
  proof (cases "ilog2 x = ilog2 y")
    case True
    then have "u = v" using u(1) v(1) by simp
    moreover have "m \<le> k" unfolding u(2) v(2) \<open>u = v\<close> using assms(2) v(4) by (intro rne_mono divide_right_mono) simp_all
    ultimately show ?thesis using u(3) v(3,4) by (simp add: mult_right_mono)
  next
    case False
    have "2 powi (ilog2 x) < (2 :: rat) powi (ilog2 y + 1)" using ilog2_bounds [OF x] ilog2_bounds [OF y] assms(2) by linarith
    then have "\<not> ilog2 y + 1 \<le> ilog2 x" using power_int_increasing [of "ilog2 y + 1" "ilog2 x" "2 :: rat"] by auto
    with False have "ilog2 x - 52 + 1 \<le> ilog2 y - 52" by simp
    then have "(2 :: rat) powi (ilog2 x - 52 + 1) \<le> 2 powi (ilog2 y - 52)" by (rule power_int_increasing) simp
    moreover have "(2 :: rat) powi (ilog2 x - 52 + 1) = 2 * u" unfolding u(1) by (rule power_int_add_1') simp
    ultimately have uv: "2 * u \<le> v" unfolding v(1) by simp
    have "f64 x \<le> 2 ^ 53 * u" using u(3,4,6) by (simp add: mult_right_mono)
    also have "\<dots> \<le> 2 ^ 52 * v" using uv by simp
    also have "\<dots> \<le> f64 y" using v(3,4,6) by (simp add: mult_right_mono)
    finally show ?thesis .
  qed
qed simp

lemma f64_eqI:
  assumes "2 powi e \<le> x" "x < 2 powi (e + 1)" "rne (x / 2 powi (e - 52)) = m"
  shows "f64 x = of_int m * 2 powi (e - 52)"
proof -
  have "0 < x" using assms(1) less_le_trans [of 0 "2 powi e" x] by simp
  then show ?thesis using ilog2_unique [OF assms(1,2)] assms(3) by (simp add: f64_def Let_def)
qed

lemma f64_int:
  assumes "0 \<le> k" "k < 2 ^ 53"
  shows "f64 (of_int k) = of_int k"
proof (cases "k = 0")
  case False
  then have k: "(0 :: rat) < of_int k" using assms(1) by simp
  let ?e = "ilog2 (of_int k)"
  have "(2 :: rat) powi ?e \<le> of_int k" by (rule ilog2_bounds(1) [OF k])
  also have "\<dots> < of_int (2 ^ 53)" using assms(2) by (simp only: of_int_less_iff)
  finally have "(2 :: rat) powi ?e < 2 powi 53" by simp
  then have e: "?e \<le> 52" using power_int_increasing [of 53 ?e "2 :: rat"] by force
  have "2 powi (?e - 52) = inverse ((2 :: rat) powi (52 - ?e))" by (simp flip: power_int_minus)
  moreover have "(2 :: rat) powi (52 - ?e) = of_int (2 ^ nat (52 - ?e))" using e by (simp add: power_int_def)
  ultimately have u: "2 powi (?e - 52) = inverse (of_int (2 ^ nat (52 - ?e)) :: rat)" by simp
  have "of_int k / 2 powi (?e - 52) = (of_int (k * 2 ^ nat (52 - ?e)) :: rat)" unfolding u by (simp add: divide_inverse)
  then have "rne (of_int k / 2 powi (?e - 52)) = k * 2 ^ nat (52 - ?e)" by (simp only: rne_of_int)
  from f64_eqI [OF ilog2_bounds [OF k] this] show ?thesis unfolding u by simp
qed simp

lemma f64_nat: "n < 2 ^ 53 \<Longrightarrow> f64 (of_nat n) = of_nat n"
  using f64_int [of "int n"] by simp

lemma rne_near: "\<bar>y - of_int m\<bar> < 1 / 2 \<Longrightarrow> rne y = m"
proof -
  assume "\<bar>y - of_int m\<bar> < 1 / 2"
  with rne_err [of y] have "\<bar>rat_of_int (rne y) - of_int m\<bar> < 1" by linarith
  then have "\<bar>rne y - m\<bar> < 1" by (metis of_int_1_less_iff of_int_abs of_int_diff of_int_less_1_iff)
  then show ?thesis by simp
qed

text \<open>A quotient, rounded, by integer arithmetic only.\<close>

lemma f64_quotient:
  fixes a b m :: int
  assumes "0 < b" "2 ^ 52 * b \<le> a * 2 ^ s" "a * 2 ^ s < 2 ^ 53 * b" "2 * \<bar>a * 2 ^ s - m * b\<bar> < b"
  shows "f64 (of_int a / of_int b) = of_int m / 2 ^ s"
proof -
  let ?x = "rat_of_int a / of_int b" and ?e = "52 - int s"
  have b: "0 < rat_of_int b" using assms(1) by simp
  have u: "2 powi (?e - 52) = (1 :: rat) / 2 ^ s" by (simp add: power_int_minus divide_inverse)
  have pw: "2 powi (?e + k) = (2 :: rat) powi (52 + k) / 2 ^ s" for k
  proof -
    have "(2 :: rat) powi ((52 + k) - int s) = 2 powi (52 + k) / 2 powi int s" by (rule power_int_diff) simp
    moreover have "(52 + k) - int s = ?e + k" by simp
    ultimately show ?thesis by (simp only: power_int_of_nat)
  qed
  have i: "rat_of_int (2 ^ 52 * b) \<le> of_int (a * 2 ^ s)" "rat_of_int (a * 2 ^ s) < of_int (2 ^ 53 * b)"
    "rat_of_int (2 * \<bar>a * 2 ^ s - m * b\<bar>) < of_int b" using assms(2-4) by (simp_all only: of_int_le_iff of_int_less_iff)
  have p0: "2 powi ?e = (2 :: rat) ^ 52 / 2 ^ s" using pw [of 0] by simp
  have p1: "2 powi (?e + 1) = (2 :: rat) ^ 53 / 2 ^ s" using pw [of 1] by simp
  have "2 powi ?e \<le> ?x" unfolding p0 using i(1) b by (simp add: field_simps)
  moreover have "?x < 2 powi (?e + 1)" unfolding p1 using i(2) b by (simp add: field_simps)
  moreover have "rne (?x / 2 powi (?e - 52)) = m"
  proof (rule rne_near)
    have "?x / 2 powi (?e - 52) - of_int m = of_int (a * 2 ^ s - m * b) / of_int b"
      unfolding u using b by (simp add: field_simps)
    moreover have "\<bar>rat_of_int (a * 2 ^ s - m * b) / of_int b\<bar> < 1 / 2"
      unfolding abs_divide using i(3) b by (simp add: field_simps)
    ultimately show "\<bar>?x / 2 powi (?e - 52) - of_int m\<bar> < 1 / 2" by (simp only:)
  qed
  ultimately show ?thesis using f64_eqI [of ?e ?x m] u by simp
qed


end
