(* ===== verification/Index_Min_PQ.thy ===== *)
theory Index_Min_PQ
  imports Adb_Prelude "HOL-Library.Multiset"
begin

text \<open>
  \<open>IndexMinPQ\<close> of \<open>client/adbmdns/index_min_pq.rs\<close>: a binary heap in a vector with a table from items to
  their positions, so that an item that is pushed again replaces the old one wherever it stands. An item
  is found in the table by what its \<open>Eq\<close> and \<open>Hash\<close> compare, here its \<open>key\<close>, and ordered by
  \<open>cmp_attention\<close>, here \<open>cmp\<close>. The interface \<open>attention_queue\<close> states what a client may rely on.
\<close>

subsection \<open>Operations\<close>

datatype ordering = Less | Equal | Greater

record ('a, 'k) index_min_pq =
  pq_data :: "'a list"
  pq_index :: "'k \<rightharpoonup> nat"

definition pq_new :: "('a, 'k) index_min_pq" where
  "pq_new = \<lparr>pq_data = [], pq_index = Map.empty\<rparr>"

definition pq_clear :: "('a, 'k) index_min_pq \<Rightarrow> ('a, 'k) index_min_pq" where
  "pq_clear q = q\<lparr>pq_data := [], pq_index := Map.empty\<rparr>"

definition pq_len :: "('a, 'k) index_min_pq \<Rightarrow> nat" where
  "pq_len q = length (pq_data q)"

definition parent_idx :: "nat \<Rightarrow> nat option" where
  "parent_idx i = (if i = 0 then None else Some ((i - 1) div 2))"

definition left_child_idx :: "nat \<Rightarrow> nat" where
  "left_child_idx i = 2 * i + 1"

definition right_child_idx :: "nat \<Rightarrow> nat" where
  "right_child_idx i = 2 * i + 2"

text \<open>The subtraction underflows, and panics, on an empty queue.\<close>

definition last_idx :: "('a, 'k) index_min_pq \<Rightarrow> nat result" where
  "last_idx q = (if pq_data q = [] then Inl Out_of_range else Inr (length (pq_data q) - 1))"

definition pq_swap :: "('a \<Rightarrow> 'k) \<Rightarrow> nat \<Rightarrow> nat \<Rightarrow> ('a, 'k) index_min_pq \<Rightarrow> ('a, 'k) index_min_pq result" where
  "pq_swap key i j q =
     rbind (vec_at (pq_data q) i) (\<lambda>item_i.
     rbind (vec_at (pq_data q) j) (\<lambda>item_j.
       Inr (q\<lparr>pq_index := (pq_index q)(key item_i \<mapsto> j, key item_j \<mapsto> i),
              pq_data := (pq_data q)[i := item_j, j := item_i]\<rparr>)))"

function pq_swim ::
  "('a \<Rightarrow> 'k) \<Rightarrow> ('a \<Rightarrow> 'a \<Rightarrow> ordering) \<Rightarrow> nat \<Rightarrow> ('a, 'k) index_min_pq \<Rightarrow> ('a, 'k) index_min_pq result" where
  "pq_swim key cmp idx q =
     (case parent_idx idx of
        None \<Rightarrow> Inr q
      | Some p \<Rightarrow>
          rbind (vec_at (pq_data q) idx) (\<lambda>x.
          rbind (vec_at (pq_data q) p) (\<lambda>y.
            if cmp x y \<noteq> Less then Inr q
            else rbind (pq_swap key idx p q) (pq_swim key cmp p))))"
  by pat_completeness auto
termination
  by (relation "measure (\<lambda>(_, _, idx, _). idx)") (auto simp: parent_idx_def split: if_splits)

text \<open>The smaller child of \<open>idx\<close>, if it is smaller than \<open>idx\<close>; \<open>&&\<close> reads the vector only within bounds.\<close>

definition less_at :: "('a \<Rightarrow> 'a \<Rightarrow> ordering) \<Rightarrow> ('a, 'k) index_min_pq \<Rightarrow> nat \<Rightarrow> nat \<Rightarrow> bool result" where
  "less_at cmp q i j = rbind (vec_at (pq_data q) i) (\<lambda>x. rbind (vec_at (pq_data q) j) (\<lambda>y. Inr (cmp x y = Less)))"

definition smallest_idx :: "('a \<Rightarrow> 'a \<Rightarrow> ordering) \<Rightarrow> nat \<Rightarrow> nat \<Rightarrow> ('a, 'k) index_min_pq \<Rightarrow> nat result" where
  "smallest_idx cmp hi idx q =
     (let l = left_child_idx idx; r = right_child_idx idx
      in rbind (if l \<le> hi then less_at cmp q l idx else Inr False) (\<lambda>b1.
         let s = (if b1 then l else idx)
         in rbind (if r \<le> hi then less_at cmp q r idx else Inr False) (\<lambda>b2.
            rbind (if b2 then less_at cmp q r s else Inr False) (\<lambda>b3.
              Inr (if b3 then r else s)))))"

lemma smallest_idx_bounds:
  "smallest_idx cmp hi idx q = Inr s \<Longrightarrow> s \<noteq> idx \<Longrightarrow> idx < s \<and> s \<le> hi"
  by (auto simp: smallest_idx_def Let_def left_child_idx_def right_child_idx_def rbind_eq_Inr split: if_splits)

function pq_sink_loop ::
  "('a \<Rightarrow> 'k) \<Rightarrow> ('a \<Rightarrow> 'a \<Rightarrow> ordering) \<Rightarrow> nat \<Rightarrow> nat \<Rightarrow> ('a, 'k) index_min_pq \<Rightarrow> ('a, 'k) index_min_pq result" where
  "pq_sink_loop key cmp hi idx q =
     rbind (smallest_idx cmp hi idx q) (\<lambda>s.
       if s \<noteq> idx then rbind (pq_swap key idx s q) (pq_sink_loop key cmp hi s) else Inr q)"
  by pat_completeness auto
termination
  by (relation "measure (\<lambda>(_, _, hi, idx, _). hi - idx)") (auto dest!: smallest_idx_bounds)

declare pq_swim.simps [simp del] pq_sink_loop.simps [simp del]

definition pq_sink ::
  "('a \<Rightarrow> 'k) \<Rightarrow> ('a \<Rightarrow> 'a \<Rightarrow> ordering) \<Rightarrow> nat \<Rightarrow> ('a, 'k) index_min_pq \<Rightarrow> ('a, 'k) index_min_pq result" where
  "pq_sink key cmp idx q = rbind (last_idx q) (\<lambda>hi. pq_sink_loop key cmp hi idx q)"

definition pq_push ::
  "('a \<Rightarrow> 'k) \<Rightarrow> ('a \<Rightarrow> 'a \<Rightarrow> ordering) \<Rightarrow> 'a \<Rightarrow> ('a, 'k) index_min_pq \<Rightarrow> ('a, 'k) index_min_pq result" where
  "pq_push key cmp item q =
     (case pq_index q (key item) of
        Some i \<Rightarrow>
          rbind (vec_at (pq_data q) i) (\<lambda>old.
            let q1 = q\<lparr>pq_data := (pq_data q)[i := item]\<rparr>
            in case cmp item old of
                 Equal \<Rightarrow> Inr q1
               | Less \<Rightarrow> pq_swim key cmp i q1
               | Greater \<Rightarrow> pq_sink key cmp i q1)
      | None \<Rightarrow>
          let q1 = q\<lparr>pq_data := pq_data q @ [item]\<rparr>
          in rbind (last_idx q1) (\<lambda>hi.
               pq_swim key cmp hi (q1\<lparr>pq_index := (pq_index q1)(key item \<mapsto> hi)\<rparr>)))"

definition pq_pop ::
  "('a \<Rightarrow> 'k) \<Rightarrow> ('a \<Rightarrow> 'a \<Rightarrow> ordering) \<Rightarrow> ('a, 'k) index_min_pq \<Rightarrow> ('a option \<times> ('a, 'k) index_min_pq) result" where
  "pq_pop key cmp q =
     (if pq_data q = [] then Inr (None, q)
      else rbind (last_idx q) (\<lambda>hi.
           rbind (pq_swap key 0 hi q) (\<lambda>q1.
             if pq_data q1 = [] then Inl Fatal
             else let item = last (pq_data q1);
                      q2 = q1\<lparr>pq_data := butlast (pq_data q1), pq_index := (pq_index q1)(key item := None)\<rparr>
                  in rbind (if pq_data q2 \<noteq> [] then pq_sink key cmp 0 q2 else Inr q2) (\<lambda>q3. Inr (Some item, q3)))))"

definition pq_peek :: "('a, 'k) index_min_pq \<Rightarrow> 'a option" where
  "pq_peek q = (case pq_data q of [] \<Rightarrow> None | x # _ \<Rightarrow> Some x)"

subsection \<open>Heap order\<close>

text \<open>The order that a comparison stands for, and positions in the tree.\<close>

definition ranked :: "('a \<Rightarrow> 'p :: linorder) \<Rightarrow> ('a \<Rightarrow> 'a \<Rightarrow> ordering) \<Rightarrow> bool" where
  "ranked rank cmp \<longleftrightarrow> (\<forall>x y. cmp x y = (if rank x < rank y then Less else if rank x = rank y then Equal else Greater))"

lemma ranked_less: "ranked rank cmp \<Longrightarrow> cmp x y = Less \<longleftrightarrow> rank x < rank y"
  by (simp add: ranked_def)

definition par :: "nat \<Rightarrow> nat" where
  "par j = (j - 1) div 2"

lemma par_less [simp]: "0 < j \<Longrightarrow> par j < j"
  by (simp add: par_def)

lemma par_eq_iff: "0 < j \<Longrightarrow> par j = i \<longleftrightarrow> j = left_child_idx i \<or> j = right_child_idx i"
  by (auto simp: par_def left_child_idx_def right_child_idx_def)

lemma par_child [simp]: "par (left_child_idx i) = i" "par (right_child_idx i) = i" "0 < left_child_idx i" "0 < right_child_idx i"
  by (simp_all add: par_def left_child_idx_def right_child_idx_def)

definition edge_ok :: "('a \<Rightarrow> 'p :: linorder) \<Rightarrow> 'a list \<Rightarrow> nat \<Rightarrow> bool" where
  "edge_ok rank d j \<longleftrightarrow> rank (d ! par j) \<le> rank (d ! j)"

definition heap :: "('a \<Rightarrow> 'p :: linorder) \<Rightarrow> 'a list \<Rightarrow> bool" where
  "heap rank d \<longleftrightarrow> (\<forall>j. 0 < j \<longrightarrow> j < length d \<longrightarrow> edge_ok rank d j)"

text \<open>The heap with a possibly too small item at \<open>i\<close>, and with a possibly too large one.\<close>

definition heap_up :: "('a \<Rightarrow> 'p :: linorder) \<Rightarrow> nat \<Rightarrow> 'a list \<Rightarrow> bool" where
  "heap_up rank i d \<longleftrightarrow>
     (\<forall>j. 0 < j \<longrightarrow> j < length d \<longrightarrow> (j \<noteq> i \<longrightarrow> edge_ok rank d j)
        \<and> (par j = i \<longrightarrow> 0 < i \<longrightarrow> rank (d ! par i) \<le> rank (d ! j)))"

definition heap_down :: "('a \<Rightarrow> 'p :: linorder) \<Rightarrow> nat \<Rightarrow> 'a list \<Rightarrow> bool" where
  "heap_down rank i d \<longleftrightarrow>
     (\<forall>j. 0 < j \<longrightarrow> j < length d \<longrightarrow> (par j \<noteq> i \<longrightarrow> edge_ok rank d j)
        \<and> (par j = i \<longrightarrow> 0 < i \<longrightarrow> rank (d ! par i) \<le> rank (d ! j)))"

lemma heap_root:
  assumes "heap rank d" "j < length d"
  shows "rank (d ! 0) \<le> rank (d ! j)"
  using assms(2)
proof (induction j rule: less_induct)
  case (less j)
  show ?case
  proof (cases "j = 0")
    case False
    then have "rank (d ! 0) \<le> rank (d ! par j)" using less by (meson less_trans neq0_conv par_less)
    also have "\<dots> \<le> rank (d ! j)" using assms(1) False less.prems by (auto simp: heap_def edge_ok_def)
    finally show ?thesis .
  qed simp
qed

lemma heap_up_done: "heap_up rank i d \<Longrightarrow> i = 0 \<or> edge_ok rank d i \<Longrightarrow> heap rank d"
  unfolding heap_up_def heap_def by (metis less_not_refl2)

lemma heap_down_done:
  assumes "heap_down rank i d" "\<And>j. 0 < j \<Longrightarrow> j < length d \<Longrightarrow> par j = i \<Longrightarrow> edge_ok rank d j"
  shows "heap rank d"
  using assms unfolding heap_down_def heap_def by blast

text \<open>One exchange upwards, and one downwards with the smallest child.\<close>

lemma heap_up_swap:
  assumes up: "heap_up rank i d" and i: "0 < i" "i < length d" and lt: "rank (d ! i) < rank (d ! par i)"
  shows "heap_up rank (par i) (d[i := d ! par i, par i := d ! i])"
  unfolding heap_up_def length_list_update
proof (intro allI impI conjI)
  let ?p = "par i" and ?d = "d[i := d ! par i, par i := d ! i]"
  fix j assume j: "0 < j" "j < length d"
  have p: "?p < i" using i by simp
  have nth: "?d ! k = (if k = ?p then d ! i else if k = i then d ! ?p else d ! k)" if "k < length d" for k
    using that i p by (auto simp: nth_list_update)
  have pj: "par j < length d" using j by (meson less_trans par_less)
  have old: "j \<noteq> i \<Longrightarrow> rank (d ! par j) \<le> rank (d ! j)" and gp: "par j = i \<Longrightarrow> rank (d ! par i) \<le> rank (d ! j)"
    using up j i by (auto simp: heap_up_def edge_ok_def)
  show "edge_ok rank ?d j" if "j \<noteq> ?p"
    using that nth [OF j(2)] nth [OF pj] old gp lt p unfolding edge_ok_def by (auto split: if_splits)
  show "rank (?d ! par ?p) \<le> rank (?d ! j)" if "par j = ?p" "0 < ?p"
  proof -
    have pp: "par ?p < ?p" using that(2) by simp
    have "rank (d ! par ?p) \<le> rank (d ! ?p)" using up that(2) less_trans [OF p i(2)] less_imp_neq [OF p] unfolding heap_up_def edge_ok_def by blast
    moreover have "rank (d ! ?p) \<le> rank (d ! j)" if "j \<noteq> i" using old that \<open>par j = ?p\<close> by simp
    moreover have "?d ! par ?p = d ! par ?p"
      using nth [OF less_trans [OF less_trans [OF pp p] i(2)]] less_imp_neq [OF pp] less_imp_neq [OF less_trans [OF pp p]] by simp
    moreover have "?d ! j = (if j = i then d ! ?p else d ! j)" using nth [OF j(2)] \<open>par j = ?p\<close> j par_less [of j] by auto
    ultimately show ?thesis by (auto intro: order_trans)
  qed
qed

lemma heap_down_swap:
  assumes down: "heap_down rank i d" and s: "s < length d" "0 < s" "par s = i" and lt: "rank (d ! s) < rank (d ! i)"
    and least: "\<And>j. 0 < j \<Longrightarrow> j < length d \<Longrightarrow> par j = i \<Longrightarrow> rank (d ! s) \<le> rank (d ! j)"
  shows "heap_down rank s (d[i := d ! s, s := d ! i])"
  unfolding heap_down_def length_list_update
proof (intro allI impI conjI)
  let ?d = "d[i := d ! s, s := d ! i]"
  fix j assume j: "0 < j" "j < length d"
  have lt_s: "i < s" using s par_less [of s] by simp
  have nth: "?d ! k = (if k = s then d ! i else if k = i then d ! s else d ! k)" if "k < length d" for k
    using that s lt_s by (auto simp: nth_list_update)
  have pj: "par j < length d" "par j < j" using j by (meson less_trans par_less)+
  have old: "par j \<noteq> i \<Longrightarrow> rank (d ! par j) \<le> rank (d ! j)" using down j by (auto simp: heap_down_def edge_ok_def)
  have gp: "0 < i \<Longrightarrow> rank (d ! par i) \<le> rank (d ! s)" using down s by (auto simp: heap_down_def)
  show "edge_ok rank ?d j" if "par j \<noteq> s"
  proof (cases "par j = i")
    case True
    then show ?thesis using nth [OF j(2)] nth [OF pj(1)] least [OF j] lt that pj lt_s unfolding edge_ok_def by (auto split: if_splits)
  next
    case False
    then show ?thesis using nth [OF j(2)] nth [OF pj(1)] old gp that pj s unfolding edge_ok_def by (auto split: if_splits)
  qed
  show "rank (?d ! par s) \<le> rank (?d ! j)" if "par j = s" "0 < s"
    using that nth [OF j(2)] nth [of i] s lt_s old pj by (auto split: if_splits)
qed

subsection \<open>The table of positions\<close>

definition index_ok :: "('a \<Rightarrow> 'k) \<Rightarrow> 'a list \<Rightarrow> ('k \<rightharpoonup> nat) \<Rightarrow> bool" where
  "index_ok key d ix \<longleftrightarrow> (\<forall>k i. ix k = Some i \<longleftrightarrow> i < length d \<and> key (d ! i) = k)"

lemma index_ok_inj: "index_ok key d ix \<Longrightarrow> i < length d \<Longrightarrow> j < length d \<Longrightarrow> key (d ! i) = key (d ! j) \<Longrightarrow> i = j"
  unfolding index_ok_def by (metis option.inject)

lemma index_ok_distinct: "index_ok key d ix \<Longrightarrow> distinct (map key d)"
  by (auto simp: distinct_conv_nth dest: index_ok_inj)

lemma index_ok_swap:
  assumes "index_ok key d ix" "i < length d" "j < length d"
  shows "index_ok key (d[i := d ! j, j := d ! i]) (ix(key (d ! i) \<mapsto> j, key (d ! j) \<mapsto> i))"
proof -
  have "(ix(key (d ! i) \<mapsto> j, key (d ! j) \<mapsto> i)) k = Some m
      \<longleftrightarrow> m < length d \<and> key (d[i := d ! j, j := d ! i] ! m) = k" for k m
  proof -
    have old: "ix k = Some m \<longleftrightarrow> m < length d \<and> key (d ! m) = k" using assms(1) by (simp add: index_ok_def)
    have inj: "key (d ! a) = key (d ! b) \<longleftrightarrow> a = b" if "a < length d" "b < length d" for a b
      using index_ok_inj [OF assms(1) that] by auto
    show ?thesis
      using old assms(2,3) inj [of m i] inj [of m j] inj [of i j] by (cases "m = i"; cases "m = j") (auto simp: nth_list_update)
  qed
  then show ?thesis by (simp add: index_ok_def)
qed

lemma index_ok_replace:
  assumes "index_ok key d ix" "i < length d" "key x = key (d ! i)"
  shows "index_ok key (d[i := x]) ix"
  using assms by (auto simp: index_ok_def nth_list_update)

lemma index_ok_snoc:
  assumes "index_ok key d ix" "ix (key x) = None"
  shows "index_ok key (d @ [x]) (ix(key x \<mapsto> length d))"
proof -
  have "key (d ! i) \<noteq> key x" if "i < length d" for i using assms that unfolding index_ok_def by (metis option.distinct(1))
  then show ?thesis using assms(1) by (auto simp: index_ok_def nth_append less_Suc_eq)
qed

lemma index_ok_butlast:
  assumes "index_ok key (d @ [x]) ix"
  shows "index_ok key d (ix(key x := None))"
proof -
  have old: "ix k = Some i \<longleftrightarrow> i < Suc (length d) \<and> key ((d @ [x]) ! i) = k" for k i using assms by (simp add: index_ok_def)
  have "key (d ! i) \<noteq> key x" if "i < length d" for i
    using index_ok_inj [OF assms, of i "length d"] that by (auto simp: nth_append)
  then have "(ix(key x := None)) k = Some i \<longleftrightarrow> i < length d \<and> key (d ! i) = k" for k i
    using old [of k i] by (cases "k = key x"; cases "i = length d") (auto simp: nth_append)
  then show ?thesis by (simp add: index_ok_def)
qed

subsection \<open>Operations on a well-formed queue\<close>

definition pq_inv :: "('a \<Rightarrow> 'k) \<Rightarrow> ('a \<Rightarrow> 'p :: linorder) \<Rightarrow> ('a, 'k) index_min_pq \<Rightarrow> bool" where
  "pq_inv key rank q \<longleftrightarrow> heap rank (pq_data q) \<and> index_ok key (pq_data q) (pq_index q)"

definition pq_contents :: "('a \<Rightarrow> 'k) \<Rightarrow> ('a, 'k) index_min_pq \<Rightarrow> 'k \<rightharpoonup> 'a" where
  "pq_contents key q = map_of (map (\<lambda>x. (key x, x)) (pq_data q))"

lemma pq_swap_ok:
  assumes "i < length (pq_data q)" "j < length (pq_data q)"
  shows "pq_swap key i j q = Inr (q\<lparr>pq_index := (pq_index q)(key (pq_data q ! i) \<mapsto> j, key (pq_data q ! j) \<mapsto> i),
     pq_data := (pq_data q)[i := pq_data q ! j, j := pq_data q ! i]\<rparr>)"
  using assms by (simp add: pq_swap_def)

lemma mset_list_swap: "i < length d \<Longrightarrow> j < length d \<Longrightarrow> mset (d[i := d ! j, j := d ! i]) = mset d"
  using mset_swap [of j d i] by (simp add: list_update_swap)

lemma pq_swim_ok:
  assumes "ranked rank cmp" "idx < length (pq_data q)" "heap_up rank idx (pq_data q)" "index_ok key (pq_data q) (pq_index q)"
  shows "\<exists>q'. pq_swim key cmp idx q = Inr q' \<and> pq_inv key rank q' \<and> mset (pq_data q') = mset (pq_data q)"
  using assms
proof (induction idx arbitrary: q rule: less_induct)
  case (less idx)
  let ?d = "pq_data q" and ?p = "par idx"
  show ?case
  proof (cases "idx = 0 \<or> \<not> rank (?d ! idx) < rank (?d ! ?p)")
    case True
    then have "idx = 0 \<or> edge_ok rank ?d idx" by (auto simp: edge_ok_def)
    with heap_up_done less.prems have "heap rank ?d" by blast
    moreover have "pq_swim key cmp idx q = Inr q"
    proof (cases "idx = 0")
      case False
      with True have "cmp (?d ! idx) (?d ! ?p) \<noteq> Less" "?p < length ?d"
        using less.prems ranked_less [of rank cmp] by (auto intro: less_trans [OF par_less])
      with False less.prems show ?thesis by (subst pq_swim.simps) (simp add: parent_idx_def par_def)
    qed (subst pq_swim.simps, simp add: parent_idx_def)
    ultimately show ?thesis using less.prems by (simp add: pq_inv_def)
  next
    case False
    then have i: "0 < idx" "?p < idx" and lt: "rank (?d ! idx) < rank (?d ! ?p)" by simp_all
    have p: "?p < length ?d" using i(2) less.prems(2) by simp
    let ?q = "q\<lparr>pq_index := (pq_index q)(key (?d ! idx) \<mapsto> ?p, key (?d ! ?p) \<mapsto> idx), pq_data := ?d[idx := ?d ! ?p, ?p := ?d ! idx]\<rparr>"
    have "pq_swim key cmp idx q = pq_swim key cmp ?p ?q"
      using i p lt less.prems pq_swap_ok [of idx q ?p key] ranked_less [of rank cmp]
      by (subst pq_swim.simps) (simp add: parent_idx_def par_def)
    moreover have "\<exists>q'. pq_swim key cmp ?p ?q = Inr q' \<and> pq_inv key rank q' \<and> mset (pq_data q') = mset (pq_data ?q)"
    proof (rule less.IH)
      show "heap_up rank ?p (pq_data ?q)" using heap_up_swap [OF less.prems(3) i(1) less.prems(2) lt] by simp
      show "index_ok key (pq_data ?q) (pq_index ?q)" using index_ok_swap [OF less.prems(4,2) p] by (simp del: fun_upd_apply)
    qed (use i(2) p less.prems(1) in simp_all)
    ultimately show ?thesis using mset_list_swap [OF less.prems(2) p] by simp
  qed
qed

lemma less_at_ok:
  "ranked rank cmp \<Longrightarrow> i < length (pq_data q) \<Longrightarrow> j < length (pq_data q) \<Longrightarrow>
     less_at cmp q i j = Inr (rank (pq_data q ! i) < rank (pq_data q ! j))"
  by (simp add: less_at_def ranked_less)

lemma smallest_idx_ok:
  assumes "ranked rank cmp" "idx < length (pq_data q)" "hi = length (pq_data q) - 1"
  shows "\<exists>s. smallest_idx cmp hi idx q = Inr s \<and> s < length (pq_data q)
     \<and> (s \<noteq> idx \<longrightarrow> 0 < s \<and> par s = idx \<and> rank (pq_data q ! s) < rank (pq_data q ! idx))
     \<and> (\<forall>j. 0 < j \<longrightarrow> j < length (pq_data q) \<longrightarrow> par j = idx \<longrightarrow> rank (pq_data q ! s) \<le> rank (pq_data q ! j))"
proof -
  let ?d = "pq_data q" and ?l = "left_child_idx idx" and ?r = "right_child_idx idx"
  have hi: "j \<le> hi \<longleftrightarrow> j < length ?d" for j using assms(2,3) by auto
  let ?s = "if ?l < length ?d \<and> rank (?d ! ?l) < rank (?d ! idx) then ?l else idx"
  let ?t = "if ?r < length ?d \<and> rank (?d ! ?r) < rank (?d ! idx) \<and> rank (?d ! ?r) < rank (?d ! ?s) then ?r else ?s"
  have "smallest_idx cmp hi idx q = Inr ?t"
    unfolding smallest_idx_def Let_def hi using assms(1,2) by (simp add: less_at_ok)
  moreover have "rank (?d ! ?t) \<le> rank (?d ! j)" if "0 < j" "j < length ?d" "par j = idx" for j
    using par_eq_iff [OF that(1), of idx] that(2,3) by (auto simp: not_less)
  ultimately show ?thesis using assms(2) par_child [of idx] by (intro exI [of _ ?t]) (simp del: par_child)
qed

lemma pq_sink_loop_ok:
  assumes "ranked rank cmp" "idx < length (pq_data q)" "hi = length (pq_data q) - 1"
    "heap_down rank idx (pq_data q)" "index_ok key (pq_data q) (pq_index q)"
  shows "\<exists>q'. pq_sink_loop key cmp hi idx q = Inr q' \<and> pq_inv key rank q' \<and> mset (pq_data q') = mset (pq_data q)"
  using assms(2-)
proof (induction "hi - idx" arbitrary: idx q rule: less_induct)
  case less
  let ?d = "pq_data q"
  from smallest_idx_ok [OF assms(1) less.prems(1,2)] obtain s where
    s: "smallest_idx cmp hi idx q = Inr s" "s < length ?d"
      "s \<noteq> idx \<longrightarrow> 0 < s \<and> par s = idx \<and> rank (?d ! s) < rank (?d ! idx)"
      "\<forall>j. 0 < j \<longrightarrow> j < length ?d \<longrightarrow> par j = idx \<longrightarrow> rank (?d ! s) \<le> rank (?d ! j)" by blast
  show ?case
  proof (cases "s = idx")
    case True
    then have "heap rank ?d" using s(4) less.prems(3) by (intro heap_down_done [of rank idx]) (auto simp: edge_ok_def)
    then show ?thesis using s(1) True less.prems by (subst pq_sink_loop.simps) (simp add: pq_inv_def)
  next
    case False
    with s have s': "0 < s" "par s = idx" "rank (?d ! s) < rank (?d ! idx)" by simp_all
    let ?q = "q\<lparr>pq_index := (pq_index q)(key (?d ! idx) \<mapsto> s, key (?d ! s) \<mapsto> idx), pq_data := ?d[idx := ?d ! s, s := ?d ! idx]\<rparr>"
    have "pq_sink_loop key cmp hi idx q = pq_sink_loop key cmp hi s ?q"
      using s(1,2) False less.prems pq_swap_ok [of idx q s key] by (subst pq_sink_loop.simps) simp
    moreover have "\<exists>q'. pq_sink_loop key cmp hi s ?q = Inr q' \<and> pq_inv key rank q' \<and> mset (pq_data q') = mset (pq_data ?q)"
    proof (rule less.hyps)
      show "hi - s < hi - idx" using smallest_idx_bounds [OF s(1) False] by auto
      show "heap_down rank s (pq_data ?q)" using heap_down_swap [OF less.prems(3) s(2) s'] s(4) by simp
      show "index_ok key (pq_data ?q) (pq_index ?q)" using index_ok_swap [OF less.prems(4,1) s(2)] by (simp del: fun_upd_apply)
    qed (use s(2) less.prems(2) in simp_all)
    ultimately show ?thesis using mset_list_swap [OF less.prems(1) s(2)] by simp
  qed
qed

lemma pq_sink_ok:
  assumes "ranked rank cmp" "idx < length (pq_data q)" "heap_down rank idx (pq_data q)" "index_ok key (pq_data q) (pq_index q)"
  shows "\<exists>q'. pq_sink key cmp idx q = Inr q' \<and> pq_inv key rank q' \<and> mset (pq_data q') = mset (pq_data q)"
proof -
  have "pq_data q \<noteq> []" using assms(2) by auto
  then show ?thesis using pq_sink_loop_ok [OF assms(1,2) refl assms(3,4)] by (simp add: pq_sink_def last_idx_def)
qed

text \<open>What a queue holds depends only on which items are in the vector.\<close>

lemma pq_contents_eq: "distinct (map key (pq_data q)) \<Longrightarrow> pq_contents key q k = Some x \<longleftrightarrow> x \<in> set (pq_data q) \<and> key x = k"
  by (auto simp: pq_contents_def map_of_eq_Some_iff comp_def)

lemma pq_inv_contents: "pq_inv key rank q \<Longrightarrow> pq_contents key q k = Some x \<longleftrightarrow> x \<in> set (pq_data q) \<and> key x = k"
  by (intro pq_contents_eq) (auto simp: pq_inv_def intro: index_ok_distinct)

lemma option_ext: "(\<And>x. a = Some x \<longleftrightarrow> b = Some x) \<Longrightarrow> a = b"
  by (cases a; cases b) auto

lemma pq_contents_update:
  assumes "pq_inv key rank q" "distinct (map key d)"
    "set d = insert x {y \<in> set (pq_data q). key y \<noteq> key x}" "mset (pq_data q') = mset d" "pq_inv key rank q'"
  shows "pq_contents key q' = (pq_contents key q)(key x \<mapsto> x)"
proof
  fix k
  have "set (pq_data q') = set d" by (rule mset_eq_setD [OF assms(4)])
  then show "pq_contents key q' k = ((pq_contents key q)(key x \<mapsto> x)) k"
    using assms(3) by (intro option_ext) (auto simp: pq_inv_contents [OF assms(1)] pq_inv_contents [OF assms(5)])
qed

lemma set_list_update_distinct:
  assumes "distinct (map key d)" "i < length d" "key (d ! i) = key x"
  shows "set (d[i := x]) = insert x {y \<in> set d. key y \<noteq> key x}"
proof -
  have "key (d ! j) = key x \<longleftrightarrow> j = i" if "j < length d" for j
    using assms that nth_eq_iff_index_eq [of "map key d" i j] by auto
  then have "y \<in> set (d[i := x]) \<longleftrightarrow> y = x \<or> y \<in> set d \<and> key y \<noteq> key x" for y
    using assms(2) by (auto simp: in_set_conv_nth nth_list_update) metis
  then show ?thesis by auto
qed

lemma heap_replace_smaller:
  assumes "heap rank d" "i < length d" "rank x \<le> rank (d ! i)"
  shows "heap_up rank i (d[i := x])"
  unfolding heap_up_def length_list_update
proof (intro allI impI conjI)
  fix j assume j: "0 < j" "j < length d"
  have pj: "par j < j" "par j < length d" using j by (meson less_trans par_less)+
  have e: "rank (d ! par j) \<le> rank (d ! j)" using assms(1) j by (simp add: heap_def edge_ok_def)
  show "edge_ok rank (d[i := x]) j" if "j \<noteq> i" using that e pj assms by (auto simp: edge_ok_def nth_list_update)
  show "rank (d[i := x] ! par i) \<le> rank (d[i := x] ! j)" if "par j = i" "0 < i"
  proof -
    have "par i \<noteq> i" "j \<noteq> i" using less_imp_neq [OF par_less [OF that(2)]] pj(1) that(1) by auto
    moreover have "rank (d ! par i) \<le> rank (d ! i)" using assms(1,2) that(2) by (simp add: heap_def edge_ok_def)
    ultimately show ?thesis using e that(1) by simp
  qed
qed

lemma heap_replace_larger:
  assumes "heap rank d" "i < length d" "rank (d ! i) \<le> rank x"
  shows "heap_down rank i (d[i := x])"
  unfolding heap_down_def length_list_update
proof (intro allI impI conjI)
  fix j assume j: "0 < j" "j < length d"
  have pj: "par j < j" "par j < length d" using j by (meson less_trans par_less)+
  have e: "rank (d ! par j) \<le> rank (d ! j)" using assms(1) j by (simp add: heap_def edge_ok_def)
  show "edge_ok rank (d[i := x]) j" if "par j \<noteq> i" using that e pj assms by (auto simp: edge_ok_def nth_list_update)
  show "rank (d[i := x] ! par i) \<le> rank (d[i := x] ! j)" if "par j = i" "0 < i"
  proof -
    have "par i \<noteq> i" "j \<noteq> i" using less_imp_neq [OF par_less [OF that(2)]] pj(1) that(1) by auto
    moreover have "rank (d ! par i) \<le> rank (d ! i)" using assms(1,2) that(2) by (simp add: heap_def edge_ok_def)
    ultimately show ?thesis using e that(1) by simp
  qed
qed

lemma heap_snoc: "heap rank d \<Longrightarrow> heap_up rank (length d) (d @ [x])"
  unfolding heap_up_def heap_def edge_ok_def
proof (intro allI impI conjI)
  fix j assume h: "\<forall>j. 0 < j \<longrightarrow> j < length d \<longrightarrow> rank (d ! par j) \<le> rank (d ! j)" and j: "0 < j" "j < length (d @ [x])"
  have pj: "par j < j" using j by simp
  show "rank ((d @ [x]) ! par j) \<le> rank ((d @ [x]) ! j)" if "j \<noteq> length d"
    using h j that less_trans [OF pj, of "length d"] by (simp add: nth_append)
  show "rank ((d @ [x]) ! par (length d)) \<le> rank ((d @ [x]) ! j)" if "par j = length d" "0 < length d"
    using pj j that by simp
qed

lemma pq_push_ok:
  assumes "ranked rank cmp" "pq_inv key rank q"
  shows "\<exists>q'. pq_push key cmp x q = Inr q' \<and> pq_inv key rank q' \<and> pq_contents key q' = (pq_contents key q)(key x \<mapsto> x)"
proof (cases "pq_index q (key x)")
  case None
  let ?d = "pq_data q @ [x]"
  let ?q = "q\<lparr>pq_data := ?d, pq_index := (pq_index q)(key x \<mapsto> length (pq_data q))\<rparr>"
  have ix: "index_ok key ?d (pq_index ?q)" using index_ok_snoc [of key "pq_data q" "pq_index q" x] assms(2) None
    by (simp add: pq_inv_def del: fun_upd_apply)
  have "\<exists>q'. pq_swim key cmp (length (pq_data q)) ?q = Inr q' \<and> pq_inv key rank q' \<and> mset (pq_data q') = mset (pq_data ?q)"
    using assms ix by (intro pq_swim_ok) (simp_all add: pq_inv_def heap_snoc del: fun_upd_apply)
  then obtain q' where q': "pq_swim key cmp (length (pq_data q)) ?q = Inr q'" "pq_inv key rank q'" "mset (pq_data q') = mset ?d" by auto
  have "key y \<noteq> key x" if "y \<in> set (pq_data q)" for y
    using assms(2) None that unfolding pq_inv_def index_ok_def by (metis in_set_conv_nth option.distinct(1))
  then have "set ?d = insert x {y \<in> set (pq_data q). key y \<noteq> key x}" by auto
  with pq_contents_update [OF assms(2) index_ok_distinct [OF ix] _ q'(3,2)] show ?thesis
    using q'(1,2) None by (simp add: pq_push_def last_idx_def Let_def)
next
  case (Some i)
  let ?d = "(pq_data q)[i := x]"
  let ?q = "q\<lparr>pq_data := ?d\<rparr>" and ?old = "pq_data q ! i"
  have i: "i < length (pq_data q)" "key ?old = key x" using assms(2) Some by (auto simp: pq_inv_def index_ok_def)
  have ix: "index_ok key ?d (pq_index ?q)" using assms(2) i by (simp add: pq_inv_def index_ok_replace)
  have h: "heap rank (pq_data q)" and dq: "distinct (map key (pq_data q))"
    using assms(2) by (auto simp: pq_inv_def intro: index_ok_distinct)
  have "\<exists>q'. pq_push key cmp x q = Inr q' \<and> pq_inv key rank q' \<and> mset (pq_data q') = mset ?d"
  proof (cases "cmp x ?old")
    case Less
    then have "heap_up rank i ?d" using heap_replace_smaller [OF h i(1)] assms(1) by (simp add: ranked_less)
    with pq_swim_ok [OF assms(1), of i ?q key] i ix show ?thesis by (simp add: pq_push_def Some Less Let_def)
  next
    case Equal
    then have eq: "rank x = rank ?old" using assms(1) by (auto simp: ranked_def split: if_splits)
    then have "heap_up rank i ?d" using heap_replace_smaller [OF h i(1)] by simp
    moreover have "i = 0 \<or> edge_ok rank ?d i"
    proof (cases "i = 0")
      case False
      then have "par i \<noteq> i" using less_imp_neq [OF par_less] by auto
      then show ?thesis using h False i eq by (auto simp: heap_def edge_ok_def)
    qed simp
    ultimately have "heap rank ?d" by (rule heap_up_done)
    then show ?thesis using i ix by (simp add: pq_push_def Some Equal Let_def pq_inv_def)
  next
    case Greater
    then have "rank ?old \<le> rank x" using assms(1) by (auto simp: ranked_def split: if_splits)
    then have "heap_down rank i ?d" by (rule heap_replace_larger [OF h i(1)])
    with pq_sink_ok [OF assms(1), of i ?q key] i ix show ?thesis by (simp add: pq_push_def Some Greater Let_def)
  qed
  then obtain q' where "pq_push key cmp x q = Inr q'" "pq_inv key rank q'" "mset (pq_data q') = mset ?d" by blast
  with pq_contents_update [OF assms(2) index_ok_distinct [OF ix] set_list_update_distinct [OF dq i]] show ?thesis by blast
qed

lemma pq_peek_ok:
  assumes "pq_inv key rank q"
  shows "pq_peek q = None \<longleftrightarrow> pq_contents key q = Map.empty"
    and "pq_peek q = Some x \<Longrightarrow> pq_contents key q (key x) = Some x \<and> (\<forall>k y. pq_contents key q k = Some y \<longrightarrow> rank x \<le> rank y)"
proof -
  show "pq_peek q = None \<longleftrightarrow> pq_contents key q = Map.empty" by (auto simp: pq_peek_def pq_contents_def split: list.splits)
  show "pq_contents key q (key x) = Some x \<and> (\<forall>k y. pq_contents key q k = Some y \<longrightarrow> rank x \<le> rank y)" if "pq_peek q = Some x"
  proof -
    from that have x: "x = pq_data q ! 0" "0 < length (pq_data q)" by (auto simp: pq_peek_def split: list.splits)
    have "rank x \<le> rank y" if "y \<in> set (pq_data q)" for y
      using heap_root [of rank "pq_data q"] assms that x(1) by (auto simp: pq_inv_def in_set_conv_nth)
    then show ?thesis using x by (auto simp: pq_inv_contents [OF assms])
  qed
qed

lemma heap_down_root: "heap rank (x # d) \<Longrightarrow> heap_down rank 0 (y # d)"
  unfolding heap_down_def heap_def edge_ok_def
proof (intro allI impI conjI)
  fix j assume h: "\<forall>j>0. j < length (x # d) \<longrightarrow> rank ((x # d) ! par j) \<le> rank ((x # d) ! j)" "0 < j" "j < length (y # d)" "par j \<noteq> 0"
  have "rank ((x # d) ! par j) \<le> rank ((x # d) ! j)" using h(1) [rule_format, OF h(2)] h(3) by simp
  moreover have "(y # d) ! par j = (x # d) ! par j" "(y # d) ! j = (x # d) ! j" using h(2,4) by (simp_all add: nth_Cons')
  ultimately show "rank ((y # d) ! par j) \<le> rank ((y # d) ! j)" by simp
qed simp

lemma heap_butlast: "heap rank (d @ [x]) \<Longrightarrow> heap rank d"
  unfolding heap_def edge_ok_def
proof (intro allI impI)
  fix j assume h: "\<forall>j>0. j < length (d @ [x]) \<longrightarrow> rank ((d @ [x]) ! par j) \<le> rank ((d @ [x]) ! j)" "0 < j" "j < length d"
  then have "rank ((d @ [x]) ! par j) \<le> rank ((d @ [x]) ! j)" by simp
  with h(3) less_trans [OF par_less [OF h(2)] h(3)] show "rank (d ! par j) \<le> rank (d ! j)" by (simp add: nth_append)
qed

lemma pq_pop_ok:
  assumes "ranked rank cmp" "pq_inv key rank q" "pq_peek q = Some x"
  shows "\<exists>q'. pq_pop key cmp q = Inr (Some x, q') \<and> pq_inv key rank q' \<and> pq_contents key q' = (pq_contents key q)(key x := None)"
proof -
  from assms(3) obtain d where d: "pq_data q = x # d" by (auto simp: pq_peek_def split: list.splits)
  have ixq: "index_ok key (x # d) (pq_index q)" and h: "heap rank (x # d)" using assms(2) d by (simp_all add: pq_inv_def)
  let ?n = "length d" and ?y = "(x # d) ! length d"
  let ?ix = "(pq_index q)(key x \<mapsto> ?n, key ?y \<mapsto> 0)"
  let ?e = "(x # d)[0 := ?y, ?n := x]"
  have sw: "pq_swap key 0 ?n q = Inr (q\<lparr>pq_index := ?ix, pq_data := ?e\<rparr>)"
    using pq_swap_ok [of 0 q ?n key] d by simp
  have e: "?e = butlast ?e @ [x]"
    by (cases d rule: rev_cases) (simp_all add: nth_append)
  let ?q2 = "q\<lparr>pq_data := butlast ?e, pq_index := ?ix(key x := None)\<rparr>"
  have "index_ok key ?e ?ix" using index_ok_swap [OF ixq, of 0 ?n] by simp
  then have ix2: "index_ok key (butlast ?e) (?ix(key x := None))" using e index_ok_butlast [of key "butlast ?e" x ?ix] by simp
  have set2: "mset (butlast ?e) = mset d"
  proof -
    have "mset ?e = mset (x # d)" using mset_list_swap [of 0 "x # d" ?n] by simp
    then show ?thesis by (subst (asm) e) simp
  qed
  have "\<exists>q'. (if pq_data ?q2 \<noteq> [] then pq_sink key cmp 0 ?q2 else Inr ?q2) = Inr q' \<and> pq_inv key rank q' \<and> mset (pq_data q') = mset d"
  proof (cases "d = []")
    case True
    then show ?thesis using ix2 by (simp add: pq_inv_def heap_def)
  next
    case False
    then obtain d' z where dz: "d = d' @ [z]" by (cases d rule: rev_cases) auto
    then have b: "butlast ?e = z # d'" by (simp add: nth_append butlast_append)
    have "heap_down rank 0 (z # d')" using heap_down_root [of rank x d' z] heap_butlast [of rank "x # d'" z] h dz by simp
    moreover have q2: "pq_data ?q2 = z # d'" using b by simp
    ultimately have "\<exists>q'. pq_sink key cmp 0 ?q2 = Inr q' \<and> pq_inv key rank q' \<and> mset (pq_data q') = mset (pq_data ?q2)"
      using ix2 b by (intro pq_sink_ok [OF assms(1)]) (simp_all only: q2, simp_all)
    then show ?thesis using q2 set2 b by (simp only: if_True list.distinct simp_thms)
  qed
  then obtain q' where q': "(if pq_data ?q2 \<noteq> [] then pq_sink key cmp 0 ?q2 else Inr ?q2) = Inr q'" "pq_inv key rank q'"
    "mset (pq_data q') = mset d" by blast
  have pop: "pq_pop key cmp q = Inr (Some x, q')"
  proof -
    have "last ?e = x" "?e \<noteq> []" by (subst e, simp)+
    with sw q'(1) d show ?thesis by (simp add: pq_pop_def last_idx_def Let_def del: list_update.simps)
  qed
  have "set (pq_data q') = set d" by (rule mset_eq_setD [OF q'(3)])
  moreover have "key y \<noteq> key x" if "y \<in> set d" for y using index_ok_distinct [OF ixq] imageI [OF that, of key] by auto
  ultimately have "pq_contents key q' k = ((pq_contents key q)(key x := None)) k" for k
    by (intro option_ext) (auto simp: pq_inv_contents [OF assms(2)] pq_inv_contents [OF q'(2)] d)
  then show ?thesis using pop q'(2) by blast
qed

subsection \<open>The interface\<close>

text \<open>A history of calls, with the items that \<open>pop\<close> returned.\<close>

datatype 'a queue_call = Push 'a | Pop

fun queue_calls ::
  "('a \<Rightarrow> 'q \<Rightarrow> 'q result) \<Rightarrow> ('q \<Rightarrow> ('a option \<times> 'q) result) \<Rightarrow> 'a queue_call list \<Rightarrow> 'q \<Rightarrow> ('a option list \<times> 'q) result" where
  "queue_calls psh pp [] q = Inr ([], q)"
| "queue_calls psh pp (Push x # cs) q = rbind (psh x q) (queue_calls psh pp cs)"
| "queue_calls psh pp (Pop # cs) q = rbind (pp q) (\<lambda>(r, q1). rbind (queue_calls psh pp cs q1) (\<lambda>(rs, q2). Inr (r # rs, q2)))"

text \<open>
  What the same history may do to a table of items by key: a push enters or replaces an item, a pop removes
  and returns one of the items of least rank, if there is any.
\<close>

inductive table_calls ::
  "('a \<Rightarrow> 'k) \<Rightarrow> ('a \<Rightarrow> 'p :: linorder) \<Rightarrow> 'a queue_call list \<Rightarrow> ('k \<rightharpoonup> 'a) \<Rightarrow> 'a option list \<Rightarrow> ('k \<rightharpoonup> 'a) \<Rightarrow> bool"
  for key rank where
  "table_calls key rank [] m [] m"
| "table_calls key rank cs (m(key x \<mapsto> x)) rs m' \<Longrightarrow> table_calls key rank (Push x # cs) m rs m'"
| "m (key x) = Some x \<Longrightarrow> (\<And>k y. m k = Some y \<Longrightarrow> rank x \<le> rank y) \<Longrightarrow> table_calls key rank cs (m(key x := None)) rs m' \<Longrightarrow>
     table_calls key rank (Pop # cs) m (Some x # rs) m'"
| "m = Map.empty \<Longrightarrow> table_calls key rank cs m rs m' \<Longrightarrow> table_calls key rank (Pop # cs) m (None # rs) m'"

locale attention_queue =
  fixes key :: "'a \<Rightarrow> 'k" and rank :: "'a \<Rightarrow> 'p :: linorder"
    and inv :: "'q \<Rightarrow> bool" and contents :: "'q \<Rightarrow> 'k \<rightharpoonup> 'a"
    and new :: 'q and push :: "'a \<Rightarrow> 'q \<Rightarrow> 'q result" and pop :: "'q \<Rightarrow> ('a option \<times> 'q) result" and peek :: "'q \<Rightarrow> 'a option"
  assumes new_law: "inv new" "contents new = Map.empty"
    and push_law: "inv q \<Longrightarrow> \<exists>q'. push x q = Inr q' \<and> inv q' \<and> contents q' = (contents q)(key x \<mapsto> x)"
    and empty_law: "inv q \<Longrightarrow> peek q = None \<longleftrightarrow> contents q = Map.empty"
    and peek_law: "inv q \<Longrightarrow> peek q = Some x \<Longrightarrow> contents q (key x) = Some x \<and> (\<forall>k y. contents q k = Some y \<longrightarrow> rank x \<le> rank y)"
    and pop_law: "inv q \<Longrightarrow> peek q = Some x \<Longrightarrow> \<exists>q'. pop q = Inr (Some x, q') \<and> inv q' \<and> contents q' = (contents q)(key x := None)"
    and pop_empty_law: "inv q \<Longrightarrow> peek q = None \<Longrightarrow> pop q = Inr (None, q)"
    and key_law: "inv q \<Longrightarrow> contents q k = Some x \<Longrightarrow> key x = k"
    and finite_law: "inv q \<Longrightarrow> finite (dom (contents q))"
begin

lemma calls_refine:
  "inv q \<Longrightarrow> \<exists>rs q'. queue_calls push pop cs q = Inr (rs, q') \<and> inv q' \<and> table_calls key rank cs (contents q) rs (contents q')"
proof (induction cs arbitrary: q)
  case Nil
  then show ?case by (auto intro: table_calls.intros)
next
  case (Cons c cs)
  show ?case
  proof (cases c)
    case (Push x)
    from push_law [OF Cons.prems] obtain q1 where 1: "push x q = Inr q1" "inv q1" "contents q1 = (contents q)(key x \<mapsto> x)" by blast
    from Cons.IH [OF 1(2)] obtain rs q' where
      "queue_calls push pop cs q1 = Inr (rs, q')" "inv q'" "table_calls key rank cs (contents q1) rs (contents q')" by blast
    with 1 Push show ?thesis by (auto intro: table_calls.intros(2))
  next
    case Pop
    show ?thesis
    proof (cases "peek q")
      case None
      from Cons.IH [OF Cons.prems] obtain rs q' where
        "queue_calls push pop cs q = Inr (rs, q')" "inv q'" "table_calls key rank cs (contents q) rs (contents q')" by blast
      with None Pop pop_empty_law [OF Cons.prems] empty_law [OF Cons.prems] show ?thesis
        by (auto intro: table_calls.intros(4))
    next
      case (Some x)
      note pk = peek_law [OF Cons.prems Some]
      from pop_law [OF Cons.prems Some] obtain q1 where
        1: "pop q = Inr (Some x, q1)" "inv q1" "contents q1 = (contents q)(key x := None)" by blast
      from Cons.IH [OF 1(2)] obtain rs q' where
        "queue_calls push pop cs q1 = Inr (rs, q')" "inv q'" "table_calls key rank cs (contents q1) rs (contents q')" by blast
      with 1 Pop pk show ?thesis by (auto intro: table_calls.intros(3))
    qed
  qed
qed

end

text \<open>An order of the items by a rank, as \<open>CompareAttention\<close> gives it, and the queue for it.\<close>

locale attention_order =
  fixes key :: "'a \<Rightarrow> 'k" and rank :: "'a \<Rightarrow> 'p :: linorder" and cmp :: "'a \<Rightarrow> 'a \<Rightarrow> ordering"
  assumes cmp_law: "ranked rank cmp"

sublocale attention_order \<subseteq> pq: attention_queue key rank "pq_inv key rank" "pq_contents key" pq_new "pq_push key cmp" "pq_pop key cmp" pq_peek
proof
  show "pq_inv key rank pq_new" "pq_contents key pq_new = Map.empty"
    by (simp_all add: pq_new_def pq_inv_def heap_def index_ok_def pq_contents_def)
next
  fix q assume inv: "pq_inv key rank q"
  show "\<exists>q'. pq_push key cmp x q = Inr q' \<and> pq_inv key rank q' \<and> pq_contents key q' = (pq_contents key q)(key x \<mapsto> x)" for x
    by (rule pq_push_ok [OF cmp_law inv])
  show "pq_peek q = None \<longleftrightarrow> pq_contents key q = Map.empty" by (rule pq_peek_ok(1) [OF inv])
  show "pq_contents key q (key x) = Some x \<and> (\<forall>k y. pq_contents key q k = Some y \<longrightarrow> rank x \<le> rank y)" if "pq_peek q = Some x" for x
    by (rule pq_peek_ok(2) [OF inv that])
  show "\<exists>q'. pq_pop key cmp q = Inr (Some x, q') \<and> pq_inv key rank q' \<and> pq_contents key q' = (pq_contents key q)(key x := None)"
    if "pq_peek q = Some x" for x
    by (rule pq_pop_ok [OF cmp_law inv that])
  show "pq_pop key cmp q = Inr (None, q)" if "pq_peek q = None"
    using that by (simp add: pq_pop_def pq_peek_def split: list.splits)
  show "key x = k" if "pq_contents key q k = Some x" for k x using that by (simp add: pq_inv_contents [OF inv])
  show "finite (dom (pq_contents key q))" by (simp add: pq_contents_def finite_dom_map_of)
qed

context attention_order
begin

lemma calls_from_new:
  "\<exists>rs q. queue_calls (pq_push key cmp) (pq_pop key cmp) cs pq_new = Inr (rs, q) \<and> table_calls key rank cs Map.empty rs (pq_contents key q)"
  using pq.calls_refine [OF pq.new_law(1), of cs] pq.new_law(2) by auto

end

text \<open>
  C15: the indexed heap is a priority queue with replacement. For every order of the items by a rank and
  every history of pushes and pops, no access leaves the vector and no lookup fails, and the results are
  those of a table of items by key in which a push replaces the item with the same key and a pop takes out
  an item of least rank.
\<close>

theorem index_min_pq_refines:
  assumes "ranked rank cmp"
  shows "\<exists>rs q. queue_calls (pq_push key cmp) (pq_pop key cmp) cs pq_new = Inr (rs, q)
     \<and> table_calls key rank cs Map.empty rs (pq_contents key q)"
proof -
  have "attention_order rank cmp" by unfold_locales (rule assms)
  then show ?thesis by (rule attention_order.calls_from_new)
qed

theorem index_min_pq_refines_witness:
  "\<exists>rs q. queue_calls (pq_push fst (\<lambda>x y. if snd x < snd y then Less else if snd x = snd y then Equal else Greater))
       (pq_pop fst (\<lambda>x y. if snd x < snd y then Less else if snd x = snd y then Equal else Greater))
       [Push (''a'', 3 :: nat), Push (''b'', 2), Push (''a'', 1), Pop, Pop, Pop] pq_new = Inr (rs, q)
     \<and> table_calls fst snd [Push (''a'', 3 :: nat), Push (''b'', 2), Push (''a'', 1), Pop, Pop, Pop] Map.empty rs (pq_contents fst q)"
  by (rule index_min_pq_refines) (simp add: ranked_def)

end
