(* ===== verification/Mdns_Records.thy ===== *)
theory Mdns_Records
  imports Float64 Index_Min_PQ "HOL-Library.Finite_Map"
begin

text \<open>
  The resource records and the store of the mDNS client (\<open>client/adbmdns/rr.rs\<close> and \<open>store.rs\<close>). An instant
  and a duration are a number of nanoseconds; the difference of two instants saturates at 0, as the
  subtraction of natural numbers does. A \<open>HashMap\<close> is a finite map and a \<open>HashSet\<close> a finite set.
\<close>

subsection \<open>Durations\<close>

definition as_secs_f64 :: "nat \<Rightarrow> rat" where
  "as_secs_f64 ns = f64 (f64 (of_nat (ns div 1000000000)) + f64 (f64 (of_nat (ns mod 1000000000)) / 1000000000))"

definition from_secs_f64 :: "rat \<Rightarrow> nat" where
  "from_secs_f64 x = nat (rne (x * 1000000000))"

definition from_secs :: "u32 \<Rightarrow> nat" where
  "from_secs n = unat n * 1000000000"

subsection \<open>Names and records\<close>

type_synonym ipv4 = "32 word"
type_synonym ipv6 = "128 word"
type_synonym txt_attributes = "(string, string) fmap"

record fq_service_name =
  instance_name :: string
  service_type :: string
  service_type_with_local :: string
  local_domain :: string

definition new_fq :: "string \<Rightarrow> string \<Rightarrow> string \<Rightarrow> fq_service_name" where
  "new_fq inst ty domain =
     \<lparr>instance_name = inst, service_type = ty, service_type_with_local = ty @ ''.'' @ domain, local_domain = domain\<rparr>"

definition fq_name :: "fq_service_name \<Rightarrow> string" where
  "fq_name s = instance_name s @ ''.'' @ service_type s @ ''.'' @ local_domain s"

datatype rr_payload =
    PA string ipv4
  | PAAAA string ipv6
  | PSRV fq_service_name string "16 word"
  | PTXT fq_service_name txt_attributes
  | PPTR string fq_service_name

text \<open>Two records are equal when they are about the same thing; \<open>hash\<close> hashes the same parts.\<close>

fun payload_eq :: "rr_payload \<Rightarrow> rr_payload \<Rightarrow> bool" where
  "payload_eq (PA name addr) (PA other_name other_addr) = (name = other_name \<and> addr = other_addr)"
| "payload_eq (PAAAA name addr) (PAAAA other_name other_addr) = (name = other_name \<and> addr = other_addr)"
| "payload_eq (PSRV name _ _) (PSRV other_name _ _) = (name = other_name)"
| "payload_eq (PTXT name _) (PTXT other_name _) = (name = other_name)"
| "payload_eq (PPTR _ pointer) (PPTR _ other_pointer) = (pointer = other_pointer)"
| "payload_eq _ _ = False"

datatype rr_key = KA string ipv4 | KAAAA string ipv6 | KSRV fq_service_name | KTXT fq_service_name | KPTR fq_service_name

fun payload_key :: "rr_payload \<Rightarrow> rr_key" where
  "payload_key (PA name addr) = KA name addr"
| "payload_key (PAAAA name addr) = KAAAA name addr"
| "payload_key (PSRV name _ _) = KSRV name"
| "payload_key (PTXT name _) = KTXT name"
| "payload_key (PPTR _ pointer) = KPTR pointer"

text \<open>The keys in the table of the queue are the classes of \<open>eq\<close>.\<close>

lemma payload_eq_key: "payload_eq p q \<longleftrightarrow> payload_key p = payload_key q"
  by (cases p; cases q) auto

datatype rr_lifecycle = Created | Probed80 | Probed85 | Probed90 | Probed95

fun next_ttl_fraction :: "rr_lifecycle \<Rightarrow> rat" where
  "next_ttl_fraction Created = f64 (80 / 100)"
| "next_ttl_fraction Probed80 = f64 (85 / 100)"
| "next_ttl_fraction Probed85 = f64 (90 / 100)"
| "next_ttl_fraction Probed90 = f64 (95 / 100)"
| "next_ttl_fraction Probed95 = 1"

record rr =
  attention_needed_on :: nat
  created_on :: nat
  ttl :: nat
  lifecycle_state :: rr_lifecycle
  rr_data :: rr_payload

definition cmp_attention :: "rr \<Rightarrow> rr \<Rightarrow> ordering" where
  "cmp_attention a b =
     (if attention_needed_on a < attention_needed_on b then Less
      else if attention_needed_on a = attention_needed_on b then Equal else Greater)"

definition rr_key :: "rr \<Rightarrow> rr_key" where
  "rr_key r = payload_key (rr_data r)"

definition next_attention :: "nat \<Rightarrow> nat \<Rightarrow> rr_lifecycle \<Rightarrow> nat" where
  "next_attention created t st = created + from_secs_f64 (f64 (as_secs_f64 t * next_ttl_fraction st))"

definition new_rr :: "nat \<Rightarrow> nat \<Rightarrow> rr_payload \<Rightarrow> rr" where
  "new_rr now t p = \<lparr>attention_needed_on = next_attention now t Created, created_on = now, ttl = t,
     lifecycle_state = Created, rr_data = p\<rparr>"

type_synonym rr_queue = "(rr, rr_key) index_min_pq"

text \<open>The queue of the records by the time they need attention is a queue as its interface promises.\<close>

lemma cmp_attention_ranked: "ranked attention_needed_on cmp_attention"
  by (simp add: ranked_def cmp_attention_def)

interpretation rrq: attention_order rr_key attention_needed_on cmp_attention
  by unfold_locales (rule cmp_attention_ranked)

subsection \<open>The store\<close>

record store =
  ptrs :: "fq_service_name fset"
  srvs :: "(string, string \<times> 16 word) fmap"
  ipv4s :: "(string, ipv4 fset) fmap"
  ipv6s :: "(string, ipv6 fset) fmap"
  txts :: "(string, txt_attributes) fmap"

record instance_details =
  d_hostname :: string
  d_port :: "16 word"
  d_ipv4s :: "ipv4 fset"
  d_ipv6s :: "ipv6 fset"
  d_txt :: txt_attributes

type_synonym services = "(fq_service_name, instance_details) fmap"

definition new_store :: store where
  "new_store = \<lparr>ptrs = {||}, srvs = fmempty, ipv4s = fmempty, ipv6s = fmempty, txts = fmempty\<rparr>"

definition store_clear :: "store \<Rightarrow> store" where
  "store_clear st = st\<lparr>ptrs := {||}, srvs := fmempty, ipv4s := fmempty, ipv6s := fmempty, txts := fmempty\<rparr>"

text \<open>The entry of a key, or the default.\<close>

definition or_default :: "(string, 'a fset) fmap \<Rightarrow> string \<Rightarrow> 'a fset" where
  "or_default m k = (case fmlookup m k of None \<Rightarrow> {||} | Some s \<Rightarrow> s)"

definition set_add :: "string \<Rightarrow> 'a \<Rightarrow> (string, 'a fset) fmap \<Rightarrow> (string, 'a fset) fmap" where
  "set_add k x m = fmupd k (finsert x (or_default m k)) m"

definition set_remove :: "string \<Rightarrow> 'a \<Rightarrow> (string, 'a fset) fmap \<Rightarrow> (string, 'a fset) fmap" where
  "set_remove k x m =
     (case fmlookup m k of
        None \<Rightarrow> m
      | Some s \<Rightarrow> let s' = s |-| {|x|} in if s' = {||} then fmdrop k m else fmupd k s' m)"

fun store_add :: "rr_payload \<Rightarrow> store \<Rightarrow> store" where
  "store_add (PA name addr) st = st\<lparr>ipv4s := set_add name addr (ipv4s st)\<rparr>"
| "store_add (PAAAA name addr) st = st\<lparr>ipv6s := set_add name addr (ipv6s st)\<rparr>"
| "store_add (PSRV name target port) st = st\<lparr>srvs := fmupd (fq_name name) (target, port) (srvs st)\<rparr>"
| "store_add (PTXT name attributes) st = st\<lparr>txts := fmupd (fq_name name) attributes (txts st)\<rparr>"
| "store_add (PPTR _ pointer) st = st\<lparr>ptrs := finsert pointer (ptrs st)\<rparr>"

fun store_remove :: "rr_payload \<Rightarrow> store \<Rightarrow> store" where
  "store_remove (PA name addr) st = st\<lparr>ipv4s := set_remove name addr (ipv4s st)\<rparr>"
| "store_remove (PAAAA name addr) st = st\<lparr>ipv6s := set_remove name addr (ipv6s st)\<rparr>"
| "store_remove (PSRV name _ _) st = st\<lparr>srvs := fmdrop (fq_name name) (srvs st)\<rparr>"
| "store_remove (PTXT name _) st = st\<lparr>txts := fmdrop (fq_name name) (txts st)\<rparr>"
| "store_remove (PPTR _ pointer) st = st\<lparr>ptrs := ptrs st |-| {|pointer|}\<rparr>"

text \<open>What \<open>snapshot\<close> makes of one pointer: nothing without a host, a port or an address.\<close>

definition instance_of :: "store \<Rightarrow> fq_service_name \<Rightarrow> instance_details option" where
  "instance_of st s =
     (case fmlookup (srvs st) (fq_name s) of
        None \<Rightarrow> None
      | Some (target, port) \<Rightarrow>
          let v4 = or_default (ipv4s st) target; v6 = or_default (ipv6s st) target
          in if v4 = {||} \<and> v6 = {||} then None
             else Some \<lparr>d_hostname = target, d_port = port, d_ipv4s = v4, d_ipv6s = v6,
                        d_txt = (case fmlookup (txts st) (fq_name s) of None \<Rightarrow> fmempty | Some t \<Rightarrow> t)\<rparr>)"

text \<open>The order in which a \<open>HashSet\<close> or \<open>HashMap\<close> is visited is not specified: \<open>it\<close> chooses it.\<close>

definition visits :: "('a fset \<Rightarrow> 'a list) \<Rightarrow> bool" where
  "visits it \<longleftrightarrow> (\<forall>S. distinct (it S) \<and> set (it S) = fset S)"

definition snapshot :: "(fq_service_name fset \<Rightarrow> fq_service_name list) \<Rightarrow> store \<Rightarrow> services" where
  "snapshot it st = fold (\<lambda>s m. case instance_of st s of None \<Rightarrow> m | Some d \<Rightarrow> fmupd s d m) (it (ptrs st)) fmempty"

end
