(* ===== verification/Zero_Config.thy ===== *)
theory Zero_Config
  imports Mdns_Records
begin

text \<open>
  The mDNS client of the adb server (\<open>client/adbmdns/zero_config.rs\<close>): it learns resource records from the
  packets on the network, keeps them in the store and in a queue ordered by the time at which they need
  attention, asks again for records that are about to end, and tells the server which services have
  appeared, changed and gone. The parser of packets is a library; a parsed name is its labels and its text.
\<close>

subsection \<open>Parsed packets, commands and state\<close>

record dns_name =
  n_labels :: "string list"
  n_text :: string

datatype rdata =
    RPTR dns_name
  | RSRV dns_name "16 word"
  | RA ipv4
  | RAAAA ipv6
  | RTXT "(string \<times> string option) list"
  | ROther

record resource_record =
  r_name :: dns_name
  r_ttl :: u32
  r_rdata :: rdata

datatype qtype = Q_ANY | Q_A | Q_AAAA | Q_SRV | Q_TXT | Q_PTR | Q_other nat

record question =
  q_name :: dns_name
  q_type :: qtype

text \<open>The class of a query is always \<open>ANY\<close>.\<close>

record dns_query =
  dq_name :: string
  dq_type :: qtype

datatype zc_command =
    DnsQueries "dns_query list"
  | CreateService string string instance_details
  | UpdateService string string instance_details
  | DeleteService string string
  | Restart

record tracked_service =
  ts_service_name :: string
  ts_local :: string
  next_query_time :: nat

record zero_config =
  commands :: "zc_command list"
  tracked_services :: "(string, tracked_service) fmap"
  attention_list :: rr_queue
  zc_store :: store
  zc_now :: nat
  last_snap_shot :: services
  periodic_refresh :: bool
  question_requests :: "dns_query list"

text \<open>The orders in which the hash tables are visited in one tick.\<close>

record orders =
  o_ptrs :: "fq_service_name fset \<Rightarrow> fq_service_name list"
  o_snapshot :: "fq_service_name fset \<Rightarrow> fq_service_name list"
  o_last :: "fq_service_name fset \<Rightarrow> fq_service_name list"
  o_tracked :: "string fset \<Rightarrow> string list"

definition orders_law :: "orders \<Rightarrow> bool" where
  "orders_law os \<longleftrightarrow> visits (o_ptrs os) \<and> visits (o_snapshot os) \<and> visits (o_last os) \<and> visits (o_tracked os)"

subsection \<open>Names and tracked services\<close>

text \<open>\<open>try_from\<close>: only a name of four labels is the name of a service.\<close>

definition fq_of_name :: "dns_name \<Rightarrow> fq_service_name option" where
  "fq_of_name n =
     (case n_labels n of
        [inst, service, protocol, domain] \<Rightarrow> Some (new_fq inst (service @ ''.'' @ protocol) domain)
      | _ \<Rightarrow> None)"

definition TLS_CONNECT_SERVICE :: string where "TLS_CONNECT_SERVICE = ''_adb-tls-connect._tcp''"
definition TLS_PAIRING_SERVICE :: string where "TLS_PAIRING_SERVICE = ''_adb-tls-pairing._tcp''"
definition TCP_CONNECT_SERVICE :: string where "TCP_CONNECT_SERVICE = ''_adb._tcp''"

definition TRACKER_SERVICE_REFRESH_INTERVAL :: nat where "TRACKER_SERVICE_REFRESH_INTERVAL = 120 * 1000000000"

definition ts_refresh :: "nat \<Rightarrow> tracked_service \<Rightarrow> tracked_service" where
  "ts_refresh now s = s\<lparr>next_query_time := now + TRACKER_SERVICE_REFRESH_INTERVAL\<rparr>"

definition ts_reset :: "nat \<Rightarrow> tracked_service \<Rightarrow> tracked_service" where
  "ts_reset now s = s\<lparr>next_query_time := now\<rparr>"

definition track_service :: "string \<Rightarrow> zero_config \<Rightarrow> zero_config" where
  "track_service service z =
     z\<lparr>tracked_services := fmupd (service @ ''.'' @ ''local'')
         \<lparr>ts_service_name = service, ts_local = ''local'', next_query_time = zc_now z\<rparr> (tracked_services z)\<rparr>"

definition new_zero_config :: "nat \<Rightarrow> zero_config" where
  "new_zero_config now =
     track_service TCP_CONNECT_SERVICE (track_service TLS_PAIRING_SERVICE (track_service TLS_CONNECT_SERVICE
       \<lparr>commands = [], tracked_services = fmempty, attention_list = pq_new, zc_store = new_store, zc_now = now,
         last_snap_shot = fmempty, periodic_refresh = False, question_requests = []\<rparr>))"

definition set_periodic_refresh :: "bool \<Rightarrow> zero_config \<Rightarrow> zero_config" where
  "set_periodic_refresh b z = z\<lparr>periodic_refresh := b\<rparr>"

definition set_time :: "nat \<Rightarrow> zero_config \<Rightarrow> zero_config" where
  "set_time now z = z\<lparr>zc_now := now\<rparr>"

definition on_start :: "zero_config \<Rightarrow> zero_config" where
  "on_start z = z\<lparr>tracked_services := fmmap (ts_reset (zc_now z)) (tracked_services z)\<rparr>"

subsection \<open>Receiving a packet\<close>

definition process_query :: "question \<Rightarrow> zero_config \<Rightarrow> zero_config" where
  "process_query q z =
     (if q_type q \<noteq> Q_ANY then z
      else case fmlookup (tracked_services z) (n_text (q_name q)) of
             None \<Rightarrow> z
           | Some s \<Rightarrow> z\<lparr>tracked_services := fmupd (n_text (q_name q)) (ts_refresh (zc_now z) s) (tracked_services z)\<rparr>)"

definition process_queries :: "question list \<Rightarrow> zero_config \<Rightarrow> zero_config" where
  "process_queries qs z = fold process_query qs z"

definition is_tracked :: "zero_config \<Rightarrow> fq_service_name \<Rightarrow> bool" where
  "is_tracked z s \<longleftrightarrow> service_type_with_local s |\<in>| fmdom (tracked_services z)"

definition txt_of :: "(string \<times> string option) list \<Rightarrow> txt_attributes" where
  "txt_of as = fold (\<lambda>(k, v) m. fmupd k (case v of None \<Rightarrow> [] | Some x \<Rightarrow> x) m) as fmempty"

text \<open>The payload a record is stored with, if it is one to keep.\<close>

definition tracked_name :: "zero_config \<Rightarrow> dns_name \<Rightarrow> fq_service_name option" where
  "tracked_name z n = (case fq_of_name n of None \<Rightarrow> None | Some s \<Rightarrow> if is_tracked z s then Some s else None)"

definition record_payload :: "zero_config \<Rightarrow> resource_record \<Rightarrow> rr_payload option" where
  "record_payload z r =
     (case r_rdata r of
        RPTR n \<Rightarrow> map_option (PPTR (n_text (r_name r))) (tracked_name z n)
      | RSRV target port \<Rightarrow> map_option (\<lambda>s. PSRV s (n_text target) port) (tracked_name z (r_name r))
      | RA addr \<Rightarrow> Some (PA (n_text (r_name r)) addr)
      | RAAAA addr \<Rightarrow> Some (PAAAA (n_text (r_name r)) addr)
      | RTXT as \<Rightarrow> map_option (\<lambda>s. PTXT s (txt_of as)) (tracked_name z (r_name r))
      | ROther \<Rightarrow> None)"

definition add_rr :: "rr \<Rightarrow> zero_config \<Rightarrow> zero_config result" where
  "add_rr r z =
     rbind (pq_push rr_key cmp_attention r (attention_list z)) (\<lambda>q.
       Inr (z\<lparr>attention_list := q, zc_store := store_add (rr_data r) (zc_store z)\<rparr>))"

fun process_records :: "resource_record list \<Rightarrow> zero_config \<Rightarrow> zero_config result" where
  "process_records [] z = Inr z"
| "process_records (r # rs) z =
     (case record_payload z r of
        None \<Rightarrow> process_records rs z
      | Some p \<Rightarrow> rbind (add_rr (new_rr (zc_now z) (from_secs (r_ttl r)) p) z) (process_records rs))"

definition push_records ::
  "question list \<Rightarrow> resource_record list \<Rightarrow> resource_record list \<Rightarrow> resource_record list \<Rightarrow> zero_config \<Rightarrow> zero_config result" where
  "push_records questions answers additional nameserver z =
     (let z1 = process_queries questions z; all_records = answers @ additional @ nameserver
      in if all_records \<noteq> [] then process_records all_records z1 else Inr z1)"

subsection \<open>A tick\<close>

text \<open>
  The fraction of its lifetime that a record has lived, if it is at least 0 and less than 1. A quotient by 0
  is not a number or infinite, and then it is not.
\<close>

definition live_fraction :: "nat \<Rightarrow> rr \<Rightarrow> rat option" where
  "live_fraction now e =
     (let t = as_secs_f64 (ttl e); f = f64 (as_secs_f64 (now - created_on e) / t)
      in if t = 0 then None else if f < 1 then Some f else None)"

definition probed_state :: "rat \<Rightarrow> rr_lifecycle option" where
  "probed_state f =
     (if f64 (95 / 100) \<le> f then Some Probed95
      else if f64 (90 / 100) \<le> f then Some Probed90
      else if f64 (85 / 100) \<le> f then Some Probed85
      else if f64 (80 / 100) \<le> f then Some Probed80
      else None)"

definition query_for_record :: "rr \<Rightarrow> dns_query" where
  "query_for_record r =
     (case rr_data r of
        PA name _ \<Rightarrow> \<lparr>dq_name = name, dq_type = Q_A\<rparr>
      | PAAAA name _ \<Rightarrow> \<lparr>dq_name = name, dq_type = Q_AAAA\<rparr>
      | PSRV name _ _ \<Rightarrow> \<lparr>dq_name = fq_name name, dq_type = Q_SRV\<rparr>
      | PTXT name _ \<Rightarrow> \<lparr>dq_name = fq_name name, dq_type = Q_TXT\<rparr>
      | PPTR name _ \<Rightarrow> \<lparr>dq_name = name, dq_type = Q_PTR\<rparr>)"

definition create_query_for_record :: "rr \<Rightarrow> zero_config \<Rightarrow> zero_config" where
  "create_query_for_record r z = z\<lparr>question_requests := question_requests z @ [query_for_record r]\<rparr>"

definition drop_record :: "rr \<Rightarrow> zero_config \<Rightarrow> zero_config" where
  "drop_record e z = z\<lparr>zc_store := store_remove (rr_data e) (zc_store z)\<rparr>"

definition probed_rr :: "rr \<Rightarrow> rr_lifecycle \<Rightarrow> rr" where
  "probed_rr e st = e\<lparr>attention_needed_on := next_attention (created_on e) (ttl e) st, lifecycle_state := st\<rparr>"

definition attend :: "zero_config \<Rightarrow> zero_config result" where
  "attend z =
     rbind (pq_pop rr_key cmp_attention (attention_list z)) (\<lambda>(eo, q).
       case eo of
         None \<Rightarrow> Inl Fatal
       | Some e \<Rightarrow>
           let z1 = z\<lparr>attention_list := q\<rparr>
           in case Option.bind (live_fraction (zc_now z) e) probed_state of
                None \<Rightarrow> Inr (drop_record e z1)
              | Some st \<Rightarrow>
                  let r = probed_rr e st; z2 = create_query_for_record r z1
                  in rbind (pq_push rr_key cmp_attention r (attention_list z2)) (\<lambda>q'. Inr (z2\<lparr>attention_list := q'\<rparr>)))"

partial_function (option) attend_loop :: "zero_config \<Rightarrow> zero_config result option" where
  "attend_loop z =
     (case pq_peek (attention_list z) of
        None \<Rightarrow> Some (Inr z)
      | Some e \<Rightarrow>
          if zc_now z < attention_needed_on e then Some (Inr z)
          else case attend z of Inl f \<Rightarrow> Some (Inl f) | Inr z' \<Rightarrow> attend_loop z')"

definition diff_command :: "services \<Rightarrow> services \<Rightarrow> fq_service_name \<Rightarrow> zc_command list" where
  "diff_command snap old s =
     (case fmlookup snap s of
        None \<Rightarrow> []
      | Some d \<Rightarrow>
          (case fmlookup old s of
             None \<Rightarrow> [CreateService (instance_name s) (service_type s) d]
           | Some d' \<Rightarrow> if d \<noteq> d' then [UpdateService (instance_name s) (service_type s) d] else []))"

definition create_diff_commands :: "orders \<Rightarrow> zero_config \<Rightarrow> zero_config" where
  "create_diff_commands os z =
     (let snap = snapshot (o_ptrs os) (zc_store z); old = last_snap_shot z
      in z\<lparr>commands := commands z
             @ concat (map (diff_command snap old) (o_snapshot os (fmdom snap)))
             @ map (\<lambda>s. DeleteService (instance_name s) (service_type s)) (filter (\<lambda>s. s |\<notin>| fmdom snap) (o_last os (fmdom old))),
           last_snap_shot := snap\<rparr>)"

definition tick_tracker :: "string \<Rightarrow> zero_config \<Rightarrow> zero_config" where
  "tick_tracker name z =
     (case fmlookup (tracked_services z) name of
        None \<Rightarrow> z
      | Some s \<Rightarrow>
          if zc_now z < next_query_time s then z
          else z\<lparr>tracked_services := fmupd name (ts_refresh (zc_now z) s) (tracked_services z),
                 question_requests := question_requests z @ [\<lparr>dq_name = name, dq_type = Q_ANY\<rparr>]\<rparr>)"

definition tick_tracker_services :: "orders \<Rightarrow> zero_config \<Rightarrow> zero_config" where
  "tick_tracker_services os z =
     (if \<not> periodic_refresh z then z else fold tick_tracker (o_tracked os (fmdom (tracked_services z))) z)"

definition convert_dns_query_to_command :: "zero_config \<Rightarrow> zero_config" where
  "convert_dns_query_to_command z =
     (if question_requests z = [] then z
      else z\<lparr>commands := commands z @ [DnsQueries (question_requests z)], question_requests := []\<rparr>)"

definition query_times :: "orders \<Rightarrow> zero_config \<Rightarrow> nat list" where
  "query_times os z =
     List.map_filter (\<lambda>k. map_option next_query_time (fmlookup (tracked_services z) k)) (o_tracked os (fmdom (tracked_services z)))"

definition calculate_next_attention_duration :: "orders \<Rightarrow> zero_config \<Rightarrow> nat" where
  "calculate_next_attention_duration os z =
     (let duration = (case pq_peek (attention_list z) of None \<Rightarrow> 60 * 1000000000 | Some r \<Rightarrow> attention_needed_on r - zc_now z)
      in if \<not> periodic_refresh z then duration
         else case query_times os z of
                [] \<Rightarrow> duration
              | t # ts \<Rightarrow> let next_service = fold min ts t - zc_now z in if next_service < duration then next_service else duration)"

definition tick :: "orders \<Rightarrow> zero_config \<Rightarrow> (zc_command list \<times> nat \<times> zero_config) result option" where
  "tick os z =
     (case attend_loop z of
        None \<Rightarrow> None
      | Some (Inl f) \<Rightarrow> Some (Inl f)
      | Some (Inr z1) \<Rightarrow>
          let z2 = convert_dns_query_to_command (tick_tracker_services os (create_diff_commands os z1))
          in Some (Inr (commands z2, calculate_next_attention_duration os z2, z2\<lparr>commands := []\<rparr>)))"

definition on_stop :: "orders \<Rightarrow> zero_config \<Rightarrow> (zc_command list \<times> zero_config) result option" where
  "on_stop os z =
     (case tick os (z\<lparr>attention_list := pq_clear (attention_list z), zc_store := store_clear (zc_store z)\<rparr>) of
        None \<Rightarrow> None
      | Some (Inl f) \<Rightarrow> Some (Inl f)
      | Some (Inr (cmds, _, z')) \<Rightarrow> Some (Inr (cmds, z')))"

end
