(* ===== verification/Mdns_Lifetimes.thy ===== *)
theory Mdns_Lifetimes
  imports Zero_Config
begin

text \<open>
  The arithmetic of lifetimes: when a record needs attention next, how far the rounding of the double
  precision numbers can be off, and when the loop of a tick ends.
\<close>

subsection \<open>Whole seconds and attention times\<close>

abbreviation ns :: nat where "ns \<equiv> 1000000000"

lemma as_secs_whole: "N < 2 ^ 53 \<Longrightarrow> as_secs_f64 (N * ns) = of_nat N"
  by (simp add: as_secs_f64_def f64_nat)

lemma as_secs_nonneg [simp]: "0 \<le> as_secs_f64 a"
  by (simp add: as_secs_f64_def)

lemma f64_1 [simp]: "f64 1 = 1"
  using f64_nat [of 1] by simp

lemma f64_le_1: "0 \<le> x \<Longrightarrow> x \<le> 1 \<Longrightarrow> f64 x \<le> 1"
  using f64_mono [of x 1] by simp

lemma f64_whole: "n < 2 ^ 53 \<Longrightarrow> f64 (rat_of_nat n / rat_of_nat m) = f64 (of_nat n / of_nat m)"
  by simp

lemma nanos_fraction: "f64 (f64 (of_nat (a mod ns)) / 1000000000) = f64 (of_nat (a mod ns) / 1000000000)"
proof -
  have "a mod ns < 2 ^ 53" by (rule less_trans [of _ ns]) simp_all
  then show ?thesis by (simp only: f64_nat)
qed

lemma as_secs_mono_whole:
  assumes "N * ns \<le> a" "N < 2 ^ 53"
  shows "of_nat N \<le> as_secs_f64 a"
proof -
  have "N \<le> a div ns" using assms(1) by (simp add: less_eq_div_iff_mult_less_eq)
  then have "f64 (of_nat N) \<le> f64 (of_nat (a div ns))" by (intro f64_mono) simp_all
  then have "of_nat N \<le> f64 (of_nat (a div ns)) + f64 (f64 (of_nat (a mod ns)) / 1000000000)"
    using assms(2) f64_nonneg [of "f64 (of_nat (a mod ns)) / 1000000000"] by (simp only: f64_nat)
  then have "f64 (of_nat N) \<le> as_secs_f64 a" unfolding as_secs_f64_def by (intro f64_mono) simp_all
  with assms(2) show ?thesis by (simp add: f64_nat)
qed

lemma next_fraction_bounds: "0 \<le> next_ttl_fraction st" "next_ttl_fraction st \<le> 1"
  by (cases st; simp add: f64_le_1)+

lemma next_attention_le:
  assumes "N < 2 ^ 32"
  shows "next_attention c (N * ns) st \<le> c + N * ns"
proof -
  have N: "N < 2 ^ 53" using assms by simp
  have "as_secs_f64 (N * ns) * next_ttl_fraction st \<le> of_nat N"
    using next_fraction_bounds [of st] mult_left_mono [of "next_ttl_fraction st" 1 "of_nat N"] by (simp add: as_secs_whole [OF N])
  then have "f64 (as_secs_f64 (N * ns) * next_ttl_fraction st) \<le> f64 (of_nat N)"
    using next_fraction_bounds [of st] by (intro f64_mono) simp_all
  then have "f64 (as_secs_f64 (N * ns) * next_ttl_fraction st) * 1000000000 \<le> of_int (int (N * ns))" by (simp add: f64_nat [OF N])
  then have "rne (f64 (as_secs_f64 (N * ns) * next_ttl_fraction st) * 1000000000) \<le> int (N * ns)" using rne_mono rne_of_int by metis
  then show ?thesis unfolding next_attention_def from_secs_f64_def by (simp add: nat_le_iff)
qed

lemma next_attention_last: "N < 2 ^ 32 \<Longrightarrow> next_attention c (N * ns) Probed95 = c + N * ns"
proof -
  assume N: "N < 2 ^ 32"
  have "rne (rat_of_nat N * 1000000000) = int (N * ns)" using rne_of_int [of "int (N * ns)"] by simp
  then show ?thesis using N by (simp add: next_attention_def from_secs_f64_def as_secs_whole f64_nat)
qed

subsection \<open>How far rounding can be off\<close>

text \<open>The seconds of a duration, from below.\<close>

lemma as_secs_lower:
  assumes "a < 2 ^ 53 * ns"
  shows "of_nat a / 1000000000 * (1 - 2 / 2 ^ 53) \<le> as_secs_f64 a"
proof -
  let ?e = "1 / 2 ^ 53 :: rat" and ?s = "rat_of_nat (a div ns)" and ?n = "rat_of_nat (a mod ns) / 1000000000"
  have s: "f64 ?s = ?s" using assms by (intro f64_nat) (simp add: less_mult_imp_div_less)
  have "a = a div ns * ns + a mod ns" by simp
  then have "rat_of_nat a = ?s * 1000000000 + rat_of_nat (a mod ns)" by (metis of_nat_add of_nat_mult of_nat_numeral of_nat_power)
  then have sum: "of_nat a / 1000000000 = ?s + ?n" by (simp add: field_simps)
  have "?n * (1 - ?e) \<le> f64 ?n" by (rule f64_bounds(1)) simp
  then have "(?s + ?n) * (1 - ?e) \<le> ?s + f64 ?n" by (simp add: distrib_right)
  then have "(?s + ?n) * (1 - ?e) * (1 - ?e) \<le> (?s + f64 ?n) * (1 - ?e)" by (intro mult_right_mono) simp_all
  also have "\<dots> \<le> f64 (?s + f64 ?n)" by (rule f64_bounds(1)) simp
  also have "\<dots> = as_secs_f64 a" by (simp only: as_secs_f64_def s nanos_fraction)
  finally have "(?s + ?n) * (1 - ?e) * (1 - ?e) \<le> as_secs_f64 a" .
  moreover have "(?s + ?n) * (1 - 2 / 2 ^ 53) \<le> (?s + ?n) * ((1 - ?e) * (1 - ?e))" by (intro mult_left_mono) simp_all
  ultimately show ?thesis by (simp only: sum mult.assoc)
qed

text \<open>The time at which a record reaches the fraction \<open>g\<close>, from below.\<close>

lemma attention_lower:
  assumes "N < 2 ^ 32" "0 \<le> g"
  shows "of_nat N * g * 1000000000 * (1 - 2 / 2 ^ 53) - 1 / 2 \<le> rat_of_nat (from_secs_f64 (f64 (as_secs_f64 (N * ns) * f64 g)))"
proof -
  let ?e = "1 / 2 ^ 53 :: rat" and ?x = "rat_of_nat N * f64 g"
  have "g * (1 - ?e) \<le> f64 g" by (rule f64_bounds(1) [OF assms(2)])
  then have "of_nat N * (g * (1 - ?e)) \<le> ?x" by (intro mult_left_mono) simp_all
  then have "of_nat N * (g * (1 - ?e)) * (1 - ?e) \<le> ?x * (1 - ?e)" by (intro mult_right_mono) simp_all
  also have "\<dots> \<le> f64 ?x" by (rule f64_bounds(1)) simp
  finally have A: "of_nat N * g * ((1 - ?e) * (1 - ?e)) \<le> f64 ?x" by (simp only: mult.assoc)
  have B: "of_nat N * g * (1 - 2 / 2 ^ 53) \<le> of_nat N * g * ((1 - ?e) * (1 - ?e))"
    using assms(2) by (intro mult_left_mono) simp_all
  have "of_nat N * g * (1 - 2 / 2 ^ 53) * 1000000000 \<le> f64 ?x * 1000000000"
    by (rule mult_right_mono [OF order_trans [OF B A]]) simp
  moreover have "f64 ?x * 1000000000 - 1 / 2 \<le> of_int (rne (f64 ?x * 1000000000))" by (rule rne_bounds(2))
  moreover have "0 \<le> rne (f64 ?x * 1000000000)" using rne_mono [of "of_int 0" "f64 ?x * 1000000000"] by (simp only: rne_of_int) simp
  then have "of_int (rne (f64 ?x * 1000000000)) = rat_of_nat (from_secs_f64 (f64 ?x))" by (simp add: from_secs_f64_def of_nat_nat)
  moreover have "as_secs_f64 (N * ns) = of_nat N" using assms(1) by (intro as_secs_whole) simp
  ultimately show ?thesis by (simp only: mult.assoc mult.commute mult.left_commute)
qed

lemma below_boundary:
  assumes N: "0 < N" "N < 2 ^ 32" and g: "0 \<le> g" "g \<le> 1" and f: "f64 (as_secs_f64 a / of_nat N) < f64 g"
    and far: "2000 \<le> \<bar>rat_of_nat a - of_nat N * g * 1000000000\<bar>"
  shows "a < from_secs_f64 (f64 (as_secs_f64 (N * ns) * f64 g))"
proof -
  define B where "B = rat_of_nat N * g * 1000000000"
  have "\<not> g \<le> as_secs_f64 a / of_nat N" using f f64_mono [OF g(1)] by fastforce
  then have lt: "as_secs_f64 a < of_nat N * g" using N(1) by (simp add: field_simps)
  have NM: "rat_of_nat N * g \<le> 4294967296" "rat_of_nat N * g \<le> of_nat N"
    using mult_mono [of "rat_of_nat N" 4294967296 g 1] mult_left_mono [OF g(2), of "rat_of_nat N"] N(2) g by simp_all
  have "\<not> 4503599627370496 * ns \<le> a"
    using as_secs_mono_whole [of 4503599627370496 a] lt NM(1) by auto
  then have "of_nat a / 1000000000 * (1 - 2 / 2 ^ 53) \<le> as_secs_f64 a" by (intro as_secs_lower) simp
  with lt have "of_nat a / 1000000000 * (1 - 2 / 2 ^ 53) < of_nat N * g" by (rule le_less_trans [rotated])
  then have up: "rat_of_nat a * (1 - 2 / 2 ^ 53) < B" by (simp add: B_def field_simps)
  have BM: "B \<le> 4294967296000000000" using NM(1) by (simp add: B_def mult.commute)
  note lo = attention_lower [OF N(2) g(1)]
  have "2000 \<le> \<bar>rat_of_nat a - B\<bar>" using far by (simp add: B_def)
  with up BM have "rat_of_nat a \<le> B - 2000" by (simp add: abs_if split: if_splits)
  also have "\<dots> < B * (1 - 2 / 2 ^ 53) - 1 / 2" using BM by simp
  also have "\<dots> \<le> rat_of_nat (from_secs_f64 (f64 (as_secs_f64 (N * ns) * f64 g)))" unfolding B_def by (rule lo)
  finally show ?thesis by (simp only: of_nat_less_iff)
qed

subsection \<open>Records that are not due again at once\<close>

text \<open>
  After a record has been probed, its next attention is later than now; only then does the loop of a tick make
  progress. It is so unless the tick falls within 2 microseconds of 85, 90 or 95 percent of a lifetime.
\<close>

definition timely :: "nat \<Rightarrow> rr \<Rightarrow> bool" where
  "timely now e \<longleftrightarrow>
     (case Option.bind (live_fraction now e) probed_state of
        None \<Rightarrow> True
      | Some st \<Rightarrow> now < next_attention (created_on e) (ttl e) st)"

definition off_boundaries :: "nat \<Rightarrow> rr \<Rightarrow> bool" where
  "off_boundaries now e \<longleftrightarrow>
     (\<forall>g \<in> {85, 90, 95}. 200000 \<le> \<bar>100 * (int now - int (created_on e)) - g * int (ttl e)\<bar>)"

definition whole_ttl :: "rr \<Rightarrow> bool" where
  "whole_ttl e \<longleftrightarrow> (\<exists>N. N < 2 ^ 32 \<and> ttl e = N * ns)"

lemma probed_state_cases:
  assumes "probed_state f = Some st"
  shows "st = Probed95 \<and> f64 (95 / 100) \<le> f \<or> f64 (80 / 100) \<le> f \<and>
    (st = Probed90 \<and> f < f64 (95 / 100) \<or> st = Probed85 \<and> f < f64 (90 / 100) \<or> st = Probed80 \<and> f < f64 (85 / 100))"
proof -
  have "f64 (80 / 100) \<le> f64 (85 / 100)" "f64 (85 / 100) \<le> f64 (90 / 100)" by (intro f64_mono; simp)+
  then show ?thesis using assms by (auto simp: probed_state_def split: if_splits)
qed

lemma off_boundaries_timely:
  assumes "whole_ttl e" "off_boundaries now e"
  shows "timely now e"
proof (cases "Option.bind (live_fraction now e) probed_state")
  case None
  then show ?thesis by (simp add: timely_def)
next
  case (Some st)
  obtain N where N: "N < 2 ^ 32" "ttl e = N * ns" using assms(1) by (auto simp: whole_ttl_def)
  let ?a = "now - created_on e" and ?c = "created_on e"
  have t: "as_secs_f64 (ttl e) = of_nat N" unfolding N(2) using N(1) by (intro as_secs_whole) simp
  define f where "f = f64 (as_secs_f64 ?a / of_nat N)"
  from Some have "live_fraction now e \<noteq> None" by (cases "live_fraction now e") auto
  then have N0: "0 < N" and f1: "f < 1" and st: "probed_state f = Some st"
    using Some by (auto simp: live_fraction_def Let_def t f_def [symmetric] split: if_splits)
  have le: "?c \<le> now"
  proof (rule ccontr)
    assume "\<not> ?c \<le> now"
    then have "f = 0" by (simp add: f_def as_secs_f64_def)
    moreover have "0 < f64 (80 / 100)" using f64_bounds(1) [of "80 / 100"] by simp
    ultimately show False using probed_state_cases [OF st] f64_mono [of "80 / 100" "95 / 100"] by auto
  qed
  have far: "2000 \<le> \<bar>rat_of_nat ?a - of_nat N * (of_int g / 100) * 1000000000\<bar>" if "g \<in> {85, 90, 95}" for g
  proof -
    have "of_int 200000 \<le> (of_int \<bar>100 * (int now - int ?c) - g * int (ttl e)\<bar> :: rat)"
      using assms(2) that unfolding off_boundaries_def of_int_le_iff by blast
    also have "\<dots> = \<bar>100 * (rat_of_nat ?a - of_nat N * (of_int g / 100) * 1000000000)\<bar>"
      using le by (simp add: N(2) of_nat_diff algebra_simps)
    finally show ?thesis by (simp add: abs_mult)
  qed
  have below: "?a < from_secs_f64 (f64 (as_secs_f64 (ttl e) * f64 (of_int g / 100)))"
    if "g \<in> {85, 90, 95}" "f < f64 (of_int g / 100)" for g
    unfolding N(2) by (rule below_boundary [OF N0 N(1)]) (use that far [OF that(1)] f_def in auto)
  have last: "?a < N * ns"
  proof (rule ccontr)
    assume "\<not> ?a < N * ns"
    then have "of_nat N \<le> as_secs_f64 ?a" using N(1) by (intro as_secs_mono_whole) simp_all
    then have "1 \<le> as_secs_f64 ?a / of_nat N" using N0 by simp
    then have "1 \<le> f" unfolding f_def using f64_mono [of 1] by fastforce
    with f1 show False by simp
  qed
  have "now < next_attention ?c (ttl e) st"
    using probed_state_cases [OF st] below [of 85] below [of 90] below [of 95] last le next_attention_last [OF N(1), of ?c] N(2)
    by (auto simp: next_attention_def)
  then show ?thesis using Some by (simp add: timely_def)
qed

subsection \<open>A boundary that rounding misses\<close>

text \<open>
  The age 8.1 s of a record of 9 s, as a fraction, is rounded below the double next to 0.90, while 90 % of 9 s,
  rounded, is 8.1 s.
\<close>

lemma rounded_decimals:
  "f64 (1 / 10) = 3602879701896397 / 36028797018963968" "f64 (80 / 100) = 3602879701896397 / 4503599627370496"
  "f64 (85 / 100) = 7656119366529843 / 9007199254740992" "f64 (90 / 100) = 8106479329266893 / 9007199254740992"
  "f64 (95 / 100) = 4278419646001971 / 4503599627370496"
  using f64_quotient [of 10 1 56 7205759403792794] f64_quotient [of 100 80 53 7205759403792794]
    f64_quotient [of 100 85 53 7656119366529843] f64_quotient [of 100 90 53 8106479329266893] f64_quotient [of 100 95 53 8556839292003942]
  by simp_all

lemma age_8_1: "as_secs_f64 8100000000 = 4559894622712627 / 562949953421312"
proof -
  have "f64 8 = 8" "f64 100000000 = 100000000" using f64_nat [of 8] f64_nat [of 100000000] by simp_all
  then have "as_secs_f64 8100000000 = f64 (8 + f64 (1 / 10))" by (simp add: as_secs_f64_def)
  then show ?thesis
    using f64_quotient [of 36028797018963968 291833255853608141 49 4559894622712627] by (simp add: rounded_decimals(1))
qed

lemma lifetime_9: "as_secs_f64 9000000000 = 9"
  using as_secs_whole [of 9] by simp

lemma missed_fraction: "f64 (as_secs_f64 8100000000 / as_secs_f64 9000000000) = 2026619832316723 / 2251799813685248"
  using f64_quotient [of 5066549580791808 4559894622712627 53 8106479329266892] by (simp add: age_8_1 lifetime_9)

lemma missed_state: "probed_state (2026619832316723 / 2251799813685248) = Some Probed85"
  unfolding probed_state_def rounded_decimals by simp

lemma missed_attention: "next_attention 0 9000000000 Probed85 = 8100000000"
proof -
  have f: "next_ttl_fraction Probed85 = 8106479329266893 / 9007199254740992"
    unfolding next_ttl_fraction.simps by (fact rounded_decimals(4))
  have g: "f64 (as_secs_f64 9000000000 * next_ttl_fraction Probed85) = 4559894622712627 / 562949953421312"
    unfolding f lifetime_9 using f64_quotient [of 9007199254740992 72958313963402037 49 4559894622712627] by simp
  have "rne (4559894622712627 / 562949953421312 * 1000000000) = 8100000000" by (rule rne_near) simp
  then show ?thesis unfolding next_attention_def from_secs_f64_def g by simp
qed


lemma first_attention: "next_attention 0 9000000000 Created = 7200000000"
proof -
  have f: "next_ttl_fraction Created = 3602879701896397 / 4503599627370496"
    unfolding next_ttl_fraction.simps by (fact rounded_decimals(2))
  have g: "f64 (as_secs_f64 9000000000 * next_ttl_fraction Created) = 8106479329266893 / 1125899906842624"
    unfolding f lifetime_9 using f64_quotient [of 4503599627370496 32425917317067573 50 8106479329266893] by simp
  have "rne (8106479329266893 / 1125899906842624 * 1000000000) = 7200000000" by (rule rne_near) simp
  then show ?thesis unfolding next_attention_def from_secs_f64_def g by simp
qed


end
