(* ===== verification/Mdns_Invariant.thy ===== *)
theory Mdns_Invariant
  imports Mdns_Lifetimes State_Machine
begin

text \<open>
  The invariant of the mDNS client: the store and the attention queue hold the same records, every record
  has its attention time, and the names of services are those of tracked types.
\<close>

subsection \<open>Names of services\<close>

definition dot_free :: "string \<Rightarrow> bool" where
  "dot_free s \<longleftrightarrow> CHR ''.'' \<notin> set s"

definition service_types :: "string set" where
  "service_types = {TLS_CONNECT_SERVICE, TLS_PAIRING_SERVICE, TCP_CONNECT_SERVICE}"

definition wf_fq :: "fq_service_name \<Rightarrow> bool" where
  "wf_fq s \<longleftrightarrow> (\<exists>i. \<exists>t \<in> service_types. s = new_fq i t ''local'')"

lemma service_types_dots:
  assumes "t \<in> service_types"
  shows "\<exists>a b. dot_free a \<and> dot_free b \<and> t = a @ ''.'' @ b"
proof -
  from assms consider "t = ''_adb-tls-connect'' @ ''.'' @ ''_tcp''" | "t = ''_adb-tls-pairing'' @ ''.'' @ ''_tcp''" | "t = ''_adb'' @ ''.'' @ ''_tcp''"
    by (auto simp: service_types_def TLS_CONNECT_SERVICE_def TLS_PAIRING_SERVICE_def TCP_CONNECT_SERVICE_def)
  moreover have "dot_free ''_adb-tls-connect''" "dot_free ''_adb-tls-pairing''" "dot_free ''_adb''" "dot_free ''_tcp''"
    by (simp_all add: dot_free_def)
  ultimately show ?thesis by cases metis+
qed

lemma wf_fq_dots: "wf_fq s \<Longrightarrow> \<exists>i a b. dot_free a \<and> dot_free b \<and> s = new_fq i (a @ ''.'' @ b) ''local''"
  unfolding wf_fq_def using service_types_dots by metis

lemma split_last_unique:
  assumes "x @ c # u = y @ c # v" "c \<notin> set u" "c \<notin> set v"
  shows "x = y" "u = v"
proof -
  have tw: "takeWhile (\<lambda>d. d \<noteq> c) (rev (z @ c # w)) = rev w" if "c \<notin> set w" for z w
    using that by (simp add: takeWhile_append2 takeWhile_append)
  then show "u = v" using assms by (metis rev_rev_ident)
  with assms(1) show "x = y" by simp
qed

lemma dots_unique:
  assumes "(sv @ ''.'' @ pr) @ ''.'' @ d = a @ ''.'' @ b @ ''.'' @ l" "dot_free a" "dot_free b" "dot_free l"
  shows "sv = a" "pr = b" "d = l"
proof -
  have z: "count_list xs (CHR ''.'') = 0 \<longleftrightarrow> dot_free xs" for xs by (simp add: dot_free_def count_list_0_iff)
  have "count_list ((sv @ ''.'' @ pr) @ ''.'' @ d) (CHR ''.'') = count_list (a @ ''.'' @ b @ ''.'' @ l) (CHR ''.'')"
    using assms(1) by simp
  moreover have "count_list a (CHR ''.'') = 0" "count_list b (CHR ''.'') = 0" "count_list l (CHR ''.'') = 0"
    using assms(2-4) by (simp_all only: z)
  ultimately have "count_list sv (CHR ''.'') = 0 \<and> count_list pr (CHR ''.'') = 0 \<and> count_list d (CHR ''.'') = 0"
    by (simp add: count_list_append)
  then have df: "dot_free sv" "dot_free pr" "dot_free d" by (simp_all only: z)
  have 1: "(sv @ ''.'' @ pr) @ CHR ''.'' # d = (a @ ''.'' @ b) @ CHR ''.'' # l" using assms(1) by simp
  note s1 = split_last_unique [OF 1 df(3) [unfolded dot_free_def] assms(4) [unfolded dot_free_def]]
  have 2: "sv @ CHR ''.'' # pr = a @ CHR ''.'' # b" using s1(1) by simp
  note s2 = split_last_unique [OF 2 df(2) [unfolded dot_free_def] assms(3) [unfolded dot_free_def]]
  show "sv = a" "pr = b" "d = l" by (fact s2(1) s2(2) s1(2))+
qed

lemma fq_name_inj:
  assumes "wf_fq s" "wf_fq t" "fq_name s = fq_name t"
  shows "s = t"
proof -
  from assms(1,2) obtain i a b j c d where
    s: "dot_free a" "dot_free b" "s = new_fq i (a @ ''.'' @ b) ''local''" and
    t: "dot_free c" "dot_free d" "t = new_fq j (c @ ''.'' @ d) ''local''" using wf_fq_dots by meson
  have l: "CHR ''.'' \<notin> set ''local''" by simp
  have 1: "(i @ ''.'' @ a @ ''.'' @ b) @ CHR ''.'' # ''local'' = (j @ ''.'' @ c @ ''.'' @ d) @ CHR ''.'' # ''local''"
    using assms(3) by (simp add: s t fq_name_def new_fq_def)
  have 2: "(i @ ''.'' @ a) @ CHR ''.'' # b = (j @ ''.'' @ c) @ CHR ''.'' # d" using split_last_unique(1) [OF 1 l l] by simp
  note s2 = split_last_unique [OF 2 s(2) [unfolded dot_free_def] t(2) [unfolded dot_free_def]]
  have 3: "i @ CHR ''.'' # a = j @ CHR ''.'' # c" using s2(1) by simp
  note s3 = split_last_unique [OF 3 s(1) [unfolded dot_free_def] t(1) [unfolded dot_free_def]]
  show ?thesis using s2(2) s3 by (simp add: s t)
qed

subsection \<open>What the store holds\<close>

fun wf_payload :: "rr_payload \<Rightarrow> bool" where
  "wf_payload (PA _ _) = True"
| "wf_payload (PAAAA _ _) = True"
| "wf_payload (PSRV s _ _) = wf_fq s"
| "wf_payload (PTXT s _) = wf_fq s"
| "wf_payload (PPTR _ s) = wf_fq s"

fun stored :: "store \<Rightarrow> rr_payload \<Rightarrow> bool" where
  "stored st (PA n a) = (a |\<in>| or_default (ipv4s st) n)"
| "stored st (PAAAA n a) = (a |\<in>| or_default (ipv6s st) n)"
| "stored st (PSRV s target port) = (fmlookup (srvs st) (fq_name s) = Some (target, port))"
| "stored st (PTXT s t) = (fmlookup (txts st) (fq_name s) = Some t)"
| "stored st (PPTR _ s) = (s |\<in>| ptrs st)"

text \<open>Whether the store has a record of a kind, whatever it says.\<close>

fun in_store :: "store \<Rightarrow> rr_key \<Rightarrow> bool" where
  "in_store st (KA n a) = (a |\<in>| or_default (ipv4s st) n)"
| "in_store st (KAAAA n a) = (a |\<in>| or_default (ipv6s st) n)"
| "in_store st (KSRV s) = (fq_name s |\<in>| fmdom (srvs st))"
| "in_store st (KTXT s) = (fq_name s |\<in>| fmdom (txts st))"
| "in_store st (KPTR s) = (s |\<in>| ptrs st)"

fun wf_key :: "rr_key \<Rightarrow> bool" where
  "wf_key (KA _ _) = True"
| "wf_key (KAAAA _ _) = True"
| "wf_key (KSRV s) = wf_fq s"
| "wf_key (KTXT s) = wf_fq s"
| "wf_key (KPTR s) = wf_fq s"

lemma wf_payload_key: "wf_key (payload_key p) = wf_payload p"
  by (cases p) simp_all

lemma or_default_add [simp]: "or_default (set_add k x m) n = (if n = k then finsert x (or_default m k) else or_default m n)"
  by (simp add: set_add_def or_default_def)

lemma or_default_remove [simp]: "or_default (set_remove k x m) n = (if n = k then or_default m k |-| {|x|} else or_default m n)"
  by (auto simp: set_remove_def or_default_def Let_def split: option.split)

lemma stored_add_same: "stored (store_add p st) p"
  by (cases p) simp_all

lemma stored_add_other:
  "stored st q \<Longrightarrow> payload_key q \<noteq> payload_key p \<Longrightarrow> wf_payload p \<Longrightarrow> wf_payload q \<Longrightarrow> stored (store_add p st) q"
  by (cases p; cases q) (auto dest: fq_name_inj)

lemma stored_remove_other:
  "stored st q \<Longrightarrow> payload_key q \<noteq> payload_key p \<Longrightarrow> wf_payload p \<Longrightarrow> wf_payload q \<Longrightarrow> stored (store_remove p st) q"
  by (cases p; cases q) (auto dest: fq_name_inj)

lemma in_store_add:
  "in_store (store_add p st) k \<Longrightarrow> wf_key k \<Longrightarrow> wf_payload p \<Longrightarrow> k = payload_key p \<or> in_store st k"
  by (cases p; cases k) (auto split: if_splits dest: fq_name_inj)

lemma in_store_remove:
  "in_store (store_remove p st) k \<Longrightarrow> in_store st k \<and> k \<noteq> payload_key p"
  by (cases p; cases k) (auto split: if_splits)

lemma ptrs_add: "s |\<in>| ptrs (store_add p st) \<Longrightarrow> wf_payload p \<Longrightarrow> s |\<in>| ptrs st \<or> wf_fq s"
  by (cases p) auto

lemma ptrs_remove: "s |\<in>| ptrs (store_remove p st) \<Longrightarrow> s |\<in>| ptrs st"
  by (cases p) auto

subsection \<open>The invariant\<close>

definition rr_ok :: "rr \<Rightarrow> bool" where
  "rr_ok r \<longleftrightarrow> whole_ttl r \<and> attention_needed_on r = next_attention (created_on r) (ttl r) (lifecycle_state r)
     \<and> wf_payload (rr_data r)"

abbreviation held :: "zero_config \<Rightarrow> rr_key \<rightharpoonup> rr" where
  "held z \<equiv> pq_contents rr_key (attention_list z)"

text \<open>The queue and the store agree.\<close>

definition in_step :: "rr_queue \<Rightarrow> store \<Rightarrow> bool" where
  "in_step q st \<longleftrightarrow>
     pq_inv rr_key attention_needed_on q
     \<and> (\<forall>k r. pq_contents rr_key q k = Some r \<longrightarrow> rr_ok r \<and> stored st (rr_data r))
     \<and> (\<forall>k. wf_key k \<longrightarrow> in_store st k \<longrightarrow> pq_contents rr_key q k \<noteq> None)
     \<and> (\<forall>s. s |\<in>| ptrs st \<longrightarrow> wf_fq s)"

definition tracked_ok :: "zero_config \<Rightarrow> bool" where
  "tracked_ok z \<longleftrightarrow> fset (fmdom (tracked_services z)) = (\<lambda>t. t @ ''.'' @ ''local'') ` service_types"

definition zc_inv :: "zero_config \<Rightarrow> bool" where
  "zc_inv z \<longleftrightarrow> in_step (attention_list z) (zc_store z) \<and> tracked_ok z \<and> (\<forall>s. s |\<in>| fmdom (last_snap_shot z) \<longrightarrow> wf_fq s) \<and> commands z = []"

lemma rr_key_data [simp]: "rr_key (r\<lparr>attention_needed_on := t\<rparr>) = rr_key r" "rr_key (r\<lparr>lifecycle_state := l\<rparr>) = rr_key r"
  by (simp_all add: rr_key_def)

lemma in_step_push:
  assumes "in_step q st" "rr_ok r"
  shows "\<exists>q'. pq_push rr_key cmp_attention r q = Inr q' \<and> in_step q' (store_add (rr_data r) st)
     \<and> pq_contents rr_key q' = (pq_contents rr_key q)(rr_key r \<mapsto> r)"
proof -
  have inv: "pq_inv rr_key attention_needed_on q" using assms(1) by (simp add: in_step_def)
  from rrq.pq.push_law [OF inv, of r] obtain q' where
    q': "pq_push rr_key cmp_attention r q = Inr q'" "pq_inv rr_key attention_needed_on q'"
      "pq_contents rr_key q' = (pq_contents rr_key q)(rr_key r \<mapsto> r)" by blast
  have wf: "wf_payload (rr_data r)" using assms(2) by (simp add: rr_ok_def)
  have "rr_ok x \<and> stored (store_add (rr_data r) st) (rr_data x)" if "pq_contents rr_key q' k = Some x" for k x
  proof (cases "k = rr_key r")
    case True
    then show ?thesis using that q'(3) assms(2) by (simp add: stored_add_same)
  next
    case False
    then have x: "pq_contents rr_key q k = Some x" using that q'(3) by simp
    then have "rr_key x = k" by (rule rrq.pq.key_law [OF inv])
    then show ?thesis using x False assms(1) wf by (auto simp: in_step_def rr_key_def rr_ok_def intro: stored_add_other)
  qed
  moreover have "pq_contents rr_key q' k \<noteq> None" if "wf_key k" "in_store (store_add (rr_data r) st) k" for k
    using in_store_add [OF that(2,1) wf] assms(1) that(1) q'(3) by (auto simp: in_step_def rr_key_def)
  moreover have "wf_fq s" if "s |\<in>| ptrs (store_add (rr_data r) st)" for s
    using ptrs_add [OF that wf] assms(1) by (auto simp: in_step_def)
  ultimately show ?thesis using q' by (auto simp: in_step_def)
qed

subsection \<open>A tick keeps it\<close>

text \<open>What the loop may do to the rest of the state.\<close>

definition same_rest :: "zero_config \<Rightarrow> zero_config \<Rightarrow> bool" where
  "same_rest z z' \<longleftrightarrow> zc_now z' = zc_now z \<and> tracked_services z' = tracked_services z \<and> last_snap_shot z' = last_snap_shot z
     \<and> commands z' = commands z \<and> periodic_refresh z' = periodic_refresh z"

lemma same_rest_refl [simp]: "same_rest z z"
  by (simp add: same_rest_def)

lemma same_rest_trans: "same_rest x y \<Longrightarrow> same_rest y z \<Longrightarrow> same_rest x z"
  by (simp add: same_rest_def)

abbreviation in_step_zc :: "zero_config \<Rightarrow> bool" where
  "in_step_zc z \<equiv> in_step (attention_list z) (zc_store z)"

text \<open>Removing an item from the queue and its record from the store.\<close>

lemma in_step_drop:
  assumes "in_step q st" "pq_contents rr_key q (rr_key e) = Some e" "pq_inv rr_key attention_needed_on q'"
    "pq_contents rr_key q' = (pq_contents rr_key q)(rr_key e := None)"
  shows "in_step q' (store_remove (rr_data e) st)"
proof -
  have inv: "pq_inv rr_key attention_needed_on q" using assms(1) by (simp add: in_step_def)
  have wf: "wf_payload (rr_data e)" using assms(1,2) by (auto simp: in_step_def rr_ok_def)
  have "rr_ok x \<and> stored (store_remove (rr_data e) st) (rr_data x)" if "pq_contents rr_key q' k = Some x" for k x
  proof -
    have x: "pq_contents rr_key q k = Some x" "k \<noteq> rr_key e" using that assms(4) by (auto split: if_splits)
    then have "rr_key x = k" using rrq.pq.key_law [OF inv] by blast
    then show ?thesis using x assms(1) wf by (auto simp: in_step_def rr_key_def rr_ok_def intro: stored_remove_other)
  qed
  moreover have "pq_contents rr_key q' k \<noteq> None" if "wf_key k" "in_store (store_remove (rr_data e) st) k" for k
    using in_store_remove [OF that(2)] assms(1,4) that(1) by (auto simp: in_step_def rr_key_def)
  moreover have "wf_fq s" if "s |\<in>| ptrs (store_remove (rr_data e) st)" for s
    using ptrs_remove [OF that] assms(1) by (auto simp: in_step_def)
  ultimately show ?thesis using assms(3) by (auto simp: in_step_def)
qed

text \<open>Putting an item back with another attention time.\<close>

lemma in_step_repush:
  assumes "in_step q st" "pq_contents rr_key q (rr_key e) = Some e" "pq_inv rr_key attention_needed_on q1"
    "pq_contents rr_key q1 = (pq_contents rr_key q)(rr_key e := None)"
  shows "\<exists>q'. pq_push rr_key cmp_attention (probed_rr e l) q1 = Inr q' \<and> in_step q' st
     \<and> pq_contents rr_key q' = (pq_contents rr_key q)(rr_key e \<mapsto> probed_rr e l)"
proof -
  let ?r = "probed_rr e l"
  have k: "rr_key ?r = rr_key e" and d: "rr_data ?r = rr_data e" by (simp_all add: probed_rr_def)
  have ok: "rr_ok ?r" "stored st (rr_data ?r)" using assms(1,2) by (auto simp: in_step_def rr_ok_def probed_rr_def whole_ttl_def)
  from rrq.pq.push_law [OF assms(3), of ?r] obtain q' where
    q': "pq_push rr_key cmp_attention ?r q1 = Inr q'" "pq_inv rr_key attention_needed_on q'"
      "pq_contents rr_key q' = (pq_contents rr_key q)(rr_key e \<mapsto> ?r)" using assms(4) k by auto
  have "in_step q' st" using assms(1) ok q'(2,3) by (auto simp: in_step_def split: if_splits)
  with q' show ?thesis by blast
qed

definition due :: "zero_config \<Rightarrow> rr_key set" where
  "due z = {k. \<exists>r. held z k = Some r \<and> attention_needed_on r \<le> zc_now z}"

lemma finite_due: "in_step_zc z \<Longrightarrow> finite (due z)"
  by (rule finite_subset [OF _ rrq.pq.finite_law [of "attention_list z"]]) (auto simp: due_def in_step_def)

lemma attend_ok:
  assumes "in_step_zc z" "pq_peek (attention_list z) = Some e" "attention_needed_on e \<le> zc_now z"
  shows "\<exists>z'. attend z = Inr z' \<and> in_step_zc z' \<and> same_rest z z' \<and> (\<forall>k. k \<noteq> rr_key e \<longrightarrow> held z' k = held z k)
     \<and> rr_key e \<in> due z \<and> held z (rr_key e) = Some e \<and> (timely (zc_now z) e \<longrightarrow> due z' = due z - {rr_key e})"
proof -
  have inv: "pq_inv rr_key attention_needed_on (attention_list z)" using assms(1) by (simp add: in_step_def)
  have he: "held z (rr_key e) = Some e" using rrq.pq.peek_law [OF inv assms(2)] by blast
  from rrq.pq.pop_law [OF inv assms(2)] obtain q where
    q: "pq_pop rr_key cmp_attention (attention_list z) = Inr (Some e, q)" "pq_inv rr_key attention_needed_on q"
      "pq_contents rr_key q = (held z)(rr_key e := None)" by blast
  have in_due: "rr_key e \<in> due z" using he assms(3) by (auto simp: due_def)
  show ?thesis
  proof (cases "Option.bind (live_fraction (zc_now z) e) probed_state")
    case None
    let ?z = "drop_record e (z\<lparr>attention_list := q\<rparr>)"
    have "attend z = Inr ?z" using q(1) None by (simp add: attend_def)
    moreover have "in_step_zc ?z" using in_step_drop [OF assms(1) he q(2,3)] by (simp add: drop_record_def)
    moreover have "same_rest z ?z" by (simp add: same_rest_def drop_record_def)
    moreover have "due ?z = due z - {rr_key e}" using q(3) by (auto simp: due_def drop_record_def)
    ultimately show ?thesis using he in_due q(3) by (auto simp: drop_record_def)
  next
    case (Some st)
    let ?r = "probed_rr e st"
    from in_step_repush [OF assms(1) he q(2,3), of st] obtain q' where
      q': "pq_push rr_key cmp_attention ?r q = Inr q'" "in_step q' (zc_store z)"
        "pq_contents rr_key q' = (held z)(rr_key e \<mapsto> ?r)" by blast
    let ?z = "create_query_for_record ?r (z\<lparr>attention_list := q\<rparr>)\<lparr>attention_list := q'\<rparr>"
    have "attend z = Inr ?z" using q(1) q'(1) Some by (simp add: attend_def create_query_for_record_def Let_def)
    moreover have "in_step_zc ?z" using q'(2) by (simp add: create_query_for_record_def)
    moreover have "same_rest z ?z" by (simp add: same_rest_def create_query_for_record_def)
    moreover have "due ?z = due z - {rr_key e}" if "timely (zc_now z) e"
      using q'(3) that Some by (auto simp: due_def create_query_for_record_def timely_def probed_rr_def split: if_splits)
    ultimately show ?thesis using he in_due q'(3) by (auto simp: create_query_for_record_def)
  qed
qed

lemma not_due_done:
  assumes "in_step_zc z" "pq_peek (attention_list z) = None \<or> (\<exists>e. pq_peek (attention_list z) = Some e \<and> zc_now z < attention_needed_on e)"
  shows "due z = {}"
proof -
  have inv: "pq_inv rr_key attention_needed_on (attention_list z)" using assms(1) by (simp add: in_step_def)
  from assms(2) show ?thesis
  proof
    assume "pq_peek (attention_list z) = None"
    then show ?thesis using rrq.pq.empty_law [OF inv] by (simp add: due_def)
  next
    assume "\<exists>e. pq_peek (attention_list z) = Some e \<and> zc_now z < attention_needed_on e"
    then obtain e where "pq_peek (attention_list z) = Some e" "zc_now z < attention_needed_on e" by blast
    with rrq.pq.peek_law [OF inv, of e] show ?thesis by (fastforce simp: due_def)
  qed
qed

lemma attend_loop_returns:
  assumes "in_step_zc z" "\<And>r. held z (rr_key r) = Some r \<Longrightarrow> rr_key r \<in> due z \<Longrightarrow> timely (zc_now z) r"
  shows "\<exists>z'. attend_loop z = Some (Inr z') \<and> in_step_zc z' \<and> same_rest z z' \<and> due z' = {}"
  using assms
proof (induction "card (due z)" arbitrary: z rule: less_induct)
  case less
  show ?case
  proof (cases "\<exists>e. pq_peek (attention_list z) = Some e \<and> attention_needed_on e \<le> zc_now z")
    case False
    then have d: "pq_peek (attention_list z) = None \<or> (\<exists>e. pq_peek (attention_list z) = Some e \<and> zc_now z < attention_needed_on e)"
      by (cases "pq_peek (attention_list z)") auto
    then have "attend_loop z = Some (Inr z)" by (subst attend_loop.simps) (auto split: option.split)
    then show ?thesis using less.prems(1) not_due_done [OF less.prems(1) d] by simp
  next
    case True
    then obtain e where e: "pq_peek (attention_list z) = Some e" "attention_needed_on e \<le> zc_now z" by blast
    from attend_ok [OF less.prems(1) e] obtain z1 where
      z1: "attend z = Inr z1" "in_step_zc z1" "same_rest z z1" "\<forall>k. k \<noteq> rr_key e \<longrightarrow> held z1 k = held z k"
        "rr_key e \<in> due z" "held z (rr_key e) = Some e" "timely (zc_now z) e \<longrightarrow> due z1 = due z - {rr_key e}" by blast
    have d1: "due z1 = due z - {rr_key e}" using z1(5,6,7) less.prems(2) by blast
    have lt: "card (due z1) < card (due z)"
      unfolding d1 using z1(5) finite_due [OF less.prems(1)] by (intro card_Diff1_less)
    have "timely (zc_now z1) r" if "held z1 (rr_key r) = Some r" "rr_key r \<in> due z1" for r
    proof -
      from that(2) have "rr_key r \<noteq> rr_key e" "rr_key r \<in> due z" using d1 by auto
      then show ?thesis using less.prems(2) that(1) z1(3,4) by (simp add: same_rest_def)
    qed
    from less.hyps [OF lt z1(2) this] obtain z' where
      "attend_loop z1 = Some (Inr z')" "in_step_zc z'" "same_rest z1 z'" "due z' = {}" by blast
    moreover have "attend_loop z = attend_loop z1" using e z1(1) by (subst attend_loop.simps) (simp add: not_less)
    ultimately show ?thesis using same_rest_trans [OF z1(3)] by auto
  qed
qed

lemma attend_loop_keeps:
  assumes "attend_loop z = Some y" "in_step_zc z"
  shows "\<exists>z'. y = Inr z' \<and> in_step_zc z' \<and> same_rest z z' \<and> due z' = {}"
proof -
  have "in_step_zc z \<longrightarrow> (\<exists>z'. y = Inr z' \<and> in_step_zc z' \<and> same_rest z z' \<and> due z' = {})" using assms(1)
  proof (rule attend_loop.raw_induct [rotated], goal_cases)
    case (1 f z y)
    show ?case
    proof (intro impI)
      assume inv: "in_step_zc z"
      show "\<exists>z'. y = Inr z' \<and> in_step_zc z' \<and> same_rest z z' \<and> due z' = {}"
      proof (cases "\<exists>e. pq_peek (attention_list z) = Some e \<and> attention_needed_on e \<le> zc_now z")
        case False
        then have d: "pq_peek (attention_list z) = None \<or> (\<exists>e. pq_peek (attention_list z) = Some e \<and> zc_now z < attention_needed_on e)"
          by (cases "pq_peek (attention_list z)") auto
        then have "y = Inr z" using 1(2) by auto
        then show ?thesis using inv not_due_done [OF inv d] by simp
      next
        case True
        then obtain e where e: "pq_peek (attention_list z) = Some e" "attention_needed_on e \<le> zc_now z" by blast
        from attend_ok [OF inv e] obtain z1 where z1: "attend z = Inr z1" "in_step_zc z1" "same_rest z z1" by blast
        have "f z1 = Some y" using 1(2) e z1(1) by (simp add: not_less)
        from 1(1) [OF this] z1(2) obtain z' where "y = Inr z'" "in_step_zc z'" "same_rest z1 z'" "due z' = {}" by blast
        with same_rest_trans [OF z1(3)] show ?thesis by blast
      qed
    qed
  qed
  with assms(2) show ?thesis by blast
qed

end
