(* ===== verification/Mdns_Properties.thy ===== *)
theory Mdns_Properties
  imports Mdns_Invariant "HOL-Library.List_Lexorder" "HOL-Library.Char_ord" "HOL-Library.Product_Lexorder"
begin

text \<open>
  The mDNS client as its driver runs it, the view of the services that the server has from its commands, and
  what holds of both.
\<close>

subsection \<open>The view of the server\<close>

type_synonym view = "string \<times> string \<rightharpoonup> instance_details"

fun apply_command :: "zc_command \<Rightarrow> view \<Rightarrow> view" where
  "apply_command (CreateService i t d) v = v((i, t) \<mapsto> d)"
| "apply_command (UpdateService i t d) v = v((i, t) \<mapsto> d)"
| "apply_command (DeleteService i t) v = v((i, t) := None)"
| "apply_command (DnsQueries _) v = v"
| "apply_command Restart v = v"

text \<open>A service is created when it is not known, and updated or deleted when it is.\<close>

fun command_fits :: "zc_command \<Rightarrow> view \<Rightarrow> bool" where
  "command_fits (CreateService i t d) v = (v (i, t) = None)"
| "command_fits (UpdateService i t d) v = (\<exists>d'. v (i, t) = Some d' \<and> d' \<noteq> d)"
| "command_fits (DeleteService i t) v = (v (i, t) \<noteq> None)"
| "command_fits (DnsQueries _) v = True"
| "command_fits Restart v = True"

fun commands_fit :: "zc_command list \<Rightarrow> view \<Rightarrow> bool" where
  "commands_fit [] v = True"
| "commands_fit (c # cs) v = (command_fits c v \<and> commands_fit cs (apply_command c v))"

lemma commands_fit_append: "commands_fit (as @ bs) v \<longleftrightarrow> commands_fit as v \<and> commands_fit bs (fold apply_command as v)"
  by (induction as arbitrary: v) auto

definition sid :: "fq_service_name \<Rightarrow> string \<times> string" where
  "sid s = (instance_name s, service_type s)"

definition view_of :: "services \<Rightarrow> view" where
  "view_of m = (\<lambda>(i, t). fmlookup m (new_fq i t ''local''))"

lemma wf_fq_sid: "wf_fq s \<Longrightarrow> new_fq (instance_name s) (service_type s) ''local'' = s"
  by (auto simp: wf_fq_def new_fq_def)

lemma sid_inj: "wf_fq s \<Longrightarrow> wf_fq t \<Longrightarrow> sid s = sid t \<longleftrightarrow> s = t"
  by (metis prod.inject sid_def wf_fq_sid)

lemma view_of_sid: "wf_fq s \<Longrightarrow> view_of m (sid s) = fmlookup m s"
  by (simp add: view_of_def sid_def wf_fq_sid)

lemma fmlookup_snapshot:
  assumes "visits it"
  shows "fmlookup (snapshot it st) s = (if s |\<in>| ptrs st then instance_of st s else None)"
proof -
  have "fmlookup (fold (\<lambda>s m. case instance_of st s of None \<Rightarrow> m | Some d \<Rightarrow> fmupd s d m) xs m) s =
      (if s \<in> set xs \<and> instance_of st s \<noteq> None then instance_of st s else fmlookup m s)" for xs m
    by (induction xs arbitrary: m) (auto split: option.split)
  from this [of "it (ptrs st)" fmempty] show ?thesis using assms by (auto simp: snapshot_def visits_def)
qed

text \<open>The commands for the services of a new snapshot, and those for the services that are gone.\<close>

lemma diff_commands_apply:
  assumes "distinct xs" "\<forall>s \<in> set xs. wf_fq s \<and> fmlookup snap s \<noteq> None \<and> v (sid s) = fmlookup old s"
  shows "commands_fit (concat (map (diff_command snap old) xs)) v
     \<and> fold apply_command (concat (map (diff_command snap old) xs)) v = (\<lambda>p. if p \<in> sid ` set xs then view_of snap p else v p)"
  using assms
proof (induction xs arbitrary: v)
  case (Cons s xs)
  then obtain d where d: "fmlookup snap s = Some d" and wf: "wf_fq s" and v: "v (sid s) = fmlookup old s" by auto
  let ?c = "diff_command snap old s"
  have one: "commands_fit ?c v" "fold apply_command ?c v = v(sid s \<mapsto> d)"
    using v by (auto simp: diff_command_def d sid_def split: option.split)
  have ne: "sid t \<noteq> sid s" if "t \<in> set xs" for t using Cons.prems that sid_inj [OF wf, of t] by auto
  have "\<forall>t \<in> set xs. wf_fq t \<and> fmlookup snap t \<noteq> None \<and> (v(sid s \<mapsto> d)) (sid t) = fmlookup old t"
    using Cons.prems ne by auto
  note ih = Cons.IH [OF _ this]
  have fin: "(\<lambda>p. if p \<in> sid ` set xs then view_of snap p else (v(sid s \<mapsto> d)) p)
      = (\<lambda>p. if p \<in> sid ` set (s # xs) then view_of snap p else v p)"
    using view_of_sid [OF wf, of snap] d by auto
  have "distinct xs" using Cons.prems(1) by simp
  with ih one show ?case unfolding list.map concat.simps commands_fit_append fold_append comp_def fin [symmetric] by metis
qed simp

lemma delete_commands_apply:
  assumes "distinct xs" "\<forall>s \<in> set xs. wf_fq s \<and> v (sid s) \<noteq> None"
  shows "commands_fit (map (\<lambda>s. DeleteService (instance_name s) (service_type s)) xs) v
     \<and> fold apply_command (map (\<lambda>s. DeleteService (instance_name s) (service_type s)) xs) v = (\<lambda>p. if p \<in> sid ` set xs then None else v p)"
  using assms
proof (induction xs arbitrary: v)
  case (Cons s xs)
  then have wf: "wf_fq s" and v: "v (sid s) \<noteq> None" by auto
  have ne: "sid t \<noteq> sid s" if "t \<in> set xs" for t using Cons.prems that sid_inj [OF wf, of t] by auto
  have "\<forall>t \<in> set xs. wf_fq t \<and> (v(sid s := None)) (sid t) \<noteq> None" using Cons.prems ne by auto
  note ih = Cons.IH [OF _ this]
  let ?c = "\<lambda>s. DeleteService (instance_name s) (service_type s)"
  have one: "command_fits (?c s) v" "apply_command (?c s) v = v(sid s := None)" using v by (simp_all add: sid_def)
  have fin: "(\<lambda>p. if p \<in> sid ` set xs then None else (v(sid s := None)) p) = (\<lambda>p. if p \<in> sid ` set (s # xs) then None else v p)"
    by auto
  have "distinct xs" using Cons.prems(1) by simp
  with ih one show ?case unfolding list.map commands_fit.simps fold_simps fin [symmetric] by metis
qed simp

lemma diff_exact:
  assumes "visits it1" "visits it2" "\<forall>s. s |\<in>| fmdom snap \<longrightarrow> wf_fq s" "\<forall>s. s |\<in>| fmdom old \<longrightarrow> wf_fq s"
    and cs: "cs = concat (map (diff_command snap old) (it1 (fmdom snap)))
        @ map (\<lambda>s. DeleteService (instance_name s) (service_type s)) (filter (\<lambda>s. s |\<notin>| fmdom snap) (it2 (fmdom old)))"
  shows "commands_fit cs (view_of old) \<and> fold apply_command cs (view_of old) = view_of snap"
proof -
  let ?xs = "it1 (fmdom snap)" and ?ys = "filter (\<lambda>s. s |\<notin>| fmdom snap) (it2 (fmdom old))"
  have xs: "distinct ?xs" "set ?xs = fset (fmdom snap)" using assms(1) by (auto simp: visits_def)
  have ys: "distinct ?ys" "set ?ys = fset (fmdom old) - fset (fmdom snap)" using assms(2) by (auto simp: visits_def)
  let ?v = "\<lambda>p. if p \<in> sid ` set ?xs then view_of snap p else view_of old p"
  have "\<forall>s \<in> set ?xs. wf_fq s \<and> fmlookup snap s \<noteq> None \<and> view_of old (sid s) = fmlookup old s"
    using xs(2) assms(3) view_of_sid by (simp add: fmlookup_dom_iff)
  note 1 = diff_commands_apply [OF xs(1) this]
  have yv: "?v (sid s) = fmlookup old s \<and> wf_fq s" if "s \<in> set ?ys" for s
  proof -
    have s: "wf_fq s" "s |\<notin>| fmdom snap" using that ys(2) assms(4) by auto
    then have "sid s \<notin> sid ` set ?xs" using xs(2) assms(3) sid_inj by auto
    then show ?thesis using s view_of_sid by simp
  qed
  have "\<forall>s \<in> set ?ys. wf_fq s \<and> ?v (sid s) \<noteq> None"
  proof
    fix s assume s: "s \<in> set ?ys"
    then have "s |\<in>| fmdom old" using ys(2) by blast
    then have "fmlookup old s \<noteq> None" by (simp add: fmlookup_dom_iff)
    with yv [OF s] show "wf_fq s \<and> ?v (sid s) \<noteq> None" by (simp only: simp_thms)
  qed
  note 2 = delete_commands_apply [OF ys(1) this]
  have fin: "(if p \<in> sid ` set ?ys then None else ?v p) = view_of snap p" for p
  proof -
    obtain i t where p: "p = (i, t)" by fastforce
    let ?s = "new_fq i t ''local''"
    have vp: "view_of m p = fmlookup m ?s" for m by (simp add: view_of_def p)
    have mem: "p \<in> sid ` A \<longleftrightarrow> ?s \<in> A" if "\<forall>s \<in> A. wf_fq s" for A
    proof
      assume "p \<in> sid ` A"
      then obtain s where s: "s \<in> A" "p = sid s" by blast
      then have "i = instance_name s" "t = service_type s" by (simp_all add: p sid_def)
      then have "?s = s" using wf_fq_sid [of s] s(1) that by simp
      then show "?s \<in> A" using s(1) by simp
    next
      assume "?s \<in> A"
      moreover have "p = sid ?s" by (simp add: p sid_def new_fq_def)
      ultimately show "p \<in> sid ` A" by (rule rev_image_eqI)
    qed
    have "p \<in> sid ` set ?xs \<longleftrightarrow> ?s |\<in>| fmdom snap"       unfolding xs(2) using mem [of "fset (fmdom snap)"] assms(3) by simp
    moreover have "p \<in> sid ` set ?ys \<longleftrightarrow> ?s |\<in>| fmdom old \<and> ?s |\<notin>| fmdom snap"       unfolding ys(2) using mem [of "fset (fmdom old) - fset (fmdom snap)"] assms(4) by simp
    ultimately show ?thesis using vp fmdom_notD [of ?s snap] fmdom_notD [of ?s old] by simp
  qed
  have "fold apply_command cs (view_of old) = (\<lambda>p. if p \<in> sid ` set ?ys then None else ?v p)"
    unfolding cs fold_append comp_def using 1 2 by simp
  moreover have "commands_fit cs (view_of old)" unfolding cs commands_fit_append using 1 2 by simp
  ultimately show ?thesis by (simp only: fin simp_thms)
qed

subsection \<open>The client as its driver runs it\<close>

text \<open>A state is the client and the view that the server has of it from all the commands so far.\<close>

inductive zc_step :: "zero_config \<times> view \<Rightarrow> zero_config \<times> view \<Rightarrow> bool" where
  zs_time: "zc_step (z, v) (set_time now z, v)"
| zs_refresh: "zc_step (z, v) (set_periodic_refresh b z, v)"
| zs_start: "zc_step (z, v) (on_start z, v)"
| zs_push: "push_records qs as ad nm z = Inr z' \<Longrightarrow> zc_step (z, v) (z', v)"
| zs_tick: "orders_law os \<Longrightarrow> tick os z = Some (Inr (cs, d, z')) \<Longrightarrow> zc_step (z, v) (z', fold apply_command cs v)"
| zs_stop: "orders_law os \<Longrightarrow> on_stop os z = Some (Inr (cs, z')) \<Longrightarrow> zc_step (z, v) (z', fold apply_command cs v)"

definition zc_init :: "zero_config \<times> view \<Rightarrow> bool" where
  "zc_init s \<longleftrightarrow> (\<exists>now. s = (new_zero_config now, Map.empty))"

definition sys_inv :: "zero_config \<times> view \<Rightarrow> bool" where
  "sys_inv s \<longleftrightarrow> zc_inv (fst s) \<and> snd s = view_of (last_snap_shot (fst s))"

text \<open>Receiving packets.\<close>

lemma tracked_name_wf: "tracked_ok z \<Longrightarrow> tracked_name z n = Some s \<Longrightarrow> wf_fq s"
proof -
  assume t: "tracked_ok z" and n: "tracked_name z n = Some s"
  then obtain i sv pr d where s: "s = new_fq i (sv @ ''.'' @ pr) d" "is_tracked z s"
    by (auto simp: tracked_name_def fq_of_name_def split: option.splits list.splits if_splits)
  then obtain k where k: "k \<in> service_types" "(sv @ ''.'' @ pr) @ ''.'' @ d = k @ ''.'' @ ''local''"
    using t unfolding tracked_ok_def is_tracked_def by (auto simp: new_fq_def)
  from service_types_dots [OF k(1)] obtain a b where ab: "dot_free a" "dot_free b" "k = a @ ''.'' @ b" by blast
  have l: "dot_free ''local''" by (simp add: dot_free_def)
  have "(sv @ ''.'' @ pr) @ ''.'' @ d = a @ ''.'' @ b @ ''.'' @ ''local''" using k(2) ab(3) by simp
  note u = dots_unique [OF this ab(1,2) l]
  have "s = new_fq i k ''local''" by (simp only: s(1) u ab(3))
  with k(1) show "wf_fq s" unfolding wf_fq_def by blast
qed

lemma record_payload_wf: "tracked_ok z \<Longrightarrow> record_payload z r = Some p \<Longrightarrow> wf_payload p"
  by (auto simp: record_payload_def split: rdata.splits dest: tracked_name_wf)

lemma new_rr_ok: "wf_payload p \<Longrightarrow> rr_ok (new_rr now (from_secs t) p)"
  using unat_u32_less [of t] by (auto simp: rr_ok_def new_rr_def whole_ttl_def from_secs_def)

definition held_or_new :: "zero_config \<Rightarrow> resource_record list \<Rightarrow> zero_config \<Rightarrow> bool" where
  "held_or_new z rs z' \<longleftrightarrow>
     (\<forall>k r. held z' k = Some r \<longrightarrow> held z k = Some r \<or> (\<exists>x \<in> set rs. \<exists>p. r = new_rr (zc_now z) (from_secs (r_ttl x)) p))"

lemma process_records_ok:
  "in_step_zc z \<Longrightarrow> tracked_ok z \<Longrightarrow> \<exists>z'. process_records rs z = Inr z' \<and> in_step_zc z' \<and> same_rest z z' \<and> held_or_new z rs z'"
proof (induction rs arbitrary: z)
  case (Cons r rs)
  show ?case
  proof (cases "record_payload z r")
    case None
    with Cons show ?thesis by (fastforce simp: held_or_new_def)
  next
    case (Some p)
    let ?r = "new_rr (zc_now z) (from_secs (r_ttl r)) p"
    have "rr_ok ?r" using record_payload_wf [OF Cons.prems(2) Some] by (rule new_rr_ok)
    from in_step_push [OF Cons.prems(1) this] obtain q where
      q: "pq_push rr_key cmp_attention ?r (attention_list z) = Inr q" "in_step q (store_add (rr_data ?r) (zc_store z))"
        "pq_contents rr_key q = (held z)(rr_key ?r \<mapsto> ?r)" by blast
    let ?z = "z\<lparr>attention_list := q, zc_store := store_add (rr_data ?r) (zc_store z)\<rparr>"
    have "in_step_zc ?z" "tracked_ok ?z" "same_rest z ?z" using q(2) Cons.prems(2) by (simp_all add: tracked_ok_def same_rest_def)
    with Cons.IH [of ?z] obtain z' where
      z': "process_records rs ?z = Inr z'" "in_step_zc z'" "same_rest z z'" "held_or_new ?z rs z'" by (auto intro: same_rest_trans)

    have hz: "held ?z = (held z)(rr_key ?r \<mapsto> ?r)" "zc_now ?z = zc_now z" using q(3) by simp_all
    have "held_or_new z (r # rs) z'" unfolding held_or_new_def
    proof (intro allI impI)
      fix k x assume "held z' k = Some x"
      then have "held ?z k = Some x \<or> (\<exists>y \<in> set rs. \<exists>p. x = new_rr (zc_now z) (from_secs (r_ttl y)) p)"
        using z'(4) hz(2) unfolding held_or_new_def by metis
      then show "held z k = Some x \<or> (\<exists>y \<in> set (r # rs). \<exists>p. x = new_rr (zc_now z) (from_secs (r_ttl y)) p)"
        using hz(1) by (cases "k = rr_key ?r") auto
    qed
    with z' Some q(1) show ?thesis by (simp add: add_rr_def)
  qed
qed (simp add: held_or_new_def)

definition only_tracked :: "zero_config \<Rightarrow> zero_config \<Rightarrow> bool" where
  "only_tracked z z' \<longleftrightarrow> (\<exists>tr qr. z' = z\<lparr>tracked_services := tr, question_requests := qr\<rparr> \<and> fmdom tr = fmdom (tracked_services z))"

lemma only_tracked_refl: "only_tracked z z"
  unfolding only_tracked_def by (rule exI [of _ "tracked_services z"], rule exI [of _ "question_requests z"]) simp

lemma only_tracked_trans: "only_tracked x y \<Longrightarrow> only_tracked y z \<Longrightarrow> only_tracked x z"
  by (clarsimp simp: only_tracked_def) blast

lemma only_tracked_fold: "(\<And>x z. only_tracked z (f x z)) \<Longrightarrow> only_tracked z (fold f xs z)"
  by (induction xs arbitrary: z) (auto intro: only_tracked_refl only_tracked_trans)

lemma process_query_only: "only_tracked z (process_query q z)"
proof (cases "fmlookup (tracked_services z) (n_text (q_name q))")
  case None
  then show ?thesis by (simp add: process_query_def only_tracked_refl)
next
  case (Some s)
  let ?tr = "fmupd (n_text (q_name q)) (ts_refresh (zc_now z) s) (tracked_services z)"
  have "fmdom ?tr = fmdom (tracked_services z)" using Some by (auto simp: fmdomI)
  then have "only_tracked z (z\<lparr>tracked_services := ?tr\<rparr>)"
    unfolding only_tracked_def by (intro exI [of _ ?tr] exI [of _ "question_requests z"]) simp
  then show ?thesis using Some by (simp add: process_query_def only_tracked_refl)
qed

lemma tick_tracker_only: "only_tracked z (tick_tracker n z)"
proof (cases "fmlookup (tracked_services z) n")
  case None
  then show ?thesis by (simp add: tick_tracker_def only_tracked_refl)
next
  case (Some s)
  let ?tr = "fmupd n (ts_refresh (zc_now z) s) (tracked_services z)" and ?qr = "question_requests z @ [\<lparr>dq_name = n, dq_type = Q_ANY\<rparr>]"
  have "fmdom ?tr = fmdom (tracked_services z)" using Some by (auto simp: fmdomI)
  then have "only_tracked z (z\<lparr>tracked_services := ?tr, question_requests := ?qr\<rparr>)"
    unfolding only_tracked_def by (intro exI [of _ ?tr] exI [of _ ?qr]) simp
  then show ?thesis using Some by (simp add: tick_tracker_def only_tracked_refl)
qed

lemma only_tracked_keeps:
  assumes "only_tracked z z'"
  shows "attention_list z' = attention_list z" "zc_store z' = zc_store z" "last_snap_shot z' = last_snap_shot z"
    "commands z' = commands z" "zc_now z' = zc_now z" "tracked_ok z' = tracked_ok z" "fmdom (tracked_services z') = fmdom (tracked_services z)"
proof -
  from assms obtain tr qr where "z' = z\<lparr>tracked_services := tr, question_requests := qr\<rparr>" "fmdom tr = fmdom (tracked_services z)"
    unfolding only_tracked_def by blast
  then show "attention_list z' = attention_list z" "zc_store z' = zc_store z" "last_snap_shot z' = last_snap_shot z"
    "commands z' = commands z" "zc_now z' = zc_now z" "tracked_ok z' = tracked_ok z" "fmdom (tracked_services z') = fmdom (tracked_services z)"
    by (simp_all add: tracked_ok_def)
qed

lemma push_records_ok:
  assumes "zc_inv z"
  shows "\<exists>z'. push_records qs as ad nm z = Inr z' \<and> zc_inv z' \<and> last_snap_shot z' = last_snap_shot z
     \<and> zc_now z' = zc_now z \<and> held_or_new z (as @ ad @ nm) z'"
proof -
  let ?z = "process_queries qs z"
  have o: "only_tracked z ?z" unfolding process_queries_def by (rule only_tracked_fold [OF process_query_only])
  have z: "zc_inv ?z" using assms by (simp add: zc_inv_def only_tracked_keeps [OF o])
  then have "in_step_zc ?z" "tracked_ok ?z" by (simp_all add: zc_inv_def)
  from process_records_ok [OF this, of "as @ ad @ nm"] obtain z' where
    z': "process_records (as @ ad @ nm) ?z = Inr z'" "in_step_zc z'" "same_rest ?z z'" "held_or_new ?z (as @ ad @ nm) z'" by blast
  have "zc_inv z'" using z z'(2,3) by (simp add: zc_inv_def same_rest_def tracked_ok_def)
  moreover have "push_records qs as ad nm z = Inr z'" using z'(1) by (auto simp: push_records_def Let_def)
  ultimately show ?thesis using z'(3,4) only_tracked_keeps [OF o] by (simp add: same_rest_def held_or_new_def)
qed

text \<open>A tick, when it returns.\<close>

lemma snapshot_wf:
  assumes "visits it" "in_step q st" "s |\<in>| fmdom (snapshot it st)"
  shows "wf_fq s"
proof -
  have "fmlookup (snapshot it st) s \<noteq> None" using assms(3) by (simp add: fmlookup_dom_iff)
  then have "s |\<in>| ptrs st" by (simp add: fmlookup_snapshot [OF assms(1)] split: if_splits)
  with assms(2) show ?thesis by (simp add: in_step_def)
qed

lemma tick_ok:
  assumes "zc_inv z" "orders_law os" "tick os z = Some y"
  shows "\<exists>cs d z'. y = Inr (cs, d, z') \<and> zc_inv z' \<and> due z' = {} \<and> zc_now z' = zc_now z
    \<and> last_snap_shot z' = snapshot (o_ptrs os) (zc_store z')
    \<and> commands_fit cs (view_of (last_snap_shot z)) \<and> fold apply_command cs (view_of (last_snap_shot z)) = view_of (last_snap_shot z')"
proof -
  from assms(3) obtain y1 where y1: "attend_loop z = Some y1" by (auto simp: tick_def split: option.splits)
  have "in_step_zc z" using assms(1) by (simp add: zc_inv_def)
  from attend_loop_keeps [OF y1 this] obtain z1 where
    z1: "y1 = Inr z1" "in_step_zc z1" "same_rest z z1" "due z1 = {}" by blast
  let ?snap = "snapshot (o_ptrs os) (zc_store z1)" and ?old = "last_snap_shot z"
  define z2 where "z2 = create_diff_commands os z1"
  define z3 where "z3 = tick_tracker_services os z2"
  define z4 where "z4 = convert_dns_query_to_command z3"
  let ?cs = "concat (map (diff_command ?snap ?old) (o_snapshot os (fmdom ?snap)))
      @ map (\<lambda>s. DeleteService (instance_name s) (service_type s)) (filter (\<lambda>s. s |\<notin>| fmdom ?snap) (o_last os (fmdom ?old)))"
  have z2: "commands z2 = ?cs" "last_snap_shot z2 = ?snap" "attention_list z2 = attention_list z1" "zc_store z2 = zc_store z1"
    "zc_now z2 = zc_now z1" "tracked_services z2 = tracked_services z1"
    using assms(1) z1(3) by (simp_all add: z2_def create_diff_commands_def Let_def same_rest_def zc_inv_def)
  have o: "only_tracked z2 z3" unfolding z3_def tick_tracker_services_def
    by (simp add: only_tracked_refl only_tracked_fold tick_tracker_only)
  note z3 = only_tracked_keeps [OF o]
  have z4: "commands z4 = ?cs @ (if question_requests z3 = [] then [] else [DnsQueries (question_requests z3)])"
    "last_snap_shot z4 = ?snap" "attention_list z4 = attention_list z1" "zc_store z4 = zc_store z1" "zc_now z4 = zc_now z1"
    "tracked_services z4 = tracked_services z3"
    using z2 z3 by (simp_all add: z4_def convert_dns_query_to_command_def)
  let ?z = "z4\<lparr>commands := []\<rparr>"
  have y: "y = Inr (commands z4, calculate_next_attention_duration os z4, ?z)"
    using assms(3) y1 z1(1) by (simp add: tick_def Let_def z2_def z3_def z4_def)
  have v: "visits (o_ptrs os)" "visits (o_snapshot os)" "visits (o_last os)" using assms(2) by (simp_all add: orders_law_def)
  have wf: "\<forall>s. s |\<in>| fmdom ?snap \<longrightarrow> wf_fq s" using snapshot_wf [OF v(1) z1(2)] by blast
  have wf': "\<forall>s. s |\<in>| fmdom ?old \<longrightarrow> wf_fq s" using assms(1) by (simp add: zc_inv_def)
  note ex = diff_exact [OF v(2,3) wf wf' refl]
  have "tracked_ok z4" using assms(1) z1(3) z2(6) z3(7) z4(6) by (simp add: zc_inv_def tracked_ok_def same_rest_def)
  then have "zc_inv ?z" using z1(2) z4 wf by (simp add: zc_inv_def tracked_ok_def)
  moreover have "due ?z = {}" using z1(4) z4 by (simp add: due_def)
  moreover have "commands_fit (commands z4) (view_of ?old)" "fold apply_command (commands z4) (view_of ?old) = view_of ?snap"
    using ex z4(1) by (simp_all add: commands_fit_append)
  ultimately show ?thesis using y z4 z1(3) by (auto simp: same_rest_def)
qed


lemma in_step_empty: "in_step pq_new new_store"
  by (auto simp: in_step_def rrq.pq.new_law new_store_def or_default_def elim: in_store.elims)

lemma cleared [simp]: "pq_clear q = pq_new" "store_clear st = new_store"
  by (simp_all add: pq_clear_def pq_new_def store_clear_def new_store_def)

lemma on_stop_as_tick:
  "on_stop os z = (case tick os (z\<lparr>attention_list := pq_new, zc_store := new_store\<rparr>) of
     None \<Rightarrow> None | Some (Inl f) \<Rightarrow> Some (Inl f) | Some (Inr (cmds, _, z')) \<Rightarrow> Some (Inr (cmds, z')))"
  by (simp add: on_stop_def)

lemma zc_inv_stopped: "zc_inv z \<Longrightarrow> zc_inv (z\<lparr>attention_list := pq_new, zc_store := new_store\<rparr>)"
  by (simp add: zc_inv_def in_step_empty tracked_ok_def)

lemma zc_inv_new: "zc_inv (new_zero_config now)"
  by (auto simp: zc_inv_def new_zero_config_def in_step_empty track_service_def tracked_ok_def service_types_def)

lemma sys_inv_step: "zc_step s s' \<Longrightarrow> sys_inv s \<Longrightarrow> sys_inv s'"
proof (induction rule: zc_step.induct)
  case (zs_push qs as ad nm z z' v)
  then show ?case using push_records_ok [of z qs as ad nm] by (auto simp: sys_inv_def)
next
  case (zs_tick os z cs d z' v)
  then show ?case using tick_ok [of z os] by (auto simp: sys_inv_def)
next
  case (zs_stop os z cs z' v)
  let ?z = "z\<lparr>attention_list := pq_new, zc_store := new_store\<rparr>"
  from zs_stop(2) obtain d where "tick os ?z = Some (Inr (cs, d, z'))"
    by (auto simp: on_stop_as_tick split: option.splits sum.splits)
  with zs_stop(1,3) show ?case using tick_ok [OF zc_inv_stopped, of z os] by (auto simp: sys_inv_def)
qed (auto simp: sys_inv_def zc_inv_def tracked_ok_def set_time_def set_periodic_refresh_def on_start_def)

lemma sys_inv_init: "zc_init s \<Longrightarrow> sys_inv s"
proof -
  have "last_snap_shot (new_zero_config now) = fmempty" for now by (simp add: new_zero_config_def track_service_def)
  then show "zc_init s \<Longrightarrow> sys_inv s" by (auto simp: zc_init_def sys_inv_def zc_inv_new view_of_def)
qed

interpretation mdns: machine zc_init zc_step sys_inv
  by unfold_locales (fact sys_inv_init, rule sys_inv_step)

subsection \<open>What the server is told\<close>

text \<open>A record that the client holds and that has not expired.\<close>

definition alive :: "zero_config \<Rightarrow> rr_payload \<Rightarrow> bool" where
  "alive z p \<longleftrightarrow> (\<exists>r. held z (payload_key p) = Some r \<and> rr_data r = p \<and> zc_now z < created_on r + ttl r)"

lemma held_alive:
  assumes "in_step_zc z" "due z = {}" "held z k = Some r"
  shows "alive z (rr_data r)" "stored (zc_store z) (rr_data r)" "payload_key (rr_data r) = k"
proof -
  have r: "rr_ok r" "stored (zc_store z) (rr_data r)" using assms(1,3) by (auto simp: in_step_def)
  have inv: "pq_inv rr_key attention_needed_on (attention_list z)" using assms(1) by (simp add: in_step_def)
  have k: "payload_key (rr_data r) = k" using rrq.pq.key_law [OF inv assms(3)] by (simp add: rr_key_def)
  obtain N where "N < 2 ^ 32" "ttl r = N * ns" using r(1) by (auto simp: rr_ok_def whole_ttl_def)
  then have "attention_needed_on r \<le> created_on r + ttl r" using r(1) next_attention_le by (simp add: rr_ok_def)
  moreover have "zc_now z < attention_needed_on r" using assms(2,3) by (auto simp: due_def not_le)
  ultimately show "alive z (rr_data r)" using assms(3) k by (auto simp: alive_def)
  show "stored (zc_store z) (rr_data r)" "payload_key (rr_data r) = k" by (fact r(2) k)+
qed

lemma in_store_alive:
  assumes "in_step_zc z" "due z = {}" "wf_key k" "in_store (zc_store z) k"
  shows "\<exists>p. payload_key p = k \<and> stored (zc_store z) p \<and> alive z p"
proof -
  from assms(1,3,4) obtain r where "held z k = Some r" by (auto simp: in_step_def)
  from held_alive [OF assms(1,2) this] show ?thesis by blast
qed

lemma instance_alive:
  assumes z: "in_step_zc z" "due z = {}" and s: "s |\<in>| ptrs (zc_store z)" "instance_of (zc_store z) s = Some d"
  shows "\<exists>n. alive z (PPTR n s)" "alive z (PSRV s (d_hostname d) (d_port d))"
    "a |\<in>| d_ipv4s d \<Longrightarrow> alive z (PA (d_hostname d) a)" "b |\<in>| d_ipv6s d \<Longrightarrow> alive z (PAAAA (d_hostname d) b)"
    "d_ipv4s d \<noteq> {||} \<or> d_ipv6s d \<noteq> {||}"
proof -
  have wf: "wf_fq s" using z(1) s(1) by (simp add: in_step_def)
  have d: "fmlookup (srvs (zc_store z)) (fq_name s) = Some (d_hostname d, d_port d)"
    "d_ipv4s d = or_default (ipv4s (zc_store z)) (d_hostname d)" "d_ipv6s d = or_default (ipv6s (zc_store z)) (d_hostname d)"
    "d_ipv4s d \<noteq> {||} \<or> d_ipv6s d \<noteq> {||}"
    using s(2) by (auto simp: instance_of_def Let_def split: option.splits if_splits)
  note al = in_store_alive [OF z]
  from al [of "KPTR s"] wf s(1) obtain p where "payload_key p = KPTR s" "alive z p" by auto
  then show "\<exists>n. alive z (PPTR n s)" by (cases p) auto
  from al [of "KSRV s"] wf d(1) obtain p where "payload_key p = KSRV s" "stored (zc_store z) p" "alive z p" by (auto simp: fmdomI)
  then show "alive z (PSRV s (d_hostname d) (d_port d))" using d(1) by (cases p) auto
  show "alive z (PA (d_hostname d) a)" if a: "a |\<in>| d_ipv4s d"
  proof -
    from al [of "KA (d_hostname d) a"] a d(2) obtain p where "payload_key p = KA (d_hostname d) a" "alive z p" by auto
    then show ?thesis by (cases p) auto
  qed
  show "alive z (PAAAA (d_hostname d) b)" if b: "b |\<in>| d_ipv6s d"
  proof -
    from al [of "KAAAA (d_hostname d) b"] b d(3) obtain p where "payload_key p = KAAAA (d_hostname d) b" "alive z p" by auto
    then show ?thesis by (cases p) auto
  qed
  show "d_ipv4s d \<noteq> {||} \<or> d_ipv6s d \<noteq> {||}" by (fact d(4))
qed


lemma attend_loop_diverges:
  assumes "\<And>z. P z \<Longrightarrow> \<exists>e z'. pq_peek (attention_list z) = Some e \<and> attention_needed_on e \<le> zc_now z \<and> attend z = Inr z' \<and> P z'"
    and "P z"
  shows "attend_loop z = None"
proof (rule ccontr)
  assume "attend_loop z \<noteq> None"
  then obtain y where "attend_loop z = Some y" by auto
  then have "\<not> P z"
  proof (rule attend_loop.raw_induct [rotated], goal_cases)
    case (1 f z y)
    show ?case
    proof
      assume "P z"
      from assms(1) [OF this] obtain e z' where
        e: "pq_peek (attention_list z) = Some e" "attention_needed_on e \<le> zc_now z" "attend z = Inr z'" and P: "P z'" by blast
      have "f z' = Some y" using 1(2) e by simp
      with 1(1) P show False by blast
    qed
  qed
  with assms(2) show False by simp
qed

text \<open>A record of nine seconds that is looked at when 8.1 seconds have passed.\<close>

definition stuck_rr :: "rr \<Rightarrow> bool" where
  "stuck_rr r \<longleftrightarrow> created_on r = 0 \<and> ttl r = 9000000000 \<and> attention_needed_on r \<le> 8100000000"

lemma stuck_probed:
  assumes "stuck_rr r"
  shows "Option.bind (live_fraction 8100000000 r) probed_state = Some Probed85" "stuck_rr (probed_rr r Probed85)"
proof -
  have r: "created_on r = 0" "ttl r = 9000000000" using assms by (simp_all only: stuck_rr_def)
  have "live_fraction 8100000000 r = Some (2026619832316723 / 2251799813685248)"
    unfolding live_fraction_def r diff_zero missed_fraction Let_def unfolding lifetime_9 by simp
  then show "Option.bind (live_fraction 8100000000 r) probed_state = Some Probed85" by (simp only: Option.bind.simps missed_state)
  have "attention_needed_on (probed_rr r Probed85) = 8100000000" by (simp add: probed_rr_def r missed_attention del: next_ttl_fraction.simps)
  then show "stuck_rr (probed_rr r Probed85)" using r by (simp add: stuck_rr_def probed_rr_def)
qed

definition stuck :: "zero_config \<Rightarrow> bool" where
  "stuck z \<longleftrightarrow> zc_now z = 8100000000 \<and> (\<exists>r. stuck_rr r \<and> attention_list z = \<lparr>pq_data = [r], pq_index = [rr_key r \<mapsto> 0]\<rparr>)"

lemma push_empty: "pq_push key cmp x pq_new = Inr \<lparr>pq_data = [x], pq_index = [key x \<mapsto> 0]\<rparr>"
  by (simp add: pq_push_def pq_new_def Let_def last_idx_def pq_swim.simps parent_idx_def)

lemma stuck_diverges: "stuck z \<Longrightarrow> attend_loop z = None"
proof (rule attend_loop_diverges [of stuck])
  fix z assume "stuck z"
  then obtain r where r: "zc_now z = 8100000000" "stuck_rr r" "attention_list z = \<lparr>pq_data = [r], pq_index = [rr_key r \<mapsto> 0]\<rparr>"
    unfolding stuck_def by blast
  let ?r = "probed_rr r Probed85" and ?e = "\<lparr>pq_data = [], pq_index = Map.empty\<rparr>"
  let ?z = "create_query_for_record ?r (z\<lparr>attention_list := ?e\<rparr>)\<lparr>attention_list := \<lparr>pq_data = [?r], pq_index = [rr_key ?r \<mapsto> 0]\<rparr>\<rparr>"
  have "pq_pop rr_key cmp_attention (attention_list z) = Inr (Some r, ?e)"
    by (simp add: pq_pop_def r(3) last_idx_def pq_swap_def vec_at_def)
  moreover have "pq_push rr_key cmp_attention ?r ?e = Inr \<lparr>pq_data = [?r], pq_index = [rr_key ?r \<mapsto> 0]\<rparr>"
    using push_empty [of rr_key cmp_attention ?r] by (simp add: pq_new_def)
  ultimately have "attend z = Inr ?z"
    using stuck_probed(1) [OF r(2)] by (simp add: attend_def r(1) create_query_for_record_def Let_def)
  moreover have "stuck ?z" using r(1) stuck_probed(2) [OF r(2)] by (auto simp: stuck_def create_query_for_record_def)
  moreover have "pq_peek (attention_list z) = Some r" "attention_needed_on r \<le> zc_now z" using r by (simp_all add: pq_peek_def stuck_rr_def)
  ultimately show "\<exists>e z'. pq_peek (attention_list z) = Some e \<and> attention_needed_on e \<le> zc_now z \<and> attend z = Inr z' \<and> stuck z'" by blast
qed

lemma tick_returns:
  assumes "zc_inv z" "\<And>r. held z (rr_key r) = Some r \<Longrightarrow> off_boundaries (zc_now z) r"
  shows "\<exists>y. tick os z = Some y"
proof -
  have s: "in_step_zc z" using assms(1) by (simp add: zc_inv_def)
  have "timely (zc_now z) r" if "held z (rr_key r) = Some r" for r
    using off_boundaries_timely [OF _ assms(2) [OF that]] s that by (auto simp: in_step_def rr_ok_def)
  from attend_loop_returns [OF s this] show ?thesis by (auto simp: tick_def Let_def)
qed


text \<open>The packets that the witnesses receive: a service with its pointer, its host and port, and an address.\<close>

definition pixel_name :: dns_name where
  "pixel_name = \<lparr>n_labels = [''pixel'', ''_adb'', ''_tcp'', ''local''], n_text = ''pixel._adb._tcp.local''\<rparr>"

definition host_name :: dns_name where
  "host_name = \<lparr>n_labels = [''pixel'', ''local''], n_text = ''pixel.local''\<rparr>"

definition pixel_records :: "resource_record list" where
  "pixel_records =
     [\<lparr>r_name = \<lparr>n_labels = [''_adb'', ''_tcp'', ''local''], n_text = ''_adb._tcp.local''\<rparr>, r_ttl = 120, r_rdata = RPTR pixel_name\<rparr>,
      \<lparr>r_name = pixel_name, r_ttl = 120, r_rdata = RSRV host_name 5555\<rparr>,
      \<lparr>r_name = host_name, r_ttl = 120, r_rdata = RA 3232235777\<rparr>]"


text \<open>One order of visit: sorted.\<close>

definition sorted_names :: "fq_service_name fset \<Rightarrow> fq_service_name list" where
  "sorted_names S =
     map (\<lambda>(i, t, w, d). \<lparr>instance_name = i, service_type = t, service_type_with_local = w, local_domain = d\<rparr>)
       (sorted_list_of_fset ((\<lambda>s. (instance_name s, service_type s, service_type_with_local s, local_domain s)) |`| S))"

definition sorted_orders :: orders where
  "sorted_orders = \<lparr>o_ptrs = sorted_names, o_snapshot = sorted_names, o_last = sorted_names, o_tracked = sorted_list_of_fset\<rparr>"

lemma sorted_orders_law: "orders_law sorted_orders"
proof -
  have eta: "\<lparr>instance_name = instance_name s, service_type = service_type s,
      service_type_with_local = service_type_with_local s, local_domain = local_domain s\<rparr> = s" for s by simp
  have "visits sorted_names" unfolding visits_def sorted_names_def
    by (auto simp: distinct_map sorted_list_of_fset.rep_eq image_image inj_on_def eta)
  moreover have "visits (sorted_list_of_fset :: string fset \<Rightarrow> string list)"
    by (simp add: visits_def sorted_list_of_fset.rep_eq)
  ultimately show ?thesis by (simp add: orders_law_def sorted_orders_def)
qed

definition pixel_seen :: "nat \<Rightarrow> zero_config \<Rightarrow> bool" where
  "pixel_seen now z \<longleftrightarrow> (\<exists>z1. push_records [] pixel_records [] [] (new_zero_config 0) = Inr z1 \<and> z = set_time now z1)"

lemma pixel_reachable: "pixel_seen now z \<Longrightarrow> reachable zc_init zc_step (z, Map.empty)"
proof -
  assume "pixel_seen now z"
  then obtain z1 where z1: "push_records [] pixel_records [] [] (new_zero_config 0) = Inr z1" "z = set_time now z1" by (auto simp: pixel_seen_def)
  have "reachable zc_init zc_step (new_zero_config 0, Map.empty)" by (rule reachable_init) (auto simp: zc_init_def)
  from reachable_step [OF this zs_push [OF z1(1)]] show ?thesis unfolding z1(2) by (rule reachable_step) (rule zs_time)
qed

lemma pixel_held:
  assumes "pixel_seen now z" "held z k = Some r"
  shows "\<exists>p. r = new_rr 0 (from_secs 120) p"
proof -
  obtain z1 where z1: "push_records [] pixel_records [] [] (new_zero_config 0) = Inr z1" "z = set_time now z1"
    using assms(1) by (auto simp: pixel_seen_def)
  have "held (new_zero_config 0) k = None" "zc_now (new_zero_config 0) = 0"
    by (simp_all add: new_zero_config_def track_service_def rrq.pq.new_law)
  moreover from push_records_ok [OF zc_inv_new, of "[]" pixel_records "[]" "[]" 0] z1(1)
  have "held_or_new (new_zero_config 0) pixel_records z1" by auto
  ultimately show ?thesis
    using assms(2) by (fastforce simp: z1(2) set_time_def held_or_new_def pixel_records_def)
qed

lemma pixel_now: "pixel_seen now z \<Longrightarrow> zc_now z = now"
  by (auto simp: pixel_seen_def set_time_def)

lemma pixel_off_boundaries: "pixel_seen 5000000000 z \<Longrightarrow> held z k = Some r \<Longrightarrow> off_boundaries (zc_now z) r"
  using pixel_held [of 5000000000 z k r] by (auto simp: off_boundaries_def pixel_now new_rr_def from_secs_def)

lemma pixel_exists: "\<exists>z. pixel_seen now z"
  using push_records_ok [OF zc_inv_new] unfolding pixel_seen_def by metis

lemma pixel_tick: "pixel_seen 5000000000 z \<Longrightarrow> \<exists>y. tick sorted_orders z = Some y"
  using tick_returns pixel_off_boundaries mdns.reachable_inv [OF pixel_reachable] unfolding sys_inv_def by (metis fst_conv)


lemma process_records_store:
  "process_records rs z = Inr z' \<Longrightarrow> zc_store z' = fold store_add (List.map_filter (record_payload z) rs) (zc_store z)"
proof (induction rs arbitrary: z)
  case (Cons r rs)
  show ?case
  proof (cases "record_payload z r")
    case (Some p)
    with Cons.prems obtain z1 where z1: "add_rr (new_rr (zc_now z) (from_secs (r_ttl r)) p) z = Inr z1" "process_records rs z1 = Inr z'"
      by (auto simp: rbind_eq_Inr)
    then have s: "zc_store z1 = store_add p (zc_store z)" "tracked_services z1 = tracked_services z"
      by (auto simp: add_rr_def rbind_eq_Inr new_rr_def)
    then have "record_payload z1 = record_payload z"
      by (auto simp: record_payload_def tracked_name_def is_tracked_def fun_eq_iff split: rdata.split option.split)
    with Cons.IH [OF z1(2)] s Some show ?thesis by (simp add: map_filter_simps)
  qed (use Cons in \<open>simp add: map_filter_simps\<close>)
qed (simp add: map_filter_simps)

lemma attend_loop_idle:
  assumes "in_step_zc z" "due z = {}"
  shows "attend_loop z = Some (Inr z)"
proof (cases "pq_peek (attention_list z)")
  case (Some e)
  have "pq_inv rr_key attention_needed_on (attention_list z)" using assms(1) by (simp add: in_step_def)
  from rrq.pq.peek_law [OF this Some] have "held z (rr_key e) = Some e" by blast
  then have "zc_now z < attention_needed_on e" using assms(2) by (auto simp: due_def not_le)
  with Some show ?thesis by (subst attend_loop.simps) simp
qed (subst attend_loop.simps, simp)

lemma tick_store:
  assumes "attend_loop z = Some (Inr z1)" "tick os z = Some (Inr (cs, d, z'))"
  shows "zc_store z' = zc_store z1"
proof -
  let ?c = "create_diff_commands os z1"
  have "only_tracked ?c (tick_tracker_services os ?c)"
    unfolding tick_tracker_services_def by (simp add: only_tracked_refl only_tracked_fold tick_tracker_only)
  from only_tracked_keeps(2) [OF this] show ?thesis
    using assms by (auto simp: tick_def Let_def convert_dns_query_to_command_def create_diff_commands_def split: if_splits)
qed

lemma on_stop_ok:
  assumes "zc_inv z" "orders_law os"
  shows "\<exists>cs z'. on_stop os z = Some (Inr (cs, z')) \<and> commands_fit cs (view_of (last_snap_shot z))
     \<and> fold apply_command cs (view_of (last_snap_shot z)) = Map.empty"
proof -
  let ?z = "z\<lparr>attention_list := pq_new, zc_store := new_store\<rparr>"
  have inv: "zc_inv ?z" using assms(1) by (rule zc_inv_stopped)
  have l: "attend_loop ?z = Some (Inr ?z)" by (subst attend_loop.simps) (simp add: pq_peek_def pq_new_def)
  then obtain y where y: "tick os ?z = Some y" by (auto simp: tick_def Let_def)
  from tick_ok [OF inv assms(2) y] obtain cs d z' where
    t: "y = Inr (cs, d, z')" "last_snap_shot z' = snapshot (o_ptrs os) (zc_store z')" "commands_fit cs (view_of (last_snap_shot z))"
      "fold apply_command cs (view_of (last_snap_shot z)) = view_of (last_snap_shot z')" by auto
  have "zc_store z' = new_store" using tick_store [OF l] y t(1) by simp
  then have "view_of (last_snap_shot z') = Map.empty"
    using assms(2) by (auto simp: t(2) view_of_def fmlookup_snapshot orders_law_def new_store_def)
  with y t show ?thesis by (simp add: on_stop_as_tick)
qed

lemma stuck_new: "stuck_rr (new_rr 0 9000000000 p)"
  by (simp add: stuck_rr_def new_rr_def first_attention)


lemma minutes_attention: "next_attention 0 (from_secs 120) Created = 96000000000"
proof -
  have s: "as_secs_f64 120000000000 = 120" using as_secs_whole [of 120] by simp
  have f: "next_ttl_fraction Created = 3602879701896397 / 4503599627370496"
    unfolding next_ttl_fraction.simps by (fact rounded_decimals(2))
  have g: "f64 (as_secs_f64 120000000000 * next_ttl_fraction Created) = 96"
    unfolding f s using f64_quotient [of 4503599627370496 432345564227567640 46 6755399441055744] by simp
  have t: "from_secs 120 = 120000000000" by (simp add: from_secs_def)
  have "rne (96 * 1000000000) = 96000000000" by (rule rne_near) simp
  then show ?thesis unfolding t next_attention_def from_secs_f64_def g by simp
qed

lemma pixel_payloads:
  "List.map_filter (record_payload (new_zero_config 0)) pixel_records =
     [PPTR ''_adb._tcp.local'' (new_fq ''pixel'' ''_adb._tcp'' ''local''),
      PSRV (new_fq ''pixel'' ''_adb._tcp'' ''local'') ''pixel.local'' 5555, PA ''pixel.local'' 3232235777]"
  by (simp add: map_filter_simps pixel_records_def record_payload_def tracked_name_def fq_of_name_def pixel_name_def host_name_def
      is_tracked_def new_fq_def new_zero_config_def track_service_def TCP_CONNECT_SERVICE_def)

lemma pixel_told:
  assumes "pixel_seen 5000000000 z" "tick sorted_orders z = Some y"
  shows "\<exists>cs w z' d. y = Inr (cs, w, z') \<and> fold apply_command cs Map.empty (''pixel'', ''_adb._tcp'') = Some d
     \<and> d_hostname d = ''pixel.local'' \<and> d_port d = 5555 \<and> d_ipv4s d = {|3232235777|}"
proof -
  have r: "reachable zc_init zc_step (z, Map.empty)" using assms(1) by (rule pixel_reachable)
  have inv: "zc_inv z" "Map.empty = view_of (last_snap_shot z)" using mdns.reachable_inv [OF r] by (simp_all add: sys_inv_def)
  then have s: "in_step_zc z" by (simp add: zc_inv_def)
  have "due z = {}"
    by (auto simp: due_def pixel_now [OF assms(1)] new_rr_def minutes_attention dest!: pixel_held [OF assms(1)])
  note l = attend_loop_idle [OF s this]
  from tick_ok [OF inv(1) sorted_orders_law assms(2)] inv(2) obtain cs w z' where
    y: "y = Inr (cs, w, z')" "fold apply_command cs Map.empty = view_of (snapshot sorted_names (zc_store z'))"
    by (auto simp: sorted_orders_def)
  have "zc_store z' = zc_store z" using tick_store [OF l] assms(2) y(1) by simp
  also have "pixel_records \<noteq> []" by (simp add: pixel_records_def)
  then obtain z1 where z1: "process_records pixel_records (new_zero_config 0) = Inr z1" "zc_store z = zc_store z1"
    using assms(1) by (auto simp: pixel_seen_def push_records_def process_queries_def set_time_def)
  note z1(2)
  also note process_records_store [OF z1(1)]
  finally have st: "zc_store z' = fold store_add [PPTR ''_adb._tcp.local'' (new_fq ''pixel'' ''_adb._tcp'' ''local''),
      PSRV (new_fq ''pixel'' ''_adb._tcp'' ''local'') ''pixel.local'' 5555, PA ''pixel.local'' 3232235777] new_store"
    unfolding pixel_payloads by (simp add: new_zero_config_def track_service_def)
  have "visits sorted_names" using sorted_orders_law by (simp add: orders_law_def sorted_orders_def)
  then have "fold apply_command cs Map.empty (''pixel'', ''_adb._tcp'') = instance_of (zc_store z') (new_fq ''pixel'' ''_adb._tcp'' ''local'')"
    unfolding y(2) by (simp add: view_of_def fmlookup_snapshot st new_store_def)
  then show ?thesis using y(1) by (simp add: instance_of_def st new_store_def or_default_def set_add_def)
qed

subsection \<open>Properties\<close>

text \<open>
  C12: the commands of every tick that returns are exact. Whatever packets came, in whatever order the hash
  tables are visited, and at whatever times the client was run, a tick does not panic; it creates only
  services that the server does not know, updates only services that it knows with other details, and deletes
  only services that it knows; and then the services that the server knows are those that the store has a
  pointer, a host, a port and an address for, with the details of the store. After a stop it knows none.
\<close>

theorem mdns_commands_exact:
  assumes "reachable zc_init zc_step (z, v)" "orders_law os"
  shows "(tick os z = Some y \<longrightarrow>
       (\<exists>cs d z'. y = Inr (cs, d, z') \<and> commands_fit cs v
          \<and> (\<forall>i t. fold apply_command cs v (i, t) =
               (if new_fq i t ''local'' |\<in>| ptrs (zc_store z') then instance_of (zc_store z') (new_fq i t ''local'') else None))))
    \<and> (\<exists>cs z'. on_stop os z = Some (Inr (cs, z')) \<and> commands_fit cs v \<and> fold apply_command cs v = Map.empty)"
proof
  have inv: "zc_inv z" "v = view_of (last_snap_shot z)" using mdns.reachable_inv [OF assms(1)] by (simp_all add: sys_inv_def)
  have vis: "visits (o_ptrs os)" using assms(2) by (simp add: orders_law_def)
  show "tick os z = Some y \<longrightarrow>
       (\<exists>cs d z'. y = Inr (cs, d, z') \<and> commands_fit cs v
          \<and> (\<forall>i t. fold apply_command cs v (i, t) =
               (if new_fq i t ''local'' |\<in>| ptrs (zc_store z') then instance_of (zc_store z') (new_fq i t ''local'') else None)))"
  proof
    assume "tick os z = Some y"
    from tick_ok [OF inv(1) assms(2) this] obtain cs d z' where
      "y = Inr (cs, d, z')" "commands_fit cs v" "fold apply_command cs v = view_of (snapshot (o_ptrs os) (zc_store z'))" using inv(2) by auto
    moreover from this(3) have "fold apply_command cs v (i, t) =
               (if new_fq i t ''local'' |\<in>| ptrs (zc_store z') then instance_of (zc_store z') (new_fq i t ''local'') else None)" for i t
      by (simp add: view_of_def fmlookup_snapshot [OF vis])
    ultimately show "\<exists>cs d z'. y = Inr (cs, d, z') \<and> commands_fit cs v
          \<and> (\<forall>i t. fold apply_command cs v (i, t) =
               (if new_fq i t ''local'' |\<in>| ptrs (zc_store z') then instance_of (zc_store z') (new_fq i t ''local'') else None))" by blast
  qed
  show "\<exists>cs z'. on_stop os z = Some (Inr (cs, z')) \<and> commands_fit cs v \<and> fold apply_command cs v = Map.empty"
    using on_stop_ok [OF inv(1) assms(2)] inv(2) by simp
qed

theorem mdns_commands_exact_witness:
  "\<exists>z y. pixel_seen 5000000000 z \<and> tick sorted_orders z = Some y \<and>
     (\<exists>cs d z'. y = Inr (cs, d, z') \<and> commands_fit cs Map.empty
        \<and> (\<forall>i t. fold apply_command cs Map.empty (i, t) =
             (if new_fq i t ''local'' |\<in>| ptrs (zc_store z') then instance_of (zc_store z') (new_fq i t ''local'') else None)))"
proof -
  obtain z where z: "pixel_seen 5000000000 z" using pixel_exists by blast
  from pixel_tick [OF this] obtain y where "tick sorted_orders z = Some y" by blast
  with mdns_commands_exact [OF pixel_reachable [OF z] sorted_orders_law, of y] z show ?thesis by blast
qed

text \<open>
  C13: every service that the server knows after a tick is alive. The client holds, at that time, a record of
  each kind that the service is made of (its pointer, its host and port, and each of its addresses, of which
  there is at least one) that has not outlived the lifetime it was received with.
\<close>

theorem mdns_services_live:
  assumes "reachable zc_init zc_step (z, v)" "orders_law os" "tick os z = Some (Inr (cs, w, z'))"
    and "fold apply_command cs v (i, t) = Some d"
  shows "(\<exists>n. alive z' (PPTR n (new_fq i t ''local''))) \<and> alive z' (PSRV (new_fq i t ''local'') (d_hostname d) (d_port d))
    \<and> (\<forall>a. a |\<in>| d_ipv4s d \<longrightarrow> alive z' (PA (d_hostname d) a)) \<and> (\<forall>a. a |\<in>| d_ipv6s d \<longrightarrow> alive z' (PAAAA (d_hostname d) a))
    \<and> (d_ipv4s d \<noteq> {||} \<or> d_ipv6s d \<noteq> {||}) \<and> zc_now z' = zc_now z"
proof -
  let ?s = "new_fq i t ''local''"
  have inv: "zc_inv z" "v = view_of (last_snap_shot z)" using mdns.reachable_inv [OF assms(1)] by (simp_all add: sys_inv_def)
  have vis: "visits (o_ptrs os)" using assms(2) by (simp add: orders_law_def)
  from tick_ok [OF inv(1) assms(2,3)] inv(2) have z': "zc_inv z'" "due z' = {}" "zc_now z' = zc_now z"
    "fold apply_command cs v = view_of (snapshot (o_ptrs os) (zc_store z'))" by auto
  then have s: "?s |\<in>| ptrs (zc_store z')" "instance_of (zc_store z') ?s = Some d"
    using assms(4) by (simp_all add: view_of_def fmlookup_snapshot [OF vis] split: if_splits)
  have "in_step_zc z'" using z'(1) by (simp add: zc_inv_def)
  from instance_alive [OF this z'(2) s] z'(3) show ?thesis by blast
qed

theorem mdns_services_live_witness:
  "\<exists>z cs w z' d. pixel_seen 5000000000 z \<and> tick sorted_orders z = Some (Inr (cs, w, z'))
     \<and> fold apply_command cs Map.empty (''pixel'', ''_adb._tcp'') = Some d
     \<and> alive z' (PSRV (new_fq ''pixel'' ''_adb._tcp'' ''local'') ''pixel.local'' 5555) \<and> alive z' (PA ''pixel.local'' 3232235777)"
proof -
  obtain z where z: "pixel_seen 5000000000 z" using pixel_exists by blast
  from pixel_tick [OF this] obtain y where y: "tick sorted_orders z = Some y" by blast
  from pixel_told [OF z this] obtain cs w z' d where
    t: "y = Inr (cs, w, z')" "fold apply_command cs Map.empty (''pixel'', ''_adb._tcp'') = Some d"
      "d_hostname d = ''pixel.local''" "d_port d = 5555" "d_ipv4s d = {|3232235777|}" by blast
  from mdns_services_live [OF pixel_reachable [OF z] sorted_orders_law y [unfolded t(1)] t(2)] t z y show ?thesis by auto
qed

text \<open>
  C14: the client never fails on a packet, and its ticks return. Packets of any content, and stops, are
  handled without a panic; and a tick returns whenever no held record has an age within two microseconds of
  85, 90 or 95 percent of its lifetime.
\<close>

theorem mdns_tick_returns:
  assumes "reachable zc_init zc_step (z, v)" "orders_law os"
  shows "(\<exists>z'. push_records qs as ad nm z = Inr z') \<and> (\<exists>cs z'. on_stop os z = Some (Inr (cs, z')))
    \<and> ((\<forall>k r. held z k = Some r \<longrightarrow> off_boundaries (zc_now z) r) \<longrightarrow> (\<exists>cs d z'. tick os z = Some (Inr (cs, d, z'))))"
proof -
  have inv: "zc_inv z" using mdns.reachable_inv [OF assms(1)] by (simp add: sys_inv_def)
  have "\<exists>cs d z'. tick os z = Some (Inr (cs, d, z'))" if "\<forall>k r. held z k = Some r \<longrightarrow> off_boundaries (zc_now z) r"
    using tick_returns [OF inv, of os] that tick_ok [OF inv assms(2)] by blast
  then show ?thesis using push_records_ok [OF inv, of qs as ad nm] on_stop_ok [OF inv assms(2)] by blast
qed

theorem mdns_tick_returns_witness:
  "\<exists>z. pixel_seen 5000000000 z \<and> (\<exists>cs d z'. tick sorted_orders z = Some (Inr (cs, d, z')))"
proof -
  obtain z where z: "pixel_seen 5000000000 z" using pixel_exists by blast
  with mdns_tick_returns [OF pixel_reachable [OF z] sorted_orders_law] pixel_off_boundaries [OF z] show ?thesis by blast
qed

text \<open>
  C37: without that condition a tick may never return. A client that received one address with a lifetime of
  nine seconds and is run exactly 8.1 seconds later takes the record out of its queue, finds it by its rounded
  age not yet at 90 percent, and puts it back for the same instant, for ever.
\<close>

theorem mdns_tick_diverges:
  "\<exists>z v. reachable zc_init zc_step (z, v) \<and> zc_now z = 8100000000 \<and> (\<forall>os. tick os z = None)"
proof -
  let ?r = "\<lparr>r_name = host_name, r_ttl = 9, r_rdata = RA 3232235777\<rparr>"
  let ?rr = "new_rr 0 9000000000 (PA ''pixel.local'' 3232235777)"
  have "record_payload (new_zero_config 0) ?r = Some (PA ''pixel.local'' 3232235777)"
    by (simp add: record_payload_def host_name_def)
  moreover have "from_secs 9 = 9000000000" "zc_now (new_zero_config 0) = 0" "attention_list (new_zero_config 0) = pq_new"
    by (simp_all add: from_secs_def new_zero_config_def track_service_def)
  ultimately obtain z where z: "push_records [] [?r] [] [] (new_zero_config 0) = Inr z" "zc_now z = 0"
      "attention_list z = \<lparr>pq_data = [?rr], pq_index = [rr_key ?rr \<mapsto> 0]\<rparr>"
    by (simp add: push_records_def process_queries_def add_rr_def push_empty Let_def)
  let ?z = "set_time 8100000000 z"
  have "reachable zc_init zc_step (new_zero_config 0, Map.empty)" by (rule reachable_init) (auto simp: zc_init_def)
  from reachable_step [OF reachable_step [OF this zs_push [OF z(1)]] zs_time [of z Map.empty 8100000000]]
  have "reachable zc_init zc_step (?z, Map.empty)" .
  moreover have "stuck_rr ?rr" by (rule stuck_new)
  then have "stuck ?z" using z(3) by (auto simp: stuck_def set_time_def)
  then have "tick os ?z = None" for os by (simp add: tick_def stuck_diverges)
  moreover have "zc_now ?z = 8100000000" by (simp add: set_time_def)
  ultimately show ?thesis by blast
qed

text \<open>
  C16: what the client stores and tells is well typed. Every record it holds is filed under its own key, every
  service name in a record and every service that the server knows is of one of the three tracked types in
  the domain \<open>local\<close>, and every lifetime is a whole number of seconds of 32 bits.
\<close>

theorem mdns_well_typed:
  assumes "reachable zc_init zc_step (z, v)"
  shows "(\<forall>k r. held z k = Some r \<longrightarrow> payload_key (rr_data r) = k \<and> wf_payload (rr_data r) \<and> whole_ttl r)
    \<and> (\<forall>i t. v (i, t) \<noteq> None \<longrightarrow> t \<in> {TLS_CONNECT_SERVICE, TLS_PAIRING_SERVICE, TCP_CONNECT_SERVICE})"
proof (intro conjI allI impI)
  have inv: "zc_inv z" "v = view_of (last_snap_shot z)" using mdns.reachable_inv [OF assms] by (simp_all add: sys_inv_def)
  then have s: "in_step_zc z" by (simp add: zc_inv_def)
  fix k r assume r: "held z k = Some r"
  have "pq_inv rr_key attention_needed_on (attention_list z)" using s by (simp add: in_step_def)
  from rrq.pq.key_law [OF this r] show "payload_key (rr_data r) = k" by (simp add: rr_key_def)
  show "wf_payload (rr_data r)" "whole_ttl r" using s r by (auto simp: in_step_def rr_ok_def)
next
  have inv: "zc_inv z" "v = view_of (last_snap_shot z)" using mdns.reachable_inv [OF assms] by (simp_all add: sys_inv_def)
  fix i t assume "v (i, t) \<noteq> None"
  then have "new_fq i t ''local'' |\<in>| fmdom (last_snap_shot z)" using inv(2) by (simp add: view_of_def fmlookup_dom_iff)
  then have "wf_fq (new_fq i t ''local'')" using inv(1) by (simp add: zc_inv_def)
  then show "t \<in> {TLS_CONNECT_SERVICE, TLS_PAIRING_SERVICE, TCP_CONNECT_SERVICE}"
    by (auto simp: wf_fq_def new_fq_def service_types_def)
qed

theorem mdns_well_typed_witness:
  "\<exists>z. pixel_seen 5000000000 z \<and> (\<forall>k r. held z k = Some r \<longrightarrow> payload_key (rr_data r) = k \<and> wf_payload (rr_data r) \<and> whole_ttl r)"
proof -
  obtain z where z: "pixel_seen 5000000000 z" using pixel_exists by blast
  with mdns_well_typed [OF pixel_reachable [OF z]] show ?thesis by blast
qed

end
