(* ===== verification/Adb_Prog.thy ===== *)
theory Adb_Prog
  imports Adb_Prelude
begin

text \<open>
  Programs that may also not return: \<open>None\<close> is a run that does not end (a loop for ever, or a system call
  that is still waiting), \<open>Some (Inl f)\<close> one that stops with a fault. The monad of such results, and what
  \<open>partial_function\<close> needs to know about it.
\<close>

type_synonym 'a prog = "'a result option"

definition pret :: "'a \<Rightarrow> 'a prog" where
  "pret x = Some (Inr x)"

definition pbind :: "'a prog \<Rightarrow> ('a \<Rightarrow> 'b prog) \<Rightarrow> 'b prog" where
  "pbind m f = (case m of None \<Rightarrow> None | Some (Inl e) \<Rightarrow> Some (Inl e) | Some (Inr x) \<Rightarrow> f x)"

lemma pbind_simps [simp]:
  "pbind None f = None" "pbind (Some (Inl e)) f = Some (Inl e)" "pbind (Some (Inr x)) f = f x" "pbind (pret x) f = f x"
  by (simp_all add: pbind_def pret_def)

lemma pret_eq [simp]: "pret x = Some (Inr y) \<longleftrightarrow> x = y" "pret x = pret y \<longleftrightarrow> x = y" "pret x \<noteq> None" "Some (Inr y) = pret x \<longleftrightarrow> x = y"
  by (auto simp: pret_def)

lemma pbind_cong [fundef_cong]:
  "m = m' \<Longrightarrow> (\<And>x. m' = Some (Inr x) \<Longrightarrow> f x = f' x) \<Longrightarrow> pbind m f = pbind m' f'"
  by (auto simp: pbind_def split: option.split sum.split)

lemma pbind_eq_Inr: "pbind m f = Some (Inr y) \<longleftrightarrow> (\<exists>x. m = Some (Inr x) \<and> f x = Some (Inr y))"
  by (auto simp: pbind_def split: option.splits sum.splits)

lemma pbind_assoc: "pbind (pbind m f) g = pbind m (\<lambda>x. pbind (f x) g)"
  by (auto simp: pbind_def split: option.splits sum.splits)

lemma pbind_mono [partial_function_mono]:
  fixes B :: "('d \<Rightarrow> 'e option) \<Rightarrow> 'x prog" and C :: "'x \<Rightarrow> ('d \<Rightarrow> 'e option) \<Rightarrow> 'y prog"
  assumes "mono_option B" "\<And>y. mono_option (\<lambda>f. C y f)"
  shows "mono_option (\<lambda>f. pbind (B f) (\<lambda>y. C y f))"
proof (rule monotoneI)
  fix f g :: "'d \<Rightarrow> 'e option" assume fg: "option.le_fun f g"
  have 1: "option_ord (B f) (B g)" using assms(1) fg by (simp add: monotone_def)
  have 2: "option_ord (C y f) (C y g)" for y using assms(2) [of y] fg by (simp add: monotone_def)
  show "option_ord (pbind (B f) (\<lambda>y. C y f)) (pbind (B g) (\<lambda>y. C y g))"
  proof (cases "B f")
    case None
    then show ?thesis by (simp add: flat_ord_def)
  next
    case (Some r)
    then have "B g = Some r" using 1 by (auto simp: flat_ord_def)
    with Some 2 show ?thesis by (cases r) (auto simp: flat_ord_def)
  qed
qed

text \<open>A run that ends well, or with a fault that is allowed, if it ends.\<close>

definition runs :: "fault set \<Rightarrow> ('a \<Rightarrow> bool) \<Rightarrow> 'a prog \<Rightarrow> bool" where
  "runs F Q m \<longleftrightarrow> (case m of None \<Rightarrow> True | Some (Inl e) \<Rightarrow> e \<in> F | Some (Inr x) \<Rightarrow> Q x)"

lemma runs_simps [simp]:
  "runs F Q None" "runs F Q (Some (Inl e)) \<longleftrightarrow> e \<in> F" "runs F Q (Some (Inr x)) \<longleftrightarrow> Q x" "runs F Q (pret x) \<longleftrightarrow> Q x"
  by (simp_all add: runs_def pret_def)

lemma runs_pbind: "runs F P m \<Longrightarrow> (\<And>x. P x \<Longrightarrow> runs F Q (f x)) \<Longrightarrow> runs F Q (pbind m f)"
  by (cases m; cases "the m") auto

lemma runs_mono: "runs F P m \<Longrightarrow> (\<And>x. P x \<Longrightarrow> Q x) \<Longrightarrow> runs F Q m"
  by (auto simp: runs_def split: option.splits sum.splits)

end
