(* ===== verification/Compression.thy ===== *)
theory Compression
  imports IOVec Adb_Prog
begin

text \<open>
  The decoders and encoders of \<open>compression_utils.h\<close>, through which file data pass: the null codec and the
  wrappers of Brotli, LZ4 and Zstd. The libraries are a record of their stream functions: each takes its
  state and what it may read and write, and gives its return value, how much it consumed, what it wrote, and
  its new state. A virtual call is a case distinction on the compression type.
\<close>

subsection \<open>Results, libraries and states\<close>

datatype CompressionType = CT_None | CT_Any | CT_Brotli | CT_LZ4 | CT_Zstd

datatype DecodeResult = DR_Error | DR_Done | DR_NeedInput | DR_MoreOutput
datatype EncodeResult = ER_Error | ER_Done | ER_NeedInput | ER_MoreOutput

datatype BrotliDecoderResult = BD_SUCCESS | BD_ERROR | BD_NEEDS_MORE_INPUT | BD_NEEDS_MORE_OUTPUT

text \<open>A library error code (\<open>LZ4F_isError\<close>, \<open>ZSTD_isError\<close>) is \<open>None\<close>.\<close>

record 'l codecs =
  BrotliDecoderCreate :: 'l
  BrotliDecoderDecompressStream :: "'l \<Rightarrow> bytes \<Rightarrow> nat \<Rightarrow> BrotliDecoderResult \<times> nat \<times> bytes \<times> 'l"
  BrotliEncoderCreate :: 'l
  BrotliEncoderCompressStream :: "'l \<Rightarrow> bool \<Rightarrow> bytes \<Rightarrow> nat \<Rightarrow> bool \<times> nat \<times> bytes \<times> 'l"
  BrotliEncoderIsFinished :: "'l \<Rightarrow> bool"
  LZ4F_createDecompressionContext :: "'l option"
  LZ4F_decompress :: "'l \<Rightarrow> nat \<Rightarrow> bytes \<Rightarrow> nat option \<times> nat \<times> bytes \<times> 'l"
  LZ4F_createCompressionContext :: "'l option"
  LZ4F_compressBegin :: "'l \<Rightarrow> bytes option \<times> 'l"
  LZ4F_compressUpdate :: "'l \<Rightarrow> bytes \<Rightarrow> bytes option \<times> 'l"
  LZ4F_compressEnd :: "'l \<Rightarrow> bytes option \<times> 'l"
  ZSTD_createDStream :: "'l option"
  ZSTD_decompressStream :: "'l \<Rightarrow> nat \<Rightarrow> bytes \<Rightarrow> nat option \<times> nat \<times> bytes \<times> 'l"
  ZSTD_createCStream :: "'l option"
  ZSTD_compressStream2 :: "'l \<Rightarrow> bool \<Rightarrow> nat \<Rightarrow> bytes \<Rightarrow> nat option \<times> nat \<times> bytes \<times> 'l"

text \<open>
  \<open>d_done\<close> is \<open>lz4_done_\<close> or \<open>zstd_done_\<close>. In an encoder \<open>e_block\<close> is what \<open>output_block_\<close> of Brotli
  holds so far, and \<open>e_out\<close> the \<open>output_buffer_\<close> of LZ4.
\<close>

record 'l decoder =
  d_finished :: bool
  d_input :: iovector
  d_room :: nat
  d_lib :: 'l
  d_done :: bool

record 'l encoder =
  e_finished :: bool
  e_input :: iovector
  e_size :: nat
  e_lib :: 'l
  e_block :: bytes
  e_left :: nat
  e_out :: iovector
  e_final :: bool

definition Decoder_Append :: "block \<Rightarrow> 'l decoder \<Rightarrow> 'l decoder" where
  "Decoder_Append b d = d\<lparr>d_input := iov_append (d_input d) b\<rparr>"

definition Decoder_Finish :: "'l decoder \<Rightarrow> 'l decoder result" where
  "Decoder_Finish d = (if d_finished d then Inl Fatal else Inr (d\<lparr>d_finished := True\<rparr>))"

definition Encoder_Append :: "block \<Rightarrow> 'l encoder \<Rightarrow> 'l encoder" where
  "Encoder_Append b e = e\<lparr>e_input := iov_append (e_input e) b\<rparr>"

definition Encoder_Finish :: "'l encoder \<Rightarrow> 'l encoder result" where
  "Encoder_Finish e = (if e_finished e then Inl Fatal else Inr (e\<lparr>e_finished := True\<rparr>))"

definition new_decoder :: "nat \<Rightarrow> 'l \<Rightarrow> 'l decoder" where
  "new_decoder n l = \<lparr>d_finished = False, d_input = iov_empty, d_room = n, d_lib = l, d_done = False\<rparr>"

definition new_encoder :: "nat \<Rightarrow> 'l \<Rightarrow> 'l encoder" where
  "new_encoder n l =
     \<lparr>e_finished = False, e_input = iov_empty, e_size = n, e_lib = l, e_block = [], e_left = n, e_out = iov_empty, e_final = False\<rparr>"

text \<open>The first block of the input, as a pointer and a length.\<close>

definition front_input :: "iovector \<Rightarrow> bytes result" where
  "front_input v =
     rbind (iov_front_size v) (\<lambda>n. rbind (iov_front_data v) (\<lambda>p. Inr (case p of None \<Rightarrow> [] | Some bs \<Rightarrow> take n bs)))"

subsection \<open>The null codec\<close>

text \<open>The loop that both directions share: fill the room from the front of the input.\<close>

partial_function (option) null_fill :: "nat \<Rightarrow> iovector \<Rightarrow> bytes \<Rightarrow> (nat \<times> iovector \<times> bytes) prog" where
  "null_fill available_out v out =
     (if 0 < available_out \<and> iov_size v \<noteq> 0
      then pbind (Some (front_input v)) (\<lambda>front.
             let len = min available_out (length front)
             in pbind (Some (iov_drop_front len v)) (\<lambda>v'. null_fill (available_out - len) v' (out @ take len front)))
      else pret (available_out, v, out))"

definition NullDecoder_Decode :: "'l decoder \<Rightarrow> (DecodeResult \<times> bytes \<times> 'l decoder) prog" where
  "NullDecoder_Decode d =
     pbind (null_fill (d_room d) (d_input d) []) (\<lambda>(_, v, out).
       pret (if iov_size v = 0 then if d_finished d then DR_Done else DR_NeedInput else DR_MoreOutput,
             out, d\<lparr>d_input := v\<rparr>))"

definition NullEncoder_Encode :: "'l encoder \<Rightarrow> (EncodeResult \<times> bytes \<times> 'l encoder) prog" where
  "NullEncoder_Encode e =
     pbind (null_fill (e_size e) (e_input e) []) (\<lambda>(_, v, out).
       pret (if iov_size v = 0 then if e_finished e then ER_Done else ER_NeedInput else ER_MoreOutput,
             out, e\<lparr>e_input := v\<rparr>))"

subsection \<open>Brotli\<close>

definition BrotliDecoder_Decode :: "'l codecs \<Rightarrow> 'l decoder \<Rightarrow> (DecodeResult \<times> bytes \<times> 'l decoder) result" where
  "BrotliDecoder_Decode C d =
     rbind (front_input (d_input d)) (\<lambda>front.
       case BrotliDecoderDecompressStream C (d_lib d) front (d_room d) of
         (r, bytes_consumed, out, l) \<Rightarrow>
           rbind (iov_drop_front bytes_consumed (d_input d)) (\<lambda>v.
             Inr (case r of
                    BD_SUCCESS \<Rightarrow> if d_finished d then DR_Done else DR_NeedInput
                  | BD_ERROR \<Rightarrow> DR_Error
                  | BD_NEEDS_MORE_INPUT \<Rightarrow> DR_NeedInput
                  | BD_NEEDS_MORE_OUTPUT \<Rightarrow> DR_MoreOutput,
                  out, d\<lparr>d_input := v, d_lib := l\<rparr>)))"

partial_function (option) BrotliEncoder_Encode :: "'l codecs \<Rightarrow> 'l encoder \<Rightarrow> (EncodeResult \<times> bytes \<times> 'l encoder) prog" where
  "BrotliEncoder_Encode C e =
     pbind (Some (front_input (e_input e))) (\<lambda>front.
       case BrotliEncoderCompressStream C (e_lib e) (e_finished e) front (e_left e) of
         (ok, bytes_consumed, out, l) \<Rightarrow>
           if \<not> ok then pret (ER_Error, [], e\<lparr>e_lib := l\<rparr>)
           else pbind (Some (iov_drop_front bytes_consumed (e_input e))) (\<lambda>v.
             let block = e_block e @ out; left = e_left e - length out;
                 e1 = e\<lparr>e_input := v, e_lib := l, e_block := block, e_left := left\<rparr>
             in if BrotliEncoderIsFinished C l then pret (ER_Done, block, e1\<lparr>e_block := []\<rparr>)
                else if left = 0 then pret (ER_MoreOutput, block, e1\<lparr>e_block := [], e_left := e_size e\<rparr>)
                else if iov_size v = 0 then pret (ER_NeedInput, [], e1)
                else BrotliEncoder_Encode C e1))"

subsection \<open>LZ4\<close>

definition LZ4Decoder_new :: "'l codecs \<Rightarrow> nat \<Rightarrow> 'l decoder result" where
  "LZ4Decoder_new C n = rbind (of_option Fatal (LZ4F_createDecompressionContext C)) (\<lambda>l. Inr (new_decoder n l))"

definition LZ4Decoder_Decode :: "'l codecs \<Rightarrow> 'l decoder \<Rightarrow> (DecodeResult \<times> bytes \<times> 'l decoder) result" where
  "LZ4Decoder_Decode C d =
     rbind (front_input (d_input d)) (\<lambda>front.
       case LZ4F_decompress C (d_lib d) (d_room d) front of
         (None, _, _, l) \<Rightarrow> Inr (DR_Error, [], d\<lparr>d_lib := l\<rparr>)
       | (Some rc, available_in, out, l) \<Rightarrow>
           rbind (iov_drop_front available_in (d_input d)) (\<lambda>v.
             let d1 = d\<lparr>d_input := v, d_lib := l\<rparr>
             in if rc = 0 \<and> iov_size v \<noteq> 0 then Inr (DR_Error, [], d1)
                else let d2 = (if rc = 0 then d1\<lparr>d_done := True\<rparr> else d1)
                     in Inr (if d_finished d2 then if iov_size v = 0 \<and> d_done d2 then DR_Done else DR_MoreOutput else DR_NeedInput,
                             out, d2)))"

definition LZ4Encoder_new :: "'l codecs \<Rightarrow> nat \<Rightarrow> 'l encoder result" where
  "LZ4Encoder_new C n =
     rbind (of_option Fatal (LZ4F_createCompressionContext C)) (\<lambda>l.
       case LZ4F_compressBegin C l of
         (None, _) \<Rightarrow> Inl Fatal
       | (Some header, l') \<Rightarrow> Inr ((new_encoder n l')\<lparr>e_out := iov_append iov_empty (block_of header)\<rparr>))"

definition OutputReady :: "'l encoder \<Rightarrow> bool" where
  "OutputReady e \<longleftrightarrow> e_size e \<le> iov_size (e_out e) \<or> e_final e"

text \<open>The three parts of \<open>Encode\<close>: compress one front block, end the frame, hand out a block.\<close>

definition lz4_update :: "'l codecs \<Rightarrow> 'l encoder \<Rightarrow> 'l encoder option result" where
  "lz4_update C e =
     rbind (front_input (e_input e)) (\<lambda>front.
       if front = [] then Inr (Some e)
       else if e_final e then Inr None
       else let part = take 65536 front
            in case LZ4F_compressUpdate C (e_lib e) part of
                 (None, _) \<Rightarrow> Inr None
               | (Some out, l) \<Rightarrow>
                   rbind (iov_drop_front (length part) (e_input e)) (\<lambda>v.
                     Inr (Some (e\<lparr>e_input := v, e_lib := l, e_out := iov_append (e_out e) (block_of out)\<rparr>))))"

definition lz4_end :: "'l codecs \<Rightarrow> 'l encoder \<Rightarrow> 'l encoder option" where
  "lz4_end C e =
     (if e_finished e \<and> \<not> e_final e
      then case LZ4F_compressEnd C (e_lib e) of
             (None, _) \<Rightarrow> None
           | (Some out, l) \<Rightarrow> Some (e\<lparr>e_final := True, e_lib := l, e_out := iov_append (e_out e) (block_of out)\<rparr>)
      else Some e)"

definition lz4_emit :: "(nat \<Rightarrow> char) \<Rightarrow> 'l encoder \<Rightarrow> (EncodeResult \<times> bytes \<times> 'l encoder) result" where
  "lz4_emit fresh e =
     rbind (if OutputReady e
            then rbind (iov_take_front fresh (min (e_size e) (iov_size (e_out e))) (e_out e)) (\<lambda>(front, rest).
                 rbind (iov_coalesce_move fresh front) (\<lambda>(b, _). Inr (block_bytes b, e\<lparr>e_out := rest\<rparr>)))
            else Inr ([], e)) (\<lambda>(out, e').
       Inr (if e_final e' \<and> iov_size (e_out e') = 0 then ER_Done else if OutputReady e' then ER_MoreOutput else ER_NeedInput,
            out, e'))"

definition LZ4Encoder_Encode ::
  "(nat \<Rightarrow> char) \<Rightarrow> 'l codecs \<Rightarrow> 'l encoder \<Rightarrow> (EncodeResult \<times> bytes \<times> 'l encoder) result" where
  "LZ4Encoder_Encode fresh C e =
     rbind (lz4_update C e) (\<lambda>r.
       case Option.bind r (lz4_end C) of
         None \<Rightarrow> Inr (ER_Error, [], e)
       | Some e' \<Rightarrow> lz4_emit fresh e')"

subsection \<open>Zstd\<close>

definition ZstdDecoder_new :: "'l codecs \<Rightarrow> nat \<Rightarrow> 'l decoder result" where
  "ZstdDecoder_new C n = rbind (of_option Fatal (ZSTD_createDStream C)) (\<lambda>l. Inr (new_decoder n l))"

definition ZstdDecoder_Decode :: "'l codecs \<Rightarrow> 'l decoder \<Rightarrow> (DecodeResult \<times> bytes \<times> 'l decoder) result" where
  "ZstdDecoder_Decode C d =
     rbind (front_input (d_input d)) (\<lambda>front.
       case ZSTD_decompressStream C (d_lib d) (d_room d) front of
         (None, _, _, l) \<Rightarrow> Inr (DR_Error, [], d\<lparr>d_lib := l\<rparr>)
       | (Some rc, pos, out, l) \<Rightarrow>
           rbind (iov_drop_front pos (d_input d)) (\<lambda>v.
             let d1 = d\<lparr>d_input := v, d_lib := l\<rparr>
             in if rc = 0 \<and> iov_size v \<noteq> 0 then Inr (DR_Error, [], d1)
                else let d2 = (if rc = 0 then d1\<lparr>d_done := True\<rparr> else d1)
                     in Inr (if d_finished d2 then if iov_size v = 0 \<and> d_done d2 then DR_Done else DR_MoreOutput else DR_NeedInput,
                             out, d2)))"

definition ZstdEncoder_new :: "'l codecs \<Rightarrow> nat \<Rightarrow> 'l encoder result" where
  "ZstdEncoder_new C n = rbind (of_option Fatal (ZSTD_createCStream C)) (\<lambda>l. Inr (new_encoder n l))"

definition ZstdEncoder_Encode :: "'l codecs \<Rightarrow> 'l encoder \<Rightarrow> (EncodeResult \<times> bytes \<times> 'l encoder) result" where
  "ZstdEncoder_Encode C e =
     rbind (front_input (e_input e)) (\<lambda>front.
       case ZSTD_compressStream2 C (e_lib e) (e_finished e) (e_size e) front of
         (None, _, _, l) \<Rightarrow> Inr (ER_Error, [], e\<lparr>e_lib := l\<rparr>)
       | (Some rc, pos, out, l) \<Rightarrow>
           rbind (iov_drop_front pos (e_input e)) (\<lambda>v.
             let e1 = e\<lparr>e_input := v, e_lib := l\<rparr>
             in if rc = 0
                then if e_finished e then if iov_size v \<noteq> 0 then Inr (ER_Error, out, e1) else Inr (ER_Done, out, e1)
                     else Inr (if iov_size v = 0 then ER_NeedInput else ER_MoreOutput, out, e1)
                else Inr (ER_MoreOutput, out, e1)))"

subsection \<open>Dispatch\<close>

definition make_decoder :: "'l codecs \<Rightarrow> nat \<Rightarrow> CompressionType \<Rightarrow> 'l decoder result" where
  "make_decoder C n t =
     (case t of
        CT_None \<Rightarrow> Inr (new_decoder n (BrotliDecoderCreate C))
      | CT_Brotli \<Rightarrow> Inr (new_decoder n (BrotliDecoderCreate C))
      | CT_LZ4 \<Rightarrow> LZ4Decoder_new C n
      | CT_Zstd \<Rightarrow> ZstdDecoder_new C n
      | CT_Any \<Rightarrow> Inl Fatal)"

definition make_encoder :: "'l codecs \<Rightarrow> nat \<Rightarrow> CompressionType \<Rightarrow> 'l encoder result" where
  "make_encoder C n t =
     (case t of
        CT_None \<Rightarrow> Inr (new_encoder n (BrotliEncoderCreate C))
      | CT_Brotli \<Rightarrow> Inr (new_encoder n (BrotliEncoderCreate C))
      | CT_LZ4 \<Rightarrow> LZ4Encoder_new C n
      | CT_Zstd \<Rightarrow> ZstdEncoder_new C n
      | CT_Any \<Rightarrow> Inl Fatal)"

definition Decode :: "'l codecs \<Rightarrow> CompressionType \<Rightarrow> 'l decoder \<Rightarrow> (DecodeResult \<times> bytes \<times> 'l decoder) prog" where
  "Decode C t d =
     (case t of
        CT_None \<Rightarrow> NullDecoder_Decode d
      | CT_Brotli \<Rightarrow> Some (BrotliDecoder_Decode C d)
      | CT_LZ4 \<Rightarrow> Some (LZ4Decoder_Decode C d)
      | CT_Zstd \<Rightarrow> Some (ZstdDecoder_Decode C d)
      | CT_Any \<Rightarrow> Some (Inl Fatal))"

definition Encode ::
  "(nat \<Rightarrow> char) \<Rightarrow> 'l codecs \<Rightarrow> CompressionType \<Rightarrow> 'l encoder \<Rightarrow> (EncodeResult \<times> bytes \<times> 'l encoder) prog" where
  "Encode fresh C t e =
     (case t of
        CT_None \<Rightarrow> NullEncoder_Encode e
      | CT_Brotli \<Rightarrow> BrotliEncoder_Encode C e
      | CT_LZ4 \<Rightarrow> Some (LZ4Encoder_Encode fresh C e)
      | CT_Zstd \<Rightarrow> Some (ZstdEncoder_Encode C e)
      | CT_Any \<Rightarrow> Some (Inl Fatal))"


subsection \<open>What the null codec does\<close>

text \<open>A vector without empty blocks at its front, as \<open>append\<close> and \<open>drop_front\<close> leave it.\<close>

definition tight :: "iovector \<Rightarrow> bool" where
  "tight v \<longleftrightarrow> (case drop (start_index v) (chain v) of [] \<Rightarrow> True | b # bs \<Rightarrow> begin_offset v < bsize b \<and> (\<forall>c \<in> set bs. 0 < bsize c))"

lemma tight_empty [simp]: "tight iov_empty" "tight (fst (iov_clear v))"
  by (simp_all add: tight_def iov_empty_def iov_clear_def)

lemma tight_append: "wf_iov v \<Longrightarrow> tight v \<Longrightarrow> tight (iov_append v b)"
  by (auto simp: tight_def iov_append_def block_move_construct_def wf_iov_def split: list.splits)

lemma tight_pop: "wf_iov v \<Longrightarrow> tight v \<Longrightarrow> iov_pop_front_block v = Inr v' \<Longrightarrow> tight v'"
proof -
  assume v: "wf_iov v" "tight v" "iov_pop_front_block v = Inr v'"
  then have s: "start_index v < length (chain v)" by (auto simp: iov_pop_front_block_def rbind_eq_Inr vec_at_def split: if_splits)
  then have d: "drop (start_index v) (chain v) = chain v ! start_index v # drop (Suc (start_index v)) (chain v)"
    by (rule Cons_nth_drop_Suc [symmetric])
  have "drop (start_index v') (chain v') = drop (Suc (start_index v)) (chain v) \<and> begin_offset v' = 0"
    using v(3) s by (auto simp: iov_pop_front_block_def rbind_eq_Inr vec_at_def Let_def iov_trim_chain_front_def drop_update_cancel split: if_splits)
  then show "tight v'" using v(2) d by (auto simp: tight_def split: list.splits)
qed

lemma tight_drop_loop: "iov_drop_loop n k v = Inr v' \<Longrightarrow> wf_iov v \<Longrightarrow> tight v \<Longrightarrow> tight v'"
proof (induction n k v rule: iov_drop_loop.induct)
  case (1 n k v)
  show ?case
  proof (cases "k < n")
    case False
    with 1 show ?thesis by (simp add: iov_drop_loop.simps)
  next
    case True
    with "1.prems"(1) have s: "start_index v < length (chain v)" by (auto simp: iov_drop_loop.simps [of n k v] rbind_eq_Inr vec_at_def split: if_splits)
    let ?b = "chain v ! start_index v"
    have d: "drop (start_index v) (chain v) = ?b # drop (Suc (start_index v)) (chain v)" using s by (rule Cons_nth_drop_Suc [symmetric])
    have o: "begin_offset v < bsize ?b" using "1.prems"(3) d by (simp add: tight_def)
    show ?thesis
    proof (cases "k + size_sub (bsize ?b) (begin_offset v) \<le> n")
      case fit: True
      then obtain v1 where v1: "iov_pop_front_block v = Inr v1" "iov_drop_loop n ((k + size_sub (bsize ?b) (begin_offset v)) mod 2 ^ 32) v1 = Inr v'"
        using "1.prems"(1) True s by (auto simp: iov_drop_loop.simps [of n k v] rbind_eq_Inr Let_def)
      have "wf_iov v1" using iov_pop_front_block_ok [OF "1.prems"(2) s] v1(1) by auto
      with "1.IH" [OF True _ refl fit v1] s tight_pop [OF "1.prems"(2,3) v1(1)] v1 show ?thesis by simp
    next
      case False
      then have "v' = v\<lparr>begin_offset := begin_offset v + (n - k)\<rparr>" using "1.prems"(1) True s by (simp add: iov_drop_loop.simps [of n k v] Let_def)
      with False o d "1.prems"(3) True show ?thesis by (simp add: tight_def)
    qed
  qed
qed

lemma tight_drop: "iov_drop_front n v = Inr v' \<Longrightarrow> wf_iov v \<Longrightarrow> tight v \<Longrightarrow> tight v'"
  by (auto simp: iov_drop_front_def rcheck_eq_Inr split: if_splits intro: tight_drop_loop)

definition good_iov :: "iovector \<Rightarrow> bool" where
  "good_iov v \<longleftrightarrow> wf_iov v \<and> tight v \<and> (iov_bytes v = [] \<longrightarrow> chain v = [])"

lemma good_iov_empty [simp]: "good_iov iov_empty"
  by (simp add: good_iov_def iov_empty_def [THEN arg_cong [of _ _ chain]])

lemma good_iov_size: "good_iov v \<Longrightarrow> iov_size v = length (iov_bytes v)"
  by (simp add: good_iov_def iov_size_bytes)

lemma good_iov_append: "good_iov v \<Longrightarrow> good_iov (iov_append v (block_of bs)) \<and> iov_bytes (iov_append v (block_of bs)) = iov_bytes v @ bs"
  by (auto simp: good_iov_def iov_append_ok tight_append) (simp add: iov_append_def)

lemma good_iov_drop:
  "good_iov v \<Longrightarrow> n \<le> length (iov_bytes v) \<Longrightarrow> n < 2 ^ 32 \<Longrightarrow> \<exists>v'. iov_drop_front n v = Inr v' \<and> good_iov v' \<and> iov_bytes v' = drop n (iov_bytes v)"
proof -
  assume v: "good_iov v" and n: "n \<le> length (iov_bytes v)" "n < 2 ^ 32"
  then have wf: "wf_iov v" "tight v" "iov_bytes v = [] \<longrightarrow> chain v = []" by (simp_all add: good_iov_def)
  from iov_drop_front_ok [OF wf(1) n] obtain v' where v': "iov_drop_front n v = Inr v'" "wf_iov v'" "iov_bytes v' = drop n (iov_bytes v)" by blast
  have "chain v' = []" if "iov_bytes v' = []"
  proof -
    have "n = length (iov_bytes v)" using that v'(3) n(1) by simp
    then show ?thesis using v'(1) wf iov_size_bytes [OF wf(1)] by (auto simp: iov_drop_front_def iov_clear_def split: if_splits)
  qed
  with v' tight_drop [OF v'(1) wf(1,2)] show ?thesis by (auto simp: good_iov_def)
qed

lemma good_iov_front:
  assumes "good_iov v"
  shows "\<exists>front rest. front_input v = Inr front \<and> iov_bytes v = front @ rest \<and> (iov_bytes v \<noteq> [] \<longrightarrow> front \<noteq> [])"
proof (cases "start_index v < length (chain v)")
  case True
  let ?b = "chain v ! start_index v"
  have wf: "wf_iov v" and t: "tight v" using assms by (simp_all add: good_iov_def)
  note f = iov_front [OF wf True]
  have "drop (start_index v) (chain v) = ?b # drop (Suc (start_index v)) (chain v)" using True by (rule Cons_nth_drop_Suc [symmetric])
  then have o: "begin_offset v < bsize ?b" using t by (simp add: tight_def)
  have l: "length (block_bytes ?b) = bsize ?b" using f(1) by (simp add: length_block_bytes)
  have "front_input v = Inr (drop (begin_offset v) (block_bytes ?b))"
    using True o l by (auto simp: front_input_def iov_front_size_def iov_front_data_def)
  moreover have "drop (begin_offset v) (block_bytes ?b) \<noteq> []" using o l by simp
  ultimately show ?thesis using f(4) by blast
next
  case False
  have "wf_iov v" using assms by (simp add: good_iov_def)
  then have "iov_bytes v = []" using False by (simp add: iov_bytes_def)
  moreover from this have "chain v = []" using assms by (simp add: good_iov_def)
  ultimately show ?thesis by (simp add: front_input_def iov_front_size_def iov_front_data_def)
qed


lemma null_fill_ok:
  assumes "good_iov v" "n < 2 ^ 32"
  shows "\<exists>m v'. null_fill n v out = pret (m, v', out @ take n (iov_bytes v)) \<and> good_iov v' \<and> iov_bytes v' = drop n (iov_bytes v)"
  using assms
proof (induction n arbitrary: v out rule: less_induct)
  case (less n)
  show ?case
  proof (cases "0 < n \<and> iov_bytes v \<noteq> []")
    case False
    then have "null_fill n v out = pret (n, v, out)" using good_iov_size [OF less.prems(1)] by (subst null_fill.simps) auto
    with False less.prems show ?thesis by auto
  next
    case True
    from good_iov_front [OF less.prems(1)] True obtain front rest where
      f: "front_input v = Inr front" "iov_bytes v = front @ rest" "front \<noteq> []" by auto
    let ?len = "min n (length front)"
    have len: "0 < ?len" "?len \<le> length (iov_bytes v)" "?len < 2 ^ 32" using True f(2,3) less.prems(2) by auto
    from good_iov_drop [OF less.prems(1) len(2,3)] obtain v1 where
      v1: "iov_drop_front ?len v = Inr v1" "good_iov v1" "iov_bytes v1 = drop ?len (iov_bytes v)" by blast
    have "n - ?len < n" "n - ?len < 2 ^ 32" using len(1) True less.prems(2) by linarith+
    from less.IH [OF this(1) v1(2) this(2), of "out @ take ?len front"] obtain m v' where
      r: "null_fill (n - ?len) v1 (out @ take ?len front) = pret (m, v', (out @ take ?len front) @ take (n - ?len) (iov_bytes v1))"
        "good_iov v'" "iov_bytes v' = drop (n - ?len) (iov_bytes v1)" by auto
    have "null_fill n v out = null_fill (n - ?len) v1 (out @ take ?len front)"
      using True f(1) v1(1) good_iov_size [OF less.prems(1)] by (subst null_fill.simps) (simp add: Let_def)
    moreover have "take ?len front @ take (n - ?len) (iov_bytes v1) = take n (iov_bytes v)"
      using f(2) v1(3) by (cases "n \<le> length front") (simp_all add: min_def)
    moreover have "drop (n - ?len) (iov_bytes v1) = drop n (iov_bytes v)" using v1(3) by simp
    ultimately show ?thesis using r by (metis append.assoc)
  qed
qed

lemma NullDecoder_ok:
  assumes "good_iov (d_input d)" "d_room d < 2 ^ 32"
  shows "\<exists>v. NullDecoder_Decode d =
      pret (if length (iov_bytes (d_input d)) \<le> d_room d then if d_finished d then DR_Done else DR_NeedInput else DR_MoreOutput,
            take (d_room d) (iov_bytes (d_input d)), d\<lparr>d_input := v\<rparr>)
    \<and> good_iov v \<and> iov_bytes v = drop (d_room d) (iov_bytes (d_input d))"
proof -
  from null_fill_ok [OF assms, of "[]"] obtain m v where
    f: "null_fill (d_room d) (d_input d) [] = pret (m, v, take (d_room d) (iov_bytes (d_input d)))"
      "good_iov v" "iov_bytes v = drop (d_room d) (iov_bytes (d_input d))" by auto
  then show ?thesis using good_iov_size [OF f(2)] by (intro exI [of _ v]) (simp add: NullDecoder_Decode_def)
qed

lemma NullEncoder_ok:
  assumes "good_iov (e_input e)" "e_size e < 2 ^ 32"
  shows "\<exists>v. NullEncoder_Encode e =
      pret (if length (iov_bytes (e_input e)) \<le> e_size e then if e_finished e then ER_Done else ER_NeedInput else ER_MoreOutput,
            take (e_size e) (iov_bytes (e_input e)), e\<lparr>e_input := v\<rparr>)
    \<and> good_iov v \<and> iov_bytes v = drop (e_size e) (iov_bytes (e_input e))"
proof -
  from null_fill_ok [OF assms, of "[]"] obtain m v where
    f: "null_fill (e_size e) (e_input e) [] = pret (m, v, take (e_size e) (iov_bytes (e_input e)))"
      "good_iov v" "iov_bytes v = drop (e_size e) (iov_bytes (e_input e))" by auto
  then show ?thesis using good_iov_size [OF f(2)] by (intro exI [of _ v]) (simp add: NullEncoder_Encode_def)
qed

end
