(* ===== verification/File_Sync_Protocol.thy ===== *)
theory File_Sync_Protocol
  imports Adb_Io Adb_Prog Libbase Compression
begin

text \<open>
  The messages of the file sync protocol (\<open>file_sync_protocol.h\<close>) as they are laid out on the wire, the
  numbers of errors on the wire (\<open>sysdeps/errno.cpp\<close>), and the interface to the file system that the
  service on the device and the client share.
\<close>

subsection \<open>Messages\<close>

definition MKID :: "char \<Rightarrow> char \<Rightarrow> char \<Rightarrow> char \<Rightarrow> u32" where
  "MKID a b c d = of_char a OR push_bit 8 (of_char b) OR push_bit 16 (of_char c) OR push_bit 24 (of_char d)"

definition ID_LSTAT_V1 :: u32 where "ID_LSTAT_V1 = MKID CHR ''S'' CHR ''T'' CHR ''A'' CHR ''T''"
definition ID_STAT_V2 :: u32 where "ID_STAT_V2 = MKID CHR ''S'' CHR ''T'' CHR ''A'' CHR ''2''"
definition ID_LSTAT_V2 :: u32 where "ID_LSTAT_V2 = MKID CHR ''L'' CHR ''S'' CHR ''T'' CHR ''2''"
definition ID_LIST_V1 :: u32 where "ID_LIST_V1 = MKID CHR ''L'' CHR ''I'' CHR ''S'' CHR ''T''"
definition ID_LIST_V2 :: u32 where "ID_LIST_V2 = MKID CHR ''L'' CHR ''I'' CHR ''S'' CHR ''2''"
definition ID_DENT_V1 :: u32 where "ID_DENT_V1 = MKID CHR ''D'' CHR ''E'' CHR ''N'' CHR ''T''"
definition ID_DENT_V2 :: u32 where "ID_DENT_V2 = MKID CHR ''D'' CHR ''N'' CHR ''T'' CHR ''2''"
definition ID_SEND_V1 :: u32 where "ID_SEND_V1 = MKID CHR ''S'' CHR ''E'' CHR ''N'' CHR ''D''"
definition ID_SEND_V2 :: u32 where "ID_SEND_V2 = MKID CHR ''S'' CHR ''N'' CHR ''D'' CHR ''2''"
definition ID_RECV_V1 :: u32 where "ID_RECV_V1 = MKID CHR ''R'' CHR ''E'' CHR ''C'' CHR ''V''"
definition ID_RECV_V2 :: u32 where "ID_RECV_V2 = MKID CHR ''R'' CHR ''C'' CHR ''V'' CHR ''2''"
definition ID_DONE :: u32 where "ID_DONE = MKID CHR ''D'' CHR ''O'' CHR ''N'' CHR ''E''"
definition ID_DATA :: u32 where "ID_DATA = MKID CHR ''D'' CHR ''A'' CHR ''T'' CHR ''A''"
definition ID_OKAY :: u32 where "ID_OKAY = MKID CHR ''O'' CHR ''K'' CHR ''A'' CHR ''Y''"
definition ID_FAIL :: u32 where "ID_FAIL = MKID CHR ''F'' CHR ''A'' CHR ''I'' CHR ''L''"
definition ID_QUIT :: u32 where "ID_QUIT = MKID CHR ''Q'' CHR ''U'' CHR ''I'' CHR ''T''"

lemmas sync_ids = ID_LSTAT_V1_def ID_STAT_V2_def ID_LSTAT_V2_def ID_LIST_V1_def ID_LIST_V2_def ID_DENT_V1_def ID_DENT_V2_def
  ID_SEND_V1_def ID_SEND_V2_def ID_RECV_V1_def ID_RECV_V2_def ID_DONE_def ID_DATA_def ID_OKAY_def ID_FAIL_def ID_QUIT_def MKID_def

definition SYNC_DATA_MAX :: nat where "SYNC_DATA_MAX = 64 * 1024"

definition kSyncFlagBrotli :: u32 where "kSyncFlagBrotli = 1"
definition kSyncFlagLZ4 :: u32 where "kSyncFlagLZ4 = 2"
definition kSyncFlagZstd :: u32 where "kSyncFlagZstd = 4"
definition kSyncFlagDryRun :: u32 where "kSyncFlagDryRun = 0x80000000"

text \<open>
  \<open>SyncRequest\<close>, \<open>sync_data\<close> and \<open>sync_status\<close> are two words; the setup messages are two or three.
\<close>

definition sync_msg :: "u32 \<Rightarrow> u32 \<Rightarrow> bytes" where
  "sync_msg i n = le32 i @ le32 n"

definition msg_id :: "bytes \<Rightarrow> u32" where "msg_id bs = of_le32 bs"
definition msg_size :: "bytes \<Rightarrow> u32" where "msg_size bs = of_le32 (drop 4 bs)"
definition setup_mode :: "bytes \<Rightarrow> u32" where "setup_mode bs = of_le32 (drop 4 bs)"
definition setup_flags :: "bytes \<Rightarrow> u32" where "setup_flags bs = of_le32 (drop 8 bs)"

lemma length_sync_msg [simp]: "length (sync_msg i n) = 8"
  by (simp add: sync_msg_def)

lemma sync_msg_parse [simp]: "msg_id (sync_msg i n) = i" "msg_size (sync_msg i n) = n"
  by (simp_all add: msg_id_def msg_size_def sync_msg_def)

definition le64 :: "64 word \<Rightarrow> bytes" where
  "le64 w = le32 (ucast w) @ le32 (ucast (drop_bit 32 w))"

definition of_le64 :: "bytes \<Rightarrow> 64 word" where
  "of_le64 bs = ucast (of_le32 bs) OR push_bit 32 (ucast (of_le32 (drop 4 bs)))"

lemma length_le64 [simp]: "length (le64 w) = 8"
  by (simp add: le64_def)

lemma of_le64_le64 [simp]: "of_le64 (le64 w @ bs) = w"
proof -
  have "ucast (ucast w :: u32) OR push_bit 32 (ucast (ucast (drop_bit 32 w) :: u32)) = w"
    by (rule bit_word_eqI) (auto simp: bit_or_iff bit_push_bit_iff bit_ucast_iff bit_drop_bit_eq)
  then show ?thesis by (simp add: of_le64_def le64_def)
qed

subsection \<open>Files\<close>

record stat_t =
  st_dev :: "64 word"
  st_ino :: "64 word"
  st_mode :: u32
  st_nlink :: u32
  st_uid :: u32
  st_gid :: u32
  st_size :: "64 word"
  st_atime :: "64 word"
  st_mtime :: "64 word"
  st_ctime :: "64 word"

definition zero_stat :: stat_t where
  "zero_stat = \<lparr>st_dev = 0, st_ino = 0, st_mode = 0, st_nlink = 0, st_uid = 0, st_gid = 0, st_size = 0, st_atime = 0, st_mtime = 0, st_ctime = 0\<rparr>"

definition S_ISREG :: "u32 \<Rightarrow> bool" where "S_ISREG m \<longleftrightarrow> m AND 0xF000 = 0x8000"
definition S_ISLNK :: "u32 \<Rightarrow> bool" where "S_ISLNK m \<longleftrightarrow> m AND 0xF000 = 0xA000"
definition S_ISDIR :: "u32 \<Rightarrow> bool" where "S_ISDIR m \<longleftrightarrow> m AND 0xF000 = 0x4000"

definition stat_v1_bytes :: "u32 \<Rightarrow> stat_t \<Rightarrow> bytes" where
  "stat_v1_bytes i st = le32 i @ le32 (st_mode st) @ le32 (ucast (st_size st)) @ le32 (ucast (st_mtime st))"

text \<open>The members that \<open>sync_stat_v2\<close> and \<open>sync_dent_v2\<close> share.\<close>

definition stat_v2_bytes :: "u32 \<Rightarrow> u32 \<Rightarrow> stat_t \<Rightarrow> bytes" where
  "stat_v2_bytes i err st =
     le32 i @ le32 err @ le64 (st_dev st) @ le64 (st_ino st) @ le32 (st_mode st) @ le32 (st_nlink st) @ le32 (st_uid st)
     @ le32 (st_gid st) @ le64 (st_size st) @ le64 (st_atime st) @ le64 (st_mtime st) @ le64 (st_ctime st)"

definition stat_v2_at :: "bytes \<Rightarrow> stat_t" where
  "stat_v2_at bs =
     \<lparr>st_dev = of_le64 (drop 8 bs), st_ino = of_le64 (drop 16 bs), st_mode = of_le32 (drop 24 bs), st_nlink = of_le32 (drop 28 bs),
      st_uid = of_le32 (drop 32 bs), st_gid = of_le32 (drop 36 bs), st_size = of_le64 (drop 40 bs), st_atime = of_le64 (drop 48 bs),
      st_mtime = of_le64 (drop 56 bs), st_ctime = of_le64 (drop 64 bs)\<rparr>"

lemma length_stat_v1_bytes [simp]: "length (stat_v1_bytes i st) = 16"
  by (simp add: stat_v1_bytes_def)

lemma length_stat_v2_bytes [simp]: "length (stat_v2_bytes i err st) = 72"
  by (simp add: stat_v2_bytes_def)

lemma stat_v2_roundtrip [simp]:
  "of_le32 (stat_v2_bytes i err st @ bs) = i" "of_le32 (drop 4 (stat_v2_bytes i err st @ bs)) = err" "stat_v2_at (stat_v2_bytes i err st @ bs) = st"
  by (simp_all add: stat_v2_bytes_def stat_v2_at_def)

text \<open>
  The file system: the system calls of the two programs, and the functions of libbase on files and paths,
  on a state of any type. A result is a value or an
  error number, which goes to \<open>errno\<close>; a call whose result is ignored leaves \<open>errno\<close>. \<open>sys_open\<close> is
  called with four sets of flags.
\<close>

datatype open_flags = Create_exclusive | Write_only | Read_only | Create_truncate

record 'f sys =
  sys_lstat :: "string \<Rightarrow> 'f \<Rightarrow> nat + stat_t"
  sys_stat :: "string \<Rightarrow> 'f \<Rightarrow> nat + stat_t"
  sys_dir :: "string \<Rightarrow> 'f \<Rightarrow> nat + string list"
  sys_mkdir :: "string \<Rightarrow> u32 \<Rightarrow> 'f \<Rightarrow> nat option \<times> 'f"
  sys_chown :: "string \<Rightarrow> u32 \<Rightarrow> u32 \<Rightarrow> 'f \<Rightarrow> nat option \<times> 'f"
  sys_restorecon :: "string \<Rightarrow> 'f \<Rightarrow> 'f"
  sys_removexattr :: "string \<Rightarrow> 'f \<Rightarrow> 'f"
  sys_setxattr :: "string \<Rightarrow> 64 word \<Rightarrow> 'f \<Rightarrow> nat option \<times> 'f"
  sys_fs_config :: "string \<Rightarrow> bool \<Rightarrow> u32 \<times> u32 \<times> u32 \<times> 64 word \<Rightarrow> u32 \<times> u32 \<times> u32 \<times> 64 word"
  sys_open :: "open_flags \<Rightarrow> string \<Rightarrow> u32 \<Rightarrow> 'f \<Rightarrow> (nat + nat) \<times> 'f"
  sys_fchown :: "nat \<Rightarrow> u32 \<Rightarrow> u32 \<Rightarrow> 'f \<Rightarrow> nat option \<times> 'f"
  sys_fchmod :: "nat \<Rightarrow> u32 \<Rightarrow> 'f \<Rightarrow> 'f"
  sys_write :: "nat \<Rightarrow> bytes \<Rightarrow> 'f \<Rightarrow> (nat + nat) \<times> 'f"
  sys_read :: "nat \<Rightarrow> nat \<Rightarrow> 'f \<Rightarrow> (nat + bytes) \<times> 'f"
  sys_close :: "nat \<Rightarrow> 'f \<Rightarrow> 'f"
  sys_unlink :: "string \<Rightarrow> 'f \<Rightarrow> nat option \<times> 'f"
  sys_symlink :: "string \<Rightarrow> string \<Rightarrow> 'f \<Rightarrow> nat option \<times> 'f"
  sys_readlink :: "string \<Rightarrow> 'f \<Rightarrow> nat + string"
  sys_realpath :: "string \<Rightarrow> 'f \<Rightarrow> nat + string"
  sys_lutimes :: "string \<Rightarrow> u32 \<Rightarrow> 'f \<Rightarrow> 'f"
  sys_slurp :: "string \<Rightarrow> 'f \<Rightarrow> nat + bytes"
  sys_utime :: "string \<Rightarrow> 64 word \<Rightarrow> 'f \<Rightarrow> nat option \<times> 'f"
  sys_chmod :: "string \<Rightarrow> u32 \<Rightarrow> 'f \<Rightarrow> nat option \<times> 'f"
  sys_umask :: u32
  sys_dirname :: "string \<Rightarrow> string"
  sys_basename :: "string \<Rightarrow> string"
  sys_strerror :: "nat \<Rightarrow> string"
  sys_api_old :: bool
  sys_base :: libbase

text \<open>A program with one connection and the file system; \<open>errno\<close> is that of the connection.\<close>

record 'f sync =
  y_sock :: fd_state
  y_fs :: 'f
  y_buffer :: bytes

definition y_errno :: "nat \<Rightarrow> 'f sync \<Rightarrow> 'f sync" where
  "y_errno e y = y\<lparr>y_sock := (y_sock y)\<lparr>fd_errno := e\<rparr>\<rparr>"

definition y_read :: "nat \<Rightarrow> 'f sync \<Rightarrow> bool \<times> bytes \<times> 'f sync" where
  "y_read n y = (case ReadFdExactly n (y_sock y) of (ok, bs, fd) \<Rightarrow> (ok, bs, y\<lparr>y_sock := fd\<rparr>))"

definition y_write :: "bytes \<Rightarrow> 'f sync \<Rightarrow> (bool \<times> 'f sync) prog" where
  "y_write bs y = (case WriteFdExactly bs (y_sock y) of None \<Rightarrow> None | Some (ok, fd) \<Rightarrow> pret (ok, y\<lparr>y_sock := fd\<rparr>))"

definition y_try :: "('f \<Rightarrow> nat option \<times> 'f) \<Rightarrow> 'f sync \<Rightarrow> bool \<times> 'f sync" where
  "y_try call y = (case call (y_fs y) of (None, f) \<Rightarrow> (True, y\<lparr>y_fs := f\<rparr>) | (Some e, f) \<Rightarrow> (False, y_errno e (y\<lparr>y_fs := f\<rparr>)))"

definition y_open :: "'f sys \<Rightarrow> open_flags \<Rightarrow> string \<Rightarrow> u32 \<Rightarrow> 'f sync \<Rightarrow> nat option \<times> 'f sync" where
  "y_open sys fl path mode y =
     (case sys_open sys fl path mode (y_fs y) of (Inr h, f) \<Rightarrow> (Some h, y\<lparr>y_fs := f\<rparr>) | (Inl e, f) \<Rightarrow> (None, y_errno e (y\<lparr>y_fs := f\<rparr>)))"

text \<open>\<open>WriteFdExactly\<close> on a file, whose \<open>write\<close> is a system call of the state.\<close>

partial_function (option) write_file :: "'f sys \<Rightarrow> nat \<Rightarrow> bytes \<Rightarrow> 'f sync \<Rightarrow> (bool \<times> 'f sync) prog" where
  "write_file sys h bs y =
     (if bs = [] then pret (True, y)
      else case sys_write sys h bs (y_fs y) of
             (Inl e, f) \<Rightarrow>
               let y' = y_errno e (y\<lparr>y_fs := f\<rparr>)
               in if e = EAGAIN then write_file sys h bs y'
                  else if e = EPIPE then pret (False, y_errno 0 y')
                  else pret (False, y')
           | (Inr n, f) \<Rightarrow> write_file sys h (drop n bs) (y\<lparr>y_fs := f\<rparr>))"

subsection \<open>Errors on the wire\<close>

definition ERRNO_VALUES :: "(string \<times> nat) list" where
  "ERRNO_VALUES =
     [(''EACCES'', 13), (''EEXIST'', 17), (''EFAULT'', 14), (''EFBIG'', 27), (''EINTR'', 4), (''EINVAL'', 22), (''EIO'', 5),
      (''EISDIR'', 21), (''ELOOP'', 40), (''EMFILE'', 24), (''ENAMETOOLONG'', 36), (''ENFILE'', 23), (''ENOENT'', 2),
      (''ENOMEM'', 12), (''ENOSPC'', 28), (''ENOTDIR'', 20), (''EOVERFLOW'', 75), (''EPERM'', 1), (''EROFS'', 30), (''ETXTBSY'', 26)]"

text \<open>\<open>number\<close> is what the platform calls each error. An \<open>insert\<close> into the table does not replace.\<close>

definition host_to_wire :: "(string \<Rightarrow> nat) \<Rightarrow> nat \<Rightarrow> nat option" where
  "host_to_wire number e = map_option snd (List.find (\<lambda>(n, _). number n = e) ERRNO_VALUES)"

definition errno_to_wire :: "(string \<Rightarrow> nat) \<Rightarrow> nat \<Rightarrow> nat" where
  "errno_to_wire number e = (case host_to_wire number e of None \<Rightarrow> 5 | Some w \<Rightarrow> w)"

definition errno_from_wire :: "(string \<Rightarrow> nat) \<Rightarrow> nat \<Rightarrow> nat" where
  "errno_from_wire number e = (case host_to_wire number e of None \<Rightarrow> number ''EIO'' | Some w \<Rightarrow> w)"

subsection \<open>A peer that reads and writes\<close>

text \<open>The peer takes at least \<open>n\<close> more bytes, one call at a time, with at most delays.\<close>

definition grants :: "write_event list \<Rightarrow> nat" where
  "grants wr = length (filter (\<lambda>ev. case ev of Accept n \<Rightarrow> 0 < n | Write_error _ \<Rightarrow> False) wr)"

definition willing :: "nat \<Rightarrow> 'f sync \<Rightarrow> bool" where
  "willing n y \<longleftrightarrow> transient (fd_wr (y_sock y)) \<and> n \<le> grants (fd_wr (y_sock y))"

lemma grants_simps [simp]:
  "grants [] = 0" "grants (Accept n # wr) = (if 0 < n then Suc (grants wr) else grants wr)" "grants (Write_error e # wr) = grants wr"
  by (simp_all add: grants_def)

lemma WriteFdExactly_loop_grants:
  "transient wr \<Longrightarrow> length bs + k \<le> grants wr \<Longrightarrow>
     \<exists>wr' err'. WriteFdExactly_loop bs wr out err = Some (True, wr', out @ bs, err') \<and> transient wr' \<and> k \<le> grants wr'"
proof (induction bs wr out err rule: WriteFdExactly_loop.induct)
  case (4 b bs n wr out err)
  have "length (drop n (b # bs)) + k \<le> grants wr" using 4(3) by (cases "n = 0") auto
  with 4 have "\<exists>wr' err'. WriteFdExactly_loop (drop n (b # bs)) wr (out @ take n (b # bs)) err
      = Some (True, wr', (out @ take n (b # bs)) @ drop n (b # bs), err') \<and> transient wr' \<and> k \<le> grants wr'" by simp
  moreover have "(out @ take n (b # bs)) @ drop n (b # bs) = out @ b # bs" by (simp only: append.assoc append_take_drop_id)
  ultimately show ?case by (simp only: WriteFdExactly_loop.simps)
qed auto

text \<open>What a client of the connection sees: what is left to read, and what has been written.\<close>

definition pending :: "'f sync \<Rightarrow> bytes \<Rightarrow> bool" where
  "pending y bs \<longleftrightarrow> delivers (fd_in (y_sock y)) bs"

definition answered :: "'f sync \<Rightarrow> bytes" where
  "answered y = fd_out (y_sock y)"

text \<open>Two states that differ in the connection only, and have the same bytes to read.\<close>

definition same_but_output :: "'f sync \<Rightarrow> 'f sync \<Rightarrow> bool" where
  "same_but_output y y' \<longleftrightarrow> y_fs y' = y_fs y \<and> y_buffer y' = y_buffer y \<and> fd_in (y_sock y') = fd_in (y_sock y)"

lemma y_write_ok:
  assumes "willing (length bs + k) y"
  shows "\<exists>y'. y_write bs y = pret (True, y') \<and> answered y' = answered y @ bs \<and> willing k y' \<and> same_but_output y y'"
proof -
  from WriteFdExactly_loop_grants [of "fd_wr (y_sock y)" bs k "fd_out (y_sock y)" "fd_errno (y_sock y)"] assms
  obtain wr' err' where "WriteFdExactly_loop bs (fd_wr (y_sock y)) (fd_out (y_sock y)) (fd_errno (y_sock y)) = Some (True, wr', fd_out (y_sock y) @ bs, err')"
    "transient wr'" "k \<le> grants wr'" by (auto simp: willing_def)
  then show ?thesis by (auto simp: y_write_def WriteFdExactly_def answered_def willing_def same_but_output_def)
qed

lemma y_read_ok:
  assumes "pending y (bs @ rest)"
  shows "\<exists>evs. y_read (length bs) y = (True, bs, y\<lparr>y_sock := (y_sock y)\<lparr>fd_in := evs\<rparr>\<rparr>) \<and> delivers evs rest"
  using ReadFdExactly_delivers [of "y_sock y" "bs @ rest" "length bs"] assms by (auto simp: y_read_def pending_def)

lemma y_read_msg:
  assumes "pending y (sync_msg i n @ rest)"
  shows "\<exists>evs. y_read 8 y = (True, sync_msg i n, y\<lparr>y_sock := (y_sock y)\<lparr>fd_in := evs\<rparr>\<rparr>) \<and> delivers evs rest"
  using y_read_ok [OF assms] by simp

lemma y_read_more [simp]:
  "pending (y\<lparr>y_sock := (y_sock y)\<lparr>fd_in := evs\<rparr>\<rparr>) bs \<longleftrightarrow> delivers evs bs"
  "answered (y\<lparr>y_sock := (y_sock y)\<lparr>fd_in := evs\<rparr>\<rparr>) = answered y"
  "willing k (y\<lparr>y_sock := (y_sock y)\<lparr>fd_in := evs\<rparr>\<rparr>) = willing k y"
  by (simp_all add: pending_def answered_def willing_def)

lemma y_fs_more [simp]:
  "pending (y\<lparr>y_fs := f\<rparr>) bs = pending y bs" "answered (y\<lparr>y_fs := f\<rparr>) = answered y" "willing k (y\<lparr>y_fs := f\<rparr>) = willing k y"
  "pending (y_errno e y) bs = pending y bs" "answered (y_errno e y) = answered y" "willing k (y_errno e y) = willing k y" "y_fs (y_errno e y) = y_fs y"
  "y_buffer (y_errno e y) = y_buffer y"
  by (simp_all add: pending_def answered_def willing_def y_errno_def)

lemma willing_mono: "willing n y \<Longrightarrow> k \<le> n \<Longrightarrow> willing k y"
  by (simp add: willing_def)

subsection \<open>What a file system promises\<close>

text \<open>
  The documented behaviour of the calls on files that the theorems rely on. \<open>content p\<close> is what the file
  that \<open>p\<close> names holds, and \<open>handle h\<close> the path and the position of an open descriptor. Calls may fail at
  any time; a call on a descriptor of a regular file does not ask to be repeated.
\<close>

definition overwrite :: "bytes \<Rightarrow> nat \<Rightarrow> bytes \<Rightarrow> bytes" where
  "overwrite c pos bs = take pos c @ bs @ drop (pos + length bs) c"

definition keeps :: "(string \<Rightarrow> 'f \<Rightarrow> bytes option) \<Rightarrow> (nat \<Rightarrow> 'f \<Rightarrow> (string \<times> nat) option) \<Rightarrow> ('f \<Rightarrow> 'f) \<Rightarrow> bool" where
  "keeps content handle g \<longleftrightarrow> (\<forall>f. (\<forall>p. content p (g f) = content p f) \<and> (\<forall>h. handle h (g f) = handle h f))"

definition fs_open_ok :: "'f sys \<Rightarrow> (string \<Rightarrow> 'f \<Rightarrow> bytes option) \<Rightarrow> (nat \<Rightarrow> 'f \<Rightarrow> (string \<times> nat) option) \<Rightarrow> bool" where
  "fs_open_ok sys content handle \<longleftrightarrow>
     (\<forall>fl p m f r f'. sys_open sys fl p m f = (r, f') \<longrightarrow>
        (case r of
           Inl e \<Rightarrow> content p f' = content p f
         | Inr h \<Rightarrow> handle h f' = Some (p, 0) \<and>
             (if fl = Create_exclusive \<or> fl = Create_truncate then content p f' = Some []
              else content p f \<noteq> None \<and> content p f' = content p f)))"

definition fs_write_ok :: "'f sys \<Rightarrow> (string \<Rightarrow> 'f \<Rightarrow> bytes option) \<Rightarrow> (nat \<Rightarrow> 'f \<Rightarrow> (string \<times> nat) option) \<Rightarrow> bool" where
  "fs_write_ok sys content handle \<longleftrightarrow>
     (\<forall>h bs f r f' p pos c. sys_write sys h bs f = (r, f') \<and> handle h f = Some (p, pos) \<and> content p f = Some c \<longrightarrow>
        (case r of
           Inl e \<Rightarrow> e \<noteq> EAGAIN
         | Inr n \<Rightarrow> n \<le> length bs \<and> (bs \<noteq> [] \<longrightarrow> 0 < n) \<and> handle h f' = Some (p, pos + n) \<and> content p f' = Some (overwrite c pos (take n bs))))"

definition fs_read_ok :: "'f sys \<Rightarrow> (string \<Rightarrow> 'f \<Rightarrow> bytes option) \<Rightarrow> (nat \<Rightarrow> 'f \<Rightarrow> (string \<times> nat) option) \<Rightarrow> bool" where
  "fs_read_ok sys content handle \<longleftrightarrow>
     (\<forall>h n f r f' p pos c. sys_read sys h n f = (r, f') \<and> handle h f = Some (p, pos) \<and> content p f = Some c \<longrightarrow>
        content p f' = Some c \<and>
        (case r of
           Inl e \<Rightarrow> True
         | Inr bs \<Rightarrow> length bs \<le> n \<and> bs = take (length bs) (drop pos c) \<and> (bs = [] \<longrightarrow> n = 0 \<or> length c \<le> pos)
                     \<and> handle h f' = Some (p, pos + length bs)))"

definition fs_meta_ok :: "'f sys \<Rightarrow> (string \<Rightarrow> 'f \<Rightarrow> bytes option) \<Rightarrow> (nat \<Rightarrow> 'f \<Rightarrow> (string \<times> nat) option) \<Rightarrow> bool" where
  "fs_meta_ok sys content handle \<longleftrightarrow>
     (\<forall>p m. keeps content handle (snd \<circ> sys_mkdir sys p m)) \<and> (\<forall>p u g. keeps content handle (snd \<circ> sys_chown sys p u g))
     \<and> (\<forall>p. keeps content handle (sys_restorecon sys p)) \<and> (\<forall>p. keeps content handle (sys_removexattr sys p))
     \<and> (\<forall>p c. keeps content handle (snd \<circ> sys_setxattr sys p c)) \<and> (\<forall>h u g. keeps content handle (snd \<circ> sys_fchown sys h u g))
     \<and> (\<forall>h m. keeps content handle (sys_fchmod sys h m)) \<and> (\<forall>p t. keeps content handle (sys_lutimes sys p t))
     \<and> (\<forall>h f p. content p (sys_close sys h f) = content p f)
     \<and> (\<forall>p f bs. sys_slurp sys p f = Inr bs \<longrightarrow> content p f = Some bs)
     \<and> (\<forall>p f e f'. sys_unlink sys p f = (Some e, f') \<longrightarrow> content p f' = content p f)
     \<and> (\<forall>p f f'. sys_unlink sys p f = (None, f') \<longrightarrow> content p f' = None)"

definition fs_ok :: "'f sys \<Rightarrow> (string \<Rightarrow> 'f \<Rightarrow> bytes option) \<Rightarrow> (nat \<Rightarrow> 'f \<Rightarrow> (string \<times> nat) option) \<Rightarrow> bool" where
  "fs_ok sys content handle \<longleftrightarrow>
     fs_open_ok sys content handle \<and> fs_write_ok sys content handle \<and> fs_read_ok sys content handle \<and> fs_meta_ok sys content handle
     \<and> (\<forall>e. length (sys_strerror sys e) \<le> 255)"

text \<open>A file that is written from its start: the new bytes, then what the old file had beyond them.\<close>

definition writing :: "(string \<Rightarrow> 'f \<Rightarrow> bytes option) \<Rightarrow> (nat \<Rightarrow> 'f \<Rightarrow> (string \<times> nat) option) \<Rightarrow> nat \<Rightarrow> string \<Rightarrow> bytes \<Rightarrow> bytes \<Rightarrow> 'f \<Rightarrow> bool" where
  "writing content handle h p old bs f \<longleftrightarrow> handle h f = Some (p, length bs) \<and> content p f = Some (bs @ drop (length bs) old)"

lemma overwrite_append: "overwrite (bs @ drop (length bs) old) (length bs) cs = (bs @ cs) @ drop (length (bs @ cs)) old"
  by (simp add: overwrite_def add.commute)

lemma writing_keeps: "keeps content handle g \<Longrightarrow> writing content handle h p old bs (g f) = writing content handle h p old bs f"
  by (simp add: keeps_def writing_def)

lemma write_file_ok:
  assumes "fs_write_ok sys content handle" "writing content handle h p old done (y_fs y)"
  shows "\<exists>ok y'. write_file sys h bs y = pret (ok, y') \<and> (ok \<longrightarrow> writing content handle h p old (done @ bs) (y_fs y'))
     \<and> (\<forall>rest. pending y' rest = pending y rest) \<and> answered y' = answered y \<and> (\<forall>k. willing k y' = willing k y) \<and> y_buffer y' = y_buffer y"
  using assms(2)
proof (induction "length bs" arbitrary: bs y "done" rule: less_induct)
  case less
  show ?case
  proof (cases "bs = []")
    case True
    then show ?thesis using less.prems by (subst write_file.simps) auto
  next
    case False
    obtain r f where w: "sys_write sys h bs (y_fs y) = (r, f)" by fastforce
    have h: "handle h (y_fs y) = Some (p, length done)" "content p (y_fs y) = Some (done @ drop (length done) old)"
      using less.prems by (simp_all add: writing_def)
    note l = assms(1) [unfolded fs_write_ok_def, rule_format, OF conjI [OF w conjI [OF h]]]
    show ?thesis
    proof (cases r)
      case (Inl e)
      with l w False show ?thesis by (subst write_file.simps) (auto simp: Let_def)
    next
      case (Inr n)
      then have n: "n \<le> length bs" "0 < n" "writing content handle h p old (done @ take n bs) f"
        using l False by (simp_all add: writing_def overwrite_append min_def add.commute split: if_splits)
      then have "length (drop n bs) < length bs" "writing content handle h p old (done @ take n bs) (y_fs (y\<lparr>y_fs := f\<rparr>))" using False by auto
      from less.hyps [OF this] Inr w False show ?thesis by (subst write_file.simps) simp
    qed
  qed
qed

end
