(* ===== verification/File_Sync_Service.thy ===== *)
theory File_Sync_Service
  imports File_Sync_Protocol Adb_Utils
begin

text \<open>
  The file sync service of the device (\<open>daemon/file_sync_service.cpp\<close>, compiled for Android): it answers
  requests for the state of a file, the list of a directory, and the transfer of a file in both directions.
  A function of the source that returns a flag returns it with the new state; \<open>goto fail\<close> is a call of the
  code behind the label.
\<close>

definition ENOENT :: nat where "ENOENT = 2"
definition EEXIST :: nat where "EEXIST = 17"

subsection \<open>Creating files\<close>

definition should_use_fs_config :: "'f sys \<Rightarrow> string \<Rightarrow> bool" where
  "should_use_fs_config sys path \<longleftrightarrow> (if sys_api_old sys then \<not> StartsWith (sys_base sys) path ''/data/'' else True)"

definition update_capabilities :: "'f sys \<Rightarrow> string \<Rightarrow> 64 word \<Rightarrow> 'f sync \<Rightarrow> bool \<times> 'f sync" where
  "update_capabilities sys path capabilities y =
     (if capabilities = 0 then (True, y\<lparr>y_fs := sys_removexattr sys path (y_fs y)\<rparr>)
      else y_try (sys_setxattr sys path capabilities) y)"

definition mkdir_component :: "'f sys \<Rightarrow> string \<Rightarrow> 'f sync \<Rightarrow> bool \<times> 'f sync" where
  "mkdir_component sys path y =
     (let (uid, gid, mode, caps) =
            (if should_use_fs_config sys path then sys_fs_config sys path True (- 1, - 1, 509, 0) else (- 1, - 1, 509, 0))
      in case y_try (sys_mkdir sys path mode) y of
           (False, y1) \<Rightarrow> (fd_errno (y_sock y1) = EEXIST, y1)
         | (True, y1) \<Rightarrow>
             (case y_try (sys_chown sys path uid gid) y1 of
                (False, y2) \<Rightarrow> (False, y2)
              | (True, y2) \<Rightarrow> update_capabilities sys path caps (y2\<lparr>y_fs := sys_restorecon sys path (y_fs y2)\<rparr>)))"

fun mkdir_components :: "'f sys \<Rightarrow> string list \<Rightarrow> string \<Rightarrow> 'f sync \<Rightarrow> bool \<times> 'f sync" where
  "mkdir_components sys [] partial_path y = (True, y)"
| "mkdir_components sys (c # cs) partial_path y =
     (if c = [] then mkdir_components sys cs partial_path y
      else
        let path = (if partial_path = [] \<or> last partial_path \<noteq> CHR ''/'' then partial_path @ ''/'' else partial_path) @ c
        in case mkdir_component sys path y of
             (False, y1) \<Rightarrow> (False, y1)
           | (True, y1) \<Rightarrow> mkdir_components sys cs path y1)"

definition secure_mkdirs :: "'f sys \<Rightarrow> string \<Rightarrow> 'f sync \<Rightarrow> bool \<times> 'f sync" where
  "secure_mkdirs sys path y =
     (if path = [] \<or> hd path \<noteq> CHR ''/'' then (False, y)
      else mkdir_components sys (Split (sys_base sys) path CHR ''/'') [] y)"

subsection \<open>The state of files\<close>

definition do_lstat_v1 :: "'f sys \<Rightarrow> string \<Rightarrow> 'f sync \<Rightarrow> (bool \<times> 'f sync) prog" where
  "do_lstat_v1 sys path y =
     y_write (stat_v1_bytes ID_LSTAT_V1 (case sys_lstat sys path (y_fs y) of Inl _ \<Rightarrow> zero_stat | Inr st \<Rightarrow> st)) y"

text \<open>On Linux, where the service runs, the numbers of the platform are those of the wire.\<close>

definition linux_errno :: "string \<Rightarrow> nat" where
  "linux_errno n = (case map_of ERRNO_VALUES n of None \<Rightarrow> 0 | Some w \<Rightarrow> w)"

definition do_stat_v2 :: "'f sys \<Rightarrow> u32 \<Rightarrow> string \<Rightarrow> 'f sync \<Rightarrow> (bool \<times> 'f sync) prog" where
  "do_stat_v2 sys i path y =
     y_write (case (if i = ID_STAT_V2 then sys_stat sys else sys_lstat sys) path (y_fs y) of
                Inl e \<Rightarrow> stat_v2_bytes i (of_nat (errno_to_wire linux_errno e)) zero_stat
              | Inr st \<Rightarrow> stat_v2_bytes i 0 st) y"

subsection \<open>Lists of directories\<close>

definition dent_bytes :: "bool \<Rightarrow> u32 \<Rightarrow> u32 \<Rightarrow> stat_t \<Rightarrow> u32 \<Rightarrow> bytes" where
  "dent_bytes v2 i err st namelen = (if v2 then stat_v2_bytes i err st else stat_v1_bytes i st) @ le32 namelen"

fun list_entries :: "'f sys \<Rightarrow> bool \<Rightarrow> string \<Rightarrow> string list \<Rightarrow> 'f sync \<Rightarrow> (bool \<times> 'f sync) prog" where
  "list_entries sys v2 path [] y = pret (True, y)"
| "list_entries sys v2 path (d_name # ds) y =
     (let entry = (\<lambda>err st.
            pbind (y_write (dent_bytes v2 (if v2 then ID_DENT_V2 else ID_DENT_V1) err st (of_nat (length d_name))) y) (\<lambda>(ok, y1).
              if \<not> ok then pret (False, y1)
              else pbind (y_write d_name y1) (\<lambda>(ok2, y2).
                if \<not> ok2 then pret (False, y2) else list_entries sys v2 path ds y2)))
      in case sys_lstat sys (path @ ''/'' @ d_name) (y_fs y) of
           Inr st \<Rightarrow> entry 0 st
         | Inl e \<Rightarrow> if v2 then entry (of_nat e) zero_stat else list_entries sys v2 path ds y)"

definition do_list :: "'f sys \<Rightarrow> bool \<Rightarrow> string \<Rightarrow> 'f sync \<Rightarrow> (bool \<times> 'f sync) prog" where
  "do_list sys v2 path y =
     pbind (case sys_dir sys path (y_fs y) of Inl _ \<Rightarrow> pret (True, y) | Inr ds \<Rightarrow> list_entries sys v2 path ds y) (\<lambda>(ok, y1).
       if \<not> ok then pret (False, y1) else y_write (dent_bytes v2 ID_DONE 0 zero_stat 0) y1)"

subsection \<open>Failures\<close>

definition SendSyncFail :: "string \<Rightarrow> 'f sync \<Rightarrow> (bool \<times> 'f sync) prog" where
  "SendSyncFail reason y =
     pbind (y_write (sync_msg ID_FAIL (of_nat (length reason))) y) (\<lambda>(ok, y1).
       if \<not> ok then pret (False, y1) else y_write reason y1)"

definition SendSyncFailErrno :: "'f sys \<Rightarrow> string \<Rightarrow> 'f sync \<Rightarrow> (bool \<times> 'f sync) prog" where
  "SendSyncFailErrno sys reason y = SendSyncFail (reason @ '': '' @ sys_strerror sys (fd_errno (y_sock y))) y"

text \<open>A function that reports a failure and returns false, whether the report could be sent or not.\<close>

definition fail_with :: "'a \<Rightarrow> (bool \<times> 'f sync) prog \<Rightarrow> ('a \<times> 'f sync) prog" where
  "fail_with x report = pbind report (\<lambda>(_, y). pret (x, y))"

subsection \<open>Receiving a file from the client\<close>

datatype drained = Need_message | Drained bool

partial_function (option) drain_decoder ::
  "'f sys \<Rightarrow> 'l codecs \<Rightarrow> CompressionType \<Rightarrow> nat option \<Rightarrow> 'l decoder \<Rightarrow> 'f sync \<Rightarrow> ((drained \<times> 'l decoder) \<times> 'f sync) prog" where
  "drain_decoder sys C t fd d y =
     pbind (Decode C t d) (\<lambda>(r, output, d').
       if r = DR_Error then fail_with (Drained False, d') (SendSyncFail ''decompress failed'' y)
       else pbind (case fd of None \<Rightarrow> pret (True, y) | Some h \<Rightarrow> write_file sys h output y) (\<lambda>(ok, y1).
         if \<not> ok then fail_with (Drained False, d') (SendSyncFailErrno sys ''write failed'' y1)
         else if r = DR_NeedInput then pret ((Need_message, d'), y1)
         else if r = DR_MoreOutput then drain_decoder sys C t fd d' y1
         else pret ((Drained True, d'), y1)))"

text \<open>One message of \<open>handle_send_file_data\<close>: the decoder it is given to, or \<open>None\<close> when the function returns false.\<close>

definition take_message ::
  "'l decoder \<Rightarrow> u32 \<Rightarrow> 'f sync \<Rightarrow> (('l decoder \<times> u32) option \<times> 'f sync) prog" where
  "take_message d timestamp y =
     (case y_read 8 y of (ok, hdr, y1) \<Rightarrow>
          if \<not> ok then pret (None, y1)
          else
          if msg_id hdr = ID_DONE
          then pbind (Some (Decoder_Finish d)) (\<lambda>d'. pret (Some (d', msg_size hdr), y1))
          else if msg_id hdr = ID_DATA
          then (case y_read (unat (msg_size hdr)) y1 of (ok, bs, y2) \<Rightarrow>
                    if \<not> ok then pret (None, y2)
                    else pret (Some (Decoder_Append (block_of bs) d, timestamp), y2))
          else fail_with None (SendSyncFail ''invalid data message'' y1))"

partial_function (option) receive_data ::
  "'f sys \<Rightarrow> 'l codecs \<Rightarrow> CompressionType \<Rightarrow> nat option \<Rightarrow> 'l decoder \<Rightarrow> u32 \<Rightarrow> 'f sync \<Rightarrow> (u32 option \<times> 'f sync) prog" where
  "receive_data sys C t fd d timestamp y =
     pbind (take_message d timestamp y) (\<lambda>(m, y1).
       case m of
         None \<Rightarrow> pret (None, y1)
       | Some (d1, ts) \<Rightarrow>
           pbind (drain_decoder sys C t fd d1 y1) (\<lambda>((r, d2), y2).
             case r of
               Need_message \<Rightarrow> receive_data sys C t fd d2 ts y2
             | Drained b \<Rightarrow> pret (if b then Some ts else None, y2)))"

text \<open>The timestamp that is returned on success is the one of \<open>ID_DONE\<close>. The descriptor is closed on return.\<close>

definition y_close :: "'f sys \<Rightarrow> nat option \<Rightarrow> 'f sync \<Rightarrow> 'f sync" where
  "y_close sys fd y = (case fd of None \<Rightarrow> y | Some h \<Rightarrow> y\<lparr>y_fs := sys_close sys h (y_fs y)\<rparr>)"

definition handle_send_file_data ::
  "'f sys \<Rightarrow> 'l codecs \<Rightarrow> nat option \<Rightarrow> CompressionType \<Rightarrow> 'f sync \<Rightarrow> (u32 option \<times> 'f sync) prog" where
  "handle_send_file_data sys C fd compression y =
     pbind (Some (make_decoder C SYNC_DATA_MAX compression)) (\<lambda>d.
     pbind (receive_data sys C compression fd d 0 y) (\<lambda>(r, y1). pret (r, y_close sys fd y1)))"

text \<open>The label \<open>fail\<close>: skip what the client still sends.\<close>

definition store_buffer :: "bytes \<Rightarrow> 'f sync \<Rightarrow> 'f sync" where
  "store_buffer bs y = y\<lparr>y_buffer := bs @ drop (length bs) (y_buffer y)\<rparr>"

partial_function (option) skip_data :: "'f sync \<Rightarrow> 'f sync option" where
  "skip_data y =
     (case y_read 8 y of (ok, hdr, y1) \<Rightarrow>
          if \<not> ok then Some y1
          else
          if msg_id hdr \<noteq> ID_DATA then Some y1
          else if length (y_buffer y1) < unat (msg_size hdr) then Some y1
          else (case y_read (unat (msg_size hdr)) y1 of (ok, bs, y2) \<Rightarrow>
                    if \<not> ok then Some (store_buffer bs y2)
                    else skip_data (store_buffer bs y2)))"

definition send_failed :: "'f sys \<Rightarrow> string \<Rightarrow> bool \<Rightarrow> 'f sync \<Rightarrow> (u32 option \<times> 'f sync) prog" where
  "send_failed sys path do_unlink y =
     (case skip_data y of
        None \<Rightarrow> None
      | Some y1 \<Rightarrow> pret (None, if do_unlink then snd (y_try (sys_unlink sys path) y1) else y1))"

text \<open>The first half of \<open>handle_send_file\<close>: \<open>Inl\<close> is \<open>goto fail\<close> with the descriptor that is still open.\<close>

definition open_target :: "'f sys \<Rightarrow> string \<Rightarrow> u32 \<Rightarrow> 'f sync \<Rightarrow> (nat option + nat) \<times> 'f sync" where
  "open_target sys path mode y =
     (case y_open sys Create_exclusive path mode y of
        (Some h, y1) \<Rightarrow> (Inr h, y1)
      | (None, y1) \<Rightarrow>
          let retry = (\<lambda>y2. if fd_errno (y_sock y2) = EEXIST
                then case y_open sys Write_only path mode y2 of (Some h, y3) \<Rightarrow> (Inr h, y3) | (None, y3) \<Rightarrow> (Inl (Some 0), y3)
                else (Inl (Some 0), y2))
          in if fd_errno (y_sock y1) = ENOENT
             then case secure_mkdirs sys (sys_dirname sys path) y1 of
                    (False, y2) \<Rightarrow> (Inl None, y2)
                  | (True, y2) \<Rightarrow>
                      (case y_open sys Create_exclusive path mode y2 of (Some h, y3) \<Rightarrow> (Inr h, y3) | (None, y3) \<Rightarrow> retry y3)
             else retry y1)"

definition own_target :: "'f sys \<Rightarrow> string \<Rightarrow> nat \<Rightarrow> u32 \<Rightarrow> u32 \<Rightarrow> u32 \<Rightarrow> 'f sync \<Rightarrow> bool \<times> 'f sync" where
  "own_target sys path h uid gid mode y =
     (let done = (\<lambda>y1. (True, y1\<lparr>y_fs := sys_fchmod sys h mode (sys_restorecon sys path (y_fs y1))\<rparr>))
      in case y_try (sys_fchown sys h uid gid) y of
           (True, y1) \<Rightarrow> done y1
         | (False, y1) \<Rightarrow>
             (case sys_realpath sys path (y_fs y1) of
                Inl e \<Rightarrow> (False, y_errno e y1)
              | Inr real_path \<Rightarrow>
                  (case sys_lstat sys (sys_dirname sys real_path) (y_fs y1) of
                     Inl e \<Rightarrow> (False, y_errno e y1)
                   | Inr st \<Rightarrow> if S_ISDIR (st_mode st) \<and> st_mode st AND 1024 = 0 then (False, y1) else done y1)))"

text \<open>The second half: the data, the capabilities and the answer.\<close>

definition finish_send ::
  "'f sys \<Rightarrow> 'l codecs \<Rightarrow> string \<Rightarrow> nat option \<Rightarrow> 64 word \<Rightarrow> CompressionType \<Rightarrow> bool \<Rightarrow> 'f sync \<Rightarrow> (u32 option \<times> 'f sync) prog" where
  "finish_send sys C path fd capabilities compression do_unlink y =
     pbind (handle_send_file_data sys C fd compression y) (\<lambda>(r, y1).
       case r of
         None \<Rightarrow> send_failed sys path do_unlink y1
       | Some timestamp \<Rightarrow>
           (case update_capabilities sys path capabilities y1 of
              (False, y2) \<Rightarrow>
                pbind (SendSyncFailErrno sys ''update_capabilities failed'' y2) (\<lambda>(_, y3). send_failed sys path do_unlink y3)
            | (True, y2) \<Rightarrow>
                pbind (y_write (sync_msg ID_OKAY 0) y2) (\<lambda>(ok, y3). pret (if ok then Some timestamp else None, y3))))"

definition handle_send_file ::
  "'f sys \<Rightarrow> 'l codecs \<Rightarrow> string \<Rightarrow> u32 \<Rightarrow> u32 \<Rightarrow> 64 word \<Rightarrow> u32 \<Rightarrow> CompressionType \<Rightarrow> bool \<Rightarrow> bool \<Rightarrow> 'f sync
     \<Rightarrow> (u32 option \<times> 'f sync) prog" where
  "handle_send_file sys C path uid gid capabilities mode compression dry_run do_unlink y =
     (if dry_run then finish_send sys C path None capabilities compression do_unlink y
      else case open_target sys path mode y of
             (Inl None, y1) \<Rightarrow>
               pbind (SendSyncFailErrno sys ''secure_mkdirs() failed'' y1) (\<lambda>(_, y2). send_failed sys path do_unlink y2)
           | (Inl (Some _), y1) \<Rightarrow>
               pbind (SendSyncFailErrno sys ''couldn't create file'' y1) (\<lambda>(_, y2). send_failed sys path do_unlink y2)
           | (Inr h, y1) \<Rightarrow>
               (case own_target sys path h uid gid mode y1 of
                  (False, y2) \<Rightarrow>
                    pbind (SendSyncFailErrno sys (''fchown() failed uid: '' @ signed_decimal uid @ '' gid: '' @ signed_decimal gid) y2) (\<lambda>(_, y3).
                    pbind (send_failed sys path do_unlink y3) (\<lambda>(r, y4). pret (r, y_close sys (Some h) y4)))
                | (True, y2) \<Rightarrow> finish_send sys C path (Some h) capabilities compression do_unlink y2))"

subsection \<open>Receiving a symbolic link\<close>

text \<open>The text at the start of the buffer, up to the first NUL.\<close>

definition buffer_c_str :: "bytes \<Rightarrow> string result" where
  "buffer_c_str buf = (if CHR 0x00 \<in> set buf then Inr (takeWhile (\<lambda>c. c \<noteq> CHR 0x00) buf) else Inl Out_of_range)"

definition make_link :: "'f sys \<Rightarrow> string \<Rightarrow> string \<Rightarrow> 'f sync \<Rightarrow> string option \<times> 'f sync" where
  "make_link sys path target y =
     (if sys_readlink sys path (y_fs y) = Inr target then (None, y)
      else
        let y1 = snd (y_try (sys_unlink sys path) y);
            failed = (\<lambda>y2. (Some ''symlink failed'', y2))
        in case y_try (sys_symlink sys target path) y1 of
             (True, y2) \<Rightarrow> (None, y2)
           | (False, y2) \<Rightarrow>
               if fd_errno (y_sock y2) \<noteq> ENOENT then failed y2
               else (case secure_mkdirs sys (sys_dirname sys path) y2 of
                       (False, y3) \<Rightarrow> (Some ''secure_mkdirs failed'', y3)
                     | (True, y3) \<Rightarrow>
                         (case y_try (sys_symlink sys target path) y3 of (True, y4) \<Rightarrow> (None, y4) | (False, y4) \<Rightarrow> failed y4)))"

definition finish_link :: "'f sync \<Rightarrow> (u32 option \<times> 'f sync) prog" where
  "finish_link y =
     (case y_read 8 y of (ok, hdr, y1) \<Rightarrow>
          if \<not> ok then pret (None, y1)
          else
          if msg_id hdr = ID_DONE
          then pbind (y_write (sync_msg ID_OKAY 0) y1) (\<lambda>(ok, y2). pret (if ok then Some (msg_size hdr) else None, y2))
          else fail_with None (SendSyncFail ''invalid data message: expected ID_DONE'' y1))"

definition handle_send_link :: "'f sys \<Rightarrow> string \<Rightarrow> bool \<Rightarrow> 'f sync \<Rightarrow> (u32 option \<times> 'f sync) prog" where
  "handle_send_link sys path dry_run y =
     (case y_read 8 y of (ok, hdr, y1) \<Rightarrow>
          if \<not> ok then pret (None, y1)
          else
          if msg_id hdr \<noteq> ID_DATA then fail_with None (SendSyncFail ''invalid data message: expected ID_DATA'' y1)
          else if length (y_buffer y1) < unat (msg_size hdr) then fail_with None (SendSyncFail ''oversize data message'' y1)
          else case y_read (unat (msg_size hdr)) y1 of (ok, bs, y2) \<Rightarrow>
                   if \<not> ok then pret (None, store_buffer bs y2)
                   else
                   let y3 = store_buffer bs y2
                   in if dry_run then finish_link y3
                      else pbind (Some (buffer_c_str (y_buffer y3))) (\<lambda>target.
                        case make_link sys path target y3 of
                          (Some reason, y4) \<Rightarrow> fail_with None (SendSyncFailErrno sys reason y4)
                        | (None, y4) \<Rightarrow> finish_link y4))"

subsection \<open>Requests to send\<close>

definition copy_permissions :: "u32 \<Rightarrow> u32" where
  "copy_permissions mode =
     (let m1 = mode AND 511; m2 = m1 OR (drop_bit 3 m1 AND 56) in m2 OR (drop_bit 3 m2 AND 7))"

definition send_impl ::
  "'f sys \<Rightarrow> 'l codecs \<Rightarrow> string \<Rightarrow> u32 \<Rightarrow> CompressionType \<Rightarrow> bool \<Rightarrow> 'f sync \<Rightarrow> (bool \<times> 'f sync) prog" where
  "send_impl sys C path mode compression dry_run y =
     (let do_unlink = (\<not> dry_run \<and>
            (case sys_lstat sys path (y_fs y) of
               Inl _ \<Rightarrow> True
             | Inr st \<Rightarrow> S_ISREG (st_mode st) \<or> (S_ISLNK (st_mode st) \<and> \<not> S_ISLNK mode)));
          y1 = (if do_unlink then snd (y_try (sys_unlink sys path) y) else y)
      in pbind (if S_ISLNK mode then handle_send_link sys path dry_run y1
                else let m = copy_permissions mode;
                         (uid, gid, mode', capabilities) =
                           (if \<not> dry_run \<and> should_use_fs_config sys path then sys_fs_config sys path False (- 1, - 1, m, 0)
                            else (- 1, - 1, m, 0))
                     in handle_send_file sys C path uid gid capabilities mode' compression dry_run do_unlink y1) (\<lambda>(r, y2).
           case r of
             None \<Rightarrow> pret (False, y2)
           | Some timestamp \<Rightarrow> pret (True, y2\<lparr>y_fs := sys_lutimes sys path timestamp (y_fs y2)\<rparr>)))"

text \<open>\<open>strtoul\<close> with base 0 takes the base from the prefix; \<open>None\<close> is \<open>ERANGE\<close>.\<close>

definition strtoul_base0 :: "string \<Rightarrow> nat option" where
  "strtoul_base0 s =
     (let t = dropWhile is_space s;
          u = (if t \<noteq> [] \<and> (hd t = CHR ''-'' \<or> hd t = CHR ''+'') then tl t else t);
          base = (if strip_0x 16 u \<noteq> u then 16 else if u \<noteq> [] \<and> hd u = CHR ''0'' then 8 else 10)
      in if u \<noteq> [] \<and> digit_value base (hd u) \<noteq> None \<and> 2 ^ 64 \<le> fst (digits_value base (strip_0x base u) 0) then None
         else Some (fst (strtoul base s)))"

text \<open>The position of the last comma, and the parts on both sides of it.\<close>

definition split_last_comma :: "string \<Rightarrow> (string \<times> string) option" where
  "split_last_comma s =
     (if CHR '','' \<notin> set s then None
      else Some (rev (tl (dropWhile (\<lambda>c. c \<noteq> CHR '','') (rev s))), rev (takeWhile (\<lambda>c. c \<noteq> CHR '','') (rev s))))"

definition do_send_v1 :: "'f sys \<Rightarrow> 'l codecs \<Rightarrow> string \<Rightarrow> 'f sync \<Rightarrow> (bool \<times> 'f sync) prog" where
  "do_send_v1 sys C spec y =
     (case split_last_comma spec of
        None \<Rightarrow> fail_with False (SendSyncFail ''missing , in ID_SEND_V1'' y)
      | Some (path, mode) \<Rightarrow>
          (case strtoul_base0 mode of
             None \<Rightarrow> fail_with False (SendSyncFail ''bad mode'' (y_errno 34 y))
           | Some m \<Rightarrow> send_impl sys C path (of_nat m) CT_None False (y_errno 0 y)))"

text \<open>
  The flags of a setup message: \<open>Inl\<close> is the answer for bad flags, otherwise the compression and the flags
  that are left. The code has the same three tests for both directions.
\<close>

definition take_flag :: "u32 \<Rightarrow> CompressionType \<Rightarrow> (CompressionType option \<times> u32) option \<Rightarrow> (CompressionType option \<times> u32) option" where
  "take_flag flag t st =
     (case st of
        None \<Rightarrow> None
      | Some (compression, flags) \<Rightarrow>
          if flags AND flag = 0 then st
          else if compression \<noteq> None then None
          else Some (Some t, flags AND NOT flag))"

definition compression_flags :: "u32 \<Rightarrow> string + (CompressionType \<times> u32)" where
  "compression_flags orig =
     (case take_flag kSyncFlagZstd CT_Zstd (take_flag kSyncFlagLZ4 CT_LZ4 (take_flag kSyncFlagBrotli CT_Brotli (Some (None, orig)))) of
        None \<Rightarrow> Inl (''multiple compression flags received: '' @ signed_decimal orig)
      | Some (compression, flags) \<Rightarrow> Inr (case compression of None \<Rightarrow> CT_None | Some t \<Rightarrow> t, flags))"

definition do_send_v2 :: "'f sys \<Rightarrow> 'l codecs \<Rightarrow> string \<Rightarrow> 'f sync \<Rightarrow> (bool \<times> 'f sync) prog" where
  "do_send_v2 sys C path y =
     (case y_read 12 y of (ok, hdr, y1) \<Rightarrow>
          if \<not> ok then pret (False, y1)
          else
          (case compression_flags (setup_flags hdr) of
             Inl reason \<Rightarrow> fail_with False (SendSyncFail reason y1)
           | Inr (compression, flags) \<Rightarrow>
               let dry_run = (flags AND kSyncFlagDryRun \<noteq> 0); rest = flags AND NOT kSyncFlagDryRun
               in if rest \<noteq> 0 then fail_with False (SendSyncFail (''unknown flags: '' @ signed_decimal rest) y1)
                  else send_impl sys C path (setup_mode hdr) compression dry_run (y_errno 0 y1)))"

subsection \<open>Sending a file to the client\<close>

text \<open>The inner loop of \<open>recv_impl\<close>: \<open>None\<close> is a return of false, \<open>Some b\<close> whether more input is needed.\<close>

partial_function (option) drain_encoder ::
  "'f sys \<Rightarrow> (nat \<Rightarrow> char) \<Rightarrow> 'l codecs \<Rightarrow> CompressionType \<Rightarrow> 'l encoder \<Rightarrow> 'f sync \<Rightarrow> ((bool option \<times> 'l encoder) \<times> 'f sync) prog" where
  "drain_encoder sys fresh C t e y =
     pbind (Encode fresh C t e) (\<lambda>(r, output, e').
       if r = ER_Error then fail_with (None, e') (SendSyncFailErrno sys ''compress failed'' y)
       else pbind (if output = [] then pret (True, y)
                   else pbind (y_write (sync_msg ID_DATA (of_nat (length output))) y) (\<lambda>(ok, y1).
                        if \<not> ok then pret (False, y1) else y_write output y1)) (\<lambda>(ok, y1).
         if \<not> ok then pret ((None, e'), y1)
         else if r = ER_Done then pret ((Some False, e'), y1)
         else if r = ER_NeedInput then pret ((Some True, e'), y1)
         else drain_encoder sys fresh C t e' y1))"

partial_function (option) send_data ::
  "'f sys \<Rightarrow> (nat \<Rightarrow> char) \<Rightarrow> 'l codecs \<Rightarrow> CompressionType \<Rightarrow> nat \<Rightarrow> 'l encoder \<Rightarrow> 'f sync \<Rightarrow> (bool \<times> 'f sync) prog" where
  "send_data sys fresh C t h e y =
     (case sys_read sys h SYNC_DATA_MAX (y_fs y) of
        (Inl err, f) \<Rightarrow> fail_with False (SendSyncFailErrno sys ''read failed'' (y_errno err (y\<lparr>y_fs := f\<rparr>)))
      | (Inr bs, f) \<Rightarrow>
          pbind (Some (if bs = [] then Encoder_Finish e else Inr (Encoder_Append (block_of bs) e))) (\<lambda>e1.
          pbind (drain_encoder sys fresh C t e1 (y\<lparr>y_fs := f\<rparr>)) (\<lambda>((r, e2), y1).
            case r of
              None \<Rightarrow> pret (False, y1)
            | Some sending \<Rightarrow> if sending then send_data sys fresh C t h e2 y1 else y_write (sync_msg ID_DONE 0) y1)))"

definition recv_impl ::
  "'f sys \<Rightarrow> (nat \<Rightarrow> char) \<Rightarrow> 'l codecs \<Rightarrow> string \<Rightarrow> CompressionType \<Rightarrow> 'f sync \<Rightarrow> (bool \<times> 'f sync) prog" where
  "recv_impl sys fresh C path compression y =
     (case y_open sys Read_only path 0 y of
        (None, y1) \<Rightarrow> fail_with False (SendSyncFailErrno sys ''open failed'' y1)
      | (Some h, y1) \<Rightarrow>
          pbind (Some (make_encoder C SYNC_DATA_MAX compression)) (\<lambda>e.
          pbind (send_data sys fresh C compression h e y1) (\<lambda>(ok, y2). pret (ok, y_close sys (Some h) y2))))"

definition do_recv_v1 :: "'f sys \<Rightarrow> (nat \<Rightarrow> char) \<Rightarrow> 'l codecs \<Rightarrow> string \<Rightarrow> 'f sync \<Rightarrow> (bool \<times> 'f sync) prog" where
  "do_recv_v1 sys fresh C path y = recv_impl sys fresh C path CT_None y"

definition do_recv_v2 :: "'f sys \<Rightarrow> (nat \<Rightarrow> char) \<Rightarrow> 'l codecs \<Rightarrow> string \<Rightarrow> 'f sync \<Rightarrow> (bool \<times> 'f sync) prog" where
  "do_recv_v2 sys fresh C path y =
     (case y_read 8 y of (ok, hdr, y1) \<Rightarrow>
          if \<not> ok then pret (False, y1)
          else
          (case compression_flags (msg_size hdr) of
             Inl reason \<Rightarrow> fail_with False (SendSyncFail reason y1)
           | Inr (compression, flags) \<Rightarrow>
               if flags \<noteq> 0 then fail_with False (SendSyncFail (''unknown flags: '' @ signed_decimal flags) y1)
               else recv_impl sys fresh C path compression y1))"

subsection \<open>The service\<close>

text \<open>A name is what comes before its first NUL.\<close>

definition c_name :: "bytes \<Rightarrow> string" where
  "c_name bs = takeWhile (\<lambda>c. c \<noteq> CHR 0x00) bs"

definition handle_sync_command ::
  "'f sys \<Rightarrow> (nat \<Rightarrow> char) \<Rightarrow> 'l codecs \<Rightarrow> 'f sync \<Rightarrow> (bool \<times> 'f sync) prog" where
  "handle_sync_command sys fresh C y =
     (case y_read 8 y of (ok, request, y1) \<Rightarrow>
          if \<not> ok then fail_with False (SendSyncFail ''command read failure'' y1)
          else
          let path_length = unat (msg_size request); i = msg_id request
          in if 1024 < path_length then fail_with False (SendSyncFail ''path too long'' y1)
             else case y_read path_length y1 of (ok, bs, y2) \<Rightarrow>
                      if \<not> ok then fail_with False (SendSyncFail ''filename read failure'' y2)
                      else
                      let name = c_name bs
                      in if i = ID_LSTAT_V1 then do_lstat_v1 sys name y2
                         else if i = ID_LSTAT_V2 \<or> i = ID_STAT_V2 then do_stat_v2 sys i name y2
                         else if i = ID_LIST_V1 then do_list sys False name y2
                         else if i = ID_LIST_V2 then do_list sys True name y2
                         else if i = ID_SEND_V1 then do_send_v1 sys C name y2
                         else if i = ID_SEND_V2 then do_send_v2 sys C name y2
                         else if i = ID_RECV_V1 then do_recv_v1 sys fresh C name y2
                         else if i = ID_RECV_V2 then do_recv_v2 sys fresh C name y2
                         else if i = ID_QUIT then pret (False, y2)
                         else fail_with False (SendSyncFail (''unknown command '' @ hex_pad 8 (unat i)) y2))"

partial_function (option) sync_loop :: "'f sys \<Rightarrow> (nat \<Rightarrow> char) \<Rightarrow> 'l codecs \<Rightarrow> 'f sync \<Rightarrow> 'f sync prog" where
  "sync_loop sys fresh C y =
     pbind (handle_sync_command sys fresh C y) (\<lambda>(ok, y1). if ok then sync_loop sys fresh C y1 else pret y1)"

definition file_sync_service :: "'f sys \<Rightarrow> (nat \<Rightarrow> char) \<Rightarrow> 'l codecs \<Rightarrow> 'f sync \<Rightarrow> 'f sync prog" where
  "file_sync_service sys fresh C y = sync_loop sys fresh C (y\<lparr>y_buffer := replicate SYNC_DATA_MAX (CHR 0x00)\<rparr>)"

end
