(* ===== verification/File_Sync_Push.thy ===== *)
theory File_Sync_Push
  imports File_Sync_Service
begin

text \<open>
  What a push does, seen from the device: whatever the system calls answer, the service returns; it either
  says OKAY, and then the file holds exactly the data of the client, or it says FAIL.
\<close>

subsection \<open>Steps that do not touch the connection\<close>

definition same_link :: "'f sync \<Rightarrow> 'f sync \<Rightarrow> bool" where
  "same_link y y' \<longleftrightarrow> fd_in (y_sock y') = fd_in (y_sock y) \<and> fd_wr (y_sock y') = fd_wr (y_sock y) \<and> fd_out (y_sock y') = fd_out (y_sock y)
     \<and> y_buffer y' = y_buffer y"

definition same_files :: "(string \<Rightarrow> 'f \<Rightarrow> bytes option) \<Rightarrow> (nat \<Rightarrow> 'f \<Rightarrow> (string \<times> nat) option) \<Rightarrow> 'f sync \<Rightarrow> 'f sync \<Rightarrow> bool" where
  "same_files content handle y y' \<longleftrightarrow> (\<forall>p. content p (y_fs y') = content p (y_fs y)) \<and> (\<forall>h. handle h (y_fs y') = handle h (y_fs y))"

lemma same_link_refl [simp]: "same_link y y" "same_link y (y\<lparr>y_fs := f\<rparr>)" "same_link y (y_errno e y)" "same_link y (y_errno e (y\<lparr>y_fs := f\<rparr>))"
  by (simp_all add: same_link_def y_errno_def)

lemma same_link_trans: "same_link y1 y2 \<Longrightarrow> same_link y2 y3 \<Longrightarrow> same_link y1 y3"
  by (simp add: same_link_def)

lemma same_linkD:
  "same_link y y' \<Longrightarrow> pending y' bs = pending y bs" "same_link y y' \<Longrightarrow> answered y' = answered y" "same_link y y' \<Longrightarrow> willing k y' = willing k y"
  "same_link y y' \<Longrightarrow> y_buffer y' = y_buffer y"
  by (simp_all add: same_link_def pending_def answered_def willing_def)

lemma same_files_refl [simp]: "same_files content handle y y" "same_files content handle y (y_errno e y)"
  by (simp_all add: same_files_def)

lemma same_files_trans: "same_files content handle y1 y2 \<Longrightarrow> same_files content handle y2 y3 \<Longrightarrow> same_files content handle y1 y3"
  by (simp add: same_files_def)

lemma same_files_writing: "same_files content handle y y' \<Longrightarrow> writing content handle h p old bs (y_fs y') = writing content handle h p old bs (y_fs y)"
  by (simp add: same_files_def writing_def)

lemma keeps_same_files: "keeps content handle g \<Longrightarrow> same_files content handle y (y\<lparr>y_fs := g (y_fs y)\<rparr>)"
  by (simp add: keeps_def same_files_def)

lemma y_try_link: "y_try call y = (ok, y') \<Longrightarrow> same_link y y'"
  by (auto simp: y_try_def split: prod.splits option.splits)

lemma y_try_files: "keeps content handle (snd \<circ> call) \<Longrightarrow> y_try call y = (ok, y') \<Longrightarrow> same_files content handle y y'"
  using keeps_same_files [of content handle "snd \<circ> call" y] by (auto simp: y_try_def same_files_def split: prod.splits option.splits)

text \<open>A step on the meta data of files: the connection and the contents stay.\<close>

definition calm :: "(string \<Rightarrow> 'f \<Rightarrow> bytes option) \<Rightarrow> (nat \<Rightarrow> 'f \<Rightarrow> (string \<times> nat) option) \<Rightarrow> 'f sync \<Rightarrow> 'f sync \<Rightarrow> bool" where
  "calm content handle y y' \<longleftrightarrow> same_link y y' \<and> same_files content handle y y'"

lemma calm_refl [simp]: "calm content handle y y" "calm content handle y (y_errno e y)"
  by (simp_all add: calm_def)

lemma calm_trans: "calm content handle y1 y2 \<Longrightarrow> calm content handle y2 y3 \<Longrightarrow> calm content handle y1 y3"
  unfolding calm_def using same_link_trans same_files_trans by blast

lemma calm_try: "keeps content handle (snd \<circ> call) \<Longrightarrow> y_try call y = (ok, y') \<Longrightarrow> calm content handle y y'"
  using y_try_link y_try_files by (fastforce simp: calm_def)

lemma calm_fs: "keeps content handle g \<Longrightarrow> calm content handle y (y\<lparr>y_fs := g (y_fs y)\<rparr>)"
  by (simp add: calm_def keeps_same_files)

lemma fs_metaD:
  assumes "fs_meta_ok sys content handle"
  shows "keeps content handle (snd \<circ> sys_mkdir sys p m)" "keeps content handle (snd \<circ> sys_chown sys p u g)"
    "keeps content handle (sys_restorecon sys p)" "keeps content handle (sys_removexattr sys p)"
    "keeps content handle (snd \<circ> sys_setxattr sys p c)" "keeps content handle (snd \<circ> sys_fchown sys h u g)"
    "keeps content handle (sys_fchmod sys h m)" "keeps content handle (sys_lutimes sys p t)"
    "content q (sys_close sys h f) = content q f"
    "sys_unlink sys p f = (Some e, f') \<Longrightarrow> content p f' = content p f" "sys_unlink sys p f = (None, f'') \<Longrightarrow> content p f'' = None"
  using assms by (auto simp: fs_meta_ok_def)

lemma update_capabilities_calm:
  "fs_meta_ok sys content handle \<Longrightarrow> update_capabilities sys path caps y = (ok, y') \<Longrightarrow> calm content handle y y'"
  by (auto simp: update_capabilities_def split: if_splits dest!: calm_try [rotated] intro: calm_fs fs_metaD)

lemma mkdir_component_calm:
  assumes "fs_meta_ok sys content handle" "mkdir_component sys path y = (ok, y')"
  shows "calm content handle y y'"
proof -
  note k = fs_metaD [OF assms(1)]
  obtain uid gid mode caps where c: "(if should_use_fs_config sys path then sys_fs_config sys path True (- 1, - 1, 509, 0) else (- 1, - 1, 509, 0)) = (uid, gid, mode, caps)"
    by (metis prod_cases4)
  obtain ok1 y1 where 1: "y_try (sys_mkdir sys path mode) y = (ok1, y1)" by fastforce
  obtain ok2 y2 where 2: "y_try (sys_chown sys path uid gid) y1 = (ok2, y2)" by fastforce
  have "calm content handle y y1" "calm content handle y1 y2" "calm content handle y2 (y2\<lparr>y_fs := sys_restorecon sys path (y_fs y2)\<rparr>)"
    using calm_try [OF k(1) 1] calm_try [OF k(2) 2] calm_fs [OF k(3)] by auto
  moreover have "y' = y1 \<or> y' = y2 \<or> calm content handle (y2\<lparr>y_fs := sys_restorecon sys path (y_fs y2)\<rparr>) y'"
    using assms(2) 1 2 update_capabilities_calm [OF assms(1)] by (auto simp: mkdir_component_def c split: bool.splits if_splits)
  ultimately show ?thesis using calm_trans by blast
qed

lemma mkdir_components_calm:
  "fs_meta_ok sys content handle \<Longrightarrow> mkdir_components sys cs path y = (ok, y') \<Longrightarrow> calm content handle y y'"
proof (induction sys cs path y rule: mkdir_components.induct)
  case (2 sys c cs path y)
  let ?p = "(if path = [] \<or> last path \<noteq> CHR ''/'' then path @ ''/'' else path) @ c"
  obtain ok1 y1 where 1: "mkdir_component sys ?p y = (ok1, y1)" by fastforce
  have c: "calm content handle y y1" using mkdir_component_calm [OF "2.prems"(1) 1] .
  show ?case
  proof (cases "c = []")
    case False
    have "calm content handle y1 y'" if ok1
      using "2.IH"(2) [OF False refl 1 [symmetric]] that 1 False "2.prems" by (simp add: Let_def)
    then show ?thesis using 1 False "2.prems"(2) c calm_trans by (cases ok1) (auto simp: Let_def)
  qed (use 2 in simp)
qed simp

lemma secure_mkdirs_calm: "fs_meta_ok sys content handle \<Longrightarrow> secure_mkdirs sys path y = (ok, y') \<Longrightarrow> calm content handle y y'"
  by (auto simp: secure_mkdirs_def dest: mkdir_components_calm split: if_splits)

subsection \<open>The answer FAIL\<close>

definition said_fail :: "'f sync \<Rightarrow> 'f sync \<Rightarrow> bool" where
  "said_fail y y' \<longleftrightarrow> (\<exists>reason. length reason \<le> 1016 \<and> answered y' = answered y @ sync_msg ID_FAIL (of_nat (length reason)) @ reason)"

lemma SendSyncFail_ok:
  assumes "willing 1024 y" "length reason \<le> 1016"
  shows "\<exists>y'. SendSyncFail reason y = pret (True, y') \<and> said_fail y y'"
proof -
  have w: "willing (length (sync_msg ID_FAIL (of_nat (length reason))) + length reason) y"
    using assms by (auto elim: willing_mono)
  from y_write_ok [OF this] obtain y1 where 1: "y_write (sync_msg ID_FAIL (of_nat (length reason))) y = pret (True, y1)"
    "answered y1 = answered y @ sync_msg ID_FAIL (of_nat (length reason))" "willing (length reason) y1" by blast
  from y_write_ok [of reason 0 y1] 1(3) obtain y2 where 2: "y_write reason y1 = pret (True, y2)" "answered y2 = answered y1 @ reason" by auto
  have "said_fail y y2" using 1(2) 2(2) assms(2) by (auto simp: said_fail_def)
  with 1 2 show ?thesis by (simp add: SendSyncFail_def)
qed

lemma SendSyncFailErrno_ok:
  assumes "willing 1024 y" "length reason \<le> 700" "fs_ok sys content handle"
  shows "\<exists>y'. SendSyncFailErrno sys reason y = pret (True, y') \<and> said_fail y y'"
proof -
  have "length (sys_strerror sys (fd_errno (y_sock y))) \<le> 255" using assms(3) by (simp add: fs_ok_def)
  then show ?thesis unfolding SendSyncFailErrno_def using assms(2) by (intro SendSyncFail_ok [OF assms(1)]) simp
qed

lemma said_fail_link: "same_link y y1 \<Longrightarrow> said_fail y1 y' \<Longrightarrow> same_link y' y2 \<Longrightarrow> said_fail y y2"
  by (simp add: said_fail_def same_linkD)

text \<open>Skipping what the client still sends comes to an end and says nothing.\<close>

fun in_size :: "read_event list \<Rightarrow> nat" where
  "in_size [] = 0"
| "in_size (Data c # evs) = length c + in_size evs"
| "in_size (Read_error e # evs) = in_size evs"

lemma ReadFdExactly_frame:
  "ReadFdExactly n fd = (ok, bs, fd') \<Longrightarrow>
     fd_wr fd' = fd_wr fd \<and> fd_out fd' = fd_out fd \<and> in_size (fd_in fd') + length bs \<le> in_size (fd_in fd)"
proof (induction n fd arbitrary: ok bs fd' rule: ReadFdExactly.induct)
  case (1 n fd)
  obtain r fd1 where r: "adb_read n fd = (r, fd1)" by fastforce
  have f: "fd_wr fd1 = fd_wr fd" "fd_out fd1 = fd_out fd" "in_size (fd_in fd1) + (case r of None \<Rightarrow> 0 | Some c \<Rightarrow> length c) \<le> in_size (fd_in fd)"
    using r by (auto simp: adb_read.simps split: list.splits read_event.splits if_splits)
  show ?case
  proof (cases "n = 0 \<or> r = None \<or> r = Some []")
    case True
    then show ?thesis using "1.prems" r f by (auto simp: ReadFdExactly.simps [of n fd] split: if_splits)
  next
    case False
    then obtain c where c: "r = Some c" "c \<noteq> []" "n \<noteq> 0" by auto
    obtain ok2 cs fd2 where 2: "ReadFdExactly (n - length c) fd1 = (ok2, cs, fd2)" using prod_cases3 by blast
    from "1.IH" [OF c(3) r [symmetric] c(1,2) 2] 2 c r f "1.prems" show ?thesis by (auto simp: ReadFdExactly.simps [of n fd])
  qed
qed

lemma y_read_frame:
  assumes "y_read n y = (ok, bs, y')"
  shows "fd_wr (y_sock y') = fd_wr (y_sock y)" "fd_out (y_sock y') = fd_out (y_sock y)" "y_fs y' = y_fs y" "y_buffer y' = y_buffer y"
    "in_size (fd_in (y_sock y')) + length bs \<le> in_size (fd_in (y_sock y))" "length bs \<le> n" "ok \<longleftrightarrow> length bs = n"
  using assms ReadFdExactly_frame [of n "y_sock y"] ReadFdExactly_length [of n "y_sock y"] by (auto simp: y_read_def split: prod.splits)

lemma skip_data_total: "\<exists>y'. skip_data y = Some y' \<and> answered y' = answered y \<and> y_fs y' = y_fs y"
proof (induction "in_size (fd_in (y_sock y))" arbitrary: y rule: less_induct)
  case less
  obtain ok hdr y1 where 1: "y_read 8 y = (ok, hdr, y1)" using prod_cases3 by blast
  obtain ok2 bs y2 where 2: "y_read (unat (msg_size hdr)) y1 = (ok2, bs, y2)" using prod_cases3 by blast
  note f = y_read_frame [OF 1] y_read_frame [OF 2]
  have "\<exists>y'. skip_data (store_buffer bs y2) = Some y' \<and> answered y' = answered (store_buffer bs y2) \<and> y_fs y' = y_fs (store_buffer bs y2)" if ok
    using f that by (intro less) (auto simp: store_buffer_def)
  with f 1 2 show ?case by (subst skip_data.simps) (auto simp: store_buffer_def answered_def)
qed

lemma send_failed_total: "\<exists>y'. send_failed sys path do_unlink y = pret (None, y') \<and> answered y' = answered y"
proof -
  from skip_data_total [of y] obtain y1 where 1: "skip_data y = Some y1" "answered y1 = answered y" by blast
  obtain ok y2 where 2: "y_try (sys_unlink sys path) y1 = (ok, y2)" by fastforce
  with 1 same_linkD(2) [OF y_try_link [OF 2]] show ?thesis by (auto simp: send_failed_def)
qed

text \<open>The data of a file on the wire, cut into chunks.\<close>

definition data_msgs :: "bytes list \<Rightarrow> bytes" where
  "data_msgs cs = concat (map (\<lambda>c. sync_msg ID_DATA (of_nat (length c)) @ c) cs)"

subsection \<open>Decoders that do not lose data\<close>

text \<open>
  What the service relies on: a decoder hands out, in order, the bytes it owes for the blocks it was given,
  asks for more input when it owes none, and is done when it has been told that the input is complete.
\<close>

locale decoding =
  fixes C :: "'l codecs" and t :: CompressionType and fit :: "'l decoder \<Rightarrow> bool" and owed :: "'l decoder \<Rightarrow> bytes"
  assumes decode: "fit d \<Longrightarrow> \<exists>out d'. Decode C t d
          = pret (if owed d' = [] then if d_finished d then DR_Done else DR_NeedInput else DR_MoreOutput, out, d')
        \<and> fit d' \<and> d_finished d' = d_finished d \<and> owed d = out @ owed d' \<and> (owed d' \<noteq> [] \<longrightarrow> out \<noteq> [])"
    and append: "fit d \<Longrightarrow> fit (Decoder_Append (block_of bs) d) \<and> owed (Decoder_Append (block_of bs) d) = owed d @ bs"
    and finish: "fit (d\<lparr>d_finished := True\<rparr>) = fit d" "owed (d\<lparr>d_finished := True\<rparr>) = owed d"
begin

lemma drain_ok:
  assumes "fs_ok sys content handle" "fit d" "writing content handle h p old done (y_fs y)" "willing 1024 y"
  shows "\<exists>r d' y'. drain_decoder sys C t (Some h) d y = pret ((r, d'), y') \<and>
     (if r = Drained False then said_fail y y'
      else r = (if d_finished d then Drained True else Need_message) \<and> fit d' \<and> owed d' = [] \<and> d_finished d' = d_finished d
        \<and> writing content handle h p old (done @ owed d) (y_fs y') \<and> (\<forall>rest. pending y' rest = pending y rest)
        \<and> answered y' = answered y \<and> willing 1024 y' \<and> y_buffer y' = y_buffer y)"
  using assms(2,3,4)
proof (induction "length (owed d)" arbitrary: d "done" y rule: less_induct)
  case less
  from decode [OF less.prems(1)] obtain out d1 where
    d1: "Decode C t d = pret (if owed d1 = [] then if d_finished d then DR_Done else DR_NeedInput else DR_MoreOutput, out, d1)"
      "fit d1" "d_finished d1 = d_finished d" "owed d = out @ owed d1" "owed d1 \<noteq> [] \<longrightarrow> out \<noteq> []" by blast
  have w: "fs_write_ok sys content handle" using assms(1) by (simp add: fs_ok_def)
  from write_file_ok [OF w less.prems(2), of out] obtain ok y1 where
    y1: "write_file sys h out y = pret (ok, y1)" "ok \<Longrightarrow> writing content handle h p old (done @ out) (y_fs y1)"
      "\<And>rest. pending y1 rest = pending y rest" "answered y1 = answered y" "\<And>k. willing k y1 = willing k y" "y_buffer y1 = y_buffer y" by blast
  show ?case
  proof (cases ok)
    case False
    from SendSyncFailErrno_ok [OF _ _ assms(1), of y1 "''write failed''"] y1(5) less.prems(3) obtain y2 where
      "SendSyncFailErrno sys ''write failed'' y1 = pret (True, y2)" "said_fail y1 y2" by auto
    then show ?thesis using d1 y1 False by (subst drain_decoder.simps) (simp add: fail_with_def said_fail_def)
  next
    case True
    show ?thesis
    proof (cases "owed d1 = []")
      case True
      with \<open>ok\<close> d1 y1 less.prems show ?thesis by (subst drain_decoder.simps) simp
    next
      case False
      then have l: "length (owed d1) < length (owed d)" using d1(4,5) by simp
      have "drain_decoder sys C t (Some h) d y = drain_decoder sys C t (Some h) d1 y1"
        using False \<open>ok\<close> d1 y1 by (subst drain_decoder.simps) simp
      moreover have "said_fail y1 y' = said_fail y y'" for y' using y1(4) by (simp add: said_fail_def)
      moreover have "done @ owed d = (done @ out) @ owed d1" "willing 1024 y1" using d1(4) y1(5) less.prems(3) by simp_all
      ultimately show ?thesis using less.hyps [OF l d1(2) y1(2) [OF \<open>ok\<close>]] unfolding y1(3,4,6) d1(3) by (simp only: append_assoc)
    qed
  qed
qed


lemma take_data:
  assumes "pending y (sync_msg ID_DATA (of_nat (length c)) @ c @ rest)" "length c < 2 ^ 32"
  shows "\<exists>y1. take_message d ts y = pret (Some (Decoder_Append (block_of c) d, ts), y1) \<and> pending y1 rest
     \<and> answered y1 = answered y \<and> (\<forall>k. willing k y1 = willing k y) \<and> y_buffer y1 = y_buffer y \<and> y_fs y1 = y_fs y"
proof -
  from y_read_msg [OF assms(1)] obtain evs where 1: "y_read 8 y = (True, sync_msg ID_DATA (of_nat (length c)), y\<lparr>y_sock := (y_sock y)\<lparr>fd_in := evs\<rparr>\<rparr>)"
    "delivers evs (c @ rest)" by blast
  let ?y = "y\<lparr>y_sock := (y_sock y)\<lparr>fd_in := evs\<rparr>\<rparr>"
  from y_read_ok [of ?y c rest] 1(2) obtain evs2 where 2: "y_read (length c) ?y = (True, c, ?y\<lparr>y_sock := (y_sock ?y)\<lparr>fd_in := evs2\<rparr>\<rparr>)" "delivers evs2 rest" by auto
  have n: "unat (of_nat (length c) :: u32) = length c" using assms(2) by (simp add: unat_of_nat)
  have i: "ID_DATA \<noteq> ID_DONE" by (simp add: sync_ids)
  show ?thesis using 1(1) 2 n i by (simp add: take_message_def)
qed

lemma take_done:
  assumes "pending y (sync_msg ID_DONE ts @ rest)" "\<not> d_finished d"
  shows "\<exists>y1. take_message d ts0 y = pret (Some (d\<lparr>d_finished := True\<rparr>, ts), y1) \<and> pending y1 rest
     \<and> answered y1 = answered y \<and> (\<forall>k. willing k y1 = willing k y) \<and> y_buffer y1 = y_buffer y \<and> y_fs y1 = y_fs y"
proof -
  from y_read_msg [OF assms(1)] obtain evs where "y_read 8 y = (True, sync_msg ID_DONE ts, y\<lparr>y_sock := (y_sock y)\<lparr>fd_in := evs\<rparr>\<rparr>)"
    "delivers evs rest" by blast
  then show ?thesis using assms(2) by (simp add: take_message_def Decoder_Finish_def)
qed

lemma receive_ok:
  assumes fs: "fs_ok sys content handle"
  shows "fit d \<Longrightarrow> owed d = [] \<Longrightarrow> \<not> d_finished d \<Longrightarrow> writing content handle h p old done (y_fs y) \<Longrightarrow> willing 1024 y
    \<Longrightarrow> pending y (data_msgs cs @ sync_msg ID_DONE ts @ rest) \<Longrightarrow> \<forall>c \<in> set cs. length c < 2 ^ 32
    \<Longrightarrow> \<exists>r y'. receive_data sys C t (Some h) d ts0 y = pret (r, y') \<and>
       (case r of None \<Rightarrow> said_fail y y'
        | Some ts' \<Rightarrow> ts' = ts \<and> writing content handle h p old (done @ concat cs) (y_fs y') \<and> pending y' rest
            \<and> answered y' = answered y \<and> willing 1024 y' \<and> y_buffer y' = y_buffer y)"
proof (induction cs arbitrary: d "done" y ts0)
  case Nil
  have "pending y (sync_msg ID_DONE ts @ rest)" using Nil(6) by (simp add: data_msgs_def)
  from take_done [OF this Nil(3), of ts0] obtain y1 where
    y1: "take_message d ts0 y = pret (Some (d\<lparr>d_finished := True\<rparr>, ts), y1)" "pending y1 rest" "answered y1 = answered y"
      "willing 1024 y1" "y_buffer y1 = y_buffer y" "y_fs y1 = y_fs y" using Nil(5) by auto
  have "fit (d\<lparr>d_finished := True\<rparr>)" "writing content handle h p old done (y_fs y1)" using Nil(1,4) y1(6) finish by simp_all
  from drain_ok [OF fs this y1(4)] y1 Nil(2) finish show ?case
    by (subst receive_data.simps) (fastforce simp: said_fail_def split: if_splits)
next
  case (Cons c cs)
  have p: "pending y (sync_msg ID_DATA (of_nat (length c)) @ c @ data_msgs cs @ sync_msg ID_DONE ts @ rest)" "length c < 2 ^ 32"
    using Cons.prems by (simp_all add: data_msgs_def)
  from take_data [OF p, of d ts0] obtain y1 where
    y1: "take_message d ts0 y = pret (Some (Decoder_Append (block_of c) d, ts0), y1)" "pending y1 (data_msgs cs @ sync_msg ID_DONE ts @ rest)"
      "answered y1 = answered y" "willing 1024 y1" "y_buffer y1 = y_buffer y" "y_fs y1 = y_fs y" using Cons.prems(5) by auto
  let ?d = "Decoder_Append (block_of c) d"
  have d: "fit ?d" "owed ?d = c" "\<not> d_finished ?d" using append [OF Cons.prems(1)] Cons.prems(2,3) by (simp_all add: Decoder_Append_def)
  have w: "writing content handle h p old done (y_fs y1)" using Cons.prems(4) y1(6) by simp
  from drain_ok [OF fs d(1) w y1(4)] obtain r d' y2 where
    2: "drain_decoder sys C t (Some h) ?d y1 = pret ((r, d'), y2)" "r = Drained False \<Longrightarrow> said_fail y1 y2"
      "r \<noteq> Drained False \<Longrightarrow> r = Need_message \<and> fit d' \<and> owed d' = [] \<and> \<not> d_finished d' \<and> writing content handle h p old (done @ c) (y_fs y2)
         \<and> (\<forall>rest. pending y2 rest = pending y1 rest) \<and> answered y2 = answered y1 \<and> willing 1024 y2 \<and> y_buffer y2 = y_buffer y1"
    using d by (auto split: if_splits)
  show ?case
  proof (cases "r = Drained False")
    case True
    then show ?thesis using y1 2 by (subst receive_data.simps) (simp add: said_fail_def)
  next
    case False
    have "receive_data sys C t (Some h) d ts0 y = receive_data sys C t (Some h) d' ts0 y2"
      using y1(1) 2(1,3) False by (subst receive_data.simps) simp
    moreover have "\<exists>r y'. receive_data sys C t (Some h) d' ts0 y2 = pret (r, y') \<and>
       (case r of None \<Rightarrow> said_fail y2 y'
        | Some ts' \<Rightarrow> ts' = ts \<and> writing content handle h p old ((done @ c) @ concat cs) (y_fs y') \<and> pending y' rest
            \<and> answered y' = answered y2 \<and> willing 1024 y' \<and> y_buffer y' = y_buffer y2)"
      using 2(3) [OF False] y1(2) Cons.prems(7) by (intro Cons.IH) auto
    moreover have "said_fail y2 y' = said_fail y y'" "answered y2 = answered y" "y_buffer y2 = y_buffer y" for y'
      using 2(3) [OF False] y1(3,5) by (simp_all add: said_fail_def)
    ultimately show ?thesis by (simp only: append_assoc concat.simps)
  qed
qed

end

definition null_fit :: "'l decoder \<Rightarrow> bool" where
  "null_fit d \<longleftrightarrow> good_iov (d_input d) \<and> 0 < d_room d \<and> d_room d < 2 ^ 32"

definition null_owed :: "'l decoder \<Rightarrow> bytes" where
  "null_owed d = iov_bytes (d_input d)"

interpretation null: decoding C CT_None null_fit null_owed for C :: "'l codecs"
proof unfold_locales
  fix d :: "'l decoder" assume d: "null_fit d"
  then obtain v where v: "NullDecoder_Decode d =
      pret (if length (iov_bytes (d_input d)) \<le> d_room d then if d_finished d then DR_Done else DR_NeedInput else DR_MoreOutput,
            take (d_room d) (iov_bytes (d_input d)), d\<lparr>d_input := v\<rparr>)" "good_iov v" "iov_bytes v = drop (d_room d) (iov_bytes (d_input d))"
    using NullDecoder_ok [of d] by (auto simp: null_fit_def)
  then show "\<exists>out d'. Decode C CT_None d
          = pret (if null_owed d' = [] then if d_finished d then DR_Done else DR_NeedInput else DR_MoreOutput, out, d')
        \<and> null_fit d' \<and> d_finished d' = d_finished d \<and> null_owed d = out @ null_owed d' \<and> (null_owed d' \<noteq> [] \<longrightarrow> out \<noteq> [])"
    using d by (intro exI [of _ "take (d_room d) (iov_bytes (d_input d))"] exI [of _ "d\<lparr>d_input := v\<rparr>"]) (auto simp: Decode_def null_owed_def null_fit_def)
qed (auto simp: null_fit_def null_owed_def Decoder_Append_def good_iov_append)

lemma handle_send_file_data_ok:
  assumes "fs_ok sys content handle" "writing content handle h p old [] (y_fs y)" "willing 1024 y"
    "pending y (data_msgs cs @ sync_msg ID_DONE ts @ rest)" "\<forall>c \<in> set cs. length c < 2 ^ 32"
  shows "\<exists>r y'. handle_send_file_data sys C (Some h) CT_None y = pret (r, y') \<and>
     (case r of None \<Rightarrow> said_fail y y'
      | Some ts' \<Rightarrow> ts' = ts \<and> content p (y_fs y') = Some (concat cs @ drop (length (concat cs)) old) \<and> pending y' rest
          \<and> answered y' = answered y \<and> willing 1024 y' \<and> y_buffer y' = y_buffer y)"
proof -
  let ?d = "new_decoder SYNC_DATA_MAX (BrotliDecoderCreate C)"
  have d: "null_fit ?d" "null_owed ?d = []" "\<not> d_finished ?d"
    by (simp_all add: null_fit_def null_owed_def new_decoder_def SYNC_DATA_MAX_def)
  have k: "content p (sys_close sys h f) = content p f" for f using assms(1) fs_metaD(9) by (force simp: fs_ok_def)
  from null.receive_ok [OF assms(1) d assms(2,3,4,5), of C 0] obtain r y1 where
    1: "receive_data sys C CT_None (Some h) ?d 0 y = pret (r, y1)"
      "case r of None \<Rightarrow> said_fail y y1 | Some ts' \<Rightarrow> ts' = ts \<and> writing content handle h p old ([] @ concat cs) (y_fs y1) \<and> pending y1 rest
            \<and> answered y1 = answered y \<and> willing 1024 y1 \<and> y_buffer y1 = y_buffer y" by blast
  then have "handle_send_file_data sys C (Some h) CT_None y = pret (r, y_close sys (Some h) y1)"
    by (simp add: handle_send_file_data_def make_decoder_def)
  with 1(2) k show ?thesis by (auto simp: y_close_def writing_def said_fail_def split: option.splits)
qed

subsection \<open>Opening the file\<close>

lemma y_open_cases:
  assumes "fs_open_ok sys content handle" "y_open sys fl p m y = (r, y')"
  shows "same_link y y'" "r = None \<Longrightarrow> content p (y_fs y') = content p (y_fs y)"
    "r = Some h \<Longrightarrow> fl = Create_exclusive \<Longrightarrow> writing content handle h p [] [] (y_fs y')"
    "r = Some h \<Longrightarrow> fl = Write_only \<Longrightarrow> \<exists>old. content p (y_fs y) = Some old \<and> writing content handle h p old [] (y_fs y')"
  using assms by (auto simp: y_open_def fs_open_ok_def writing_def split: prod.splits sum.splits; force)+

text \<open>What an existing file may leave behind the new data.\<close>

definition leftover :: "(string \<Rightarrow> 'f \<Rightarrow> bytes option) \<Rightarrow> string \<Rightarrow> 'f sync \<Rightarrow> bytes \<Rightarrow> bool" where
  "leftover content p y old \<longleftrightarrow> old = [] \<or> content p (y_fs y) = Some old"

lemma open_target_ok:
  assumes "fs_ok sys content handle" "open_target sys p m y = (r, y')"
  shows "same_link y y' \<and> (\<forall>h. r = Inr h \<longrightarrow> (\<exists>old. leftover content p y old \<and> writing content handle h p old [] (y_fs y')))"
proof -
  have o: "fs_open_ok sys content handle" and meta: "fs_meta_ok sys content handle" using assms(1) by (simp_all add: fs_ok_def)
  note oc = y_open_cases [OF o]
  obtain r1 y1 where 1: "y_open sys Create_exclusive p m y = (r1, y1)" by fastforce
  obtain ok y2 where 2: "secure_mkdirs sys (sys_dirname sys p) y1 = (ok, y2)" by fastforce
  obtain r3 y3 where 3: "y_open sys Create_exclusive p m y2 = (r3, y3)" by fastforce
  obtain r4 y4 where 4: "y_open sys Write_only p m y3 = (r4, y4)" by fastforce
  obtain r5 y5 where 5: "y_open sys Write_only p m y1 = (r5, y5)" by fastforce
  have c: "same_link y1 y2" "content p (y_fs y2) = content p (y_fs y1)"
    using secure_mkdirs_calm [OF meta 2] by (simp_all add: calm_def same_files_def)
  have l: "same_link y y1" "same_link y y2" "same_link y y3" "same_link y y4" "same_link y y5"
    using oc(1) [OF 1] c(1) oc(1) [OF 3] oc(1) [OF 4] oc(1) [OF 5] same_link_trans by blast+
  show ?thesis
  proof (cases "r1 = None")
    case False
    with 1 assms(2) l oc(3) [OF 1] show ?thesis by (auto simp: open_target_def leftover_def)
  next
    case r1: True
    have k: "content p (y_fs y1) = content p (y_fs y)" "r3 = None \<Longrightarrow> content p (y_fs y3) = content p (y_fs y)"
      using oc(2) [OF 1 r1] oc(2) [OF 3] c(2) by simp_all
    have "(r, y') \<in> {(Inl None, y2), (Inl (Some 0), y3), (Inl (Some 0), y1), (Inl (Some 0), y4), (Inl (Some 0), y5)}
        \<or> (\<exists>h. (r, y') = (Inr h, y3) \<and> r3 = Some h) \<or> (\<exists>h. (r, y') = (Inr h, y4) \<and> r3 = None \<and> r4 = Some h) \<or> (\<exists>h. (r, y') = (Inr h, y5) \<and> r5 = Some h)"
      using assms(2) r1 by (auto simp: open_target_def 1 2 3 4 5 Let_def split: if_splits option.splits bool.splits)
    then show ?thesis using l k oc(3) [OF 3] oc(4) [OF 4] oc(4) [OF 5] by (auto simp: leftover_def)
  qed
qed

lemma own_target_calm:
  assumes "fs_ok sys content handle" "own_target sys p h uid gid m y = (ok, y')"
  shows "calm content handle y y'"
proof -
  have meta: "fs_meta_ok sys content handle" using assms(1) by (simp add: fs_ok_def)
  note k = fs_metaD [OF meta]
  obtain ok1 y1 where 1: "y_try (sys_fchown sys h uid gid) y = (ok1, y1)" by fastforce
  let ?y2 = "y1\<lparr>y_fs := sys_restorecon sys p (y_fs y1)\<rparr>"
  have c1: "calm content handle y y1" using calm_try [OF k(6) 1] .
  have "calm content handle y1 ?y2" "calm content handle ?y2 (?y2\<lparr>y_fs := sys_fchmod sys h m (y_fs ?y2)\<rparr>)" by (rule calm_fs [OF k(3)], rule calm_fs [OF k(7)])
  from calm_trans [OF c1 calm_trans [OF this]] have c2: "calm content handle y (y1\<lparr>y_fs := sys_fchmod sys h m (sys_restorecon sys p (y_fs y1))\<rparr>)" by simp
  have c3: "calm content handle y (y_errno e y1)" for e using c1 calm_trans calm_refl(2) by blast
  show ?thesis using assms(2) c1 c2 c3 by (auto simp: own_target_def 1 Let_def split: bool.splits sum.splits if_splits)
qed

subsection \<open>The whole of a push\<close>

text \<open>A push that ends: OKAY with the data in the file, or FAIL.\<close>

definition pushed :: "(string \<Rightarrow> 'f \<Rightarrow> bytes option) \<Rightarrow> string \<Rightarrow> bytes \<Rightarrow> bytes \<Rightarrow> 'f sync \<Rightarrow> bool \<Rightarrow> 'f sync \<Rightarrow> bool" where
  "pushed content p data rest y ok y' \<longleftrightarrow>
     (if ok then answered y' = answered y @ sync_msg ID_OKAY 0 \<and> pending y' rest \<and> y_buffer y' = y_buffer y
        \<and> (\<exists>old. leftover content p y old \<and> content p (y_fs y') = Some (data @ drop (length data) old))
      else said_fail y y')"

lemma finish_send_ok:
  assumes fs: "fs_ok sys content handle" and w: "writing content handle h p old [] (y_fs y)" and s: "willing 1024 y"
    and pd: "pending y (data_msgs cs @ sync_msg ID_DONE ts @ rest)" "\<forall>c \<in> set cs. length c < 2 ^ 32"
  shows "\<exists>r y'. finish_send sys C p (Some h) caps CT_None do_unlink y = pret (r, y') \<and>
     (case r of None \<Rightarrow> said_fail y y'
      | Some ts' \<Rightarrow> ts' = ts \<and> content p (y_fs y') = Some (concat cs @ drop (length (concat cs)) old) \<and> pending y' rest
          \<and> answered y' = answered y @ sync_msg ID_OKAY 0 \<and> y_buffer y' = y_buffer y)"
proof -
  have meta: "fs_meta_ok sys content handle" using fs by (simp add: fs_ok_def)
  from handle_send_file_data_ok [OF fs w s pd, of C] obtain r y1 where
    1: "handle_send_file_data sys C (Some h) CT_None y = pret (r, y1)" "r = None \<Longrightarrow> said_fail y y1"
      "r \<noteq> None \<Longrightarrow> r = Some ts \<and> content p (y_fs y1) = Some (concat cs @ drop (length (concat cs)) old) \<and> pending y1 rest
          \<and> answered y1 = answered y \<and> willing 1024 y1 \<and> y_buffer y1 = y_buffer y" by (fastforce split: option.splits)
  obtain ok y2 where 2: "update_capabilities sys p caps y1 = (ok, y2)" by fastforce
  from send_failed_total obtain u where u: "\<And>y. send_failed sys p do_unlink y = pret (None, u y)" "\<And>y. answered (u y) = answered y" by metis
  show ?thesis
  proof (cases "r = None")
    case True
    with 1 u show ?thesis by (simp add: finish_send_def said_fail_def)
  next
    case False
    note r = 1(3) [OF False]
    have c: "calm content handle y1 y2" using update_capabilities_calm [OF meta 2] .
    then have sl: "same_link y1 y2" by (simp add: calm_def)
    have y2: "content p (y_fs y2) = content p (y_fs y1)" "pending y2 rest" "answered y2 = answered y" "willing 1024 y2" "y_buffer y2 = y_buffer y"
      using r c same_linkD [OF sl] by (simp_all add: calm_def same_files_def)
    show ?thesis
    proof (cases ok)
      case True
      from y_write_ok [of "sync_msg ID_OKAY 0" 0 y2] y2(4) willing_mono obtain y3 where
        "y_write (sync_msg ID_OKAY 0) y2 = pret (True, y3)" "answered y3 = answered y2 @ sync_msg ID_OKAY 0" "same_but_output y2 y3" by fastforce
      with True 1(1) 2 r y2 show ?thesis by (auto simp: finish_send_def same_but_output_def pending_def)
    next
      case False
      from SendSyncFailErrno_ok [OF y2(4) _ fs, of "''update_capabilities failed''"] obtain y3 where
        "SendSyncFailErrno sys ''update_capabilities failed'' y2 = pret (True, y3)" "said_fail y2 y3" by auto
      with False 1(1) 2 r y2 u show ?thesis by (simp add: finish_send_def said_fail_def)
    qed
  qed
qed

lemma length_signed_decimal: "length (signed_decimal w) \<le> 11"
proof -
  have "nat (- sint w) < 10 ^ 10" "unat w < 10 ^ 10" using sint_ge [of w] unsigned_less [of w, where ?'a = nat] by simp_all
  then have "length (decimal (nat (- sint w))) \<le> 10" "length (decimal (unat w)) \<le> 10" unfolding decimal_def by (intro length_digits_le; simp)+
  then show ?thesis by (simp add: signed_decimal_def)
qed

lemma handle_send_file_ok:
  assumes fs: "fs_ok sys content handle" and s: "willing 1024 y"
    and pd: "pending y (data_msgs cs @ sync_msg ID_DONE ts @ rest)" "\<forall>c \<in> set cs. length c < 2 ^ 32"
  shows "\<exists>r y'. handle_send_file sys C p uid gid caps mode CT_None False do_unlink y = pret (r, y') \<and> (r = None \<or> r = Some ts)
    \<and> pushed content p (concat cs) rest y (r \<noteq> None) y'"
proof -
  obtain r1 y1 where 1: "open_target sys p mode y = (r1, y1)" by fastforce
  note o = open_target_ok [OF fs 1]
  from send_failed_total obtain u where u: "\<And>y. send_failed sys p do_unlink y = pret (None, u y)" "\<And>y. answered (u y) = answered y" by metis
  have w1: "willing 1024 y1" "answered y1 = answered y" using o s same_linkD by metis+
  show ?thesis
  proof (cases r1)
    case (Inl e)
    from SendSyncFailErrno_ok [OF w1(1) _ fs, of "''secure_mkdirs() failed''"] SendSyncFailErrno_ok [OF w1(1) _ fs, of "''couldn't create file''"]
    obtain y2 y3 where "SendSyncFailErrno sys ''secure_mkdirs() failed'' y1 = pret (True, y2)" "said_fail y1 y2"
      "SendSyncFailErrno sys ''couldn't create file'' y1 = pret (True, y3)" "said_fail y1 y3" by auto
    with Inl 1 u w1 show ?thesis by (cases e) (simp_all add: handle_send_file_def pushed_def said_fail_def)
  next
    case (Inr h)
    obtain ok y2 where 2: "own_target sys p h uid gid mode y1 = (ok, y2)" by fastforce
    have c: "calm content handle y1 y2" using own_target_calm [OF fs 2] .
    then have sl: "same_link y y2" using o same_link_trans by (auto simp: calm_def)
    from o Inr obtain old where old: "leftover content p y old" "writing content handle h p old [] (y_fs y1)" by blast
    then have w2: "writing content handle h p old [] (y_fs y2)" using c same_files_writing by (fastforce simp: calm_def)
    have y2: "willing 1024 y2" "pending y2 (data_msgs cs @ sync_msg ID_DONE ts @ rest)" "answered y2 = answered y" "y_buffer y2 = y_buffer y"
      using same_linkD [OF sl] s pd(1) by simp_all
    show ?thesis
    proof (cases ok)
      case True
      from finish_send_ok [OF fs w2 y2(1,2) pd(2), of C caps do_unlink] obtain r y3 where
        3: "finish_send sys C p (Some h) caps CT_None do_unlink y2 = pret (r, y3)" "r = None \<or> r = Some ts" "pushed content p (concat cs) rest y (r \<noteq> None) y3"
        using old(1) y2(3,4) by (fastforce simp: pushed_def said_fail_def split: option.splits)
      then show ?thesis using True 1 2 Inr by (simp add: handle_send_file_def)
    next
      case False
      let ?m = "''fchown() failed uid: '' @ signed_decimal uid @ '' gid: '' @ signed_decimal gid"
      have "length ?m \<le> 700" using length_signed_decimal [of uid] length_signed_decimal [of gid] by simp
      from SendSyncFailErrno_ok [OF y2(1) this fs] obtain y3 where "SendSyncFailErrno sys ?m y2 = pret (True, y3)" "said_fail y2 y3" by blast
      with False 1 2 Inr u y2 show ?thesis by (simp add: handle_send_file_def pushed_def said_fail_def y_close_def)
    qed
  qed
qed

lemma send_impl_ok:
  assumes fs: "fs_ok sys content handle" and s: "willing 1024 y" and mode: "\<not> S_ISLNK mode"
    and pd: "pending y (data_msgs cs @ sync_msg ID_DONE ts @ rest)" "\<forall>c \<in> set cs. length c < 2 ^ 32"
  shows "\<exists>ok y'. send_impl sys C p mode CT_None False y = pret (ok, y') \<and> pushed content p (concat cs) rest y ok y'"
proof -
  have meta: "fs_meta_ok sys content handle" using fs by (simp add: fs_ok_def)
  define du where "du = (case sys_lstat sys p (y_fs y) of Inl _ \<Rightarrow> True | Inr st \<Rightarrow> S_ISREG (st_mode st) \<or> (S_ISLNK (st_mode st) \<and> \<not> S_ISLNK mode))"
  define y1 where "y1 = (if du then snd (y_try (sys_unlink sys p) y) else y)"
  obtain uid gid mode' caps where conf: "(if should_use_fs_config sys p then sys_fs_config sys p False (- 1, - 1, copy_permissions mode, 0)
      else (- 1, - 1, copy_permissions mode, 0)) = (uid, gid, mode', caps)" by (metis prod_cases4)
  have sl: "same_link y y1" using y_try_link [OF surjective_pairing] unfolding y1_def by auto
  have c: "content p (y_fs y1) = None \<or> content p (y_fs y1) = content p (y_fs y)"
    using fs_metaD(10,11) [OF meta] by (auto simp: y1_def y_try_def split: prod.splits option.splits)
  have "willing 1024 y1" "pending y1 (data_msgs cs @ sync_msg ID_DONE ts @ rest)" using same_linkD [OF sl] s pd(1) by simp_all
  from handle_send_file_ok [OF fs this pd(2), of C p uid gid caps mode' du] obtain r y2 where
    2: "handle_send_file sys C p uid gid caps mode' CT_None False du y1 = pret (r, y2)" "r = None \<or> r = Some ts"
      "pushed content p (concat cs) rest y1 (r \<noteq> None) y2" by blast
  have lo: "leftover content p y1 old \<Longrightarrow> leftover content p y old" for old using c by (auto simp: leftover_def)
  have p: "pushed content p (concat cs) rest y (r \<noteq> None) y2"
    using 2(3) lo same_linkD [OF sl] by (cases r) (auto simp: pushed_def said_fail_def)
  have "send_impl sys C p mode CT_None False y
      = pret (case r of None \<Rightarrow> (False, y2) | Some ts \<Rightarrow> (True, y2\<lparr>y_fs := sys_lutimes sys p ts (y_fs y2)\<rparr>))"
    using 2(1,2) mode conf by (auto simp: send_impl_def Let_def du_def [symmetric] y1_def [symmetric])
  moreover have "content p (sys_lutimes sys p ts (y_fs y2)) = content p (y_fs y2)" using fs_metaD(8) [OF meta] by (simp add: keeps_def)
  ultimately show ?thesis using p 2(2) by (auto simp: pushed_def said_fail_def)
qed

subsection \<open>Requests\<close>

text \<open>The two forms of a request to send.\<close>

definition push_v1 :: "string \<Rightarrow> u32 \<Rightarrow> bytes" where
  "push_v1 p mode = (let s = p @ '','' @ signed_decimal mode in sync_msg ID_SEND_V1 (of_nat (length s)) @ s)"

definition push_v2 :: "string \<Rightarrow> u32 \<Rightarrow> u32 \<Rightarrow> bytes" where
  "push_v2 p mode flags = sync_msg ID_SEND_V2 (of_nat (length p)) @ p @ le32 ID_SEND_V2 @ le32 mode @ le32 flags"

lemma split_last_comma_append: "CHR '','' \<notin> set m \<Longrightarrow> split_last_comma (p @ '','' @ m) = Some (p, m)"
proof -
  assume "CHR '','' \<notin> set m"
  then have m: "\<And>x. x \<in> set (rev m) \<Longrightarrow> x \<noteq> CHR '',''" by auto
  have r: "rev (p @ '','' @ m) = rev m @ CHR '','' # rev p" by simp
  have "takeWhile (\<lambda>c. c \<noteq> CHR '','') (rev (p @ '','' @ m)) = rev m" "dropWhile (\<lambda>c. c \<noteq> CHR '','') (rev (p @ '','' @ m)) = CHR '','' # rev p"
    unfolding r using takeWhile_append2 [of "rev m" "\<lambda>c. c \<noteq> CHR '',''" "CHR '','' # rev p"]
      dropWhile_append2 [of "rev m" "\<lambda>c. c \<noteq> CHR '',''" "CHR '','' # rev p"] m by simp_all
  then show ?thesis by (simp add: split_last_comma_def)
qed

lemma digits_first:
  "0 < n \<Longrightarrow> \<exists>d ds. digits 10 n = digit_char d # ds \<and> 0 < d \<and> d < 10"
proof (induction n rule: less_induct)
  case (less n)
  show ?case
  proof (cases "n < 10")
    case True
    with less.prems show ?thesis by (subst digits.simps) auto
  next
    case False
    then have "n div 10 < n" "0 < n div 10" by (simp_all add: div_greater_zero_iff)
    with less.IH [of "n div 10"] obtain d ds where "digits 10 (n div 10) = digit_char d # ds" "0 < d" "d < 10" by auto
    with False show ?thesis by (subst digits.simps) auto
  qed
qed

lemma digit_char_ascii: "d < 10 \<Longrightarrow> (of_char (digit_char d) :: nat) = 48 + d"
proof -
  assume d: "d < 10"
  then have "48 + d < 256" by simp
  with d show ?thesis by (simp only: digit_char_def if_True of_char_of mod_less)
qed

lemma decimal_chars: "c \<in> set (digits 10 n) \<Longrightarrow> 48 \<le> (of_char c :: nat) \<and> (of_char c :: nat) < 58"
proof (induction n rule: less_induct)
  case (less n)
  show ?case
  proof (cases "n < 10")
    case False
    then have "n div 10 < n" by simp
    from less.IH [OF this] less.prems False show ?thesis by (auto simp: digits.simps [of 10 n] digit_char_ascii)
  qed (use less in \<open>auto simp: digits.simps [of 10 n] digit_char_ascii\<close>)
qed

lemma strip_0x_decimal: "strip_0x b (digits 10 n) = digits 10 n"
proof -
  have "c \<in> set (digits 10 n) \<Longrightarrow> c \<noteq> CHR ''x'' \<and> c \<noteq> CHR ''X''" for c using decimal_chars [of c n] by auto
  then show ?thesis by (cases "(b, digits 10 n)" rule: strip_0x.cases) auto
qed

lemma strtoul_decimal: "n < 2 ^ 64 \<Longrightarrow> strtoul 10 (digits 10 n) = (n, [])"
  using strtoul_digits [of "digits 10 n" 10] digits_are_digits [of 10 _ n] digits_value_digits [of 10 n "[]"] by simp

lemma strtoul_base0_zero: "strtoul_base0 (digits 10 0) = Some 0"
  by (simp add: digits.simps [of 10 0] digit_char_def strtoul_base0_def strtoul_def is_space_def digit_value_def Let_def)

lemma strtoul_base0_decimal:
  assumes "n < 2 ^ 64"
  shows "strtoul_base0 (digits 10 n) = Some n"
proof (cases "n = 0")
  case True
  then show ?thesis by (simp add: strtoul_base0_zero)
next
  case False
  then obtain d ds where d: "digits 10 n = digit_char d # ds" "0 < d" "d < 10" using digits_first [of n] by auto
  have h: "(of_char (hd (digits 10 n)) :: nat) = 48 + d" using d by (simp add: digit_char_ascii)
  then have n: "\<not> is_space (hd (digits 10 n))" "hd (digits 10 n) \<noteq> CHR ''-''" "hd (digits 10 n) \<noteq> CHR ''+''" "hd (digits 10 n) \<noteq> CHR ''0''"
    using d(2,3) by (auto simp: is_space_def)
  then have "dropWhile is_space (digits 10 n) = digits 10 n" using d(1) by simp
  moreover have "fst (digits_value 10 (digits 10 n) 0) = n" using digits_value_digits [of 10 n "[]"] by simp
  ultimately show ?thesis using n assms
    by (simp only: strtoul_base0_def Let_def strip_0x_decimal strtoul_decimal fst_conv simp_thms if_True if_False not_le refl) simp
qed

lemma read_request:
  assumes "pending y (sync_msg i (of_nat (length s)) @ s @ rest)" "length s \<le> 1024"
  shows "\<exists>y1 evs. y_read 8 y = (True, sync_msg i (of_nat (length s)), y1) \<and> unat (msg_size (sync_msg i (of_nat (length s)))) = length s
    \<and> y_read (length s) y1 = (True, s, y\<lparr>y_sock := (y_sock y)\<lparr>fd_in := evs\<rparr>\<rparr>) \<and> delivers evs rest"
proof -
  from y_read_msg [OF assms(1)] obtain evs1 where 1: "y_read 8 y = (True, sync_msg i (of_nat (length s)), y\<lparr>y_sock := (y_sock y)\<lparr>fd_in := evs1\<rparr>\<rparr>)"
    "delivers evs1 (s @ rest)" by blast
  from y_read_ok [of "y\<lparr>y_sock := (y_sock y)\<lparr>fd_in := evs1\<rparr>\<rparr>" s rest] 1(2) obtain evs where
    2: "y_read (length s) (y\<lparr>y_sock := (y_sock y)\<lparr>fd_in := evs1\<rparr>\<rparr>) = (True, s, y\<lparr>y_sock := (y_sock y)\<lparr>fd_in := evs\<rparr>\<rparr>)" "delivers evs rest" by auto
  have "unat (of_nat (length s) :: u32) = length s" using assms(2) by (simp add: unat_of_nat)
  with 1 2 show ?thesis by auto
qed

lemma pushed_from:
  assumes "pushed content p bs rest y1 ok y'" "y_fs y1 = y_fs y" "answered y1 = answered y" "y_buffer y1 = y_buffer y"
  shows "pushed content p bs rest y ok y'"
  using assms by (auto simp: pushed_def said_fail_def leftover_def split: if_splits)

lemma c_name_id: "CHR 0x00 \<notin> set s \<Longrightarrow> c_name s = s"
  unfolding c_name_def by (rule takeWhile_eq_all_conv [THEN iffD2]) auto

lemma signed_decimal_pos: "mode < 2 ^ 31 \<Longrightarrow> signed_decimal mode = digits 10 (unat mode)" for mode :: u32
proof -
  assume "mode < 2 ^ 31"
  then have "uint mode < 2 ^ 31" by (simp add: word_less_alt)
  moreover have "- (2 ^ 31) \<le> uint mode" by (rule order_trans [of _ 0]) simp_all
  ultimately have "signed_take_bit 31 (uint mode) = uint mode" by (rule signed_take_bit_int_eq_self [rotated])
  then have "sint mode = uint mode" by (simp add: sint_uint)
  then have "0 \<le> sint mode" by simp
  then show ?thesis by (simp add: signed_decimal_def decimal_def)
qed

lemma push_v1_ok:
  assumes fs: "fs_ok sys content handle" and s: "willing 1024 y" and mode: "\<not> S_ISLNK mode" "mode < 2 ^ 31"
    and path: "CHR 0x00 \<notin> set p" "length (p @ '','' @ signed_decimal mode) \<le> 1024"
    and pd: "pending y (push_v1 p mode @ data_msgs cs @ sync_msg ID_DONE ts @ rest)" "\<forall>c \<in> set cs. length c < 2 ^ 32"
  shows "\<exists>ok y'. handle_sync_command sys fresh C y = pret (ok, y') \<and> pushed content p (concat cs) rest y ok y'"
proof -
  let ?s = "p @ '','' @ signed_decimal mode"
  note sd = signed_decimal_pos [OF mode(2)]
  have d: "c \<noteq> CHR '','' \<and> c \<noteq> CHR 0x00" if "c \<in> set (signed_decimal mode)" for c
    using decimal_chars [of c "unat mode"] that sd by auto
  have nm: "c_name ?s = ?s" using path(1) d by (intro c_name_id) auto
  have sp: "split_last_comma ?s = Some (p, signed_decimal mode)" using d by (intro split_last_comma_append) auto
  have num: "strtoul_base0 (signed_decimal mode) = Some (unat mode)"
    using strtoul_base0_decimal [of "unat mode"] unsigned_less [of mode, where ?'a = nat] sd by simp
  have "pending y (sync_msg ID_SEND_V1 (of_nat (length ?s)) @ ?s @ data_msgs cs @ sync_msg ID_DONE ts @ rest)" using pd(1) by (simp add: push_v1_def Let_def)
  from read_request [OF this path(2)] obtain y1 evs where
    r: "y_read 8 y = (True, sync_msg ID_SEND_V1 (of_nat (length ?s)), y1)" "unat (msg_size (sync_msg ID_SEND_V1 (of_nat (length ?s)))) = length ?s"
      "y_read (length ?s) y1 = (True, ?s, y\<lparr>y_sock := (y_sock y)\<lparr>fd_in := evs\<rparr>\<rparr>)" "delivers evs (data_msgs cs @ sync_msg ID_DONE ts @ rest)" by blast
  let ?y = "y_errno 0 (y\<lparr>y_sock := (y_sock y)\<lparr>fd_in := evs\<rparr>\<rparr>)"
  have "handle_sync_command sys fresh C y = send_impl sys C p mode CT_None False ?y"
    using r(1,2,3) path(2) nm sp num by (simp add: handle_sync_command_def do_send_v1_def Let_def) (simp add: sync_ids)
  moreover have "willing 1024 ?y" "pending ?y (data_msgs cs @ sync_msg ID_DONE ts @ rest)" using s r(4) by simp_all
  ultimately show ?thesis using send_impl_ok [OF fs _ mode(1) _ pd(2), of ?y ts rest C p] pushed_from [of content p _ _ ?y _ _ y] by auto
qed

lemma compression_flags_none: "compression_flags 0 = Inr (CT_None, 0)"
  by (simp add: compression_flags_def take_flag_def)

lemma push_v2_ok:
  assumes fs: "fs_ok sys content handle" and s: "willing 1024 y" and mode: "\<not> S_ISLNK mode"
    and path: "CHR 0x00 \<notin> set p" "length p \<le> 1024"
    and pd: "pending y (push_v2 p mode 0 @ data_msgs cs @ sync_msg ID_DONE ts @ rest)" "\<forall>c \<in> set cs. length c < 2 ^ 32"
  shows "\<exists>ok y'. handle_sync_command sys fresh C y = pret (ok, y') \<and> pushed content p (concat cs) rest y ok y'"
proof -
  let ?m = "le32 ID_SEND_V2 @ le32 mode @ le32 0"
  let ?d = "data_msgs cs @ sync_msg ID_DONE ts @ rest"
  have "pending y (sync_msg ID_SEND_V2 (of_nat (length p)) @ p @ ?m @ ?d)" using pd(1) by (simp add: push_v2_def)
  from read_request [OF this path(2)] obtain y1 evs where
    r: "y_read 8 y = (True, sync_msg ID_SEND_V2 (of_nat (length p)), y1)" "unat (msg_size (sync_msg ID_SEND_V2 (of_nat (length p)))) = length p"
      "y_read (length p) y1 = (True, p, y\<lparr>y_sock := (y_sock y)\<lparr>fd_in := evs\<rparr>\<rparr>)" "delivers evs (?m @ ?d)" by blast
  let ?y1 = "y\<lparr>y_sock := (y_sock y)\<lparr>fd_in := evs\<rparr>\<rparr>"
  from y_read_ok [of ?y1 ?m ?d] r(4) obtain evs2 where
    r2: "y_read 12 ?y1 = (True, ?m, y\<lparr>y_sock := (y_sock y)\<lparr>fd_in := evs2\<rparr>\<rparr>)" "delivers evs2 ?d" by auto
  let ?y = "y_errno 0 (y\<lparr>y_sock := (y_sock y)\<lparr>fd_in := evs2\<rparr>\<rparr>)"
  have m: "setup_mode ?m = mode" "setup_flags ?m = 0" by (simp_all add: setup_mode_def setup_flags_def)
  have "handle_sync_command sys fresh C y = do_send_v2 sys C p ?y1"
    using r(1,2,3) path(2) c_name_id [OF path(1)] by (simp add: handle_sync_command_def Let_def) (simp add: sync_ids)
  also have "\<dots> = send_impl sys C p mode CT_None False ?y"
    using r2(1) m by (simp add: do_send_v2_def compression_flags_none)
  moreover have "willing 1024 ?y" "pending ?y ?d" using s r2(2) by simp_all
  ultimately show ?thesis using send_impl_ok [OF fs _ mode _ pd(2), of ?y ts rest C p] pushed_from [of content p _ _ ?y _ _ y] by auto
qed

end
