(* ===== verification/File_Sync_Pull.thy ===== *)
theory File_Sync_Pull
  imports File_Sync_Push
begin

text \<open>
  What a pull does, seen from the device: the service returns, and has sent either the whole file followed
  by DONE, or a first part of it followed by FAIL.
\<close>

subsection \<open>Encoders that do not lose data\<close>

definition chunked :: "bytes list \<Rightarrow> bool" where
  "chunked cs \<longleftrightarrow> (\<forall>c \<in> set cs. c \<noteq> [] \<and> length c \<le> SYNC_DATA_MAX)"

lemma chunked_simps [simp]: "chunked []" "chunked (c # cs) \<longleftrightarrow> c \<noteq> [] \<and> length c \<le> SYNC_DATA_MAX \<and> chunked cs" "chunked (cs @ ds) \<longleftrightarrow> chunked cs \<and> chunked ds"
  by (auto simp: chunked_def)

lemma data_msgs_simps [simp]: "data_msgs [] = []" "data_msgs (c # cs) = sync_msg ID_DATA (of_nat (length c)) @ c @ data_msgs cs" "data_msgs (cs @ ds) = data_msgs cs @ data_msgs ds"
  by (simp_all add: data_msgs_def)

lemma same_but_output_trans: "same_but_output y1 y2 \<Longrightarrow> same_but_output y2 y3 \<Longrightarrow> same_but_output y1 y3"
  by (simp add: same_but_output_def)

lemma write_data:
  assumes "willing (8 + length out + k) y"
  shows "\<exists>y'. pbind (y_write (sync_msg ID_DATA (of_nat (length out))) y) (\<lambda>(ok, y1). if \<not> ok then pret (False, y1) else y_write out y1) = pret (True, y')
    \<and> answered y' = answered y @ data_msgs [out] \<and> willing k y' \<and> same_but_output y y'"
proof -
  from y_write_ok [of "sync_msg ID_DATA (of_nat (length out))" "length out + k" y] assms obtain y1 where
    1: "y_write (sync_msg ID_DATA (of_nat (length out))) y = pret (True, y1)" "answered y1 = answered y @ sync_msg ID_DATA (of_nat (length out))"
      "willing (length out + k) y1" "same_but_output y y1" by (auto simp: add.assoc)
  from y_write_ok [OF 1(3)] obtain y2 where "y_write out y1 = pret (True, y2)" "answered y2 = answered y1 @ out" "willing k y2" "same_but_output y1 y2" by blast
  with 1 show ?thesis using same_but_output_trans by auto
qed

text \<open>The answer to a request to receive: the file and DONE, or a part of it and FAIL.\<close>

definition pull_answer :: "bytes \<Rightarrow> bool \<Rightarrow> bytes \<Rightarrow> bool" where
  "pull_answer c ok out \<longleftrightarrow>
     (\<exists>cs. chunked cs \<and>
        (if ok then concat cs = c \<and> out = data_msgs cs @ sync_msg ID_DONE 0
         else (\<exists>more. c = concat cs @ more) \<and> (\<exists>reason. length reason \<le> 1016 \<and> out = data_msgs cs @ sync_msg ID_FAIL (of_nat (length reason)) @ reason)))"

lemma pull_answer_more: "chunked ds \<Longrightarrow> pull_answer c ok out \<Longrightarrow> pull_answer (concat ds @ c) ok (data_msgs ds @ out)"
proof -
  assume ds: "chunked ds" and "pull_answer c ok out"
  then obtain cs where "chunked cs" "if ok then concat cs = c \<and> out = data_msgs cs @ sync_msg ID_DONE 0
         else (\<exists>more. c = concat cs @ more) \<and> (\<exists>reason. length reason \<le> 1016 \<and> out = data_msgs cs @ sync_msg ID_FAIL (of_nat (length reason)) @ reason)"
    by (auto simp: pull_answer_def)
  with ds show ?thesis unfolding pull_answer_def by (intro exI [of _ "ds @ cs"]) auto
qed

lemma pull_answer_done: "pull_answer [] True (sync_msg ID_DONE 0)"
  unfolding pull_answer_def by (intro exI [of _ "[]"]) simp

lemma pull_answer_fail: "said_fail y y' \<Longrightarrow> \<exists>out. answered y' = answered y @ out \<and> pull_answer c False out"
proof -
  assume "said_fail y y'"
  then obtain reason where "length reason \<le> 1016" "answered y' = answered y @ sync_msg ID_FAIL (of_nat (length reason)) @ reason"
    by (auto simp: said_fail_def)
  then show ?thesis unfolding pull_answer_def
    by (intro exI [of _ "sync_msg ID_FAIL (of_nat (length reason)) @ reason"] conjI exI [of _ "[]"]) auto
qed

text \<open>
  The contract of \<open>Encode\<close>, as for \<open>Decode\<close>; a block it hands out fits into a message.
\<close>

locale encoding =
  fixes fresh :: "nat \<Rightarrow> char" and C :: "'l codecs" and t :: CompressionType and fit :: "'l encoder \<Rightarrow> bool" and owed :: "'l encoder \<Rightarrow> bytes"
  assumes encode: "fit e \<Longrightarrow> \<exists>out e'. Encode fresh C t e
          = pret (if owed e' = [] then if e_finished e then ER_Done else ER_NeedInput else ER_MoreOutput, out, e')
        \<and> fit e' \<and> e_finished e' = e_finished e \<and> owed e = out @ owed e' \<and> (owed e' \<noteq> [] \<longrightarrow> out \<noteq> []) \<and> length out \<le> SYNC_DATA_MAX"
    and append: "fit e \<Longrightarrow> fit (Encoder_Append (block_of bs) e) \<and> owed (Encoder_Append (block_of bs) e) = owed e @ bs"
    and finish: "fit (e\<lparr>e_finished := True\<rparr>) = fit e" "owed (e\<lparr>e_finished := True\<rparr>) = owed e"
begin

lemma drain_encoder_ok:
  assumes "fit e" "willing (9 * length (owed e) + k) y"
  shows "\<exists>cs e' y'. drain_encoder sys fresh C t e y = pret ((Some (\<not> e_finished e), e'), y') \<and> chunked cs \<and> concat cs = owed e
     \<and> answered y' = answered y @ data_msgs cs \<and> willing k y' \<and> same_but_output y y' \<and> fit e' \<and> owed e' = [] \<and> e_finished e' = e_finished e"
  using assms
proof (induction "length (owed e)" arbitrary: e y rule: less_induct)
  case less
  from encode [OF less.prems(1)] obtain out e1 where
    e1: "Encode fresh C t e = pret (if owed e1 = [] then if e_finished e then ER_Done else ER_NeedInput else ER_MoreOutput, out, e1)"
      "fit e1" "e_finished e1 = e_finished e" "owed e = out @ owed e1" "owed e1 \<noteq> [] \<longrightarrow> out \<noteq> []" "length out \<le> SYNC_DATA_MAX" by blast
  let ?w = "if out = [] then pret (True, y)
                   else pbind (y_write (sync_msg ID_DATA (of_nat (length out))) y) (\<lambda>(ok, y1).
                        if \<not> ok then pret (False, y1) else y_write out y1)"
  let ?cs = "if out = [] then [] else [out]"
  have "\<exists>y1. ?w = pret (True, y1) \<and> answered y1 = answered y @ data_msgs ?cs \<and> willing (9 * length (owed e1) + k) y1 \<and> same_but_output y y1"
  proof (cases "out = []")
    case True
    then show ?thesis using less.prems(2) e1(4) by (simp add: same_but_output_def)
  next
    case False
    then have "8 + length out + (9 * length (owed e1) + k) \<le> 9 * length (owed e) + k" using e1(4) by (cases out) auto
    from write_data [OF willing_mono [OF less.prems(2) this]] False show ?thesis by simp
  qed
  then obtain y1 where y1: "?w = pret (True, y1)" "answered y1 = answered y @ data_msgs ?cs" "willing (9 * length (owed e1) + k) y1" "same_but_output y y1" by blast
  show ?case
  proof (cases "owed e1 = []")
    case True
    then have "drain_encoder sys fresh C t e y = pret ((Some (\<not> e_finished e), e1), y1)" using e1(1) y1(1) by (subst drain_encoder.simps) simp
    then show ?thesis using True e1 y1 by (intro exI [of _ ?cs] exI [of _ e1] exI [of _ y1]) simp
  next
    case False
    then have l: "length (owed e1) < length (owed e)" using e1(4,5) by simp
    have r: "drain_encoder sys fresh C t e y = drain_encoder sys fresh C t e1 y1" using False e1(1) y1(1) by (subst drain_encoder.simps) simp
    from less.hyps [OF l e1(2) y1(3)] obtain cs e2 y2 where
      2: "drain_encoder sys fresh C t e1 y1 = pret ((Some (\<not> e_finished e1), e2), y2)" "chunked cs" "concat cs = owed e1"
        "answered y2 = answered y1 @ data_msgs cs" "willing k y2" "same_but_output y1 y2" "fit e2" "owed e2 = []" "e_finished e2 = e_finished e1" by blast
    have "same_but_output y y2" using y1(4) 2(6) by (rule same_but_output_trans)
    then show ?thesis using r 2 e1 y1 by (intro exI [of _ "?cs @ cs"] exI [of _ e2] exI [of _ y2]) simp
  qed
qed


lemma send_data_ok:
  assumes fs: "fs_ok sys content handle"
  shows "fit e \<Longrightarrow> owed e = [] \<Longrightarrow> \<not> e_finished e \<Longrightarrow> handle h (y_fs y) = Some (p, pos) \<Longrightarrow> content p (y_fs y) = Some c
    \<Longrightarrow> willing (9 * (length c - pos) + 1024) y
    \<Longrightarrow> \<exists>ok y' out. send_data sys fresh C t h e y = pret (ok, y') \<and> answered y' = answered y @ out \<and> pull_answer (drop pos c) ok out
      \<and> (ok \<longrightarrow> fd_in (y_sock y') = fd_in (y_sock y) \<and> y_buffer y' = y_buffer y \<and> content p (y_fs y') = Some c)"
proof (induction "length c - pos" arbitrary: e y pos rule: less_induct)
  case less
  obtain r f where r: "sys_read sys h SYNC_DATA_MAX (y_fs y) = (r, f)" by fastforce
  have l: "content p f = Some c \<and> (case r of Inl e \<Rightarrow> True | Inr bs \<Rightarrow> length bs \<le> SYNC_DATA_MAX \<and> bs = take (length bs) (drop pos c)
      \<and> (bs = [] \<longrightarrow> SYNC_DATA_MAX = 0 \<or> length c \<le> pos) \<and> handle h f = Some (p, pos + length bs))"
    using fs r less.prems(4,5) unfolding fs_ok_def fs_read_ok_def by blast
  let ?y = "y\<lparr>y_fs := f\<rparr>"
  consider (err) err where "r = Inl err" | (eof) "r = Inr []" | (data) bs where "r = Inr bs" "bs \<noteq> []" by (cases r) auto
  then show ?case
  proof cases
    case err
    have "willing 1024 (y_errno err ?y)" using less.prems(6) by (auto elim: willing_mono)
    from SendSyncFailErrno_ok [OF this _ fs, of "''read failed''"] obtain y2 where
      2: "SendSyncFailErrno sys ''read failed'' (y_errno err ?y) = pret (True, y2)" "said_fail (y_errno err ?y) y2" by auto
    then have "said_fail y y2" by (simp add: said_fail_def)
    from pull_answer_fail [OF this, of "drop pos c"] obtain out where "answered y2 = answered y @ out" "pull_answer (drop pos c) False out" by blast
    moreover have "send_data sys fresh C t h e y = pret (False, y2)" using err r 2(1) by (subst send_data.simps) (simp add: fail_with_def)
    ultimately show ?thesis by blast
  next
    case eof
    let ?e = "e\<lparr>e_finished := True\<rparr>"
    have e: "fit ?e" "owed ?e = []" using less.prems(1,2) finish by simp_all
    have "willing (9 * length (owed ?e) + 8) ?y" using less.prems(6) e(2) by (auto elim: willing_mono)
    from drain_encoder_ok [OF e(1) this, of sys] obtain cs e' y1 where
      1: "drain_encoder sys fresh C t ?e ?y = pret ((Some False, e'), y1)" "chunked cs" "concat cs = []" "answered y1 = answered y @ data_msgs cs"
        "willing 8 y1" "same_but_output ?y y1" using e(2) by auto
    have "cs = []" using 1(2,3) by (cases cs) auto
    from y_write_ok [of "sync_msg ID_DONE 0" 0 y1] 1(5) obtain y2 where
      2: "y_write (sync_msg ID_DONE 0) y1 = pret (True, y2)" "answered y2 = answered y1 @ sync_msg ID_DONE 0" "same_but_output y1 y2" by auto
    have d: "drop pos c = []" using l eof by (simp add: SYNC_DATA_MAX_def)
    have "send_data sys fresh C t h e y = pret (True, y2)"
      using r eof less.prems(3) 1(1) 2(1) by (subst send_data.simps) (simp add: Encoder_Finish_def)
    moreover have "answered y2 = answered y @ sync_msg ID_DONE 0" using 1(4) 2(2) \<open>cs = []\<close> by simp
    ultimately show ?thesis using pull_answer_done d 1(6) 2(3) l by (auto simp: same_but_output_def)
  next
    case data
    let ?e = "Encoder_Append (block_of bs) e"
    have e: "fit ?e" "owed ?e = bs" "\<not> e_finished ?e" using append [OF less.prems(1), of bs] less.prems(2,3) by (simp_all add: Encoder_Append_def)
    have b: "bs = take (length bs) (drop pos c)" "handle h f = Some (p, pos + length bs)" using l data by simp_all
    then have lb: "length bs \<le> length c - pos" by (metis length_drop length_take min.cobounded1 min.commute)
    have "9 * length (owed ?e) + (9 * (length c - (pos + length bs)) + 1024) \<le> 9 * (length c - pos) + 1024" using e(2) lb by simp
    then have "willing (9 * length (owed ?e) + (9 * (length c - (pos + length bs)) + 1024)) ?y" using willing_mono [OF less.prems(6)] by simp
    from drain_encoder_ok [OF e(1) this, of sys] obtain cs e' y1 where
      1: "drain_encoder sys fresh C t ?e ?y = pret ((Some True, e'), y1)" "chunked cs" "concat cs = bs" "answered y1 = answered y @ data_msgs cs"
        "willing (9 * (length c - (pos + length bs)) + 1024) y1" "same_but_output ?y y1" "fit e'" "owed e' = []" "\<not> e_finished e'" using e(2,3) by auto
    have k: "y_fs y1 = f" "fd_in (y_sock y1) = fd_in (y_sock y)" "y_buffer y1 = y_buffer y" using 1(6) by (simp_all add: same_but_output_def)
    have s: "send_data sys fresh C t h e y = send_data sys fresh C t h e' y1" using r data 1(1) by (subst send_data.simps) simp
    have "length c - (pos + length bs) < length c - pos" using data(2) lb by (cases bs) auto
    from less.hyps [OF this 1(7,8,9) _ _ 1(5)] b(2) k(1) l obtain ok y2 out where
      2: "send_data sys fresh C t h e' y1 = pret (ok, y2)" "answered y2 = answered y1 @ out" "pull_answer (drop (pos + length bs) c) ok out"
        "ok \<Longrightarrow> fd_in (y_sock y2) = fd_in (y_sock y1) \<and> y_buffer y2 = y_buffer y1 \<and> content p (y_fs y2) = Some c" by auto
    have "drop pos c = concat cs @ drop (pos + length bs) c" using b(1) 1(3) by (metis append_take_drop_id drop_drop add.commute)
    with pull_answer_more [OF 1(2) 2(3)] have "pull_answer (drop pos c) ok (data_msgs cs @ out)" by simp
    then show ?thesis using s 2 1(4) k by auto
  qed
qed

end

definition null_e_fit :: "'l encoder \<Rightarrow> bool" where
  "null_e_fit e \<longleftrightarrow> good_iov (e_input e) \<and> e_size e = SYNC_DATA_MAX"

definition null_e_owed :: "'l encoder \<Rightarrow> bytes" where
  "null_e_owed e = iov_bytes (e_input e)"

interpretation null_e: encoding fresh C CT_None null_e_fit null_e_owed for fresh :: "nat \<Rightarrow> char" and C :: "'l codecs"
proof unfold_locales
  fix e :: "'l encoder" assume e: "null_e_fit e"
  then have m: "e_size e < 2 ^ 32" "0 < e_size e" by (simp_all add: null_e_fit_def SYNC_DATA_MAX_def)
  with e obtain v where v: "NullEncoder_Encode e =
      pret (if length (iov_bytes (e_input e)) \<le> e_size e then if e_finished e then ER_Done else ER_NeedInput else ER_MoreOutput,
            take (e_size e) (iov_bytes (e_input e)), e\<lparr>e_input := v\<rparr>)" "good_iov v" "iov_bytes v = drop (e_size e) (iov_bytes (e_input e))"
    using NullEncoder_ok [of e] by (auto simp: null_e_fit_def)
  then show "\<exists>out e'. Encode fresh C CT_None e
          = pret (if null_e_owed e' = [] then if e_finished e then ER_Done else ER_NeedInput else ER_MoreOutput, out, e')
        \<and> null_e_fit e' \<and> e_finished e' = e_finished e \<and> null_e_owed e = out @ null_e_owed e' \<and> (null_e_owed e' \<noteq> [] \<longrightarrow> out \<noteq> [])
        \<and> length out \<le> SYNC_DATA_MAX"
    using e m by (intro exI [of _ "take (e_size e) (iov_bytes (e_input e))"] exI [of _ "e\<lparr>e_input := v\<rparr>"]) (auto simp: Encode_def null_e_owed_def null_e_fit_def)
qed (auto simp: null_e_fit_def null_e_owed_def Encoder_Append_def good_iov_append)

subsection \<open>The whole of a pull\<close>

definition pull_room :: "bytes option \<Rightarrow> nat" where
  "pull_room c = 9 * (case c of None \<Rightarrow> 0 | Some bs \<Rightarrow> length bs) + 1024"

definition pulled :: "(string \<Rightarrow> 'f \<Rightarrow> bytes option) \<Rightarrow> string \<Rightarrow> bytes \<Rightarrow> 'f sync \<Rightarrow> bool \<Rightarrow> 'f sync \<Rightarrow> bool" where
  "pulled content p rest y ok y' \<longleftrightarrow>
     (\<exists>c out. answered y' = answered y @ out \<and> pull_answer c ok out
        \<and> (ok \<longrightarrow> content p (y_fs y) = Some c \<and> content p (y_fs y') = Some c \<and> pending y' rest \<and> y_buffer y' = y_buffer y))"

lemma recv_impl_ok:
  assumes fs: "fs_ok sys content handle" and w: "willing (pull_room (content p (y_fs y))) y" and pd: "pending y rest"
  shows "\<exists>ok y'. recv_impl sys fresh C p CT_None y = pret (ok, y') \<and> pulled content p rest y ok y'"
proof -
  obtain r y1 where 1: "y_open sys Read_only p 0 y = (r, y1)" by fastforce
  have o: "fs_open_ok sys content handle" using fs by (simp add: fs_ok_def)
  have sl: "same_link y y1" using y_open_cases(1) [OF o 1] .
  show ?thesis
  proof (cases r)
    case None
    have "willing 1024 y1" using willing_mono [OF w, of 1024] same_linkD(3) [OF sl] by (simp add: pull_room_def)
    from SendSyncFailErrno_ok [OF this _ fs, of "''open failed''"] obtain y2 where
      2: "SendSyncFailErrno sys ''open failed'' y1 = pret (True, y2)" "said_fail y1 y2" by auto
    then have "said_fail y y2" using same_linkD(2) [OF sl] by (simp add: said_fail_def)
    then obtain out where "answered y2 = answered y @ out" "pull_answer [] False out" using pull_answer_fail by blast
    then have "pulled content p rest y False y2" unfolding pulled_def by blast
    moreover have "recv_impl sys fresh C p CT_None y = pret (False, y2)" using None 1 2(1) by (simp add: recv_impl_def fail_with_def)
    ultimately show ?thesis by blast
  next
    case (Some h)
    let ?e = "new_encoder SYNC_DATA_MAX (BrotliEncoderCreate C)"
    have e: "null_e_fit ?e" "null_e_owed ?e = []" "\<not> e_finished ?e" by (simp_all add: null_e_fit_def null_e_owed_def new_encoder_def)
    obtain c where c: "content p (y_fs y) = Some c" "content p (y_fs y1) = Some c" "handle h (y_fs y1) = Some (p, 0)"
    proof -
      obtain f where f: "sys_open sys Read_only p 0 (y_fs y) = (Inr h, f)" "y1 = y\<lparr>y_fs := f\<rparr>"
        using 1 Some by (auto simp: y_open_def split: prod.splits sum.splits)
      from o [unfolded fs_open_ok_def, rule_format, OF f(1)] f(2) that show ?thesis by auto
    qed
    have "willing (9 * (length c - 0) + 1024) y1" using w c(1) same_linkD(3) [OF sl] by (simp add: pull_room_def)
    from null_e.send_data_ok [OF fs e c(3,2) this, of fresh C] obtain ok y2 out where
      2: "send_data sys fresh C CT_None h ?e y1 = pret (ok, y2)" "answered y2 = answered y1 @ out" "pull_answer c ok out"
        "ok \<Longrightarrow> fd_in (y_sock y2) = fd_in (y_sock y1) \<and> y_buffer y2 = y_buffer y1 \<and> content p (y_fs y2) = Some c"
      unfolding drop_0 by blast
    have meta: "fs_meta_ok sys content handle" using fs by (simp add: fs_ok_def)
    have k: "content p (sys_close sys h f) = content p f" for f by (rule fs_metaD(9) [OF meta])
    have "recv_impl sys fresh C p CT_None y = pret (ok, y_close sys (Some h) y2)" using Some 1 2(1) by (simp add: recv_impl_def make_encoder_def)
    moreover have "answered (y_close sys (Some h) y2) = answered y @ out" using 2(2) same_linkD(2) [OF sl] by (simp add: y_close_def)
    moreover have "content p (y_fs (y_close sys (Some h) y2)) = Some c \<and> pending (y_close sys (Some h) y2) rest
        \<and> y_buffer (y_close sys (Some h) y2) = y_buffer y" if ok
      using 2(4) [OF that] k pd sl by (simp add: y_close_def pending_def same_link_def)
    ultimately have "recv_impl sys fresh C p CT_None y = pret (ok, y_close sys (Some h) y2) \<and> pulled content p rest y ok (y_close sys (Some h) y2)"
      using c(1) 2(3) unfolding pulled_def by blast
    then show ?thesis by blast
  qed
qed

text \<open>The two forms of the request.\<close>

definition pull_v1 :: "string \<Rightarrow> bytes" where
  "pull_v1 p = sync_msg ID_RECV_V1 (of_nat (length p)) @ p"

definition pull_v2 :: "string \<Rightarrow> u32 \<Rightarrow> bytes" where
  "pull_v2 p flags = sync_msg ID_RECV_V2 (of_nat (length p)) @ p @ sync_msg ID_RECV_V2 flags"

lemma pulled_from:
  assumes "pulled content p rest y1 ok y'" "y_fs y1 = y_fs y" "answered y1 = answered y" "y_buffer y1 = y_buffer y"
  shows "pulled content p rest y ok y'"
  using assms by (simp add: pulled_def)

lemma pull_v1_ok:
  assumes fs: "fs_ok sys content handle" and w: "willing (pull_room (content p (y_fs y))) y"
    and path: "CHR 0x00 \<notin> set p" "length p \<le> 1024" and pd: "pending y (pull_v1 p @ rest)"
  shows "\<exists>ok y'. handle_sync_command sys fresh C y = pret (ok, y') \<and> pulled content p rest y ok y'"
proof -
  have "pending y (sync_msg ID_RECV_V1 (of_nat (length p)) @ p @ rest)" using pd(1) by (simp add: pull_v1_def)
  from read_request [OF this path(2)] obtain y1 evs where
    r: "y_read 8 y = (True, sync_msg ID_RECV_V1 (of_nat (length p)), y1)" "unat (msg_size (sync_msg ID_RECV_V1 (of_nat (length p)))) = length p"
      "y_read (length p) y1 = (True, p, y\<lparr>y_sock := (y_sock y)\<lparr>fd_in := evs\<rparr>\<rparr>)" "delivers evs rest" by blast
  let ?y = "y\<lparr>y_sock := (y_sock y)\<lparr>fd_in := evs\<rparr>\<rparr>"
  have "handle_sync_command sys fresh C y = recv_impl sys fresh C p CT_None ?y"
    using r(1,2,3) path(2) c_name_id [OF path(1)] by (simp add: handle_sync_command_def do_recv_v1_def Let_def) (simp add: sync_ids)
  moreover have "willing (pull_room (content p (y_fs ?y))) ?y" "pending ?y rest" using w r(4) by simp_all
  ultimately show ?thesis using recv_impl_ok [OF fs, of p ?y rest fresh C] pulled_from [of content p rest ?y _ _ y] by auto
qed

lemma pull_v2_ok:
  assumes fs: "fs_ok sys content handle" and w: "willing (pull_room (content p (y_fs y))) y"
    and path: "CHR 0x00 \<notin> set p" "length p \<le> 1024" and pd: "pending y (pull_v2 p 0 @ rest)"
  shows "\<exists>ok y'. handle_sync_command sys fresh C y = pret (ok, y') \<and> pulled content p rest y ok y'"
proof -
  have "pending y (sync_msg ID_RECV_V2 (of_nat (length p)) @ p @ sync_msg ID_RECV_V2 0 @ rest)" using pd(1) by (simp add: pull_v2_def)
  from read_request [OF this path(2)] obtain y1 evs where
    r: "y_read 8 y = (True, sync_msg ID_RECV_V2 (of_nat (length p)), y1)" "unat (msg_size (sync_msg ID_RECV_V2 (of_nat (length p)))) = length p"
      "y_read (length p) y1 = (True, p, y\<lparr>y_sock := (y_sock y)\<lparr>fd_in := evs\<rparr>\<rparr>)" "delivers evs (sync_msg ID_RECV_V2 0 @ rest)" by blast
  let ?y1 = "y\<lparr>y_sock := (y_sock y)\<lparr>fd_in := evs\<rparr>\<rparr>"
  from y_read_msg [of ?y1 ID_RECV_V2 0 rest] r(4) obtain evs2 where
    r2: "y_read 8 ?y1 = (True, sync_msg ID_RECV_V2 0, y\<lparr>y_sock := (y_sock y)\<lparr>fd_in := evs2\<rparr>\<rparr>)" "delivers evs2 rest" by auto
  let ?y = "y\<lparr>y_sock := (y_sock y)\<lparr>fd_in := evs2\<rparr>\<rparr>"
  have "handle_sync_command sys fresh C y = do_recv_v2 sys fresh C p ?y1"
    using r(1,2,3) path(2) c_name_id [OF path(1)] by (simp add: handle_sync_command_def Let_def) (simp add: sync_ids)
  also have "\<dots> = recv_impl sys fresh C p CT_None ?y" using r2(1) by (simp add: do_recv_v2_def compression_flags_none)
  moreover have "willing (pull_room (content p (y_fs ?y))) ?y" "pending ?y rest" using w r2(2) by simp_all
  ultimately show ?thesis using recv_impl_ok [OF fs, of p ?y rest fresh C] pulled_from [of content p rest ?y _ _ y] by auto
qed

end
