(* ===== verification/File_Sync_Client.thy ===== *)
theory File_Sync_Client
  imports File_Sync_Pull
begin

text \<open>
  The file sync client of the host (\<open>client/file_sync_client.cpp\<close>, compiled for Linux): the connection and
  the transfer of single files. The model keeps what the client prints as errors and warnings; progress
  lines depend on a clock and are left out. \<open>number\<close> is what the host calls the errors of the wire.
\<close>

subsection \<open>The connection\<close>

definition ENAMETOOLONG :: nat where "ENAMETOOLONG = 36"
definition ENOTSUP :: nat where "ENOTSUP = 95"
definition ENOPROTOOPT :: nat where "ENOPROTOOPT = 92"
definition ECONNRESET :: nat where "ECONNRESET = 104"

record TransferLedger =
  files_transferred :: nat
  files_skipped :: nat
  bytes_transferred :: nat

definition ledger_Reset :: TransferLedger where
  "ledger_Reset = \<lparr>files_transferred = 0, files_skipped = 0, bytes_transferred = 0\<rparr>"

text \<open>
  \<open>sc_shell\<close> is the commands sent to a shell of the device; \<open>sc_polls\<close> is what the calls of \<open>poll\<close> will
  answer: whether there is data.
\<close>

record 'f SyncConnection =
  sc_y :: "'f sync"
  have_stat_v2 :: bool
  have_ls_v2 :: bool
  have_sendrecv_v2 :: bool
  have_sendrecv_v2_brotli :: bool
  have_sendrecv_v2_lz4 :: bool
  have_sendrecv_v2_zstd :: bool
  have_sendrecv_v2_dry_run_send :: bool
  deferred_acknowledgements :: "(string \<times> string) list"
  acknowledgement_buffer :: bytes
  current_ledger :: TransferLedger
  global_ledger :: TransferLedger
  sc_can_use :: "string \<Rightarrow> bool"
  sc_shell :: "string list"
  sc_printed :: "string list"
  sc_polls :: "bool list"

definition new_SyncConnection :: "(string \<Rightarrow> bool) \<Rightarrow> 'f sync \<Rightarrow> bool list \<Rightarrow> 'f SyncConnection" where
  "new_SyncConnection can_use y polls =
     \<lparr>sc_y = y, have_stat_v2 = can_use ''stat_v2'', have_ls_v2 = can_use ''ls_v2'', have_sendrecv_v2 = can_use ''sendrecv_v2'',
      have_sendrecv_v2_brotli = can_use ''sendrecv_v2_brotli'', have_sendrecv_v2_lz4 = can_use ''sendrecv_v2_lz4'',
      have_sendrecv_v2_zstd = can_use ''sendrecv_v2_zstd'', have_sendrecv_v2_dry_run_send = can_use ''sendrecv_v2_dry_run_send'',
      deferred_acknowledgements = [], acknowledgement_buffer = [], current_ledger = ledger_Reset, global_ledger = ledger_Reset,
      sc_can_use = can_use, sc_shell = [], sc_printed = [], sc_polls = polls\<rparr>"

definition sc_errno :: "'f SyncConnection \<Rightarrow> nat" where
  "sc_errno sc = fd_errno (y_sock (sc_y sc))"

definition sc_set_errno :: "nat \<Rightarrow> 'f SyncConnection \<Rightarrow> 'f SyncConnection" where
  "sc_set_errno e sc = sc\<lparr>sc_y := y_errno e (sc_y sc)\<rparr>"

definition sc_write :: "bytes \<Rightarrow> 'f SyncConnection \<Rightarrow> (bool \<times> 'f SyncConnection) prog" where
  "sc_write bs sc = pbind (y_write bs (sc_y sc)) (\<lambda>(ok, y). pret (ok, sc\<lparr>sc_y := y\<rparr>))"

definition sc_read :: "nat \<Rightarrow> 'f SyncConnection \<Rightarrow> bool \<times> bytes \<times> 'f SyncConnection" where
  "sc_read n sc = (case y_read n (sc_y sc) of (ok, bs, y) \<Rightarrow> (ok, bs, sc\<lparr>sc_y := y\<rparr>))"

definition sc_unlink :: "'f sys \<Rightarrow> string \<Rightarrow> 'f SyncConnection \<Rightarrow> 'f SyncConnection" where
  "sc_unlink sys path sc = sc\<lparr>sc_y := snd (y_try (sys_unlink sys path) (sc_y sc))\<rparr>"

definition sc_close :: "'f sys \<Rightarrow> nat \<Rightarrow> 'f SyncConnection \<Rightarrow> 'f SyncConnection" where
  "sc_close sys h sc = sc\<lparr>sc_y := y_close sys (Some h) (sc_y sc)\<rparr>"

definition Error :: "string \<Rightarrow> 'f SyncConnection \<Rightarrow> 'f SyncConnection" where
  "Error s sc = sc\<lparr>sc_printed := sc_printed sc @ [''adb: error: '' @ s]\<rparr>"

definition Warning :: "string \<Rightarrow> 'f SyncConnection \<Rightarrow> 'f SyncConnection" where
  "Warning s sc = sc\<lparr>sc_printed := sc_printed sc @ [''adb: warning: '' @ s]\<rparr>"

definition quoted :: "string \<Rightarrow> string" where
  "quoted s = [CHR 0x27] @ s @ [CHR 0x27]"

definition NewTransfer :: "'f SyncConnection \<Rightarrow> 'f SyncConnection" where
  "NewTransfer sc = sc\<lparr>current_ledger := ledger_Reset\<rparr>"

definition RecordBytesTransferred :: "nat \<Rightarrow> 'f SyncConnection \<Rightarrow> 'f SyncConnection" where
  "RecordBytesTransferred n sc =
     sc\<lparr>current_ledger := (current_ledger sc)\<lparr>bytes_transferred := (bytes_transferred (current_ledger sc) + n) mod 2 ^ 64\<rparr>,
        global_ledger := (global_ledger sc)\<lparr>bytes_transferred := (bytes_transferred (global_ledger sc) + n) mod 2 ^ 64\<rparr>\<rparr>"

definition RecordFilesTransferred :: "nat \<Rightarrow> 'f SyncConnection \<Rightarrow> 'f SyncConnection" where
  "RecordFilesTransferred n sc =
     sc\<lparr>current_ledger := (current_ledger sc)\<lparr>files_transferred := (files_transferred (current_ledger sc) + n) mod 2 ^ 64\<rparr>,
        global_ledger := (global_ledger sc)\<lparr>files_transferred := (files_transferred (global_ledger sc) + n) mod 2 ^ 64\<rparr>\<rparr>"

definition RecordFilesSkipped :: "nat \<Rightarrow> 'f SyncConnection \<Rightarrow> 'f SyncConnection" where
  "RecordFilesSkipped n sc =
     sc\<lparr>current_ledger := (current_ledger sc)\<lparr>files_skipped := (files_skipped (current_ledger sc) + n) mod 2 ^ 64\<rparr>,
        global_ledger := (global_ledger sc)\<lparr>files_skipped := (files_skipped (global_ledger sc) + n) mod 2 ^ 64\<rparr>\<rparr>"

definition RecordFileSent :: "string \<Rightarrow> string \<Rightarrow> 'f SyncConnection \<Rightarrow> 'f SyncConnection" where
  "RecordFileSent from to sc =
     (let sc1 = RecordFilesTransferred 1 sc in sc1\<lparr>deferred_acknowledgements := deferred_acknowledgements sc1 @ [(from, to)]\<rparr>)"

definition ResolveCompressionType :: "'f SyncConnection \<Rightarrow> CompressionType \<Rightarrow> CompressionType" where
  "ResolveCompressionType sc compression =
     (if compression = CT_Any
      then if have_sendrecv_v2_zstd sc then CT_Zstd
           else if have_sendrecv_v2_lz4 sc then CT_LZ4
           else if have_sendrecv_v2_brotli sc then CT_Brotli
           else CT_None
      else compression)"

subsection \<open>Requests\<close>

definition path_too_long :: "string \<Rightarrow> nat \<Rightarrow> 'f SyncConnection \<Rightarrow> 'f SyncConnection" where
  "path_too_long who n sc = sc_set_errno ENAMETOOLONG (Error (who @ '' failed: path too long: '' @ decimal n) sc)"

definition SendRequest :: "u32 \<Rightarrow> string \<Rightarrow> 'f SyncConnection \<Rightarrow> (bool \<times> 'f SyncConnection) prog" where
  "SendRequest i path sc =
     (if 1024 < length path then pret (False, path_too_long ''SendRequest'' (length path) sc)
      else sc_write (sync_msg i (of_nat (length path)) @ path) sc)"

definition compression_flag :: "CompressionType \<Rightarrow> u32 result" where
  "compression_flag t =
     (case t of CT_None \<Rightarrow> Inr 0 | CT_Brotli \<Rightarrow> Inr kSyncFlagBrotli | CT_LZ4 \<Rightarrow> Inr kSyncFlagLZ4 | CT_Zstd \<Rightarrow> Inr kSyncFlagZstd | CT_Any \<Rightarrow> Inl Fatal)"

definition SendSend2 :: "string \<Rightarrow> u32 \<Rightarrow> CompressionType \<Rightarrow> bool \<Rightarrow> 'f SyncConnection \<Rightarrow> (bool \<times> 'f SyncConnection) prog" where
  "SendSend2 path mode compression dry_run sc =
     (if 1024 < length path then pret (False, path_too_long ''SendRequest'' (length path) sc)
      else pbind (Some (compression_flag compression)) (\<lambda>flags.
        sc_write (push_v2 path mode (if dry_run then flags OR kSyncFlagDryRun else flags)) sc))"

definition SendRecv2 :: "string \<Rightarrow> CompressionType \<Rightarrow> 'f SyncConnection \<Rightarrow> (bool \<times> 'f SyncConnection) prog" where
  "SendRecv2 path compression sc =
     (if 1024 < length path then pret (False, path_too_long ''SendRequest'' (length path) sc)
      else pbind (Some (compression_flag compression)) (\<lambda>flags. sc_write (pull_v2 path flags) sc))"

definition SendStat :: "string \<Rightarrow> 'f SyncConnection \<Rightarrow> (bool \<times> 'f SyncConnection) prog" where
  "SendStat path sc = (if \<not> have_stat_v2 sc then pret (False, sc_set_errno ENOTSUP sc) else SendRequest ID_STAT_V2 path sc)"

definition SendLstat :: "string \<Rightarrow> 'f SyncConnection \<Rightarrow> (bool \<times> 'f SyncConnection) prog" where
  "SendLstat path sc = SendRequest (if have_stat_v2 sc then ID_LSTAT_V2 else ID_LSTAT_V1) path sc"

definition SendQuit :: "'f SyncConnection \<Rightarrow> (bool \<times> 'f SyncConnection) prog" where
  "SendQuit sc = SendRequest ID_QUIT [] sc"

definition close_SyncConnection :: "'f SyncConnection \<Rightarrow> 'f SyncConnection prog" where
  "close_SyncConnection sc =
     pbind (SendQuit sc) (\<lambda>(ok, sc1).
       if \<not> ok then pret sc1
       else pbind (Some (ReadOrderlyShutdown (y_sock (sc_y sc1)))) (\<lambda>(_, fd). pret (sc1\<lparr>sc_y := (sc_y sc1)\<lparr>y_sock := fd\<rparr>\<rparr>)))"

subsection \<open>Answers about files\<close>

text \<open>\<open>None\<close> is a return of false; a short or foreign answer aborts the client.\<close>

definition FinishStat :: "(string \<Rightarrow> nat) \<Rightarrow> 'f SyncConnection \<Rightarrow> (stat_t option \<times> 'f SyncConnection) prog" where
  "FinishStat number sc =
     (if have_stat_v2 sc
      then case sc_read 72 sc of (ok, bs, sc1) \<Rightarrow>
             if \<not> ok then Some (Inl Fatal)
             else if msg_id bs \<noteq> ID_LSTAT_V2 \<and> msg_id bs \<noteq> ID_STAT_V2 then Some (Inl Fatal)
             else if msg_size bs \<noteq> 0 then pret (None, sc_set_errno (errno_from_wire number (unat (msg_size bs))) sc1)
             else pret (Some (stat_v2_at bs), sc1)
      else case sc_read 16 sc of (ok, bs, sc1) \<Rightarrow>
             if \<not> ok then Some (Inl Fatal)
             else if msg_id bs \<noteq> ID_LSTAT_V1 then Some (Inl Fatal)
             else let mode = of_le32 (drop 4 bs); size = of_le32 (drop 8 bs) :: u32; mtime = of_le32 (drop 12 bs) :: u32
                  in if mode = 0 \<and> size = 0 \<and> mtime = 0 then pret (None, sc_set_errno ENOPROTOOPT sc1)
                     else pret (Some (zero_stat\<lparr>st_mode := mode, st_size := ucast size, st_ctime := ucast mtime, st_mtime := ucast mtime\<rparr>), sc1))"

definition SendLs :: "string \<Rightarrow> 'f SyncConnection \<Rightarrow> (bool \<times> 'f SyncConnection) prog" where
  "SendLs path sc = SendRequest (if have_ls_v2 sc then ID_LIST_V2 else ID_LIST_V1) path sc"

text \<open>An entry of a list, as it is passed to the callback: mode, size, time and name.\<close>

type_synonym ls_entry = "u32 \<times> 64 word \<times> 64 word \<times> string"

definition dent_size :: "bool \<Rightarrow> nat" where "dent_size v2 = (if v2 then 76 else 20)"

definition dent_namelen :: "bool \<Rightarrow> bytes \<Rightarrow> u32" where
  "dent_namelen v2 bs = of_le32 (drop (dent_size v2 - 4) bs)"

definition dent_entry :: "bool \<Rightarrow> bytes \<Rightarrow> string \<Rightarrow> ls_entry" where
  "dent_entry v2 bs name =
     (if v2 then (st_mode (stat_v2_at bs), st_size (stat_v2_at bs), st_mtime (stat_v2_at bs), name)
      else (of_le32 (drop 4 bs), ucast (of_le32 (drop 8 bs) :: u32), ucast (of_le32 (drop 12 bs) :: u32), name))"

text \<open>The entries that the callback has seen are returned with the flag.\<close>

partial_function (option) FinishLsImpl :: "bool \<Rightarrow> ls_entry list \<Rightarrow> 'f SyncConnection \<Rightarrow> (bool \<times> ls_entry list \<times> 'f SyncConnection) option" where
  "FinishLsImpl v2 seen sc =
     (case sc_read (dent_size v2) sc of (ok, dent, sc1) \<Rightarrow>
        if \<not> ok then Some (False, seen, sc1)
        else if msg_id dent = ID_DONE then Some (True, seen, sc1)
        else if msg_id dent \<noteq> (if v2 then ID_DENT_V2 else ID_DENT_V1) then Some (False, seen, sc1)
        else if 255 < unat (dent_namelen v2 dent) then Some (False, seen, sc1)
        else case sc_read (unat (dent_namelen v2 dent)) sc1 of (ok2, buf, sc2) \<Rightarrow>
               if \<not> ok2 then Some (False, seen, sc2)
               else if CHR ''/'' \<in> set (c_name buf) then Some (False, seen, sc2)
               else FinishLsImpl v2 (seen @ [dent_entry v2 dent (c_name buf)]) sc2)"

definition FinishLs :: "'f SyncConnection \<Rightarrow> (bool \<times> ls_entry list \<times> 'f SyncConnection) prog" where
  "FinishLs sc = map_option Inr (FinishLsImpl (have_ls_v2 sc) [] sc)"

subsection \<open>Sending files\<close>

definition copy_failure :: "string \<Rightarrow> string \<Rightarrow> string" where
  "copy_failure from to = ''failed to copy '' @ quoted from @ '' to '' @ quoted to"

text \<open>A vector of \<open>msglen + 1\<close> bytes, which is empty for the largest length: then \<open>&buf[0]\<close> is out of range.\<close>

definition ReportCopyFailure :: "'f sys \<Rightarrow> string \<Rightarrow> string \<Rightarrow> bytes \<Rightarrow> 'f SyncConnection \<Rightarrow> 'f SyncConnection prog" where
  "ReportCopyFailure sys from to hdr sc =
     (if msg_size hdr + 1 = 0 then Some (Inl Out_of_range)
      else case sc_read (unat (msg_size hdr)) sc of (ok, buf, sc1) \<Rightarrow>
             if \<not> ok then pret (Error (copy_failure from to @ ''; failed to read reason (!): '' @ sys_strerror sys (sc_errno sc1)) sc1)
             else pret (Error (copy_failure from to @ '': remote '' @ c_name buf) sc1))"

text \<open>\<open>WriteOrDie\<close> exits when the write fails, after it has printed why.\<close>

definition WriteOrDie :: "'f sys \<Rightarrow> string \<Rightarrow> string \<Rightarrow> bytes \<Rightarrow> 'f SyncConnection \<Rightarrow> (bool \<times> 'f SyncConnection) prog" where
  "WriteOrDie sys from to data sc =
     pbind (sc_write data sc) (\<lambda>(ok, sc1).
       if ok then pret (True, sc1)
       else pbind (if sc_errno sc1 = ECONNRESET
                   then case sc_read 8 sc1 of (ok2, hdr, sc2) \<Rightarrow>
                          if \<not> ok2 then pret (Error (copy_failure from to @ '': no response: '' @ sys_strerror sys (sc_errno sc2)) sc2)
                          else if msg_id hdr \<noteq> ID_FAIL then pret (Error (copy_failure from to @ '': not ID_FAIL: '' @ signed_decimal (msg_id hdr)) sc2)
                          else ReportCopyFailure sys from to hdr sc2
                   else pret (Error (decimal (length data) @ ''-byte write failed: '' @ sys_strerror sys (sc_errno sc1)) sc1))
              (\<lambda>_. Some (Inl Exit)))"

text \<open>The loops of \<open>SendLargeFile\<close>: \<open>None\<close> is a return of false, \<open>Some b\<close> whether more input is needed.\<close>

partial_function (option) large_drain ::
  "'f sys \<Rightarrow> (nat \<Rightarrow> char) \<Rightarrow> 'l codecs \<Rightarrow> CompressionType \<Rightarrow> string \<Rightarrow> string \<Rightarrow> 'l encoder \<Rightarrow> 'f SyncConnection
     \<Rightarrow> ((bool option \<times> 'l encoder) \<times> 'f SyncConnection) prog" where
  "large_drain sys fresh C t lpath rpath e sc =
     pbind (Encode fresh C t e) (\<lambda>(r, output, e').
       if r = ER_Error then pret ((None, e'), Error (''compressing '' @ quoted lpath @ '' locally failed'') sc)
       else pbind (if output = [] then pret (True, sc)
                   else WriteOrDie sys lpath rpath (sync_msg ID_DATA (of_nat (length output)) @ output) sc) (\<lambda>(_, sc1).
         if r = ER_Done then pret ((Some False, e'), sc1)
         else if r = ER_NeedInput then pret ((Some True, e'), sc1)
         else large_drain sys fresh C t lpath rpath e' sc1))"

partial_function (option) large_send ::
  "'f sys \<Rightarrow> (nat \<Rightarrow> char) \<Rightarrow> 'l codecs \<Rightarrow> CompressionType \<Rightarrow> string \<Rightarrow> string \<Rightarrow> nat \<Rightarrow> 'l encoder \<Rightarrow> 'f SyncConnection
     \<Rightarrow> (bool \<times> 'f SyncConnection) prog" where
  "large_send sys fresh C t lpath rpath h e sc =
     (case sys_read sys h SYNC_DATA_MAX (y_fs (sc_y sc)) of
        (Inl err, f) \<Rightarrow> pret (False, Error (''reading '' @ quoted lpath @ '' locally failed: '' @ sys_strerror sys err)
                                (sc_set_errno err (sc\<lparr>sc_y := (sc_y sc)\<lparr>y_fs := f\<rparr>\<rparr>)))
      | (Inr bs, f) \<Rightarrow>
          let sc0 = sc\<lparr>sc_y := (sc_y sc)\<lparr>y_fs := f\<rparr>\<rparr>
          in pbind (Some (if bs = [] then Encoder_Finish e else Inr (Encoder_Append (block_of bs) e))) (\<lambda>e1.
             pbind (large_drain sys fresh C t lpath rpath e1 (if bs = [] then sc0 else RecordBytesTransferred (length bs) sc0)) (\<lambda>((r, e2), sc1).
               case r of
                 None \<Rightarrow> pret (False, sc1)
               | Some sending \<Rightarrow> if sending then large_send sys fresh C t lpath rpath h e2 sc1 else pret (True, sc1))))"

definition send_done :: "'f sys \<Rightarrow> string \<Rightarrow> string \<Rightarrow> u32 \<Rightarrow> 'f SyncConnection \<Rightarrow> (bool \<times> 'f SyncConnection) prog" where
  "send_done sys lpath rpath mtime sc = WriteOrDie sys lpath rpath (sync_msg ID_DONE mtime) (RecordFileSent lpath rpath sc)"

text \<open>Both senders look at the local file only after the request has been written.\<close>

definition open_local :: "'f sys \<Rightarrow> string \<Rightarrow> 'f SyncConnection \<Rightarrow> nat option \<times> 'f SyncConnection" where
  "open_local sys lpath sc =
     (case sys_stat sys lpath (y_fs (sc_y sc)) of
        Inl e \<Rightarrow> (None, Error (''cannot stat '' @ quoted lpath @ '': '' @ sys_strerror sys e) (sc_set_errno e sc))
      | Inr _ \<Rightarrow>
          (case y_open sys Read_only lpath 0 (sc_y sc) of
             (None, y) \<Rightarrow> (None, Error (''opening '' @ quoted lpath @ '' locally failed: '' @ sys_strerror sys (fd_errno (y_sock y))) (sc\<lparr>sc_y := y\<rparr>))
           | (Some h, y) \<Rightarrow> (Some h, sc\<lparr>sc_y := y\<rparr>)))"

partial_function (option) legacy_send ::
  "'f sys \<Rightarrow> string \<Rightarrow> string \<Rightarrow> nat \<Rightarrow> 'f SyncConnection \<Rightarrow> (bool \<times> 'f SyncConnection) prog" where
  "legacy_send sys lpath rpath h sc =
     (case sys_read sys h SYNC_DATA_MAX (y_fs (sc_y sc)) of
        (Inl err, f) \<Rightarrow> pret (False, Error (''reading '' @ quoted lpath @ '' locally failed: '' @ sys_strerror sys err)
                                (sc_set_errno err (sc\<lparr>sc_y := (sc_y sc)\<lparr>y_fs := f\<rparr>\<rparr>)))
      | (Inr bs, f) \<Rightarrow>
          let sc0 = sc\<lparr>sc_y := (sc_y sc)\<lparr>y_fs := f\<rparr>\<rparr>
          in if bs = [] then pret (True, sc0)
             else pbind (WriteOrDie sys lpath rpath (sync_msg ID_DATA (of_nat (length bs)) @ bs) sc0) (\<lambda>(_, sc1).
               legacy_send sys lpath rpath h (RecordBytesTransferred (length bs) sc1)))"

definition SendLargeFileLegacy ::
  "'f sys \<Rightarrow> string \<Rightarrow> u32 \<Rightarrow> string \<Rightarrow> string \<Rightarrow> u32 \<Rightarrow> 'f SyncConnection \<Rightarrow> (bool \<times> 'f SyncConnection) prog" where
  "SendLargeFileLegacy sys path mode lpath rpath mtime sc =
     (let path_and_mode = c_name path @ '','' @ signed_decimal mode
      in pbind (SendRequest ID_SEND_V1 path_and_mode sc) (\<lambda>(ok, sc1).
         if \<not> ok then pret (False, Error (''failed to send ID_SEND_V1 message '' @ quoted path_and_mode @ '': '' @ sys_strerror sys (sc_errno sc1)) sc1)
         else case open_local sys lpath sc1 of
                (None, sc2) \<Rightarrow> pret (False, sc2)
              | (Some h, sc2) \<Rightarrow>
                  pbind (legacy_send sys lpath rpath h sc2) (\<lambda>(ok2, sc3).
                    if \<not> ok2 then pret (False, sc_close sys h sc3)
                    else pbind (send_done sys lpath rpath mtime sc3) (\<lambda>(ok3, sc4). pret (ok3, sc_close sys h sc4)))))"

definition SendLargeFile ::
  "'f sys \<Rightarrow> (nat \<Rightarrow> char) \<Rightarrow> 'l codecs \<Rightarrow> string \<Rightarrow> u32 \<Rightarrow> string \<Rightarrow> string \<Rightarrow> u32 \<Rightarrow> CompressionType \<Rightarrow> bool \<Rightarrow> 'f SyncConnection
     \<Rightarrow> (bool \<times> 'f SyncConnection) prog" where
  "SendLargeFile sys fresh C path mode lpath rpath mtime compression0 dry_run sc =
     (if dry_run \<and> \<not> have_sendrecv_v2_dry_run_send sc then pret (False, Error ''dry-run not supported by the device'' sc)
      else if \<not> have_sendrecv_v2 sc then SendLargeFileLegacy sys path mode lpath rpath mtime sc
      else let compression = ResolveCompressionType sc compression0
           in pbind (SendSend2 path mode compression dry_run sc) (\<lambda>(ok, sc1).
              if \<not> ok then pret (False, Error (''failed to send ID_SEND_V2 message '' @ quoted path @ '': '' @ sys_strerror sys (sc_errno sc1)) sc1)
              else case open_local sys lpath sc1 of
                     (None, sc2) \<Rightarrow> pret (False, sc2)
                   | (Some h, sc2) \<Rightarrow>
                       pbind (Some (make_encoder C SYNC_DATA_MAX compression)) (\<lambda>e.
                       pbind (large_send sys fresh C compression lpath rpath h e sc2) (\<lambda>(ok2, sc3).
                         if \<not> ok2 then pret (False, sc_close sys h sc3)
                         else pbind (send_done sys lpath rpath mtime sc3) (\<lambda>(ok3, sc4). pret (ok3, sc_close sys h sc4))))))"

definition SendSmallFile ::
  "'f sys \<Rightarrow> (nat \<Rightarrow> char) \<Rightarrow> 'l codecs \<Rightarrow> string \<Rightarrow> u32 \<Rightarrow> string \<Rightarrow> string \<Rightarrow> u32 \<Rightarrow> bytes \<Rightarrow> bool \<Rightarrow> 'f SyncConnection
     \<Rightarrow> (bool \<times> 'f SyncConnection) prog" where
  "SendSmallFile sys fresh C path mode lpath rpath mtime data dry_run sc =
     (if dry_run then SendLargeFile sys fresh C path mode lpath rpath mtime CT_None dry_run sc
      else let path_and_mode = c_name path @ '','' @ signed_decimal mode
           in if 1024 < length path_and_mode then pret (False, path_too_long ''SendSmallFile'' (length path_and_mode) sc)
              else pbind (WriteOrDie sys lpath rpath
                       (sync_msg ID_SEND_V1 (of_nat (length path_and_mode)) @ path_and_mode
                        @ sync_msg ID_DATA (of_nat (length data)) @ data @ sync_msg ID_DONE mtime) sc) (\<lambda>(_, sc1).
                   pret (True, RecordBytesTransferred (length data) (RecordFileSent lpath rpath sc1))))"

subsection \<open>Acknowledgements\<close>

definition CopyDone :: "'f SyncConnection \<Rightarrow> 'f SyncConnection" where
  "CopyDone sc = sc\<lparr>deferred_acknowledgements := tl (deferred_acknowledgements sc)\<rparr>"

definition ReportDeferredCopyFailure :: "string \<Rightarrow> 'f SyncConnection \<Rightarrow> 'f SyncConnection" where
  "ReportDeferredCopyFailure m sc =
     (case deferred_acknowledgements sc of
        [] \<Rightarrow> sc
      | (from, to) # acks \<Rightarrow> (Error (copy_failure from to @ '': remote '' @ c_name m) sc)\<lparr>deferred_acknowledgements := acks\<rparr>)"

datatype ReadStatus = Success | Failure | TryLater

text \<open>The answer of one call of \<open>poll\<close>.\<close>

definition sc_poll :: "'f SyncConnection \<Rightarrow> bool \<times> 'f SyncConnection" where
  "sc_poll sc = (case sc_polls sc of [] \<Rightarrow> (True, sc) | b # bs \<Rightarrow> (b, sc\<lparr>sc_polls := bs\<rparr>))"

partial_function (option) read_until_amount :: "'f sys \<Rightarrow> bool \<Rightarrow> nat \<Rightarrow> 'f SyncConnection \<Rightarrow> (ReadStatus \<times> 'f SyncConnection) option" where
  "read_until_amount sys should_block amount sc =
     (if amount \<le> length (acknowledgement_buffer sc) then Some (Success, sc)
      else case (if should_block then (True, sc) else sc_poll sc) of (ready, sc1) \<Rightarrow>
        if \<not> ready then Some (TryLater, sc1)
        else case adb_read (amount - length (acknowledgement_buffer sc1)) (y_sock (sc_y sc1)) of (r, fd) \<Rightarrow>
          let sc2 = sc1\<lparr>sc_y := (sc_y sc1)\<lparr>y_sock := fd\<rparr>\<rparr>
          in if r = None then Some (Failure, Error (''failed to read copy response: '' @ sys_strerror sys (fd_errno fd)) sc2)
             else if the r = [] then Some (Failure, Error (''failed to read copy response: EOF'') sc2)
             else let sc3 = sc2\<lparr>acknowledgement_buffer := acknowledgement_buffer sc2 @ the r\<rparr>
                  in if \<not> should_block \<and> length (acknowledgement_buffer sc3) < amount then Some (TryLater, sc3)
                     else read_until_amount sys should_block amount sc3)"

partial_function (option) ReadAcknowledgements :: "'f sys \<Rightarrow> bool \<Rightarrow> 'f SyncConnection \<Rightarrow> (bool \<times> 'f SyncConnection) option" where
  "ReadAcknowledgements sys read_all sc =
     (if deferred_acknowledgements sc = [] then Some (True, sc)
      else let should_block = (read_all \<or> 128 \<le> length (deferred_acknowledgements sc))
           in Option.bind (read_until_amount sys should_block 8 sc) (\<lambda>(st, sc1).
              if st = TryLater then Some (True, sc1)
              else if st = Failure then Some (False, sc1)
              else let hdr = acknowledgement_buffer sc1
                   in if msg_id hdr = ID_OKAY
                      then if msg_size hdr \<noteq> 0
                           then Some (False, Error (''received ID_OKAY with msg_len ('' @ decimal (unat (msg_size hdr)) @ '' != 0'') (sc1\<lparr>acknowledgement_buffer := []\<rparr>))
                           else ReadAcknowledgements sys read_all (CopyDone (sc1\<lparr>acknowledgement_buffer := []\<rparr>))
                      else if msg_id hdr \<noteq> ID_FAIL then Some (False, Error (''unexpected response from daemon: id = '' @ (if msg_id hdr = 0 then ''0'' else ''0x'' @ hex_pad 1 (unat (msg_id hdr)))) sc1)
                      else if SYNC_DATA_MAX < unat (msg_size hdr)
                      then Some (False, Error (''too-long message length from daemon: msglen = '' @ decimal (unat (msg_size hdr))) sc1)
                      else Option.bind (read_until_amount sys should_block (8 + unat (msg_size hdr)) sc1) (\<lambda>(st2, sc2).
                        if st2 = TryLater then Some (True, sc2)
                        else if st2 = Failure then Some (False, sc2)
                        else Some (False, (ReportDeferredCopyFailure (drop 8 (acknowledgement_buffer sc2)) sc2)\<lparr>acknowledgement_buffer := []\<rparr>))))"

subsection \<open>Single files\<close>

definition sync_ls :: "string \<Rightarrow> 'f SyncConnection \<Rightarrow> (bool \<times> ls_entry list \<times> 'f SyncConnection) prog" where
  "sync_ls path sc = pbind (SendLs path sc) (\<lambda>(ok, sc1). if \<not> ok then pret (False, [], sc1) else FinishLs sc1)"

definition sync_stat :: "(string \<Rightarrow> nat) \<Rightarrow> string \<Rightarrow> 'f SyncConnection \<Rightarrow> (stat_t option \<times> 'f SyncConnection) prog" where
  "sync_stat number path sc = pbind (SendStat path sc) (\<lambda>(ok, sc1). if \<not> ok then pret (None, sc1) else FinishStat number sc1)"

definition sync_lstat :: "(string \<Rightarrow> nat) \<Rightarrow> string \<Rightarrow> 'f SyncConnection \<Rightarrow> (stat_t option \<times> 'f SyncConnection) prog" where
  "sync_lstat number path sc = pbind (SendLstat path sc) (\<lambda>(ok, sc1). if \<not> ok then pret (None, sc1) else FinishStat number sc1)"

definition sync_stat_fallback :: "(string \<Rightarrow> nat) \<Rightarrow> string \<Rightarrow> 'f SyncConnection \<Rightarrow> (stat_t option \<times> 'f SyncConnection) prog" where
  "sync_stat_fallback number path sc =
     pbind (sync_stat number path sc) (\<lambda>(r, sc1).
       if r \<noteq> None then pret (r, sc1)
       else if sc_errno sc1 \<noteq> ENOTSUP then pret (None, sc1)
       else pbind (sync_lstat number path sc1) (\<lambda>(r2, sc2).
         case r2 of
           None \<Rightarrow> pret (None, sc2)
         | Some st \<Rightarrow>
             if \<not> S_ISLNK (st_mode st) then pret (Some st, sc2)
             else pbind (sync_lstat number (path @ ''/'') sc2) (\<lambda>(r3, sc3).
               pret (Some (st\<lparr>st_size := 0, st_mode := (st_mode st AND NOT 0xF000) OR (if r3 \<noteq> None then 0x4000 else 0x8000)\<rparr>), sc3))))"

definition finish_acks :: "'f sys \<Rightarrow> bool \<Rightarrow> bool \<times> 'f SyncConnection \<Rightarrow> (bool \<times> 'f SyncConnection) prog" where
  "finish_acks sys sync r = (if \<not> fst r then pret r else map_option Inr (ReadAcknowledgements sys sync (snd r)))"

definition send_now ::
  "'f sys \<Rightarrow> (nat \<Rightarrow> char) \<Rightarrow> 'l codecs \<Rightarrow> string \<Rightarrow> string \<Rightarrow> u32 \<Rightarrow> u32 \<Rightarrow> bool \<Rightarrow> CompressionType \<Rightarrow> bool \<Rightarrow> 'f SyncConnection
     \<Rightarrow> (bool \<times> 'f SyncConnection) prog" where
  "send_now sys fresh C lpath rpath mtime mode sync compression dry_run sc =
     (if S_ISLNK mode
      then case sys_readlink sys lpath (y_fs (sc_y sc)) of
             Inl e \<Rightarrow> pret (False, Error (''readlink '' @ quoted lpath @ '' failed: '' @ sys_strerror sys e) (sc_set_errno e sc))
           | Inr target \<Rightarrow> pbind (SendSmallFile sys fresh C rpath mode lpath rpath mtime (take 4095 target @ [CHR 0x00]) dry_run sc) (finish_acks sys sync)
      else case sys_stat sys lpath (y_fs (sc_y sc)) of
             Inl e \<Rightarrow> pret (False, Error (''failed to stat local file '' @ quoted lpath @ '': '' @ sys_strerror sys e) (sc_set_errno e sc))
           | Inr st \<Rightarrow>
               if sint (st_size st) < int SYNC_DATA_MAX
               then case sys_slurp sys lpath (y_fs (sc_y sc)) of
                      Inl e \<Rightarrow> pret (False, Error (''failed to read all of '' @ quoted lpath @ '': '' @ sys_strerror sys e) (sc_set_errno e sc))
                    | Inr data \<Rightarrow> pbind (SendSmallFile sys fresh C rpath mode lpath rpath mtime data dry_run sc) (finish_acks sys sync)
               else pbind (SendLargeFile sys fresh C rpath mode lpath rpath mtime compression dry_run sc) (finish_acks sys sync))"

definition sync_send ::
  "'f sys \<Rightarrow> (nat \<Rightarrow> char) \<Rightarrow> 'l codecs \<Rightarrow> (string \<Rightarrow> nat) \<Rightarrow> string \<Rightarrow> string \<Rightarrow> u32 \<Rightarrow> u32 \<Rightarrow> bool \<Rightarrow> CompressionType \<Rightarrow> bool \<Rightarrow> 'f SyncConnection
     \<Rightarrow> (bool \<times> 'f SyncConnection) prog" where
  "sync_send sys fresh C number lpath rpath mtime mode sync compression dry_run sc =
     (if sync
      then pbind (sync_lstat number rpath sc) (\<lambda>(r, sc1).
             if (case r of None \<Rightarrow> False | Some st \<Rightarrow> st_mtime st = ucast mtime) then pret (True, RecordFilesSkipped 1 sc1)
             else send_now sys fresh C lpath rpath mtime mode sync compression dry_run sc1)
      else send_now sys fresh C lpath rpath mtime mode sync compression dry_run sc)"

text \<open>\<open>adb_unlink\<close> and \<open>adb_creat\<close> of the local file.\<close>

definition create_local :: "'f sys \<Rightarrow> string \<Rightarrow> 'f SyncConnection \<Rightarrow> nat option \<times> 'f SyncConnection" where
  "create_local sys lpath sc =
     (case y_open sys Create_truncate lpath 420 (sc_y (sc_unlink sys lpath sc)) of
        (None, y) \<Rightarrow> (None, Error (''cannot create '' @ quoted lpath @ '': '' @ sys_strerror sys (fd_errno (y_sock y))) (sc\<lparr>sc_y := y\<rparr>))
      | (Some h, y) \<Rightarrow> (Some h, sc\<lparr>sc_y := y\<rparr>))"

definition write_local :: "'f sys \<Rightarrow> string \<Rightarrow> nat \<Rightarrow> bytes \<Rightarrow> 'f SyncConnection \<Rightarrow> (bool \<times> 'f SyncConnection) prog" where
  "write_local sys lpath h bs sc =
     pbind (write_file sys h bs (sc_y sc)) (\<lambda>(ok, y).
       let sc1 = sc\<lparr>sc_y := y\<rparr>
       in if ok then pret (True, sc1)
          else pret (False, sc_unlink sys lpath (Error (''cannot write '' @ quoted lpath @ '': '' @ sys_strerror sys (fd_errno (y_sock y))) sc1)))"

definition too_large :: "'f sys \<Rightarrow> string \<Rightarrow> bytes \<Rightarrow> 'f SyncConnection \<Rightarrow> 'f SyncConnection" where
  "too_large sys lpath hdr sc =
     sc_unlink sys lpath (Error (''msg.data.size too large: '' @ decimal (unat (msg_size hdr)) @ '' (max '' @ decimal SYNC_DATA_MAX @ '')'') sc)"

partial_function (option) recv_v1_loop :: "'f sys \<Rightarrow> string \<Rightarrow> string \<Rightarrow> nat \<Rightarrow> 'f SyncConnection \<Rightarrow> (bool \<times> 'f SyncConnection) prog" where
  "recv_v1_loop sys rpath lpath h sc =
     (case sc_read 8 sc of (ok, hdr, sc1) \<Rightarrow>
        if \<not> ok then pret (False, sc_unlink sys lpath sc1)
        else if msg_id hdr = ID_DONE then pret (True, RecordFilesTransferred 1 sc1)
        else if msg_id hdr \<noteq> ID_DATA then pbind (ReportCopyFailure sys rpath lpath hdr (sc_unlink sys lpath sc1)) (\<lambda>sc2. pret (False, sc2))
        else if SYNC_DATA_MAX < unat (msg_size hdr) then pret (False, too_large sys lpath hdr sc1)
        else case sc_read (unat (msg_size hdr)) sc1 of (ok2, bs, sc2) \<Rightarrow>
               if \<not> ok2 then pret (False, sc_unlink sys lpath sc2)
               else pbind (write_local sys lpath h bs sc2) (\<lambda>(ok3, sc3).
                 if \<not> ok3 then pret (False, sc3)
                 else recv_v1_loop sys rpath lpath h (RecordBytesTransferred (unat (msg_size hdr)) sc3)))"

definition sync_recv_v1 :: "'f sys \<Rightarrow> string \<Rightarrow> string \<Rightarrow> 'f SyncConnection \<Rightarrow> (bool \<times> 'f SyncConnection) prog" where
  "sync_recv_v1 sys rpath lpath sc =
     pbind (SendRequest ID_RECV_V1 rpath sc) (\<lambda>(ok, sc1).
       if \<not> ok then pret (False, sc1)
       else case create_local sys lpath sc1 of
              (None, sc2) \<Rightarrow> pret (False, sc2)
            | (Some h, sc2) \<Rightarrow> pbind (recv_v1_loop sys rpath lpath h sc2) (\<lambda>(ok2, sc3). pret (ok2, sc_close sys h sc3)))"

text \<open>The inner loop of \<open>sync_recv_v2\<close>: \<open>Drained b\<close> is a return of \<open>b\<close>.\<close>

partial_function (option) local_drain ::
  "'f sys \<Rightarrow> 'l codecs \<Rightarrow> CompressionType \<Rightarrow> string \<Rightarrow> nat \<Rightarrow> 'l decoder \<Rightarrow> 'f SyncConnection \<Rightarrow> ((drained \<times> 'l decoder) \<times> 'f SyncConnection) prog" where
  "local_drain sys C t lpath h d sc =
     pbind (Decode C t d) (\<lambda>(r, output, d').
       if r = DR_Error then pret ((Drained False, d'), sc_unlink sys lpath (Error ''decompress failed'' sc))
       else pbind (if output = [] then pret (True, sc) else write_local sys lpath h output sc) (\<lambda>(ok, sc1).
         if \<not> ok then pret ((Drained False, d'), sc1)
         else let sc2 = RecordBytesTransferred (length output) sc1
              in if r = DR_NeedInput then pret ((Need_message, d'), sc2)
                 else if r = DR_MoreOutput then local_drain sys C t lpath h d' sc2
                 else pret ((Drained True, d'), RecordFilesTransferred 1 sc2)))"

definition local_message ::
  "'f sys \<Rightarrow> string \<Rightarrow> string \<Rightarrow> 'l decoder \<Rightarrow> 'f SyncConnection \<Rightarrow> ('l decoder option \<times> 'f SyncConnection) prog" where
  "local_message sys rpath lpath d sc =
     (case sc_read 8 sc of (ok, hdr, sc1) \<Rightarrow>
        if \<not> ok then pret (None, sc_unlink sys lpath sc1)
        else if msg_id hdr = ID_DONE then pbind (Some (Decoder_Finish d)) (\<lambda>d'. pret (Some d', sc1))
        else if msg_id hdr \<noteq> ID_DATA then pbind (ReportCopyFailure sys rpath lpath hdr (sc_unlink sys lpath sc1)) (\<lambda>sc2. pret (None, sc2))
        else if SYNC_DATA_MAX < unat (msg_size hdr) then pret (None, too_large sys lpath hdr sc1)
        else case sc_read (unat (msg_size hdr)) sc1 of (ok2, bs, sc2) \<Rightarrow>
               if \<not> ok2 then pret (None, sc_unlink sys lpath sc2)
               else pret (Some (Decoder_Append (block_of bs) d), sc2))"

partial_function (option) recv_v2_loop ::
  "'f sys \<Rightarrow> 'l codecs \<Rightarrow> CompressionType \<Rightarrow> string \<Rightarrow> string \<Rightarrow> nat \<Rightarrow> 'l decoder \<Rightarrow> 'f SyncConnection \<Rightarrow> (bool \<times> 'f SyncConnection) prog" where
  "recv_v2_loop sys C t rpath lpath h d sc =
     pbind (local_message sys rpath lpath d sc) (\<lambda>(m, sc1).
       case m of
         None \<Rightarrow> pret (False, sc1)
       | Some d1 \<Rightarrow>
           pbind (local_drain sys C t lpath h d1 sc1) (\<lambda>((r, d2), sc2).
             case r of
               Need_message \<Rightarrow> recv_v2_loop sys C t rpath lpath h d2 sc2
             | Drained b \<Rightarrow> pret (b, sc2)))"

definition sync_recv_v2 :: "'f sys \<Rightarrow> 'l codecs \<Rightarrow> string \<Rightarrow> string \<Rightarrow> CompressionType \<Rightarrow> 'f SyncConnection \<Rightarrow> (bool \<times> 'f SyncConnection) prog" where
  "sync_recv_v2 sys C rpath lpath compression0 sc =
     (let compression = ResolveCompressionType sc compression0
      in pbind (SendRecv2 rpath compression sc) (\<lambda>(ok, sc1).
         if \<not> ok then pret (False, sc1)
         else case create_local sys lpath sc1 of
                (None, sc2) \<Rightarrow> pret (False, sc2)
              | (Some h, sc2) \<Rightarrow>
                  pbind (Some (make_decoder C SYNC_DATA_MAX compression)) (\<lambda>d.
                  pbind (recv_v2_loop sys C compression rpath lpath h d sc2) (\<lambda>(ok2, sc3). pret (ok2, sc_close sys h sc3)))))"

definition sync_recv :: "'f sys \<Rightarrow> 'l codecs \<Rightarrow> string \<Rightarrow> string \<Rightarrow> CompressionType \<Rightarrow> 'f SyncConnection \<Rightarrow> (bool \<times> 'f SyncConnection) prog" where
  "sync_recv sys C rpath lpath compression sc =
     (if have_sendrecv_v2 sc then sync_recv_v2 sys C rpath lpath compression sc else sync_recv_v1 sys rpath lpath sc)"

end
