(* ===== verification/File_Sync_Copy.thy ===== *)
theory File_Sync_Copy
  imports File_Sync_Client
begin

text \<open>
  The commands of the file sync client (\<open>client/file_sync_client.cpp\<close>): what \<open>adb push\<close>, \<open>adb pull\<close>,
  \<open>adb sync\<close> and \<open>adb ls\<close> do with files and directories. A recursion over directories is a loop over the
  directories that are still to be visited, in the order of the recursion.
\<close>

subsection \<open>Names\<close>

definition S_ISBLK :: "u32 \<Rightarrow> bool" where "S_ISBLK m \<longleftrightarrow> m AND 0xF000 = 0x6000"
definition S_ISCHR :: "u32 \<Rightarrow> bool" where "S_ISCHR m \<longleftrightarrow> m AND 0xF000 = 0x2000"

definition with_separator :: "string \<Rightarrow> string" where
  "with_separator s = (if s \<noteq> [] \<and> last s = CHR ''/'' then s else s @ ''/'')"

definition ensure_trailing_separators :: "string \<Rightarrow> string \<Rightarrow> string \<times> string" where
  "ensure_trailing_separators local_path remote_path = (with_separator local_path, with_separator remote_path)"

definition should_pull_file :: "u32 \<Rightarrow> bool" where
  "should_pull_file mode \<longleftrightarrow> S_ISREG mode \<or> S_ISBLK mode \<or> S_ISCHR mode"

definition should_push_file :: "u32 \<Rightarrow> bool" where
  "should_push_file mode \<longleftrightarrow> S_ISREG mode \<or> S_ISLNK mode"

record copyinfo =
  ci_lpath :: string
  ci_rpath :: string
  ci_time :: "64 word"
  ci_mode :: u32
  ci_size :: "64 word"
  ci_skip :: bool

definition new_copyinfo :: "string \<Rightarrow> string \<Rightarrow> string \<Rightarrow> u32 \<Rightarrow> copyinfo" where
  "new_copyinfo local_path remote_path name mode =
     (let (l, r) = ensure_trailing_separators local_path remote_path;
          (l', r') = (if S_ISDIR mode then ensure_trailing_separators (l @ name) (r @ name) else (l @ name, r @ name))
      in \<lparr>ci_lpath = l', ci_rpath = r', ci_time = 0, ci_mode = mode, ci_size = 0, ci_skip = False\<rparr>)"

definition IsDotOrDotDot :: "string \<Rightarrow> bool" where
  "IsDotOrDotDot name \<longleftrightarrow> name = ''.'' \<or> name = ''..''"

definition is_root_dir :: "string \<Rightarrow> bool" where
  "is_root_dir path \<longleftrightarrow> list_all (\<lambda>c. c = CHR ''/'') path"

definition octal :: "u32 \<Rightarrow> string" where
  "octal m = digits 8 (unat m)"

definition special_file :: "string \<Rightarrow> u32 \<Rightarrow> 'f SyncConnection \<Rightarrow> 'f SyncConnection" where
  "special_file path mode = Warning (''skipping special file '' @ quoted path @ '' (mode = 0o'' @ octal mode @ '')'')"

subsection \<open>Directories to push\<close>

text \<open>The entries of one directory: its directories, its files, and what is printed.\<close>

fun local_scan ::
  "'f sys \<Rightarrow> string \<Rightarrow> string \<Rightarrow> string list \<Rightarrow> copyinfo list \<Rightarrow> copyinfo list \<Rightarrow> 'f SyncConnection
     \<Rightarrow> copyinfo list \<times> copyinfo list \<times> 'f SyncConnection" where
  "local_scan sys lpath rpath [] dirlist files sc = (dirlist, files, sc)"
| "local_scan sys lpath rpath (d_name # ds) dirlist files sc =
     (if IsDotOrDotDot d_name then local_scan sys lpath rpath ds dirlist files sc
      else case sys_lstat sys (lpath @ d_name) (y_fs (sc_y sc)) of
             Inl e \<Rightarrow> local_scan sys lpath rpath ds dirlist files
                        (Error (''cannot lstat '' @ quoted (lpath @ d_name) @ '': '' @ sys_strerror sys e) (sc_set_errno e sc))
           | Inr st \<Rightarrow>
               let ci = new_copyinfo lpath rpath d_name (st_mode st)
               in if S_ISDIR (st_mode st) then local_scan sys lpath rpath ds (dirlist @ [ci]) files sc
                  else let push = should_push_file (st_mode st)
                       in local_scan sys lpath rpath ds dirlist
                            (files @ [ci\<lparr>ci_skip := \<not> push, ci_time := st_mtime st, ci_size := st_size st\<rparr>])
                            (if push then sc else special_file lpath (st_mode st) sc))"

definition local_open_dir ::
  "'f sys \<Rightarrow> string \<Rightarrow> string \<Rightarrow> copyinfo list \<Rightarrow> 'f SyncConnection \<Rightarrow> bool \<times> copyinfo list \<times> copyinfo list \<times> 'f SyncConnection" where
  "local_open_dir sys lpath rpath files sc =
     (case sys_dir sys lpath (y_fs (sc_y sc)) of
        Inl e \<Rightarrow> (False, [], files, Error (''cannot open '' @ quoted lpath @ '': '' @ sys_strerror sys e) (sc_set_errno e sc))
      | Inr ds \<Rightarrow> (True, local_scan sys lpath rpath ds [] files sc))"

partial_function (option) local_visit ::
  "'f sys \<Rightarrow> copyinfo list \<Rightarrow> copyinfo list \<Rightarrow> string list \<Rightarrow> 'f SyncConnection \<Rightarrow> (copyinfo list \<times> string list \<times> 'f SyncConnection) option" where
  "local_visit sys todo files dirs sc =
     (case todo of
        [] \<Rightarrow> Some (files, dirs, sc)
      | ci # todo' \<Rightarrow>
          (case local_open_dir sys (ci_lpath ci) (ci_rpath ci) files sc of
             (_, dirlist, files', sc') \<Rightarrow> local_visit sys (dirlist @ todo') files' (dirs @ [ci_rpath ci]) sc'))"

definition local_build_list ::
  "'f sys \<Rightarrow> string list \<Rightarrow> string \<Rightarrow> string \<Rightarrow> 'f SyncConnection \<Rightarrow> (bool \<times> copyinfo list \<times> string list \<times> 'f SyncConnection) option" where
  "local_build_list sys dirs lpath rpath sc =
     (case local_open_dir sys lpath rpath [] sc of
        (False, _, files, sc') \<Rightarrow> Some (False, files, dirs, sc')
      | (True, dirlist, files, sc') \<Rightarrow> map_option (Pair True) (local_visit sys dirlist files dirs sc'))"

text \<open>The remote directory and its parents, up to the root.\<close>

partial_function (option) remote_parents :: "(string \<Rightarrow> string) \<Rightarrow> string \<Rightarrow> string list \<Rightarrow> string list option" where
  "remote_parents Dirname path dirs =
     (if is_root_dir path then Some (rev dirs) else remote_parents Dirname (Dirname path) (dirs @ [path]))"

text \<open>The commands that make the directories on devices with a faulty push: \<open>Inl\<close> is a path that is too long.\<close>

fun mkdir_commands :: "string list \<Rightarrow> string \<Rightarrow> string list \<Rightarrow> string \<times> string list + string list" where
  "mkdir_commands [] cmd sent = Inr (if cmd \<noteq> ''mkdir'' then sent @ [cmd] else sent)"
| "mkdir_commands (d # ds) cmd sent =
     (let escaped_path = escape_arg d
      in if 16384 < length escaped_path then Inl (escaped_path, sent)
         else if 32768 < length cmd + length escaped_path then mkdir_commands ds (''mkdir '' @ escaped_path) (sent @ [cmd])
         else mkdir_commands ds (cmd @ '' '' @ escaped_path) sent)"

definition make_remote_dirs :: "string list \<Rightarrow> 'f SyncConnection \<Rightarrow> bool \<times> 'f SyncConnection" where
  "make_remote_dirs dirs sc =
     (if \<not> sc_can_use sc ''fixed_push_mkdir'' \<and> sc_can_use sc ''shell_v2''
      then case mkdir_commands dirs ''mkdir'' [] of
             Inl (p, sent) \<Rightarrow> (False, Error (''path too long: '' @ p) (sc\<lparr>sc_shell := sc_shell sc @ sent\<rparr>))
           | Inr sent \<Rightarrow> (True, sc\<lparr>sc_shell := sc_shell sc @ sent\<rparr>)
      else (True, sc))"

text \<open>The comparison of times and sizes: all requests first, then all answers.\<close>

fun send_lstats :: "copyinfo list \<Rightarrow> 'f SyncConnection \<Rightarrow> (bool \<times> 'f SyncConnection) prog" where
  "send_lstats [] sc = pret (True, sc)"
| "send_lstats (ci # cis) sc =
     pbind (SendLstat (ci_rpath ci) sc) (\<lambda>(ok, sc1). if \<not> ok then pret (False, Error ''failed to send lstat'' sc1) else send_lstats cis sc1)"

fun finish_lstats :: "(string \<Rightarrow> nat) \<Rightarrow> copyinfo list \<Rightarrow> 'f SyncConnection \<Rightarrow> (copyinfo list \<times> 'f SyncConnection) prog" where
  "finish_lstats number [] sc = pret ([], sc)"
| "finish_lstats number (ci # cis) sc =
     pbind (FinishStat number sc) (\<lambda>(r, sc1).
       let same = (case r of None \<Rightarrow> False | Some st \<Rightarrow> st_size st = ci_size ci \<and> st_mtime st = ci_time ci)
       in pbind (finish_lstats number cis sc1) (\<lambda>(cis', sc2). pret ((if same then ci\<lparr>ci_skip := True\<rparr> else ci) # cis', sc2)))"

text \<open>The files of the list, in order; the number is that of the skipped ones.\<close>

fun push_files ::
  "'f sys \<Rightarrow> (nat \<Rightarrow> char) \<Rightarrow> 'l codecs \<Rightarrow> (string \<Rightarrow> nat) \<Rightarrow> bool \<Rightarrow> CompressionType \<Rightarrow> bool \<Rightarrow> copyinfo list \<Rightarrow> nat \<Rightarrow> 'f SyncConnection
     \<Rightarrow> (nat option \<times> 'f SyncConnection) prog" where
  "push_files sys fresh C number list_only compression dry_run [] skipped sc = pret (Some skipped, sc)"
| "push_files sys fresh C number list_only compression dry_run (ci # cis) skipped sc =
     (if ci_skip ci then push_files sys fresh C number list_only compression dry_run cis (Suc skipped) sc
      else if list_only
      then push_files sys fresh C number list_only compression dry_run cis skipped
             (sc\<lparr>sc_printed := sc_printed sc @ [''would push: '' @ ci_lpath ci @ '' -> '' @ ci_rpath ci]\<rparr>)
      else pbind (sync_send sys fresh C number (ci_lpath ci) (ci_rpath ci) (ucast (ci_time ci)) (ci_mode ci) False compression dry_run sc) (\<lambda>(ok, sc1).
             if \<not> ok then pret (None, sc1) else push_files sys fresh C number list_only compression dry_run cis skipped sc1))"

definition copy_local_dir_remote ::
  "'f sys \<Rightarrow> (nat \<Rightarrow> char) \<Rightarrow> 'l codecs \<Rightarrow> (string \<Rightarrow> nat) \<Rightarrow> string \<Rightarrow> string \<Rightarrow> bool \<Rightarrow> bool \<Rightarrow> CompressionType \<Rightarrow> bool \<Rightarrow> 'f SyncConnection
     \<Rightarrow> (bool \<times> 'f SyncConnection) prog" where
  "copy_local_dir_remote sys fresh C number lpath0 rpath0 check_timestamps list_only compression dry_run sc0 =
     (let (lpath, rpath) = ensure_trailing_separators lpath0 rpath0
      in pbind (map_option Inr (remote_parents (sys_dirname sys) rpath [])) (\<lambda>dirs0.
         pbind (map_option Inr (local_build_list sys dirs0 lpath rpath (NewTransfer sc0))) (\<lambda>(ok, files, dirs, sc1).
         if \<not> ok then pret (False, sc1)
         else case make_remote_dirs dirs sc1 of (ok2, sc2) \<Rightarrow>
           if \<not> ok2 then pret (False, sc2)
           else pbind (if check_timestamps
                       then pbind (send_lstats files sc2) (\<lambda>(ok3, sc3).
                              if \<not> ok3 then pret (None, sc3) else pbind (finish_lstats number files sc3) (\<lambda>(fs, sc4). pret (Some fs, sc4)))
                       else pret (Some files, sc2)) (\<lambda>(todo, sc5).
             case todo of
               None \<Rightarrow> pret (False, sc5)
             | Some fs \<Rightarrow>
                 pbind (push_files sys fresh C number list_only compression dry_run fs 0 sc5) (\<lambda>(r, sc6).
                   case r of
                     None \<Rightarrow> pret (False, sc6)
                   | Some skipped \<Rightarrow> map_option Inr (ReadAcknowledgements sys True (RecordFilesSkipped skipped sc6)))))))"

subsection \<open>The commands that push\<close>

definition with_connection :: "(bool \<times> 'f SyncConnection) prog \<Rightarrow> (bool \<times> 'f SyncConnection) prog" where
  "with_connection body = pbind body (\<lambda>(ok, sc). pbind (close_SyncConnection sc) (\<lambda>sc'. pret (ok, sc')))"

text \<open>\<open>None\<close> is a return of false from the loop over the sources.\<close>

fun push_sources ::
  "'f sys \<Rightarrow> (nat \<Rightarrow> char) \<Rightarrow> 'l codecs \<Rightarrow> (string \<Rightarrow> nat) \<Rightarrow> string list \<Rightarrow> string \<Rightarrow> bool \<Rightarrow> bool \<Rightarrow> bool \<Rightarrow> CompressionType \<Rightarrow> bool \<Rightarrow> bool
     \<Rightarrow> 'f SyncConnection \<Rightarrow> (bool option \<times> 'f SyncConnection) prog" where
  "push_sources sys fresh C number [] dst dst_exists dst_isdir sync compression dry_run success sc = pret (Some success, sc)"
| "push_sources sys fresh C number (src_path # srcs) dst dst_exists dst_isdir sync compression dry_run success sc =
     (let continue = (\<lambda>ok sc'. push_sources sys fresh C number srcs dst dst_exists dst_isdir sync compression dry_run (success \<and> ok) sc')
      in case sys_stat sys src_path (y_fs (sc_y sc)) of
           Inl e \<Rightarrow> continue False (Error (''cannot stat '' @ quoted src_path @ '': '' @ sys_strerror sys e) (sc_set_errno e sc))
         | Inr st \<Rightarrow>
             if S_ISDIR (st_mode st)
             then if dst_exists \<and> \<not> dst_isdir then pret (None, Error (''target '' @ quoted dst @ '' is not a directory'') sc)
                  else let dst_dir = (if dst_exists then with_separator dst @ sys_basename sys src_path else dst)
                       in pbind (copy_local_dir_remote sys fresh C number src_path dst_dir sync False compression dry_run sc) (\<lambda>(ok, sc1). continue ok sc1)
             else if \<not> should_push_file (st_mode st) then continue True (special_file src_path (st_mode st) sc)
             else let dst_path = (if dst_isdir then with_separator dst @ sys_basename sys src_path else dst)
                  in pbind (sync_send sys fresh C number src_path dst_path (ucast (st_mtime st)) (st_mode st) sync compression dry_run (NewTransfer sc))
                       (\<lambda>(ok, sc1). continue ok sc1))"

text \<open>The last character of the destination, which is before the start of an empty one.\<close>

definition ends_in_slash :: "string \<Rightarrow> bool result" where
  "ends_in_slash dst = (if dst = [] then Inl Out_of_range else Inr (last dst = CHR ''/''))"

definition check_destination :: "string list \<Rightarrow> string \<Rightarrow> bool \<Rightarrow> 'f SyncConnection \<Rightarrow> (bool \<times> 'f SyncConnection) result" where
  "check_destination srcs dst dst_exists sc =
     (if 1 < length srcs then Inr (False, Error (''target '' @ quoted dst @ '' is not a directory'') sc)
      else rbind (ends_in_slash dst) (\<lambda>slash.
        if slash \<and> dst_exists then Inr (False, Error (''failed to access '' @ quoted dst @ '': Not a directory'') sc) else Inr (True, sc)))"

definition do_sync_push ::
  "'f sys \<Rightarrow> (nat \<Rightarrow> char) \<Rightarrow> 'l codecs \<Rightarrow> (string \<Rightarrow> nat) \<Rightarrow> string list \<Rightarrow> string \<Rightarrow> bool \<Rightarrow> CompressionType \<Rightarrow> bool \<Rightarrow> 'f SyncConnection
     \<Rightarrow> (bool \<times> 'f SyncConnection) prog" where
  "do_sync_push sys fresh C number srcs dst sync compression dry_run sc =
     with_connection (pbind (sync_stat_fallback number dst sc) (\<lambda>(r, sc1).
       if r = None \<and> sc_errno sc1 \<noteq> number ''ENOENT'' \<and> sc_errno sc1 \<noteq> ENOPROTOOPT
       then pret (False, Error (''stat failed when trying to push to '' @ dst @ '': '' @ sys_strerror sys (sc_errno sc1)) sc1)
       else let dst_exists = (r \<noteq> None); dst_isdir = (case r of None \<Rightarrow> False | Some st \<Rightarrow> S_ISDIR (st_mode st))
            in pbind (if \<not> dst_isdir then Some (check_destination srcs dst dst_exists sc1) else pret (True, sc1)) (\<lambda>(ok, sc2).
               if \<not> ok then pret (False, sc2)
               else pbind (push_sources sys fresh C number srcs dst dst_exists dst_isdir sync compression dry_run True sc2) (\<lambda>(r2, sc3).
                 case r2 of
                   None \<Rightarrow> pret (False, sc3)
                 | Some success \<Rightarrow>
                     pbind (map_option Inr (ReadAcknowledgements sys True sc3)) (\<lambda>(acks, sc4). pret (success \<and> acks, sc4))))))"

definition do_sync_sync ::
  "'f sys \<Rightarrow> (nat \<Rightarrow> char) \<Rightarrow> 'l codecs \<Rightarrow> (string \<Rightarrow> nat) \<Rightarrow> string \<Rightarrow> string \<Rightarrow> bool \<Rightarrow> CompressionType \<Rightarrow> bool \<Rightarrow> 'f SyncConnection
     \<Rightarrow> (bool \<times> 'f SyncConnection) prog" where
  "do_sync_sync sys fresh C number lpath rpath list_only compression dry_run sc =
     with_connection (copy_local_dir_remote sys fresh C number lpath rpath True list_only compression dry_run sc)"

subsection \<open>Directories to pull\<close>

fun remote_scan ::
  "string \<Rightarrow> string \<Rightarrow> ls_entry list \<Rightarrow> copyinfo list \<Rightarrow> copyinfo list \<Rightarrow> copyinfo list \<Rightarrow> 'f SyncConnection
     \<Rightarrow> copyinfo list \<times> copyinfo list \<times> copyinfo list \<times> 'f SyncConnection" where
  "remote_scan lpath rpath [] dirlist linklist files sc = (dirlist, linklist, files, sc)"
| "remote_scan lpath rpath ((mode, sz, time, name) # es) dirlist linklist files sc =
     (if IsDotOrDotDot name then remote_scan lpath rpath es dirlist linklist files sc
      else let ci = new_copyinfo lpath rpath name mode
           in if S_ISDIR mode then remote_scan lpath rpath es (dirlist @ [ci]) linklist files sc
              else if S_ISLNK mode then remote_scan lpath rpath es dirlist (linklist @ [ci]) files sc
              else let pull = should_pull_file mode
                   in remote_scan lpath rpath es dirlist linklist
                        (files @ [ci\<lparr>ci_skip := \<not> pull, ci_time := time, ci_size := sz\<rparr>])
                        (if pull then sc else special_file (ci_rpath ci) mode sc))"

fun resolve_links ::
  "'f sys \<Rightarrow> (string \<Rightarrow> nat) \<Rightarrow> copyinfo list \<Rightarrow> copyinfo list \<Rightarrow> copyinfo list \<Rightarrow> 'f SyncConnection
     \<Rightarrow> (copyinfo list \<times> copyinfo list \<times> 'f SyncConnection) prog" where
  "resolve_links sys number [] dirlist files sc = pret (dirlist, files, sc)"
| "resolve_links sys number (ci # cis) dirlist files sc =
     pbind (sync_stat_fallback number (ci_rpath ci) sc) (\<lambda>(r, sc1).
       case r of
         None \<Rightarrow> resolve_links sys number cis dirlist files
                   (Warning (''stat failed for path '' @ ci_rpath ci @ '': '' @ sys_strerror sys (sc_errno sc1)) sc1)
       | Some st \<Rightarrow> if S_ISDIR (st_mode st) then resolve_links sys number cis (dirlist @ [ci]) files sc1
                    else resolve_links sys number cis dirlist (files @ [ci]) sc1)"

text \<open>The last directory that was found is visited first.\<close>

partial_function (option) remote_visit ::
  "'f sys \<Rightarrow> (string \<Rightarrow> nat) \<Rightarrow> (string \<times> string) list \<Rightarrow> copyinfo list \<Rightarrow> 'f SyncConnection \<Rightarrow> (bool \<times> copyinfo list \<times> 'f SyncConnection) prog" where
  "remote_visit sys number todo files sc =
     (case todo of
        [] \<Rightarrow> pret (True, files, sc)
      | (rpath, lpath) # todo' \<Rightarrow>
          pbind (sync_ls rpath sc) (\<lambda>(ok, entries, sc1).
            case remote_scan lpath rpath entries [] []
                   (files @ [new_copyinfo (sys_dirname sys lpath) (sys_dirname sys rpath) (sys_basename sys lpath) 0x4000]) sc1 of
              (dirlist, linklist, files1, sc2) \<Rightarrow>
                if \<not> ok then pret (False, files1, sc2)
                else pbind (resolve_links sys number linklist dirlist files1 sc2) (\<lambda>(dirlist1, files2, sc3).
                  remote_visit sys number (map (\<lambda>ci. (ci_rpath ci, ci_lpath ci)) (rev dirlist1) @ todo') files2 sc3)))"

definition remote_build_list ::
  "'f sys \<Rightarrow> (string \<Rightarrow> nat) \<Rightarrow> string \<Rightarrow> string \<Rightarrow> 'f SyncConnection \<Rightarrow> (bool \<times> copyinfo list \<times> 'f SyncConnection) prog" where
  "remote_build_list sys number rpath lpath sc = remote_visit sys number [(rpath, lpath)] [] sc"

definition set_time_and_mode :: "'f sys \<Rightarrow> string \<Rightarrow> 64 word \<Rightarrow> u32 \<Rightarrow> 'f SyncConnection \<Rightarrow> bool \<times> 'f SyncConnection" where
  "set_time_and_mode sys lpath time mode sc =
     (case y_try (sys_utime sys lpath time) (sc_y sc) of (ok1, y1) \<Rightarrow>
        case y_try (sys_chmod sys lpath (mode AND NOT (sys_umask sys))) y1 of (ok2, y2) \<Rightarrow> (ok1 \<and> ok2, sc\<lparr>sc_y := y2\<rparr>))"

definition make_local_dirs :: "'f sys \<Rightarrow> string \<Rightarrow> 'f SyncConnection \<Rightarrow> (bool \<times> 'f SyncConnection) option" where
  "make_local_dirs sys path sc =
     map_option (\<lambda>(ok, y). (ok, sc\<lparr>sc_y := y\<rparr>))
       (mkdirs (sys_dirname sys) (\<lambda>y p. case sys_stat sys p (y_fs y) of Inl _ \<Rightarrow> False | Inr st \<Rightarrow> S_ISDIR (st_mode st))
          (\<lambda>y p. y_try (sys_mkdir sys p 509) y) path (sc_y sc))"

fun pull_files ::
  "'f sys \<Rightarrow> 'l codecs \<Rightarrow> bool \<Rightarrow> CompressionType \<Rightarrow> copyinfo list \<Rightarrow> nat \<Rightarrow> 'f SyncConnection \<Rightarrow> (nat option \<times> 'f SyncConnection) prog" where
  "pull_files sys C copy_attrs compression [] skipped sc = pret (Some skipped, sc)"
| "pull_files sys C copy_attrs compression (ci # cis) skipped sc =
     (if ci_skip ci then pull_files sys C copy_attrs compression cis (Suc skipped) sc
      else if S_ISDIR (ci_mode ci)
      then pbind (map_option Inr (make_local_dirs sys (ci_lpath ci) sc)) (\<lambda>(ok, sc1).
             if \<not> ok then pret (None, Error (''failed to create directory '' @ quoted (ci_lpath ci) @ '': '' @ sys_strerror sys (sc_errno sc1)) sc1)
             else pull_files sys C copy_attrs compression cis skipped sc1)
      else pbind (sync_recv sys C (ci_rpath ci) (ci_lpath ci) compression sc) (\<lambda>(ok, sc1).
             if \<not> ok then pret (None, sc1)
             else case (if copy_attrs then set_time_and_mode sys (ci_lpath ci) (ci_time ci) (ci_mode ci) sc1 else (True, sc1)) of (ok2, sc2) \<Rightarrow>
               if \<not> ok2 then pret (None, sc2) else pull_files sys C copy_attrs compression cis skipped sc2))"

definition copy_remote_dir_local ::
  "'f sys \<Rightarrow> 'l codecs \<Rightarrow> (string \<Rightarrow> nat) \<Rightarrow> string \<Rightarrow> string \<Rightarrow> bool \<Rightarrow> CompressionType \<Rightarrow> 'f SyncConnection \<Rightarrow> (bool \<times> 'f SyncConnection) prog" where
  "copy_remote_dir_local sys C number rpath0 lpath0 copy_attrs compression sc0 =
     (let (lpath, rpath) = ensure_trailing_separators lpath0 rpath0
      in pbind (remote_build_list sys number rpath lpath (NewTransfer sc0)) (\<lambda>(ok, files, sc1).
         if \<not> ok then pret (False, sc1)
         else pbind (pull_files sys C copy_attrs compression files 0 sc1) (\<lambda>(r, sc2).
           case r of None \<Rightarrow> pret (False, sc2) | Some skipped \<Rightarrow> pret (True, RecordFilesSkipped skipped sc2))))"

subsection \<open>The commands that pull\<close>

fun pull_sources ::
  "'f sys \<Rightarrow> 'l codecs \<Rightarrow> (string \<Rightarrow> nat) \<Rightarrow> string list \<Rightarrow> string \<Rightarrow> bool \<Rightarrow> bool \<Rightarrow> bool \<Rightarrow> CompressionType \<Rightarrow> bool \<Rightarrow> 'f SyncConnection
     \<Rightarrow> (bool \<times> 'f SyncConnection) prog" where
  "pull_sources sys C number [] dst dst_exists dst_isdir copy_attrs compression success sc = pret (success, sc)"
| "pull_sources sys C number (src_path # srcs) dst dst_exists dst_isdir copy_attrs compression success sc =
     (let continue = (\<lambda>ok sc'. pull_sources sys C number srcs dst dst_exists dst_isdir copy_attrs compression (success \<and> ok) sc')
      in pbind (sync_stat_fallback number src_path sc) (\<lambda>(r, sc1).
         case r of
           None \<Rightarrow>
             continue False (Error (if sc_errno sc1 = ENOPROTOOPT then ''remote object '' @ quoted src_path @ '' does not exist''
               else ''failed to stat remote object '' @ quoted src_path @ '': '' @ sys_strerror sys (sc_errno sc1)) sc1)
         | Some st \<Rightarrow>
             if S_ISDIR (st_mode st)
             then if dst_exists \<and> \<not> dst_isdir then pret (False, Error (''target '' @ quoted dst @ '' is not a directory'') sc1)
                  else let dst_dir = (if dst_exists then with_separator dst @ sys_basename sys src_path else dst)
                       in pbind (copy_remote_dir_local sys C number src_path dst_dir copy_attrs compression sc1) (\<lambda>(ok, sc2). continue ok sc2)
             else if \<not> should_pull_file (st_mode st) then continue True (special_file src_path (st_mode st) sc1)
             else let dst_path = (if dst_isdir then dst @ ''/'' @ sys_basename sys src_path else dst)
                  in pbind (sync_recv sys C src_path dst_path compression (NewTransfer sc1)) (\<lambda>(ok, sc2).
                     if \<not> ok then continue False sc2
                     else case (if copy_attrs then set_time_and_mode sys dst_path (st_mtime st) (st_mode st) sc2 else (True, sc2)) of
                            (ok2, sc3) \<Rightarrow> continue ok2 sc3)))"

definition do_sync_pull ::
  "'f sys \<Rightarrow> 'l codecs \<Rightarrow> (string \<Rightarrow> nat) \<Rightarrow> string list \<Rightarrow> string \<Rightarrow> bool \<Rightarrow> CompressionType \<Rightarrow> 'f SyncConnection \<Rightarrow> (bool \<times> 'f SyncConnection) prog" where
  "do_sync_pull sys C number srcs dst copy_attrs compression sc =
     with_connection (
       let st = sys_stat sys dst (y_fs (sc_y sc));
           dst_exists = (case st of Inl _ \<Rightarrow> False | Inr _ \<Rightarrow> True);
           dst_isdir = (case st of Inl _ \<Rightarrow> False | Inr s \<Rightarrow> S_ISDIR (st_mode s));
           refused = (case st of
               Inr _ \<Rightarrow> None
             | Inl e \<Rightarrow>
                 if length srcs = 1 \<and> e = number ''ENOENT''
                 then (case sys_stat sys (sys_dirname sys dst) (y_fs (sc_y sc)) of
                         Inr _ \<Rightarrow> None
                       | Inl e2 \<Rightarrow> Some (''cannot create file/directory '' @ quoted dst @ '': '' @ sys_strerror sys e2))
                 else Some (''failed to access '' @ quoted dst @ '': '' @ sys_strerror sys e))
       in case refused of
            Some m \<Rightarrow> pret (False, Error m sc)
          | None \<Rightarrow>
              pbind (if \<not> dst_isdir then Some (check_destination srcs dst dst_exists sc) else pret (True, sc)) (\<lambda>(ok, sc1).
                if \<not> ok then pret (False, sc1)
                else pull_sources sys C number srcs dst dst_exists dst_isdir copy_attrs compression True sc1))"

definition ls_line :: "ls_entry \<Rightarrow> string" where
  "ls_line e = (case e of (mode, sz, time, name) \<Rightarrow> hex_pad 8 (unat mode) @ '' '' @ hex_pad 8 (unat sz) @ '' '' @ hex_pad 8 (unat time) @ '' '' @ name)"

definition do_sync_ls :: "string \<Rightarrow> 'f SyncConnection \<Rightarrow> (bool \<times> 'f SyncConnection) prog" where
  "do_sync_ls path sc =
     with_connection (pbind (sync_ls path sc) (\<lambda>(ok, entries, sc1). pret (ok, sc1\<lparr>sc_printed := sc_printed sc1 @ map ls_line entries\<rparr>)))"

end
