(* ===== verification/File_Sync_Transfer.thy ===== *)
theory File_Sync_Transfer
  imports File_Sync_Copy
begin

text \<open>
  The client and the service together: what the client sends for a file, what the service makes of it, and
  what the client makes of the answer.
\<close>

subsection \<open>Writing to the connection\<close>

definition sc_frame :: "'f SyncConnection \<Rightarrow> 'f SyncConnection \<Rightarrow> bool" where
  "sc_frame sc sc' \<longleftrightarrow> deferred_acknowledgements sc' = deferred_acknowledgements sc \<and> acknowledgement_buffer sc' = acknowledgement_buffer sc
     \<and> sc_polls sc' = sc_polls sc \<and> sc_printed sc' = sc_printed sc"

text \<open>The client has printed something.\<close>

definition complained :: "'f SyncConnection \<Rightarrow> 'f SyncConnection \<Rightarrow> bool" where
  "complained sc sc' \<longleftrightarrow> length (sc_printed sc) < length (sc_printed sc')"

lemma complained_Error [simp]: "complained sc (Error s sc)" "complained sc (path_too_long w n sc)" "complained sc (sc_unlink sys p (Error s sc))"
  by (simp_all add: complained_def Error_def path_too_long_def sc_set_errno_def sc_unlink_def)

lemmas complains = complained_def Error_def path_too_long_def sc_set_errno_def

lemma sc_frame_refl [simp]: "sc_frame sc sc" "sc_frame sc (sc\<lparr>sc_y := y\<rparr>)" "sc_frame sc (RecordBytesTransferred n sc)"
    "sc_frame sc (RecordBytesTransferred n (sc\<lparr>sc_y := y\<rparr>))"
  by (simp_all add: sc_frame_def RecordBytesTransferred_def)

lemma complained_frame: "sc_frame sc sc1 \<Longrightarrow> complained sc1 sc2 \<Longrightarrow> complained sc sc2"
  by (simp add: sc_frame_def complained_def)

lemma sc_frame_trans: "sc_frame sc sc1 \<Longrightarrow> sc_frame sc1 sc2 \<Longrightarrow> sc_frame sc sc2"
  by (simp add: sc_frame_def)

lemma RecordBytesTransferred_y [simp]: "sc_y (RecordBytesTransferred n sc) = sc_y sc" "sc_y (RecordFilesTransferred n sc) = sc_y sc"
    "sc_y (RecordFileSent l r sc) = sc_y sc" "sc_y (Error s sc) = sc_y sc"
  by (simp_all add: RecordBytesTransferred_def RecordFilesTransferred_def RecordFileSent_def Let_def Error_def)

text \<open>A step that writes \<open>bs\<close> and leaves the files and the bookkeeping.\<close>

definition wrote :: "bytes \<Rightarrow> nat \<Rightarrow> 'f SyncConnection \<Rightarrow> 'f SyncConnection \<Rightarrow> bool" where
  "wrote bs k sc sc' \<longleftrightarrow> answered (sc_y sc') = answered (sc_y sc) @ bs \<and> willing k (sc_y sc') \<and> same_but_output (sc_y sc) (sc_y sc') \<and> sc_frame sc sc'"

lemma wrote_trans: "wrote bs k sc sc1 \<Longrightarrow> wrote cs j sc1 sc2 \<Longrightarrow> wrote (bs @ cs) j sc sc2"
  unfolding wrote_def using same_but_output_trans sc_frame_trans by auto

lemma wrote_nil: "willing k (sc_y sc) \<Longrightarrow> wrote [] k sc sc"
  by (simp add: wrote_def same_but_output_def)

lemma wrote_bytes [simp]: "wrote bs k sc (RecordBytesTransferred n sc') = wrote bs k sc sc'"
  by (simp add: wrote_def sc_frame_def RecordBytesTransferred_def)

lemma sc_write_ok:
  assumes "willing (length bs + k) (sc_y sc)"
  shows "\<exists>sc'. sc_write bs sc = pret (True, sc') \<and> wrote bs k sc sc'"
proof -
  from y_write_ok [OF assms] obtain y where "y_write bs (sc_y sc) = pret (True, y)" "answered y = answered (sc_y sc) @ bs" "willing k y" "same_but_output (sc_y sc) y" by blast
  then show ?thesis by (auto simp: sc_write_def wrote_def)
qed

lemma WriteOrDie_ok:
  assumes "willing (length bs + k) (sc_y sc)"
  shows "\<exists>sc'. WriteOrDie sys l r bs sc = pret (True, sc') \<and> wrote bs k sc sc'"
  using sc_write_ok [OF assms] by (auto simp: WriteOrDie_def)

subsection \<open>Small files\<close>

definition deferred_one :: "string \<Rightarrow> string \<Rightarrow> 'f SyncConnection \<Rightarrow> 'f SyncConnection \<Rightarrow> bool" where
  "deferred_one l r sc sc' \<longleftrightarrow> deferred_acknowledgements sc' = deferred_acknowledgements sc @ [(l, r)] \<and> acknowledgement_buffer sc' = acknowledgement_buffer sc
     \<and> sc_polls sc' = sc_polls sc"

lemma SendSmallFile_ok:
  assumes "willing (length (push_v1 path mode @ data_msgs [data] @ sync_msg ID_DONE mtime)) (sc_y sc)" "CHR 0x00 \<notin> set path"
  shows "\<exists>ok sc'. SendSmallFile sys fresh C path mode l r mtime data False sc = pret (ok, sc') \<and>
    (ok \<longrightarrow> length (path @ '','' @ signed_decimal mode) \<le> 1024
       \<and> answered (sc_y sc') = answered (sc_y sc) @ push_v1 path mode @ data_msgs [data] @ sync_msg ID_DONE mtime \<and> deferred_one l r sc sc')
    \<and> (\<not> ok \<longrightarrow> complained sc sc')"
proof (cases "1024 < length (path @ '','' @ signed_decimal mode)")
  case True
  then show ?thesis using c_name_id [OF assms(2)] by (auto simp: SendSmallFile_def Let_def)
next
  case False
  let ?bs = "push_v1 path mode @ data_msgs [data] @ sync_msg ID_DONE mtime"
  have "willing (length ?bs + 0) (sc_y sc)" using assms(1) by simp
  from WriteOrDie_ok [OF this, of sys l r] obtain sc1 where 1: "WriteOrDie sys l r ?bs sc = pret (True, sc1)" "wrote ?bs 0 sc sc1" by blast
  have "SendSmallFile sys fresh C path mode l r mtime data False sc = pret (True, RecordBytesTransferred (length data) (RecordFileSent l r sc1))"
    using 1(1) False c_name_id [OF assms(2)] by (simp add: SendSmallFile_def Let_def push_v1_def)
  moreover have "deferred_one l r sc (RecordBytesTransferred (length data) (RecordFileSent l r sc1))"
    using 1(2) by (simp add: deferred_one_def wrote_def sc_frame_def RecordFileSent_def RecordFilesTransferred_def RecordBytesTransferred_def Let_def)
  moreover have "answered (sc_y sc1) = answered (sc_y sc) @ ?bs" using 1(2) by (simp add: wrote_def)
  ultimately show ?thesis using False by (intro exI [of _ True] exI [of _ "RecordBytesTransferred (length data) (RecordFileSent l r sc1)"]) simp
qed

subsection \<open>Large files\<close>

context encoding
begin

lemma large_drain_ok:
  assumes "fit e" "willing (9 * length (owed e) + k) (sc_y sc)"
  shows "\<exists>cs e' sc'. large_drain sys fresh C t l r e sc = pret ((Some (\<not> e_finished e), e'), sc') \<and> chunked cs \<and> concat cs = owed e
     \<and> wrote (data_msgs cs) k sc sc' \<and> fit e' \<and> owed e' = [] \<and> e_finished e' = e_finished e"
  using assms
proof (induction "length (owed e)" arbitrary: e sc rule: less_induct)
  case less
  from encode [OF less.prems(1)] obtain out e1 where
    e1: "Encode fresh C t e = pret (if owed e1 = [] then if e_finished e then ER_Done else ER_NeedInput else ER_MoreOutput, out, e1)"
      "fit e1" "e_finished e1 = e_finished e" "owed e = out @ owed e1" "owed e1 \<noteq> [] \<longrightarrow> out \<noteq> []" "length out \<le> SYNC_DATA_MAX" by blast
  let ?w = "if out = [] then pret (True, sc) else WriteOrDie sys l r (sync_msg ID_DATA (of_nat (length out)) @ out) sc"
  let ?cs = "if out = [] then [] else [out]"
  have "\<exists>sc1. ?w = pret (True, sc1) \<and> wrote (data_msgs ?cs) (9 * length (owed e1) + k) sc sc1"
  proof (cases "out = []")
    case True
    then show ?thesis using less.prems(2) e1(4) by (simp add: wrote_nil)
  next
    case False
    then have "length (sync_msg ID_DATA (of_nat (length out)) @ out) + (9 * length (owed e1) + k) \<le> 9 * length (owed e) + k" using e1(4) by (cases out) auto
    from WriteOrDie_ok [OF willing_mono [OF less.prems(2) this]] False show ?thesis by simp
  qed
  then obtain sc1 where sc1: "?w = pret (True, sc1)" "wrote (data_msgs ?cs) (9 * length (owed e1) + k) sc sc1" by blast
  show ?case
  proof (cases "owed e1 = []")
    case True
    then have "large_drain sys fresh C t l r e sc = pret ((Some (\<not> e_finished e), e1), sc1)" using e1(1) sc1(1) by (subst large_drain.simps) simp
    then show ?thesis using True e1 sc1 by (intro exI [of _ ?cs] exI [of _ e1] exI [of _ sc1]) simp
  next
    case False
    then have len: "length (owed e1) < length (owed e)" using e1(4,5) by simp
    have w1: "willing (9 * length (owed e1) + k) (sc_y sc1)" using sc1(2) by (simp add: wrote_def)
    have r: "large_drain sys fresh C t l r e sc = large_drain sys fresh C t l r e1 sc1" using False e1(1) sc1(1) by (subst large_drain.simps) simp
    from less.hyps [OF len e1(2) w1] obtain cs e2 sc2 where
      2: "large_drain sys fresh C t l r e1 sc1 = pret ((Some (\<not> e_finished e1), e2), sc2)" "chunked cs" "concat cs = owed e1"
        "wrote (data_msgs cs) k sc1 sc2" "fit e2" "owed e2 = []" "e_finished e2 = e_finished e1" by blast
    have "wrote (data_msgs (?cs @ cs)) k sc sc2" using wrote_trans [OF sc1(2) 2(4)] by simp
    then show ?thesis using r 2 e1 by (intro exI [of _ "?cs @ cs"] exI [of _ e2] exI [of _ sc2]) simp
  qed
qed

lemma large_send_ok:
  assumes fs: "fs_ok sys content handle"
  shows "fit e \<Longrightarrow> owed e = [] \<Longrightarrow> \<not> e_finished e \<Longrightarrow> handle h (y_fs (sc_y sc)) = Some (p, pos) \<Longrightarrow> content p (y_fs (sc_y sc)) = Some c
    \<Longrightarrow> willing (9 * (length c - pos) + k) (sc_y sc)
    \<Longrightarrow> \<exists>ok sc'. large_send sys fresh C t l r h e sc = pret (ok, sc') \<and>
      (ok \<longrightarrow> (\<exists>cs. chunked cs \<and> concat cs = drop pos c \<and> answered (sc_y sc') = answered (sc_y sc) @ data_msgs cs \<and> willing k (sc_y sc') \<and> sc_frame sc sc')) \<and> (\<not> ok \<longrightarrow> complained sc sc')"
proof (induction "length c - pos" arbitrary: e sc pos rule: less_induct)
  case less
  obtain rd f where r: "sys_read sys h SYNC_DATA_MAX (y_fs (sc_y sc)) = (rd, f)" by fastforce
  have ld: "content p f = Some c \<and> (case rd of Inl e \<Rightarrow> True | Inr bs \<Rightarrow> length bs \<le> SYNC_DATA_MAX \<and> bs = take (length bs) (drop pos c)
      \<and> (bs = [] \<longrightarrow> SYNC_DATA_MAX = 0 \<or> length c \<le> pos) \<and> handle h f = Some (p, pos + length bs))"
    using fs r less.prems(4,5) unfolding fs_ok_def fs_read_ok_def by blast
  let ?sc = "sc\<lparr>sc_y := (sc_y sc)\<lparr>y_fs := f\<rparr>\<rparr>"
  consider (err) err where "rd = Inl err" | (eof) "rd = Inr []" | (data) bs where "rd = Inr bs" "bs \<noteq> []" by (cases rd) auto
  then show ?case
  proof cases
    case err
    have "\<exists>sc'. large_send sys fresh C t l r h e sc = pret (False, sc') \<and> complained sc sc'" using err r
      by (subst large_send.simps) (simp add: complains)
    then show ?thesis by blast
  next
    case eof
    let ?e = "e\<lparr>e_finished := True\<rparr>"
    have e: "fit ?e" "owed ?e = []" using less.prems(1,2) finish by simp_all
    have "willing (9 * length (owed ?e) + k) (sc_y ?sc)" using willing_mono [OF less.prems(6), of k] e(2) by simp
    from large_drain_ok [OF e(1) this, of sys l r] obtain cs e' sc1 where
      1: "large_drain sys fresh C t l r ?e ?sc = pret ((Some False, e'), sc1)" "chunked cs" "concat cs = []" "wrote (data_msgs cs) k ?sc sc1"
      using e(2) by auto
    have "cs = []" using 1(2,3) by (cases cs) auto
    have d: "drop pos c = []" using ld eof by (simp add: SYNC_DATA_MAX_def)
    have "large_send sys fresh C t l r h e sc = pret (True, sc1)"
      using r eof less.prems(3) 1(1) by (subst large_send.simps) (simp add: Encoder_Finish_def)
    moreover have "answered (sc_y sc1) = answered (sc_y sc) @ data_msgs []" "willing k (sc_y sc1)" "sc_frame sc sc1"
      using 1(4) \<open>cs = []\<close> by (simp_all add: wrote_def sc_frame_def)
    moreover have "chunked [] \<and> concat [] = drop pos c" using d by simp
    ultimately have "large_send sys fresh C t l r h e sc = pret (True, sc1)" "\<exists>cs. chunked cs \<and> concat cs = drop pos c
        \<and> answered (sc_y sc1) = answered (sc_y sc) @ data_msgs cs \<and> willing k (sc_y sc1) \<and> sc_frame sc sc1" by blast+
    then show ?thesis by (intro exI [of _ True] exI [of _ sc1]) simp
  next
    case data
    let ?e = "Encoder_Append (block_of bs) e"
    let ?sc1 = "RecordBytesTransferred (length bs) ?sc"
    have e: "fit ?e" "owed ?e = bs" "\<not> e_finished ?e" using append [OF less.prems(1), of bs] less.prems(2,3) by (simp_all add: Encoder_Append_def)
    have b: "bs = take (length bs) (drop pos c)" "handle h f = Some (p, pos + length bs)" using ld data by simp_all
    then have lb: "length bs \<le> length c - pos" by (metis length_drop length_take min.cobounded1 min.commute)
    have "9 * length (owed ?e) + (9 * (length c - (pos + length bs)) + k) \<le> 9 * (length c - pos) + k" using e(2) lb by simp
    then have "willing (9 * length (owed ?e) + (9 * (length c - (pos + length bs)) + k)) (sc_y ?sc1)" using willing_mono [OF less.prems(6)] by simp
    from large_drain_ok [OF e(1) this, of sys l r] obtain cs e' sc2 where
      1: "large_drain sys fresh C t l r ?e ?sc1 = pret ((Some True, e'), sc2)" "chunked cs" "concat cs = bs"
        "wrote (data_msgs cs) (9 * (length c - (pos + length bs)) + k) ?sc1 sc2" "fit e'" "owed e' = []" "\<not> e_finished e'" using e(2,3) by auto
    have s: "large_send sys fresh C t l r h e sc = large_send sys fresh C t l r h e' sc2" using r data 1(1) by (subst large_send.simps) (simp add: Let_def)
    have k: "y_fs (sc_y sc2) = f" "willing (9 * (length c - (pos + length bs)) + k) (sc_y sc2)" "answered (sc_y sc2) = answered (sc_y sc) @ data_msgs cs" "sc_frame sc sc2"
      using 1(4) by (simp_all add: wrote_def same_but_output_def sc_frame_def RecordBytesTransferred_def)
    have "length c - (pos + length bs) < length c - pos" using data(2) lb by (cases bs) auto
    from less.hyps [OF this 1(5,6,7) _ _ k(2)] b(2) k(1) ld have "\<exists>ok sc3. large_send sys fresh C t l r h e' sc2 = pret (ok, sc3) \<and>
        (ok \<longrightarrow> (\<exists>cs. chunked cs \<and> concat cs = drop (pos + length bs) c \<and> answered (sc_y sc3) = answered (sc_y sc2) @ data_msgs cs \<and> willing k (sc_y sc3) \<and> sc_frame sc2 sc3))
        \<and> (\<not> ok \<longrightarrow> complained sc2 sc3)"
      by simp
    then obtain ok sc3 where
      2: "large_send sys fresh C t l r h e' sc2 = pret (ok, sc3)"
        "ok \<Longrightarrow> \<exists>cs. chunked cs \<and> concat cs = drop (pos + length bs) c \<and> answered (sc_y sc3) = answered (sc_y sc2) @ data_msgs cs \<and> willing k (sc_y sc3) \<and> sc_frame sc2 sc3"
        "\<not> ok \<Longrightarrow> complained sc2 sc3" by blast
    have dp: "drop pos c = concat cs @ drop (pos + length bs) c" using b(1) 1(3) by (metis append_take_drop_id drop_drop add.commute)
    have "\<exists>cs. chunked cs \<and> concat cs = drop pos c \<and> answered (sc_y sc3) = answered (sc_y sc) @ data_msgs cs \<and> willing k (sc_y sc3) \<and> sc_frame sc sc3" if ok
    proof -
      from 2(2) [OF that] obtain ds where "chunked ds" "concat ds = drop (pos + length bs) c" "answered (sc_y sc3) = answered (sc_y sc2) @ data_msgs ds" "willing k (sc_y sc3)" "sc_frame sc2 sc3" by blast
      then show ?thesis using 1(2) k(3,4) dp sc_frame_trans by (intro exI [of _ "cs @ ds"]) auto
    qed
    then show ?thesis using s 2(1,3) complained_frame [OF k(4)] by (intro exI [of _ ok] exI [of _ sc3]) simp
  qed
qed

end

lemma open_local_ok:
  assumes "fs_ok sys content handle" "open_local sys l sc = (r, sc')"
  shows "same_link (sc_y sc) (sc_y sc')" "if r = None then complained sc sc' else sc_frame sc sc'"
    "r = Some h \<Longrightarrow> \<exists>c. content l (y_fs (sc_y sc)) = Some c \<and> content l (y_fs (sc_y sc')) = Some c \<and> handle h (y_fs (sc_y sc')) = Some (l, 0)"
proof -
  have o: "fs_open_ok sys content handle" using assms(1) by (simp add: fs_ok_def)
  obtain r1 y1 where 1: "y_open sys Read_only l 0 (sc_y sc) = (r1, y1)" by fastforce
  have sl: "same_link (sc_y sc) y1" using y_open_cases(1) [OF o 1] .
  show "same_link (sc_y sc) (sc_y sc')" using assms(2) 1 sl by (auto simp: open_local_def sc_set_errno_def split: sum.splits option.splits)
  show "if r = None then complained sc sc' else sc_frame sc sc'"
    using assms(2) 1 by (auto simp: open_local_def complains split: sum.splits option.splits)
  show "\<exists>c. content l (y_fs (sc_y sc)) = Some c \<and> content l (y_fs (sc_y sc')) = Some c \<and> handle h (y_fs (sc_y sc')) = Some (l, 0)" if "r = Some h"
  proof -
    have r: "r1 = Some h" "sc' = sc\<lparr>sc_y := y1\<rparr>" using assms(2) 1 that by (auto simp: open_local_def split: sum.splits option.splits)
    then obtain f where f: "sys_open sys Read_only l 0 (y_fs (sc_y sc)) = (Inr h, f)" "y1 = (sc_y sc)\<lparr>y_fs := f\<rparr>"
      using 1 by (auto simp: y_open_def split: prod.splits sum.splits)
    from o [unfolded fs_open_ok_def, rule_format, OF f(1)] f(2) r show ?thesis by auto
  qed
qed

lemma legacy_send_ok:
  assumes fs: "fs_ok sys content handle"
  shows "handle h (y_fs (sc_y sc)) = Some (p, pos) \<Longrightarrow> content p (y_fs (sc_y sc)) = Some c \<Longrightarrow> willing (9 * (length c - pos) + k) (sc_y sc)
    \<Longrightarrow> \<exists>ok sc'. legacy_send sys l r h sc = pret (ok, sc') \<and>
      (ok \<longrightarrow> (\<exists>cs. chunked cs \<and> concat cs = drop pos c \<and> answered (sc_y sc') = answered (sc_y sc) @ data_msgs cs \<and> willing k (sc_y sc') \<and> sc_frame sc sc')) \<and> (\<not> ok \<longrightarrow> complained sc sc')"
proof (induction "length c - pos" arbitrary: sc pos rule: less_induct)
  case less
  obtain rd f where r: "sys_read sys h SYNC_DATA_MAX (y_fs (sc_y sc)) = (rd, f)" by fastforce
  have ld: "content p f = Some c \<and> (case rd of Inl e \<Rightarrow> True | Inr bs \<Rightarrow> length bs \<le> SYNC_DATA_MAX \<and> bs = take (length bs) (drop pos c)
      \<and> (bs = [] \<longrightarrow> SYNC_DATA_MAX = 0 \<or> length c \<le> pos) \<and> handle h f = Some (p, pos + length bs))"
    using fs r less.prems(1,2) unfolding fs_ok_def fs_read_ok_def by blast
  let ?sc = "sc\<lparr>sc_y := (sc_y sc)\<lparr>y_fs := f\<rparr>\<rparr>"
  consider (err) err where "rd = Inl err" | (eof) "rd = Inr []" | (data) bs where "rd = Inr bs" "bs \<noteq> []" by (cases rd) auto
  then show ?case
  proof cases
    case err
    have "\<exists>sc'. legacy_send sys l r h sc = pret (False, sc') \<and> complained sc sc'" using err r
      by (subst legacy_send.simps) (simp add: complains)
    then show ?thesis by blast
  next
    case eof
    have "legacy_send sys l r h sc = pret (True, ?sc)" using r eof by (subst legacy_send.simps) (simp add: Let_def)
    moreover have "chunked [] \<and> concat [] = drop pos c" "willing k (sc_y ?sc)" using ld eof willing_mono [OF less.prems(3), of k] by (simp_all add: SYNC_DATA_MAX_def)
    moreover have "answered (sc_y ?sc) = answered (sc_y sc) @ data_msgs []" "sc_frame sc ?sc" by simp_all
    ultimately have "legacy_send sys l r h sc = pret (True, ?sc)" "\<exists>cs. chunked cs \<and> concat cs = drop pos c
        \<and> answered (sc_y ?sc) = answered (sc_y sc) @ data_msgs cs \<and> willing k (sc_y ?sc) \<and> sc_frame sc ?sc" by blast+
    then show ?thesis by (intro exI [of _ True] exI [of _ ?sc]) simp
  next
    case data
    have b: "bs = take (length bs) (drop pos c)" "handle h f = Some (p, pos + length bs)" "length bs \<le> SYNC_DATA_MAX" using ld data by simp_all
    then have lb: "length bs \<le> length c - pos" by (metis length_drop length_take min.cobounded1 min.commute)
    let ?m = "sync_msg ID_DATA (of_nat (length bs)) @ bs"
    have "length ?m + (9 * (length c - (pos + length bs)) + k) \<le> 9 * (length c - pos) + k" using lb data(2) by (cases bs) auto
    then have "willing (length ?m + (9 * (length c - (pos + length bs)) + k)) (sc_y ?sc)" using willing_mono [OF less.prems(3)] by simp
    from WriteOrDie_ok [OF this, of sys l r] obtain sc1 where
      1: "WriteOrDie sys l r ?m ?sc = pret (True, sc1)" "wrote ?m (9 * (length c - (pos + length bs)) + k) ?sc sc1" by blast
    let ?sc2 = "RecordBytesTransferred (length bs) sc1"
    have s: "legacy_send sys l r h sc = legacy_send sys l r h ?sc2" using r data 1(1) by (subst legacy_send.simps) (simp add: Let_def)
    have k: "y_fs (sc_y ?sc2) = f" "willing (9 * (length c - (pos + length bs)) + k) (sc_y ?sc2)" "answered (sc_y ?sc2) = answered (sc_y sc) @ data_msgs [bs]" "sc_frame sc ?sc2"
      using 1(2) by (simp_all add: wrote_def same_but_output_def sc_frame_def RecordBytesTransferred_def)
    have "length c - (pos + length bs) < length c - pos" using data(2) lb by (cases bs) auto
    from less.hyps [OF this _ _ k(2)] b(2) k(1) ld have "\<exists>ok sc3. legacy_send sys l r h ?sc2 = pret (ok, sc3) \<and>
        (ok \<longrightarrow> (\<exists>cs. chunked cs \<and> concat cs = drop (pos + length bs) c \<and> answered (sc_y sc3) = answered (sc_y ?sc2) @ data_msgs cs \<and> willing k (sc_y sc3) \<and> sc_frame ?sc2 sc3))
        \<and> (\<not> ok \<longrightarrow> complained ?sc2 sc3)"
      by simp
    then obtain ok sc3 where
      2: "legacy_send sys l r h ?sc2 = pret (ok, sc3)"
        "ok \<Longrightarrow> \<exists>cs. chunked cs \<and> concat cs = drop (pos + length bs) c \<and> answered (sc_y sc3) = answered (sc_y ?sc2) @ data_msgs cs \<and> willing k (sc_y sc3) \<and> sc_frame ?sc2 sc3"
        "\<not> ok \<Longrightarrow> complained ?sc2 sc3" by blast
    have dp: "drop pos c = bs @ drop (pos + length bs) c" using b(1) by (metis append_take_drop_id drop_drop add.commute)
    have "\<exists>cs. chunked cs \<and> concat cs = drop pos c \<and> answered (sc_y sc3) = answered (sc_y sc) @ data_msgs cs \<and> willing k (sc_y sc3) \<and> sc_frame sc sc3" if ok
    proof -
      from 2(2) [OF that] obtain ds where "chunked ds" "concat ds = drop (pos + length bs) c" "answered (sc_y sc3) = answered (sc_y ?sc2) @ data_msgs ds" "willing k (sc_y sc3)" "sc_frame ?sc2 sc3" by blast
      then show ?thesis using data(2) b(3) k(3) dp sc_frame_trans [OF k(4)] by (intro exI [of _ "bs # ds"]) simp
    qed
    then show ?thesis using s 2(1,3) complained_frame [OF k(4)] by (intro exI [of _ ok] exI [of _ sc3]) simp
  qed
qed

text \<open>What a sender has written when it returns true: a request, the file, and the end of the file.\<close>

definition sent_file :: "bytes \<Rightarrow> string \<Rightarrow> u32 \<Rightarrow> u32 \<Rightarrow> bytes \<Rightarrow> bool" where
  "sent_file c r mode mtime bs \<longleftrightarrow>
     (\<exists>req cs. bs = req @ data_msgs cs @ sync_msg ID_DONE mtime \<and> concat cs = c \<and> (\<forall>d \<in> set cs. length d < 2 ^ 32)
        \<and> (req = push_v1 r mode \<and> length (r @ '','' @ signed_decimal mode) \<le> 1024 \<or> req = push_v2 r mode 0 \<and> length r \<le> 1024))"

lemma chunked_short: "chunked cs \<Longrightarrow> \<forall>d \<in> set cs. length d < 2 ^ 32"
  by (fastforce simp: chunked_def SYNC_DATA_MAX_def)

lemma send_done_ok:
  assumes "willing 8 (sc_y sc)"
  shows "\<exists>sc'. send_done sys l r mtime sc = pret (True, sc') \<and> answered (sc_y sc') = answered (sc_y sc) @ sync_msg ID_DONE mtime \<and> deferred_one l r sc sc'"
proof -
  have "willing (length (sync_msg ID_DONE mtime) + 0) (sc_y (RecordFileSent l r sc))" using assms by simp
  from WriteOrDie_ok [OF this, of sys l r] obtain sc1 where 1: "WriteOrDie sys l r (sync_msg ID_DONE mtime) (RecordFileSent l r sc) = pret (True, sc1)"
    "wrote (sync_msg ID_DONE mtime) 0 (RecordFileSent l r sc) sc1" by blast
  then have "deferred_one l r sc sc1" "answered (sc_y sc1) = answered (sc_y sc) @ sync_msg ID_DONE mtime"
    by (simp_all add: wrote_def deferred_one_def sc_frame_def RecordFileSent_def RecordFilesTransferred_def Let_def)
  with 1(1) show ?thesis by (simp add: send_done_def)
qed

lemma deferred_one_frame: "sc_frame sc sc1 \<Longrightarrow> deferred_one l r sc1 sc2 \<Longrightarrow> deferred_one l r sc sc2"
  by (simp add: sc_frame_def deferred_one_def)

lemma sc_close_simps [simp]: "answered (sc_y (sc_close sys h sc)) = answered (sc_y sc)" "deferred_one l r sc0 (sc_close sys h sc) = deferred_one l r sc0 sc"
  by (simp_all add: sc_close_def y_close_def deferred_one_def)

definition file_room :: "bytes option \<Rightarrow> nat" where
  "file_room c = 9 * (case c of None \<Rightarrow> 0 | Some bs \<Rightarrow> length bs) + 8"

text \<open>Opening the file, sending it, and the end of the file, for any way to send the data.\<close>

lemma send_opened:
  assumes fs: "fs_ok sys content handle" and req: "wrote req (file_room (content l (y_fs (sc_y sc)))) sc sc1"
    and sends: "\<And>h sc2 c. handle h (y_fs (sc_y sc2)) = Some (l, 0) \<Longrightarrow> content l (y_fs (sc_y sc2)) = Some c \<Longrightarrow> willing (9 * (length c - 0) + 8) (sc_y sc2)
      \<Longrightarrow> \<exists>ok sc'. send h sc2 = pret (ok, sc') \<and>
        (ok \<longrightarrow> (\<exists>cs. chunked cs \<and> concat cs = drop 0 c \<and> answered (sc_y sc') = answered (sc_y sc2) @ data_msgs cs \<and> willing 8 (sc_y sc') \<and> sc_frame sc2 sc')) \<and> (\<not> ok \<longrightarrow> complained sc2 sc')"
  shows "\<exists>ok sc'. (case open_local sys l sc1 of
        (None, sc2) \<Rightarrow> pret (False, sc2)
      | (Some h, sc2) \<Rightarrow> pbind (send h sc2) (\<lambda>(ok2, sc3).
          if \<not> ok2 then pret (False, sc_close sys h sc3)
          else pbind (send_done sys l r mtime sc3) (\<lambda>(ok3, sc4). pret (ok3, sc_close sys h sc4)))) = pret (ok, sc') \<and>
    (ok \<longrightarrow> (\<exists>cs. chunked cs \<and> content l (y_fs (sc_y sc)) = Some (concat cs)
        \<and> answered (sc_y sc') = answered (sc_y sc) @ req @ data_msgs cs @ sync_msg ID_DONE mtime \<and> deferred_one l r sc sc')) \<and> (\<not> ok \<longrightarrow> complained sc sc')"
proof -
  obtain hr sc2 where 2: "open_local sys l sc1 = (hr, sc2)" by fastforce
  note o = open_local_ok [OF fs 2]
  have f1: "y_fs (sc_y sc1) = y_fs (sc_y sc)" "answered (sc_y sc1) = answered (sc_y sc) @ req" "willing (file_room (content l (y_fs (sc_y sc)))) (sc_y sc1)" "sc_frame sc sc1"
    using req by (simp_all add: wrote_def same_but_output_def)
  show ?thesis
  proof (cases hr)
    case None
    then show ?thesis using 2 o(2) complained_frame [OF f1(4)] by auto
  next
    case (Some h)
    from o(3) [OF Some] obtain c where c: "content l (y_fs (sc_y sc)) = Some c" "content l (y_fs (sc_y sc2)) = Some c" "handle h (y_fs (sc_y sc2)) = Some (l, 0)"
      using f1(1) by auto
    have w2: "willing (9 * (length c - 0) + 8) (sc_y sc2)" "answered (sc_y sc2) = answered (sc_y sc) @ req" "sc_frame sc sc2"
      using f1 c(1) same_linkD [OF o(1)] o(2) Some sc_frame_trans by (auto simp: file_room_def)
    from sends [OF c(3,2) w2(1)] obtain ok sc3 where 3: "send h sc2 = pret (ok, sc3)"
      "ok \<Longrightarrow> \<exists>cs. chunked cs \<and> concat cs = drop 0 c \<and> answered (sc_y sc3) = answered (sc_y sc2) @ data_msgs cs \<and> willing 8 (sc_y sc3) \<and> sc_frame sc2 sc3"
      "\<not> ok \<Longrightarrow> complained sc2 sc3" by blast
    show ?thesis
    proof (cases ok)
      case False
      then show ?thesis using 2 3(1,3) Some complained_frame [OF w2(3)] by (intro exI [of _ False] exI [of _ "sc_close sys h sc3"]) (simp add: complained_def sc_close_def)
    next
      case True
      from 3(2) [OF True] obtain cs where cs: "chunked cs" "concat cs = c" "answered (sc_y sc3) = answered (sc_y sc2) @ data_msgs cs" "willing 8 (sc_y sc3)" "sc_frame sc2 sc3"
        by auto
      from send_done_ok [OF cs(4), of sys l r mtime] obtain sc4 where
        4: "send_done sys l r mtime sc3 = pret (True, sc4)" "answered (sc_y sc4) = answered (sc_y sc3) @ sync_msg ID_DONE mtime" "deferred_one l r sc3 sc4" by blast
      have "deferred_one l r sc sc4" using 4(3) w2(3) cs(5) deferred_one_frame sc_frame_trans by blast
      then show ?thesis using 2 3(1) Some True cs 4 c(1) w2(2) by (intro exI [of _ True] exI [of _ "sc_close sys h sc4"]) auto
    qed
  qed
qed

lemma SendLargeFileLegacy_ok:
  assumes fs: "fs_ok sys content handle" and w: "willing (length (push_v1 path mode) + file_room (content l (y_fs (sc_y sc)))) (sc_y sc)" and p: "CHR 0x00 \<notin> set path"
  shows "\<exists>ok sc'. SendLargeFileLegacy sys path mode l r mtime sc = pret (ok, sc') \<and>
    (ok \<longrightarrow> (\<exists>c bs. content l (y_fs (sc_y sc)) = Some c \<and> sent_file c path mode mtime bs \<and> answered (sc_y sc') = answered (sc_y sc) @ bs \<and> deferred_one l r sc sc'))
    \<and> (\<not> ok \<longrightarrow> complained sc sc')"
proof (cases "1024 < length (path @ '','' @ signed_decimal mode)")
  case True
  then show ?thesis using c_name_id [OF p] by (auto simp: SendLargeFileLegacy_def SendRequest_def Let_def complains)
next
  case False
  from sc_write_ok [OF w] obtain sc1 where 1: "sc_write (push_v1 path mode) sc = pret (True, sc1)" "wrote (push_v1 path mode) (file_room (content l (y_fs (sc_y sc)))) sc sc1" by blast
  have "SendRequest ID_SEND_V1 (path @ '','' @ signed_decimal mode) sc = pret (True, sc1)"
    using False 1(1) by (simp add: SendRequest_def push_v1_def Let_def)
  then have s: "SendLargeFileLegacy sys path mode l r mtime sc = (case open_local sys l sc1 of
        (None, sc2) \<Rightarrow> pret (False, sc2)
      | (Some h, sc2) \<Rightarrow> pbind (legacy_send sys l r h sc2) (\<lambda>(ok2, sc3).
          if \<not> ok2 then pret (False, sc_close sys h sc3)
          else pbind (send_done sys l r mtime sc3) (\<lambda>(ok3, sc4). pret (ok3, sc_close sys h sc4))))"
    using c_name_id [OF p] by (simp add: SendLargeFileLegacy_def Let_def)
  have "\<exists>ok sc'. SendLargeFileLegacy sys path mode l r mtime sc = pret (ok, sc') \<and> (ok \<longrightarrow> (\<exists>cs. chunked cs \<and> content l (y_fs (sc_y sc)) = Some (concat cs)
        \<and> answered (sc_y sc') = answered (sc_y sc) @ push_v1 path mode @ data_msgs cs @ sync_msg ID_DONE mtime \<and> deferred_one l r sc sc')) \<and> (\<not> ok \<longrightarrow> complained sc sc')"
    unfolding s by (rule send_opened [OF fs 1(2)]) (rule legacy_send_ok [OF fs])
  then obtain ok sc' where
    2: "SendLargeFileLegacy sys path mode l r mtime sc = pret (ok, sc')" "ok \<longrightarrow> (\<exists>cs. chunked cs \<and> content l (y_fs (sc_y sc)) = Some (concat cs)
        \<and> answered (sc_y sc') = answered (sc_y sc) @ push_v1 path mode @ data_msgs cs @ sync_msg ID_DONE mtime \<and> deferred_one l r sc sc')"
        "\<not> ok \<longrightarrow> complained sc sc'" by (elim exE conjE)
  have "\<exists>c bs. content l (y_fs (sc_y sc)) = Some c \<and> sent_file c path mode mtime bs \<and> answered (sc_y sc') = answered (sc_y sc) @ bs \<and> deferred_one l r sc sc'" if ok
    using mp [OF 2(2) that] False chunked_short unfolding sent_file_def not_less by metis
  then show ?thesis using 2(1,3) by (intro exI [of _ ok] exI [of _ sc']) simp
qed

lemma SendLargeFile_ok:
  assumes fs: "fs_ok sys content handle" and p: "CHR 0x00 \<notin> set path" and t: "ResolveCompressionType sc t = CT_None"
    and w: "willing (length (push_v1 path mode) + length (push_v2 path mode 0) + file_room (content l (y_fs (sc_y sc)))) (sc_y sc)"
  shows "\<exists>ok sc'. SendLargeFile sys fresh C path mode l r mtime t False sc = pret (ok, sc') \<and>
    (ok \<longrightarrow> (\<exists>c bs. content l (y_fs (sc_y sc)) = Some c \<and> sent_file c path mode mtime bs \<and> answered (sc_y sc') = answered (sc_y sc) @ bs \<and> deferred_one l r sc sc'))
    \<and> (\<not> ok \<longrightarrow> complained sc sc')"
proof (cases "have_sendrecv_v2 sc")
  case False
  then show ?thesis using SendLargeFileLegacy_ok [OF fs willing_mono [OF w] p] by (simp add: SendLargeFile_def)
next
  case v2: True
  show ?thesis
  proof (cases "1024 < length path")
    case True
    then show ?thesis using v2 t by (auto simp: SendLargeFile_def SendSend2_def Let_def complains)
  next
    case False
    have "willing (length (push_v2 path mode 0) + file_room (content l (y_fs (sc_y sc)))) (sc_y sc)" by (rule willing_mono [OF w]) simp
    from sc_write_ok [OF this] obtain sc1 where 1: "sc_write (push_v2 path mode 0) sc = pret (True, sc1)" "wrote (push_v2 path mode 0) (file_room (content l (y_fs (sc_y sc)))) sc sc1" by blast
    have "SendSend2 path mode CT_None False sc = pret (True, sc1)" using False 1(1) by (simp add: SendSend2_def compression_flag_def)
    let ?e = "new_encoder SYNC_DATA_MAX (BrotliEncoderCreate C)"
    have e: "null_e_fit ?e" "null_e_owed ?e = []" "\<not> e_finished ?e" by (simp_all add: null_e_fit_def null_e_owed_def new_encoder_def)
    have s: "SendLargeFile sys fresh C path mode l r mtime t False sc = (case open_local sys l sc1 of
        (None, sc2) \<Rightarrow> pret (False, sc2)
      | (Some h, sc2) \<Rightarrow> pbind (large_send sys fresh C CT_None l r h ?e sc2) (\<lambda>(ok2, sc3).
          if \<not> ok2 then pret (False, sc_close sys h sc3)
          else pbind (send_done sys l r mtime sc3) (\<lambda>(ok3, sc4). pret (ok3, sc_close sys h sc4))))"
      using v2 t \<open>SendSend2 path mode CT_None False sc = pret (True, sc1)\<close> by (simp add: SendLargeFile_def make_encoder_def cong: option.case_cong)
    have "\<exists>ok sc'. SendLargeFile sys fresh C path mode l r mtime t False sc = pret (ok, sc') \<and> (ok \<longrightarrow> (\<exists>cs. chunked cs \<and> content l (y_fs (sc_y sc)) = Some (concat cs)
        \<and> answered (sc_y sc') = answered (sc_y sc) @ push_v2 path mode 0 @ data_msgs cs @ sync_msg ID_DONE mtime \<and> deferred_one l r sc sc')) \<and> (\<not> ok \<longrightarrow> complained sc sc')"
      unfolding s by (rule send_opened [OF fs 1(2)]) (rule null_e.large_send_ok [OF fs e])
    then obtain ok sc' where
      2: "SendLargeFile sys fresh C path mode l r mtime t False sc = pret (ok, sc')" "ok \<longrightarrow> (\<exists>cs. chunked cs \<and> content l (y_fs (sc_y sc)) = Some (concat cs)
        \<and> answered (sc_y sc') = answered (sc_y sc) @ push_v2 path mode 0 @ data_msgs cs @ sync_msg ID_DONE mtime \<and> deferred_one l r sc sc')"
        "\<not> ok \<longrightarrow> complained sc sc'" by (elim exE conjE)
    have "\<exists>c bs. content l (y_fs (sc_y sc)) = Some c \<and> sent_file c path mode mtime bs \<and> answered (sc_y sc') = answered (sc_y sc) @ bs \<and> deferred_one l r sc sc'" if ok
      using mp [OF 2(2) that] False chunked_short unfolding sent_file_def not_less by metis
    then show ?thesis using 2(1,3) by (intro exI [of _ ok] exI [of _ sc']) simp
  qed
qed

subsection \<open>Acknowledgements\<close>

text \<open>The answer of the device can now be read.\<close>

definition sc_arrives :: "read_event list \<Rightarrow> 'f SyncConnection \<Rightarrow> 'f SyncConnection" where
  "sc_arrives evs sc = sc\<lparr>sc_y := (sc_y sc)\<lparr>y_sock := (y_sock (sc_y sc))\<lparr>fd_in := evs\<rparr>\<rparr>\<rparr>"

lemma acks_later:
  assumes "deferred_acknowledgements sc \<noteq> []" "length (deferred_acknowledgements sc) < 128" "acknowledgement_buffer sc = []" "sc_polls sc = False # ps"
  shows "ReadAcknowledgements sys False sc = Some (True, sc\<lparr>sc_polls := ps\<rparr>)"
proof -
  have "read_until_amount sys False 8 sc = Some (TryLater, sc\<lparr>sc_polls := ps\<rparr>)" using assms(3,4) by (subst read_until_amount.simps) (simp add: sc_poll_def)
  then show ?thesis using assms(1,2) by (subst ReadAcknowledgements.simps) simp
qed

lemma read_until_ok:
  assumes "delivers (fd_in (y_sock (sc_y sc))) (bs @ rest)" "amount = length (acknowledgement_buffer sc) + length bs"
  shows "\<exists>sc'. read_until_amount sys True amount sc = Some (Success, sc') \<and> acknowledgement_buffer sc' = acknowledgement_buffer sc @ bs
    \<and> delivers (fd_in (y_sock (sc_y sc'))) rest \<and> deferred_acknowledgements sc' = deferred_acknowledgements sc \<and> sc_printed sc' = sc_printed sc"
  using assms
proof (induction "length bs" arbitrary: bs sc rule: less_induct)
  case less
  show ?case
  proof (cases "bs = []")
    case True
    then show ?thesis using less.prems by (subst read_until_amount.simps) simp
  next
    case False
    let ?n = "amount - length (acknowledgement_buffer sc)"
    have n: "?n = length bs" "0 < ?n" using less.prems(2) False by simp_all
    from adb_read_delivers [OF less.prems(1) n(2)] False obtain c evs bs' where
      c: "adb_read ?n (y_sock (sc_y sc)) = (Some c, (y_sock (sc_y sc))\<lparr>fd_in := evs\<rparr>)" "c \<noteq> []" "length c \<le> ?n" "bs @ rest = c @ bs'" "delivers evs bs'" by auto
    have lc: "length c \<le> length bs" using c(3) n(1) by simp
    define ds where "ds = drop (length c) bs"
    have "take (length c) (bs @ rest) = take (length c) (c @ bs')" "drop (length c) (bs @ rest) = drop (length c) (c @ bs')" using c(4) by simp_all
    then have "take (length c) bs = c" "bs' = ds @ rest" using lc by (simp_all add: ds_def)
    then have ds: "bs = c @ ds" "bs' = ds @ rest" using append_take_drop_id [of "length c" bs] by (simp_all add: ds_def)
    let ?sc = "(sc_arrives evs sc)\<lparr>acknowledgement_buffer := acknowledgement_buffer sc @ c\<rparr>"
    have s: "read_until_amount sys True amount sc = read_until_amount sys True amount ?sc"
      using c(1,2) n(2) by (subst read_until_amount.simps) (simp add: Let_def sc_arrives_def)
    have "length ds < length bs" using ds(1) c(2) by simp
    from less.hyps [OF this, of ?sc] s c(5) ds less.prems(2) show ?thesis by (simp add: sc_arrives_def)
  qed
qed

lemma acks_okay:
  assumes "deferred_acknowledgements sc = [a]" "acknowledgement_buffer sc = []" "delivers (fd_in (y_sock (sc_y sc))) (sync_msg ID_OKAY 0)"
  shows "\<exists>sc'. ReadAcknowledgements sys True sc = Some (True, sc') \<and> deferred_acknowledgements sc' = []"
proof -
  from read_until_ok [of sc "sync_msg ID_OKAY 0" "[]" 8 sys] assms obtain sc1 where
    1: "read_until_amount sys True 8 sc = Some (Success, sc1)" "acknowledgement_buffer sc1 = sync_msg ID_OKAY 0" "deferred_acknowledgements sc1 = [a]" by auto
  let ?sc2 = "CopyDone (sc1\<lparr>acknowledgement_buffer := []\<rparr>)"
  have d: "deferred_acknowledgements ?sc2 = []" using 1(3) by (simp add: CopyDone_def)
  have "ReadAcknowledgements sys True sc = ReadAcknowledgements sys True ?sc2" using assms(1) 1 by (subst ReadAcknowledgements.simps) simp
  also have "\<dots> = Some (True, ?sc2)" using d by (subst ReadAcknowledgements.simps) simp
  finally show ?thesis using d by blast
qed

lemma acks_fail:
  assumes "deferred_acknowledgements sc = [(l, r)]" "acknowledgement_buffer sc = []" "length reason \<le> 1016"
    "delivers (fd_in (y_sock (sc_y sc))) (sync_msg ID_FAIL (of_nat (length reason)) @ reason)"
  shows "\<exists>sc'. ReadAcknowledgements sys True sc = Some (False, sc') \<and> deferred_acknowledgements sc' = [] \<and> complained sc sc'"
proof -
  have n: "unat (of_nat (length reason) :: u32) = length reason" using assms(3) by (simp add: unat_of_nat)
  let ?m = "sync_msg ID_FAIL (of_nat (length reason))"
  from read_until_ok [of sc ?m reason 8 sys] assms obtain sc1 where
    1: "read_until_amount sys True 8 sc = Some (Success, sc1)" "acknowledgement_buffer sc1 = ?m" "deferred_acknowledgements sc1 = [(l, r)]"
      "delivers (fd_in (y_sock (sc_y sc1))) reason" "sc_printed sc1 = sc_printed sc" by auto
  from read_until_ok [of sc1 reason "[]" "8 + length reason" sys] 1 obtain sc2 where
    2: "read_until_amount sys True (8 + length reason) sc1 = Some (Success, sc2)" "acknowledgement_buffer sc2 = ?m @ reason" "deferred_acknowledgements sc2 = [(l, r)]"
      "sc_printed sc2 = sc_printed sc" by auto
  have ids: "ID_FAIL \<noteq> ID_OKAY" by (simp add: sync_ids)
  have "ReadAcknowledgements sys True sc = Some (False, (ReportDeferredCopyFailure reason sc2)\<lparr>acknowledgement_buffer := []\<rparr>)"
    using assms(1,3) 1 2 n ids by (subst ReadAcknowledgements.simps) (simp add: SYNC_DATA_MAX_def)
  moreover have "deferred_acknowledgements ((ReportDeferredCopyFailure reason sc2)\<lparr>acknowledgement_buffer := []\<rparr>) = []"
      "complained sc ((ReportDeferredCopyFailure reason sc2)\<lparr>acknowledgement_buffer := []\<rparr>)" using 2(3,4) by (simp_all add: ReportDeferredCopyFailure_def complains)
  ultimately show ?thesis by blast
qed

subsection \<open>A push from end to end\<close>

definition push_room :: "string \<Rightarrow> u32 \<Rightarrow> bytes option \<Rightarrow> nat" where
  "push_room path mode c = length (push_v1 path mode) + length (push_v2 path mode 0) + file_room c + 8"

text \<open>The answer to a push that the device has written, read by the client that waits for it.\<close>

lemma push_answer_read:
  assumes "pushed content p bs rest y ok y'" "deferred_acknowledgements sc = [(l, r)]" "acknowledgement_buffer sc = []"
    "delivers evs (drop (length (answered y)) (answered y'))"
  shows "\<exists>sc'. ReadAcknowledgements sys True (sc_arrives evs sc) = Some (ok, sc') \<and> deferred_acknowledgements sc' = [] \<and> (\<not> ok \<longrightarrow> complained sc sc')"
proof (cases ok)
  case True
  then show ?thesis using assms acks_okay [of "sc_arrives evs sc" "(l, r)" sys] by (simp add: pushed_def sc_arrives_def)
next
  case False
  then obtain reason where "length reason \<le> 1016" "answered y' = answered y @ sync_msg ID_FAIL (of_nat (length reason)) @ reason"
    using assms(1) by (auto simp: pushed_def said_fail_def)
  then show ?thesis using False assms acks_fail [of "sc_arrives evs sc" l r reason sys] by (simp add: sc_arrives_def complained_def)
qed

lemma sent_file_pushed:
  assumes "fs_ok sys content handle" "willing 1024 y" "\<not> S_ISLNK mode" "mode < 2 ^ 31" "CHR 0x00 \<notin> set r"
    "sent_file c r mode mtime bs" "pending y (bs @ rest)"
  shows "\<exists>ok y'. handle_sync_command sys fresh C y = pret (ok, y') \<and> pushed content r c rest y ok y'"
proof -
  from assms(6) obtain req cs where s: "bs = req @ data_msgs cs @ sync_msg ID_DONE mtime" "concat cs = c" "\<forall>d \<in> set cs. length d < 2 ^ 32"
    "req = push_v1 r mode \<and> length (r @ '','' @ signed_decimal mode) \<le> 1024 \<or> req = push_v2 r mode 0 \<and> length r \<le> 1024" by (auto simp: sent_file_def)
  then show ?thesis
    using push_v1_ok [OF assms(1-5) _ _ s(3), of mtime rest fresh C] push_v2_ok [OF assms(1-3,5) _ _ s(3), of mtime rest fresh C] assms(7) by auto
qed

text \<open>A sender has written a file and waits for its acknowledgement.\<close>

definition waits_for :: "(string \<Rightarrow> 'f \<Rightarrow> bytes option) \<Rightarrow> string \<Rightarrow> string \<Rightarrow> u32 \<Rightarrow> u32 \<Rightarrow> 'f SyncConnection \<Rightarrow> 'f SyncConnection \<Rightarrow> bool" where
  "waits_for content l r mode mtime sc sc' \<longleftrightarrow>
     (\<exists>c bs. content l (y_fs (sc_y sc)) = Some c \<and> sent_file c r mode mtime bs \<and> answered (sc_y sc') = answered (sc_y sc) @ bs
       \<and> deferred_acknowledgements sc' = [(l, r)] \<and> acknowledgement_buffer sc' = [])"

definition idle :: "'f SyncConnection \<Rightarrow> bool" where
  "idle sc \<longleftrightarrow> deferred_acknowledgements sc = [] \<and> acknowledgement_buffer sc = [] \<and> (\<exists>ps. sc_polls sc = False # ps)"

lemma finish_acks_later:
  assumes "idle sc" "ok1 \<Longrightarrow> \<exists>c bs. content l (y_fs (sc_y sc)) = Some c \<and> sent_file c r mode mtime bs \<and> answered (sc_y sc1) = answered (sc_y sc) @ bs \<and> deferred_one l r sc sc1"
    "\<not> ok1 \<longrightarrow> complained sc sc1"
  shows "\<exists>ok sc'. finish_acks sys False (ok1, sc1) = pret (ok, sc') \<and> (if ok then waits_for content l r mode mtime sc sc' else complained sc sc')"
proof (cases ok1)
  case False
  then show ?thesis using assms(3) by (auto simp: finish_acks_def)
next
  case True
  from assms(2) [OF True] obtain c bs where c: "content l (y_fs (sc_y sc)) = Some c" "sent_file c r mode mtime bs" "answered (sc_y sc1) = answered (sc_y sc) @ bs"
    "deferred_one l r sc sc1" by blast
  from assms(1) obtain ps where "sc_polls sc = False # ps" by (auto simp: idle_def)
  then have "ReadAcknowledgements sys False sc1 = Some (True, sc1\<lparr>sc_polls := ps\<rparr>)" using c(4) assms(1) by (intro acks_later) (simp_all add: deferred_one_def idle_def)
  moreover have "waits_for content l r mode mtime sc (sc1\<lparr>sc_polls := ps\<rparr>)"
    unfolding waits_for_def using c assms(1) by (intro exI [of _ c] exI [of _ bs]) (simp add: deferred_one_def idle_def)
  ultimately show ?thesis using True by (auto simp: finish_acks_def pret_def)
qed

lemma send_small:
  assumes fs: "fs_ok sys content handle" and p: "CHR 0x00 \<notin> set r" and i: "idle sc"
    and w: "willing (push_room r mode (content l (y_fs (sc_y sc)))) (sc_y sc)" and data: "sys_slurp sys l (y_fs (sc_y sc)) = Inr data" "length data < 2 ^ 32"
  shows "\<exists>ok sc'. pbind (SendSmallFile sys fresh C r mode l r mtime data False sc) (finish_acks sys False) = pret (ok, sc')
    \<and> (if ok then waits_for content l r mode mtime sc sc' else complained sc sc')"
proof -
  let ?bs = "push_v1 r mode @ data_msgs [data] @ sync_msg ID_DONE mtime"
  have c: "content l (y_fs (sc_y sc)) = Some data" using fs data(1) by (auto simp: fs_ok_def fs_meta_ok_def)
  have "willing (length ?bs) (sc_y sc)" using c by (intro willing_mono [OF w]) (simp add: push_room_def file_room_def)
  from SendSmallFile_ok [OF this p, of sys fresh C l r] obtain ok1 sc1 where
    1: "SendSmallFile sys fresh C r mode l r mtime data False sc = pret (ok1, sc1)" "ok1 \<Longrightarrow> length (r @ '','' @ signed_decimal mode) \<le> 1024
      \<and> answered (sc_y sc1) = answered (sc_y sc) @ ?bs \<and> deferred_one l r sc sc1" "\<not> ok1 \<longrightarrow> complained sc sc1" by blast
  have "sent_file data r mode mtime ?bs" if ok1
    unfolding sent_file_def using 1(2) [OF that] data(2) by (intro exI [of _ "push_v1 r mode"] exI [of _ "[data]"]) simp
  then have "\<exists>c bs. content l (y_fs (sc_y sc)) = Some c \<and> sent_file c r mode mtime bs \<and> answered (sc_y sc1) = answered (sc_y sc) @ bs \<and> deferred_one l r sc sc1" if ok1
    using 1(2) c that by blast
  from finish_acks_later [where content = content and l = l, OF i this 1(3)] 1(1) show ?thesis by simp
qed

lemma send_large:
  assumes fs: "fs_ok sys content handle" and p: "CHR 0x00 \<notin> set r" and i: "idle sc" and t: "ResolveCompressionType sc t = CT_None"
    and w: "willing (push_room r mode (content l (y_fs (sc_y sc)))) (sc_y sc)"
  shows "\<exists>ok sc'. pbind (SendLargeFile sys fresh C r mode l r mtime t False sc) (finish_acks sys False) = pret (ok, sc')
    \<and> (if ok then waits_for content l r mode mtime sc sc' else complained sc sc')"
proof -
  have "willing (length (push_v1 r mode) + length (push_v2 r mode 0) + file_room (content l (y_fs (sc_y sc)))) (sc_y sc)"
    by (intro willing_mono [OF w]) (simp add: push_room_def)
  from SendLargeFile_ok [OF fs p t this, of fresh C r mtime] obtain ok1 sc1 where
    1: "SendLargeFile sys fresh C r mode l r mtime t False sc = pret (ok1, sc1)" "ok1 \<Longrightarrow> \<exists>c bs. content l (y_fs (sc_y sc)) = Some c \<and> sent_file c r mode mtime bs
      \<and> answered (sc_y sc1) = answered (sc_y sc) @ bs \<and> deferred_one l r sc sc1" "\<not> ok1 \<longrightarrow> complained sc sc1" by blast
  from finish_acks_later [where content = content and l = l, OF i 1(2,3)] 1(1) show ?thesis by simp
qed

lemma sync_send_ok:
  assumes fs: "fs_ok sys content handle" and p: "CHR 0x00 \<notin> set r" and i: "idle sc" and t: "ResolveCompressionType sc t = CT_None"
    and w: "willing (push_room r mode (content l (y_fs (sc_y sc)))) (sc_y sc)" and mode: "\<not> S_ISLNK mode"
    and sz: "\<And>st c. sys_stat sys l (y_fs (sc_y sc)) = Inr st \<Longrightarrow> content l (y_fs (sc_y sc)) = Some c \<Longrightarrow> sint (st_size st) = int (length c)"
  shows "\<exists>ok sc'. sync_send sys fresh C number l r mtime mode False t False sc = pret (ok, sc')
    \<and> (if ok then waits_for content l r mode mtime sc sc' else complained sc sc')"
proof (cases "sys_stat sys l (y_fs (sc_y sc))")
  case (Inl e)
  then show ?thesis using mode by (auto simp: sync_send_def send_now_def complains)
next
  case st: (Inr st)
  show ?thesis
  proof (cases "sint (st_size st) < int SYNC_DATA_MAX")
    case False
    then show ?thesis using st mode send_large [OF fs p i t w] by (simp add: sync_send_def send_now_def split del: if_split)
  next
    case small: True
    show ?thesis
    proof (cases "sys_slurp sys l (y_fs (sc_y sc))")
      case (Inl e)
      then show ?thesis using mode small st by (auto simp: sync_send_def send_now_def complains)
    next
      case (Inr data)
      have "content l (y_fs (sc_y sc)) = Some data" using fs Inr by (auto simp: fs_ok_def fs_meta_ok_def)
      then have "length data < 2 ^ 32" using sz [OF st] small by (simp add: SYNC_DATA_MAX_def)
      with send_small [OF fs p i w Inr] show ?thesis using mode small st Inr by (simp add: sync_send_def send_now_def split del: if_split)
    qed
  qed
qed

subsection \<open>A pull from end to end\<close>

lemma sc_read_ok:
  assumes "pending (sc_y sc) (bs @ rest)"
  shows "\<exists>evs. sc_read (length bs) sc = (True, bs, sc_arrives evs sc) \<and> delivers evs rest"
  using y_read_ok [OF assms] by (auto simp: sc_read_def sc_arrives_def)

lemma sc_arrives_simps [simp]: "answered (sc_y (sc_arrives evs sc)) = answered (sc_y sc)" "y_fs (sc_y (sc_arrives evs sc)) = y_fs (sc_y sc)" "pending (sc_y (sc_arrives evs sc)) bs \<longleftrightarrow> delivers evs bs"
    "sc_printed (sc_arrives evs sc) = sc_printed sc"
  by (simp_all add: sc_arrives_def)

text \<open>The client reads the first message of an answer.\<close>

lemma sc_read_head:
  assumes "pending (sc_y sc) (sync_msg i n @ rest)"
  shows "\<exists>sc1. sc_read 8 sc = (True, sync_msg i n, sc1) \<and> pending (sc_y sc1) rest \<and> y_fs (sc_y sc1) = y_fs (sc_y sc) \<and> answered (sc_y sc1) = answered (sc_y sc)
    \<and> sc_printed sc1 = sc_printed sc"
  using sc_read_ok [OF assms] by auto

lemma sc_read_body:
  assumes "pending (sc_y sc) (bs @ rest)"
  shows "\<exists>sc1. sc_read (length bs) sc = (True, bs, sc1) \<and> pending (sc_y sc1) rest \<and> y_fs (sc_y sc1) = y_fs (sc_y sc) \<and> answered (sc_y sc1) = answered (sc_y sc)
    \<and> sc_printed sc1 = sc_printed sc"
  using sc_read_ok [OF assms] by auto

lemma write_local_ok:
  assumes "fs_ok sys content handle" "writing content handle h p old done (y_fs (sc_y sc))"
  shows "\<exists>ok sc'. write_local sys p h bs sc = pret (ok, sc') \<and>
    (if ok then writing content handle h p old (done @ bs) (y_fs (sc_y sc')) \<and> (\<forall>rest. pending (sc_y sc') rest = pending (sc_y sc) rest) \<and> answered (sc_y sc') = answered (sc_y sc)
       \<and> sc_printed sc' = sc_printed sc else complained sc sc')"
proof -
  have "fs_write_ok sys content handle" using assms(1) by (simp add: fs_ok_def)
  from write_file_ok [OF this assms(2), of bs] obtain ok y where
    "write_file sys h bs (sc_y sc) = pret (ok, y)" "ok \<Longrightarrow> writing content handle h p old (done @ bs) (y_fs y)" "\<And>rest. pending y rest = pending (sc_y sc) rest" "answered y = answered (sc_y sc)" by blast
  then show ?thesis by (cases ok) (auto simp: write_local_def Let_def complains sc_unlink_def)
qed

lemma ReportCopyFailure_ok:
  assumes "pending (sc_y sc) (reason @ rest)" "length reason \<le> 1016"
  shows "\<exists>sc'. ReportCopyFailure sys r l (sync_msg ID_FAIL (of_nat (length reason))) sc = pret sc' \<and> complained sc sc'"
proof -
  have n: "unat (of_nat (length reason) :: u32) = length reason" using assms(2) by (simp add: unat_of_nat)
  have "(of_nat (length reason) :: u32) + 1 \<noteq> 0"
  proof
    assume "(of_nat (length reason) :: u32) + 1 = 0"
    then have "(of_nat (Suc (length reason)) :: u32) = 0" by (simp add: add.commute)
    then have "unat (of_nat (Suc (length reason)) :: u32) = 0" by (simp only: unsigned_0)
    then show False using assms(2) unfolding unat_of_nat by simp
  qed
  then show ?thesis using sc_read_body [OF assms(1)] n by (auto simp: ReportCopyFailure_def complains)
qed

lemma sc_unlink_pending [simp]: "pending (sc_y (sc_unlink sys p sc)) bs = pending (sc_y sc) bs"
  using same_linkD(1) [OF y_try_link [OF surjective_pairing]] by (simp add: sc_unlink_def)

text \<open>
  The rest of an answer: the messages with data, and then DONE or FAIL. The client has the whole file when it
  returns true, and returns true only after DONE.
\<close>

definition answer_end :: "bool \<Rightarrow> bytes \<Rightarrow> bool" where
  "answer_end ok out \<longleftrightarrow> (if ok then out = sync_msg ID_DONE 0 else (\<exists>reason. length reason \<le> 1016 \<and> out = sync_msg ID_FAIL (of_nat (length reason)) @ reason))"

lemma answer_fail_read:
  assumes "answer_end False out" "pending (sc_y sc) (out @ rest)"
  shows "\<exists>hdr sc1 sc2. sc_read 8 sc = (True, hdr, sc1) \<and> msg_id hdr = ID_FAIL \<and> ReportCopyFailure sys r l hdr (sc_unlink sys l sc1) = pret sc2 \<and> complained sc sc2"
proof -
  from assms obtain reason where n: "length reason \<le> 1016" "pending (sc_y sc) (sync_msg ID_FAIL (of_nat (length reason)) @ reason @ rest)" by (auto simp: answer_end_def)
  from sc_read_head [OF n(2)] obtain sc1 where 1: "sc_read 8 sc = (True, sync_msg ID_FAIL (of_nat (length reason)), sc1)" "pending (sc_y sc1) (reason @ rest)"
    "sc_printed sc1 = sc_printed sc" by blast
  have "pending (sc_y (sc_unlink sys l sc1)) (reason @ rest)" using 1(2) by simp
  from ReportCopyFailure_ok [OF this n(1), of sys r l] 1(1,3) show ?thesis by (auto simp: complained_def sc_unlink_def)
qed

lemma recv_v1_loop_ok:
  assumes fs: "fs_ok sys content handle" and tail: "answer_end ok out"
  shows "chunked cs \<Longrightarrow> writing content handle h l [] done (y_fs (sc_y sc)) \<Longrightarrow> pending (sc_y sc) (data_msgs cs @ out @ rest)
    \<Longrightarrow> \<exists>okc sc'. recv_v1_loop sys r l h sc = pret (okc, sc') \<and> 
      (if okc then ok \<and> writing content handle h l [] (done @ concat cs) (y_fs (sc_y sc')) \<and> pending (sc_y sc') rest \<and> answered (sc_y sc') = answered (sc_y sc)
       else complained sc sc')"
proof (induction cs arbitrary: "done" sc)
  case Nil
  show ?case
  proof (cases ok)
    case True
    with Nil(3) tail have "pending (sc_y sc) (sync_msg ID_DONE 0 @ rest)" by (simp add: answer_end_def)
    from sc_read_head [OF this] obtain sc1 where "sc_read 8 sc = (True, sync_msg ID_DONE 0, sc1)" "pending (sc_y sc1) rest" "y_fs (sc_y sc1) = y_fs (sc_y sc)" "answered (sc_y sc1) = answered (sc_y sc)"
    "sc_printed sc1 = sc_printed sc" by blast
    then show ?thesis using True Nil(2) by (subst recv_v1_loop.simps) auto
  next
    case False
    with Nil(3) tail obtain hdr sc1 sc2 where "sc_read 8 sc = (True, hdr, sc1)" "msg_id hdr = ID_FAIL" "ReportCopyFailure sys r l hdr (sc_unlink sys l sc1) = pret sc2"
      "complained sc sc2" using answer_fail_read [of out sc rest sys r l] by auto
    then have "recv_v1_loop sys r l h sc = pret (False, sc2) \<and> complained sc sc2" by (subst recv_v1_loop.simps) (simp add: sync_ids)
    then show ?thesis by auto
  qed
next
  case (Cons c cs)
  have c: "length c \<le> SYNC_DATA_MAX" using Cons.prems(1) by simp
  then have n: "unat (of_nat (length c) :: u32) = length c" by (simp add: unat_of_nat SYNC_DATA_MAX_def)
  have "pending (sc_y sc) (sync_msg ID_DATA (of_nat (length c)) @ c @ data_msgs cs @ out @ rest)" using Cons.prems(3) by simp
  from sc_read_head [OF this] obtain sc1 where 1: "sc_read 8 sc = (True, sync_msg ID_DATA (of_nat (length c)), sc1)"
    "pending (sc_y sc1) (c @ data_msgs cs @ out @ rest)" "y_fs (sc_y sc1) = y_fs (sc_y sc)" "answered (sc_y sc1) = answered (sc_y sc)"
    "sc_printed sc1 = sc_printed sc" by blast
  from sc_read_body [OF 1(2)] obtain sc2 where 2: "sc_read (length c) sc1 = (True, c, sc2)" "pending (sc_y sc2) (data_msgs cs @ out @ rest)" "y_fs (sc_y sc2) = y_fs (sc_y sc1)" "answered (sc_y sc2) = answered (sc_y sc1)"
    "sc_printed sc2 = sc_printed sc1" by blast
  have "writing content handle h l [] done (y_fs (sc_y sc2))" using Cons.prems(2) 1(3) 2(3) by simp
  from write_local_ok [OF fs this, of c] obtain ok2 sc3 where 3: "write_local sys l h c sc2 = pret (ok2, sc3)"
    "if ok2 then writing content handle h l [] (done @ c) (y_fs (sc_y sc3)) \<and> (\<forall>rest. pending (sc_y sc3) rest = pending (sc_y sc2) rest) \<and> answered (sc_y sc3) = answered (sc_y sc2)
       \<and> sc_printed sc3 = sc_printed sc2 else complained sc2 sc3" by blast
  have ids: "ID_DATA \<noteq> ID_DONE" by (simp add: sync_ids)
  show ?case
  proof (cases ok2)
    case False
    then have "recv_v1_loop sys r l h sc = pret (False, sc3)" using 1(1) 2(1) 3(1) n c ids by (subst recv_v1_loop.simps) simp
    then show ?thesis using False 3(2) 1(5) 2(5) by (auto simp: complained_def)
  next
    case True
    let ?sc = "RecordBytesTransferred (length c) sc3"
    have s: "recv_v1_loop sys r l h sc = recv_v1_loop sys r l h ?sc" using True 1(1) 2(1) 3(1) n c ids by (subst recv_v1_loop.simps) simp
    have "chunked cs" "writing content handle h l [] (done @ c) (y_fs (sc_y ?sc))" "pending (sc_y ?sc) (data_msgs cs @ out @ rest)"
      using Cons.prems(1) 3(2) True 2(2) by simp_all
    moreover have "answered (sc_y sc3) = answered (sc_y sc)" "sc_printed ?sc = sc_printed sc" using 3(2) True 2(4,5) 1(4,5) by (simp_all add: RecordBytesTransferred_def)
    ultimately show ?thesis using Cons.IH [of "done @ c" ?sc] s by (simp add: complained_def cong: if_cong split del: if_split)
  qed
qed

context decoding
begin

lemma local_drain_ok:
  assumes fs: "fs_ok sys content handle"
  shows "fit d \<Longrightarrow> writing content handle h l old done (y_fs (sc_y sc)) \<Longrightarrow>
    \<exists>r d' sc'. local_drain sys C t l h d sc = pret ((r, d'), sc') \<and>
      (if r = Drained False then complained sc sc' else r = (if d_finished d then Drained True else Need_message) \<and> fit d' \<and> owed d' = [] \<and> d_finished d' = d_finished d
        \<and> writing content handle h l old (done @ owed d) (y_fs (sc_y sc')) \<and> (\<forall>rest. pending (sc_y sc') rest = pending (sc_y sc) rest) \<and> answered (sc_y sc') = answered (sc_y sc)
        \<and> sc_printed sc' = sc_printed sc)"
proof (induction "length (owed d)" arbitrary: d "done" sc rule: less_induct)
  case less
  from decode [OF less.prems(1)] obtain out d1 where
    d1: "Decode C t d = pret (if owed d1 = [] then if d_finished d then DR_Done else DR_NeedInput else DR_MoreOutput, out, d1)"
      "fit d1" "d_finished d1 = d_finished d" "owed d = out @ owed d1" "owed d1 \<noteq> [] \<longrightarrow> out \<noteq> []" by blast
  have "\<exists>ok sc1. (if out = [] then pret (True, sc) else write_local sys l h out sc) = pret (ok, sc1) \<and>
    (if ok then writing content handle h l old (done @ out) (y_fs (sc_y sc1)) \<and> (\<forall>rest. pending (sc_y sc1) rest = pending (sc_y sc) rest) \<and> answered (sc_y sc1) = answered (sc_y sc)
       \<and> sc_printed sc1 = sc_printed sc else complained sc sc1)"
    using write_local_ok [OF fs less.prems(2), of out] less.prems(2) by auto
  then obtain ok sc1 where 1: "(if out = [] then pret (True, sc) else write_local sys l h out sc) = pret (ok, sc1)"
    "if ok then writing content handle h l old (done @ out) (y_fs (sc_y sc1)) \<and> (\<forall>rest. pending (sc_y sc1) rest = pending (sc_y sc) rest) \<and> answered (sc_y sc1) = answered (sc_y sc)
       \<and> sc_printed sc1 = sc_printed sc else complained sc sc1" by blast
  let ?sc = "RecordBytesTransferred (length out) sc1"
  show ?case
  proof (cases ok)
    case False
    then have "local_drain sys C t l h d sc = pret ((Drained False, d1), sc1)" using d1(1) 1(1) by (subst local_drain.simps) simp
    then show ?thesis using False 1(2) by auto
  next
    case ok: True
    show ?thesis
    proof (cases "owed d1 = []")
      case True
      then have "local_drain sys C t l h d sc = pret (((if d_finished d then Drained True else Need_message), d1), if d_finished d then RecordFilesTransferred 1 ?sc else ?sc)"
        using d1(1) 1(1) ok by (subst local_drain.simps) (simp add: Let_def)
      then show ?thesis using True d1 1(2) ok by (auto simp: RecordBytesTransferred_def RecordFilesTransferred_def)
    next
      case False
      then have len: "length (owed d1) < length (owed d)" using d1(4,5) by simp
      have s: "local_drain sys C t l h d sc = local_drain sys C t l h d1 ?sc" using False ok d1(1) 1(1) by (subst local_drain.simps) (simp add: Let_def)
      have w: "writing content handle h l old (done @ out) (y_fs (sc_y ?sc))" "\<And>rest. pending (sc_y ?sc) rest = pending (sc_y sc) rest" "answered (sc_y ?sc) = answered (sc_y sc)"
        "sc_printed ?sc = sc_printed sc" using 1(2) ok by (simp_all add: RecordBytesTransferred_def)
      have "done @ owed d = (done @ out) @ owed d1" using d1(4) by simp
      then show ?thesis using less.hyps [OF len d1(2) w(1)] unfolding s d1(3) w(2,3,4) complained_def by (simp only: append_assoc)
    qed
  qed
qed

lemma recv_v2_loop_ok:
  assumes fs: "fs_ok sys content handle" and tail: "answer_end ok out"
  shows "chunked cs \<Longrightarrow> fit d \<Longrightarrow> owed d = [] \<Longrightarrow> \<not> d_finished d \<Longrightarrow> writing content handle h l [] done (y_fs (sc_y sc))
    \<Longrightarrow> pending (sc_y sc) (data_msgs cs @ out @ rest)
    \<Longrightarrow> \<exists>okc sc'. recv_v2_loop sys C t r l h d sc = pret (okc, sc') \<and> 
      (if okc then ok \<and> writing content handle h l [] (done @ concat cs) (y_fs (sc_y sc')) \<and> pending (sc_y sc') rest \<and> answered (sc_y sc') = answered (sc_y sc)
       else complained sc sc')"
proof (induction cs arbitrary: d "done" sc)
  case Nil
  show ?case
  proof (cases ok)
    case True
    with Nil(6) tail have "pending (sc_y sc) (sync_msg ID_DONE 0 @ rest)" by (simp add: answer_end_def)
    from sc_read_head [OF this] obtain sc1 where 1: "sc_read 8 sc = (True, sync_msg ID_DONE 0, sc1)" "pending (sc_y sc1) rest" "y_fs (sc_y sc1) = y_fs (sc_y sc)" "answered (sc_y sc1) = answered (sc_y sc)"
    "sc_printed sc1 = sc_printed sc" by blast
    let ?d = "d\<lparr>d_finished := True\<rparr>"
    have m: "local_message sys r l d sc = pret (Some ?d, sc1)" using 1(1) Nil(4) by (simp add: local_message_def Decoder_Finish_def)
    have "fit ?d" "owed ?d = []" "writing content handle h l [] done (y_fs (sc_y sc1))" using Nil(2,3,5) 1(3) finish by simp_all
    from local_drain_ok [OF fs this(1,3)] obtain b d' sc2 where 2: "local_drain sys C t l h ?d sc1 = pret ((b, d'), sc2)"
      "if b = Drained False then complained sc1 sc2 else b = Drained True \<and> writing content handle h l [] done (y_fs (sc_y sc2)) \<and> (\<forall>rest. pending (sc_y sc2) rest = pending (sc_y sc1) rest)
         \<and> answered (sc_y sc2) = answered (sc_y sc1)" using \<open>owed ?d = []\<close> by (auto split: if_splits)
    then have "if b = Drained False then complained sc sc2 else b = Drained True \<and> writing content handle h l [] done (y_fs (sc_y sc2)) \<and> pending (sc_y sc2) rest
         \<and> answered (sc_y sc2) = answered (sc_y sc)" using 1 by (auto simp: complained_def split: if_splits)
    then show ?thesis using True m 2(1) by (subst recv_v2_loop.simps) (auto split: if_splits)
  next
    case False
    with Nil(6) tail obtain hdr sc1 sc2 where "sc_read 8 sc = (True, hdr, sc1)" "msg_id hdr = ID_FAIL" "ReportCopyFailure sys r l hdr (sc_unlink sys l sc1) = pret sc2"
      "complained sc sc2" using answer_fail_read [of out sc rest sys r l] by auto
    then have "recv_v2_loop sys C t r l h d sc = pret (False, sc2) \<and> complained sc sc2" by (subst recv_v2_loop.simps) (simp add: local_message_def sync_ids)
    then show ?thesis by auto
  qed
next
  case (Cons c cs)
  have c: "length c \<le> SYNC_DATA_MAX" using Cons.prems(1) by simp
  then have n: "unat (of_nat (length c) :: u32) = length c" by (simp add: unat_of_nat SYNC_DATA_MAX_def)
  have "pending (sc_y sc) (sync_msg ID_DATA (of_nat (length c)) @ c @ data_msgs cs @ out @ rest)" using Cons.prems(6) by simp
  from sc_read_head [OF this] obtain sc1 where 1: "sc_read 8 sc = (True, sync_msg ID_DATA (of_nat (length c)), sc1)"
    "pending (sc_y sc1) (c @ data_msgs cs @ out @ rest)" "y_fs (sc_y sc1) = y_fs (sc_y sc)" "answered (sc_y sc1) = answered (sc_y sc)"
    "sc_printed sc1 = sc_printed sc" by blast
  from sc_read_body [OF 1(2)] obtain sc2 where 2: "sc_read (length c) sc1 = (True, c, sc2)" "pending (sc_y sc2) (data_msgs cs @ out @ rest)" "y_fs (sc_y sc2) = y_fs (sc_y sc1)" "answered (sc_y sc2) = answered (sc_y sc1)"
    "sc_printed sc2 = sc_printed sc1" by blast
  let ?d = "Decoder_Append (block_of c) d"
  have d: "fit ?d" "owed ?d = c" "\<not> d_finished ?d" using append [OF Cons.prems(2)] Cons.prems(3,4) by (simp_all add: Decoder_Append_def)
  have ids: "ID_DATA \<noteq> ID_DONE" by (simp add: sync_ids)
  have m: "local_message sys r l d sc = pret (Some ?d, sc2)" using 1(1) 2(1) n c ids by (simp add: local_message_def)
  have "writing content handle h l [] done (y_fs (sc_y sc2))" using Cons.prems(5) 1(3) 2(3) by simp
  from local_drain_ok [OF fs d(1) this] obtain b d' sc3 where 3: "local_drain sys C t l h ?d sc2 = pret ((b, d'), sc3)"
    "if b = Drained False then complained sc2 sc3 else b = Need_message \<and> fit d' \<and> owed d' = [] \<and> \<not> d_finished d' \<and> writing content handle h l [] (done @ c) (y_fs (sc_y sc3))
       \<and> (\<forall>rest. pending (sc_y sc3) rest = pending (sc_y sc2) rest) \<and> answered (sc_y sc3) = answered (sc_y sc2) \<and> sc_printed sc3 = sc_printed sc2" using d(2,3) by (auto split: if_splits)
  show ?case
  proof (cases "b = Drained False")
    case True
    then have "recv_v2_loop sys C t r l h d sc = pret (False, sc3)" using m 3(1) by (subst recv_v2_loop.simps) simp
    then show ?thesis using True 3(2) 1(5) 2(5) by (auto simp: complained_def)
  next
    case False
    then have s: "recv_v2_loop sys C t r l h d sc = recv_v2_loop sys C t r l h d' sc3" using m 3 by (subst recv_v2_loop.simps) (simp split: if_splits)
    have "chunked cs" "pending (sc_y sc3) (data_msgs cs @ out @ rest)" using Cons.prems(1) 3(2) False 2(2) by simp_all
    moreover have "fit d'" "owed d' = []" "\<not> d_finished d'" "writing content handle h l [] (done @ c) (y_fs (sc_y sc3))" using 3(2) False by simp_all
    ultimately have "\<exists>okc sc'. recv_v2_loop sys C t r l h d' sc3 = pret (okc, sc')
        \<and> (if okc then ok \<and> writing content handle h l [] ((done @ c) @ concat cs) (y_fs (sc_y sc')) \<and> pending (sc_y sc') rest \<and> answered (sc_y sc') = answered (sc_y sc3)
          else complained sc3 sc')" by (intro Cons.IH)
    moreover have "answered (sc_y sc3) = answered (sc_y sc)" "sc_printed sc3 = sc_printed sc" using 3(2) False 2(4,5) 1(4,5) by simp_all
    ultimately show ?thesis unfolding s complained_def by (simp cong: if_cong split del: if_split)
  qed
qed

end

lemma create_local_fails: "create_local sys l sc = (None, sc') \<Longrightarrow> complained sc sc'"
  by (auto simp: create_local_def complains split: prod.splits option.splits)

lemma create_local_ok:
  assumes "fs_ok sys content handle" "create_local sys l sc = (Some h, sc')"
  shows "writing content handle h l [] [] (y_fs (sc_y sc'))" "pending (sc_y sc') bs = pending (sc_y sc) bs" "answered (sc_y sc') = answered (sc_y sc)" "sc_printed sc' = sc_printed sc"
proof -
  have o: "fs_open_ok sys content handle" using assms(1) by (simp add: fs_ok_def)
  let ?y = "sc_y (sc_unlink sys l sc)"
  obtain y where y: "y_open sys Create_truncate l 420 ?y = (Some h, y)" "sc' = sc\<lparr>sc_y := y\<rparr>"
    using assms(2) by (auto simp: create_local_def split: prod.splits option.splits)
  then obtain f where f: "sys_open sys Create_truncate l 420 (y_fs ?y) = (Inr h, f)" "y = ?y\<lparr>y_fs := f\<rparr>"
    by (auto simp: y_open_def split: prod.splits sum.splits)
  from o [unfolded fs_open_ok_def, rule_format, OF f(1)] show "writing content handle h l [] [] (y_fs (sc_y sc'))" using f(2) y(2) by (simp add: writing_def)
  have "same_link (sc_y sc) ?y" using y_try_link [OF surjective_pairing] by (simp add: sc_unlink_def)
  then have "same_link (sc_y sc) (sc_y sc')" using y_open_cases(1) [OF o y(1)] y(2) same_link_trans by fastforce
  then show "pending (sc_y sc') bs = pending (sc_y sc) bs" "answered (sc_y sc') = answered (sc_y sc)" by (rule same_linkD)+
  show "sc_printed sc' = sc_printed sc" using y(2) by simp
qed

definition pull_request :: "'f SyncConnection \<Rightarrow> string \<Rightarrow> bytes" where
  "pull_request sc r = (if have_sendrecv_v2 sc then pull_v2 r 0 else pull_v1 r)"

text \<open>Creating the file and reading the answer, for either loop.\<close>

lemma receive_created:
  assumes fs: "fs_ok sys content handle" and req: "wrote req 0 sc sc1"
    and reads: "\<And>h sc2. writing content handle h l [] [] (y_fs (sc_y sc2)) \<Longrightarrow> pending (sc_y sc2) (ans @ rest) \<Longrightarrow> \<exists>okc sc'. recv h sc2 = pret (okc, sc') \<and>
      (if okc then ok \<and> writing content handle h l [] ([] @ c) (y_fs (sc_y sc')) \<and> pending (sc_y sc') rest \<and> answered (sc_y sc') = answered (sc_y sc2) else complained sc2 sc')"
    and pd: "pending (sc_y sc) (ans @ rest)"
  shows "\<exists>okc sc'. (case create_local sys l sc1 of
        (None, sc2) \<Rightarrow> pret (False, sc2)
      | (Some h, sc2) \<Rightarrow> pbind (recv h sc2) (\<lambda>(ok2, sc3). pret (ok2, sc_close sys h sc3))) = pret (okc, sc') \<and>
    (if okc then ok \<and> content l (y_fs (sc_y sc')) = Some c \<and> pending (sc_y sc') rest \<and> answered (sc_y sc') = answered (sc_y sc) @ req else complained sc sc')"
proof (cases "create_local sys l sc1")
  case (Pair hr sc2)
  show ?thesis
  proof (cases hr)
    case None
    then show ?thesis using Pair create_local_fails [of sys l sc1 sc2] req complained_frame by (auto simp: wrote_def)
  next
    case (Some h)
    note c = create_local_ok [OF fs, of l sc1 h sc2]
    have "pending (sc_y sc1) (ans @ rest)" "answered (sc_y sc1) = answered (sc_y sc) @ req" "sc_printed sc1 = sc_printed sc" using req pd by (simp_all add: wrote_def same_but_output_def pending_def sc_frame_def)
    then have 2: "writing content handle h l [] [] (y_fs (sc_y sc2))" "pending (sc_y sc2) (ans @ rest)" "answered (sc_y sc2) = answered (sc_y sc) @ req"
      "sc_printed sc2 = sc_printed sc" using c Pair Some by simp_all
    from reads [OF 2(1,2)] obtain okc sc3 where 3: "recv h sc2 = pret (okc, sc3)"
      "if okc then ok \<and> writing content handle h l [] ([] @ c) (y_fs (sc_y sc3)) \<and> pending (sc_y sc3) rest \<and> answered (sc_y sc3) = answered (sc_y sc2) else complained sc2 sc3" by blast
    have k: "content l (sys_close sys h f) = content l f" for f using fs fs_metaD(9) [of sys content handle] by (simp add: fs_ok_def)
    show ?thesis using Pair Some 3 2(3,4) k by (intro exI [of _ okc] exI [of _ "sc_close sys h sc3"]) (auto simp: sc_close_def y_close_def writing_def complained_def split: if_splits)
  qed
qed

lemma sync_recv_ok:
  fixes sc :: "'a SyncConnection"
  assumes fs: "fs_ok sys content handle" and t: "ResolveCompressionType sc t = CT_None" and len: "length r \<le> 1024"
    and w: "willing (length (pull_request sc r)) (sc_y sc)" and ans: "pull_answer c ok ans" and pd: "pending (sc_y sc) (ans @ rest)"
  shows "\<exists>okc sc'. sync_recv sys C r l t sc = pret (okc, sc') \<and>
    (if okc then ok \<and> content l (y_fs (sc_y sc')) = Some c \<and> pending (sc_y sc') rest \<and> answered (sc_y sc') = answered (sc_y sc) @ pull_request sc r else complained sc sc')"
proof -
  from ans obtain cs out where a: "chunked cs" "ans = data_msgs cs @ out" "answer_end ok out" "ok \<Longrightarrow> concat cs = c"
    by (cases ok) (auto simp: pull_answer_def answer_end_def)
  have w0: "willing (length (pull_request sc r) + 0) (sc_y sc)" using w by simp
  from sc_write_ok [OF w0] obtain sc1 where 1: "sc_write (pull_request sc r) sc = pret (True, sc1)" "wrote (pull_request sc r) 0 sc sc1" by blast
  show ?thesis
  proof (cases "have_sendrecv_v2 sc")
    case False
    then have s: "sync_recv sys C r l t sc = (case create_local sys l sc1 of (None, sc2) \<Rightarrow> pret (False, sc2)
      | (Some h, sc2) \<Rightarrow> pbind (recv_v1_loop sys r l h sc2) (\<lambda>(ok2, sc3). pret (ok2, sc_close sys h sc3)))"
      using 1(1) len by (simp add: sync_recv_def sync_recv_v1_def SendRequest_def pull_request_def pull_v1_def)
    show ?thesis unfolding s
    proof (rule receive_created [OF fs 1(2) _ pd])
      fix h and sc2 :: "'a SyncConnection" assume "writing content handle h l [] [] (y_fs (sc_y sc2))" "pending (sc_y sc2) (ans @ rest)"
      with recv_v1_loop_ok [OF fs a(3,1), of h l "[]" sc2 rest r] a(2,4)
      show "\<exists>okc sc'. recv_v1_loop sys r l h sc2 = pret (okc, sc') \<and> (if okc then ok \<and> writing content handle h l [] ([] @ c) (y_fs (sc_y sc')) \<and> pending (sc_y sc') rest
        \<and> answered (sc_y sc') = answered (sc_y sc2) else complained sc2 sc')" by (cases ok) (auto cong: if_cong split del: if_split)
    qed
  next
    case True
    let ?d = "new_decoder SYNC_DATA_MAX (BrotliDecoderCreate C)"
    have d: "null_fit ?d" "null_owed ?d = []" "\<not> d_finished ?d" by (simp_all add: null_fit_def null_owed_def new_decoder_def SYNC_DATA_MAX_def)
    have s: "sync_recv sys C r l t sc = (case create_local sys l sc1 of (None, sc2) \<Rightarrow> pret (False, sc2)
      | (Some h, sc2) \<Rightarrow> pbind (recv_v2_loop sys C CT_None r l h ?d sc2) (\<lambda>(ok2, sc3). pret (ok2, sc_close sys h sc3)))"
      using True 1(1) len t by (simp add: sync_recv_def sync_recv_v2_def SendRecv2_def pull_request_def compression_flag_def make_decoder_def cong: option.case_cong)
    show ?thesis unfolding s
    proof (rule receive_created [OF fs 1(2) _ pd])
      fix h and sc2 :: "'a SyncConnection" assume "writing content handle h l [] [] (y_fs (sc_y sc2))" "pending (sc_y sc2) (ans @ rest)"
      with null.recv_v2_loop_ok [OF fs a(3,1) d, of h l "[]" sc2 rest C r] a(2,4)
      show "\<exists>okc sc'. recv_v2_loop sys C CT_None r l h ?d sc2 = pret (okc, sc') \<and> (if okc then ok \<and> writing content handle h l [] ([] @ c) (y_fs (sc_y sc')) \<and> pending (sc_y sc') rest
        \<and> answered (sc_y sc') = answered (sc_y sc2) else complained sc2 sc')" by (cases ok) (auto cong: if_cong split del: if_split)
    qed
  qed
qed

end
