(* ===== verification/File_Sync_Listing.thy ===== *)
theory File_Sync_Listing
  imports File_Sync_Transfer
begin

text \<open>
  Lists and states of remote files: what the device answers and what the client makes of it, and where the files
  of a directory that is pulled go, whatever the device answers.
\<close>

subsection \<open>Names in a list\<close>

definition entry_name :: "ls_entry \<Rightarrow> string" where "entry_name e = snd (snd (snd e))"

lemma entry_name_dent [simp]: "entry_name (dent_entry v2 bs name) = name"
  by (simp add: entry_name_def dent_entry_def)

lemma FinishLsImpl_names:
  assumes "FinishLsImpl v2 seen sc = Some y" "\<forall>e \<in> set seen. CHR ''/'' \<notin> set (entry_name e)"
  shows "\<forall>e \<in> set (fst (snd y)). CHR ''/'' \<notin> set (entry_name e)"
proof -
  have "(\<forall>e \<in> set seen. CHR ''/'' \<notin> set (entry_name e)) \<longrightarrow> (\<forall>e \<in> set (fst (snd y)). CHR ''/'' \<notin> set (entry_name e))"
    using assms(1)
  proof (rule FinishLsImpl.raw_induct [rotated], goal_cases)
    case (1 f v2 seen sc y)
    obtain ok dent sc1 where r1: "sc_read (dent_size v2) sc = (ok, dent, sc1)" by (metis prod_cases3)
    obtain ok2 buf sc2 where r2: "sc_read (unat (dent_namelen v2 dent)) sc1 = (ok2, buf, sc2)" by (metis prod_cases3)
    from 1(2) r1 r2 have "fst (snd y) = seen \<or> CHR ''/'' \<notin> set (c_name buf) \<and> f v2 (seen @ [dent_entry v2 dent (c_name buf)]) sc2 = Some y"
      by (auto split: if_splits)
    then show ?case using 1(1) [of v2 "seen @ [dent_entry v2 dent (c_name buf)]" sc2 y] by auto
  qed
  then show ?thesis using assms(2) by simp
qed

lemma sync_ls_names: "sync_ls p sc = Some (Inr (ok, es, sc')) \<Longrightarrow> \<forall>e \<in> set es. CHR ''/'' \<notin> set (entry_name e)"
  using FinishLsImpl_names by (fastforce simp: sync_ls_def FinishLs_def pbind_eq_Inr split: if_splits)

subsection \<open>Paths below a directory\<close>

text \<open>A name that stays in its directory, and the paths that such names lead to.\<close>

definition plain_name :: "string \<Rightarrow> bool" where
  "plain_name n \<longleftrightarrow> CHR ''/'' \<notin> set n \<and> \<not> IsDotOrDotDot n"

inductive inside :: "string \<Rightarrow> string \<Rightarrow> bool" for base where
  inside_base: "inside base base"
| inside_name: "inside base p \<Longrightarrow> plain_name n \<Longrightarrow> inside base (with_separator p @ n)"
| inside_separator: "inside base p \<Longrightarrow> inside base (with_separator p)"

text \<open>An entry of the list of files: a directory that is to be made, or a file below the destination.\<close>

definition pull_entry :: "string \<Rightarrow> copyinfo \<Rightarrow> bool" where
  "pull_entry base ci \<longleftrightarrow> S_ISDIR (ci_mode ci) \<or> inside base (ci_lpath ci)"

lemma new_copyinfo_inside: "inside base l \<Longrightarrow> plain_name n \<Longrightarrow> inside base (ci_lpath (new_copyinfo l r n m))"
  by (simp add: new_copyinfo_def ensure_trailing_separators_def Let_def inside_name inside_separator)

lemma new_copyinfo_dir: "pull_entry base (new_copyinfo l r n 0x4000)"
  by (simp add: new_copyinfo_def ensure_trailing_separators_def Let_def pull_entry_def S_ISDIR_def)

definition all_inside :: "string \<Rightarrow> copyinfo list \<Rightarrow> bool" where
  "all_inside base cis \<longleftrightarrow> (\<forall>ci \<in> set cis. inside base (ci_lpath ci))"

lemma all_inside_simps [simp]:
  "all_inside base []" "all_inside base (ci # cis) \<longleftrightarrow> inside base (ci_lpath ci) \<and> all_inside base cis" "all_inside base (cis @ cis') \<longleftrightarrow> all_inside base cis \<and> all_inside base cis'"
  by (auto simp: all_inside_def)

lemma remote_scan_inside:
  "remote_scan l r es dirs links files sc = (dirs', links', files', sc') \<Longrightarrow> inside base l \<Longrightarrow> \<forall>e \<in> set es. CHR ''/'' \<notin> set (entry_name e)
    \<Longrightarrow> all_inside base dirs \<Longrightarrow> all_inside base links \<Longrightarrow> list_all (pull_entry base) files
    \<Longrightarrow> all_inside base dirs' \<and> all_inside base links' \<and> list_all (pull_entry base) files'"
proof (induction l r es dirs links files sc rule: remote_scan.induct)
  case (2 l r mode sz time name es dirs links files sc)
  have n: "inside base (ci_lpath (new_copyinfo l r name mode))" if "\<not> IsDotOrDotDot name"
    using that 2(6,7) by (intro new_copyinfo_inside) (simp_all add: plain_name_def entry_name_def)
  then have t: "pull_entry base ((new_copyinfo l r name mode)\<lparr>ci_skip := skip, ci_time := time, ci_size := sz\<rparr>)" if "\<not> IsDotOrDotDot name" for skip
    using that by (simp add: pull_entry_def)
  show ?case using 2 n t by (simp add: Let_def split: if_splits)
qed simp

lemma resolve_links_inside:
  "resolve_links sys number links dirs files sc = Some (Inr (dirs', files', sc')) \<Longrightarrow> all_inside base links \<Longrightarrow> all_inside base dirs
    \<Longrightarrow> list_all (pull_entry base) files \<Longrightarrow> all_inside base dirs' \<and> list_all (pull_entry base) files'"
proof (induction links arbitrary: dirs files sc)
  case (Cons ci links)
  have "pull_entry base ci" using Cons.prems(2) by (simp add: pull_entry_def)
  with Cons show ?case by (auto simp: pbind_eq_Inr split: option.splits if_splits)
qed simp

lemma remote_visit_inside:
  assumes "remote_visit sys number todo files sc = Some res" "\<forall>rl \<in> set todo. inside base (snd rl)" "list_all (pull_entry base) files" "res = Inr y"
  shows "list_all (pull_entry base) (fst (snd y))"
proof -
  have "(\<forall>rl \<in> set todo. inside base (snd rl)) \<longrightarrow> list_all (pull_entry base) files \<longrightarrow> (\<forall>y. res = Inr y \<longrightarrow> list_all (pull_entry base) (fst (snd y)))"
    using assms(1)
  proof (rule remote_visit.raw_induct [rotated], goal_cases)
    case (1 f sys number todo files sc res)
    show ?case
    proof (cases todo)
      case Nil
      then show ?thesis using 1(2) by (auto simp: pret_def)
    next
      case (Cons rl todo')
      obtain rp lp where rl: "rl = (rp, lp)" by fastforce
      show ?thesis
      proof (intro impI allI)
        fix y assume i: "\<forall>rl \<in> set todo. inside base (snd rl)" and fs: "list_all (pull_entry base) files" and y: "res = Inr y"
        let ?files = "files @ [new_copyinfo (sys_dirname sys lp) (sys_dirname sys rp) (sys_basename sys lp) 0x4000]"
        from 1(2) Cons rl y obtain ok es sc1 where ls: "sync_ls rp sc = Some (Inr (ok, es, sc1))" by (auto simp: pbind_eq_Inr)
        obtain dirs links files1 sc2 where s: "remote_scan lp rp es [] [] ?files sc1 = (dirs, links, files1, sc2)" by (metis prod_cases4)
        have l: "inside base lp" using i Cons rl by simp
        then have "list_all (pull_entry base) ?files" using fs by (simp add: new_copyinfo_dir)
        from remote_scan_inside [OF s l sync_ls_names [OF ls] _ _ this] have
          2: "all_inside base dirs" "all_inside base links" "list_all (pull_entry base) files1" by simp_all
        show "list_all (pull_entry base) (fst (snd y))"
        proof (cases ok)
          case False
          then show ?thesis using 1(2) Cons rl y ls s 2(3) by (auto simp: pret_def)
        next
          case True
          with 1(2) Cons rl y ls s obtain dirs1 files2 sc3 where r: "resolve_links sys number links dirs files1 sc2 = Some (Inr (dirs1, files2, sc3))"
            "f sys number (map (\<lambda>ci. (ci_rpath ci, ci_lpath ci)) (rev dirs1) @ todo') files2 sc3 = Some res" by (auto simp: pbind_eq_Inr)
          from resolve_links_inside [OF r(1) 2(2,1,3)] have "all_inside base dirs1" "list_all (pull_entry base) files2" by simp_all
          then show ?thesis using 1(1) [OF r(2)] i Cons y by (auto simp: all_inside_def)
        qed
      qed
    qed
  qed
  then show ?thesis using assms(2-4) by simp
qed


subsection \<open>Lists\<close>

lemma dent_bytes_not_nil [simp]: "dent_bytes v2 i err st n \<noteq> []"
proof
  assume "dent_bytes v2 i err st n = []"
  then have "length (dent_bytes v2 i err st n) = 0" by simp
  then show False by (simp add: dent_bytes_def split: if_splits)
qed
lemma dent_bytes_parse [simp]:
  "length (dent_bytes v2 i err st n) = dent_size v2" "msg_id (dent_bytes v2 i err st n) = i" "dent_namelen v2 (dent_bytes v2 i err st n) = n"
  by (simp_all add: dent_bytes_def dent_size_def msg_id_def dent_namelen_def stat_v1_bytes_def stat_v2_bytes_def)

lemma dent_entry_bytes [simp]:
  "dent_entry v2 (dent_bytes v2 i err st n) name =
     (if v2 then (st_mode st, st_size st, st_mtime st, name) else (st_mode st, ucast (ucast (st_size st) :: u32), ucast (ucast (st_mtime st) :: u32), name))"
  by (simp add: dent_entry_def dent_bytes_def stat_v1_bytes_def)

text \<open>What the device sends for a name of a directory, and what the client makes of it.\<close>

definition dent_of :: "'f sys \<Rightarrow> bool \<Rightarrow> string \<Rightarrow> 'f \<Rightarrow> string \<Rightarrow> bytes" where
  "dent_of sys v2 path f d =
     (case sys_lstat sys (path @ ''/'' @ d) f of
        Inr st \<Rightarrow> dent_bytes v2 (if v2 then ID_DENT_V2 else ID_DENT_V1) 0 st (of_nat (length d)) @ d
      | Inl e \<Rightarrow> if v2 then dent_bytes v2 ID_DENT_V2 (of_nat e) zero_stat (of_nat (length d)) @ d else [])"

definition seen_of :: "'f sys \<Rightarrow> bool \<Rightarrow> string \<Rightarrow> 'f \<Rightarrow> string \<Rightarrow> ls_entry list" where
  "seen_of sys v2 path f d =
     (case sys_lstat sys (path @ ''/'' @ d) f of
        Inr st \<Rightarrow> [if v2 then (st_mode st, st_size st, st_mtime st, d) else (st_mode st, ucast (ucast (st_size st) :: u32), ucast (ucast (st_mtime st) :: u32), d)]
      | Inl e \<Rightarrow> if v2 then [(0, 0, 0, d)] else [])"

definition list_answer :: "'f sys \<Rightarrow> bool \<Rightarrow> string \<Rightarrow> 'f \<Rightarrow> bytes" where
  "list_answer sys v2 path f =
     (case sys_dir sys path f of Inl _ \<Rightarrow> [] | Inr ds \<Rightarrow> concat (map (dent_of sys v2 path f) ds)) @ dent_bytes v2 ID_DONE 0 zero_stat 0"

lemma write_dent:
  assumes "willing (length (hd1 @ d) + k) y"
  shows "\<exists>y2. pbind (y_write hd1 y) (\<lambda>(ok, y1). if \<not> ok then pret (False, y1)
        else pbind (y_write d y1) (\<lambda>(ok2, y2). if \<not> ok2 then pret (False, y2) else cont y2)) = cont y2
      \<and> answered y2 = answered y @ hd1 @ d \<and> willing k y2 \<and> same_but_output y y2"
proof -
  have "willing (length hd1 + (length d + k)) y" using assms by (simp add: add.assoc)
  from y_write_ok [OF this] obtain y1 where 1: "y_write hd1 y = pret (True, y1)" "answered y1 = answered y @ hd1" "willing (length d + k) y1" "same_but_output y y1" by blast
  from y_write_ok [OF 1(3)] obtain y2 where "y_write d y1 = pret (True, y2)" "answered y2 = answered y1 @ d" "willing k y2" "same_but_output y1 y2" by blast
  with 1 show ?thesis using same_but_output_trans [OF 1(4)] by (intro exI [of _ y2]) simp
qed

lemma list_entries_ok:
  "willing (length (concat (map (dent_of sys v2 path (y_fs y)) ds)) + k) y \<Longrightarrow>
     \<exists>y'. list_entries sys v2 path ds y = pret (True, y') \<and> answered y' = answered y @ concat (map (dent_of sys v2 path (y_fs y)) ds) \<and> willing k y' \<and> same_but_output y y'"
proof (induction ds arbitrary: y)
  case Nil
  then show ?case by (simp add: same_but_output_def)
next
  case (Cons d ds)
  let ?rest = "length (concat (map (dent_of sys v2 path (y_fs y)) ds)) + k"
  show ?case
  proof (cases "dent_of sys v2 path (y_fs y) d = []")
    case True
    then obtain e where "sys_lstat sys (path @ ''/'' @ d) (y_fs y) = Inl e" "\<not> v2" by (auto simp: dent_of_def split: sum.splits if_splits)
    then show ?thesis using Cons True by simp
  next
    case False
    have w: "willing (length (dent_of sys v2 path (y_fs y) d) + ?rest) y" using Cons.prems by (simp add: add.assoc)
    obtain hd1 where hd1: "dent_of sys v2 path (y_fs y) d = hd1 @ d" "list_entries sys v2 path (d # ds) y = pbind (y_write hd1 y) (\<lambda>(ok, y1). if \<not> ok then pret (False, y1)
        else pbind (y_write d y1) (\<lambda>(ok2, y2). if \<not> ok2 then pret (False, y2) else list_entries sys v2 path ds y2))"
      using False by (auto simp: dent_of_def Let_def split: sum.splits if_splits)
    from write_dent [OF w [unfolded hd1(1)], of "list_entries sys v2 path ds"] obtain y2 where
      2: "list_entries sys v2 path (d # ds) y = list_entries sys v2 path ds y2" "answered y2 = answered y @ hd1 @ d" "willing ?rest y2" "same_but_output y y2"
      unfolding hd1(2) by blast
    have fs: "y_fs y2 = y_fs y" using 2(4) by (simp add: same_but_output_def)
    from Cons.IH [of y2] 2(3) obtain y' where "list_entries sys v2 path ds y2 = pret (True, y')" "answered y' = answered y2 @ concat (map (dent_of sys v2 path (y_fs y)) ds)"
      "willing k y'" "same_but_output y2 y'" unfolding fs by blast
    then show ?thesis using 2 hd1(1) same_but_output_trans by auto
  qed
qed

lemma do_list_ok:
  assumes "willing (length (list_answer sys v2 path (y_fs y)) + k) y"
  shows "\<exists>y'. do_list sys v2 path y = pret (True, y') \<and> answered y' = answered y @ list_answer sys v2 path (y_fs y) \<and> willing k y' \<and> same_but_output y y'"
proof -
  let ?ds = "case sys_dir sys path (y_fs y) of Inl _ \<Rightarrow> [] | Inr ds \<Rightarrow> ds"
  let ?bs = "concat (map (dent_of sys v2 path (y_fs y)) ?ds)"
  have a: "list_answer sys v2 path (y_fs y) = ?bs @ dent_bytes v2 ID_DONE 0 zero_stat 0" by (simp add: list_answer_def split: sum.split)
  have "willing (length ?bs + (length (dent_bytes v2 ID_DONE 0 zero_stat 0) + k)) y" using assms unfolding a by (simp add: add.assoc)
  from list_entries_ok [OF this] obtain y1 where 1: "list_entries sys v2 path ?ds y = pret (True, y1)" "answered y1 = answered y @ ?bs"
    "willing (length (dent_bytes v2 ID_DONE 0 zero_stat 0) + k) y1" "same_but_output y y1" by blast
  from y_write_ok [OF 1(3)] obtain y2 where 2: "y_write (dent_bytes v2 ID_DONE 0 zero_stat 0) y1 = pret (True, y2)"
    "answered y2 = answered y1 @ dent_bytes v2 ID_DONE 0 zero_stat 0" "willing k y2" "same_but_output y1 y2" by blast
  have "(case sys_dir sys path (y_fs y) of Inl _ \<Rightarrow> pret (True, y) | Inr ds \<Rightarrow> list_entries sys v2 path ds y) = list_entries sys v2 path ?ds y" by (simp split: sum.split)
  then have "do_list sys v2 path y = pret (True, y2)" using 1(1) 2(1) by (simp add: do_list_def)
  then show ?thesis using 1 2 a same_but_output_trans by auto
qed


definition listable :: "string \<Rightarrow> bool" where
  "listable d \<longleftrightarrow> length d \<le> 255 \<and> CHR ''/'' \<notin> set d \<and> CHR 0x00 \<notin> set d"

lemma read_dent:
  assumes "listable d" "pending (sc_y sc) (dent_bytes v2 (if v2 then ID_DENT_V2 else ID_DENT_V1) err st (of_nat (length d)) @ d @ rest)"
  shows "\<exists>sc1. FinishLsImpl v2 seen sc = FinishLsImpl v2 (seen @ [dent_entry v2 (dent_bytes v2 (if v2 then ID_DENT_V2 else ID_DENT_V1) err st (of_nat (length d))) d]) sc1
    \<and> pending (sc_y sc1) rest \<and> answered (sc_y sc1) = answered (sc_y sc)"
proof -
  let ?b = "dent_bytes v2 (if v2 then ID_DENT_V2 else ID_DENT_V1) err st (of_nat (length d))"
  have n: "unat (of_nat (length d) :: u32) = length d" using assms(1) by (simp add: unat_of_nat listable_def)
  from sc_read_body [OF assms(2)] obtain sc1 where 1: "sc_read (dent_size v2) sc = (True, ?b, sc1)" "pending (sc_y sc1) (d @ rest)" "answered (sc_y sc1) = answered (sc_y sc)" by auto
  from sc_read_body [OF 1(2)] obtain sc2 where 2: "sc_read (length d) sc1 = (True, d, sc2)" "pending (sc_y sc2) rest" "answered (sc_y sc2) = answered (sc_y sc1)" by blast
  have ids: "(if v2 then ID_DENT_V2 else ID_DENT_V1) \<noteq> ID_DONE" by (simp add: sync_ids)
  have "FinishLsImpl v2 seen sc = FinishLsImpl v2 (seen @ [dent_entry v2 ?b d]) sc2"
    using assms(1) 1(1) 2(1) n ids c_name_id [of d] by (subst FinishLsImpl.simps) (simp add: listable_def)
  then show ?thesis using 1(3) 2(2,3) by auto
qed

lemma FinishLsImpl_ok:
  "list_all listable ds \<Longrightarrow> pending (sc_y sc) (concat (map (dent_of sys v2 path f) ds) @ dent_bytes v2 ID_DONE 0 zero_stat 0 @ rest)
    \<Longrightarrow> \<exists>sc'. FinishLsImpl v2 seen sc = Some (True, seen @ concat (map (seen_of sys v2 path f) ds), sc') \<and> pending (sc_y sc') rest \<and> answered (sc_y sc') = answered (sc_y sc)"
proof (induction ds arbitrary: seen sc)
  case Nil
  then have "pending (sc_y sc) (dent_bytes v2 ID_DONE 0 zero_stat 0 @ rest)" by simp
  from sc_read_body [OF this] show ?case by (subst FinishLsImpl.simps) auto
next
  case (Cons d ds)
  let ?more = "concat (map (dent_of sys v2 path f) ds) @ dent_bytes v2 ID_DONE 0 zero_stat 0 @ rest"
  have d: "listable d" "list_all listable ds" using Cons.prems(1) by simp_all
  show ?case
  proof (cases "\<exists>e. sys_lstat sys (path @ ''/'' @ d) f = Inl e \<and> \<not> v2")
    case True
    then have "dent_of sys v2 path f d = []" "seen_of sys v2 path f d = []" by (auto simp: dent_of_def seen_of_def)
    then show ?thesis using Cons.IH [OF d(2)] Cons.prems(2) by simp
  next
    case False
    then obtain err st where e: "dent_of sys v2 path f d = dent_bytes v2 (if v2 then ID_DENT_V2 else ID_DENT_V1) err st (of_nat (length d)) @ d"
      "seen_of sys v2 path f d = [dent_entry v2 (dent_bytes v2 (if v2 then ID_DENT_V2 else ID_DENT_V1) err st (of_nat (length d))) d]"
      by (cases "sys_lstat sys (path @ ''/'' @ d) f") (auto simp: dent_of_def seen_of_def zero_stat_def)
    have "pending (sc_y sc) (dent_bytes v2 (if v2 then ID_DENT_V2 else ID_DENT_V1) err st (of_nat (length d)) @ d @ ?more)" using Cons.prems(2) e(1) by simp
    from read_dent [OF d(1) this, of seen] obtain sc1 where 1: "FinishLsImpl v2 seen sc = FinishLsImpl v2 (seen @ seen_of sys v2 path f d) sc1" "pending (sc_y sc1) ?more" "answered (sc_y sc1) = answered (sc_y sc)"
      unfolding e(2) by blast
    from Cons.IH [OF d(2) 1(2), of "seen @ seen_of sys v2 path f d"] 1 show ?thesis by auto
  qed
qed

text \<open>The request of a list, and the entries that the client should see: none if the directory cannot be read.\<close>

definition listed :: "'f sys \<Rightarrow> bool \<Rightarrow> string \<Rightarrow> 'f \<Rightarrow> ls_entry list" where
  "listed sys v2 path f = (case sys_dir sys path f of Inl _ \<Rightarrow> [] | Inr ds \<Rightarrow> concat (map (seen_of sys v2 path f) ds))"

definition list_request :: "bool \<Rightarrow> string \<Rightarrow> bytes" where
  "list_request v2 p = sync_msg (if v2 then ID_LIST_V2 else ID_LIST_V1) (of_nat (length p)) @ p"

lemma list_command:
  assumes "pending y (list_request v2 p @ rest)" "length p \<le> 1024" "CHR 0x00 \<notin> set p" "willing (length (list_answer sys v2 p (y_fs y))) y"
  shows "\<exists>y'. handle_sync_command sys fresh C y = pret (True, y') \<and> answered y' = answered y @ list_answer sys v2 p (y_fs y) \<and> pending y' rest \<and> y_fs y' = y_fs y"
proof -
  from read_request [of y "if v2 then ID_LIST_V2 else ID_LIST_V1" p rest] assms(1,2) obtain y1 evs where
    r: "y_read 8 y = (True, sync_msg (if v2 then ID_LIST_V2 else ID_LIST_V1) (of_nat (length p)), y1)" "unat (msg_size (sync_msg (if v2 then ID_LIST_V2 else ID_LIST_V1) (of_nat (length p)))) = length p"
      "y_read (length p) y1 = (True, p, y\<lparr>y_sock := (y_sock y)\<lparr>fd_in := evs\<rparr>\<rparr>)" "delivers evs rest" by (auto simp: list_request_def)
  let ?y = "y\<lparr>y_sock := (y_sock y)\<lparr>fd_in := evs\<rparr>\<rparr>"
  have "willing (length (list_answer sys v2 p (y_fs ?y)) + 0) ?y" using assms(4) by simp
  from do_list_ok [OF this] obtain y' where 2: "do_list sys v2 p ?y = pret (True, y')" "answered y' = answered y @ list_answer sys v2 p (y_fs y)" "same_but_output ?y y'" by auto
  have "handle_sync_command sys fresh C y = do_list sys v2 p ?y"
    using r assms(2) c_name_id [OF assms(3)] by (simp add: handle_sync_command_def Let_def sync_ids)
  then show ?thesis using 2 r(4) by (auto simp: same_but_output_def pending_def)
qed

lemma sync_ls_ok:
  assumes "have_ls_v2 sc = v2" "length p \<le> 1024" "willing (length (list_request v2 p)) (sc_y sc)" "pending (sc_y sc) (list_answer sys v2 p f @ rest)"
    "case sys_dir sys p f of Inl _ \<Rightarrow> True | Inr ds \<Rightarrow> list_all listable ds"
  shows "\<exists>sc'. sync_ls p sc = pret (True, listed sys v2 p f, sc') \<and> pending (sc_y sc') rest \<and> answered (sc_y sc') = answered (sc_y sc) @ list_request v2 p"
proof -
  have "willing (length (list_request v2 p) + 0) (sc_y sc)" using assms(3) by simp
  from sc_write_ok [OF this] obtain sc1 where 1: "sc_write (list_request v2 p) sc = pret (True, sc1)" "wrote (list_request v2 p) 0 sc sc1" by blast
  have s: "SendLs p sc = pret (True, sc1)" using 1(1) assms(1,2) by (simp add: SendLs_def SendRequest_def list_request_def)
  have p1: "pending (sc_y sc1) (list_answer sys v2 p f @ rest)" "answered (sc_y sc1) = answered (sc_y sc) @ list_request v2 p"
    using 1(2) assms(4) by (simp_all add: wrote_def same_but_output_def pending_def)
  have v: "have_ls_v2 sc1 = v2" using 1(1) assms(1) by (auto simp: sc_write_def pbind_def pret_def split: option.splits sum.splits)
  let ?ds = "case sys_dir sys p f of Inl _ \<Rightarrow> [] | Inr ds \<Rightarrow> ds"
  have "list_all listable ?ds" "pending (sc_y sc1) (concat (map (dent_of sys v2 p f) ?ds) @ dent_bytes v2 ID_DONE 0 zero_stat 0 @ rest)"
    using assms(5) p1(1) by (simp_all add: list_answer_def split: sum.splits)
  from FinishLsImpl_ok [OF this, of "[]"] obtain sc' where "FinishLsImpl v2 [] sc1 = Some (True, concat (map (seen_of sys v2 p f) ?ds), sc')" "pending (sc_y sc') rest"
    "answered (sc_y sc') = answered (sc_y sc1)" by auto
  then show ?thesis using s v p1(2) by (auto simp: sync_ls_def FinishLs_def listed_def pret_def split: sum.split)
qed

subsection \<open>The state of a file\<close>

definition stat_request :: "u32 \<Rightarrow> string \<Rightarrow> bytes" where
  "stat_request i p = sync_msg i (of_nat (length p)) @ p"

definition stat_answer :: "'f sys \<Rightarrow> u32 \<Rightarrow> string \<Rightarrow> 'f \<Rightarrow> bytes" where
  "stat_answer sys i p f =
     (case (if i = ID_STAT_V2 then sys_stat sys else sys_lstat sys) p f of
        Inl e \<Rightarrow> stat_v2_bytes i (of_nat (errno_to_wire linux_errno e)) zero_stat
      | Inr st \<Rightarrow> stat_v2_bytes i 0 st)"

lemma stat_command:
  assumes "i = ID_STAT_V2 \<or> i = ID_LSTAT_V2" "pending y (stat_request i p @ rest)" "length p \<le> 1024" "CHR 0x00 \<notin> set p" "willing 72 y"
  shows "\<exists>y'. handle_sync_command sys fresh C y = pret (True, y') \<and> answered y' = answered y @ stat_answer sys i p (y_fs y) \<and> pending y' rest \<and> y_fs y' = y_fs y"
proof -
  from read_request [of y i p rest] assms(2,3) obtain y1 evs where
    r: "y_read 8 y = (True, sync_msg i (of_nat (length p)), y1)" "unat (msg_size (sync_msg i (of_nat (length p)))) = length p"
      "y_read (length p) y1 = (True, p, y\<lparr>y_sock := (y_sock y)\<lparr>fd_in := evs\<rparr>\<rparr>)" "delivers evs rest" by (auto simp: stat_request_def)
  let ?y = "y\<lparr>y_sock := (y_sock y)\<lparr>fd_in := evs\<rparr>\<rparr>"
  have "length (stat_answer sys i p (y_fs y)) = 72" by (simp add: stat_answer_def split: sum.split)
  then have "willing (length (stat_answer sys i p (y_fs y)) + 0) ?y" using assms(5) by simp
  from y_write_ok [OF this] obtain y' where 2: "y_write (stat_answer sys i p (y_fs y)) ?y = pret (True, y')" "answered y' = answered y @ stat_answer sys i p (y_fs y)" "same_but_output ?y y'" by auto
  have "handle_sync_command sys fresh C y = do_stat_v2 sys i p ?y"
    using r assms(1,3) c_name_id [OF assms(4)] by (auto simp: handle_sync_command_def Let_def sync_ids)
  also have "\<dots> = y_write (stat_answer sys i p (y_fs y)) ?y" by (simp add: do_stat_v2_def stat_answer_def)
  finally show ?thesis using 2 r(4) by (auto simp: same_but_output_def pending_def)
qed

lemma errno_to_wire_range: "errno_to_wire number e \<noteq> 0 \<and> errno_to_wire number e < 128"
proof (cases "host_to_wire number e")
  case (Some w)
  then obtain n where "(n, w) \<in> set ERRNO_VALUES" by (auto simp: host_to_wire_def find_Some_iff) (metis nth_mem)
  then show ?thesis using Some by (auto simp: errno_to_wire_def ERRNO_VALUES_def)
qed (simp add: errno_to_wire_def)

lemma y_errno_get [simp]: "fd_errno (y_sock (y_errno e y)) = e"
  by (simp add: y_errno_def)

lemma FinishStat_ok:
  assumes "have_stat_v2 sc" "i = ID_STAT_V2 \<or> i = ID_LSTAT_V2" "pending (sc_y sc) (stat_answer sys i p f @ rest)"
  shows "\<exists>sc'. FinishStat number sc = pret (case (if i = ID_STAT_V2 then sys_stat sys else sys_lstat sys) p f of Inl e \<Rightarrow> None | Inr st \<Rightarrow> Some st, sc')
    \<and> pending (sc_y sc') rest \<and> answered (sc_y sc') = answered (sc_y sc)
    \<and> (\<forall>e. (if i = ID_STAT_V2 then sys_stat sys else sys_lstat sys) p f = Inl e \<longrightarrow> sc_errno sc' = errno_from_wire number (errno_to_wire linux_errno e))"
proof -
  have len: "length (stat_answer sys i p f) = 72" by (simp add: stat_answer_def split: sum.split)
  from sc_read_body [OF assms(3)] obtain sc1 where 1: "sc_read 72 sc = (True, stat_answer sys i p f, sc1)" "pending (sc_y sc1) rest" "answered (sc_y sc1) = answered (sc_y sc)"
    unfolding len by blast
  show ?thesis
  proof (cases "(if i = ID_STAT_V2 then sys_stat sys else sys_lstat sys) p f")
    case (Inl e)
    let ?w = "errno_to_wire linux_errno e"
    have w: "?w \<noteq> 0" "?w < 128" using errno_to_wire_range by auto
    then have n: "unat (of_nat ?w :: u32) = ?w" by (simp add: unat_of_nat)
    then have "(of_nat ?w :: u32) \<noteq> 0" using w(1) by (metis unsigned_0)
    then show ?thesis using 1 Inl assms(1,2) n stat_v2_roundtrip [of i "of_nat ?w" zero_stat "[]"]
      by (auto simp: FinishStat_def stat_answer_def msg_id_def msg_size_def sc_set_errno_def sc_errno_def)
  next
    case (Inr st)
    then show ?thesis using 1 assms(1,2) stat_v2_roundtrip [of i 0 st "[]"]
      by (auto simp: FinishStat_def stat_answer_def msg_id_def msg_size_def)
  qed
qed


lemma sync_stat_ok:
  assumes "have_stat_v2 sc" "length p \<le> 1024" "willing (length (stat_request ID_STAT_V2 p)) (sc_y sc)" "pending (sc_y sc) (stat_answer sys ID_STAT_V2 p f @ rest)"
  shows "\<exists>sc'. sync_stat number p sc = pret (case sys_stat sys p f of Inl e \<Rightarrow> None | Inr st \<Rightarrow> Some st, sc')
    \<and> pending (sc_y sc') rest \<and> answered (sc_y sc') = answered (sc_y sc) @ stat_request ID_STAT_V2 p
    \<and> (\<forall>e. sys_stat sys p f = Inl e \<longrightarrow> sc_errno sc' = errno_from_wire number (errno_to_wire linux_errno e))"
proof -
  have "willing (length (stat_request ID_STAT_V2 p) + 0) (sc_y sc)" using assms(3) by simp
  from sc_write_ok [OF this] obtain sc1 where 1: "sc_write (stat_request ID_STAT_V2 p) sc = pret (True, sc1)" "wrote (stat_request ID_STAT_V2 p) 0 sc sc1" by blast
  have s: "SendStat p sc = pret (True, sc1)" using 1(1) assms(1,2) by (simp add: SendStat_def SendRequest_def stat_request_def)
  have p1: "pending (sc_y sc1) (stat_answer sys ID_STAT_V2 p f @ rest)" "answered (sc_y sc1) = answered (sc_y sc) @ stat_request ID_STAT_V2 p"
    using 1(2) assms(4) by (simp_all add: wrote_def same_but_output_def pending_def)
  have v: "have_stat_v2 sc1" using 1(1) assms(1) by (auto simp: sc_write_def pbind_def pret_def split: option.splits sum.splits)
  from FinishStat_ok [OF v _ p1(1), of number] s p1(2) show ?thesis by (simp add: sync_stat_def)
qed

end
