(* ===== verification/File_Sync_Confined.thy ===== *)
theory File_Sync_Confined
  imports File_Sync_Listing
begin

text \<open>
  What a pull of a directory does to the local file system: a property of the file system that survives every
  call on a path below the destination survives the pull, whatever the device answers.
\<close>

subsection \<open>Calls on the targets of a pull\<close>

text \<open>
  \<open>Q\<close> holds of the file system between transfers, \<open>R h\<close> while the target with descriptor \<open>h\<close> is open, and
  \<open>T\<close> of the targets. New directories do not count.
\<close>

definition confines :: "'f sys \<Rightarrow> (string \<Rightarrow> bool) \<Rightarrow> ('f \<Rightarrow> bool) \<Rightarrow> (nat \<Rightarrow> 'f \<Rightarrow> bool) \<Rightarrow> bool" where
  "confines sys T Q R \<longleftrightarrow>
     (\<forall>p f. T p \<longrightarrow> Q f \<longrightarrow> Q (snd (sys_unlink sys p f)))
     \<and> (\<forall>p m f. T p \<longrightarrow> Q f \<longrightarrow> (case sys_open sys Create_truncate p m f of (Inl e, f') \<Rightarrow> Q f' | (Inr h, f') \<Rightarrow> R h f'))
     \<and> (\<forall>h bs f. R h f \<longrightarrow> R h (snd (sys_write sys h bs f)))
     \<and> (\<forall>h p f. T p \<longrightarrow> R h f \<longrightarrow> R h (snd (sys_unlink sys p f)))
     \<and> (\<forall>h f. R h f \<longrightarrow> Q (sys_close sys h f))
     \<and> (\<forall>p m f. Q f \<longrightarrow> Q (snd (sys_mkdir sys p m f)))
     \<and> (\<forall>p t f. T p \<longrightarrow> Q f \<longrightarrow> Q (snd (sys_utime sys p t f)))
     \<and> (\<forall>p m f. T p \<longrightarrow> Q f \<longrightarrow> Q (snd (sys_chmod sys p m f)))"

lemma confinesD:
  assumes "confines sys T Q R"
  shows "T p \<Longrightarrow> Q f \<Longrightarrow> Q (snd (sys_unlink sys p f))" "R h f \<Longrightarrow> R h (snd (sys_write sys h bs f))" "T p \<Longrightarrow> R h f \<Longrightarrow> R h (snd (sys_unlink sys p f))"
    "R h f \<Longrightarrow> Q (sys_close sys h f)" "Q f \<Longrightarrow> Q (snd (sys_mkdir sys p m f))" "T p \<Longrightarrow> Q f \<Longrightarrow> Q (snd (sys_utime sys p t f))" "T p \<Longrightarrow> Q f \<Longrightarrow> Q (snd (sys_chmod sys p m f))"
    "T p \<Longrightarrow> Q f \<Longrightarrow> sys_open sys Create_truncate p m f = (r, f') \<Longrightarrow> case r of Inl e \<Rightarrow> Q f' | Inr h \<Rightarrow> R h f'"
proof -
  show "case r of Inl e \<Rightarrow> Q f' | Inr h \<Rightarrow> R h f'" if "T p" "Q f" "sys_open sys Create_truncate p m f = (r, f')"
  proof -
    from assms have "\<forall>p m f. T p \<longrightarrow> Q f \<longrightarrow> (case sys_open sys Create_truncate p m f of (Inl e, f') \<Rightarrow> Q f' | (Inr h, f') \<Rightarrow> R h f')"
      unfolding confines_def by (elim conjE)
    from this [rule_format, OF that(1,2), of m] show ?thesis using that(3) by (simp split: sum.splits)
  qed
qed (use assms in \<open>simp_all add: confines_def\<close>)

subsection \<open>Programs that keep a property of the file system\<close>

definition stays :: "('f \<Rightarrow> bool) \<Rightarrow> ('a \<times> 'f SyncConnection) prog \<Rightarrow> bool" where
  "stays I m \<longleftrightarrow> runs UNIV (\<lambda>r. I (y_fs (sc_y (snd r)))) m"

lemma stays_simps [simp]: "stays I None" "stays I (Some (Inl e))" "stays I (Some (Inr (x, sc))) \<longleftrightarrow> I (y_fs (sc_y sc))" "stays I (pret (x, sc)) \<longleftrightarrow> I (y_fs (sc_y sc))"
  by (simp_all add: stays_def)

lemma stays_pbind: "stays I m \<Longrightarrow> (\<And>x sc. I (y_fs (sc_y sc)) \<Longrightarrow> stays J (f (x, sc))) \<Longrightarrow> stays J (pbind m f)"
  by (auto simp: pbind_def stays_def split: option.split sum.split)

lemma stays_pbind_fault: "(\<And>x. m = Some (Inr x) \<Longrightarrow> stays J (f x)) \<Longrightarrow> stays J (pbind m f)"
  by (auto simp: pbind_def stays_def split: option.split sum.split)

lemma stays_if: "(c \<Longrightarrow> stays I a) \<Longrightarrow> (\<not> c \<Longrightarrow> stays I b) \<Longrightarrow> stays I (if c then a else b)"
  by simp

lemma stays_rec: "(\<And>r. m = Some r \<Longrightarrow> stays I (Some r)) \<Longrightarrow> stays I m"
  by (cases m) auto

lemma y_try_fs [simp]: "y_fs (snd (y_try call y)) = snd (call (y_fs y))"
  by (auto simp: y_try_def split: prod.split option.split)

lemma sc_fs_simps [simp]:
  "y_fs (sc_y (sc_unlink sys p sc)) = snd (sys_unlink sys p (y_fs (sc_y sc)))" "y_fs (sc_y (sc_close sys h sc)) = sys_close sys h (y_fs (sc_y sc))"
  "y_fs (sc_y (sc_set_errno e sc)) = y_fs (sc_y sc)" "y_fs (sc_y (path_too_long w n sc)) = y_fs (sc_y sc)"
  by (simp_all add: sc_unlink_def sc_close_def y_close_def sc_set_errno_def path_too_long_def)

lemma sc_read_fs: "sc_read n sc = (ok, bs, sc') \<Longrightarrow> y_fs (sc_y sc') = y_fs (sc_y sc)"
  by (auto simp: sc_read_def y_read_def split: prod.splits)

lemma sc_write_stays: "I (y_fs (sc_y sc)) \<Longrightarrow> stays I (sc_write bs sc)"
  by (auto simp: sc_write_def y_write_def pbind_def stays_def split: option.split sum.split prod.split)


subsection \<open>Receiving a file\<close>

lemma write_file_stays: "confines sys T Q R \<Longrightarrow> R h (y_fs y) \<Longrightarrow> runs UNIV (\<lambda>r. R h (y_fs (snd r))) (write_file sys h bs y)"
proof -
  assume c: "confines sys T Q R" and r: "R h (y_fs y)"
  have "R h (y_fs y) \<longrightarrow> confines sys T Q R \<longrightarrow> runs UNIV (\<lambda>r. R h (y_fs (snd r))) (Some res)" if "write_file sys h bs y = Some res" for res
    using that
  proof (rule write_file.raw_induct [rotated], goal_cases)
    case (1 f sys h bs y res)
    obtain wr g where w: "sys_write sys h bs (y_fs y) = (wr, g)" by fastforce
    show ?case
    proof (intro impI)
      assume i: "R h (y_fs y)" "confines sys T Q R"
      have g: "R h g" using confinesD(2) [OF i(2,1), of bs] w by simp
      have rec: "runs UNIV (\<lambda>r. R h (y_fs (snd r))) (f sys h cs y')" if "R h (y_fs y')" for cs y'
        using 1(1) [of sys h cs y'] that i(2) by (cases "f sys h cs y'") auto
      show "runs UNIV (\<lambda>r. R h (y_fs (snd r))) (Some res)"
        using 1(2) rec g w i(1) by (auto simp: Let_def y_errno_def simp flip: 1(2) split: sum.split)
    qed
  qed
  then show ?thesis using c r by (cases "write_file sys h bs y") auto
qed


lemma write_local_stays:
  assumes c: "confines sys T Q R" and t: "T p" and r: "R h (y_fs (sc_y sc))"
  shows "stays (R h) (write_local sys p h bs sc)"
proof -
  have "stays (R h) (let sc1 = sc\<lparr>sc_y := y\<rparr> in if ok then pret (True, sc1) else pret (False, sc_unlink sys p (Error s sc1)))" if "R h (y_fs y)" for ok y s
    using that confinesD(3) [where f = "y_fs y", OF c t] by (simp add: Let_def)
  then show ?thesis unfolding write_local_def stays_def by (intro runs_pbind [OF write_file_stays [OF c r]]) auto
qed

lemma ReportCopyFailure_fs: "ReportCopyFailure sys r l hdr sc = Some (Inr sc') \<Longrightarrow> y_fs (sc_y sc') = y_fs (sc_y sc)"
  by (auto simp: ReportCopyFailure_def sc_read_fs split: if_splits prod.splits)

lemma report_stays: "I (y_fs (sc_y sc)) \<Longrightarrow> stays I (pbind (ReportCopyFailure sys r l hdr sc) (\<lambda>sc2. pret (x, sc2)))"
  using ReportCopyFailure_fs [of sys r l hdr sc] by (intro stays_pbind_fault) auto

lemma recv_v1_loop_stays:
  assumes c: "confines sys T Q R" and t: "T l" and r: "R h (y_fs (sc_y sc))"
  shows "stays (R h) (recv_v1_loop sys rp l h sc)"
proof -
  have "confines sys T Q R \<longrightarrow> T l \<longrightarrow> R h (y_fs (sc_y sc)) \<longrightarrow> stays (R h) (Some res)" if "recv_v1_loop sys rp l h sc = Some res" for res
    using that
  proof (rule recv_v1_loop.raw_induct [rotated], goal_cases)
    case (1 f sys rp l h sc res)
    obtain ok hdr sc1 where r1: "sc_read 8 sc = (ok, hdr, sc1)" by (metis prod_cases3)
    obtain ok2 bs sc2 where r2: "sc_read (unat (msg_size hdr)) sc1 = (ok2, bs, sc2)" by (metis prod_cases3)
    show ?case
    proof (intro impI)
      assume i: "confines sys T Q R" "T l" "R h (y_fs (sc_y sc))"
      have rec: "stays (R h) (f sys rp l h sc')" if "R h (y_fs (sc_y sc'))" for sc'
        by (rule stays_rec) (simp add: 1(1) i(1,2) that)
      have u: "R h (snd (sys_unlink sys l (y_fs (sc_y sc))))" using confinesD(3) [OF i] .
      have fs: "y_fs (sc_y sc1) = y_fs (sc_y sc)" "y_fs (sc_y sc2) = y_fs (sc_y sc)" using sc_read_fs [OF r1] sc_read_fs [OF r2] by simp_all
      have "stays (R h) (pbind (write_local sys l h bs sc2) (\<lambda>(ok3, sc3).
          if \<not> ok3 then pret (False, sc3) else f sys rp l h (RecordBytesTransferred (unat (msg_size hdr)) sc3)))"
        by (rule stays_pbind [OF write_local_stays [OF i(1,2)]]) (simp_all add: fs i(3) rec)
      moreover have "stays (R h) (pbind (ReportCopyFailure sys rp l hdr (sc_unlink sys l sc1)) (\<lambda>sc2. pret (False, sc2)))"
        by (rule report_stays) (simp add: u fs)
      moreover have "stays (R h) (pret (False, sc_unlink sys l sc1))" "stays (R h) (pret (False, sc_unlink sys l sc2))"
          "stays (R h) (pret (True, RecordFilesTransferred 1 sc1))" "stays (R h) (pret (False, too_large sys l hdr sc1))"
        using u fs i(3) by (simp_all add: too_large_def)
      ultimately show "stays (R h) (Some res)" unfolding 1(2) [symmetric] r1 r2 prod.case by (intro stays_if)
    qed
  qed
  note all = this
  show ?thesis by (rule stays_rec) (simp add: all assms)
qed


lemma local_drain_stays:
  assumes c: "confines sys T Q R" and t: "T l" and r: "R h (y_fs (sc_y sc))"
  shows "stays (R h) (local_drain sys C ct l h d sc)"
proof -
  have "confines sys T Q R \<longrightarrow> T l \<longrightarrow> R h (y_fs (sc_y sc)) \<longrightarrow> stays (R h) (Some res)" if "local_drain sys C ct l h d sc = Some res" for res
    using that
  proof (rule local_drain.raw_induct [rotated], goal_cases)
    case (1 f sys C ct l h d sc res)
    show ?case
    proof (intro impI)
      assume i: "confines sys T Q R" "T l" "R h (y_fs (sc_y sc))"
      have rec: "stays (R h) (f sys C ct l h d' sc')" if "R h (y_fs (sc_y sc'))" for d' sc'
        by (rule stays_rec) (simp add: 1(1) i(1,2) that)
      have w: "stays (R h) (if out = [] then pret (True, sc) else write_local sys l h out sc)" for out
        by (rule stays_if) (simp_all add: i(3) write_local_stays [OF i])
      show "stays (R h) (Some res)" unfolding 1(2) [symmetric]
        by (rule stays_pbind_fault) (auto simp: Let_def rec i(3) confinesD(3) [OF i(1,2)] intro!: stays_if stays_pbind [OF w])
    qed
  qed
  note all = this
  show ?thesis by (rule stays_rec) (simp add: all assms)
qed

lemma local_message_stays:
  assumes c: "confines sys T Q R" and t: "T l" and r: "R h (y_fs (sc_y sc))"
  shows "stays (R h) (local_message sys rp l d sc)"
proof -
  obtain ok hdr sc1 where r1: "sc_read 8 sc = (ok, hdr, sc1)" by (metis prod_cases3)
  obtain ok2 bs sc2 where r2: "sc_read (unat (msg_size hdr)) sc1 = (ok2, bs, sc2)" by (metis prod_cases3)
  have fs: "y_fs (sc_y sc1) = y_fs (sc_y sc)" "y_fs (sc_y sc2) = y_fs (sc_y sc)" using sc_read_fs [OF r1] sc_read_fs [OF r2] by simp_all
  have u: "R h (snd (sys_unlink sys l (y_fs (sc_y sc))))" using confinesD(3) [OF assms] .
  show ?thesis unfolding local_message_def r1 r2 prod.case
    by (intro stays_if report_stays stays_pbind_fault) (simp_all add: u fs r too_large_def)
qed

lemma recv_v2_loop_stays:
  assumes c: "confines sys T Q R" and t: "T l" and r: "R h (y_fs (sc_y sc))"
  shows "stays (R h) (recv_v2_loop sys C ct rp l h d sc)"
proof -
  have "confines sys T Q R \<longrightarrow> T l \<longrightarrow> R h (y_fs (sc_y sc)) \<longrightarrow> stays (R h) (Some res)" if "recv_v2_loop sys C ct rp l h d sc = Some res" for res
    using that
  proof (rule recv_v2_loop.raw_induct [rotated], goal_cases)
    case (1 f sys C ct rp l h d sc res)
    show ?case
    proof (intro impI)
      assume i: "confines sys T Q R" "T l" "R h (y_fs (sc_y sc))"
      have rec: "stays (R h) (f sys C ct rp l h d' sc')" if "R h (y_fs (sc_y sc'))" for d' sc'
        by (rule stays_rec) (simp add: 1(1) i(1,2) that)
      show "stays (R h) (Some res)" unfolding 1(2) [symmetric]
        by (rule stays_pbind [OF local_message_stays [OF i]])
          (auto simp: rec split: option.split drained.split intro!: stays_pbind [OF local_drain_stays [OF i(1,2)]])
    qed
  qed
  note all = this
  show ?thesis by (rule stays_rec) (simp add: all assms)
qed


lemma create_local_stays:
  assumes "confines sys T Q R" "T l" "Q (y_fs (sc_y sc))" "create_local sys l sc = (r, sc')"
  shows "case r of None \<Rightarrow> Q (y_fs (sc_y sc')) | Some h \<Rightarrow> R h (y_fs (sc_y sc'))"
proof -
  have q: "Q (snd (sys_unlink sys l (y_fs (sc_y sc))))" using confinesD(1) [OF assms(1-3)] .
  obtain o1 f where o: "sys_open sys Create_truncate l 420 (snd (sys_unlink sys l (y_fs (sc_y sc)))) = (o1, f)" by fastforce
  from confinesD(8) [OF assms(1,2) q o] show ?thesis
    using assms(4) o by (auto simp: create_local_def y_open_def split: sum.splits prod.splits)
qed

lemma requests_stay: "I (y_fs (sc_y sc)) \<Longrightarrow> stays I (SendRequest i p sc)" "I (y_fs (sc_y sc)) \<Longrightarrow> stays I (SendRecv2 p t sc)"
  unfolding SendRequest_def SendRecv2_def by (auto intro!: stays_if stays_pbind_fault sc_write_stays)

lemma received_stays:
  assumes c: "confines sys T Q R" "T l" "Q (y_fs (sc_y sc))" and recv: "\<And>h sc2. R h (y_fs (sc_y sc2)) \<Longrightarrow> stays (R h) (recv h sc2)"
  shows "stays Q (case create_local sys l sc of (None, sc2) \<Rightarrow> pret (False, sc2)
     | (Some h, sc2) \<Rightarrow> pbind (recv h sc2) (\<lambda>(ok2, sc3). pret (ok2, sc_close sys h sc3)))"
proof (cases "create_local sys l sc")
  case (Pair r sc2)
  with create_local_stays [OF c Pair] show ?thesis
    by (cases r) (auto simp: confinesD(4) [OF c(1)] intro!: stays_pbind [OF recv])
qed

lemma sync_recv_stays:
  assumes c: "confines sys T Q R" and t: "T l" and q: "Q (y_fs (sc_y sc))"
  shows "stays Q (sync_recv sys C r l ct sc)"
proof (cases "have_sendrecv_v2 sc")
  case False
  have "stays Q (if \<not> ok then pret (False, sc1) else case create_local sys l sc1 of (None, sc2) \<Rightarrow> pret (False, sc2)
     | (Some h, sc2) \<Rightarrow> pbind (recv_v1_loop sys r l h sc2) (\<lambda>(ok2, sc3). pret (ok2, sc_close sys h sc3)))" if "Q (y_fs (sc_y sc1))" for ok sc1
    using received_stays [OF c t that recv_v1_loop_stays [OF c t]] that by (intro stays_if) simp_all
  then show ?thesis using False unfolding sync_recv_def sync_recv_v1_def by (simp add: stays_pbind [OF requests_stay(1) [where I = Q and sc = sc, OF q]])
next
  case True
  have "stays Q (if \<not> ok then pret (False, sc1) else case create_local sys l sc1 of (None, sc2) \<Rightarrow> pret (False, sc2)
     | (Some h, sc2) \<Rightarrow> pbind (pbind (Some (make_decoder C SYNC_DATA_MAX ct')) (\<lambda>d. recv_v2_loop sys C ct' r l h d sc2)) (\<lambda>(ok2, sc3). pret (ok2, sc_close sys h sc3)))"
    if "Q (y_fs (sc_y sc1))" for ok ct' sc1
    using received_stays [OF c t that stays_pbind_fault [OF recv_v2_loop_stays [OF c t]]] that by (intro stays_if) simp_all
  note step = this [unfolded pbind_assoc]
  have "sync_recv sys C r l ct sc = sync_recv_v2 sys C r l ct sc" using True by (simp add: sync_recv_def)
  then show ?thesis unfolding sync_recv_v2_def Let_def
    by simp (rule stays_pbind [OF requests_stay(2) [where I = Q and sc = sc, OF q]], simp only: prod.case, rule step)
qed


subsection \<open>Pulling a directory\<close>

lemma mkdirs_keeps:
  assumes "mkdirs D is_dir mk p s = Some r" "\<And>s p. I s \<Longrightarrow> I (snd (mk s p))" "I s"
  shows "I (snd r)"
proof -
  have "(\<forall>s p. I s \<longrightarrow> I (snd (mk s p))) \<longrightarrow> I s \<longrightarrow> I (snd r)" using assms(1)
  proof (rule mkdirs.raw_induct [rotated], goal_cases)
    case (1 f D is_dir mk p s r)
    show ?case
    proof (intro impI)
      assume i: "\<forall>s p. I s \<longrightarrow> I (snd (mk s p))" "I s"
      show "I (snd r)"
      proof (cases "is_dir s p \<or> D p = p")
        case True
        then show ?thesis using 1(2) i(2) by (auto split: if_splits)
      next
        case False
        with 1(2) obtain r1 where r1: "f D is_dir mk (D p) s = Some r1" by (auto simp: bind_eq_Some_conv)
        then have "I (snd r1)" using 1(1) i by blast
        moreover have "I (snd (mk (snd r1) p))" using i(1) calculation by blast
        moreover obtain ok2 s2 where "mk (snd r1) p = (ok2, s2)" by fastforce
        moreover have "r = (False, snd r1) \<or> snd r = snd (mk (snd r1) p)" using 1(2) False r1 calculation(3) by (cases ok2; cases "fst r1"; cases r) simp_all
        ultimately show ?thesis by auto
      qed
    qed
  qed
  then show ?thesis using assms(2,3) by blast
qed

lemma make_local_dirs_stays:
  assumes c: "confines sys T Q R" and q: "Q (y_fs (sc_y sc))"
  shows "stays Q (map_option Inr (make_local_dirs sys p sc))"
proof (cases "make_local_dirs sys p sc")
  case (Some r)
  then obtain ok y where y: "r = (ok, sc\<lparr>sc_y := y\<rparr>)"
    "mkdirs (sys_dirname sys) (\<lambda>y p. case sys_stat sys p (y_fs y) of Inl _ \<Rightarrow> False | Inr st \<Rightarrow> S_ISDIR (st_mode st))
          (\<lambda>y p. y_try (sys_mkdir sys p 509) y) p (sc_y sc) = Some (ok, y)" by (auto simp: make_local_dirs_def)
  have "Q (y_fs (snd (ok, y)))" by (rule mkdirs_keeps [where I = "\<lambda>y. Q (y_fs y)", OF y(2)]) (simp_all add: q confinesD(5) [OF c])
  then show ?thesis using Some y(1) by simp
qed simp

lemma set_time_and_mode_fs:
  "confines sys T Q R \<Longrightarrow> T l \<Longrightarrow> Q (y_fs (sc_y sc)) \<Longrightarrow> Q (y_fs (sc_y (snd (set_time_and_mode sys l time mode sc))))"
  using confinesD(6,7) [where sys = sys and T = T and Q = Q and R = R and p = l] y_try_fs [of _ "sc_y sc"]
  by (auto simp: set_time_and_mode_def y_try_fs [unfolded snd_def] split: prod.splits)
    (metis snd_conv y_try_fs)

lemma pull_files_stays:
  assumes c: "confines sys (inside base) Q R"
  shows "list_all (pull_entry base) cis \<Longrightarrow> Q (y_fs (sc_y sc)) \<Longrightarrow> stays Q (pull_files sys C copy_attrs ct cis n sc)"
proof (induction cis arbitrary: n sc)
  case (Cons ci cis)
  have rec: "stays Q (pull_files sys C copy_attrs ct cis k sc')" if "Q (y_fs (sc_y sc'))" for k sc'
    using Cons.IH Cons.prems(1) that by simp
  show ?case
  proof (cases "ci_skip ci \<or> S_ISDIR (ci_mode ci)")
    case True
    then show ?thesis using Cons.prems(2)
      by (auto simp: rec intro!: stays_pbind [OF make_local_dirs_stays [OF c]])
  next
    case False
    then have i: "inside base (ci_lpath ci)" using Cons.prems(1) by (simp add: pull_entry_def)
    have a: "Q (y_fs (sc_y (snd (if copy_attrs then set_time_and_mode sys (ci_lpath ci) (ci_time ci) (ci_mode ci) sc1 else (True, sc1)))))"
      if "Q (y_fs (sc_y sc1))" for sc1 using set_time_and_mode_fs [OF c i that] that by simp
    have "stays Q (case (if copy_attrs then set_time_and_mode sys (ci_lpath ci) (ci_time ci) (ci_mode ci) sc1 else (True, sc1)) of
        (ok2, sc2) \<Rightarrow> if \<not> ok2 then pret (None, sc2) else pull_files sys C copy_attrs ct cis n sc2)" if "Q (y_fs (sc_y sc1))" for sc1
      using a [OF that] rec by (cases "if copy_attrs then set_time_and_mode sys (ci_lpath ci) (ci_time ci) (ci_mode ci) sc1 else (True, sc1)") simp
    then show ?thesis using False by (auto intro!: stays_pbind [OF sync_recv_stays [OF c i Cons.prems(2)]] stays_if)
  qed
qed simp


lemma FinishLsImpl_fs:
  assumes "FinishLsImpl v2 seen sc = Some r"
  shows "y_fs (sc_y (snd (snd r))) = y_fs (sc_y sc)"
  using assms
proof (rule FinishLsImpl.raw_induct [rotated], goal_cases)
  case (1 f v2 seen sc r)
  obtain ok dent sc1 where r1: "sc_read (dent_size v2) sc = (ok, dent, sc1)" by (metis prod_cases3)
  obtain ok2 buf sc2 where r2: "sc_read (unat (dent_namelen v2 dent)) sc1 = (ok2, buf, sc2)" by (metis prod_cases3)
  have fs: "y_fs (sc_y sc1) = y_fs (sc_y sc)" "y_fs (sc_y sc2) = y_fs (sc_y sc)" using sc_read_fs [OF r1] sc_read_fs [OF r2] by simp_all
  from 1(2) r1 r2 have "snd (snd r) \<in> {sc1, sc2} \<or> f v2 (seen @ [dent_entry v2 dent (c_name buf)]) sc2 = Some r" by (auto split: if_splits)
  then show ?case using 1(1) [of v2 "seen @ [dent_entry v2 dent (c_name buf)]" sc2 r] fs by auto
qed

lemma SendRequest_fs: "SendRequest i p sc = Some (Inr (ok, sc')) \<Longrightarrow> y_fs (sc_y sc') = y_fs (sc_y sc)"
  using requests_stay(1) [where I = "\<lambda>f. f = y_fs (sc_y sc)" and sc = sc and i = i and p = p] by simp

lemma sync_ls_fs: "sync_ls p sc = Some (Inr (ok, es, sc')) \<Longrightarrow> y_fs (sc_y sc') = y_fs (sc_y sc)"
  by (auto simp: sync_ls_def SendLs_def FinishLs_def pbind_eq_Inr dest!: SendRequest_fs FinishLsImpl_fs split: if_splits)

lemma FinishStat_fs: "FinishStat number sc = Some (Inr (r, sc')) \<Longrightarrow> y_fs (sc_y sc') = y_fs (sc_y sc)"
  by (auto simp: FinishStat_def Let_def dest: sc_read_fs split: if_splits prod.splits)

lemma sync_stat_fs: "sync_stat number p sc = Some (Inr (r, sc')) \<Longrightarrow> y_fs (sc_y sc') = y_fs (sc_y sc)" "sync_lstat number p sc = Some (Inr (r, sc')) \<Longrightarrow> y_fs (sc_y sc') = y_fs (sc_y sc)"
  by (auto simp: sync_stat_def SendStat_def sync_lstat_def SendLstat_def pbind_eq_Inr dest!: SendRequest_fs FinishStat_fs split: if_splits)

lemma sync_stat_fallback_fs: "sync_stat_fallback number p sc = Some (Inr (r, sc')) \<Longrightarrow> y_fs (sc_y sc') = y_fs (sc_y sc)"
  by (auto simp: sync_stat_fallback_def pbind_eq_Inr dest!: sync_stat_fs split: if_splits option.splits)

lemma remote_scan_fs: "remote_scan l r es dirs links files sc = (dirs', links', files', sc') \<Longrightarrow> y_fs (sc_y sc') = y_fs (sc_y sc)"
  by (induction l r es dirs links files sc rule: remote_scan.induct) (auto simp: Let_def special_file_def Warning_def split: if_splits)

lemma resolve_links_fs: "resolve_links sys number links dirs files sc = Some (Inr (dirs', files', sc')) \<Longrightarrow> y_fs (sc_y sc') = y_fs (sc_y sc)"
proof (induction links arbitrary: dirs files sc)
  case (Cons ci links)
  then show ?case by (auto simp: pbind_eq_Inr Warning_def dest!: sync_stat_fallback_fs split: option.splits if_splits)
qed simp


lemma remote_visit_fs:
  assumes "remote_visit sys number todo files sc = Some res" "res = Inr y"
  shows "y_fs (sc_y (snd (snd y))) = y_fs (sc_y sc)"
proof -
  have "\<forall>y. res = Inr y \<longrightarrow> y_fs (sc_y (snd (snd y))) = y_fs (sc_y sc)" using assms(1)
  proof (rule remote_visit.raw_induct [rotated], goal_cases)
    case (1 f sys number todo files sc res)
    show ?case
    proof (cases todo)
      case Nil
      then show ?thesis using 1(2) by (auto simp: pret_def)
    next
      case (Cons rl todo')
      obtain rp lp where rl: "rl = (rp, lp)" by fastforce
      let ?files = "files @ [new_copyinfo (sys_dirname sys lp) (sys_dirname sys rp) (sys_basename sys lp) 0x4000]"
      show ?thesis
      proof (intro allI impI)
        fix y assume y: "res = Inr y"
        from 1(2) Cons rl y obtain ok es sc1 where ls: "sync_ls rp sc = Some (Inr (ok, es, sc1))" by (auto simp: pbind_eq_Inr)
        obtain dirs links files1 sc2 where s: "remote_scan lp rp es [] [] ?files sc1 = (dirs, links, files1, sc2)" by (metis prod_cases4)
        note fs = remote_scan_fs [OF s] sync_ls_fs [OF ls]
        show "y_fs (sc_y (snd (snd y))) = y_fs (sc_y sc)"
        proof (cases ok)
          case False
          then show ?thesis using 1(2) Cons rl y ls s fs by (auto simp: pret_def)
        next
          case True
          with 1(2) Cons rl y ls s obtain dirs1 files2 sc3 where r: "resolve_links sys number links dirs files1 sc2 = Some (Inr (dirs1, files2, sc3))"
            "f sys number (map (\<lambda>ci. (ci_rpath ci, ci_lpath ci)) (rev dirs1) @ todo') files2 sc3 = Some res" by (auto simp: pbind_eq_Inr)
          then show ?thesis using 1(1) [OF r(2)] resolve_links_fs [OF r(1)] fs y by auto
        qed
      qed
    qed
  qed
  then show ?thesis using assms(2) by simp
qed

lemma NewTransfer_fs [simp]: "y_fs (sc_y (NewTransfer sc)) = y_fs (sc_y sc)" "y_fs (sc_y (RecordFilesSkipped n sc)) = y_fs (sc_y sc)"
    "y_fs (sc_y (special_file p m sc)) = y_fs (sc_y sc)"
  by (simp_all add: NewTransfer_def RecordFilesSkipped_def special_file_def Warning_def)

lemma copy_remote_dir_local_stays:
  assumes c: "confines sys (inside (with_separator l)) Q R" and q: "Q (y_fs (sc_y sc))"
  shows "stays Q (copy_remote_dir_local sys C number r l copy_attrs ct sc)"
proof -
  have "stays Q (if \<not> ok then pret (False, sc1)
         else pbind (pull_files sys C copy_attrs ct files 0 sc1) (\<lambda>(r, sc2).
           case r of None \<Rightarrow> pret (False, sc2) | Some skipped \<Rightarrow> pret (True, RecordFilesSkipped skipped sc2)))"
    if "remote_build_list sys number (with_separator r) (with_separator l) (NewTransfer sc) = Some (Inr (ok, files, sc1))" for ok files sc1
  proof -
    have v: "remote_visit sys number [(with_separator r, with_separator l)] [] (NewTransfer sc) = Some (Inr (ok, files, sc1))" using that by (simp add: remote_build_list_def)
    have "Q (y_fs (sc_y sc1))" using remote_visit_fs [OF v refl] q by simp
    moreover have "list_all (pull_entry (with_separator l)) files"
      using remote_visit_inside [OF v _ _ refl, of "with_separator l"] by (simp add: inside_base)
    ultimately show ?thesis by (auto intro!: stays_pbind [OF pull_files_stays [OF c]] split: option.split)
  qed
  then show ?thesis unfolding copy_remote_dir_local_def ensure_trailing_separators_def Let_def prod.case by (intro stays_pbind_fault) auto
qed

subsection \<open>The command\<close>

text \<open>The paths that \<open>adb pull\<close> of these sources to this destination may write.\<close>

definition pull_target :: "'f sys \<Rightarrow> string list \<Rightarrow> string \<Rightarrow> string \<Rightarrow> bool" where
  "pull_target sys srcs dst p \<longleftrightarrow>
     p = dst \<or> inside (with_separator dst) p
     \<or> (\<exists>s \<in> set srcs. p = dst @ ''/'' @ sys_basename sys s \<or> inside (with_separator (with_separator dst @ sys_basename sys s)) p)"

lemma confines_mono: "confines sys T Q R \<Longrightarrow> (\<And>p. T' p \<Longrightarrow> T p) \<Longrightarrow> confines sys T' Q R"
  unfolding confines_def by meson

lemma pull_target_mono: "pull_target sys ss dst p \<Longrightarrow> pull_target sys (s # ss) dst p"
  by (auto simp: pull_target_def)

lemma pull_sources_stays:
  "confines sys (pull_target sys srcs dst) Q R \<Longrightarrow> Q (y_fs (sc_y sc)) \<Longrightarrow> stays Q (pull_sources sys C number srcs dst dst_exists dst_isdir copy_attrs ct success sc)"
proof (induction srcs arbitrary: success sc)
  case (Cons src srcs)
  have rec: "stays Q (pull_sources sys C number srcs dst dst_exists dst_isdir copy_attrs ct success' sc')" if "Q (y_fs (sc_y sc'))" for success' sc'
    using Cons.IH [OF confines_mono [OF Cons.prems(1) pull_target_mono]] that by blast
  let ?dst_path = "if dst_isdir then dst @ ''/'' @ sys_basename sys src else dst"
  let ?dst_dir = "if dst_exists then with_separator dst @ sys_basename sys src else dst"
  have t: "pull_target sys (src # srcs) dst ?dst_path" by (simp add: pull_target_def)
  have d: "confines sys (inside (with_separator ?dst_dir)) Q R" by (rule confines_mono [OF Cons.prems(1)]) (auto simp: pull_target_def split: if_splits)
  have attrs: "stays Q (case (if copy_attrs then set_time_and_mode sys ?dst_path time mode sc1 else (True, sc1)) of
      (ok2, sc3) \<Rightarrow> pull_sources sys C number srcs dst dst_exists dst_isdir copy_attrs ct (success \<and> ok2) sc3)" if "Q (y_fs (sc_y sc1))" for time mode sc1
    using set_time_and_mode_fs [OF Cons.prems(1) t that, of time mode] that rec
    by (cases "if copy_attrs then set_time_and_mode sys ?dst_path time mode sc1 else (True, sc1)") (auto split: if_splits)
  show ?case unfolding pull_sources.simps Let_def
  proof (rule stays_pbind_fault, goal_cases)
    case (1 x)
    obtain r sc1 where r: "x = (r, sc1)" by fastforce
    have q1: "Q (y_fs (sc_y sc1))" using sync_stat_fallback_fs [OF 1 [unfolded r]] Cons.prems(2) by simp
    have "stays Q (pbind (copy_remote_dir_local sys C number src ?dst_dir copy_attrs ct sc1)
        (\<lambda>(ok, sc2). pull_sources sys C number srcs dst dst_exists dst_isdir copy_attrs ct (success \<and> ok) sc2))"
      by (rule stays_pbind [OF copy_remote_dir_local_stays [OF d q1]]) (simp add: rec)
    moreover have "stays Q (pbind (sync_recv sys C src ?dst_path ct (NewTransfer sc1)) (\<lambda>(ok, sc2).
        if \<not> ok then pull_sources sys C number srcs dst dst_exists dst_isdir copy_attrs ct (success \<and> False) sc2
        else case (if copy_attrs then set_time_and_mode sys ?dst_path (st_mtime st) (st_mode st) sc2 else (True, sc2)) of
          (ok2, sc3) \<Rightarrow> pull_sources sys C number srcs dst dst_exists dst_isdir copy_attrs ct (success \<and> ok2) sc3))" for st
      by (rule stays_pbind [OF sync_recv_stays [OF Cons.prems(1) t]]) (simp_all only: prod.case NewTransfer_fs q1, intro stays_if rec attrs)
    moreover have "stays Q (pull_sources sys C number srcs dst dst_exists dst_isdir copy_attrs ct b (special_file src m sc1))"
        "stays Q (pull_sources sys C number srcs dst dst_exists dst_isdir copy_attrs ct b (Error s sc1))" "stays Q (pret (b, Error s sc1))" for b m s
      using q1 by (simp_all add: rec)
    ultimately show ?case unfolding r prod.case by (cases r) (simp_all only: option.case, intro stays_if)
  qed
qed simp


lemma with_connection_stays:
  fixes body :: "(bool \<times> 'f SyncConnection) prog"
  shows "stays Q body \<Longrightarrow> stays Q (with_connection body)"
  unfolding with_connection_def
proof (rule stays_pbind, assumption)
  fix x and sc :: "'f SyncConnection" assume q: "Q (y_fs (sc_y sc))"
  have "runs UNIV (\<lambda>sc'. Q (y_fs (sc_y sc'))) (close_SyncConnection sc)"
  proof -
    have "stays Q (SendQuit sc)" using requests_stay(1) [where I = Q and sc = sc, OF q] by (simp add: SendQuit_def)
    then show ?thesis unfolding close_SyncConnection_def
      by (auto simp: stays_def pbind_def split: option.split sum.split prod.split)
  qed
  then show "stays Q (case (x, sc) of (ok, sc) \<Rightarrow> pbind (close_SyncConnection sc) (\<lambda>sc'. pret (ok, sc')))"
    by (auto simp: stays_def pbind_def split: option.split sum.split)
qed

lemma do_sync_pull_stays:
  assumes c: "confines sys (pull_target sys srcs dst) Q R" and q: "Q (y_fs (sc_y sc))"
  shows "stays Q (do_sync_pull sys C number srcs dst copy_attrs ct sc)"
proof -
  have "stays Q (pbind (if \<not> isdir then Some (check_destination srcs dst ex sc) else pret (True, sc)) (\<lambda>(ok, sc1).
      if \<not> ok then pret (False, sc1) else pull_sources sys C number srcs dst ex isdir copy_attrs ct True sc1))" for isdir ex
  proof (rule stays_pbind [of Q])
    show "stays Q (if \<not> isdir then Some (check_destination srcs dst ex sc) else pret (True, sc))"
      using q by (auto simp: check_destination_def rbind_def split: sum.split)
  qed (auto intro!: stays_if pull_sources_stays [OF c])
  note body = this
  have "stays Q (case r of Some m \<Rightarrow> pret (False, Error m sc) | None \<Rightarrow> b)" if "stays Q b" for r b
    using q that by (cases r) simp_all
  then show ?thesis unfolding do_sync_pull_def Let_def by (rule with_connection_stays) (rule body)
qed

end
