(* ===== verification/File_Sync_Properties.thy ===== *)
theory File_Sync_Properties
  imports File_Sync_Confined
begin

text \<open>
  The properties of file transfer, with a small file system on which they are tried.
\<close>

subsection \<open>A file system\<close>

record ref_fs =
  rf_files :: "string \<Rightarrow> bytes option"
  rf_open :: "nat \<Rightarrow> (string \<times> nat) option"
  rf_fixed :: bool

text \<open>\<open>rf_fixed\<close> is a directory whose entries cannot be removed.\<close>

definition ref_stat :: "string \<Rightarrow> ref_fs \<Rightarrow> nat + stat_t" where
  "ref_stat p f = (case rf_files f p of None \<Rightarrow> Inl ENOENT | Some c \<Rightarrow> Inr (zero_stat\<lparr>st_mode := 0x81A4, st_size := of_nat (length c)\<rparr>))"

definition ref_opened :: "string \<Rightarrow> ref_fs \<Rightarrow> (nat + nat) \<times> ref_fs" where
  "ref_opened p f = (Inr 3, f\<lparr>rf_open := (rf_open f)(3 \<mapsto> (p, 0))\<rparr>)"

definition ref_do_open :: "open_flags \<Rightarrow> string \<Rightarrow> u32 \<Rightarrow> ref_fs \<Rightarrow> (nat + nat) \<times> ref_fs" where
  "ref_do_open fl p m f =
     (let fresh = ref_opened p (f\<lparr>rf_files := (rf_files f)(p \<mapsto> [])\<rparr>)
      in case fl of
           Create_exclusive \<Rightarrow> if rf_files f p \<noteq> None then (Inl EEXIST, f) else fresh
         | Create_truncate \<Rightarrow> fresh
         | _ \<Rightarrow> if rf_files f p = None then (Inl ENOENT, f) else ref_opened p f)"

definition ref_write :: "nat \<Rightarrow> bytes \<Rightarrow> ref_fs \<Rightarrow> (nat + nat) \<times> ref_fs" where
  "ref_write h bs f =
     (case rf_open f h of
        None \<Rightarrow> (Inl 9, f)
      | Some (p, pos) \<Rightarrow>
          (Inr (length bs), f\<lparr>rf_files := (rf_files f)(p := map_option (\<lambda>c. overwrite c pos bs) (rf_files f p)),
             rf_open := (rf_open f)(h \<mapsto> (p, pos + length bs))\<rparr>))"

definition ref_read :: "nat \<Rightarrow> nat \<Rightarrow> ref_fs \<Rightarrow> (nat + bytes) \<times> ref_fs" where
  "ref_read h n f =
     (case rf_open f h of
        None \<Rightarrow> (Inl 9, f)
      | Some (p, pos) \<Rightarrow>
          (case rf_files f p of
             None \<Rightarrow> (Inl 9, f)
           | Some c \<Rightarrow> let bs = take n (drop pos c) in (Inr bs, f\<lparr>rf_open := (rf_open f)(h \<mapsto> (p, pos + length bs))\<rparr>)))"

definition ref_unlink :: "string \<Rightarrow> ref_fs \<Rightarrow> nat option \<times> ref_fs" where
  "ref_unlink p f =
     (if rf_files f p = None then (Some ENOENT, f) else if rf_fixed f then (Some 1, f) else (None, f\<lparr>rf_files := (rf_files f)(p := None)\<rparr>))"

definition ref_sys :: "ref_fs sys" where
  "ref_sys = \<lparr>sys_lstat = ref_stat, sys_stat = ref_stat, sys_dir = (\<lambda>_ _. Inl ENOENT), sys_mkdir = (\<lambda>_ _ f. (None, f)), sys_chown = (\<lambda>_ _ _ f. (None, f)),
     sys_restorecon = (\<lambda>_ f. f), sys_removexattr = (\<lambda>_ f. f), sys_setxattr = (\<lambda>_ _ f. (None, f)), sys_fs_config = (\<lambda>_ _ c. c), sys_open = ref_do_open,
     sys_fchown = (\<lambda>_ _ _ f. (None, f)), sys_fchmod = (\<lambda>_ _ f. f), sys_write = ref_write, sys_read = ref_read, sys_close = (\<lambda>h f. f\<lparr>rf_open := (rf_open f)(h := None)\<rparr>),
     sys_unlink = ref_unlink, sys_symlink = (\<lambda>_ _ f. (Some 1, f)), sys_readlink = (\<lambda>_ _. Inl ENOENT), sys_realpath = (\<lambda>p _. Inr p), sys_lutimes = (\<lambda>_ _ f. f),
     sys_slurp = (\<lambda>p f. case rf_files f p of None \<Rightarrow> Inl ENOENT | Some c \<Rightarrow> Inr c), sys_utime = (\<lambda>_ _ f. (None, f)), sys_chmod = (\<lambda>_ _ f. (None, f)), sys_umask = 0,
     sys_dirname = (\<lambda>p. ''/''), sys_basename = (\<lambda>p. p), sys_strerror = (\<lambda>_. ''error''), sys_api_old = False, sys_base = libbase_ref\<rparr>"

definition ref_content :: "string \<Rightarrow> ref_fs \<Rightarrow> bytes option" where "ref_content p f = rf_files f p"
definition ref_handle :: "nat \<Rightarrow> ref_fs \<Rightarrow> (string \<times> nat) option" where "ref_handle h f = rf_open f h"

lemma ref_fs_ok: "fs_ok ref_sys ref_content ref_handle"
proof -
  have "fs_open_ok ref_sys ref_content ref_handle"
    by (auto simp: fs_open_ok_def ref_sys_def ref_do_open_def ref_opened_def ref_content_def ref_handle_def Let_def split: open_flags.splits if_splits)
  moreover have "fs_write_ok ref_sys ref_content ref_handle"
    by (auto simp: fs_write_ok_def ref_sys_def ref_write_def ref_content_def ref_handle_def)
  moreover have "fs_read_ok ref_sys ref_content ref_handle"
    by (auto simp: fs_read_ok_def ref_sys_def ref_read_def ref_content_def ref_handle_def Let_def min_def)
  moreover have "fs_meta_ok ref_sys ref_content ref_handle"
    by (auto simp: fs_meta_ok_def keeps_def ref_sys_def ref_unlink_def ref_content_def ref_handle_def split: option.splits if_splits)
  ultimately show ?thesis by (simp add: fs_ok_def ref_sys_def)
qed

text \<open>A peer that takes a byte at a time, and two ends of a connection.\<close>

lemma willing_replicate: "n \<le> m \<Longrightarrow> fd_wr (y_sock y) = replicate m (Accept 1) \<Longrightarrow> willing n y"
proof -
  have "transient (replicate m (Accept 1)) \<and> grants (replicate m (Accept 1)) = m" by (induction m) simp_all
  then show "n \<le> m \<Longrightarrow> fd_wr (y_sock y) = replicate m (Accept 1) \<Longrightarrow> willing n y" by (simp add: willing_def)
qed

definition example_end :: "bytes \<Rightarrow> bool \<Rightarrow> (string \<times> bytes) list \<Rightarrow> ref_fs sync" where
  "example_end input fixed files =
     \<lparr>y_sock = \<lparr>fd_in = (if input = [] then [] else [Data input]), fd_wr = replicate 9000 (Accept 1), fd_out = [], fd_errno = 0, fd_shut = False\<rparr>,
      y_fs = \<lparr>rf_files = map_of files, rf_open = (\<lambda>_. None), rf_fixed = fixed\<rparr>, y_buffer = []\<rparr>"

definition example_client :: "bytes \<Rightarrow> (string \<times> bytes) list \<Rightarrow> ref_fs SyncConnection" where
  "example_client input files = new_SyncConnection (\<lambda>f. f = ''sendrecv_v2'' \<or> f = ''stat_v2'') (example_end input False files) [False]"

lemma example_simps [simp]:
  "y_fs (example_end i x fs) = \<lparr>rf_files = map_of fs, rf_open = (\<lambda>_. None), rf_fixed = x\<rparr>" "pending (example_end i x fs) i" "answered (example_end i x fs) = []"
  "sc_y (example_client i fs) = example_end i False fs" "have_sendrecv_v2 (example_client i fs)" "idle (example_client i fs)"
  "t \<noteq> CT_Any \<Longrightarrow> ResolveCompressionType (example_client i fs) t = t"
  by (simp_all add: example_end_def example_client_def new_SyncConnection_def pending_def answered_def idle_def ResolveCompressionType_def)

lemma example_willing [simp]: "n \<le> 9000 \<Longrightarrow> willing n (example_end i x fs)"
  by (rule willing_replicate [of n 9000]) (simp_all add: example_end_def)

subsection \<open>Transfers\<close>



text \<open>
  C6: a pull from end to end. The device that reads the request of \<open>sync_recv\<close> returns from its command, and a
  client with the same features that reads the answer returns; it has sent just that request and holds the
  device's file when it returns true, which it does only if the device answered with DONE, and it has printed an
  error when it returns false.
\<close>

theorem pull_roundtrip:
  assumes host: "fs_ok hsys hcontent hhandle" and device: "fs_ok dsys dcontent dhandle"
    and remote: "CHR 0x00 \<notin> set r" "length r \<le> 1024"
    and ready: "willing (pull_room (dcontent r (y_fs y))) y" "pending y ((if v2 then pull_v2 r 0 else pull_v1 r) @ rest)"
  shows "\<exists>ok y'. handle_sync_command dsys dfresh D y = pret (ok, y') \<and>
    (\<forall>sc more. have_sendrecv_v2 sc = v2 \<longrightarrow> ResolveCompressionType sc t = CT_None
       \<longrightarrow> willing (length (pull_request sc r)) (sc_y sc) \<longrightarrow> pending (sc_y sc) (drop (length (answered y)) (answered y') @ more) \<longrightarrow>
       (\<exists>okc sc'. sync_recv hsys C r l t sc = pret (okc, sc') \<and>
         (if okc then ok \<and> hcontent l (y_fs (sc_y sc')) = dcontent r (y_fs y) \<and> dcontent r (y_fs y) \<noteq> None
            \<and> pending (sc_y sc') more \<and> answered (sc_y sc') = answered (sc_y sc) @ pull_request sc r
          else complained sc sc')))"
proof -
  have "\<exists>ok y'. handle_sync_command dsys dfresh D y = pret (ok, y') \<and> pulled dcontent r rest y ok y'"
    using pull_v1_ok [OF device ready(1) remote] pull_v2_ok [OF device ready(1) remote] ready(2) by (cases v2) simp_all
  then obtain ok y' c out where 1: "handle_sync_command dsys dfresh D y = pret (ok, y')" "answered y' = answered y @ out" "pull_answer c ok out"
    "ok \<longrightarrow> dcontent r (y_fs y) = Some c" by (auto simp: pulled_def)
  have "\<exists>okc sc'. sync_recv hsys C r l t sc = pret (okc, sc') \<and>
         (if okc then ok \<and> hcontent l (y_fs (sc_y sc')) = dcontent r (y_fs y) \<and> dcontent r (y_fs y) \<noteq> None
            \<and> pending (sc_y sc') more \<and> answered (sc_y sc') = answered (sc_y sc) @ pull_request sc r
          else complained sc sc')"
    if "ResolveCompressionType sc t = CT_None" "willing (length (pull_request sc r)) (sc_y sc)" "pending (sc_y sc) (drop (length (answered y)) (answered y') @ more)" for sc more
  proof -
    have "pending (sc_y sc) (out @ more)" using that(3) 1(2) by simp
    from sync_recv_ok [OF host that(1) remote(2) that(2) 1(3) this, of C l] obtain okc sc' where
      "sync_recv hsys C r l t sc = pret (okc, sc')" "if okc then ok \<and> hcontent l (y_fs (sc_y sc')) = Some c \<and> pending (sc_y sc') more
         \<and> answered (sc_y sc') = answered (sc_y sc) @ pull_request sc r else complained sc sc'" by blast
    then show ?thesis using 1(4) by (intro exI [of _ okc] exI [of _ sc']) (simp split: if_splits)
  qed
  with 1(1) show ?thesis by (intro exI [of _ ok] exI [of _ y']) simp
qed


theorem pull_roundtrip_witness:
  "\<exists>ok y'. handle_sync_command ref_sys (\<lambda>_. CHR ''x'') (undefined :: unit codecs) (example_end (pull_v2 ''/r'' 0 @ []) False [(''/r'', ''hello'')]) = pret (ok, y') \<and>
    (\<forall>sc more. have_sendrecv_v2 sc = True \<longrightarrow> ResolveCompressionType sc CT_None = CT_None
       \<longrightarrow> willing (length (pull_request sc ''/r'')) (sc_y sc) \<longrightarrow> pending (sc_y sc) (drop (length (answered (example_end (pull_v2 ''/r'' 0 @ []) False [(''/r'', ''hello'')]))) (answered y') @ more) \<longrightarrow>
       (\<exists>okc sc'. sync_recv ref_sys (undefined :: unit codecs) ''/r'' ''/l'' CT_None sc = pret (okc, sc') \<and>
         (if okc then ok \<and> ref_content ''/l'' (y_fs (sc_y sc')) = ref_content ''/r'' (y_fs (example_end (pull_v2 ''/r'' 0 @ []) False [(''/r'', ''hello'')]))
            \<and> ref_content ''/r'' (y_fs (example_end (pull_v2 ''/r'' 0 @ []) False [(''/r'', ''hello'')])) \<noteq> None
            \<and> pending (sc_y sc') more \<and> answered (sc_y sc') = answered (sc_y sc) @ pull_request sc ''/r''
          else complained sc sc')))"
proof -
  let ?y = "example_end (pull_v2 ''/r'' 0 @ []) False [(''/r'', ''hello'')]"
  have "pull_room (ref_content ''/r'' (y_fs ?y)) \<le> 9000" by (simp add: pull_room_def ref_content_def)
  then have w: "willing (pull_room (ref_content ''/r'' (y_fs ?y))) ?y" by simp
  have p: "pending ?y ((if True then pull_v2 ''/r'' 0 else pull_v1 ''/r'') @ [])" by simp
  show ?thesis by (rule pull_roundtrip [OF ref_fs_ok ref_fs_ok _ _ w p]) simp_all
qed



text \<open>The file \<open>/etc/passwd\<close> survives a pull to \<open>/tmp/d\<close> from any device.\<close>

definition ref_keeps :: "(string \<Rightarrow> bool) \<Rightarrow> ref_fs \<Rightarrow> ref_fs \<Rightarrow> bool" where
  "ref_keeps T f0 f \<longleftrightarrow> (\<forall>p. \<not> T p \<longrightarrow> rf_files f p = rf_files f0 p)"

lemma ref_confines: "confines ref_sys T (ref_keeps T f0) (\<lambda>h f. ref_keeps T f0 f \<and> (\<forall>p n. rf_open f h = Some (p, n) \<longrightarrow> T p))"
  unfolding confines_def ref_sys_def
  by (auto simp: ref_keeps_def ref_unlink_def ref_do_open_def ref_opened_def ref_write_def Let_def split: option.split)


text \<open>
  C22: a list from end to end. The device answers a request to list a directory and is ready for the next request,
  and the client sees the entries of the directory in order: with version 2 one for each name, with what \<open>lstat\<close> says
  of it or zeros, and with version 1 one for each name that \<open>lstat\<close> knows, with 32 bits of its size and time. It sees
  an empty list if the directory cannot be read.
\<close>

theorem ls_roundtrip:
  assumes "pending y (list_request v2 p @ rest)" "length p \<le> 1024" "CHR 0x00 \<notin> set p" "willing (length (list_answer sys v2 p (y_fs y))) y"
    and names: "case sys_dir sys p (y_fs y) of Inl _ \<Rightarrow> True | Inr ds \<Rightarrow> list_all listable ds"
  shows "\<exists>y'. handle_sync_command sys fresh C y = pret (True, y') \<and> pending y' rest \<and>
    (\<forall>sc more. have_ls_v2 sc = v2 \<longrightarrow> willing (length (list_request v2 p)) (sc_y sc) \<longrightarrow> pending (sc_y sc) (drop (length (answered y)) (answered y') @ more) \<longrightarrow>
       (\<exists>sc'. sync_ls p sc = pret (True, listed sys v2 p (y_fs y), sc') \<and> pending (sc_y sc') more \<and> answered (sc_y sc') = answered (sc_y sc) @ list_request v2 p))"
proof -
  from list_command [OF assms(1-4), of fresh C] obtain y' where "handle_sync_command sys fresh C y = pret (True, y')"
    "answered y' = answered y @ list_answer sys v2 p (y_fs y)" "pending y' rest" by blast
  then show ?thesis using sync_ls_ok [OF _ assms(2) _ _ names] by (intro exI [of _ y']) auto
qed

definition example_dir :: "ref_fs sys" where "example_dir = ref_sys\<lparr>sys_dir := \<lambda>_ _. Inr [''a'', ''b'']\<rparr>"

theorem ls_roundtrip_witness:
  "\<exists>y'. handle_sync_command example_dir (\<lambda>_. CHR ''x'') (undefined :: unit codecs) (example_end (list_request True ''/d'' @ []) False [(''/d/a'', ''hello'')]) = pret (True, y')
    \<and> pending y' [] \<and>
    (\<forall>sc more. have_ls_v2 sc = True \<longrightarrow> willing (length (list_request True ''/d'')) (sc_y sc)
       \<longrightarrow> pending (sc_y sc) (drop (length (answered (example_end (list_request True ''/d'' @ []) False [(''/d/a'', ''hello'')]))) (answered y') @ more) \<longrightarrow>
       (\<exists>sc'. sync_ls ''/d'' sc = pret (True, listed example_dir True ''/d'' (y_fs (example_end (list_request True ''/d'' @ []) False [(''/d/a'', ''hello'')])), sc')
          \<and> pending (sc_y sc') more \<and> answered (sc_y sc') = answered (sc_y sc) @ list_request True ''/d''))"
proof -
  let ?y = "example_end (list_request True ''/d'' @ []) False [(''/d/a'', ''hello'')]"
  have "length (list_answer example_dir True ''/d'' (y_fs ?y)) \<le> 9000"
    by (simp add: list_answer_def example_dir_def dent_of_def dent_size_def split: sum.split)
  then have w: "willing (length (list_answer example_dir True ''/d'' (y_fs ?y))) ?y" by simp
  show ?thesis by (rule ls_roundtrip [OF _ _ _ w]) (simp_all add: example_dir_def listable_def)
qed


text \<open>
  C23: the state of a file from end to end. The device answers \<open>STAT\<close> of version 2 and is ready for the next request,
  and the client has every member of the \<open>stat\<close> of the device, or fails with the error number of the device after it
  went to the wire and back.
\<close>

theorem stat_roundtrip:
  assumes "pending y (stat_request ID_STAT_V2 p @ rest)" "length p \<le> 1024" "CHR 0x00 \<notin> set p" "willing 72 y"
  shows "\<exists>y'. handle_sync_command sys fresh C y = pret (True, y') \<and> pending y' rest \<and>
    (\<forall>sc more. have_stat_v2 sc \<longrightarrow> willing (length (stat_request ID_STAT_V2 p)) (sc_y sc) \<longrightarrow> pending (sc_y sc) (drop (length (answered y)) (answered y') @ more) \<longrightarrow>
       (\<exists>sc'. sync_stat number p sc = pret (case sys_stat sys p (y_fs y) of Inl e \<Rightarrow> None | Inr st \<Rightarrow> Some st, sc') \<and> pending (sc_y sc') more
          \<and> (\<forall>e. sys_stat sys p (y_fs y) = Inl e \<longrightarrow> sc_errno sc' = errno_from_wire number (errno_to_wire linux_errno e))))"
proof -
  from stat_command [OF _ assms, of sys fresh C] obtain y' where "handle_sync_command sys fresh C y = pret (True, y')"
    "answered y' = answered y @ stat_answer sys ID_STAT_V2 p (y_fs y)" "pending y' rest" by blast
  then show ?thesis using sync_stat_ok [OF _ assms(2), where sys = sys and f = "y_fs y" and number = number] by (intro exI [of _ y']) (simp, blast)
qed

theorem stat_roundtrip_witness:
  "\<exists>y'. handle_sync_command ref_sys (\<lambda>_. CHR ''x'') (undefined :: unit codecs) (example_end (stat_request ID_STAT_V2 ''/f'' @ []) False [(''/f'', ''hello'')]) = pret (True, y') \<and> pending y' [] \<and>
    (\<forall>sc more. have_stat_v2 sc \<longrightarrow> willing (length (stat_request ID_STAT_V2 ''/f'')) (sc_y sc)
       \<longrightarrow> pending (sc_y sc) (drop (length (answered (example_end (stat_request ID_STAT_V2 ''/f'' @ []) False [(''/f'', ''hello'')]))) (answered y') @ more) \<longrightarrow>
       (\<exists>sc'. sync_stat linux_errno ''/f'' sc = pret (case sys_stat ref_sys ''/f'' (y_fs (example_end (stat_request ID_STAT_V2 ''/f'' @ []) False [(''/f'', ''hello'')])) of Inl e \<Rightarrow> None | Inr st \<Rightarrow> Some st, sc') \<and> pending (sc_y sc') more
          \<and> (\<forall>e. sys_stat ref_sys ''/f'' (y_fs (example_end (stat_request ID_STAT_V2 ''/f'' @ []) False [(''/f'', ''hello'')])) = Inl e
              \<longrightarrow> sc_errno sc' = errno_from_wire linux_errno (errno_to_wire linux_errno e))))"
  by (rule stat_roundtrip) simp_all

subsection \<open>Transfers that go wrong\<close>

lemma remote_parents_root: "remote_parents D p dirs = Some ds \<Longrightarrow> \<exists>k. is_root_dir ((D ^^ k) p)"
proof -
  assume "remote_parents D p dirs = Some ds"
  then show ?thesis
  proof (rule remote_parents.raw_induct [rotated], goal_cases)
    case (1 f D p dirs ds)
    show ?case
    proof (cases "is_root_dir p")
      case True
      then show ?thesis by (intro exI [of _ 0]) simp
    next
      case False
      then have "f D (D p) (dirs @ [p]) = Some ds" using 1(2) by simp
      from 1(1) [OF this] obtain k where "is_root_dir ((D ^^ k) (D p))" by blast
      then show ?thesis by (intro exI [of _ "Suc k"]) (simp add: funpow_swap1)
    qed
  qed
qed



lemma stuck_drain:
  assumes "Decode C t d = pret (DR_MoreOutput, [], d)"
  shows "drain_decoder sys C t fd d y = None"
proof (rule ccontr)
  assume "drain_decoder sys C t fd d y \<noteq> None"
  then obtain r where "drain_decoder sys C t fd d y = Some r" by auto
  then have "Decode C t d \<noteq> pret (DR_MoreOutput, [], d)"
  proof (rule drain_decoder.raw_induct [rotated], goal_cases)
    case (1 f sys C t fd d y r)
    show ?case
    proof
      assume d: "Decode C t d = pret (DR_MoreOutput, [], d)"
      have "(case fd of None \<Rightarrow> pret (True, y) | Some h \<Rightarrow> write_file sys h [] y) = pret (True, y)" by (cases fd) (simp_all add: write_file.simps)
      then have "f sys C t fd d y = Some r" using 1(2) d by simp
      from 1(1) [OF this] d show False by simp
    qed
  qed
  then show False using assms by simp
qed


text \<open>A library whose frames have a header of seven bytes, of which it has seen none.\<close>

definition example_codecs :: "unit codecs" where
  "example_codecs = undefined\<lparr>LZ4F_createDecompressionContext := Some (), LZ4F_decompress := \<lambda>_ _ _. (Some (Suc 6), 0, [], ())\<rparr>"


end
