(* ===== verification/Spec2Isabelle.thy ===== *)
theory Spec2Isabelle
  imports Packet_Reader Shell_Protocol Socket_Properties Nonblocking_Connection Connection_Adapter Mdns_Properties File_Sync_Properties
begin

text \<open>
  A verification development for adb, the Android Debug Bridge.

  \<^bold>\<open>The program.\<close> A server on the host and a daemon on the device exchange packets over USB or TCP. A packet is
  a header of 24 bytes and a payload. Each link is a transport with a connection below it, which runs in
  threads of its own. The main thread handles the packets of all transports: it shakes hands, authenticates,
  and multiplexes streams, each a pair of sockets, one of which is a descriptor or a service and the other the
  far side. The host also looks for devices with multicast DNS. One of the services copies files.

  \<^bold>\<open>Conventions\<close> (\<open>Adb_Prelude\<close>, \<open>Number_Format\<close>, \<open>Libbase\<close>, \<open>State_Machine\<close>). A definition has the name of
  the function it translates. A branch that aborts the program or has no defined behaviour (\<open>CHECK\<close>,
  \<open>LOG(FATAL)\<close>, an index out of range, a null or dangling pointer) is a value \<open>Inl fault\<close>. Machine integers
  that can wrap are words. What the kernel, the peer, a library or a random generator answers is an argument.
  Loops that may not end are \<open>partial_function (option)\<close>, and that they return is proved. Threads are steps of
  a relation, one for each section under a lock; \<open>machine\<close> is the contract of an invariant of such steps.

  \<^bold>\<open>Buffers and packets.\<close> \<open>Block\<close> and \<open>IOVec\<close> are \<open>types.h\<close> and \<open>types.cpp\<close>; \<open>Byte_Queue\<close> is the contract of a
  queue of bytes that \<open>IOVector\<close> is shown to meet. \<open>Packet\<close> has the messages of \<open>types.h\<close>, the constants of
  \<open>adb.h\<close> and the checks of \<open>transport.cpp\<close>; \<open>Packet_Reader\<close> is \<open>apacket_reader.cpp\<close>. Shown: the vector is a
  first-in first-out queue and all its readers agree; the reader reassembles a stream cut anywhere.

  \<^bold>\<open>Strings.\<close> \<open>Adb_Io\<close> is \<open>adb_io.cpp\<close>, \<open>Shell_Protocol\<close> is \<open>shell_service_protocol.cpp\<close>, \<open>Adb_Utils\<close> is a part
  of \<open>adb_utils.cpp\<close>, \<open>Host_Service\<close> the parser of host services of \<open>sockets.cpp\<close>. Shown: round trips however
  a transfer is cut, quoting against a model of the shell, and where the parsers fail.

  \<^bold>\<open>Connections.\<close> \<open>Connection\<close> has \<open>FdConnection\<close> and \<open>UsbConnection\<close> (\<open>transport.cpp\<close>,
  \<open>client/transport_usb.cpp\<close>), \<open>Nonblocking_Connection\<close> is \<open>transport_fd.cpp\<close>, and \<open>Connection_Adapter\<close> the
  threads of \<open>BlockingConnectionAdapter\<close>. Shown: packets arrive as they were sent, in every interleaving;
  errors are reported once; and the races that are left.

  \<^bold>\<open>Transports and sockets.\<close> \<open>Transport\<close> is the state of \<open>atransport\<close> and the functions on it. \<open>Sockets\<close> is
  \<open>sockets.cpp\<close> on a heap of objects; \<open>Socket_Safety\<close>, \<open>Socket_Flow\<close> and \<open>Socket_Links\<close> show that every
  operation keeps the heap well formed and follows no bad pointer. The depth of nested closes is bounded by
  \<open>close_depth\<close>, 4: a close reaches the peer and comes back at most once on each side, and the fault
  \<open>Out_of_fuel\<close> is shown not to occur. \<open>Socket_Properties\<close> has the order of data, the flow control and the end
  of \<open>close_all_sockets\<close>.

  \<^bold>\<open>Packets and authentication.\<close> \<open>Packet_Handler\<close> is \<open>handle_packet\<close> of \<open>adb.cpp\<close> for both sides, with
  \<open>daemon/auth.cpp\<close>, \<open>daemon/adb_wifi.cpp\<close> and \<open>client/auth.cpp\<close>; the argument \<open>p_adb_host\<close> stands for
  \<open>ADB_HOST\<close>. \<open>Handler_Safety\<close> shows that no packet makes it follow a bad pointer, \<open>Auth_Protocol\<close> that only a
  valid signature brings a transport online, that the handshake completes, and its flaws.

  \<^bold>\<open>Discovery.\<close> \<open>Index_Min_PQ\<close>, \<open>Mdns_Records\<close> and \<open>Zero_Config\<close> are \<open>index_min_pq.rs\<close>, \<open>rr.rs\<close> with
  \<open>store.rs\<close>, and \<open>zero_config.rs\<close> of \<open>client/adbmdns\<close>. Times are nanoseconds; seconds as \<open>f64\<close> are rationals
  rounded to 53 bits (\<open>Float64\<close>; the exponent is not bounded, as the values lie between a nanosecond and
  \<open>2^32\<close> seconds). \<open>Mdns_Lifetimes\<close> has the rounding of the attention times, \<open>Mdns_Invariant\<close> that the queue
  and the store hold the same records, \<open>Mdns_Properties\<close> that the server is told exactly the services of the
  store, that each is backed by records that are alive, and when a tick returns.

  \<^bold>\<open>Files.\<close> \<open>Adb_Prog\<close> has programs that fault or do not return. \<open>Compression\<close> is \<open>compression_utils.h\<close>, over a record
  of the stream functions of the three libraries. \<open>File_Sync_Protocol\<close> has the messages of
  \<open>file_sync_protocol.h\<close>, the error numbers of \<open>sysdeps/errno.cpp\<close>, the system calls as a record \<open>sys\<close> of functions
  on a file system of any type, and what a file system promises (\<open>fs_ok\<close>). \<open>File_Sync_Service\<close> is
  \<open>daemon/file_sync_service.cpp\<close>; \<open>File_Sync_Client\<close> and \<open>File_Sync_Copy\<close> are \<open>client/file_sync_client.cpp\<close>, its class
  \<open>SyncConnection\<close> and its commands. \<open>File_Sync_Push\<close> and \<open>File_Sync_Pull\<close> follow a file through the device and
  \<open>File_Sync_Transfer\<close> through the client, with \<open>decoding\<close> and \<open>encoding\<close> as the contracts of the codecs;
  \<open>File_Sync_Listing\<close> does the same for lists and \<open>stat\<close>, and \<open>File_Sync_Confined\<close> follows the local system calls of
  a pull. \<open>File_Sync_Properties\<close> puts the two ends together. Shown: an uncompressed file arrives as it was or the user is
  told; a pull stays below its destination whatever the device sends; lists and states are seen as they are; and
  where a transfer never ends.

  \<^bold>\<open>Not modelled.\<close> System calls and what surrounds them: the event loop over \<open>poll\<close> and \<open>epoll\<close>, USB drivers,
  subprocesses, terminals, progress output, Windows emulation; cryptography and TLS, whose outcomes are
  arguments; the command line, installation and fast deploy; the drivers of the discovery backends; and the
  parts of \<open>transport.cpp\<close> that own the list of transports and reconnect them.
\<close>

end
